(* ===== verification/Lbf_Prelude.thy ===== *)
theory Lbf_Prelude
  imports Main "HOL-Library.Word"
begin

text \<open>
  Shared vocabulary of the development: byte strings, the little-endian integer codec of
  \<^verbatim>\<open>encoding/binary\<close>, Go errors as values, the early-return combinator that renders
  \<^verbatim>\<open>if err != nil { return err }\<close>, the schedule of environment failures, and the generic
  lemmas on lists and words the components use.
\<close>

unbundle bit_operations_syntax

named_theorems err_simps \<open>equations of the error combinators\<close>
named_theorems eval_simps \<open>unfolding on numerals, for closed terms\<close>
named_theorems const_simps \<open>values of the named constants of the source\<close>

type_synonym byte = "8 word"
type_synonym bytes = "8 word list"
type_synonym u32 = "32 word"
type_synonym u64 = "64 word"

subsection \<open>Go errors\<close>

text \<open>
  An error is its text together with what \<^verbatim>\<open>errors.Is\<close> can see: a plain error
  (\<^verbatim>\<open>fmt.Errorf\<close> without \<^verbatim>\<open>%w\<close>, or an error of the environment), a package-level
  sentinel (\<^verbatim>\<open>errors.New\<close> bound to a variable), a wrapped error
  (\<^verbatim>\<open>fmt.Errorf("prefix%w suffix")\<close>), the two-operand wrap \<^verbatim>\<open>"%w: %w"\<close> and the
  coordinator's \<^verbatim>\<open>StatusError\<close> (status, code, cause).
\<close>

datatype error =
    Err string
  | Sentinel string
  | Wrap string error string
  | Wrap2 error error
  | StatusError int string error

fun error_text :: "error \<Rightarrow> string" where
  "error_text (Err m) = m"
| "error_text (Sentinel m) = m"
| "error_text (Wrap p e q) = p @ error_text e @ q"
| "error_text (Wrap2 e1 e2) = error_text e1 @ '': '' @ error_text e2"
| "error_text (StatusError n c e) = error_text e"

fun errors_Is :: "error \<Rightarrow> error \<Rightarrow> bool" where
  "errors_Is (Err m) t = (Err m = t)"
| "errors_Is (Sentinel m) t = (Sentinel m = t)"
| "errors_Is (Wrap p e q) t = (Wrap p e q = t \<or> errors_Is e t)"
| "errors_Is (Wrap2 e1 e2) t = (Wrap2 e1 e2 = t \<or> errors_Is e1 t \<or> errors_Is e2 t)"
| "errors_Is (StatusError n c e) t = (StatusError n c e = t \<or> errors_Is e t)"

type_synonym ('s, 'a) result = "(error + 'a) \<times> 's"

text \<open>\<open>tryE r k\<close> is \<^verbatim>\<open>x, err := r; if err != nil { return err }; k(x)\<close>.\<close>

fun tryE :: "('s, 'a) result \<Rightarrow> ('a \<Rightarrow> 's \<Rightarrow> ('s, 'b) result) \<Rightarrow> ('s, 'b) result" where
  "tryE (Inl e, s) k = (Inl e, s)"
| "tryE (Inr x, s) k = k x s"

text \<open>\<open>wrapE p r\<close> is \<^verbatim>\<open>fmt.Errorf("p%w", err)\<close> on the error branch of \<open>r\<close>.\<close>

fun wrapE :: "string \<Rightarrow> ('s, 'a) result \<Rightarrow> ('s, 'a) result" where
  "wrapE p (Inl e, s) = (Inl (Wrap p e []), s)"
| "wrapE p (Inr x, s) = (Inr x, s)"

lemma tryE_cases [err_simps]:
  "tryE r k = (case r of (Inl e, s) \<Rightarrow> (Inl e, s) | (Inr x, s) \<Rightarrow> k x s)"
  by (cases "(r, k)" rule: tryE.cases) auto

lemma tryE_Inr_iff:
  "tryE r k = (Inr y, t) \<longleftrightarrow> (\<exists>x s. r = (Inr x, s) \<and> k x s = (Inr y, t))"
  by (cases "(r, k)" rule: tryE.cases) auto

lemma tryE_Inl_iff:
  "tryE r k = (Inl e, t) \<longleftrightarrow> r = (Inl e, t) \<or> (\<exists>x s. r = (Inr x, s) \<and> k x s = (Inl e, t))"
  by (cases "(r, k)" rule: tryE.cases) auto

lemma wrapE_Inr_iff: "wrapE p r = (Inr y, t) \<longleftrightarrow> r = (Inr y, t)"
  by (cases "(p, r)" rule: wrapE.cases) auto

lemma wrapE_Inl_iff:
  "wrapE p r = (Inl e, t) \<longleftrightarrow> (\<exists>e'. e = Wrap p e' [] \<and> r = (Inl e', t))"
  by (cases "(p, r)" rule: wrapE.cases) auto

lemmas tryE_iffs = tryE_Inr_iff tryE_Inl_iff wrapE_Inr_iff wrapE_Inl_iff

text \<open>A predicate on states survives \<open>tryE\<close> when both parts keep it.\<close>

lemma tryE_inv:
  assumes "P (snd r)" and "\<And>x s. r = (Inr x, s) \<Longrightarrow> P s \<Longrightarrow> P (snd (k x s))"
  shows "P (snd (tryE r k))"
  using assms by (cases "(r, k)" rule: tryE.cases) auto

lemma tryE_E:
  assumes "tryE m k = (r, s')"
  obtains (error) e where "m = (Inl e, s')" "r = Inl e" | (ok) x s1 where "m = (Inr x, s1)" "k x s1 = (r, s')"
  using assms by (cases "(m, k)" rule: tryE.cases) auto

lemma snd_wrapE [simp]: "snd (wrapE p r) = snd r"
  by (cases "(p, r)" rule: wrapE.cases) auto

subsection \<open>Failures of the environment\<close>

text \<open>
  Every call into the operating system, the database or the network takes the next
  element of a schedule: \<open>Pass\<close> lets it succeed, \<open>Fail n m\<close> makes it fail with text
  \<open>m\<close> after \<open>n\<close> units of progress (bytes of a short write; for a commit, whether the
  server had already made it durable). An exhausted schedule lets every further call pass.
  Theorems quantify over all schedules, so they cover every error path of the source.
\<close>

datatype fault = Pass | Fail nat string

fun next_fault :: "fault list \<Rightarrow> fault \<times> fault list" where
  "next_fault [] = (Pass, [])"
| "next_fault (f # fs) = (f, fs)"

lemma next_fault_Nil_iff [simp]: "next_fault fs = (Pass, []) \<longleftrightarrow> fs = [] \<or> fs = [Pass]"
  by (cases fs) auto

subsection \<open>Little-endian integers (\<^verbatim>\<open>encoding/binary\<close>)\<close>

fun le_put :: "nat \<Rightarrow> 'a::len word \<Rightarrow> bytes" where
  "le_put 0 w = []"
| "le_put (Suc n) w = ucast w # le_put n (drop_bit 8 w)"

fun le_get :: "bytes \<Rightarrow> 'a::len word" where
  "le_get [] = 0"
| "le_get (b # bs) = ucast b OR push_bit 8 (le_get bs)"

lemma le_put_numeral [eval_simps]: "le_put (numeral n) w = ucast w # le_put (pred_numeral n) (drop_bit 8 w)"
  by (simp add: numeral_eq_Suc)

lemma replicate_numeral_Cons [eval_simps]: "replicate (numeral n) x = x # replicate (pred_numeral n) x"
  by (simp add: numeral_eq_Suc)

lemma length_le_put [simp]: "length (le_put n w) = n"
  by (induction n arbitrary: w) auto

lemma bit_le_get_le_put:
  "bit (le_get (le_put n w) :: 'a::len word) i \<longleftrightarrow> i < 8 * n \<and> bit (w :: 'a word) i"
proof (induction n arbitrary: w i)
  case 0
  then show ?case by simp
next
  case (Suc n)
  show ?case
    by (auto simp: bit_simps Suc dest: bit_imp_le_length)
qed

lemma le_get_le_put [simp]:
  fixes w :: "'a::len word"
  assumes "LENGTH('a) \<le> 8 * n"
  shows "le_get (le_put n w) = w"
  by (rule bit_word_eqI) (use assms in \<open>auto simp: bit_le_get_le_put\<close>)

lemma bit_byte_bound [dest]: "bit (b :: byte) i \<Longrightarrow> i < 8"
  using bit_imp_le_length [of b i] by simp

lemma drop_bit_le_get_Cons:
  assumes "8 * Suc (length bs) \<le> LENGTH('a)"
  shows "drop_bit 8 (ucast (b :: byte) OR push_bit 8 (le_get bs) :: 'a::len word) = le_get bs"
proof (rule bit_word_eqI)
  fix i assume "i < LENGTH('a)"
  have high: "\<not> bit (le_get bs :: 'a word) j" if "8 * length bs \<le> j" for j
    using that
  proof (induction bs arbitrary: j)
    case Nil
    then show ?case by simp
  next
    case (Cons b bs)
    then show ?case by (auto simp: bit_simps dest: bit_imp_le_length)
  qed
  show "bit (drop_bit 8 (ucast b OR push_bit 8 (le_get bs)) :: 'a word) i = bit (le_get bs :: 'a word) i"
    using assms high [of i]
    by (cases "i < 8 * length bs") (auto simp: bit_simps dest: bit_imp_le_length)
qed

lemma le_put_le_get [simp]:
  assumes "length bs = n" and "8 * n \<le> LENGTH('a)"
  shows "le_put n (le_get bs :: 'a::len word) = bs"
  using assms
proof (induction bs arbitrary: n)
  case Nil
  then show ?case by simp
next
  case (Cons b bs)
  have hd: "(ucast (ucast b OR push_bit 8 (le_get bs) :: 'a word) :: byte) = b"
    by (rule bit_word_eqI) (use Cons.prems in \<open>auto simp: bit_simps\<close>)
  from Cons show ?case
    by (auto simp: hd drop_bit_le_get_Cons simp del: drop_bit_or)
qed

definition PutUint32 :: "u32 \<Rightarrow> bytes" where
  "PutUint32 w = le_put 4 w"

definition Uint32 :: "bytes \<Rightarrow> u32" where
  "Uint32 bs = le_get (take 4 bs)"

definition PutUint64 :: "u64 \<Rightarrow> bytes" where
  "PutUint64 w = le_put 8 w"

definition Uint64 :: "bytes \<Rightarrow> u64" where
  "Uint64 bs = le_get (take 8 bs)"

lemma length_PutUint [simp]: "length (PutUint32 w) = 4" "length (PutUint64 v) = 8"
  by (simp_all add: PutUint32_def PutUint64_def)

lemma Uint32_PutUint32 [simp]: "Uint32 (PutUint32 w @ rest) = w"
  by (simp add: Uint32_def PutUint32_def)

lemma Uint64_PutUint64 [simp]: "Uint64 (PutUint64 w @ rest) = w"
  by (simp add: Uint64_def PutUint64_def)

lemma Uint32_PutUint32_only [simp]: "Uint32 (PutUint32 w) = w"
  using Uint32_PutUint32 [of w "[]"] by simp

lemma Uint64_PutUint64_only [simp]: "Uint64 (PutUint64 w) = w"
  using Uint64_PutUint64 [of w "[]"] by simp

lemma PutUint32_Uint32 [simp]: "length bs = 4 \<Longrightarrow> PutUint32 (Uint32 bs) = bs"
  by (simp add: PutUint32_def Uint32_def)

lemma PutUint64_Uint64 [simp]: "length bs = 8 \<Longrightarrow> PutUint64 (Uint64 bs) = bs"
  by (simp add: PutUint64_def Uint64_def)

subsection \<open>Slices\<close>

text \<open>\<open>subslice i j xs\<close> is Go's \<^verbatim>\<open>xs[i:j]\<close>, for bounds the code keeps within the subslice.\<close>

definition subslice :: "nat \<Rightarrow> nat \<Rightarrow> 'a list \<Rightarrow> 'a list" where
  "subslice i j xs = take (j - i) (drop i xs)"

lemma length_subslice [simp]: "j \<le> length xs \<Longrightarrow> length (subslice i j xs) = j - i"
  by (simp add: subslice_def)

lemma subslice_append_left [simp]: "j \<le> length xs \<Longrightarrow> subslice i j (xs @ ys) = subslice i j xs"
  by (cases "i \<le> j") (simp_all add: subslice_def)

lemma subslice_append_right [simp]:
  "length xs \<le> i \<Longrightarrow> subslice i j (xs @ ys) = subslice (i - length xs) (j - length xs) ys"
  by (simp add: subslice_def)

lemma subslice_prefix [simp]: "subslice 0 j xs = take j xs"
  by (simp add: subslice_def)

lemma subslice_drop [simp]: "subslice i j (drop k xs) = subslice (k + i) (k + j) xs"
  by (simp add: subslice_def add.commute)

lemma subslice_take: "j \<le> k \<Longrightarrow> subslice i j (take k xs) = subslice i j xs"
  by (simp add: subslice_def drop_take min_absorb1)

lemma subslice_subslice:
  "i + l \<le> j \<Longrightarrow> subslice k l (subslice i j xs) = subslice (i + k) (i + l) xs"
  by (simp add: subslice_def drop_take min_absorb1 add.commute)

lemma subslice_append_mid: "length xs = i \<Longrightarrow> j = i + length ys \<Longrightarrow> subslice i j (xs @ ys @ zs) = ys"
  by (simp add: subslice_def)

subsection \<open>Decimal numbers in strings\<close>

definition digit_char :: "nat \<Rightarrow> char" where
  "digit_char n = ''0123456789'' ! n"

definition char_digit :: "char \<Rightarrow> nat" where
  "char_digit c = of_char c - 48"

definition is_digit :: "char \<Rightarrow> bool" where
  "is_digit c \<longleftrightarrow> c \<in> set ''0123456789''"

fun decimal :: "nat \<Rightarrow> string" where
  "decimal n = (if n < 10 then [digit_char n] else decimal (n div 10) @ [digit_char (n mod 10)])"

declare decimal.simps [simp del]

definition undecimal :: "string \<Rightarrow> nat" where
  "undecimal s = foldl (\<lambda>a c. 10 * a + char_digit c) 0 s"

text \<open>\<^verbatim>\<open>strconv.Itoa\<close> and the verb \<^verbatim>\<open>%d\<close>.\<close>

definition itoa :: "int \<Rightarrow> string" where
  "itoa i = (if i < 0 then ''-'' @ decimal (nat (- i)) else decimal (nat i))"

lemma char_digit_digit_char [simp]: "n < 10 \<Longrightarrow> char_digit (digit_char n) = n"
  by (auto simp: char_digit_def digit_char_def less_Suc_eq numeral_eq_Suc)

lemma is_digit_digit_char [simp]: "n < 10 \<Longrightarrow> is_digit (digit_char n)"
  unfolding is_digit_def digit_char_def by (rule nth_mem) simp

lemma decimal_digits: "c \<in> set (decimal n) \<Longrightarrow> is_digit c"
proof (induction n rule: decimal.induct)
  case (1 n)
  then show ?case
    by (cases "n < 10") (auto simp: decimal.simps [of n])
qed

lemma decimal_nonempty [simp]: "decimal n \<noteq> []"
  by (simp add: decimal.simps [of n])

lemma undecimal_snoc [simp]: "undecimal (s @ [c]) = 10 * undecimal s + char_digit c"
  by (simp add: undecimal_def)

lemma undecimal_decimal [simp]: "undecimal (decimal n) = n"
proof (induction n rule: decimal.induct)
  case (1 n)
  show ?case
  proof (cases "n < 10")
    case True
    then show ?thesis
      using undecimal_snoc [of "[]" "digit_char n"] by (simp add: decimal.simps [of n] undecimal_def)
  next
    case False
    with 1 show ?thesis by (simp add: decimal.simps [of n])
  qed
qed

lemma undecimal_zeros [simp]: "undecimal (replicate k (CHR ''0'') @ s) = undecimal s"
  by (induction k) (simp_all add: undecimal_def char_digit_def)

lemma length_decimal: "n < 10 ^ Suc k \<Longrightarrow> length (decimal n) \<le> Suc k"
proof (induction k arbitrary: n)
  case 0
  then show ?case by (simp add: decimal.simps [of n])
next
  case (Suc k)
  show ?case
  proof (cases "n < 10")
    case True
    then show ?thesis by (simp add: decimal.simps [of n])
  next
    case False
    from Suc.prems have "n div 10 < 10 ^ Suc k" by auto
    with Suc.IH False show ?thesis by (simp add: decimal.simps [of n])
  qed
qed


subsection \<open>ASCII strings\<close>

definition lower_char :: "char \<Rightarrow> char" where
  "lower_char c = (let n = of_char c :: nat in if 65 \<le> n \<and> n \<le> 90 then char_of (n + 32) else c)"

text \<open>\<^verbatim>\<open>strings.HasSuffix\<close> and \<^verbatim>\<open>strings.HasPrefix\<close>.\<close>

definition HasSuffix :: "string \<Rightarrow> string \<Rightarrow> bool" where
  "HasSuffix v sfx \<longleftrightarrow> length sfx \<le> length v \<and> drop (length v - length sfx) v = sfx"

definition HasPrefix :: "string \<Rightarrow> string \<Rightarrow> bool" where
  "HasPrefix v pre \<longleftrightarrow> take (length pre) v = pre"

text \<open>\<^verbatim>\<open>strings.ToLower\<close> and \<^verbatim>\<open>strings.TrimSpace\<close> on ASCII text.\<close>

definition ToLower :: "string \<Rightarrow> string" where
  "ToLower v = map lower_char v"

definition is_space :: "char \<Rightarrow> bool" where
  "is_space c \<longleftrightarrow> (let n = of_char c :: nat in n = 32 \<or> 9 \<le> n \<and> n \<le> 13)"

definition TrimSpace :: "string \<Rightarrow> string" where
  "TrimSpace v = rev (dropWhile is_space (rev (dropWhile is_space v)))"

subsection \<open>Database types\<close>

text \<open>Instants, and the ranges of \<^verbatim>\<open>SMALLINT\<close> and \<^verbatim>\<open>INT\<close>.\<close>

type_synonym time = int

definition int2 :: "int \<Rightarrow> bool" where
  "int2 i \<longleftrightarrow> - 32768 \<le> i \<and> i \<le> 32767"

definition int4 :: "int \<Rightarrow> bool" where
  "int4 i \<longleftrightarrow> - 2147483648 \<le> i \<and> i \<le> 2147483647"

end
