(* ===== verification/Checksum.thy ===== *)
theory Checksum
  imports Lbf_Prelude
begin

text \<open>
  The CRC-32 of \<^verbatim>\<open>hash/crc32\<close>, as the storage layer uses it: the Castagnoli
  polynomial for record trailers (\<^verbatim>\<open>storage/record.go\<close>) and the IEEE polynomial for the
  index footer (\<^verbatim>\<open>storage/segment_index.go\<close>). The table-driven update of the library
  is defined as it is, shown equal to the bitwise division it optimises, and shown to be
  injective in every single byte of its input.
\<close>

subsection \<open>The table-driven checksum\<close>

definition Castagnoli :: u32 where [const_simps]: "Castagnoli = 0x82F63B78"
definition IEEE :: u32 where [const_simps]: "IEEE = 0xEDB88320"

definition crc_shift :: "u32 \<Rightarrow> u32 \<Rightarrow> u32" where
  "crc_shift poly c = (if bit c 0 then drop_bit 1 c XOR poly else drop_bit 1 c)"

definition crc_table :: "u32 \<Rightarrow> byte \<Rightarrow> u32" where
  "crc_table poly i = (crc_shift poly ^^ 8) (ucast i)"

definition crc_step :: "u32 \<Rightarrow> u32 \<Rightarrow> byte \<Rightarrow> u32" where
  "crc_step poly c v = crc_table poly (ucast c XOR v) XOR drop_bit 8 c"

definition crc_update :: "u32 \<Rightarrow> u32 \<Rightarrow> bytes \<Rightarrow> u32" where
  "crc_update poly c p = NOT (foldl (crc_step poly) (NOT c) p)"

definition crc_checksum :: "u32 \<Rightarrow> bytes \<Rightarrow> u32" where
  "crc_checksum poly p = crc_update poly 0 p"

lemma word_xor_cancel [simp]:
  fixes a b c :: "'a::len word"
  shows "a XOR c = b XOR c \<longleftrightarrow> a = b" and "c XOR a = c XOR b \<longleftrightarrow> a = b"
  by (auto simp: bit_eq_iff bit_simps)

subsection \<open>The step is eight shifts of the register\<close>

lemma crc_shift_xor: "crc_shift poly (a XOR b) = crc_shift poly a XOR crc_shift poly b"
  by (rule bit_word_eqI) (auto simp: crc_shift_def bit_simps)

lemma crc_shifts_xor: "(crc_shift poly ^^ n) (a XOR b) = (crc_shift poly ^^ n) a XOR (crc_shift poly ^^ n) b"
  by (induction n) (simp_all add: crc_shift_xor)

lemma crc_shifts_low_zero:
  assumes "\<And>i. i < n \<Longrightarrow> \<not> bit a i"
  shows "(crc_shift poly ^^ n) a = drop_bit n a"
  using assms
proof (induction n arbitrary: a)
  case 0
  then show ?case by simp
next
  case (Suc n)
  have "\<not> bit a 0" and "\<And>i. i < n \<Longrightarrow> \<not> bit (drop_bit 1 a) i"
    using Suc.prems by (auto simp: bit_simps)
  then show ?case
    using Suc.IH [of "drop_bit 1 a"]
    by (simp add: funpow_Suc_right crc_shift_def del: funpow.simps)
qed

lemma crc_step_shifts: "crc_step poly c v = (crc_shift poly ^^ 8) (c XOR ucast v)"
proof -
  define hi where "hi = push_bit 8 (drop_bit 8 c)"
  have split: "c XOR ucast v = ucast (ucast c XOR v :: byte) XOR hi"
    by (rule bit_word_eqI) (auto simp: hi_def bit_simps)
  have "(crc_shift poly ^^ 8) hi = drop_bit 8 hi"
    by (rule crc_shifts_low_zero) (auto simp: hi_def bit_simps)
  moreover have "drop_bit 8 hi = drop_bit 8 c"
    by (rule bit_word_eqI) (auto simp: hi_def bit_simps dest: bit_imp_le_length)
  ultimately show ?thesis
    by (simp add: split crc_shifts_xor crc_step_def crc_table_def)
qed

subsection \<open>Injectivity: no change of a single byte goes unnoticed\<close>

lemma crc_shift_inj:
  assumes "bit poly 31"
  shows "inj (crc_shift poly)"
proof (rule injI)
  fix a b assume eq: "crc_shift poly a = crc_shift poly b"
  have top: "bit (crc_shift poly x) 31 = bit x 0" for x
    using assms by (auto simp: crc_shift_def bit_simps dest: bit_imp_le_length)
  from eq top [of a] top [of b] have low: "bit a 0 = bit b 0" by simp
  with eq have "drop_bit 1 a = drop_bit 1 b"
    by (auto simp: crc_shift_def split: if_splits)
  then have high: "bit a (Suc i) = bit b (Suc i)" for i
    by (metis bit_drop_bit_eq comp_apply plus_1_eq_Suc)
  show "a = b"
  proof (rule bit_word_eqI)
    fix i show "bit a i = bit b i"
      using low high by (cases i) auto
  qed
qed

lemma crc_shifts_inj: "bit poly 31 \<Longrightarrow> inj (crc_shift poly ^^ n)"
  by (induction n) (auto intro: inj_compose crc_shift_inj)

lemma crc_step_eq_state_iff:
  "bit poly 31 \<Longrightarrow> crc_step poly a v = crc_step poly b v \<longleftrightarrow> a = b"
  by (simp add: crc_step_shifts inj_eq [OF crc_shifts_inj])

lemma ucast_byte_inj: "(ucast (v :: byte) :: u32) = ucast w \<Longrightarrow> v = w"
proof (rule bit_word_eqI)
  fix i assume eq: "(ucast v :: u32) = ucast w" and "i < LENGTH(8)"
  have "bit (ucast v :: u32) i = bit (ucast w :: u32) i" by (simp only: eq)
  then show "bit v i = bit w i" using \<open>i < LENGTH(8)\<close> by (simp add: bit_simps)
qed

lemma crc_step_eq_byte_iff:
  "bit poly 31 \<Longrightarrow> crc_step poly c v = crc_step poly c w \<longleftrightarrow> v = w"
proof
  assume "bit poly 31" and "crc_step poly c v = crc_step poly c w"
  then have "c XOR (ucast v :: u32) = c XOR ucast w"
    by (simp add: crc_step_shifts inj_eq [OF crc_shifts_inj])
  then have "(ucast v :: u32) = ucast w" by simp
  then show "v = w" by (rule ucast_byte_inj)
qed simp

lemma foldl_crc_step_eq_iff:
  "bit poly 31 \<Longrightarrow> foldl (crc_step poly) a p = foldl (crc_step poly) b p \<longleftrightarrow> a = b"
  by (induction p arbitrary: a b) (simp_all add: crc_step_eq_state_iff)

lemma crc_checksum_one_byte:
  assumes "bit poly 31"
  shows "crc_checksum poly (xs @ x # ys) = crc_checksum poly (xs @ y # ys) \<longleftrightarrow> x = y"
  using assms
  by (simp add: crc_checksum_def crc_update_def foldl_crc_step_eq_iff crc_step_eq_byte_iff)

lemma crc_polynomials_top [simp]: "bit Castagnoli 31" "bit IEEE 31"
  by (simp_all add: const_simps)

subsection \<open>The check values of the two polynomials\<close>

text \<open>The CRC catalogue's check value: the checksum of the nine ASCII digits 1 to 9.\<close>

definition check_digits :: bytes where
  "check_digits = [0x31, 0x32, 0x33, 0x34, 0x35, 0x36, 0x37, 0x38, 0x39]"

lemma shifts8: "(f ^^ 8) x = f (f (f (f (f (f (f (f x)))))))"
  by (simp add: eval_nat_numeral)

lemma crc_check_values:
  "crc_checksum Castagnoli check_digits = 0xE3069283"
  "crc_checksum IEEE check_digits = 0xCBF43926"
  by (simp_all add: crc_checksum_def crc_update_def check_digits_def crc_step_shifts
      shifts8 crc_shift_def const_simps)

end
