(* ===== verification/Record_Format.thy ===== *)
theory Record_Format
  imports Checksum
begin

text \<open>
  The on-disk record and footer formats of \<^verbatim>\<open>internal/storage/record.go\<close>:
  \<^verbatim>\<open>[magic:4][size:4][payload:size][crc32c:4]\<close> records and the 32-byte segment footer.
  The locale \<open>fixed_codec\<close> is the contract of a fixed-width encoder; the segment footer,
  the index entry and the hot-index entry interpret it.
\<close>

subsection \<open>Constants and record types\<close>

definition MagicXML :: u32 where [const_simps]: "MagicXML = 0x584D4C31"
definition MagicXMLC :: u32 where [const_simps]: "MagicXMLC = 0x584D4C32"
definition MagicZIP :: u32 where [const_simps]: "MagicZIP = 0x5A495031"
definition MagicERR :: u32 where [const_simps]: "MagicERR = 0x45525231"
definition FooterMagic :: u32 where [const_simps]: "FooterMagic = 0x464F4F54"

abbreviation (input) HeaderSize :: nat where "HeaderSize \<equiv> 8"
abbreviation (input) ChecksumSize :: nat where "ChecksumSize \<equiv> 4"
abbreviation (input) FooterSize :: nat where "FooterSize \<equiv> 32"
abbreviation (input) RecordOverhead :: nat where "RecordOverhead \<equiv> 12"

datatype RecordType = RecordXML | RecordZIP | RecordError

fun Magic :: "RecordType \<Rightarrow> u32" where
  "Magic RecordZIP = MagicZIP"
| "Magic RecordError = MagicERR"
| "Magic RecordXML = MagicXML"

definition RecordChecksum :: "bytes \<Rightarrow> u32" where
  "RecordChecksum payload = crc_checksum Castagnoli payload"

definition KnownMagic :: "u32 \<Rightarrow> bool" where
  "KnownMagic m \<longleftrightarrow> m = MagicXML \<or> m = MagicXMLC \<or> m = MagicZIP \<or> m = MagicERR"

definition IsCompressedXML :: "u32 \<Rightarrow> bool" where
  "IsCompressedXML m \<longleftrightarrow> m = MagicXMLC"

subsection \<open>Records\<close>

definition EncodeRecord :: "u32 \<Rightarrow> bytes \<Rightarrow> bytes" where
  "EncodeRecord magic payload =
     PutUint32 magic @ PutUint32 (of_nat (length payload)) @ payload
       @ PutUint32 (RecordChecksum payload)"

definition DecodeRecordHeader :: "bytes \<Rightarrow> error + (u32 \<times> u32)" where
  "DecodeRecordHeader data =
     (if length data < HeaderSize then Inl (Err ''record header too short'')
      else Inr (Uint32 (subslice 0 4 data), Uint32 (subslice 4 8 data)))"

subsection \<open>Segment footer\<close>

definition EncodeFooter :: "u32 \<Rightarrow> u64 \<Rightarrow> bytes" where
  "EncodeFooter recordCount totalSize =
     PutUint32 recordCount @ PutUint64 totalSize @ replicate 16 0 @ PutUint32 FooterMagic"

definition ValidateFooter :: "bytes \<Rightarrow> u32 \<times> u64 \<times> bool" where
  "ValidateFooter data =
     (if length data < FooterSize then (0, 0, False)
      else let off = length data - FooterSize
        in if Uint32 (subslice (off + 28) (off + 32) data) \<noteq> FooterMagic then (0, 0, False)
           else (Uint32 (subslice off (off + 4) data),
                 Uint64 (subslice (off + 4) (off + 12) data), True))"

subsection \<open>Fixed-width codecs\<close>

locale fixed_codec =
  fixes enc :: "'a \<Rightarrow> bytes"
    and dec :: "bytes \<Rightarrow> 'b"
    and ok :: "'a \<Rightarrow> bool"
    and ret :: "'a \<Rightarrow> 'b"
    and width :: nat
  assumes length_enc: "length (enc x) = width"
    and dec_enc: "ok x \<Longrightarrow> dec (enc x) = ret x"
    and ret_inj: "ret x = ret y \<Longrightarrow> x = y"
begin

lemma enc_inj: "ok x \<Longrightarrow> ok y \<Longrightarrow> enc x = enc y \<Longrightarrow> x = y"
  using dec_enc [of x] dec_enc [of y] by (auto intro: ret_inj)

lemma length_enc_all: "length (concat (map enc xs)) = width * length xs"
  by (induction xs) (simp_all add: length_enc)

lemma chunk_enc_all:
  "i < length xs \<Longrightarrow> subslice (i * width) (i * width + width) (concat (map enc xs)) = enc (xs ! i)"
proof (induction xs arbitrary: i)
  case Nil
  then show ?case by simp
next
  case (Cons x xs)
  show ?case
  proof (cases i)
    case 0
    then show ?thesis by (simp add: subslice_def length_enc)
  next
    case (Suc j)
    then show ?thesis
      using Cons by (simp add: subslice_def length_enc)
  qed
qed

lemma dec_chunks:
  assumes "\<And>x. x \<in> set xs \<Longrightarrow> ok x"
  shows "map (\<lambda>i. dec (subslice (i * width) (i * width + width) (concat (map enc xs)))) [0..<length xs]
           = map ret xs"
  using assms by (intro nth_equalityI) (simp_all add: chunk_enc_all dec_enc)

end

lemma length_EncodeFooter [simp]: "length (EncodeFooter c t) = 32"
  by (simp add: EncodeFooter_def)

lemma ValidateFooter_EncodeFooter: "ValidateFooter (pre @ EncodeFooter c t) = (c, t, True)"
  by (simp add: ValidateFooter_def EncodeFooter_def subslice_def Let_def)

interpretation footer_codec: fixed_codec "\<lambda>(c, t). EncodeFooter c t" ValidateFooter
  "\<lambda>_. True" "\<lambda>(c, t). (c, t, True)" 32
  by unfold_locales (auto simp: ValidateFooter_EncodeFooter [of "[]", simplified])

subsection \<open>Records decode to what was encoded\<close>

lemma length_EncodeRecord [simp]: "length (EncodeRecord m p) = length p + 12"
  by (simp add: EncodeRecord_def)

lemma DecodeRecordHeader_EncodeRecord [simp]:
  "DecodeRecordHeader (EncodeRecord m p @ rest) = Inr (m, of_nat (length p))"
  by (simp add: DecodeRecordHeader_def EncodeRecord_def subslice_def)

text \<open>The three fields of a record found at its start, whatever follows it.\<close>

lemma EncodeRecord_header: "take 8 (EncodeRecord m p @ rest) = PutUint32 m @ PutUint32 (of_nat (length p))"
  by (simp add: EncodeRecord_def)

lemma EncodeRecord_payload: "subslice 8 (8 + length p) (EncodeRecord m p @ rest) = p"
  by (simp add: EncodeRecord_def subslice_def)

lemma EncodeRecord_crc:
  "subslice (8 + length p) (12 + length p) (EncodeRecord m p @ rest) = PutUint32 (RecordChecksum p)"
  by (simp add: EncodeRecord_def subslice_def)

lemma unat_length_u32: "length p < 2 ^ 32 \<Longrightarrow> unat (of_nat (length p) :: u32) = length p"
  by (simp add: unat_of_nat)

lemma RecordChecksum_one_byte:
  "RecordChecksum (xs @ x # ys) = RecordChecksum (xs @ y # ys) \<longleftrightarrow> x = y"
  by (simp add: RecordChecksum_def crc_checksum_one_byte)

text \<open>A footer is never mistaken for a record while fewer than $2^{30}$ records were counted.\<close>

lemma KnownMagic_ge: "KnownMagic m \<Longrightarrow> 2 ^ 30 \<le> unat m"
  by (auto simp: KnownMagic_def const_simps)

lemma FooterMagic_not_known: "\<not> KnownMagic FooterMagic"
  by (simp add: KnownMagic_def const_simps)

lemma Magic_known [simp]: "KnownMagic (Magic t)"
  by (cases t) (simp_all add: KnownMagic_def)

lemma MagicXMLC_known [simp]: "KnownMagic MagicXMLC"
  by (simp add: KnownMagic_def)

lemma Magic_not_compressed [simp]: "\<not> IsCompressedXML (Magic t)"
  by (cases t) (simp_all add: IsCompressedXML_def const_simps)

end
