(* ===== verification/Disk.thy ===== *)
theory Disk
  imports Lbf_Prelude "HOL-Library.AList"
begin

text \<open>
  The part of the \<^verbatim>\<open>os\<close> package the storage layer uses, on one data directory: named
  files with their bytes, how long a prefix is known to be on stable storage, and a
  modification counter. Every call takes the next element of the failure schedule, so a
  read, a write (possibly cut short), a sync, a truncation or an open can fail anywhere.
  An open handle is the name of its file: the storage layer never renames or removes one.
\<close>

record dfile =
  fdata :: bytes
  fsynced :: nat
  fmtime :: nat

record disk =
  dfiles :: "(string \<times> dfile) list"
  dio :: "fault list"

definition empty_file :: dfile where
  "empty_file = \<lparr>fdata = [], fsynced = 0, fmtime = 0\<rparr>"

abbreviation dlookup :: "disk \<Rightarrow> string \<Rightarrow> dfile option" where
  "dlookup d \<equiv> map_of (dfiles d)"

definition put_file :: "string \<Rightarrow> dfile \<Rightarrow> disk \<Rightarrow> disk" where
  "put_file n f d = d\<lparr>dfiles := AList.update n f (dfiles d)\<rparr>"

text \<open>Writing \<open>p\<close> at \<open>off\<close>: a gap beyond the end reads as zeros.\<close>

definition write_bytes :: "nat \<Rightarrow> bytes \<Rightarrow> bytes \<Rightarrow> bytes" where
  "write_bytes off p xs =
     take off xs @ replicate (off - length xs) 0 @ p @ drop (off + length p) xs"

definition file_write :: "nat \<Rightarrow> bytes \<Rightarrow> dfile \<Rightarrow> dfile" where
  "file_write off p f =
     \<lparr>fdata = write_bytes off p (fdata f), fsynced = min (fsynced f) off, fmtime = Suc (fmtime f)\<rparr>"

definition enoent :: error where "enoent = Sentinel ''file does not exist''"
definition io_EOF :: error where "io_EOF = Sentinel ''EOF''"

text \<open>\<open>next_io d\<close> takes the next element of the schedule.\<close>

definition next_io :: "disk \<Rightarrow> string option \<times> nat \<times> disk" where
  "next_io d = (case next_fault (dio d) of
       (Pass, fs) \<Rightarrow> (None, 0, d\<lparr>dio := fs\<rparr>)
     | (Fail n m, fs) \<Rightarrow> (Some m, n, d\<lparr>dio := fs\<rparr>))"

definition os_ReadAt :: "string \<Rightarrow> nat \<Rightarrow> int \<Rightarrow> disk \<Rightarrow> (disk, bytes) result" where
  "os_ReadAt n len off d = (case next_io d of
       (Some m, _, d') \<Rightarrow> (Inl (Err m), d')
     | (None, _, d') \<Rightarrow>
         (case dlookup d' n of None \<Rightarrow> (Inl enoent, d')
          | Some f \<Rightarrow>
             if off < 0 then (Inl (Err ''negative offset''), d')
             else let bs = take len (drop (nat off) (fdata f))
               in if length bs < len then (Inl io_EOF, d') else (Inr bs, d')))"

definition os_WriteAt :: "string \<Rightarrow> bytes \<Rightarrow> nat \<Rightarrow> disk \<Rightarrow> (disk, nat) result" where
  "os_WriteAt n p off d = (case next_io d of
       (Some m, k, d') \<Rightarrow>
         (Inl (Err m), case dlookup d' n of None \<Rightarrow> d' | Some f \<Rightarrow> put_file n (file_write off (take k p) f) d')
     | (None, _, d') \<Rightarrow>
         (case dlookup d' n of None \<Rightarrow> (Inl enoent, d')
          | Some f \<Rightarrow> (Inr (length p), put_file n (file_write off p f) d')))"

definition os_Sync :: "string \<Rightarrow> disk \<Rightarrow> (disk, unit) result" where
  "os_Sync n d = (case next_io d of
       (Some m, _, d') \<Rightarrow> (Inl (Err m), d')
     | (None, _, d') \<Rightarrow>
         (case dlookup d' n of None \<Rightarrow> (Inl enoent, d')
          | Some f \<Rightarrow> (Inr (), put_file n (f\<lparr>fsynced := length (fdata f)\<rparr>) d')))"

definition os_Truncate :: "string \<Rightarrow> nat \<Rightarrow> disk \<Rightarrow> (disk, unit) result" where
  "os_Truncate n len d = (case next_io d of
       (Some m, _, d') \<Rightarrow> (Inl (Err m), d')
     | (None, _, d') \<Rightarrow>
         (case dlookup d' n of None \<Rightarrow> (Inl enoent, d')
          | Some f \<Rightarrow> (Inr (), put_file n
              \<lparr>fdata = take len (fdata f) @ replicate (len - length (fdata f)) 0,
               fsynced = min (fsynced f) len, fmtime = Suc (fmtime f)\<rparr> d')))"

text \<open>\<^verbatim>\<open>os.OpenFile(path, O_CREATE|O_RDWR)\<close>: an absent file is created empty.\<close>

definition os_OpenCreate :: "string \<Rightarrow> disk \<Rightarrow> (disk, unit) result" where
  "os_OpenCreate n d = (case next_io d of
       (Some m, _, d') \<Rightarrow> (Inl (Err m), d')
     | (None, _, d') \<Rightarrow>
         (Inr (), case dlookup d' n of None \<Rightarrow> put_file n empty_file d' | Some f \<Rightarrow> d'))"

text \<open>\<^verbatim>\<open>os.Stat\<close> and \<^verbatim>\<open>File.Stat\<close>: size and modification time.\<close>

definition os_Stat :: "string \<Rightarrow> disk \<Rightarrow> (disk, nat \<times> nat) result" where
  "os_Stat n d = (case next_io d of
       (Some m, _, d') \<Rightarrow> (Inl (Err m), d')
     | (None, _, d') \<Rightarrow>
         (case dlookup d' n of None \<Rightarrow> (Inl enoent, d')
          | Some f \<Rightarrow> (Inr (length (fdata f), fmtime f), d')))"

definition os_Open :: "string \<Rightarrow> disk \<Rightarrow> (disk, unit) result" where
  "os_Open n d = (case next_io d of
       (Some m, _, d') \<Rightarrow> (Inl (Err m), d')
     | (None, _, d') \<Rightarrow> (case dlookup d' n of None \<Rightarrow> (Inl enoent, d') | Some f \<Rightarrow> (Inr (), d')))"

definition os_ReadFile :: "string \<Rightarrow> disk \<Rightarrow> (disk, bytes) result" where
  "os_ReadFile n d = (case next_io d of
       (Some m, _, d') \<Rightarrow> (Inl (Err m), d')
     | (None, _, d') \<Rightarrow> (case dlookup d' n of None \<Rightarrow> (Inl enoent, d') | Some f \<Rightarrow> (Inr (fdata f), d')))"

text \<open>\<^verbatim>\<open>os.WriteFile\<close> truncates and rewrites; a failure leaves a prefix of the new bytes, or no file when it could not be created.\<close>

definition os_WriteFile :: "string \<Rightarrow> bytes \<Rightarrow> disk \<Rightarrow> (disk, unit) result" where
  "os_WriteFile n p d = (case next_io d of
       (Some m, k, d') \<Rightarrow> (Inl (Err m), case dlookup d' n of
           None \<Rightarrow> if k = 0 then d' else put_file n \<lparr>fdata = take k p, fsynced = 0, fmtime = 0\<rparr> d'
         | Some f \<Rightarrow> put_file n \<lparr>fdata = take k p, fsynced = 0, fmtime = Suc (fmtime f)\<rparr> d')
     | (None, _, d') \<Rightarrow> (Inr (), put_file n \<lparr>fdata = p, fsynced = 0,
           fmtime = (case dlookup d' n of None \<Rightarrow> 0 | Some f \<Rightarrow> Suc (fmtime f))\<rparr> d'))"

text \<open>\<^verbatim>\<open>os.ReadDir\<close>: the names of the directory's files (sub-directories are left out).\<close>

definition os_ReadDir :: "disk \<Rightarrow> (disk, string list) result" where
  "os_ReadDir d = (case next_io d of
       (Some m, _, d') \<Rightarrow> (Inl (Err m), d')
     | (None, _, d') \<Rightarrow> (Inr (map fst (dfiles d')), d'))"

subsection \<open>Bytes of a written file\<close>

lemma write_bytes_append [simp]: "write_bytes (length xs) p xs = xs @ p"
  by (simp add: write_bytes_def)

lemma write_bytes_at:
  "take (length p) (drop off (write_bytes off p xs)) = p"
  by (simp add: write_bytes_def)

lemma write_bytes_below:
  assumes "i + n \<le> off" and "i + n \<le> length xs"
  shows "take n (drop i (write_bytes off p xs)) = take n (drop i xs)"
  using assms by (simp add: write_bytes_def take_drop min_absorb1 min_absorb2)

lemma take_write_bytes: "k \<le> off \<Longrightarrow> k \<le> length xs \<Longrightarrow> take k (write_bytes off p xs) = take k xs"
  by (simp add: write_bytes_def min_absorb1)

lemma length_write_bytes: "length (write_bytes off p xs) = max (length xs) (off + length p)"
  by (simp add: write_bytes_def)

lemma dlookup_put_file [simp]: "dlookup (put_file n f d) m = (if m = n then Some f else dlookup d m)"
  by (simp add: put_file_def update_conv)

lemma dio_put_file [simp]: "dio (put_file n f d) = dio d"
  by (simp add: put_file_def)

lemma next_io_nofault: "dio d = [] \<Longrightarrow> next_io d = (None, 0, d)"
  by (simp add: next_io_def)

lemma dfiles_next_io: "next_io d = (r, k, d') \<Longrightarrow> dfiles d' = dfiles d"
  by (auto simp: next_io_def split: prod.splits fault.splits)

lemma dlookup_next_io: "next_io d = (r, k, d') \<Longrightarrow> dlookup d' = dlookup d"
  by (simp add: dfiles_next_io)

subsection \<open>What each call can do to the other files\<close>

text \<open>A call on one file leaves every other file alone: the frame of the operations.\<close>

lemmas os_defs = os_ReadAt_def os_WriteAt_def os_Sync_def os_Truncate_def os_OpenCreate_def
  os_Stat_def os_Open_def os_ReadFile_def os_WriteFile_def os_ReadDir_def

lemma os_ReadAt_frame: "os_ReadAt n len off d = (r, d') \<Longrightarrow> dfiles d' = dfiles d"
  by (auto simp: os_ReadAt_def Let_def dfiles_next_io split: prod.splits option.splits if_splits)

lemma os_ReadAt_Inr:
  "os_ReadAt n len off d = (Inr bs, d') \<Longrightarrow> dlookup d n = Some f \<Longrightarrow>
     bs = subslice (nat off) (nat off + len) (fdata f) \<and> length bs = len \<and> 0 \<le> off"
  by (auto simp: os_ReadAt_def Let_def dlookup_next_io subslice_def split: prod.splits option.splits if_splits)

lemma os_ReadAt_ok:
  "dio d = [] \<Longrightarrow> dlookup d n = Some f \<Longrightarrow> 0 \<le> off \<Longrightarrow> nat off + len \<le> length (fdata f) \<Longrightarrow>
     os_ReadAt n len off d = (Inr (subslice (nat off) (nat off + len) (fdata f)), d)"
  by (simp add: os_ReadAt_def next_io_nofault subslice_def Let_def)

lemma os_Stat_frame: "os_Stat n d = (r, d') \<Longrightarrow> dfiles d' = dfiles d"
  by (auto simp: os_Stat_def dfiles_next_io split: prod.splits option.splits)

lemma os_Stat_Inr:
  "os_Stat n d = (Inr x, d') \<Longrightarrow> dlookup d n = Some f \<Longrightarrow> x = (length (fdata f), fmtime f)"
  by (auto simp: os_Stat_def dlookup_next_io split: prod.splits option.splits)

lemma os_Open_frame: "os_Open n d = (r, d') \<Longrightarrow> dfiles d' = dfiles d"
  by (auto simp: os_Open_def dfiles_next_io split: prod.splits option.splits)

lemma os_ReadDir_frame: "os_ReadDir d = (r, d') \<Longrightarrow> dfiles d' = dfiles d"
  by (auto simp: os_ReadDir_def dfiles_next_io split: prod.splits option.splits)

lemma os_WriteAt_other: "os_WriteAt n p off d = (r, d') \<Longrightarrow> m \<noteq> n \<Longrightarrow> dlookup d' m = dlookup d m"
  by (auto simp: os_WriteAt_def dlookup_next_io split: prod.splits option.splits)

lemma os_Sync_other: "os_Sync n d = (r, d') \<Longrightarrow> m \<noteq> n \<Longrightarrow> dlookup d' m = dlookup d m"
  by (auto simp: os_Sync_def dlookup_next_io split: prod.splits option.splits)

lemma os_Truncate_other: "os_Truncate n len d = (r, d') \<Longrightarrow> m \<noteq> n \<Longrightarrow> dlookup d' m = dlookup d m"
  by (auto simp: os_Truncate_def dlookup_next_io split: prod.splits option.splits)

lemma os_OpenCreate_other: "os_OpenCreate n d = (r, d') \<Longrightarrow> m \<noteq> n \<Longrightarrow> dlookup d' m = dlookup d m"
  by (auto simp: os_OpenCreate_def dlookup_next_io split: prod.splits option.splits)

lemma os_WriteFile_other: "os_WriteFile n p d = (r, d') \<Longrightarrow> m \<noteq> n \<Longrightarrow> dlookup d' m = dlookup d m"
  by (auto simp: os_WriteFile_def dlookup_next_io split: prod.splits option.splits)

lemma os_WriteFile_Inr:
  "os_WriteFile n p d = (Inr u, d') \<Longrightarrow> \<exists>f. dlookup d' n = Some f \<and> fdata f = p"
  by (auto simp: os_WriteFile_def split: prod.splits option.splits)

lemma os_ReadFile_frame: "os_ReadFile n d = (r, d') \<Longrightarrow> dfiles d' = dfiles d"
  by (auto simp: os_ReadFile_def dfiles_next_io split: prod.splits option.splits)

lemma os_ReadFile_Inr:
  "os_ReadFile n d = (Inr x, d') \<Longrightarrow> dlookup d n = Some f \<Longrightarrow> x = fdata f"
  by (auto simp: os_ReadFile_def dlookup_next_io split: prod.splits option.splits)

text \<open>What a write, a sync and an open leave in their own file.\<close>

lemma os_WriteAt_own:
  "os_WriteAt n p off d = (r, d') \<Longrightarrow> dlookup d n = Some f \<Longrightarrow>
     (r = Inr (length p) \<and> dlookup d' n = Some (file_write off p f))
     \<or> (\<exists>e k. r = Inl e \<and> dlookup d' n = Some (file_write off (take k p) f))"
  by (auto simp: os_WriteAt_def dlookup_next_io split: prod.splits option.splits)

lemma os_Sync_own:
  "os_Sync n d = (r, d') \<Longrightarrow> dlookup d n = Some f \<Longrightarrow>
     (r = Inr () \<and> dlookup d' n = Some (f\<lparr>fsynced := length (fdata f)\<rparr>))
     \<or> (\<exists>e. r = Inl e \<and> dlookup d' n = Some f)"
  by (auto simp: os_Sync_def dlookup_next_io split: prod.splits option.splits)

lemma os_Truncate_Inr:
  "os_Truncate n len d = (Inr u, d') \<Longrightarrow> dlookup d n = Some f \<Longrightarrow> len \<le> length (fdata f) \<Longrightarrow>
     \<exists>g. dlookup d' n = Some g \<and> fdata g = take len (fdata f) \<and> fsynced g = min (fsynced f) len"
  by (auto simp: os_Truncate_def dlookup_next_io split: prod.splits option.splits)

lemma os_OpenCreate_own:
  "os_OpenCreate n d = (Inr u, d') \<Longrightarrow>
     dlookup d' n = Some (case dlookup d n of None \<Rightarrow> empty_file | Some f \<Rightarrow> f)"
  by (auto simp: os_OpenCreate_def dlookup_next_io split: prod.splits option.splits)

subsection \<open>Crashes\<close>

text \<open>
  A crash keeps the synced prefix of every file; what lies beyond it may be anything, and
  all that is found after it is on stable storage. Files
  neither appear nor disappear: directory entries are taken to be stable.
\<close>

definition crash_file :: "dfile \<Rightarrow> dfile \<Rightarrow> bool" where
  "crash_file f g \<longleftrightarrow> take (fsynced f) (fdata g) = take (fsynced f) (fdata f)
     \<and> fsynced f \<le> length (fdata g) \<and> fsynced g = length (fdata g)"

definition crash :: "disk \<Rightarrow> disk \<Rightarrow> bool" where
  "crash d d' \<longleftrightarrow> (\<forall>n f. dlookup d n = Some f \<longrightarrow> (\<exists>g. dlookup d' n = Some g \<and> crash_file f g))
     \<and> (\<forall>n. dlookup d n = None \<longrightarrow> dlookup d' n = None)"

lemma crash_file_refl: "fsynced f = length (fdata f) \<Longrightarrow> crash_file f f"
  by (simp add: crash_file_def)

lemma crash_file_bytes:
  assumes "crash_file f g" and "i + n \<le> fsynced f"
  shows "take n (drop i (fdata g)) = take n (drop i (fdata f))"
proof -
  have "take n (drop i (take (fsynced f) (fdata g))) = take n (drop i (take (fsynced f) (fdata f)))"
    using assms(1) by (simp add: crash_file_def)
  with assms(2) show ?thesis by (simp add: drop_take min_absorb1)
qed

end
