(* ===== verification/Segment.thy ===== *)
theory Segment
  imports Record_Format Disk
begin

text \<open>
  The segment manager (\<^verbatim>\<open>internal/storage/segment.go\<close>): file naming, recovery of the
  active segment at start-up, append with rotation, batch append with one sync, record
  reads with checksum verification, and shutdown. All state the Go struct keeps is in the
  record \<open>SegmentManager\<close>, the data directory included; each operation returns its error
  or result together with the new state.
\<close>

subsection \<open>Segment file names\<close>

text \<open>\<^verbatim>\<open>fmt.Sprintf("%04d", i)\<close>: sign, then zeros up to width four.\<close>

definition sprintf04 :: "int \<Rightarrow> string" where
  "sprintf04 i = (let ds = decimal (nat \<bar>i\<bar>)
     in if i < 0 then ''-'' @ replicate (3 - length ds) (CHR ''0'') @ ds
        else replicate (4 - length ds) (CHR ''0'') @ ds)"

definition segmentPath :: "int \<Rightarrow> string" where
  "segmentPath i = ''segment_'' @ sprintf04 i @ ''.dat''"

text \<open>
  \<^verbatim>\<open>fmt.Sscanf(name, "segment_%04d" + suffix, &id)\<close>. When scanning, the width 4 bounds
  how many characters the number may take, and input left over after the suffix is ignored.
\<close>

definition scan_int4 :: "string \<Rightarrow> (int \<times> string) option" where
  "scan_int4 s =
     (let r = dropWhile (\<lambda>c. c = CHR '' '' \<or> c = CHR 0x09) s;
          neg = (take 1 r = ''-'');
          signed = (neg \<or> take 1 r = ''+'');
          body = (if signed then drop 1 r else r);
          ds = takeWhile is_digit (take (if signed then 3 else 4) body)
      in if ds = [] then None
         else Some ((if neg then - int (undecimal ds) else int (undecimal ds)), drop (length ds) body))"

definition sscanf_segment :: "string \<Rightarrow> string \<Rightarrow> int option" where
  "sscanf_segment suffix name =
     (if take 8 name = ''segment_'' then
        (case scan_int4 (drop 8 name) of None \<Rightarrow> None
         | Some (i, rest) \<Rightarrow> if take (length suffix) rest = suffix then Some i else None)
      else None)"

subsection \<open>State\<close>

record Location =
  SegmentID :: int
  Offset :: int
  Size :: int

text \<open>
  An open segment file is its name and whether the handle is still open; a write to a
  closed handle fails, as \<^verbatim>\<open>os.ErrClosed\<close> does.
\<close>

record SegmentManager =
  maxSegmentSize :: int
  verifyChecksum :: bool
  activeID :: int
  activeFile :: "(string \<times> bool) option"
  activeOffset :: nat
  recordCount :: u32
  readFiles :: "int \<rightharpoonup> string"
  readMeta :: "int \<rightharpoonup> nat \<times> nat"
  sdisk :: disk

definition on_disk :: "(disk \<Rightarrow> (disk, 'a) result) \<Rightarrow> SegmentManager \<Rightarrow> (SegmentManager, 'a) result" where
  "on_disk f s = (case f (sdisk s) of (r, d) \<Rightarrow> (r, s\<lparr>sdisk := d\<rparr>))"

lemma on_disk_iff: "on_disk f s = (r, t) \<longleftrightarrow> (\<exists>d. f (sdisk s) = (r, d) \<and> t = s\<lparr>sdisk := d\<rparr>)"
  by (auto simp: on_disk_def split: prod.splits)

definition on_active :: "(string \<Rightarrow> disk \<Rightarrow> (disk, 'a) result) \<Rightarrow> SegmentManager \<Rightarrow> (SegmentManager, 'a) result" where
  "on_active f s = (case activeFile s of
       Some (n, True) \<Rightarrow> on_disk (f n) s
     | _ \<Rightarrow> (Inl (Sentinel ''file already closed''), s))"

definition close_active :: "SegmentManager \<Rightarrow> SegmentManager" where
  "close_active s = s\<lparr>activeFile := map_option (\<lambda>(n, _). (n, False)) (activeFile s)\<rparr>"

subsection \<open>Scanning a segment for its valid prefix\<close>

function truncLoop :: "bytes \<Rightarrow> nat \<Rightarrow> u32 \<Rightarrow> nat \<times> u32" where
  "truncLoop data offset count =
     (if length data - offset < HeaderSize then (offset, count)
      else case DecodeRecordHeader (drop offset data) of
          Inl _ \<Rightarrow> (offset, count)
        | Inr (magic, sz) \<Rightarrow>
            if sz = 0 \<or> \<not> KnownMagic magic then (offset, count)
            else let recordEnd = offset + HeaderSize + unat sz + ChecksumSize
              in if recordEnd > length data then (offset, count)
                 else let payload = subslice (offset + HeaderSize) (offset + HeaderSize + unat sz) data;
                          storedCRC = Uint32 (subslice (offset + HeaderSize + unat sz) recordEnd data)
                   in if RecordChecksum payload \<noteq> storedCRC then (offset, count)
                      else truncLoop data recordEnd (count + 1))"
  by pat_completeness auto
termination
  by (relation "measure (\<lambda>(data, offset, count). length data - offset)") auto

declare truncLoop.simps [simp del]

definition truncateToValid :: "bytes \<Rightarrow> bytes \<times> u32 \<times> nat" where
  "truncateToValid data =
     (case truncLoop data 0 0 of (offset, count) \<Rightarrow>
        let offset' =
          (if length data - offset \<ge> FooterSize
           then (case ValidateFooter (take (offset + FooterSize) data) of
                   (_, _, True) \<Rightarrow> offset + FooterSize | (_, _, False) \<Rightarrow> offset)
           else offset)
        in (take offset' data, count, offset'))"

function scanLoop :: "string \<Rightarrow> nat \<Rightarrow> nat \<Rightarrow> u32 \<Rightarrow> disk \<Rightarrow> (disk, nat \<times> u32) result" where
  "scanLoop n fsize offset count d =
     (if fsize - offset < HeaderSize then (Inr (offset, count), d)
      else case os_ReadAt n HeaderSize (int offset) d of
        (Inl e, d1) \<Rightarrow> (Inl e, d1)
      | (Inr hdr, d1) \<Rightarrow>
         (case DecodeRecordHeader hdr of
            Inl _ \<Rightarrow> (Inr (offset, count), d1)
          | Inr (magic, payloadSize) \<Rightarrow>
             if payloadSize = 0 \<or> \<not> KnownMagic magic then (Inr (offset, count), d1)
             else let recordEnd = offset + HeaderSize + unat payloadSize + ChecksumSize
               in if recordEnd > fsize then (Inr (offset, count), d1)
                  else case os_ReadAt n (unat payloadSize) (int (offset + HeaderSize)) d1 of
                    (Inl e, d2) \<Rightarrow> (Inl e, d2)
                  | (Inr payload, d2) \<Rightarrow>
                     (case os_ReadAt n ChecksumSize (int (offset + HeaderSize + unat payloadSize)) d2 of
                        (Inl e, d3) \<Rightarrow> (Inl e, d3)
                      | (Inr crcBuf, d3) \<Rightarrow>
                          if RecordChecksum payload \<noteq> Uint32 crcBuf then (Inr (offset, count), d3)
                          else scanLoop n fsize recordEnd (count + 1) d3)))"
  by pat_completeness auto
termination
  by (relation "measure (\<lambda>(n, fsize, offset, count, d). fsize - offset)") auto

declare scanLoop.simps [simp del]

definition scanValidTail :: "string \<Rightarrow> nat \<Rightarrow> disk \<Rightarrow> (disk, nat \<times> u32) result" where
  "scanValidTail n fsize d =
     (case scanLoop n fsize 0 0 d of
        (Inl e, d1) \<Rightarrow> (Inl e, d1)
      | (Inr (offset, count), d1) \<Rightarrow>
          if fsize - offset \<ge> FooterSize then
            (case os_ReadAt n FooterSize (int offset) d1 of
               (Inl e, d2) \<Rightarrow> (Inl e, d2)
             | (Inr footer, d2) \<Rightarrow>
                 (Inr (if Uint32 (subslice 28 32 footer) = FooterMagic then offset + FooterSize
                       else offset, count), d2))
          else (Inr (offset, count), d1))"

subsection \<open>Opening segments\<close>

text \<open>The last part of \<open>openSegmentFile\<close>: scan the file and cut off what is not valid.\<close>

definition adoptSegment :: "string \<Rightarrow> nat \<Rightarrow> SegmentManager \<Rightarrow> (SegmentManager, unit) result" where
  "adoptSegment path fsize s =
     (if fsize = 0 then (Inr (), s\<lparr>activeOffset := 0, recordCount := 0\<rparr>)
      else case on_disk (scanValidTail path fsize) s of
        (Inl e, s1) \<Rightarrow> (Inl e, close_active s1)
      | (Inr (validSize, rc), s1) \<Rightarrow>
          (case (if validSize < fsize then on_disk (os_Truncate path validSize) s1 else (Inr (), s1)) of
             (Inl e, s2) \<Rightarrow> (Inl e, close_active s2)
           | (Inr _, s2) \<Rightarrow> (Inr (), s2\<lparr>activeOffset := validSize, recordCount := rc\<rparr>)))"

definition openSegmentFile :: "int \<Rightarrow> SegmentManager \<Rightarrow> (SegmentManager, unit) result" where
  "openSegmentFile i s0 =
     (let s1 = (if activeFile s0 \<noteq> None then close_active s0 else s0); path = segmentPath i
      in tryE (on_disk (os_OpenCreate path) s1) (\<lambda>_ s2.
         tryE (on_disk (os_Stat path) s2) (\<lambda>(fsize, _) s3.
           adoptSegment path fsize (s3\<lparr>activeFile := Some (path, True)\<rparr>))))"

definition openSegment :: "int \<Rightarrow> SegmentManager \<Rightarrow> (SegmentManager, unit) result" where
  "openSegment i s = openSegmentFile i (s\<lparr>activeID := i, activeOffset := 0, recordCount := 0\<rparr>)"

definition max_segment_id :: "string list \<Rightarrow> int" where
  "max_segment_id names =
     foldl (\<lambda>maxID nm. case sscanf_segment ''.dat'' nm of None \<Rightarrow> maxID
                       | Some i \<Rightarrow> if i > maxID then i else maxID) (-1) names"

definition recover_segments :: "SegmentManager \<Rightarrow> (SegmentManager, unit) result" where
  "recover_segments s =
     tryE (wrapE ''read segment dir: '' (on_disk os_ReadDir s)) (\<lambda>names s1.
       let maxID = max_segment_id names
       in if maxID < 0 then openSegment 0 s1
          else openSegmentFile maxID (s1\<lparr>activeID := maxID\<rparr>))"

text \<open>\<^verbatim>\<open>os.MkdirAll\<close> is the first environment call of the constructor.\<close>

definition NewSegmentManager :: "int \<Rightarrow> disk \<Rightarrow> (SegmentManager, unit) result" where
  "NewSegmentManager maxSize d =
     (let s0 = \<lparr>maxSegmentSize = maxSize, verifyChecksum = True, activeID = 0, activeFile = None,
                activeOffset = 0, recordCount = 0, readFiles = Map.empty, readMeta = Map.empty,
                sdisk = d\<rparr>
      in case next_io d of
           (Some m, _, d') \<Rightarrow> (Inl (Wrap ''create segment dir: '' (Err m) []), s0\<lparr>sdisk := d'\<rparr>)
         | (None, _, d') \<Rightarrow> recover_segments (s0\<lparr>sdisk := d'\<rparr>))"

definition SetVerifyChecksum :: "bool \<Rightarrow> SegmentManager \<Rightarrow> SegmentManager" where
  "SetVerifyChecksum v s = s\<lparr>verifyChecksum := v\<rparr>"

subsection \<open>Appending\<close>

definition finalizeLocked :: "SegmentManager \<Rightarrow> (SegmentManager, unit) result" where
  "finalizeLocked s =
     (if activeFile s = None \<or> activeOffset s = 0 then (Inr (), s)
      else let footer = EncodeFooter (recordCount s) (of_nat (activeOffset s))
        in tryE (on_active (\<lambda>n. os_WriteAt n footer (activeOffset s)) s) (\<lambda>_ s1. on_active os_Sync s1))"

text \<open>The first step of \<open>appendLocked\<close>: a full segment gets its footer and the next one is opened.\<close>

definition rotateIfFull :: "bytes \<Rightarrow> SegmentManager \<Rightarrow> (SegmentManager, unit) result" where
  "rotateIfFull rec s =
     (if activeOffset s > 0 \<and> int (activeOffset s + length rec + FooterSize) > maxSegmentSize s
      then tryE (finalizeLocked s) (\<lambda>_ s1. openSegment (activeID s1 + 1) s1)
      else (Inr (), s))"

definition appendLocked :: "bytes \<Rightarrow> bool \<Rightarrow> SegmentManager \<Rightarrow> (SegmentManager, Location) result" where
  "appendLocked rec fsync s =
     (if activeFile s = None then (Inl (Err ''no active segment''), s)
      else tryE (rotateIfFull rec s) (\<lambda>_ s2.
          let loc = \<lparr>SegmentID = activeID s2, Offset = int (activeOffset s2), Size = int (length rec)\<rparr>
          in tryE (wrapE ''segment write: '' (on_active (\<lambda>n. os_WriteAt n rec (activeOffset s2)) s2))
            (\<lambda>n s3.
              if n \<noteq> length rec then (Inl (Err ''short write''), s3)
              else tryE (if fsync then wrapE ''segment fsync: '' (on_active os_Sync s3) else (Inr (), s3))
                (\<lambda>_ s4. (Inr loc, s4\<lparr>activeOffset := activeOffset s4 + length rec,
                                      recordCount := recordCount s4 + 1\<rparr>)))))"

definition appendDirect :: "bytes \<Rightarrow> SegmentManager \<Rightarrow> (SegmentManager, Location) result" where
  "appendDirect rec s = appendLocked rec True s"

record pendingWrite =
  pw_record :: bytes
  pw_loc :: Location
  pw_err :: "error option"

fun batchLoop :: "pendingWrite list \<Rightarrow> bool \<Rightarrow> SegmentManager \<Rightarrow> (pendingWrite list \<times> bool) \<times> SegmentManager" where
  "batchLoop [] wrote s = (([], wrote), s)"
| "batchLoop (pw # batch) wrote s =
     (case appendLocked (pw_record pw) False s of
        (Inl e, s1) \<Rightarrow>
          (case batchLoop batch wrote s1 of
             ((rest, w), s2) \<Rightarrow> ((pw\<lparr>pw_err := Some e\<rparr> # rest, w), s2))
      | (Inr loc, s1) \<Rightarrow>
          (case batchLoop batch True s1 of
             ((rest, w), s2) \<Rightarrow> ((pw\<lparr>pw_loc := loc\<rparr> # rest, w), s2)))"

definition batchAppend :: "pendingWrite list \<Rightarrow> SegmentManager \<Rightarrow> pendingWrite list \<times> SegmentManager" where
  "batchAppend batch s =
     (case batchLoop batch False s of ((batch1, wrote), s1) \<Rightarrow>
        if wrote \<and> activeFile s1 \<noteq> None then
          (case on_active os_Sync s1 of
             (Inr _, s2) \<Rightarrow> (batch1, s2)
           | (Inl e, s2) \<Rightarrow>
               (map (\<lambda>pw. if pw_err pw = None then pw\<lparr>pw_err := Some (Wrap ''batch fsync: '' e [])\<rparr>
                          else pw) batch1, s2))
        else (batch1, s1))"

subsection \<open>Reading\<close>

text \<open>The cached read handle is reused while size and modification time are unchanged.\<close>

definition openReadHandle :: "int \<Rightarrow> SegmentManager \<Rightarrow> (SegmentManager, string) result" where
  "openReadHandle segmentID s =
     (let path = segmentPath segmentID
      in case on_disk (os_Stat path) s of
        (Inl e, s1) \<Rightarrow>
          (Inl e, if readFiles s1 segmentID \<noteq> None
                  then s1\<lparr>readFiles := (readFiles s1)(segmentID := None),
                          readMeta := (readMeta s1)(segmentID := None)\<rparr>
                  else s1)
      | (Inr info, s1) \<Rightarrow>
          if readFiles s1 segmentID \<noteq> None \<and> readMeta s1 segmentID = Some info
          then (Inr path, s1)
          else let s2 = (if readFiles s1 segmentID \<noteq> None
                 then s1\<lparr>readFiles := (readFiles s1)(segmentID := None),
                         readMeta := (readMeta s1)(segmentID := None)\<rparr>
                 else s1)
            in tryE (on_disk (os_Open path) s2) (\<lambda>_ s3.
                 (Inr path, s3\<lparr>readFiles := (readFiles s3)(segmentID \<mapsto> path),
                               readMeta := (readMeta s3)(segmentID \<mapsto> info)\<rparr>)))"

definition ReadRecord :: "int \<Rightarrow> int \<Rightarrow> SegmentManager \<Rightarrow> (SegmentManager, u32 \<times> bytes) result" where
  "ReadRecord segmentID offset s =
     tryE (openReadHandle segmentID s) (\<lambda>f s1.
     tryE (on_disk (os_ReadAt f HeaderSize offset) s1) (\<lambda>hdr s2.
       if length hdr \<noteq> HeaderSize then (Inl (Err ''short header read''), s2)
       else case DecodeRecordHeader hdr of
         Inl e \<Rightarrow> (Inl e, s2)
       | Inr (magic, sz) \<Rightarrow>
           tryE (on_disk (os_ReadAt f (unat sz) (offset + int HeaderSize)) s2) (\<lambda>payload s3.
             if length payload \<noteq> unat sz then (Inl (Err ''short payload read''), s3)
             else if verifyChecksum s3 then
               tryE (wrapE ''read record checksum: ''
                       (on_disk (os_ReadAt f ChecksumSize (offset + int HeaderSize + int (unat sz))) s3))
                 (\<lambda>trailer s4.
                   if RecordChecksum payload \<noteq> Uint32 trailer
                   then (Inl (Err (''record checksum mismatch in segment '' @ itoa segmentID
                               @ '' at offset '' @ itoa offset)), s4)
                   else (Inr (magic, payload), s4))
             else (Inr (magic, payload), s3))))"

definition Read :: "Location \<Rightarrow> SegmentManager \<Rightarrow> (SegmentManager, bytes) result" where
  "Read loc s = tryE (ReadRecord (SegmentID loc) (Offset loc) s) (\<lambda>(_, payload) s1. (Inr payload, s1))"

subsection \<open>Totals and shutdown\<close>

fun sum_sizes :: "string list \<Rightarrow> nat \<Rightarrow> SegmentManager \<Rightarrow> (SegmentManager, nat) result" where
  "sum_sizes [] tot s = (Inr tot, s)"
| "sum_sizes (n # ns) tot s =
     (case on_disk (os_Stat n) s of
        (Inl e, s1) \<Rightarrow> (Inl e, s1)
      | (Inr (sz, _), s1) \<Rightarrow> sum_sizes ns (tot + sz) s1)"

definition TotalBytes :: "SegmentManager \<Rightarrow> (SegmentManager, nat) result" where
  "TotalBytes s = tryE (on_disk os_ReadDir s) (\<lambda>names s1. sum_sizes names 0 s1)"

definition Close_segments :: "SegmentManager \<Rightarrow> (SegmentManager, unit) result" where
  "Close_segments s =
     tryE (finalizeLocked s) (\<lambda>_ s1. (Inr (), if activeFile s1 \<noteq> None then close_active s1 else s1))"

subsection \<open>File names identify segments\<close>

lemma undecimal_sprintf04: "0 \<le> i \<Longrightarrow> undecimal (sprintf04 i) = nat i"
  by (simp add: sprintf04_def Let_def)

lemma sprintf04_digits: "0 \<le> i \<Longrightarrow> c \<in> set (sprintf04 i) \<Longrightarrow> is_digit c"
  by (auto simp: sprintf04_def Let_def is_digit_def [of "CHR ''0''"] dest: decimal_digits)

lemma sprintf04_nonempty [simp]: "sprintf04 i \<noteq> []"
  by (simp add: sprintf04_def Let_def)

lemma sprintf04_neg: "i < 0 \<Longrightarrow> undecimal (tl (sprintf04 i)) = nat (- i)"
  by (simp add: sprintf04_def Let_def)

lemma hd_sprintf04_neg: "hd (sprintf04 i) = CHR ''-'' \<longleftrightarrow> i < 0"
proof (cases "i < 0")
  case True
  then show ?thesis by (simp add: sprintf04_def Let_def)
next
  case False
  then have "is_digit (hd (sprintf04 i))" by (intro sprintf04_digits [of i]) simp_all
  with False show ?thesis by (auto simp: is_digit_def)
qed

lemma sprintf04_inj: "sprintf04 i = sprintf04 j \<Longrightarrow> i = j"
  using hd_sprintf04_neg [of i] hd_sprintf04_neg [of j] undecimal_sprintf04 [of i]
    undecimal_sprintf04 [of j] sprintf04_neg [of i] sprintf04_neg [of j]
  by (cases "i < 0") auto

lemma segmentPath_eq_iff [simp]: "segmentPath i = segmentPath j \<longleftrightarrow> i = j"
  by (auto simp: segmentPath_def dest: sprintf04_inj)

lemma length_sprintf04: "0 \<le> i \<Longrightarrow> i < 10000 \<Longrightarrow> length (sprintf04 i) = 4"
  using length_decimal [of "nat i" 3] by (simp add: sprintf04_def Let_def nat_less_iff)

lemma scan_int4_digits:
  assumes "length ds = 4" and "\<And>c. c \<in> set ds \<Longrightarrow> is_digit c"
  shows "scan_int4 (ds @ rest) = Some (int (undecimal ds), rest)"
proof -
  from assms(1) obtain c cs where ds: "ds = c # cs" and cs: "length cs = 3"
    by (cases ds) auto
  have c: "c \<noteq> CHR '' ''" "c \<noteq> CHR 0x09" "c \<noteq> CHR ''-''" "c \<noteq> CHR ''+''"
    using assms(2) [of c] ds by (auto simp: is_digit_def)
  have "takeWhile is_digit ds = ds"
    using assms(2) by (simp add: takeWhile_eq_all_conv)
  then show ?thesis
    using assms(1) c cs by (auto simp: scan_int4_def Let_def ds)
qed

lemma sscanf_segmentPath:
  assumes "0 \<le> i" and "i < 10000"
  shows "sscanf_segment ''.dat'' (segmentPath i) = Some i"
proof -
  have "scan_int4 (sprintf04 i @ ''.dat'') = Some (int (undecimal (sprintf04 i)), ''.dat'')"
    using assms by (intro scan_int4_digits) (auto simp: length_sprintf04 intro: sprintf04_digits)
  then show ?thesis
    using assms by (simp add: sscanf_segment_def segmentPath_def undecimal_sprintf04)
qed

lemma sscanf_segmentPath_five_digits: "sscanf_segment ''.dat'' (segmentPath 10000) = None"
  by (simp add: sscanf_segment_def segmentPath_def sprintf04_def Let_def decimal.simps scan_int4_def
      digit_char_def is_digit_def)

subsection \<open>The scan accepts exactly the maximal run of valid records\<close>

definition valid_rec :: "u32 \<times> bytes \<Rightarrow> bool" where
  "valid_rec r \<longleftrightarrow> KnownMagic (fst r) \<and> 0 < length (snd r) \<and> length (snd r) < 2 ^ 32"

definition enc_recs :: "(u32 \<times> bytes) list \<Rightarrow> bytes" where
  "enc_recs rs = concat (map (\<lambda>r. EncodeRecord (fst r) (snd r)) rs)"

lemma enc_recs_simps [simp]:
  "enc_recs [] = []"
  "enc_recs (r # rs) = EncodeRecord (fst r) (snd r) @ enc_recs rs"
  "enc_recs (rs @ ts) = enc_recs rs @ enc_recs ts"
  by (simp_all add: enc_recs_def)

text \<open>\<open>next_record xs\<close>: the valid record \<open>xs\<close> starts with, if it starts with one.\<close>

definition next_record :: "bytes \<Rightarrow> (u32 \<times> bytes) option" where
  "next_record xs =
     (case DecodeRecordHeader xs of
        Inl _ \<Rightarrow> None
      | Inr (m, sz) \<Rightarrow>
          let p = subslice 8 (8 + unat sz) xs
          in if sz \<noteq> 0 \<and> KnownMagic m \<and> 12 + unat sz \<le> length xs
               \<and> RecordChecksum p = Uint32 (subslice (8 + unat sz) (12 + unat sz) xs)
             then Some (m, p) else None)"

lemma next_record_EncodeRecord:
  assumes "valid_rec r"
  shows "next_record (EncodeRecord (fst r) (snd r) @ rest) = Some r"
proof -
  let ?p = "snd r"
  have len: "unat (of_nat (length ?p) :: u32) = length ?p"
    using assms by (intro unat_length_u32) (simp add: valid_rec_def)
  then have "(of_nat (length ?p) :: u32) \<noteq> 0"
    using assms by (auto simp: valid_rec_def)
  with assms show ?thesis
    using EncodeRecord_payload [of ?p "fst r" rest] EncodeRecord_crc [of ?p "fst r" rest]
    by (simp add: next_record_def len valid_rec_def Let_def)
qed

lemma next_record_SomeD:
  assumes "next_record xs = Some r"
  shows "valid_rec r" and "xs = EncodeRecord (fst r) (snd r) @ drop (12 + length (snd r)) xs"
proof -
  obtain m sz where h: "DecodeRecordHeader xs = Inr (m, sz)" "sz \<noteq> 0" "KnownMagic m"
      "12 + unat sz \<le> length xs"
      "RecordChecksum (subslice 8 (8 + unat sz) xs) = Uint32 (subslice (8 + unat sz) (12 + unat sz) xs)"
    and r: "r = (m, subslice 8 (8 + unat sz) xs)"
    using assms by (auto simp: next_record_def Let_def split: sum.splits if_splits)
  let ?p = "subslice 8 (8 + unat sz) xs"
  have len: "length ?p = unat sz" using h(4) by simp
  have ms: "m = Uint32 (take 4 xs)" "sz = Uint32 (subslice 4 8 xs)"
    using h(1) by (auto simp: DecodeRecordHeader_def split: if_splits)
  have "EncodeRecord m ?p =
      take 4 xs @ subslice 4 8 xs @ ?p @ subslice (8 + unat sz) (12 + unat sz) xs"
    using h(4,5) PutUint32_Uint32 [of "subslice 4 8 xs"] by (simp add: EncodeRecord_def len ms(1) flip: ms(2))
  also have "\<dots> = take (12 + unat sz) xs"
    using take_add [of 4 "4 + (unat sz + 4)" xs] take_add [of 4 "unat sz + 4" "drop 4 xs"]
      take_add [of "unat sz" 4 "drop 8 xs"]
    by (simp add: subslice_def add.commute)
  finally show "xs = EncodeRecord (fst r) (snd r) @ drop (12 + length (snd r)) xs"
    using len by (simp add: r)
  have "0 < unat sz" using h(2) by (simp add: unat_gt_0)
  moreover have "unat sz < 2 ^ 32"
    using unsigned_less [of sz] by simp
  ultimately show "valid_rec r"
    using h(3) by (simp add: valid_rec_def r len)
qed

lemma next_record_SomeD_length: "next_record xs = Some r \<Longrightarrow> 12 + length (snd r) \<le> length xs"
  using arg_cong [OF next_record_SomeD(2), of xs r length] by simp

lemma truncLoop_next:
  assumes "off \<le> length data"
  shows "truncLoop data off c = (case next_record (drop off data) of None \<Rightarrow> (off, c)
     | Some r \<Rightarrow> truncLoop data (off + (12 + length (snd r))) (c + 1))"
  using assms
  by (subst truncLoop.simps)
    (auto simp: next_record_def Let_def algebra_simps DecodeRecordHeader_def split: sum.splits)

lemma truncLoop_sound:
  assumes "truncLoop data off c = (off', c')" and "off \<le> length data"
  shows "\<exists>rs. (\<forall>r\<in>set rs. valid_rec r) \<and> drop off data = enc_recs rs @ drop off' data
      \<and> off' = off + length (enc_recs rs) \<and> c' = c + of_nat (length rs)
      \<and> off' \<le> length data \<and> next_record (drop off' data) = None"
  using assms
proof (induction "length data - off" arbitrary: off c rule: less_induct)
  case less
  show ?case
  proof (cases "next_record (drop off data)")
    case None
    with less.prems show ?thesis
      by (intro exI [of _ "[]"]) (auto simp: truncLoop_next [of off data c])
  next
    case (Some r)
    let ?off = "off + (12 + length (snd r))"
    have len: "?off \<le> length data"
      using next_record_SomeD_length [OF Some] by simp
    have "truncLoop data ?off (c + 1) = (off', c')"
      using less.prems Some by (simp add: truncLoop_next [of off data c])
    then obtain rs where rs: "\<forall>r\<in>set rs. valid_rec r" "drop ?off data = enc_recs rs @ drop off' data"
        "off' = ?off + length (enc_recs rs)" "c' = c + 1 + of_nat (length rs)"
        "off' \<le> length data" "next_record (drop off' data) = None"
      using less.hyps [of ?off "c + 1"] len by fastforce
    with next_record_SomeD [OF Some] show ?thesis
      by (intro exI [of _ "r # rs"]) (auto simp: algebra_simps)
  qed
qed

lemma truncLoop_recs:
  assumes "\<And>r. r \<in> set rs \<Longrightarrow> valid_rec r" and "next_record rest = None"
  shows "truncLoop (pre @ enc_recs rs @ rest) (length pre) c =
     (length pre + length (enc_recs rs), c + of_nat (length rs))"
  using assms(1)
proof (induction rs arbitrary: pre c)
  case Nil
  then show ?case using assms(2) by (simp add: truncLoop_next)
next
  case (Cons r rs)
  let ?data = "pre @ enc_recs (r # rs) @ rest"
  have "next_record (drop (length pre) ?data) = Some r"
    using next_record_EncodeRecord [of r "enc_recs rs @ rest"] Cons.prems by simp
  then have "truncLoop ?data (length pre) c =
     truncLoop ?data (length (pre @ EncodeRecord (fst r) (snd r))) (c + 1)"
    by (simp add: truncLoop_next [of "length pre"] algebra_simps)
  also have "\<dots> = (length (pre @ EncodeRecord (fst r) (snd r)) + length (enc_recs rs),
      c + 1 + of_nat (length rs))"
    using Cons.IH [of "pre @ EncodeRecord (fst r) (snd r)" "c + 1"] Cons.prems by simp
  finally show ?case by simp
qed

subsection \<open>The streaming scan computes what the in-memory one does\<close>

text \<open>One \<^verbatim>\<open>ReadAt\<close> inside the file: a failure of the environment, or the bytes there.\<close>

lemma os_ReadAt_inside:
  assumes "dlookup d n = Some f" and "off + len \<le> length (fdata f)"
  obtains (fail) e d1 where "os_ReadAt n len (int off) d = (Inl e, d1)" "dio d \<noteq> []" "dfiles d1 = dfiles d"
  | (read) d1 where "os_ReadAt n len (int off) d = (Inr (subslice off (off + len) (fdata f)), d1)"
      "dfiles d1 = dfiles d" "dio d = [] \<longrightarrow> d1 = d"
proof (cases "os_ReadAt n len (int off) d")
  case (Pair r d1)
  have fr: "dfiles d1 = dfiles d" using Pair by (rule os_ReadAt_frame)
  have ok: "dio d = [] \<Longrightarrow> r = Inr (subslice off (off + len) (fdata f)) \<and> d1 = d"
    using os_ReadAt_ok [of d n f "int off" len] assms Pair by simp
  show thesis
  proof (cases r)
    case (Inl e)
    with Pair fr ok show thesis by (intro fail [of e d1]) auto
  next
    case (Inr bs)
    with Pair assms(1) have "bs = subslice off (off + len) (fdata f)"
      using os_ReadAt_Inr [of n len "int off" d bs d1 f] by simp
    with Pair Inr fr ok show thesis by (intro read [of d1]) auto
  qed
qed

lemma DecodeRecordHeader_take8:
  "8 \<le> length xs \<Longrightarrow> DecodeRecordHeader (take 8 xs) = DecodeRecordHeader xs"
  by (simp add: DecodeRecordHeader_def subslice_def take_drop)

lemma scanLoop_next:
  assumes "scanLoop n (length (fdata f)) off c d = (r, d')" and f: "dlookup d n = Some f"
    and off: "off \<le> length (fdata f)"
  obtains (fail) e where "r = Inl e" "dio d \<noteq> []" "dfiles d' = dfiles d"
  | (stop) "next_record (drop off (fdata f)) = None" "r = Inr (off, c)" "dfiles d' = dfiles d"
      "dio d = [] \<longrightarrow> d' = d"
  | (step) q d1 where "next_record (drop off (fdata f)) = Some q" "dfiles d1 = dfiles d"
      "dio d = [] \<longrightarrow> d1 = d"
      "scanLoop n (length (fdata f)) (off + (12 + length (snd q))) (c + 1) d1 = (r, d')"
proof (cases "length (fdata f) - off < 8")
  case True
  then have "next_record (drop off (fdata f)) = None"
    by (simp add: next_record_def DecodeRecordHeader_def)
  with True assms(1) show thesis
    by (intro stop) (simp_all add: scanLoop.simps [of n _ off])
next
  case big: False
  then have o8: "off + 8 \<le> length (fdata f)" by simp
  note eqn = assms(1) [unfolded scanLoop.simps [of n _ off]]
  from f o8 show thesis
  proof (cases rule: os_ReadAt_inside)
    case (fail e d1)
    with eqn big show thesis by (intro that(1) [of e]) auto
  next
    case (read d1)
    note h1 = read
    define m where "m = Uint32 (subslice off (off + 4) (fdata f))"
    define sz where "sz = Uint32 (subslice (off + 4) (off + 8) (fdata f))"
    have dec: "DecodeRecordHeader (subslice off (off + 8) (fdata f)) = Inr (m, sz)"
       "DecodeRecordHeader (drop off (fdata f)) = Inr (m, sz)"
      using o8 DecodeRecordHeader_take8 [of "drop off (fdata f)"]
      by (auto simp: DecodeRecordHeader_def m_def sz_def subslice_def add.commute)
    show thesis
    proof (cases "sz = 0 \<or> \<not> KnownMagic m \<or> off + 8 + unat sz + 4 > length (fdata f)")
      case True
      then have "next_record (drop off (fdata f)) = None"
        by (auto simp: next_record_def dec Let_def)
      with True eqn big h1 dec show thesis
        by (intro stop) (auto simp: Let_def split: if_splits)
    next
      case False
      then have in1: "off + 8 + unat sz \<le> length (fdata f)"
        and in2: "off + 8 + unat sz + 4 \<le> length (fdata f)" by auto
      from h1(2) f have f1: "dlookup d1 n = Some f" by simp
      from f1 in1 show thesis
      proof (cases rule: os_ReadAt_inside)
        case (fail e d2)
        with False eqn big h1 dec show thesis by (intro that(1) [of e]) (auto simp: Let_def)
      next
        case (read d2)
        note h2 = read
        from h2(2) f1 have f2: "dlookup d2 n = Some f" by simp
        from f2 in2 show thesis
        proof (cases rule: os_ReadAt_inside)
          case (fail e d3)
          with False eqn big h1 h2 dec show thesis by (intro that(1) [of e]) (auto simp: Let_def)
        next
          case (read d3)
          let ?p = "subslice (off + 8) (off + 8 + unat sz) (fdata f)"
          let ?crc = "Uint32 (subslice (off + 8 + unat sz) (off + 8 + unat sz + 4) (fdata f))"
          have nr: "next_record (drop off (fdata f)) =
              (if RecordChecksum ?p = ?crc then Some (m, ?p) else None)"
          proof -
            have "12 + unat sz \<le> length (fdata f) - off" using in2 by simp
            then show ?thesis
              using False by (simp add: next_record_def dec Let_def add.commute add.left_commute)
          qed
          show thesis
          proof (cases "RecordChecksum ?p = ?crc")
            case True
            with False eqn big h1 h2 read dec nr in1 show thesis
              by (intro step [of "(m, ?p)" d3]) (auto simp: Let_def algebra_simps)
          next
            case neq: False
            with False eqn big h1 h2 read dec nr show thesis
              by (intro stop) (auto simp: Let_def)
          qed
        qed
      qed
    qed
  qed
qed

lemma scanLoop_truncLoop:
  assumes "scanLoop n (length (fdata f)) off c d = (r, d')" and "dlookup d n = Some f"
    and "off \<le> length (fdata f)"
  shows "dfiles d' = dfiles d" and "r = Inr x \<Longrightarrow> x = truncLoop (fdata f) off c"
    and "dio d = [] \<Longrightarrow> d' = d \<and> r = Inr (truncLoop (fdata f) off c)"
proof -
  have "dfiles d' = dfiles d \<and> (\<forall>x. r = Inr x \<longrightarrow> x = truncLoop (fdata f) off c)
     \<and> (dio d = [] \<longrightarrow> d' = d \<and> r = Inr (truncLoop (fdata f) off c))"
    using assms
  proof (induction "length (fdata f) - off" arbitrary: off c d rule: less_induct)
    case less
    from less.prems show ?case
    proof (cases rule: scanLoop_next)
      case (step q d1)
      moreover have "off + (12 + length (snd q)) \<le> length (fdata f)"
        using next_record_SomeD_length [OF step(1)] less.prems(3) by simp
      ultimately show ?thesis
        using less.hyps [of "off + (12 + length (snd q))" "c + 1" d1] less.prems
        by (auto simp: truncLoop_next [of off])
    qed (auto simp: truncLoop_next [of off] less.prems)
  qed
  then show "dfiles d' = dfiles d" and "r = Inr x \<Longrightarrow> x = truncLoop (fdata f) off c"
    and "dio d = [] \<Longrightarrow> d' = d \<and> r = Inr (truncLoop (fdata f) off c)" by auto
qed

text \<open>The valid length both scans find, records and footer together.\<close>

definition valid_len :: "bytes \<Rightarrow> nat" where
  "valid_len data = snd (snd (truncateToValid data))"

definition valid_count :: "bytes \<Rightarrow> u32" where
  "valid_count data = fst (snd (truncateToValid data))"

lemma valid_len_alt:
  "valid_len data = (let off = fst (truncLoop data 0 0) in
     if 32 \<le> length data - off \<and> Uint32 (subslice (off + 28) (off + 32) data) = FooterMagic
     then off + 32 else off)"
proof -
  obtain off c where oc: "truncLoop data 0 0 = (off, c)" by (cases "truncLoop data 0 0")
  obtain a b v where vf: "ValidateFooter (take (off + 32) data) = (a, b, v)"
    by (cases "ValidateFooter (take (off + 32) data)") auto
  have "v = (Uint32 (subslice (off + 28) (off + 32) data) = FooterMagic)" if "32 \<le> length data - off"
    using that vf by (auto simp: ValidateFooter_def Let_def subslice_take split: if_splits)
  then show ?thesis
    by (cases v) (simp_all add: valid_len_def truncateToValid_def oc vf Let_def)
qed

lemma valid_count_alt: "valid_count data = snd (truncLoop data 0 0)"
  by (simp add: valid_count_def truncateToValid_def Let_def split: prod.splits)

lemma truncLoop_le: "fst (truncLoop data 0 0) \<le> length data"
  using truncLoop_sound [of data 0 0] by (cases "truncLoop data 0 0") auto

lemma valid_len_le: "valid_len data \<le> length data"
  using truncLoop_le [of data] by (auto simp: valid_len_alt Let_def)

lemma scanValidTail_valid:
  assumes "scanValidTail n (length (fdata f)) d = (r, d')" and f: "dlookup d n = Some f"
  shows "dfiles d' = dfiles d" and "r = Inr x \<Longrightarrow> x = (valid_len (fdata f), valid_count (fdata f))"
    and "dio d = [] \<Longrightarrow> d' = d \<and> r = Inr (valid_len (fdata f), valid_count (fdata f))"
proof -
  let ?data = "fdata f"
  obtain r1 d1 where loop: "scanLoop n (length ?data) 0 0 d = (r1, d1)"
    by (cases "scanLoop n (length ?data) 0 0 d")
  note sl = scanLoop_truncLoop [OF loop f]
  obtain off c where oc: "truncLoop ?data 0 0 = (off, c)" by (cases "truncLoop ?data 0 0")
  have off: "off \<le> length ?data" using truncLoop_le [of ?data] oc by simp
  have fr: "dfiles d1 = dfiles d" using sl(1) by simp
  have nf: "d1 = d \<and> r1 = Inr (off, c)" if "dio d = []" using sl(3) that oc by simp
  have all: "dfiles d' = dfiles d \<and> (\<forall>x. r = Inr x \<longrightarrow> x = (valid_len ?data, valid_count ?data))
     \<and> (dio d = [] \<longrightarrow> d' = d \<and> r = Inr (valid_len ?data, valid_count ?data))"
  proof (cases r1)
    case (Inl e)
    with assms(1) loop fr nf show ?thesis by (auto simp: scanValidTail_def)
  next
    case (Inr x1)
    then have x1: "x1 = (off, c)" using sl(2) oc by simp
    show ?thesis
    proof (cases "32 \<le> length ?data - off")
      case False
      with assms(1) loop fr nf Inr x1 oc show ?thesis
        by (auto simp: scanValidTail_def valid_len_alt valid_count_alt Let_def)
    next
      case True
      then have in32: "off + 32 \<le> length ?data" by simp
      from fr f have f1: "dlookup d1 n = Some f" by simp
      from f1 in32 show ?thesis
      proof (cases rule: os_ReadAt_inside)
        case (fail e d2)
        with fr nf x1 Inr loop assms(1) True show ?thesis by (auto simp: scanValidTail_def)
      next
        case (read d2)
        moreover have "subslice 28 32 (subslice off (off + 32) ?data) = subslice (off + 28) (off + 32) ?data"
          by (rule subslice_subslice) simp
        ultimately show ?thesis
          using fr nf x1 Inr loop assms(1) True oc
          by (auto simp: scanValidTail_def valid_len_alt valid_count_alt Let_def)
      qed
    qed
  qed
  from all show "dfiles d' = dfiles d" by (rule conjunct1)
  from all show "r = Inr x \<Longrightarrow> x = (valid_len ?data, valid_count ?data)" by blast
  from all show "dio d = [] \<Longrightarrow> d' = d \<and> r = Inr (valid_len ?data, valid_count ?data)" by blast
qed

text \<open>Recovery keeps all the records and stops at the first byte that is not one.\<close>

lemma valid_len_recs:
  assumes "\<And>r. r \<in> set rs \<Longrightarrow> valid_rec r" and "next_record rest = None"
  shows "valid_len (enc_recs rs @ rest) = length (enc_recs rs) +
           (if 32 \<le> length rest \<and> Uint32 (subslice 28 32 rest) = FooterMagic then 32 else 0)"
    and "valid_count (enc_recs rs @ rest) = of_nat (length rs)"
  using truncLoop_recs [OF assms, where pre = "[]" and c = 0]
  by (simp_all add: valid_len_alt valid_count_alt Let_def)

lemma next_record_footer:
  assumes "unat c < 2 ^ 30"
  shows "next_record (EncodeFooter c t @ rest) = None"
proof -
  have "Uint32 (subslice 0 4 (EncodeFooter c t @ rest)) = c"
    by (simp add: EncodeFooter_def)
  moreover have "\<not> KnownMagic c" using assms KnownMagic_ge [of c] by auto
  ultimately show ?thesis
    by (simp add: next_record_def DecodeRecordHeader_def Let_def)
qed

lemma valid_len_footer:
  assumes "\<And>r. r \<in> set rs \<Longrightarrow> valid_rec r" and "unat c < 2 ^ 30"
  shows "valid_len (enc_recs rs @ EncodeFooter c t @ rest) = length (enc_recs rs) + 32"
    and "valid_count (enc_recs rs @ EncodeFooter c t @ rest) = of_nat (length rs)"
proof -
  have "Uint32 (subslice 28 32 (EncodeFooter c t @ rest)) = FooterMagic"
    by (simp add: EncodeFooter_def subslice_def)
  then show "valid_len (enc_recs rs @ EncodeFooter c t @ rest) = length (enc_recs rs) + 32"
    and "valid_count (enc_recs rs @ EncodeFooter c t @ rest) = of_nat (length rs)"
    using valid_len_recs [OF assms(1) next_record_footer [OF assms(2)], of rs t rest] by simp_all
qed

end
