(* ===== verification/Segment_Index.thy ===== *)
theory Segment_Index
  imports Segment
begin

text \<open>
  The per-segment index files of \<^verbatim>\<open>internal/storage/segment_index.go\<close>: fixed-width entries
  followed by a footer that is removed and rewritten by every append. The entry codec
  interprets \<open>fixed_codec\<close>.
\<close>

subsection \<open>Entries and footer\<close>

definition IndexMagic :: u32 where [const_simps]: "IndexMagic = 0x49445846"
definition IndexVersion :: u32 where [const_simps]: "IndexVersion = 1"

abbreviation (input) IndexEntrySize :: nat where "IndexEntrySize \<equiv> 60"
abbreviation (input) IndexFooterSize :: nat where "IndexFooterSize \<equiv> 32"

record IndexEntry =
  ieOffset :: int
  ieStoredSize :: u32
  ieLogicalSize :: u32
  ieMagic :: u32
  ieHash :: bytes
  ieSupplierID :: u32
  ieDictID :: u32

text \<open>A Go array \<^verbatim>\<open>[32]byte\<close> has 32 bytes whatever was copied into it.\<close>

definition array32 :: "bytes \<Rightarrow> bytes" where
  "array32 h = take 32 (h @ replicate 32 0)"

definition EncodeIndexEntry :: "IndexEntry \<Rightarrow> bytes" where
  "EncodeIndexEntry e = PutUint64 (word_of_int (ieOffset e)) @ PutUint32 (ieStoredSize e)
     @ PutUint32 (ieLogicalSize e) @ PutUint32 (ieMagic e) @ array32 (ieHash e)
     @ PutUint32 (ieSupplierID e) @ PutUint32 (ieDictID e)"

definition DecodeIndexEntry :: "bytes \<Rightarrow> error + IndexEntry" where
  "DecodeIndexEntry buf =
     (if length buf < IndexEntrySize then Inl (Err ''index entry too short'')
      else Inr \<lparr>ieOffset = sint (Uint64 (subslice 0 8 buf)), ieStoredSize = Uint32 (subslice 8 12 buf),
                ieLogicalSize = Uint32 (subslice 12 16 buf), ieMagic = Uint32 (subslice 16 20 buf),
                ieHash = subslice 20 52 buf, ieSupplierID = Uint32 (subslice 52 56 buf),
                ieDictID = Uint32 (subslice 56 60 buf)\<rparr>)"

definition encodeIndexFooter :: "u64 \<Rightarrow> int \<Rightarrow> u32 \<Rightarrow> bytes" where
  "encodeIndexFooter rc lastOffset entriesCRC =
     PutUint32 IndexVersion @ PutUint64 rc @ PutUint64 (word_of_int lastOffset)
       @ PutUint32 entriesCRC @ replicate 4 0 @ PutUint32 IndexMagic"

definition decodeIndexFooter :: "bytes \<Rightarrow> (u64 \<times> int \<times> u32) option" where
  "decodeIndexFooter data =
     (if length data < IndexFooterSize then None
      else let off = length data - IndexFooterSize
        in if Uint32 (subslice (off + 28) (off + 32) data) \<noteq> IndexMagic then None
           else if Uint32 (subslice off (off + 4) data) \<noteq> IndexVersion then None
           else Some (Uint64 (subslice (off + 4) (off + 12) data),
                      sint (Uint64 (subslice (off + 12) (off + 20) data)),
                      Uint32 (subslice (off + 20) (off + 24) data)))"

definition ChecksumIEEE :: "bytes \<Rightarrow> u32" where
  "ChecksumIEEE = crc_checksum IEEE"

subsection \<open>State and operations\<close>

text \<open>An open handle: opened with \<^verbatim>\<open>O_APPEND\<close> or not, and its position.\<close>

record index_handle =
  h_append :: bool
  h_pos :: nat

record SegmentIndex =
  ix_files :: "int \<rightharpoonup> index_handle"
  ix_disk :: disk

definition NewSegmentIndex :: "disk \<Rightarrow> SegmentIndex" where
  "NewSegmentIndex d = \<lparr>ix_files = Map.empty, ix_disk = d\<rparr>"

definition indexPath :: "int \<Rightarrow> string" where
  "indexPath i = ''segment_'' @ sprintf04 i @ ''.idx''"

definition on_ix :: "(disk \<Rightarrow> (disk, 'a) result) \<Rightarrow> SegmentIndex \<Rightarrow> (SegmentIndex, 'a) result" where
  "on_ix f s = (case f (ix_disk s) of (r, d) \<Rightarrow> (r, s\<lparr>ix_disk := d\<rparr>))"

text \<open>\<^verbatim>\<open>f.Write(p)\<close> through a handle: at its position, or at the end of the file.\<close>

definition handle_write :: "int \<Rightarrow> bytes \<Rightarrow> SegmentIndex \<Rightarrow> (SegmentIndex, unit) result" where
  "handle_write i p s =
     (case ix_files s i of
        None \<Rightarrow> (Inl (Sentinel ''file already closed''), s)
      | Some h \<Rightarrow>
          let off = (if h_append h
                     then (case dlookup (ix_disk s) (indexPath i) of None \<Rightarrow> 0 | Some f \<Rightarrow> length (fdata f))
                     else h_pos h)
          in tryE (on_ix (os_WriteAt (indexPath i) p off) s) (\<lambda>n s1.
               (Inr (), s1\<lparr>ix_files := (ix_files s1)(i \<mapsto> h\<lparr>h_pos := off + n\<rparr>)\<rparr>)))"

definition strip_footer :: "bytes \<Rightarrow> bytes" where
  "strip_footer data =
     (if length data \<ge> IndexFooterSize \<and> decodeIndexFooter data \<noteq> None
      then take (length data - IndexFooterSize) data else data)"

definition keep_handle :: "int \<Rightarrow> bool \<Rightarrow> SegmentIndex \<Rightarrow> (SegmentIndex, unit) result" where
  "keep_handle i app s = (Inr (), s\<lparr>ix_files := (ix_files s)(i \<mapsto> \<lparr>h_append = app, h_pos = 0\<rparr>)\<rparr>)"

text \<open>The part of \<open>openAppend\<close> after the size is known: remove the footer and reopen at the end.\<close>

definition skipFooter :: "int \<Rightarrow> nat \<Rightarrow> SegmentIndex \<Rightarrow> (SegmentIndex, unit) result" where
  "skipFooter i fsize s =
     (if fsize \<ge> IndexFooterSize then
        tryE (on_ix (os_ReadFile (indexPath i)) s) (\<lambda>data s1.
          if decodeIndexFooter data \<noteq> None then
            tryE (on_ix (os_WriteFile (indexPath i) (take (length data - IndexFooterSize) data)) s1) (\<lambda>_ s2.
            tryE (on_ix (os_Open (indexPath i)) s2) (\<lambda>_ s3. keep_handle i True s3))
          else keep_handle i False s1)
      else keep_handle i False s)"

definition openAppend :: "int \<Rightarrow> SegmentIndex \<Rightarrow> (SegmentIndex, unit) result" where
  "openAppend i s =
     (if ix_files s i \<noteq> None then (Inr (), s)
      else tryE (on_ix (os_OpenCreate (indexPath i)) s) (\<lambda>_ s1.
           tryE (on_ix (os_Stat (indexPath i)) s1) (\<lambda>(fsize, _) s2. skipFooter i fsize s2)))"

definition Append_index :: "int \<Rightarrow> IndexEntry \<Rightarrow> SegmentIndex \<Rightarrow> (SegmentIndex, unit) result" where
  "Append_index i e s =
     tryE (openAppend i (s\<lparr>ix_files := (ix_files s)(i := None)\<rparr>)) (\<lambda>_ s1.
     tryE (wrapE ''write index entry: '' (handle_write i (EncodeIndexEntry e) s1)) (\<lambda>_ s2.
     tryE (on_ix (os_ReadFile (indexPath i)) s2) (\<lambda>data s3.
       let entries = strip_footer data;
           footer = encodeIndexFooter (of_nat (length entries div IndexEntrySize)) (ieOffset e)
                      (ChecksumIEEE entries)
       in tryE (wrapE ''write index footer: '' (handle_write i footer s3)) (\<lambda>_ s4.
            on_ix (os_Sync (indexPath i)) s4))))"

subsection \<open>Reading an index file\<close>

fun decodeEntries :: "bytes \<Rightarrow> nat list \<Rightarrow> IndexEntry list \<Rightarrow> error + IndexEntry list" where
  "decodeEntries data [] out = Inr out"
| "decodeEntries data (i # is) out =
     (case DecodeIndexEntry (subslice (i * IndexEntrySize) (i * IndexEntrySize + IndexEntrySize) data) of
        Inl e \<Rightarrow> Inl e
      | Inr e \<Rightarrow> decodeEntries data is (out @ [e]))"

definition parseIndex :: "string \<Rightarrow> bytes \<Rightarrow> error + IndexEntry list" where
  "parseIndex path data =
     (if data = [] then Inr []
      else let (entriesData, rc, crc) =
          (if length data \<ge> IndexFooterSize
           then (case decodeIndexFooter data of None \<Rightarrow> (data, 0, 0)
                 | Some (rc, _, crc) \<Rightarrow> (take (length data - IndexFooterSize) data, rc, crc))
           else (data, 0, 0))
        in if length entriesData mod IndexEntrySize \<noteq> 0 then Inl (Err (''corrupt index file '' @ path))
           else if crc \<noteq> 0 \<and> ChecksumIEEE entriesData \<noteq> crc
             then Inl (Err (''index CRC mismatch in '' @ path))
           else let n = length entriesData div IndexEntrySize
             in if rc \<noteq> 0 \<and> of_nat n \<noteq> rc then Inl (Err (''index record count mismatch in '' @ path))
                else decodeEntries entriesData [0..<n] [])"

definition ReadIndexFile :: "string \<Rightarrow> disk \<Rightarrow> (disk, IndexEntry list) result" where
  "ReadIndexFile path d =
     (case os_ReadFile path d of
        (Inl e, d1) \<Rightarrow> (if errors_Is e enoent then (Inr [], d1) else (Inl e, d1))
      | (Inr data, d1) \<Rightarrow> (parseIndex path data, d1))"

definition ListIndexFiles :: "disk \<Rightarrow> (disk, string list) result" where
  "ListIndexFiles d = tryE (os_ReadDir d) (\<lambda>names d1.
     (Inr (filter (\<lambda>n. sscanf_segment ''.idx'' n \<noteq> None) names), d1))"

definition Close_index :: "SegmentIndex \<Rightarrow> SegmentIndex" where
  "Close_index s = s\<lparr>ix_files := Map.empty\<rparr>"

subsection \<open>The codecs\<close>

lemma length_array32 [simp]: "length (array32 h) = 32"
  by (simp add: array32_def)

lemma array32_id: "length h = 32 \<Longrightarrow> array32 h = h"
  by (simp add: array32_def)

lemma length_EncodeIndexEntry [simp]: "length (EncodeIndexEntry e) = 60"
  by (simp add: EncodeIndexEntry_def)

lemma length_encodeIndexFooter [simp]: "length (encodeIndexFooter rc l c) = 32"
  by (simp add: encodeIndexFooter_def)

definition int64 :: "int \<Rightarrow> bool" where
  "int64 x \<longleftrightarrow> - (2 ^ 63) \<le> x \<and> x < 2 ^ 63"

lemma sint_int64: "int64 x \<Longrightarrow> sint (word_of_int x :: u64) = x"
  by (simp add: int64_def sint_sbintrunc' signed_take_bit_int_eq_self)

definition entry_ok :: "IndexEntry \<Rightarrow> bool" where
  "entry_ok e \<longleftrightarrow> int64 (ieOffset e) \<and> length (ieHash e) = 32 \<and> ieDictID e \<noteq> IndexMagic"

lemma DecodeIndexEntry_EncodeIndexEntry:
  assumes "int64 (ieOffset e)" and "length (ieHash e) = 32"
  shows "DecodeIndexEntry (EncodeIndexEntry e) = Inr e"
  using assms
  by (simp add: DecodeIndexEntry_def EncodeIndexEntry_def subslice_def array32_id sint_int64)

interpretation idx_codec: fixed_codec EncodeIndexEntry DecodeIndexEntry entry_ok Inr 60
  by unfold_locales (simp_all add: DecodeIndexEntry_EncodeIndexEntry entry_ok_def)

lemma decodeIndexFooter_encode:
  "decodeIndexFooter (xs @ encodeIndexFooter rc l c) = Some (rc, sint (word_of_int l :: u64), c)"
  by (simp add: decodeIndexFooter_def encodeIndexFooter_def subslice_def Let_def)

lemma decodeIndexFooter_entries:
  assumes "entry_ok e"
  shows "decodeIndexFooter (xs @ EncodeIndexEntry e) = None"
proof -
  have "Uint32 (subslice (length xs + 56) (length xs + 60) (xs @ EncodeIndexEntry e)) = ieDictID e"
    by (simp add: EncodeIndexEntry_def subslice_def)
  then show ?thesis using assms by (simp add: decodeIndexFooter_def Let_def entry_ok_def)
qed

text \<open>What a well-formed index file with entries \<open>es\<close> contains.\<close>

definition idx_entries :: "IndexEntry list \<Rightarrow> bytes" where
  "idx_entries es = concat (map EncodeIndexEntry es)"

definition idx_bytes :: "IndexEntry list \<Rightarrow> bytes" where
  "idx_bytes es = (if es = [] then [] else idx_entries es @
     encodeIndexFooter (of_nat (length es)) (ieOffset (last es)) (ChecksumIEEE (idx_entries es)))"

lemma length_idx_entries [simp]: "length (idx_entries es) = 60 * length es"
  unfolding idx_entries_def by (rule idx_codec.length_enc_all)

lemma idx_entries_snoc [simp]: "idx_entries (es @ [e]) = idx_entries es @ EncodeIndexEntry e"
  by (simp add: idx_entries_def)

lemma strip_footer_entries: "entry_ok e \<Longrightarrow> strip_footer (idx_entries es @ EncodeIndexEntry e) = idx_entries es @ EncodeIndexEntry e"
  by (simp add: strip_footer_def decodeIndexFooter_entries)

lemma decodeEntries_map:
  "(\<And>i. i \<in> set is \<Longrightarrow> DecodeIndexEntry (subslice (i * 60) (i * 60 + 60) data) = Inr (g i)) \<Longrightarrow>
     decodeEntries data is out = Inr (out @ map g is)"
  by (induction "is" arbitrary: out) auto

lemma parseIndex_idx_bytes:
  assumes "list_all entry_ok es" and "length es < 2 ^ 64"
  shows "parseIndex path (idx_bytes es) = Inr es"
proof (cases "es = []")
  case False
  have "decodeEntries (idx_entries es) [0..<length es] [] = Inr ([] @ map (\<lambda>i. es ! i) [0..<length es])"
    using idx_codec.chunk_enc_all assms(1)
    by (intro decodeEntries_map) (auto simp: idx_entries_def list_all_length idx_codec.dec_enc)
  moreover have "decodeIndexFooter (idx_bytes es) = Some (of_nat (length es),
      sint (word_of_int (ieOffset (last es)) :: u64), ChecksumIEEE (idx_entries es))"
    using False by (simp add: idx_bytes_def decodeIndexFooter_encode)
  moreover have "idx_bytes es \<noteq> []"
    using False length_encodeIndexFooter [of "of_nat (length es)" "ieOffset (last es)" "ChecksumIEEE (idx_entries es)"]
    by (auto simp: idx_bytes_def simp del: length_encodeIndexFooter)
  ultimately show ?thesis
    using False by (simp add: parseIndex_def Let_def) (simp add: idx_bytes_def map_nth)
qed (simp add: parseIndex_def idx_bytes_def)

subsection \<open>Append\<close>

definition idx_file :: "disk \<Rightarrow> int \<Rightarrow> IndexEntry list \<Rightarrow> bool" where
  "idx_file d i es \<longleftrightarrow> (case dlookup d (indexPath i) of None \<Rightarrow> es = [] | Some f \<Rightarrow> fdata f = idx_bytes es)"

definition at_end :: "SegmentIndex \<Rightarrow> int \<Rightarrow> bytes \<Rightarrow> bool" where
  "at_end s i xs \<longleftrightarrow> (\<exists>h f. ix_files s i = Some h \<and> dlookup (ix_disk s) (indexPath i) = Some f
     \<and> fdata f = xs \<and> (h_append h \<or> h_pos h = length xs))"

definition others_same :: "SegmentIndex \<Rightarrow> int \<Rightarrow> SegmentIndex \<Rightarrow> bool" where
  "others_same s i s' \<longleftrightarrow> (\<forall>n. n \<noteq> indexPath i \<longrightarrow> dlookup (ix_disk s') n = dlookup (ix_disk s) n)"

lemma others_same_trans: "others_same s i t \<Longrightarrow> others_same t i u \<Longrightarrow> others_same s i u"
  by (simp add: others_same_def)

lemma on_ix_iff: "on_ix f s = (r, t) \<longleftrightarrow> (\<exists>d. f (ix_disk s) = (r, d) \<and> t = s\<lparr>ix_disk := d\<rparr>)"
  by (auto simp: on_ix_def split: prod.splits)

lemma handle_write_end:
  assumes "handle_write i p s = (Inr u, s')" and "at_end s i xs"
  shows "at_end s' i (xs @ p)" and "others_same s i s'"
proof -
  obtain h f where h: "ix_files s i = Some h" "dlookup (ix_disk s) (indexPath i) = Some f"
      "fdata f = xs" "h_append h \<or> h_pos h = length xs"
    using assms(2) by (auto simp: at_end_def)
  define off where "off = (if h_append h then length xs else h_pos h)"
  have off: "off = length xs" using h(4) by (auto simp: off_def)
  obtain n d where w: "os_WriteAt (indexPath i) p off (ix_disk s) = (Inr n, d)"
    and s': "s' = s\<lparr>ix_disk := d, ix_files := (ix_files s)(i \<mapsto> h\<lparr>h_pos := off + n\<rparr>)\<rparr>"
  proof -
    have "tryE (on_ix (os_WriteAt (indexPath i) p off) s) (\<lambda>n s1.
        (Inr (), s1\<lparr>ix_files := (ix_files s1)(i \<mapsto> h\<lparr>h_pos := off + n\<rparr>)\<rparr>)) = (Inr u, s')"
      using assms(1) h(1-3) by (cases "h_append h") (simp_all add: handle_write_def Let_def off_def)
    then show ?thesis by (auto simp: tryE_iffs on_ix_iff intro: that)
  qed
  have "n = length p" "dlookup d (indexPath i) = Some (file_write off p f)"
    using os_WriteAt_own [OF w h(2)] by auto
  then show "at_end s' i (xs @ p)"
    using h(3) off by (auto simp: at_end_def s' file_write_def)
  show "others_same s i s'" using os_WriteAt_other [OF w] by (simp add: others_same_def s')
qed

lemma openAppend_end:
  assumes "openAppend i s = (Inr u, s')" and "idx_file (ix_disk s) i es" and "ix_files s i = None"
  shows "at_end s' i (idx_entries es)" and "others_same s i s'"
proof -
  let ?n = "indexPath i"
  define f where "f = (case dlookup (ix_disk s) ?n of None \<Rightarrow> empty_file | Some f \<Rightarrow> f)"
  have fb: "fdata f = idx_bytes es"
    using assms(2) by (auto simp: idx_file_def f_def empty_file_def idx_bytes_def split: option.splits)
  obtain d1 d2 x where oc: "os_OpenCreate ?n (ix_disk s) = (Inr (), d1)"
    and st: "os_Stat ?n d1 = (Inr x, d2)" and k: "skipFooter i (fst x) (s\<lparr>ix_disk := d2\<rparr>) = (Inr u, s')"
    using assms(1,3) by (auto simp: openAppend_def tryE_iffs on_ix_iff)
  have f1: "dlookup d1 ?n = Some f" using os_OpenCreate_own [OF oc] by (simp add: f_def)
  have x: "fst x = length (idx_bytes es)" using os_Stat_Inr [OF st f1] fb by simp
  have f2: "dlookup d2 = dlookup d1" using os_Stat_frame [OF st] by simp
  note oth = os_OpenCreate_other [OF oc]
  have "at_end s' i (idx_entries es) \<and> others_same s i s'"
  proof (cases "es = []")
    case True
    with k x f1 f2 fb oth show ?thesis
      by (auto simp: skipFooter_def keep_handle_def idx_bytes_def at_end_def others_same_def idx_entries_def)
  next
    case False
    let ?data = "idx_bytes es"
    have ft: "decodeIndexFooter ?data \<noteq> None" "take (length ?data - 32) ?data = idx_entries es"
      "32 \<le> length ?data"
      using False by (simp_all add: idx_bytes_def decodeIndexFooter_encode)
    obtain data d3 where rd: "os_ReadFile ?n d2 = (Inr data, d3)"
      using k ft(3) x by (auto simp: skipFooter_def tryE_iffs on_ix_iff)
    have data: "data = ?data" using os_ReadFile_Inr [OF rd] f1 f2 fb by simp
    obtain d4 d5 where
      wf: "os_WriteFile ?n (idx_entries es) d3 = (Inr (), d4)" and op: "os_Open ?n d4 = (Inr (), d5)"
      and s': "s' = s\<lparr>ix_disk := d5, ix_files := (ix_files s)(i \<mapsto> \<lparr>h_append = True, h_pos = 0\<rparr>)\<rparr>"
      using k ft x rd data by (auto simp: skipFooter_def tryE_iffs on_ix_iff keep_handle_def)
    obtain g where "dlookup d4 ?n = Some g" "fdata g = idx_entries es" using os_WriteFile_Inr [OF wf] by blast
    moreover have "dlookup d5 = dlookup d4" using os_Open_frame [OF op] by simp
    moreover have "dlookup d3 = dlookup d2" using os_ReadFile_frame [OF rd] by simp
    ultimately show ?thesis
      using os_WriteFile_other [OF wf] f2 oth by (auto simp: s' at_end_def others_same_def)
  qed
  then show "at_end s' i (idx_entries es)" and "others_same s i s'" by auto
qed

text \<open>Every acknowledged append extends the file by its entry, is synced, and touches no other file.\<close>

lemma Append_index_Inr:
  assumes "Append_index i e s = (Inr u, s')" and "idx_file (ix_disk s) i es" and "entry_ok e"
  shows "idx_file (ix_disk s') i (es @ [e])" and "others_same s i s'"
    and "\<exists>f. dlookup (ix_disk s') (indexPath i) = Some f \<and> fsynced f = length (fdata f)"
proof -
  let ?n = "indexPath i" and ?E = "idx_entries (es @ [e])"
  let ?ft = "encodeIndexFooter (of_nat (length es + 1)) (ieOffset e) (ChecksumIEEE ?E)"
  define s0 where "s0 = s\<lparr>ix_files := (ix_files s)(i := None)\<rparr>"
  obtain s1 s2 data d3 where op: "openAppend i s0 = (Inr (), s1)"
    and w1: "handle_write i (EncodeIndexEntry e) s1 = (Inr (), s2)"
    and rd: "os_ReadFile ?n (ix_disk s2) = (Inr data, d3)"
    and k: "tryE (wrapE ''write index footer: '' (handle_write i
        (encodeIndexFooter (of_nat (length (strip_footer data) div 60)) (ieOffset e) (ChecksumIEEE (strip_footer data)))
        (s2\<lparr>ix_disk := d3\<rparr>))) (\<lambda>_ s4. on_ix (os_Sync ?n) s4) = (Inr u, s')"
    using assms(1) by (auto simp: Append_index_def s0_def tryE_iffs on_ix_iff Let_def)
  note o1 = openAppend_end [OF op, of es]
  have i0: "idx_file (ix_disk s0) i es" "ix_files s0 i = None" "others_same s i s0"
    using assms(2) by (simp_all add: s0_def others_same_def)
  note h1 = handle_write_end [OF w1 o1(1) [OF i0(1,2)]]
  obtain f2 where f2: "dlookup (ix_disk s2) ?n = Some f2" "fdata f2 = ?E" using h1(1) by (auto simp: at_end_def)
  have data: "data = ?E" using os_ReadFile_Inr [OF rd f2(1)] f2(2) by simp
  have st: "strip_footer data = ?E" using strip_footer_entries [OF assms(3)] by (simp add: data)
  have d3: "dfiles d3 = dfiles (ix_disk s2)" using os_ReadFile_frame [OF rd] .
  obtain s4 d5 where w2: "handle_write i ?ft (s2\<lparr>ix_disk := d3\<rparr>) = (Inr (), s4)"
    and sy: "os_Sync ?n (ix_disk s4) = (Inr (), d5)" and s': "s' = s4\<lparr>ix_disk := d5\<rparr>"
    using k unfolding st by (auto simp: tryE_iffs on_ix_iff add.commute)
  have "at_end (s2\<lparr>ix_disk := d3\<rparr>) i ?E" using h1(1) d3 by (simp add: at_end_def)
  note h2 = handle_write_end [OF w2 this]
  obtain f4 where f4: "dlookup (ix_disk s4) ?n = Some f4" "fdata f4 = ?E @ ?ft" using h2(1) by (auto simp: at_end_def)
  have fin: "dlookup d5 ?n = Some (f4\<lparr>fsynced := length (fdata f4)\<rparr>)" using os_Sync_own [OF sy f4(1)] by simp
  then show "idx_file (ix_disk s') i (es @ [e])"
    using f4(2) by (simp add: idx_file_def s' idx_bytes_def)
  show "\<exists>f. dlookup (ix_disk s') ?n = Some f \<and> fsynced f = length (fdata f)" using fin by (simp add: s')
  show "others_same s i s'"
    using o1(2) [OF i0(1,2)] h1(2) h2(2) i0(3) os_Sync_other [OF sy] d3 by (simp add: others_same_def s')
qed

lemma indexPath_eq_iff [simp]: "indexPath i = indexPath j \<longleftrightarrow> i = j"
  by (auto simp: indexPath_def dest: sprintf04_inj)

subsection \<open>Properties\<close>

text \<open>
  C19 (roundtrip). Take an index file that is new or consists of entries and their footer, and
  append an entry; its offset and the earlier ones are 64-bit numbers, the hashes have 32 bytes,
  and no dictionary number is the magic of a footer. If the append is acknowledged, reading the file
  yields the earlier entries followed by the new one, or an error when the read itself fails; the
  files of other segments still hold what they held.
\<close>

theorem index_append_read:
  assumes "list_all entry_ok (es @ [e])" and "length es + 1 < 2 ^ 64"
    and "idx_file (ix_disk s) i es" and "Append_index i e s = (Inr u, s')"
  shows "idx_file (ix_disk s') i (es @ [e])
     \<and> (fst (ReadIndexFile (indexPath i) (ix_disk s')) = Inr xs \<longrightarrow> xs = es @ [e])
     \<and> (dio (ix_disk s') = [] \<longrightarrow> fst (ReadIndexFile (indexPath i) (ix_disk s')) = Inr (es @ [e]))
     \<and> (j \<noteq> i \<longrightarrow> idx_file (ix_disk s') j es' = idx_file (ix_disk s) j es')"
proof -
  have ok: "entry_ok e" using assms(1) by simp
  note ap = Append_index_Inr [OF assms(4,3) ok]
  obtain f where f: "dlookup (ix_disk s') (indexPath i) = Some f" "fdata f = idx_bytes (es @ [e])"
    using ap(1,3) by (auto simp: idx_file_def)
  have pr: "parseIndex (indexPath i) (idx_bytes (es @ [e])) = Inr (es @ [e])"
    using parseIndex_idx_bytes [OF assms(1)] assms(2) by simp
  obtain r d where rd: "os_ReadFile (indexPath i) (ix_disk s') = (r, d)"
    by (cases "os_ReadFile (indexPath i) (ix_disk s')")
  have re: "\<not> errors_Is e' enoent" if "r = Inl e'" for e'
    using rd that f(1) by (auto simp: os_ReadFile_def dlookup_next_io enoent_def split: prod.splits option.splits)
  have ri: "r = Inr x \<Longrightarrow> x = idx_bytes (es @ [e])" for x
    using os_ReadFile_Inr [of "indexPath i" "ix_disk s'" x d f] rd f by simp
  have ro: "dio (ix_disk s') = [] \<Longrightarrow> r = Inr (idx_bytes (es @ [e]))"
    using rd f by (simp add: os_ReadFile_def next_io_nofault)
  have 1: "fst (ReadIndexFile (indexPath i) (ix_disk s')) = Inr xs \<longrightarrow> xs = es @ [e]"
    using re ri pr by (cases r) (auto simp: ReadIndexFile_def rd)
  have 2: "dio (ix_disk s') = [] \<longrightarrow> fst (ReadIndexFile (indexPath i) (ix_disk s')) = Inr (es @ [e])"
    using ro pr by (auto simp: ReadIndexFile_def rd)
  show ?thesis using ap 1 2 by (auto simp: idx_file_def others_same_def)
qed

definition sample_entry :: "int \<Rightarrow> IndexEntry" where
  "sample_entry k = \<lparr>ieOffset = k, ieStoredSize = 13, ieLogicalSize = 1, ieMagic = MagicXML,
     ieHash = replicate 32 9, ieSupplierID = 3, ieDictID = 0\<rparr>"

lemma sample_entry_ok: "0 \<le> k \<Longrightarrow> k < 2 ^ 63 \<Longrightarrow> entry_ok (sample_entry k)"
  by (simp add: entry_ok_def sample_entry_def int64_def IndexMagic_def)

lemma Append_index_healthy:
  assumes "dio (ix_disk s) = []" and "dlookup (ix_disk s) (indexPath i) = None"
  shows "\<exists>s'. Append_index i e s = (Inr (), s') \<and> dio (ix_disk s') = []"
  using assms
  by (simp add: Append_index_def openAppend_def on_ix_def os_OpenCreate_def os_Stat_def next_io_nofault
      skipFooter_def keep_handle_def empty_file_def handle_write_def Let_def os_WriteAt_def os_ReadFile_def
      os_Sync_def)

theorem index_append_read_witness:
  "\<exists>s'. Append_index 0 (sample_entry 5) (NewSegmentIndex \<lparr>dfiles = [], dio = []\<rparr>) = (Inr (), s')
     \<and> fst (ReadIndexFile (indexPath 0) (ix_disk s')) = Inr [sample_entry 5]"
proof -
  let ?s = "NewSegmentIndex \<lparr>dfiles = [], dio = []\<rparr>"
  obtain s' where a: "Append_index 0 (sample_entry 5) ?s = (Inr (), s')" "dio (ix_disk s') = []"
    using Append_index_healthy [of ?s 0 "sample_entry 5"] by (auto simp: NewSegmentIndex_def)
  have "idx_file (ix_disk ?s) 0 []" by (simp add: idx_file_def NewSegmentIndex_def)
  from index_append_read [OF _ _ this a(1), of "[]" 0 "[]"] sample_entry_ok [of 5] a show ?thesis by auto
qed

text \<open>
  C20 (safety, a violation). When an append fails between its entry and its footer, the file is
  left without a footer and the next append, though acknowledged, writes at the start of the
  file: the entry that was there is overwritten, and reading the file returns the new entry
  and one made of footer bytes, without an error.
\<close>

theorem index_append_after_failure_overwrites:
  assumes "entry_ok e0" and "entry_ok e1" and "entry_ok e2"
    and "dlookup (ix_disk s) (indexPath i) = Some f0" and "fdata f0 = idx_bytes [e0]"
    and "dio (ix_disk s) = [Pass, Pass, Pass, Pass, Pass, Pass, Pass, Fail 0 m]"
  shows "\<exists>e s1 s2 x. Append_index i e1 s = (Inl e, s1) \<and> Append_index i e2 s1 = (Inr (), s2)
     \<and> fst (ReadIndexFile (indexPath i) (ix_disk s2)) = Inr [e2, x] \<and> ieOffset x = 8589934593"
proof -
  let ?n = "indexPath i"
  have b0: "fdata f0 = EncodeIndexEntry e0 @ encodeIndexFooter 1 (ieOffset e0) (ChecksumIEEE (EncodeIndexEntry e0))"
    by (simp add: assms(5) idx_bytes_def idx_entries_def)
  have st1: "strip_footer (EncodeIndexEntry e0 @ EncodeIndexEntry e1) = EncodeIndexEntry e0 @ EncodeIndexEntry e1"
    using strip_footer_entries [OF assms(2), of "[e0]"] by (simp add: idx_entries_def)
  have nio: "next_io d = (None, 0, d\<lparr>dio := fs\<rparr>)" if "dio d = Pass # fs" for d fs
    using that by (simp add: next_io_def)
  have op: "\<exists>s1 f1. openAppend i (s\<lparr>ix_files := (ix_files s)(i := None)\<rparr>) = (Inr (), s1)
      \<and> dio (ix_disk s1) = [Pass, Pass, Fail 0 m]
      \<and> ix_files s1 i = Some \<lparr>h_append = True, h_pos = 0\<rparr>
      \<and> dlookup (ix_disk s1) ?n = Some f1 \<and> fdata f1 = EncodeIndexEntry e0"
    using assms(4,6)
    by (simp add: openAppend_def on_ix_def os_OpenCreate_def os_Stat_def nio b0 decodeIndexFooter_encode
        os_WriteFile_def os_Open_def os_ReadFile_def skipFooter_def keep_handle_def)
  then obtain s1 f1 where s1: "openAppend i (s\<lparr>ix_files := (ix_files s)(i := None)\<rparr>) = (Inr (), s1)"
     "dio (ix_disk s1) = [Pass, Pass, Fail 0 m]" "ix_files s1 i = Some \<lparr>h_append = True, h_pos = 0\<rparr>"
     "dlookup (ix_disk s1) ?n = Some f1" "fdata f1 = EncodeIndexEntry e0" by blast
  have "\<exists>e s2 f2. Append_index i e1 s = (Inl e, s2) \<and> dio (ix_disk s2) = []
      \<and> dlookup (ix_disk s2) ?n = Some f2 \<and> fdata f2 = EncodeIndexEntry e0 @ EncodeIndexEntry e1"
    using s1 by (simp add: Append_index_def handle_write_def Let_def on_ix_def os_WriteAt_def nio st1
       os_ReadFile_def file_write_def write_bytes_def) (simp add: next_io_def file_write_def write_bytes_def)
  then obtain e s2 f2 where s2: "Append_index i e1 s = (Inl e, s2)" "dio (ix_disk s2) = []"
      "dlookup (ix_disk s2) ?n = Some f2" "fdata f2 = EncodeIndexEntry e0 @ EncodeIndexEntry e1" by blast
  let ?d = "EncodeIndexEntry e2 @ EncodeIndexEntry e1"
  let ?ft = "encodeIndexFooter 2 (ieOffset e2) (ChecksumIEEE ?d)"
  have nf: "decodeIndexFooter (xs @ EncodeIndexEntry e1) = None" for xs
    using decodeIndexFooter_entries [OF assms(2)] .
  have st2: "strip_footer ?d = ?d" using nf by (simp add: strip_footer_def)
  have "\<exists>s3 f3. Append_index i e2 s2 = (Inr (), s3) \<and> dio (ix_disk s3) = []
      \<and> dlookup (ix_disk s3) ?n = Some f3 \<and> fdata f3 = EncodeIndexEntry e2 @ ?ft @ drop 32 (EncodeIndexEntry e1)"
    using s2 by (simp add: Append_index_def openAppend_def on_ix_def os_OpenCreate_def os_Stat_def os_ReadFile_def
        os_Sync_def next_io_nofault nf st2 skipFooter_def keep_handle_def handle_write_def Let_def os_WriteAt_def
        file_write_def write_bytes_def)
  then obtain s3 f3 where s3: "Append_index i e2 s2 = (Inr (), s3)" "dio (ix_disk s3) = []"
      "dlookup (ix_disk s3) ?n = Some f3" "fdata f3 = EncodeIndexEntry e2 @ ?ft @ drop 32 (EncodeIndexEntry e1)"
    by blast
  have "Uint32 (subslice 116 120 (fdata f3)) = ieDictID e1"
    by (simp add: s3(4) EncodeIndexEntry_def subslice_def)
  then have nf3: "decodeIndexFooter (fdata f3) = None"
    using assms(2) by (simp add: decodeIndexFooter_def Let_def s3(4) entry_ok_def)
  let ?x = "?ft @ drop 32 (EncodeIndexEntry e1)"
  obtain x where x: "DecodeIndexEntry ?x = Inr x" "ieOffset x = sint (Uint64 (take 8 ?x))"
    by (simp add: DecodeIndexEntry_def)
  have "take 8 ?x = PutUint32 1 @ take 4 (PutUint64 2)"
    by (simp add: encodeIndexFooter_def IndexVersion_def)
  also have "\<dots> = PutUint64 8589934593"
    by (simp add: PutUint32_def PutUint64_def le_put_numeral)
  finally have x8: "ieOffset x = 8589934593" using x(2) by simp
  have "parseIndex ?n (fdata f3) = Inr [e2, x]"
    using nf3 x(1) idx_codec.dec_enc [OF assms(3)] by (simp add: parseIndex_def s3(4) upt_rec)
  then have "fst (ReadIndexFile ?n (ix_disk s3)) = Inr [e2, x]"
    using s3(2,3) by (simp add: ReadIndexFile_def os_ReadFile_def next_io_nofault)
  with s2(1) s3(1) x8 show ?thesis by blast
qed

theorem index_append_after_failure_overwrites_witness:
  "\<exists>e s1 s2 x. Append_index 0 (sample_entry 20) \<lparr>ix_files = Map.empty, ix_disk =
       \<lparr>dfiles = [(indexPath 0, \<lparr>fdata = idx_bytes [sample_entry 5], fsynced = 92, fmtime = 0\<rparr>)],
        dio = [Pass, Pass, Pass, Pass, Pass, Pass, Pass, Fail 0 ''no space left on device'']\<rparr>\<rparr> = (Inl e, s1)
     \<and> Append_index 0 (sample_entry 40) s1 = (Inr (), s2)
     \<and> fst (ReadIndexFile (indexPath 0) (ix_disk s2)) = Inr [sample_entry 40, x] \<and> x \<noteq> sample_entry 5"
proof -
  let ?s = "\<lparr>ix_files = Map.empty, ix_disk =
       \<lparr>dfiles = [(indexPath 0, \<lparr>fdata = idx_bytes [sample_entry 5], fsynced = 92, fmtime = 0\<rparr>)],
        dio = [Pass, Pass, Pass, Pass, Pass, Pass, Pass, Fail 0 ''no space left on device'']\<rparr>\<rparr>"
  let ?f = "\<lparr>fdata = idx_bytes [sample_entry 5], fsynced = 92, fmtime = 0\<rparr>"
  have "entry_ok (sample_entry 5)" "entry_ok (sample_entry 20)" "entry_ok (sample_entry 40)"
    by (intro sample_entry_ok; simp)+
  from index_append_after_failure_overwrites [OF this, of ?s 0 ?f "''no space left on device''"]
  obtain e s1 s2 x where "Append_index 0 (sample_entry 20) ?s = (Inl e, s1)"
    "Append_index 0 (sample_entry 40) s1 = (Inr (), s2)"
    "fst (ReadIndexFile (indexPath 0) (ix_disk s2)) = Inr [sample_entry 40, x]" "ieOffset x = 8589934593"
    by auto
  moreover from this(4) have "x \<noteq> sample_entry 5" by (auto simp: sample_entry_def)
  ultimately show ?thesis by blast
qed

end
