(* ===== verification/Segment_Append.thy ===== *)
theory Segment_Append
  imports Segment
begin

text \<open>
  What an append of the segment manager promises, on every path and under every failure of
  the file system: the invariant of the manager, the frame of an append, and the contract
  of a record log as a locale with its two interpretations, for appends that sync and for
  the unsynced ones a batch is made of.
\<close>

subsection \<open>The manager's invariant and what an append keeps\<close>

text \<open>
  \<open>sm_inv\<close>: no segment file is numbered above the active one, and an open handle is that of
  the active file, at least \<open>activeOffset\<close> bytes long. A manager whose handle was closed (by
  a rotation that failed half way, or by \<open>Close\<close>) satisfies it too.
\<close>

definition live :: "SegmentManager \<Rightarrow> bool" where
  "live s \<longleftrightarrow> activeFile s = Some (segmentPath (activeID s), True)"

definition stopped :: "SegmentManager \<Rightarrow> bool" where
  "stopped s \<longleftrightarrow> (\<exists>n. activeFile s = Some (n, False))"

definition active_dfile :: "SegmentManager \<Rightarrow> dfile option" where
  "active_dfile s = dlookup (sdisk s) (segmentPath (activeID s))"

definition sm_inv :: "SegmentManager \<Rightarrow> bool" where
  "sm_inv s \<longleftrightarrow> 0 \<le> activeID s \<and> (\<forall>i>activeID s. dlookup (sdisk s) (segmentPath i) = None)
     \<and> (stopped s \<or> (live s \<and> (\<exists>f. active_dfile s = Some f \<and> activeOffset s \<le> length (fdata f))))"

text \<open>
  \<open>keeps s s'\<close>: every sealed segment of \<open>s\<close> is unchanged in \<open>s'\<close>, and so are the bytes of
  the active one below its append offset and how many of them are on stable storage.
\<close>

definition keeps :: "SegmentManager \<Rightarrow> SegmentManager \<Rightarrow> bool" where
  "keeps s s' \<longleftrightarrow> activeID s \<le> activeID s'
     \<and> (activeID s = activeID s' \<longrightarrow> activeOffset s \<le> activeOffset s')
     \<and> (\<forall>i<activeID s. dlookup (sdisk s') (segmentPath i) = dlookup (sdisk s) (segmentPath i))
     \<and> (\<forall>f. active_dfile s = Some f \<longrightarrow>
          (\<exists>g. dlookup (sdisk s') (segmentPath (activeID s)) = Some g
             \<and> take (activeOffset s) (fdata g) = take (activeOffset s) (fdata f)
             \<and> min (fsynced f) (activeOffset s) \<le> fsynced g))"

lemma keeps_refl [simp]: "keeps s s"
  by (auto simp: keeps_def active_dfile_def)

lemma keeps_trans:
  assumes "keeps s t" and "keeps t u" shows "keeps s u"
proof (cases "activeID s = activeID t")
  case True
  show ?thesis unfolding keeps_def
  proof (intro conjI allI impI)
    fix f assume "active_dfile s = Some f"
    with assms(1) obtain g where g: "active_dfile t = Some g"
       "take (activeOffset s) (fdata g) = take (activeOffset s) (fdata f)"
       "min (fsynced f) (activeOffset s) \<le> fsynced g"
      by (auto simp: keeps_def active_dfile_def True)
    with assms(2) obtain h where h: "dlookup (sdisk u) (segmentPath (activeID t)) = Some h"
       "take (activeOffset t) (fdata h) = take (activeOffset t) (fdata g)"
       "min (fsynced g) (activeOffset t) \<le> fsynced h"
      by (auto simp: keeps_def)
    have le: "activeOffset s \<le> activeOffset t" using assms(1) True by (simp add: keeps_def)
    have "take (activeOffset s) (fdata h) = take (activeOffset s) (fdata g)"
      using arg_cong [OF h(2), of "take (activeOffset s)"] le by (simp add: min_absorb1)
    then show "\<exists>g. dlookup (sdisk u) (segmentPath (activeID s)) = Some g
             \<and> take (activeOffset s) (fdata g) = take (activeOffset s) (fdata f)
             \<and> min (fsynced f) (activeOffset s) \<le> fsynced g"
      using h g le True by auto
  qed (use assms True in \<open>auto simp: keeps_def\<close>)
next
  case False
  with assms(1) have lt: "activeID s < activeID t" by (simp add: keeps_def)
  with assms show ?thesis by (auto simp: keeps_def)
qed

subsubsection \<open>The file operations of an append\<close>

lemma on_active_live: "live s \<Longrightarrow> on_active f s = on_disk (f (segmentPath (activeID s))) s"
  by (simp add: on_active_def live_def)

lemma on_active_stopped: "stopped s \<Longrightarrow> on_active f s = (Inl (Sentinel ''file already closed''), s)"
  by (auto simp: on_active_def stopped_def)

lemma live_not_stopped: "live s \<Longrightarrow> \<not> stopped s"
  by (auto simp: live_def stopped_def)

lemma stopped_append:
  "stopped s \<Longrightarrow> \<exists>e. appendLocked rec fsync s = (Inl e, s)"
  by (auto simp: appendLocked_def rotateIfFull_def finalizeLocked_def on_active_def stopped_def Let_def)

lemma on_active_WriteAt:
  assumes "on_active (\<lambda>n. os_WriteAt n p (activeOffset s)) s = (r, s')" and "sm_inv s" and "live s"
  shows "sm_inv s'" and "keeps s s'" and "live s'" and "activeID s' = activeID s"
    and "activeOffset s' = activeOffset s" and "recordCount s' = recordCount s"
    and "maxSegmentSize s' = maxSegmentSize s"
    and "r = Inr k \<Longrightarrow> k = length p \<and> (\<exists>f g. active_dfile s = Some f \<and> active_dfile s' = Some g
           \<and> take (activeOffset s + length p) (fdata g) = take (activeOffset s) (fdata f) @ p)"
proof -
  obtain f where f: "active_dfile s = Some f" "activeOffset s \<le> length (fdata f)"
    using assms(2,3) live_not_stopped by (auto simp: sm_inv_def)
  obtain d' where w: "os_WriteAt (segmentPath (activeID s)) p (activeOffset s) (sdisk s) = (r, d')"
    and s': "s' = s\<lparr>sdisk := d'\<rparr>"
    using assms(1,3) by (auto simp: on_active_live on_disk_def split: prod.splits)
  note own = os_WriteAt_own [OF w f(1) [unfolded active_dfile_def]]
  note oth = os_WriteAt_other [OF w]
  obtain q where q: "dlookup d' (segmentPath (activeID s)) = Some (file_write (activeOffset s) q f)"
    and qp: "r = Inr k \<Longrightarrow> q = p \<and> k = length p" for k
    using own by auto
  have len: "activeOffset s \<le> length (write_bytes (activeOffset s) q (fdata f))"
    by (simp add: length_write_bytes)
  show "live s'" and "activeID s' = activeID s"
    and "activeOffset s' = activeOffset s" and "recordCount s' = recordCount s"
    and "maxSegmentSize s' = maxSegmentSize s"
    using assms(3) by (simp_all add: s' live_def)
  show "sm_inv s'"
    using assms(2,3) q len oth by (auto simp: sm_inv_def s' active_dfile_def live_def file_write_def)
  show "keeps s s'"
    using f q oth by (auto simp: keeps_def s' active_dfile_def file_write_def take_write_bytes)
  assume "r = Inr k"
  then have "q = p" "k = length p" using qp by auto
  moreover have "take (activeOffset s + length p) (write_bytes (activeOffset s) p (fdata f))
      = take (activeOffset s) (fdata f) @ p"
    using f(2) by (simp add: write_bytes_def min_absorb2)
  ultimately show "k = length p \<and> (\<exists>f g. active_dfile s = Some f \<and> active_dfile s' = Some g
           \<and> take (activeOffset s + length p) (fdata g) = take (activeOffset s) (fdata f) @ p)"
    using f q by (auto simp: active_dfile_def s' file_write_def)
qed

lemma on_active_Sync:
  assumes "on_active os_Sync s = (r, s')" and "sm_inv s" and "live s"
  shows "sm_inv s'" and "keeps s s'" and "live s'" and "activeID s' = activeID s"
    and "activeOffset s' = activeOffset s" and "recordCount s' = recordCount s"
    and "maxSegmentSize s' = maxSegmentSize s"
    and "map_option fdata (active_dfile s') = map_option fdata (active_dfile s)"
    and "r = Inr u \<Longrightarrow> \<exists>f. active_dfile s' = Some f \<and> fsynced f = length (fdata f)"
    and "\<forall>f g. active_dfile s = Some f \<longrightarrow> active_dfile s' = Some g \<longrightarrow>
           fsynced g = fsynced f \<or> fsynced g = length (fdata f)"
proof -
  obtain f where f: "active_dfile s = Some f" "activeOffset s \<le> length (fdata f)"
    using assms(2,3) live_not_stopped by (auto simp: sm_inv_def)
  obtain d' where w: "os_Sync (segmentPath (activeID s)) (sdisk s) = (r, d')"
    and s': "s' = s\<lparr>sdisk := d'\<rparr>"
    using assms(1,3) by (auto simp: on_active_live on_disk_def split: prod.splits)
  note own = os_Sync_own [OF w f(1) [unfolded active_dfile_def]]
  note oth = os_Sync_other [OF w]
  obtain g where g: "dlookup d' (segmentPath (activeID s)) = Some g" "fdata g = fdata f"
    and gs: "r = Inr u \<Longrightarrow> fsynced g = length (fdata f)"
      "fsynced g = fsynced f \<or> fsynced g = length (fdata f)" for u
    using own by auto
  show "live s'" and "activeID s' = activeID s"
    and "activeOffset s' = activeOffset s" and "recordCount s' = recordCount s"
    and "maxSegmentSize s' = maxSegmentSize s"
    using assms(3) by (simp_all add: s' live_def)
  show "sm_inv s'"
    using assms(2,3) f g oth by (auto simp: sm_inv_def s' active_dfile_def live_def)
  show "keeps s s'"
    using f g gs(2) oth by (auto simp: keeps_def s' active_dfile_def)
  show "map_option fdata (active_dfile s') = map_option fdata (active_dfile s)"
    using f g by (simp add: s' active_dfile_def)
  show "r = Inr u \<Longrightarrow> \<exists>f. active_dfile s' = Some f \<and> fsynced f = length (fdata f)"
    using g gs(1) by (auto simp: s' active_dfile_def)
  show "\<forall>f g. active_dfile s = Some f \<longrightarrow> active_dfile s' = Some g \<longrightarrow>
           fsynced g = fsynced f \<or> fsynced g = length (fdata f)"
    using f g gs(2) by (auto simp: s' active_dfile_def)
qed


text \<open>Opening a segment no file exists for: the manager is live at offset 0, or stopped.\<close>

lemma openSegment_fresh:
  assumes "openSegment i s = (r, s')" and "dlookup (sdisk s) (segmentPath i) = None"
    and "activeFile s \<noteq> None"
  shows "\<forall>m. m \<noteq> segmentPath i \<longrightarrow> dlookup (sdisk s') m = dlookup (sdisk s) m"
    and "activeID s' = i" and "activeOffset s' = 0" and "maxSegmentSize s' = maxSegmentSize s"
    and "r = Inr u \<Longrightarrow> live s' \<and> active_dfile s' = Some empty_file \<and> recordCount s' = 0"
    and "r = Inl e \<Longrightarrow> stopped s'"
proof -
  let ?n = "segmentPath i"
  let ?s = "close_active (s\<lparr>activeID := i, activeOffset := 0, recordCount := 0\<rparr>)"
  obtain n b where act: "activeFile s = Some (n, b)" using assms(3) by auto
  have st: "stopped ?s" by (simp add: stopped_def close_active_def act)
  obtain r1 d1 where oc: "os_OpenCreate ?n (sdisk s) = (r1, d1)"
    by (cases "os_OpenCreate ?n (sdisk s)")
  note oth = os_OpenCreate_other [OF oc]
  obtain r2 d2 where sta: "os_Stat ?n d1 = (r2, d2)" by (cases "os_Stat ?n d1")
  have fr2: "dfiles d2 = dfiles d1" using sta by (rule os_Stat_frame)
  have eqn: "openSegment i s = (case r1 of
      Inl e \<Rightarrow> (Inl e, ?s\<lparr>sdisk := d1\<rparr>)
    | Inr _ \<Rightarrow> (case r2 of Inl e \<Rightarrow> (Inl e, ?s\<lparr>sdisk := d2\<rparr>)
       | Inr _ \<Rightarrow> (Inr (), ?s\<lparr>sdisk := d2, activeFile := Some (?n, True)\<rparr>)))"
  proof (cases r1)
    case (Inl e)
    then show ?thesis
      by (simp add: openSegment_def openSegmentFile_def adoptSegment_def act on_disk_def oc close_active_def Let_def)
  next
    case (Inr u1)
    then have "dlookup d1 ?n = Some empty_file"
      using os_OpenCreate_own [of ?n "sdisk s" u1 d1] oc assms(2) by simp
    then have "r2 = Inr x \<Longrightarrow> fst x = 0" for x
      using os_Stat_Inr [of ?n d1 x d2] sta by (simp add: empty_file_def)
    then show ?thesis using Inr
      by (auto simp: openSegment_def openSegmentFile_def adoptSegment_def act on_disk_def oc sta close_active_def Let_def
          split: sum.splits prod.splits)
  qed
  show "\<forall>m. m \<noteq> ?n \<longrightarrow> dlookup (sdisk s') m = dlookup (sdisk s) m"
    using assms(1) eqn oth fr2 by (auto split: sum.splits)
  show "activeID s' = i" "activeOffset s' = 0" "maxSegmentSize s' = maxSegmentSize s"
    using assms(1) eqn by (auto simp: close_active_def split: sum.splits)
  show "r = Inr u \<Longrightarrow> live s' \<and> active_dfile s' = Some empty_file \<and> recordCount s' = 0"
    using assms eqn os_OpenCreate_own [of ?n "sdisk s" _ d1] oc fr2
    by (auto simp: live_def active_dfile_def close_active_def split: sum.splits)
  show "r = Inl e \<Longrightarrow> stopped s'"
    using assms(1) eqn st by (auto simp: stopped_def split: sum.splits)
qed

lemma finalizeLocked_step:
  assumes "finalizeLocked s = (r, s')" and "sm_inv s" and "live s"
  shows "sm_inv s'" and "keeps s s'" and "live s'" and "activeID s' = activeID s"
    and "activeOffset s' = activeOffset s" and "maxSegmentSize s' = maxSegmentSize s"
    and "r = Inr u \<Longrightarrow> 0 < activeOffset s \<Longrightarrow>
           \<exists>f. active_dfile s' = Some f \<and> fsynced f = length (fdata f) \<and> activeOffset s \<le> length (fdata f)"
    and "recordCount s' = recordCount s"
proof -
  let ?ft = "EncodeFooter (recordCount s) (of_nat (activeOffset s))"
  consider (none) "activeOffset s = 0" "r = Inr ()" "s' = s"
    | (fail) e where "on_active (\<lambda>n. os_WriteAt n ?ft (activeOffset s)) s = (Inl e, s')" "r = Inl e"
    | (sync) k s1 where "on_active (\<lambda>n. os_WriteAt n ?ft (activeOffset s)) s = (Inr k, s1)"
        "on_active os_Sync s1 = (r, s')"
    using assms(1,3) by (cases r; cases "activeOffset s = 0")
      (auto simp: finalizeLocked_def Let_def live_def tryE_iffs)
  then have all: "sm_inv s' \<and> keeps s s' \<and> live s' \<and> activeID s' = activeID s
     \<and> activeOffset s' = activeOffset s \<and> maxSegmentSize s' = maxSegmentSize s
     \<and> recordCount s' = recordCount s \<and>
     (r = Inr u \<longrightarrow> 0 < activeOffset s \<longrightarrow>
        (\<exists>f. active_dfile s' = Some f \<and> fsynced f = length (fdata f)))"
  proof cases
    case none
    with assms show ?thesis by simp
  next
    case fail
    with on_active_WriteAt [OF fail(1) assms(2,3)] show ?thesis by simp
  next
    case sync
    note w = on_active_WriteAt [OF sync(1) assms(2,3)]
    note y = on_active_Sync [OF sync(2) w(1,3)]
    show ?thesis using w(4-7) y(1,3-7,9) keeps_trans [OF w(2) y(2)] by auto
  qed
  then show "sm_inv s'" and "keeps s s'" and "live s'" and "activeID s' = activeID s"
    and "activeOffset s' = activeOffset s" and "maxSegmentSize s' = maxSegmentSize s"
    and "recordCount s' = recordCount s" by blast+
  show "r = Inr u \<Longrightarrow> 0 < activeOffset s \<Longrightarrow>
           \<exists>f. active_dfile s' = Some f \<and> fsynced f = length (fdata f) \<and> activeOffset s \<le> length (fdata f)"
    using all live_not_stopped by (auto simp: sm_inv_def)
qed


lemma rotateIfFull_step:
  assumes "rotateIfFull rec s = (r, s2)" and "sm_inv s" and "live s"
  obtains (room) "r = Inr ()" "s2 = s"
      "activeOffset s = 0 \<or> int (activeOffset s + length rec + 32) \<le> maxSegmentSize s"
  | (rotated) f where "r = Inr ()" "sm_inv s2" "live s2" "activeID s2 = activeID s + 1" "activeOffset s2 = 0"
      "recordCount s2 = 0" "active_dfile s2 = Some empty_file" "maxSegmentSize s2 = maxSegmentSize s"
      "keeps s s2"
      "dlookup (sdisk s2) (segmentPath (activeID s)) = Some f" "fsynced f = length (fdata f)"
      "activeOffset s \<le> length (fdata f)" "0 < activeOffset s"
  | (unfinished) e where "r = Inl e" "sm_inv s2" "live s2" "keeps s s2" "activeID s2 = activeID s"
      "activeOffset s2 = activeOffset s" "recordCount s2 = recordCount s"
  | (broken) e f where "r = Inl e" "sm_inv s2" "stopped s2" "keeps s s2"  "activeID s2 = activeID s + 1"
      "dlookup (sdisk s2) (segmentPath (activeID s)) = Some f" "fsynced f = length (fdata f)"
      "activeOffset s \<le> length (fdata f)"
proof (cases "activeOffset s > 0 \<and> int (activeOffset s + length rec + 32) > maxSegmentSize s")
  case False
  with assms(1) show thesis by (intro room) (auto simp: rotateIfFull_def)
next
  case True
  obtain rf s1 where fin: "finalizeLocked s = (rf, s1)" by (cases "finalizeLocked s")
  note f1 = finalizeLocked_step [OF fin assms(2,3)]
  show thesis
  proof (cases rf)
    case (Inl e)
    with True assms(1) fin f1 show thesis by (intro unfinished [of e]) (auto simp: rotateIfFull_def)
  next
    case (Inr u)
    have ops: "openSegment (activeID s + 1) s1 = (r, s2)"
      using assms(1) True fin Inr f1(4) by (simp add: rotateIfFull_def)
    have fresh: "dlookup (sdisk s1) (segmentPath (activeID s + 1)) = None"
      and act: "activeFile s1 \<noteq> None"
      using f1(1,3,4) by (auto simp: sm_inv_def live_def)
    note op = openSegment_fresh [OF ops fresh act]
    obtain f where f: "active_dfile s1 = Some f" "fsynced f = length (fdata f)"
        "activeOffset s \<le> length (fdata f)"
      using f1(7) [OF Inr] True by auto
    have old: "dlookup (sdisk s2) (segmentPath (activeID s)) = Some f"
      using op(1) f(1) f1(4) by (simp add: active_dfile_def)
    have k12: "keeps s1 s2"
      using op(1,2) f1(4) by (auto simp: keeps_def active_dfile_def)
    have inv: "sm_inv s2" if "stopped s2 \<or> (live s2 \<and> active_dfile s2 = Some empty_file)"
      using that f1(1,4) op(1-3) by (auto simp: sm_inv_def)
    show thesis
    proof (cases r)
      case (Inl e)
      then show thesis
        using op(2,6) inv f old keeps_trans [OF f1(2) k12] by (intro broken [of e f]) auto
    next
      case (Inr v)
      then show thesis
        using op(2-5) inv f old f1(6) True keeps_trans [OF f1(2) k12] by (intro rotated [of f]) auto
    qed
  qed
qed

text \<open>
  Every path through \<open>appendLocked\<close>, failures of the environment included, keeps the
  invariant and what was written before.
\<close>

lemma write_then_sync:
  assumes "sm_inv s" and "live s"
    and "tryE (wrapE w (on_active (\<lambda>n. os_WriteAt n rec (activeOffset s)) s))
            (\<lambda>n s3. if n \<noteq> length rec then (Inl (Err ''short write''), s3)
              else tryE (if fsync then wrapE y (on_active os_Sync s3) else (Inr (), s3))
                (\<lambda>_ s4. (Inr loc, s4\<lparr>activeOffset := activeOffset s4 + length rec,
                                      recordCount := recordCount s4 + 1\<rparr>))) = (r, s')"
  shows "sm_inv s'" and "keeps s s'" and "live s'" and "activeID s' = activeID s"
    and "maxSegmentSize s' = maxSegmentSize s"
    and "r = Inl e \<Longrightarrow> activeOffset s' = activeOffset s \<and> recordCount s' = recordCount s"
    and "r = Inr l \<Longrightarrow> l = loc \<and> activeOffset s' = activeOffset s + length rec \<and> recordCount s' = recordCount s + 1
      \<and> (\<exists>f g. active_dfile s = Some f \<and> active_dfile s' = Some g \<and>
           take (activeOffset s') (fdata g) = take (activeOffset s) (fdata f) @ rec \<and>
           activeOffset s' \<le> length (fdata g) \<and> (fsync \<longrightarrow> fsynced g = length (fdata g)))"
proof -
  obtain r1 s1 where w: "on_active (\<lambda>n. os_WriteAt n rec (activeOffset s)) s = (r1, s1)"
    by (cases "on_active (\<lambda>n. os_WriteAt n rec (activeOffset s)) s")
  note w1 = on_active_WriteAt [OF w assms(1,2)]
  obtain r2 s2 where y: "on_active os_Sync s1 = (r2, s2)" by (cases "on_active os_Sync s1")
  note y2 = on_active_Sync [OF y w1(1,3)]
  let ?t = "if fsync then s2 else s1"
  have k: "keeps s ?t" "sm_inv ?t" "live ?t" "activeID ?t = activeID s" "activeOffset ?t = activeOffset s"
     "recordCount ?t = recordCount s" "maxSegmentSize ?t = maxSegmentSize s"
    using w1(1-7) y2(1-7) keeps_trans [OF w1(2) y2(2)] by auto
  consider (wfail) e where "r1 = Inl e" "r = Inl (Wrap w e [])" "s' = s1"
    | (sfail) e k where "r1 = Inr k" "fsync" "r2 = Inl e" "r = Inl (Wrap y e [])" "s' = s2"
    | (ok) "r1 = Inr (length rec)" "fsync \<longrightarrow> r2 = Inr ()" "r = Inr loc"
        "s' = ?t\<lparr>activeOffset := activeOffset s + length rec, recordCount := recordCount s + 1\<rparr>"
    using assms(3) w w1(8) y k(5,6)
    by (cases r1; cases r2; cases fsync) (auto simp: tryE_iffs split: if_splits)
  then have all: "sm_inv s' \<and> keeps s s' \<and> live s' \<and> activeID s' = activeID s
    \<and> maxSegmentSize s' = maxSegmentSize s
    \<and> (\<forall>e. r = Inl e \<longrightarrow> activeOffset s' = activeOffset s \<and> recordCount s' = recordCount s)
    \<and> (\<forall>l. r = Inr l \<longrightarrow> l = loc \<and> activeOffset s' = activeOffset s + length rec
      \<and> recordCount s' = recordCount s + 1
      \<and> (\<exists>f g. active_dfile s = Some f \<and> active_dfile s' = Some g \<and>
           take (activeOffset s') (fdata g) = take (activeOffset s) (fdata f) @ rec \<and>
           activeOffset s' \<le> length (fdata g) \<and> (fsync \<longrightarrow> fsynced g = length (fdata g))))"
  proof cases
    case wfail
    with w1 show ?thesis by simp
  next
    case sfail
    with k show ?thesis by simp
  next
    case ok
    obtain f g where fg: "active_dfile s = Some f" "active_dfile s1 = Some g"
        "take (activeOffset s + length rec) (fdata g) = take (activeOffset s) (fdata f) @ rec"
      using w1(8) [OF ok(1)] by auto
    have "activeOffset s \<le> length (fdata f)"
      using assms(1,2) fg(1) live_not_stopped by (auto simp: sm_inv_def)
    then have len: "activeOffset s + length rec \<le> length (fdata g)"
      using arg_cong [OF fg(3), of length] by simp
    obtain h where h: "active_dfile ?t = Some h" "fdata h = fdata g" "fsync \<longrightarrow> fsynced h = length (fdata g)"
      using fg(2) y2(8,9) ok(2) by (cases fsync) auto
    have act: "active_dfile s' = Some h" using ok(4) h(1) by (simp add: active_dfile_def)
    have "keeps ?t s'" by (auto simp: ok(4) keeps_def active_dfile_def k(5))
    then have "keeps s s'" using k(1) keeps_trans by blast
    moreover have "live s'" using k(3) by (simp add: ok(4) live_def)
    moreover have "sm_inv s'"
      using k(2) act h(2) len \<open>live s'\<close> by (auto simp: sm_inv_def ok(4))
    ultimately show ?thesis
      using k(4,7) act fg h len by (auto simp: ok(3,4))
  qed
  from all show "sm_inv s'" and "keeps s s'" and "live s'" and "activeID s' = activeID s"
    and "maxSegmentSize s' = maxSegmentSize s" by blast+
  from all show "r = Inl e \<Longrightarrow> activeOffset s' = activeOffset s \<and> recordCount s' = recordCount s" by blast
  from all show "r = Inr l \<Longrightarrow> l = loc \<and> activeOffset s' = activeOffset s + length rec \<and> recordCount s' = recordCount s + 1
      \<and> (\<exists>f g. active_dfile s = Some f \<and> active_dfile s' = Some g \<and>
           take (activeOffset s') (fdata g) = take (activeOffset s) (fdata f) @ rec \<and>
           activeOffset s' \<le> length (fdata g) \<and> (fsync \<longrightarrow> fsynced g = length (fdata g)))" by blast
qed

text \<open>A segment that was left by rotating has been synced.\<close>

definition left_synced :: "SegmentManager \<Rightarrow> SegmentManager \<Rightarrow> bool" where
  "left_synced s s' \<longleftrightarrow> activeID s' = activeID s
     \<or> (\<exists>f. dlookup (sdisk s') (segmentPath (activeID s)) = Some f \<and> activeOffset s \<le> fsynced f)"

lemma left_synced_keeps:
  assumes "left_synced s s2" and "keeps s2 s'" and "activeID s' = activeID s2" and "activeID s \<le> activeID s2"
  shows "left_synced s s'"
proof (cases "activeID s2 = activeID s")
  case False
  with assms have "dlookup (sdisk s') (segmentPath (activeID s)) = dlookup (sdisk s2) (segmentPath (activeID s))"
    by (simp add: keeps_def)
  with assms False show ?thesis by (simp add: left_synced_def)
qed (simp add: left_synced_def assms)

text \<open>A failed append leaves the append position where it was, or at the start of a new segment.\<close>

definition position_kept :: "SegmentManager \<Rightarrow> SegmentManager \<Rightarrow> bool" where
  "position_kept s s' \<longleftrightarrow> stopped s'
     \<or> (activeID s' = activeID s \<and> activeOffset s' = activeOffset s \<and> recordCount s' = recordCount s)
     \<or> (activeOffset s' = 0 \<and> recordCount s' = 0)"

lemma appendLocked_cases:
  assumes "appendLocked rec fsync s = (r, s')" and "sm_inv s"
  obtains (err) e where "r = Inl e" "sm_inv s'" "keeps s s'" "left_synced s s'" "position_kept s s'"
  | (ok) s2 f g where "r = Inr \<lparr>SegmentID = activeID s2, Offset = int (activeOffset s2), Size = int (length rec)\<rparr>"
      "rotateIfFull rec s = (Inr (), s2)" "live s" "live s2" "sm_inv s2" "keeps s s2" "keeps s2 s'"
      "sm_inv s'" "live s'" "activeID s' = activeID s2" "maxSegmentSize s' = maxSegmentSize s2"
      "activeOffset s' = activeOffset s2 + length rec" "recordCount s' = recordCount s2 + 1"
      "active_dfile s2 = Some f" "active_dfile s' = Some g" "activeOffset s' \<le> length (fdata g)"
      "take (activeOffset s') (fdata g) = take (activeOffset s2) (fdata f) @ rec"
      "fsync \<longrightarrow> fsynced g = length (fdata g)" "left_synced s s'"
proof (cases "stopped s")
  case True
  then obtain e where "appendLocked rec fsync s = (Inl e, s)" using stopped_append by blast
  with assms show thesis by (intro err [of e]) (auto simp: left_synced_def position_kept_def)
next
  case False
  with assms(2) have lv: "live s" and act: "activeFile s \<noteq> None" by (auto simp: sm_inv_def live_def)
  obtain r1 s2 where rot: "rotateIfFull rec s = (r1, s2)" by (cases "rotateIfFull rec s")
  from rot assms(2) lv have s2: "sm_inv s2" "keeps s s2" "left_synced s s2" "position_kept s s2"
    by (cases rule: rotateIfFull_step; simp add: assms(2) left_synced_def position_kept_def)+
  show thesis
  proof (cases r1)
    case (Inl e)
    with assms(1) rot act have "r = Inl e" "s' = s2" by (auto simp: appendLocked_def)
    with s2 show thesis by (intro err [of e]) auto
  next
    case (Inr u)
    from rot assms(2) lv have lv2: "live s2"
      using Inr by (cases rule: rotateIfFull_step; simp add: lv)+
    note tail = assms(1) [unfolded appendLocked_def rot Inr tryE.simps Let_def, simplified act, simplified]
    note w = write_then_sync [OF s2(1) lv2 tail]
    have le: "activeID s \<le> activeID s2" using s2(2) by (simp add: keeps_def)
    note ls = left_synced_keeps [OF s2(3) w(2,4) le]
    show thesis
    proof (cases r)
      case Inl': (Inl e)
      then have "position_kept s s'"
        using w(4,6) s2(4) lv2 live_not_stopped by (auto simp: position_kept_def)
      then show thesis using Inl' w(1,2) s2(2) ls keeps_trans by (intro err) auto
    next
      case Inr': (Inr l)
      from w(7) [OF Inr'] obtain f g where "active_dfile s2 = Some f" "active_dfile s' = Some g"
        "take (activeOffset s') (fdata g) = take (activeOffset s2) (fdata f) @ rec"
        "activeOffset s' \<le> length (fdata g)" "fsync \<longrightarrow> fsynced g = length (fdata g)" by blast
      then show thesis
        using w(1-5) w(7) [OF Inr'] s2 lv lv2 rot Inr Inr' ls by (intro ok [of s2 f g]) auto
    qed
  qed
qed

subsection \<open>What an acknowledged append promises\<close>

text \<open>
  \<open>stored s loc rec f\<close>: the bytes \<open>rec\<close> lie at \<open>loc\<close> in the segment file \<open>f\<close>, below the
  append offset when the segment is the active one. \<open>holds\<close> forgets the file; \<open>durable\<close>
  says that these bytes have been synced.
\<close>

abbreviation loc_end :: "Location \<Rightarrow> bytes \<Rightarrow> nat" where
  "loc_end loc rec \<equiv> nat (Offset loc) + length rec"

definition stored :: "SegmentManager \<Rightarrow> Location \<Rightarrow> bytes \<Rightarrow> dfile \<Rightarrow> bool" where
  "stored s loc rec f \<longleftrightarrow> 0 \<le> Offset loc \<and> Size loc = int (length rec) \<and> SegmentID loc \<le> activeID s
     \<and> (SegmentID loc = activeID s \<longrightarrow> loc_end loc rec \<le> activeOffset s)
     \<and> dlookup (sdisk s) (segmentPath (SegmentID loc)) = Some f \<and> loc_end loc rec \<le> length (fdata f)
     \<and> subslice (nat (Offset loc)) (loc_end loc rec) (fdata f) = rec"

definition holds :: "SegmentManager \<Rightarrow> Location \<Rightarrow> bytes \<Rightarrow> bool" where
  "holds s loc rec \<longleftrightarrow> (\<exists>f. stored s loc rec f)"

definition durable :: "SegmentManager \<Rightarrow> Location \<Rightarrow> bytes \<Rightarrow> bool" where
  "durable s loc rec \<longleftrightarrow> (\<exists>f. stored s loc rec f \<and> loc_end loc rec \<le> fsynced f)"

lemma keeps_stored:
  assumes "keeps s s'" and "stored s loc rec f"
  obtains g where "stored s' loc rec g" "loc_end loc rec \<le> fsynced f \<Longrightarrow> loc_end loc rec \<le> fsynced g"
proof (cases "SegmentID loc < activeID s")
  case True
  with assms show thesis by (intro that [of f]) (auto simp: keeps_def stored_def)
next
  case False
  let ?e = "loc_end loc rec"
  have eq: "SegmentID loc = activeID s" and e: "?e \<le> activeOffset s"
    using assms(2) False by (auto simp: stored_def)
  then obtain g where g: "dlookup (sdisk s') (segmentPath (activeID s)) = Some g"
      "take (activeOffset s) (fdata g) = take (activeOffset s) (fdata f)"
      "min (fsynced f) (activeOffset s) \<le> fsynced g"
    using assms by (auto simp: keeps_def stored_def active_dfile_def)
  have t: "take ?e (fdata g) = take ?e (fdata f)"
    using arg_cong [OF g(2), of "take ?e"] e by (simp add: min_absorb1)
  have len: "?e \<le> length (fdata g)"
    using arg_cong [OF t, of length] assms(2) by (simp add: stored_def)
  have "subslice (nat (Offset loc)) ?e (fdata g) = rec"
    using arg_cong [OF t, of "subslice (nat (Offset loc)) ?e"] assms(2) by (simp add: subslice_take stored_def)
  with len g e eq assms show thesis
    by (intro that [of g]) (auto simp: stored_def keeps_def)
qed

lemma keeps_holds: "keeps s s' \<Longrightarrow> holds s loc rec \<Longrightarrow> holds s' loc rec"
  by (auto simp: holds_def elim: keeps_stored)

lemma keeps_durable: "keeps s s' \<Longrightarrow> durable s loc rec \<Longrightarrow> durable s' loc rec"
  by (auto simp: durable_def elim!: keeps_stored)

lemma durable_holds: "durable s loc rec \<Longrightarrow> holds s loc rec"
  by (auto simp: durable_def holds_def)

lemma appendLocked_stored:
  assumes "appendLocked rec fsync s = (Inr loc, s')" and "sm_inv s"
  obtains g where "stored s' loc rec g" "fsync \<Longrightarrow> fsynced g = length (fdata g)" "SegmentID loc = activeID s'"
  using assms
proof (cases rule: appendLocked_cases)
  case (ok s2 f g)
  have "activeOffset s2 \<le> length (fdata f)"
    using ok(4,5,14) live_not_stopped by (auto simp: sm_inv_def)
  moreover have "subslice (activeOffset s2) (activeOffset s') (fdata g)
      = subslice (activeOffset s2) (activeOffset s') (take (activeOffset s2) (fdata f) @ rec)"
    using ok(17) subslice_take [of "activeOffset s'" "activeOffset s'" "activeOffset s2" "fdata g"] by simp
  ultimately have "subslice (activeOffset s2) (activeOffset s2 + length rec) (fdata g) = rec"
    by (simp add: ok(12) subslice_def)
  with ok show thesis by (intro that [of g]) (auto simp: stored_def active_dfile_def)
qed auto

lemma appendLocked_keeps:
  assumes "appendLocked rec fsync s = (r, s')" and "sm_inv s"
  shows "keeps s s'" and "sm_inv s'" and "left_synced s s'"
  using assms keeps_trans by (cases rule: appendLocked_cases; blast)+

text \<open>The contract of a record log, and what a client may conclude from it.\<close>

locale record_log =
  fixes append :: "bytes \<Rightarrow> 's \<Rightarrow> ('s, 'l) result"
    and inv :: "'s \<Rightarrow> bool"
    and has :: "'s \<Rightarrow> 'l \<Rightarrow> bytes \<Rightarrow> bool"
  assumes append_inv: "append rec s = (r, s') \<Longrightarrow> inv s \<Longrightarrow> inv s'"
    and append_keeps: "append rec s = (r, s') \<Longrightarrow> inv s \<Longrightarrow> has s l x \<Longrightarrow> has s' l x"
    and append_has: "append rec s = (Inr l, s') \<Longrightarrow> inv s \<Longrightarrow> has s' l rec"
begin

text \<open>Append one record after the other; the acknowledged ones with their locations.\<close>

fun append_all :: "bytes list \<Rightarrow> 's \<Rightarrow> (bytes \<times> 'l) list \<times> 's" where
  "append_all [] s = ([], s)"
| "append_all (rec # recs) s =
     (case append rec s of
        (Inl _, s1) \<Rightarrow> append_all recs s1
      | (Inr l, s1) \<Rightarrow> (case append_all recs s1 of (acks, s2) \<Rightarrow> ((rec, l) # acks, s2)))"

lemma append_all_inv: "append_all recs s = (acks, s') \<Longrightarrow> inv s \<Longrightarrow> inv s'"
  by (induction recs arbitrary: s acks) (auto split: prod.splits sum.splits dest: append_inv)

lemma append_all_keeps:
  "append_all recs s = (acks, s') \<Longrightarrow> inv s \<Longrightarrow> has s l x \<Longrightarrow> has s' l x"
proof (induction recs arbitrary: s acks)
  case (Cons rec recs)
  obtain r s1 where a: "append rec s = (r, s1)" by (cases "append rec s")
  then have "inv s1" "has s1 l x" using append_inv append_keeps Cons.prems by auto
  with Cons a show ?case by (auto split: prod.splits sum.splits)
qed simp

lemma append_all_has:
  "append_all recs s = (acks, s') \<Longrightarrow> inv s \<Longrightarrow> (x, l) \<in> set acks \<Longrightarrow> has s' l x"
proof (induction recs arbitrary: s acks)
  case (Cons rec recs)
  obtain r s1 where a: "append rec s = (r, s1)" by (cases "append rec s")
  obtain acks1 s2 where b: "append_all recs s1 = (acks1, s2)" by (cases "append_all recs s1")
  have i: "inv s1" using append_inv a Cons.prems by blast
  have s2: "s2 = s'" and el: "(x, l) \<in> set acks1 \<or> (r = Inr l \<and> x = rec)"
    using Cons.prems a b by (auto split: sum.splits)
  from el show ?case
  proof
    assume "(x, l) \<in> set acks1"
    with Cons.IH b s2 i show ?thesis by blast
  next
    assume "r = Inr l \<and> x = rec"
    with append_has a Cons.prems(2) have "has s1 l x" by blast
    with append_all_keeps b s2 i show ?thesis by blast
  qed
qed simp

end

interpretation seg_log: record_log "\<lambda>rec. appendLocked rec False" sm_inv holds
  using appendLocked_keeps keeps_holds
  by unfold_locales (blast | auto simp: holds_def elim: appendLocked_stored)+

interpretation seg_durable: record_log appendDirect sm_inv durable
proof
  fix rec s l s'
  assume "appendDirect rec s = (Inr l, s')" and "sm_inv s"
  then obtain g where "stored s' l rec g" "fsynced g = length (fdata g)"
    unfolding appendDirect_def by (rule appendLocked_stored) simp
  then show "durable s' l rec" by (auto simp: durable_def stored_def)
qed (auto simp: appendDirect_def dest: appendLocked_keeps intro: keeps_durable)

subsection \<open>Batches\<close>

text \<open>Segments that a batch left behind by rotating were synced with their footer.\<close>

definition settled :: "SegmentManager \<Rightarrow> Location \<Rightarrow> bytes \<Rightarrow> bool" where
  "settled s loc rec \<longleftrightarrow> holds s loc rec \<and> (SegmentID loc < activeID s \<longrightarrow> durable s loc rec)"

lemma settled_append:
  assumes "appendLocked rec fsync s = (r, s')" and "sm_inv s" and "settled s loc x"
  shows "settled s' loc x"
proof -
  note k = appendLocked_keeps [OF assms(1,2)]
  have h: "holds s' loc x" using assms(3) k(1) keeps_holds by (auto simp: settled_def)
  moreover have "durable s' loc x" if lt: "SegmentID loc < activeID s'"
  proof (cases "SegmentID loc < activeID s")
    case True
    with assms(3) k(1) keeps_durable show ?thesis by (auto simp: settled_def)
  next
    case False
    obtain f where st: "stored s loc x f" using assms(3) by (auto simp: settled_def holds_def)
    with False have eq: "SegmentID loc = activeID s" and "loc_end loc x \<le> activeOffset s"
      by (auto simp: stored_def)
    moreover obtain g where "dlookup (sdisk s') (segmentPath (activeID s)) = Some g" "activeOffset s \<le> fsynced g"
      using k(3) lt eq by (auto simp: left_synced_def)
    ultimately show ?thesis using h by (auto simp: durable_def holds_def stored_def)
  qed
  ultimately show ?thesis by (simp add: settled_def)
qed

text \<open>The unsynced appends of a batch form a record log with respect to \<open>settled\<close>.\<close>

interpretation seg_batch: record_log "\<lambda>rec. appendLocked rec False" sm_inv settled
proof
  fix rec s l s'
  assume "appendLocked rec False s = (Inr l, s')" and "sm_inv s"
  then obtain g where "stored s' l rec g" "SegmentID l = activeID s'"
    by (rule appendLocked_stored) simp
  then show "settled s' l rec" by (auto simp: settled_def holds_def)
qed (auto dest: appendLocked_keeps settled_append)

text \<open>A batch is a run of that log: every entry is acknowledged with a location or carries an error.\<close>

lemma batchLoop_log:
  assumes "batchLoop batch wrote s = ((batch', w), s')" and "sm_inv s"
    and "\<forall>pw\<in>set batch. pw_err pw = None"
  shows "list_all2 (\<lambda>pw pw'. pw_record pw' = pw_record pw \<and>
             (pw_err pw' = None \<longrightarrow> settled s' (pw_loc pw') (pw_record pw))) batch batch'
    \<and> (w \<longleftrightarrow> wrote \<or> (\<exists>pw'\<in>set batch'. pw_err pw' = None))
    \<and> snd (seg_batch.append_all (map pw_record batch) s) = s'"
  using assms
proof (induction batch arbitrary: wrote s batch' w)
  case (Cons pw batch)
  obtain r s1 where a: "appendLocked (pw_record pw) False s = (r, s1)"
    by (cases "appendLocked (pw_record pw) False s")
  then have inv1: "sm_inv s1" using seg_batch.append_inv Cons.prems(2) by blast
  define wr where "wr = (case r of Inl _ \<Rightarrow> wrote | Inr _ \<Rightarrow> True)"
  define pw1 where "pw1 = (case r of Inl e \<Rightarrow> pw\<lparr>pw_err := Some e\<rparr> | Inr loc \<Rightarrow> pw\<lparr>pw_loc := loc\<rparr>)"
  obtain rest where b: "batchLoop batch wr s1 = ((rest, w), s')" and batch': "batch' = pw1 # rest"
    using Cons.prems(1) a by (auto simp: wr_def pw1_def split: sum.splits prod.splits)
  have ih: "list_all2 (\<lambda>pw pw'. pw_record pw' = pw_record pw \<and>
             (pw_err pw' = None \<longrightarrow> settled s' (pw_loc pw') (pw_record pw))) batch rest"
    "w \<longleftrightarrow> wr \<or> (\<exists>pw'\<in>set rest. pw_err pw' = None)"
    "snd (seg_batch.append_all (map pw_record batch) s1) = s'"
    using Cons.IH [OF b inv1] Cons.prems(3) by auto
  have s1: "settled s1 loc (pw_record pw)" if "r = Inr loc" for loc
    using seg_batch.append_has a that Cons.prems(2) by blast
  obtain acks where all: "seg_batch.append_all (map pw_record batch) s1 = (acks, s')"
    using ih(3) by (cases "seg_batch.append_all (map pw_record batch) s1") auto
  have "pw_record pw1 = pw_record pw \<and>
      (pw_err pw1 = None \<longrightarrow> settled s' (pw_loc pw1) (pw_record pw))"
    using s1 seg_batch.append_all_keeps [OF all inv1]
    by (auto simp: pw1_def split: sum.splits)
  moreover have "w \<longleftrightarrow> wrote \<or> (\<exists>pw'\<in>set batch'. pw_err pw' = None)"
    using ih(2) Cons.prems(3) by (auto simp: batch' wr_def pw1_def split: sum.splits)
  moreover have "snd (seg_batch.append_all (map pw_record (pw # batch)) s) = s'"
    using all a by (auto split: sum.splits)
  ultimately show ?case using ih(1) by (simp add: batch')
qed simp


lemma settled_sync:
  assumes "on_active os_Sync s = (Inr u, s')" and "sm_inv s" and "live s" and "settled s loc x"
  shows "durable s' loc x"
proof (cases "SegmentID loc < activeID s")
  case True
  with assms(4) on_active_Sync(2) [OF assms(1-3)] keeps_durable show ?thesis by (auto simp: settled_def)
next
  case False
  note y = on_active_Sync [OF assms(1-3)]
  obtain f where "stored s' loc x f"
    using assms(4) keeps_holds [OF y(2)] by (auto simp: settled_def holds_def)
  moreover from this False assms(4) y(4) have "SegmentID loc = activeID s'"
    by (auto simp: stored_def settled_def)
  ultimately show ?thesis
    using y(9) by (auto simp: durable_def stored_def active_dfile_def)
qed

lemma batchLoop_keeps:
  assumes "batchLoop batch wrote s = ((batch', w), s')" and "sm_inv s"
  shows "sm_inv s' \<and> keeps s s'"
  using assms
proof (induction batch arbitrary: wrote s batch' w)
  case (Cons pw batch)
  obtain r s1 where a: "appendLocked (pw_record pw) False s = (r, s1)"
    by (cases "appendLocked (pw_record pw) False s")
  moreover from this Cons.prems(1) obtain wr b w where "batchLoop batch wr s1 = ((b, w), s')"
    by (auto split: sum.splits prod.splits)
  ultimately show ?case
    using Cons.IH appendLocked_keeps [OF a Cons.prems(2)] keeps_trans by blast
qed simp

lemma batchAppend_durable_all:
  assumes "batchAppend batch s = (batch', s')" and "sm_inv s" and "\<forall>pw\<in>set batch. pw_err pw = None"
  shows "list_all2 (\<lambda>pw pw'. pw_record pw' = pw_record pw \<and>
           (pw_err pw' = None \<longrightarrow> durable s' (pw_loc pw') (pw_record pw))) batch batch'"
    and "sm_inv s'" and "keeps s s'"
proof -
  obtain b1 w s1 where bl: "batchLoop batch False s = ((b1, w), s1)"
    by (cases "batchLoop batch False s") auto
  note log = batchLoop_log [OF bl assms(2,3)]
  note k1 = batchLoop_keeps [OF bl assms(2)]
  let ?R = "\<lambda>pw pw'. pw_record pw' = pw_record pw \<and>
           (pw_err pw' = None \<longrightarrow> durable s' (pw_loc pw') (pw_record pw))"
  have la: "list_all2 (\<lambda>pw pw'. pw_record pw' = pw_record pw \<and>
             (pw_err pw' = None \<longrightarrow> settled s1 (pw_loc pw') (pw_record pw))) batch b1"
    using log by blast
  obtain r s2 where y: "on_active os_Sync s1 = (r, s2)" by (cases "on_active os_Sync s1")
  have "list_all2 ?R batch batch' \<and> sm_inv s' \<and> keeps s s'"
  proof (cases w)
    case False
    with assms(1) bl have "batch' = b1" "s' = s1" by (simp_all add: batchAppend_def)
    moreover have "\<forall>pw'\<in>set b1. pw_err pw' \<noteq> None" using log False by auto
    ultimately show ?thesis
      using la k1 by (auto simp: list_all2_conv_all_nth Ball_def in_set_conv_nth)
  next
    case True
    have act: "activeFile s1 \<noteq> None" using k1 by (auto simp: sm_inv_def live_def stopped_def)
    have keep: "sm_inv s2 \<and> keeps s1 s2"
      using on_active_Sync(1,2) [OF y] on_active_stopped [of s1 os_Sync] y k1 by (auto simp: sm_inv_def)
    show ?thesis
    proof (cases r)
      case (Inl e)
      with assms(1) bl True act y have eq: "s' = s2"
        "batch' = map (\<lambda>pw. if pw_err pw = None then pw\<lparr>pw_err := Some (Wrap ''batch fsync: '' e [])\<rparr>
                          else pw) b1"
        by (auto simp: batchAppend_def)
      then show ?thesis
        using la keep k1 keeps_trans by (auto simp: list_all2_conv_all_nth)
    next
      case (Inr u)
      then have lv: "live s1"
        using on_active_stopped [of s1 os_Sync] y k1 by (auto simp: sm_inv_def)
      have eq: "s' = s2" "batch' = b1" using assms(1) bl True act y Inr by (auto simp: batchAppend_def)
      have "list_all2 ?R batch b1"
        using la settled_sync [OF y [unfolded Inr] _ lv] k1
        by (auto simp: eq elim!: list_all2_mono)
      with eq keep k1 keeps_trans show ?thesis by blast
    qed
  qed
  then show "list_all2 ?R batch batch'" and "sm_inv s'" and "keeps s s'" by auto
qed

end
