(* ===== verification/Segment_Read.thy ===== *)
theory Segment_Read
  imports Segment_Append
begin

text \<open>
  Reading records back, what a restart recovers, and the properties of the segment manager.
\<close>

subsection \<open>Reading back\<close>

text \<open>The outcomes of \<open>openReadHandle\<close>: a failed stat or open, or the path.\<close>

lemma openReadHandle_cases:
  assumes "openReadHandle i s = (r, s')"
  obtains d rf rm where "s' = s\<lparr>sdisk := d, readFiles := rf, readMeta := rm\<rparr>"
    "dfiles d = dfiles (sdisk s)" "\<forall>f. r = Inr f \<longrightarrow> f = segmentPath i"
    "\<forall>g. dio (sdisk s) = [] \<longrightarrow> dlookup (sdisk s) (segmentPath i) = Some g \<longrightarrow>
       r = Inr (segmentPath i) \<and> d = sdisk s"
proof -
  let ?n = "segmentPath i"
  obtain r1 d1 where st: "os_Stat ?n (sdisk s) = (r1, d1)" by (cases "os_Stat ?n (sdisk s)")
  obtain r2 d2 where op: "os_Open ?n d1 = (r2, d2)" by (cases "os_Open ?n d1")
  have fr: "dfiles d1 = dfiles (sdisk s)" "dfiles d2 = dfiles (sdisk s)"
    using os_Stat_frame [OF st] os_Open_frame [OF op] by simp_all
  have ok: "r1 = Inr (length (fdata g), fmtime g) \<and> d1 = sdisk s \<and> r2 = Inr () \<and> d2 = sdisk s"
    if "dio (sdisk s) = []" "dlookup (sdisk s) ?n = Some g" for g
    using st op that by (auto simp: os_Stat_def os_Open_def next_io_nofault)
  have st': "on_disk (os_Stat ?n) s = (r1, s\<lparr>sdisk := d1\<rparr>)"
    "on_disk (os_Open ?n) (s\<lparr>sdisk := d1, readFiles := rf, readMeta := rm\<rparr>)
       = (r2, s\<lparr>sdisk := d2, readFiles := rf, readMeta := rm\<rparr>)"
    "on_disk (os_Open ?n) (s\<lparr>sdisk := d1\<rparr>) = (r2, s\<lparr>sdisk := d2\<rparr>)" for rf rm
    using st op by (simp_all add: on_disk_def)
  show thesis
  proof (cases r1)
    case (Inl e)
    with assms st' fr ok show thesis
      by (intro that [where d = d1 and rf = "readFiles s'" and rm = "readMeta s'"]) (auto simp: openReadHandle_def Let_def)
  next
    case r1: (Inr info)
    show thesis
    proof (cases "readFiles s i \<noteq> None \<and> readMeta s i = Some info")
      case True
      with assms st' r1 fr ok show thesis
        by (intro that [where d = d1 and rf = "readFiles s'" and rm = "readMeta s'"]) (auto simp: openReadHandle_def Let_def)
    next
      case False
      with assms st' r1 fr ok show thesis
        by (intro that [where d = d2 and rf = "readFiles s'" and rm = "readMeta s'"]; cases r2)
          (auto simp: openReadHandle_def Let_def split: if_splits)
    qed
  qed
qed

lemma openReadHandle_frame:
  assumes "openReadHandle i s = (r, s')"
  shows "dfiles (sdisk s') = dfiles (sdisk s)" and "activeID s' = activeID s"
    and "activeOffset s' = activeOffset s" and "activeFile s' = activeFile s"
    and "verifyChecksum s' = verifyChecksum s" and "r = Inr f \<Longrightarrow> f = segmentPath i"
    and "dio (sdisk s) = [] \<Longrightarrow> dlookup (sdisk s) (segmentPath i) = Some g \<Longrightarrow>
           r = Inr (segmentPath i) \<and> sdisk s' = sdisk s"
proof -
  obtain d rf rm where c: "s' = s\<lparr>sdisk := d, readFiles := rf, readMeta := rm\<rparr>"
    "dfiles d = dfiles (sdisk s)" "\<forall>f. r = Inr f \<longrightarrow> f = segmentPath i"
    "\<forall>g. dio (sdisk s) = [] \<longrightarrow> dlookup (sdisk s) (segmentPath i) = Some g \<longrightarrow>
       r = Inr (segmentPath i) \<and> d = sdisk s"
    using assms by (rule openReadHandle_cases)
  show "dfiles (sdisk s') = dfiles (sdisk s)" and "activeID s' = activeID s"
    and "activeOffset s' = activeOffset s" and "activeFile s' = activeFile s"
    and "verifyChecksum s' = verifyChecksum s" using c(1,2) by simp_all
  show "r = Inr f \<Longrightarrow> f = segmentPath i" using c(3) by blast
  show "dio (sdisk s) = [] \<Longrightarrow> dlookup (sdisk s) (segmentPath i) = Some g \<Longrightarrow>
           r = Inr (segmentPath i) \<and> sdisk s' = sdisk s" using c(1,4) by simp
qed

lemma ReadRecord_Inr:
  assumes "ReadRecord i off s = (Inr (m, p), s')" and f: "dlookup (sdisk s) (segmentPath i) = Some f"
  shows "0 \<le> off \<and> (\<exists>sz. DecodeRecordHeader (subslice (nat off) (nat off + 8) (fdata f)) = Inr (m, sz)
      \<and> unat sz = length p \<and> p = subslice (nat off + 8) (nat off + 8 + unat sz) (fdata f)
      \<and> (verifyChecksum s \<longrightarrow> RecordChecksum p =
           Uint32 (subslice (nat off + 8 + unat sz) (nat off + 8 + unat sz + 4) (fdata f))))
      \<and> dfiles (sdisk s') = dfiles (sdisk s)"
proof -
  obtain r s1 where h0: "openReadHandle i s = (r, s1)" by (cases "openReadHandle i s")
  note hf = openReadHandle_frame [OF h0]
  have r: "r = Inr (segmentPath i)"
    using assms(1) hf(6) by (cases r) (auto simp: ReadRecord_def h0)
  note h = h0 [unfolded r] and s1 = hf(5,1)
  obtain hdr s2 sz s3 where
    r1: "on_disk (os_ReadAt (segmentPath i) 8 off) s1 = (Inr hdr, s2)"
    and dec: "DecodeRecordHeader hdr = Inr (m, sz)"
    and r2: "on_disk (os_ReadAt (segmentPath i) (unat sz) (off + 8)) s2 = (Inr p, s3)"
    and len: "length p = unat sz"
    and fin: "if verifyChecksum s3 then (\<exists>trailer.
        on_disk (os_ReadAt (segmentPath i) 4 (off + 8 + int (unat sz))) s3 = (Inr trailer, s')
        \<and> RecordChecksum p = Uint32 trailer) else s' = s3"
    using assms(1) h by (auto simp: ReadRecord_def tryE_iffs split: if_splits sum.splits prod.splits)
  obtain d2 d3 where d: "os_ReadAt (segmentPath i) 8 off (sdisk s1) = (Inr hdr, d2)" "s2 = s1\<lparr>sdisk := d2\<rparr>"
      "os_ReadAt (segmentPath i) (unat sz) (off + 8) d2 = (Inr p, d3)" "s3 = s1\<lparr>sdisk := d3\<rparr>"
    using r1 r2 by (auto simp: on_disk_def split: prod.splits)
  note fr = os_ReadAt_frame [OF d(1)] os_ReadAt_frame [OF d(3)]
  have b1: "hdr = subslice (nat off) (nat off + 8) (fdata f)" "0 \<le> off"
    using os_ReadAt_Inr [OF d(1)] f s1 by auto
  have b2: "p = subslice (nat off + 8) (nat off + 8 + unat sz) (fdata f)"
    using os_ReadAt_Inr [OF d(3)] f s1 fr b1(2) by (auto simp: nat_add_distrib)
  have b3: "RecordChecksum p = Uint32 (subslice (nat off + 8 + unat sz) (nat off + 8 + unat sz + 4) (fdata f))"
    if v: "verifyChecksum s"
  proof -
    obtain t d4 where t: "os_ReadAt (segmentPath i) 4 (off + 8 + int (unat sz)) d3 = (Inr t, d4)"
      "RecordChecksum p = Uint32 t"
      using fin v s1 d by (auto simp: on_disk_def split: prod.splits)
    with os_ReadAt_Inr [OF t(1)] f s1 fr b1(2) show ?thesis by (auto simp: nat_add_distrib)
  qed
  have "dfiles (sdisk s') = dfiles (sdisk s)"
    using fin fr s1 d(4) by (auto simp: on_disk_def split: if_splits prod.splits dest: os_ReadAt_frame)
  with b1 b2 b3 dec len show ?thesis by auto
qed

text \<open>What \<open>holds\<close> says about the fields of a record in its file.\<close>

lemma stored_record:
  assumes "stored s loc (EncodeRecord m p) f" and "length p < 2 ^ 32"
  defines "k \<equiv> nat (Offset loc)"
  shows "DecodeRecordHeader (subslice k (k + 8) (fdata f)) = Inr (m, of_nat (length p))"
    and "subslice (k + 8) (k + 8 + length p) (fdata f) = p"
    and "subslice (k + 8 + length p) (k + 8 + length p + 4) (fdata f) = PutUint32 (RecordChecksum p)"
    and "k + 12 + length p \<le> length (fdata f)"
proof -
  let ?e = "EncodeRecord m p"
  have e: "subslice k (k + (length p + 12)) (fdata f) = ?e" and "k + 12 + length p \<le> length (fdata f)"
    using assms by (auto simp: stored_def)
  then show "k + 12 + length p \<le> length (fdata f)" by simp
  have sub: "subslice (k + a) (k + b) (fdata f) = subslice a b ?e" if "b \<le> length p + 12" for a b
    using subslice_subslice [of k b "k + (length p + 12)" a "fdata f"] that by (simp add: e)
  show "DecodeRecordHeader (subslice k (k + 8) (fdata f)) = Inr (m, of_nat (length p))"
    using sub [of 8 0] DecodeRecordHeader_take8 [of ?e] DecodeRecordHeader_EncodeRecord [of m p "[]"] by simp
  show "subslice (k + 8) (k + 8 + length p) (fdata f) = p"
    using sub [of "8 + length p" 8] EncodeRecord_payload [of p m "[]"] by (simp add: add.assoc)
  show "subslice (k + 8 + length p) (k + 8 + length p + 4) (fdata f) = PutUint32 (RecordChecksum p)"
    using sub [of "8 + length p + 4" "8 + length p"] EncodeRecord_crc [of p m "[]"]
    by (simp add: add.assoc add.commute add.left_commute)
qed

lemma ReadRecord_stored:
  assumes "holds s loc (EncodeRecord m p)" and "length p < 2 ^ 32"
    and "ReadRecord (SegmentID loc) (Offset loc) s = (Inr x, s')"
  shows "x = (m, p)"
proof -
  obtain f where f: "stored s loc (EncodeRecord m p) f" using assms(1) by (auto simp: holds_def)
  note st = stored_record [OF f assms(2)]
  obtain m' p' where x: "x = (m', p')" by (cases x)
  from f have "dlookup (sdisk s) (segmentPath (SegmentID loc)) = Some f" by (simp add: stored_def)
  from ReadRecord_Inr [OF assms(3) [unfolded x] this] obtain sz where sz:
    "DecodeRecordHeader (subslice (nat (Offset loc)) (nat (Offset loc) + 8) (fdata f)) = Inr (m', sz)"
    "p' = subslice (nat (Offset loc) + 8) (nat (Offset loc) + 8 + unat sz) (fdata f)"
    by blast
  then have "m' = m" "sz = of_nat (length p)" using st(1) by simp_all
  with sz(2) st(2) unat_length_u32 [OF assms(2)] show ?thesis by (simp add: x)
qed

lemma ReadRecord_ok:
  assumes "holds s loc (EncodeRecord m p)" and "length p < 2 ^ 32" and "dio (sdisk s) = []"
  obtains s' where "ReadRecord (SegmentID loc) (Offset loc) s = (Inr (m, p), s')" "sdisk s' = sdisk s"
proof -
  obtain f where f: "stored s loc (EncodeRecord m p) f" using assms(1) by (auto simp: holds_def)
  note st = stored_record [OF f assms(2)]
  have lk: "dlookup (sdisk s) (segmentPath (SegmentID loc)) = Some f" and o0: "0 \<le> Offset loc"
    using f by (auto simp: stored_def)
  obtain r s1 where h: "openReadHandle (SegmentID loc) s = (r, s1)" by (cases "openReadHandle (SegmentID loc) s")
  have r: "r = Inr (segmentPath (SegmentID loc))" "sdisk s1 = sdisk s"
    using openReadHandle_frame(7) [OF h assms(3) lk] by auto
  have rd: "on_disk (os_ReadAt (segmentPath (SegmentID loc)) n k) s1 = (Inr (subslice (nat k) (nat k + n) (fdata f)), s1)"
    if "0 \<le> k" "nat k + n \<le> length (fdata f)" for n k
    using os_ReadAt_ok [OF assms(3) lk that] r(2) by (simp add: on_disk_def)
  note rd1 = rd [of "Offset loc" 8] rd [of "Offset loc + 8" "length p"]
    rd [of "Offset loc + 8 + int (length p)" 4]
  have "ReadRecord (SegmentID loc) (Offset loc) s = (Inr (m, p), s1)"
    using rd1 o0 st unat_length_u32 [OF assms(2)]
    by (simp add: ReadRecord_def h r nat_add_distrib)
  then show thesis using that r(2) by blast
qed

subsection \<open>What a restart recovers\<close>

text \<open>
  Opening a segment succeeds with the manager live on its valid prefix, whatever environment
  calls were tried before; without failures it does succeed.
\<close>

lemma adoptSegment_Inr:
  assumes "adoptSegment n (length (fdata f)) s = (Inr u, s')" and f: "dlookup (sdisk s) n = Some f"
  obtains d g where
     "s' = s\<lparr>sdisk := d, activeOffset := valid_len (fdata f), recordCount := valid_count (fdata f)\<rparr>"
     "dlookup d n = Some g" "fdata g = take (valid_len (fdata f)) (fdata f)"
     "min (fsynced f) (valid_len (fdata f)) \<le> fsynced g"
     "\<forall>m. m \<noteq> n \<longrightarrow> dlookup d m = dlookup (sdisk s) m"
proof (cases "length (fdata f) = 0")
  case True
  then have "valid_len (fdata f) = 0" "valid_count (fdata f) = 0"
    by (simp_all add: valid_len_alt valid_count_alt truncLoop.simps)
  with True assms show thesis by (intro that [of "sdisk s" f]) (auto simp: adoptSegment_def)
next
  case False
  let ?vl = "valid_len (fdata f)" and ?vc = "valid_count (fdata f)"
  obtain r1 d1 where sc: "scanValidTail n (length (fdata f)) (sdisk s) = (r1, d1)"
    by (cases "scanValidTail n (length (fdata f)) (sdisk s)")
  note v = scanValidTail_valid [OF sc f]
  have r1: "r1 = Inr (?vl, ?vc)"
    using assms(1) False v(2) sc by (cases r1) (auto simp: adoptSegment_def on_disk_def)
  have f1: "dlookup d1 = dlookup (sdisk s)" using v(1) by simp
  show thesis
  proof (cases "?vl < length (fdata f)")
    case True
    obtain r2 d2 where tr: "os_Truncate n ?vl d1 = (r2, d2)" by (cases "os_Truncate n ?vl d1")
    obtain w where r2: "r2 = Inr w" and s': "s' = s\<lparr>sdisk := d2, activeOffset := ?vl, recordCount := ?vc\<rparr>"
      using assms(1) False True sc r1 tr by (cases r2) (auto simp: adoptSegment_def on_disk_def)
    obtain g where "dlookup d2 n = Some g" "fdata g = take ?vl (fdata f)" "fsynced g = min (fsynced f) ?vl"
      using os_Truncate_Inr [OF tr [unfolded r2]] f f1 True by auto
    with s' f1 os_Truncate_other [OF tr] show thesis by (intro that [of d2 g]) auto
  next
    case F: False
    then have "?vl = length (fdata f)" using valid_len_le [of "fdata f"] by simp
    with F assms(1) f f1 sc r1 False show thesis
      by (intro that [of d1 f]) (auto simp: adoptSegment_def on_disk_def)
  qed
qed

lemma openSegmentFile_Inr:
  assumes "openSegmentFile i s = (Inr u, s')" and "activeID s = i"
  defines "f \<equiv> case dlookup (sdisk s) (segmentPath i) of None \<Rightarrow> empty_file | Some f \<Rightarrow> f"
  shows "live s'" and "activeID s' = i"
    and "\<forall>m. m \<noteq> segmentPath i \<longrightarrow> dlookup (sdisk s') m = dlookup (sdisk s) m"
    and "activeOffset s' = valid_len (fdata f)" and "recordCount s' = valid_count (fdata f)"
    and "maxSegmentSize s' = maxSegmentSize s"
    and "\<exists>g. active_dfile s' = Some g \<and> fdata g = take (valid_len (fdata f)) (fdata f)
           \<and> min (fsynced f) (valid_len (fdata f)) \<le> fsynced g"
proof -
  let ?n = "segmentPath i"
  define s1 where "s1 = (if activeFile s \<noteq> None then close_active s else s)"
  have s1: "sdisk s1 = sdisk s" "activeID s1 = i" "maxSegmentSize s1 = maxSegmentSize s"
    using assms(2) by (auto simp: s1_def close_active_def)
  note eqn = assms(1) [unfolded openSegmentFile_def Let_def, folded s1_def, unfolded tryE_Inr_iff on_disk_iff]
  obtain d2 d3 x where oc: "os_OpenCreate ?n (sdisk s) = (Inr (), d2)"
    and st: "os_Stat ?n d2 = (Inr x, d3)"
    and ad: "adoptSegment ?n (fst x) (s1\<lparr>sdisk := d3, activeFile := Some (?n, True)\<rparr>) = (Inr u, s')"
    using eqn s1 by (auto split: prod.splits)
  have f2: "dlookup d2 ?n = Some f" using os_OpenCreate_own [OF oc] by (simp add: f_def)
  have x: "fst x = length (fdata f)" using os_Stat_Inr [OF st f2] by simp
  have f3: "dlookup d3 ?n = Some f" "\<forall>m. m \<noteq> ?n \<longrightarrow> dlookup d3 m = dlookup (sdisk s) m"
    using os_Stat_frame [OF st] f2 os_OpenCreate_other [OF oc] by auto
  obtain d g where
     "s' = s1\<lparr>sdisk := d3, activeFile := Some (?n, True), sdisk := d,
         activeOffset := valid_len (fdata f), recordCount := valid_count (fdata f)\<rparr>"
     "dlookup d ?n = Some g" "fdata g = take (valid_len (fdata f)) (fdata f)"
     "min (fsynced f) (valid_len (fdata f)) \<le> fsynced g"
     "\<forall>m. m \<noteq> ?n \<longrightarrow> dlookup d m = dlookup d3 m"
    by (rule adoptSegment_Inr [OF ad [unfolded x]]) (simp_all add: f3(1))
  then show "live s'" and "activeID s' = i"
    and "\<forall>m. m \<noteq> ?n \<longrightarrow> dlookup (sdisk s') m = dlookup (sdisk s) m"
    and "activeOffset s' = valid_len (fdata f)" and "recordCount s' = valid_count (fdata f)"
    and "maxSegmentSize s' = maxSegmentSize s"
    and "\<exists>g. active_dfile s' = Some g \<and> fdata g = take (valid_len (fdata f)) (fdata f)
           \<and> min (fsynced f) (valid_len (fdata f)) \<le> fsynced g"
    using s1 f3 by (auto simp: live_def active_dfile_def)
qed


abbreviation segment_ids :: "string list \<Rightarrow> int set" where
  "segment_ids names \<equiv> set (List.map_filter (sscanf_segment ''.dat'') names)"

lemma max_segment_id_step:
  "foldl (\<lambda>m nm. case sscanf_segment ''.dat'' nm of None \<Rightarrow> m | Some i \<Rightarrow> if i > m then i else m) a names
     = Max (insert a (segment_ids names))"
proof (induction names arbitrary: a)
  case (Cons n names)
  show ?case
  proof (cases "sscanf_segment ''.dat'' n")
    case None
    with Cons.IH show ?thesis by (simp add: List.map_filter_simps)
  next
    case (Some i)
    with Cons.IH show ?thesis
      by (cases "segment_ids names = {}") (auto simp: List.map_filter_simps Max_insert insert_commute max_def)
  qed
qed (simp add: List.map_filter_simps)

lemma max_segment_id_Max: "max_segment_id names = Max (insert (-1) (segment_ids names))"
  unfolding max_segment_id_def by (rule max_segment_id_step)

lemma in_segment_ids: "i \<in> segment_ids names \<longleftrightarrow> (\<exists>n\<in>set names. sscanf_segment ''.dat'' n = Some i)"
  by (auto simp: List.map_filter_def image_iff)

text \<open>
  \<open>tidy d\<close>: the names of the directory that read as segment names are segment names, and
  numbered below 10000; what \<^verbatim>\<open>recover\<close> needs to find the newest segment.
\<close>

definition tidy :: "disk \<Rightarrow> bool" where
  "tidy d \<longleftrightarrow> (\<forall>n i. dlookup d n \<noteq> None \<longrightarrow> sscanf_segment ''.dat'' n = Some i \<longrightarrow> n = segmentPath i)
     \<and> (\<forall>i\<ge>10000. dlookup d (segmentPath i) = None)"

lemma tidy_cong: "(\<And>n. dlookup d n = None \<longleftrightarrow> dlookup d' n = None) \<Longrightarrow> tidy d = tidy d'"
  by (simp add: tidy_def)

text \<open>A successful start: the newest segment is live, cut to its valid prefix; the others are untouched.\<close>

lemma NewSegmentManager_Inr:
  assumes "NewSegmentManager maxSize d = (Inr u, s)" and "tidy d"
  obtains i f where "0 \<le> i" "sm_inv s" "live s" "activeID s = i" "maxSegmentSize s = maxSize"
    "\<forall>j>i. dlookup d (segmentPath j) = None"
    "(\<exists>j\<ge>0. dlookup d (segmentPath j) \<noteq> None) \<longrightarrow> dlookup d (segmentPath i) \<noteq> None"
    "f = (case dlookup d (segmentPath i) of None \<Rightarrow> empty_file | Some f \<Rightarrow> f)"
    "\<forall>m. m \<noteq> segmentPath i \<longrightarrow> dlookup (sdisk s) m = dlookup d m"
    "activeOffset s = valid_len (fdata f)" "recordCount s = valid_count (fdata f)"
    "\<exists>g. active_dfile s = Some g \<and> fdata g = take (valid_len (fdata f)) (fdata f)
           \<and> min (fsynced f) (valid_len (fdata f)) \<le> fsynced g"
proof -
  define s0 where "s0 = \<lparr>maxSegmentSize = maxSize, verifyChecksum = True, activeID = 0, activeFile = None,
                activeOffset = 0, recordCount = 0, readFiles = Map.empty, readMeta = Map.empty,
                sdisk = d\<rparr>"
  obtain k d1 where n1: "next_io d = (None, k, d1)" and rec: "recover_segments (s0\<lparr>sdisk := d1\<rparr>) = (Inr u, s)"
    using assms(1) by (auto simp: NewSegmentManager_def s0_def Let_def split: prod.splits option.splits)
  obtain names d2 where rd: "os_ReadDir d1 = (Inr names, d2)" and
    op: "(let maxID = max_segment_id names in if maxID < 0 then openSegment 0 (s0\<lparr>sdisk := d2\<rparr>)
          else openSegmentFile maxID (s0\<lparr>sdisk := d2, activeID := maxID\<rparr>)) = (Inr u, s)"
    using rec by (auto simp: recover_segments_def tryE_iffs on_disk_iff)
  have names: "names = map fst (dfiles d)" and d2: "dfiles d2 = dfiles d"
    using rd dfiles_next_io [OF n1] dfiles_next_io by (auto simp: os_ReadDir_def split: prod.splits option.splits)
  define S where "S = segment_ids names"
  have finS: "finite S" by (simp add: S_def)
  have mx: "max_segment_id names = Max (insert (-1) S)" by (simp add: max_segment_id_Max S_def)
  have inS: "j \<in> S" if "0 \<le> j" "dlookup d (segmentPath j) \<noteq> None" for j
  proof -
    have "j < 10000" using assms(2) that(2) by (auto simp: tidy_def not_le [symmetric])
    then have "sscanf_segment ''.dat'' (segmentPath j) = Some j"
      using that(1) by (intro sscanf_segmentPath)
    moreover have "segmentPath j \<in> set names" using that(2) by (simp add: names map_of_eq_None_iff)
    ultimately show ?thesis by (auto simp: S_def in_segment_ids)
  qed
  have Sin: "dlookup d (segmentPath j) \<noteq> None" if jS: "j \<in> S" for j
  proof -
    obtain n where n: "n \<in> set names" "sscanf_segment ''.dat'' n = Some j"
      using jS by (auto simp: S_def in_segment_ids)
    then have "n = segmentPath j"
      using assms(2) map_of_eq_None_iff [of "dfiles d" n] unfolding tidy_def names by auto
    with n(1) show ?thesis by (simp add: names map_of_eq_None_iff)
  qed
  define i where "i = max 0 (max_segment_id names)"
  have none: "dlookup d (segmentPath j) = None" if "j > i" for j
  proof (rule ccontr)
    assume "dlookup d (segmentPath j) \<noteq> None"
    with inS [of j] that finS have "j \<le> max_segment_id names" by (auto simp: i_def mx)
    with that show False by (simp add: i_def)
  qed
  have some: "dlookup d (segmentPath i) \<noteq> None" if ex: "\<exists>j\<ge>0. dlookup d (segmentPath j) \<noteq> None"
  proof -
    obtain j where "0 \<le> j" "j \<in> S" using ex inS by auto
    then have "j \<le> Max (insert (-1) S)" using finS by simp
    with \<open>0 \<le> j\<close> have "0 \<le> Max (insert (-1) S)" by simp
    moreover have "Max (insert (-1) S) \<in> insert (-1) S" using finS by (intro Max_in) auto
    ultimately have "i \<in> S" by (auto simp: i_def mx)
    with Sin show ?thesis by blast
  qed
  have opi: "openSegmentFile i (s0\<lparr>sdisk := d2, activeID := i, activeOffset := 0, recordCount := 0\<rparr>) = (Inr u, s)"
    using op by (auto simp: Let_def i_def max_def openSegment_def s0_def split: if_splits)
  note o1 = openSegmentFile_Inr [OF opi, simplified]
  define f where "f = (case dlookup d (segmentPath i) of None \<Rightarrow> empty_file | Some f \<Rightarrow> f)"
  have inv: "sm_inv s" unfolding sm_inv_def
    using o1 none d2 valid_len_le [of "fdata f"] by (auto simp: i_def f_def)
  show thesis
    using o1 inv none some d2 by (intro that [of i f]) (auto simp: f_def i_def s0_def)
qed

end
