(* ===== verification/Segment_Restart.thy ===== *)
theory Segment_Restart
  imports Segment_Read
begin

text \<open>
  Restarts of the segment manager: what a crash leaves to be recovered when the active
  segment holds records only, and what happens to a segment that was closed with a footer,
  reopened and appended to.
\<close>

subsection \<open>Segments without a footer inside\<close>

text \<open>
  \<open>clean s\<close>: what the active segment holds below the append offset is a run of valid
  records, as many as were counted, with no footer between them.
\<close>

definition clean :: "SegmentManager \<Rightarrow> bool" where
  "clean s \<longleftrightarrow> (live s \<longrightarrow> (\<exists>f rs. active_dfile s = Some f \<and> (\<forall>r\<in>set rs. valid_rec r)
     \<and> take (activeOffset s) (fdata f) = enc_recs rs \<and> recordCount s = of_nat (length rs)))"

lemma keeps_clean:
  assumes "keeps s s'" and "position_kept s s'" and "clean s" and "live s" and "sm_inv s'"
  shows "clean s'"
proof -
  have "\<exists>f. active_dfile s' = Some f" if "live s'"
    using assms(5) that live_not_stopped by (auto simp: sm_inv_def)
  moreover have "clean s'" if "stopped s'" using that live_not_stopped by (auto simp: clean_def)
  moreover have "clean s'" if "activeID s' = activeID s" "activeOffset s' = activeOffset s"
    "recordCount s' = recordCount s"
    using assms that by (fastforce simp: clean_def keeps_def active_dfile_def)
  ultimately show ?thesis
    using assms(2) by (fastforce simp: position_kept_def clean_def intro: exI [of _ "[]"])
qed

lemma appendLocked_clean:
  assumes "appendLocked (EncodeRecord m p) fsync s = (r, s')" and "sm_inv s" and "clean s"
    and "valid_rec (m, p)"
  shows "clean s'"
proof (cases "stopped s")
  case True
  then show ?thesis using stopped_append [of s "EncodeRecord m p" fsync] assms(1,3) by auto
next
  case False
  then have lv: "live s" using assms(2) by (auto simp: sm_inv_def)
  from assms(1,2) show ?thesis
  proof (cases rule: appendLocked_cases)
    case (err e)
    with keeps_clean assms(3) lv show ?thesis by blast
  next
    case (ok s2 f g)
    have "clean s2"
      using ok(2) assms(2) lv
    proof (cases rule: rotateIfFull_step)
      case room with assms(3) show ?thesis by simp
    next
      case (rotated h)
      then show ?thesis by (auto simp: clean_def intro: exI [of _ "[]"])
    qed auto
    then obtain rs where rs: "\<forall>r\<in>set rs. valid_rec r" "take (activeOffset s2) (fdata f) = enc_recs rs"
       "recordCount s2 = of_nat (length rs)"
      using ok(4,14) by (auto simp: clean_def)
    with ok(13,15,17) assms(4) show ?thesis
      by (auto simp: clean_def intro!: exI [of _ "rs @ [(m, p)]"])
  qed
qed

subsection \<open>Crash and restart\<close>

lemma truncLoop_over_recs:
  assumes "\<And>r. r \<in> set rs \<Longrightarrow> valid_rec r"
  shows "truncLoop (pre @ enc_recs rs @ rest) (length pre) c =
     truncLoop (pre @ enc_recs rs @ rest) (length pre + length (enc_recs rs)) (c + of_nat (length rs))"
  using assms
proof (induction rs arbitrary: pre c)
  case (Cons r rs)
  let ?data = "pre @ enc_recs (r # rs) @ rest"
  have "next_record (drop (length pre) ?data) = Some r"
    using next_record_EncodeRecord [of r "enc_recs rs @ rest"] Cons.prems by simp
  then have "truncLoop ?data (length pre) c =
     truncLoop ?data (length (pre @ EncodeRecord (fst r) (snd r))) (c + 1)"
    by (simp add: truncLoop_next [of "length pre"] algebra_simps)
  also have "\<dots> = truncLoop ?data (length (pre @ EncodeRecord (fst r) (snd r)) + length (enc_recs rs))
      (c + 1 + of_nat (length rs))"
    using Cons.IH [of "pre @ EncodeRecord (fst r) (snd r)" "c + 1"] Cons.prems by simp
  finally show ?case by (simp add: add.assoc)
qed simp

lemma valid_len_ge:
  assumes "\<And>r. r \<in> set rs \<Longrightarrow> valid_rec r" and "take (length (enc_recs rs)) data = enc_recs rs"
  shows "length (enc_recs rs) \<le> valid_len data"
proof -
  obtain rest where data: "data = enc_recs rs @ rest"
    using assms(2) append_take_drop_id [of "length (enc_recs rs)" data] by metis
  obtain off c where oc: "truncLoop data (length (enc_recs rs)) (of_nat (length rs)) = (off, c)"
    by (cases "truncLoop data (length (enc_recs rs)) (of_nat (length rs))")
  have "truncLoop data 0 0 = (off, c)"
    using truncLoop_over_recs [OF assms(1), of rs "[]" rest 0] oc by (simp add: data)
  moreover have "length (enc_recs rs) \<le> off"
    using truncLoop_sound [OF oc] by (auto simp: data)
  ultimately show ?thesis by (simp add: valid_len_alt Let_def)
qed

text \<open>The newest segment of a directory is the one that becomes active.\<close>

lemma NewSegmentManager_newest:
  assumes "NewSegmentManager maxSize d = (Inr u, s)" and "tidy d" and "0 \<le> i"
    and "dlookup d (segmentPath i) = Some g" and "\<forall>j>i. dlookup d (segmentPath j) = None"
  shows "sm_inv s" and "live s" and "activeID s = i" and "maxSegmentSize s = maxSize"
    and "activeOffset s = valid_len (fdata g)" and "recordCount s = valid_count (fdata g)"
    and "\<forall>m. m \<noteq> segmentPath i \<longrightarrow> dlookup (sdisk s) m = dlookup d m"
    and "\<exists>k. active_dfile s = Some k \<and> fdata k = take (valid_len (fdata g)) (fdata g)
           \<and> min (fsynced g) (valid_len (fdata g)) \<le> fsynced k"
    and "tidy (sdisk s)"
proof -
  obtain j h where n: "sm_inv s" "live s" "activeID s = j" "maxSegmentSize s = maxSize"
    "\<forall>k>j. dlookup d (segmentPath k) = None"
    "(\<exists>j\<ge>0. dlookup d (segmentPath j) \<noteq> None) \<longrightarrow> dlookup d (segmentPath j) \<noteq> None"
    "h = (case dlookup d (segmentPath j) of None \<Rightarrow> empty_file | Some f \<Rightarrow> f)"
    "\<forall>m. m \<noteq> segmentPath j \<longrightarrow> dlookup (sdisk s) m = dlookup d m"
    "activeOffset s = valid_len (fdata h)" "recordCount s = valid_count (fdata h)"
    "\<exists>k. active_dfile s = Some k \<and> fdata k = take (valid_len (fdata h)) (fdata h)
           \<and> min (fsynced h) (valid_len (fdata h)) \<le> fsynced k"
    using assms(1,2) by (rule NewSegmentManager_Inr) blast
  have ji: "j = i"
  proof (rule linorder_cases [of j i])
    assume "j < i" with n(5) assms(4) show ?thesis by auto
  next
    assume "j > i" with n(6) assms(3,4,5) show ?thesis by auto
  qed simp
  moreover have h: "h = g" using n(7) ji assms(4) by simp
  ultimately show "sm_inv s" and "live s" and "activeID s = i" and "maxSegmentSize s = maxSize"
    and "activeOffset s = valid_len (fdata g)" and "recordCount s = valid_count (fdata g)"
    and "\<forall>m. m \<noteq> segmentPath i \<longrightarrow> dlookup (sdisk s) m = dlookup d m"
    and "\<exists>k. active_dfile s = Some k \<and> fdata k = take (valid_len (fdata g)) (fdata g)
           \<and> min (fsynced g) (valid_len (fdata g)) \<le> fsynced k"
    using n by simp_all
  have "dlookup d m = None \<longleftrightarrow> dlookup (sdisk s) m = None" for m
    using n(3,8,11) ji assms(4) by (cases "m = segmentPath i") (auto simp: active_dfile_def)
  then show "tidy (sdisk s)" using assms(2) tidy_cong [of d "sdisk s"] by simp
qed

lemma crash_tidy_same_names:
  assumes "crash d d'" shows "dlookup d n = None \<longleftrightarrow> dlookup d' n = None"
  using assms unfolding crash_def by (metis option.distinct(1) option.exhaust)

subsection \<open>On a disk that does not fail every operation succeeds\<close>

abbreviation healthy :: "SegmentManager \<Rightarrow> bool" where
  "healthy s \<equiv> dio (sdisk s) = []"

lemma on_active_ok:
  assumes "healthy s" and "live s" and "active_dfile s = Some f"
  shows "on_active (\<lambda>n. os_WriteAt n p off) s = (Inr (length p),
           s\<lparr>sdisk := put_file (segmentPath (activeID s)) (file_write off p f) (sdisk s)\<rparr>)"
    and "on_active os_Sync s = (Inr (),
           s\<lparr>sdisk := put_file (segmentPath (activeID s)) (f\<lparr>fsynced := length (fdata f)\<rparr>) (sdisk s)\<rparr>)"
  using assms
  by (simp_all add: on_active_live on_disk_def os_WriteAt_def os_Sync_def next_io_nofault active_dfile_def)

text \<open>A write and the sync after it, as one file content.\<close>

definition put_synced :: "nat \<Rightarrow> bytes \<Rightarrow> dfile \<Rightarrow> SegmentManager \<Rightarrow> SegmentManager" where
  "put_synced off p f s = s\<lparr>sdisk := put_file (segmentPath (activeID s))
     ((file_write off p f)\<lparr>fsynced := length (write_bytes off p (fdata f))\<rparr>)
     (put_file (segmentPath (activeID s)) (file_write off p f) (sdisk s))\<rparr>"

lemma write_sync_ok:
  assumes "healthy s" and "live s" and "active_dfile s = Some f"
  shows "\<exists>s1. on_active (\<lambda>n. os_WriteAt n p off) s = (Inr (length p), s1)
     \<and> on_active os_Sync s1 = (Inr (), put_synced off p f s) \<and> healthy s1
     \<and> activeOffset s1 = activeOffset s \<and> recordCount s1 = recordCount s \<and> activeID s1 = activeID s"
proof -
  let ?s1 = "s\<lparr>sdisk := put_file (segmentPath (activeID s)) (file_write off p f) (sdisk s)\<rparr>"
  have "on_active os_Sync ?s1 = (Inr (), put_synced off p f s)"
    using on_active_ok(2) [of ?s1 "file_write off p f"] assms
    by (simp add: live_def active_dfile_def put_synced_def file_write_def)
  with on_active_ok(1) [OF assms, of p off] assms(1) show ?thesis
    by (intro exI [of _ ?s1]) simp
qed

lemma put_synced_simps [simp]:
  "healthy (put_synced off p f s) = healthy s"
  "live (put_synced off p f s) = live s"
  "activeID (put_synced off p f s) = activeID s"
  "activeOffset (put_synced off p f s) = activeOffset s"
  "recordCount (put_synced off p f s) = recordCount s"
  "activeFile (put_synced off p f s) = activeFile s"
  "dlookup (sdisk (put_synced off p f s)) m = (if m = segmentPath (activeID s)
     then Some ((file_write off p f)\<lparr>fsynced := length (write_bytes off p (fdata f))\<rparr>)
     else dlookup (sdisk s) m)"
  by (simp_all add: put_synced_def live_def)

lemma live_file: "sm_inv s \<Longrightarrow> live s \<Longrightarrow> \<exists>f. active_dfile s = Some f"
  using live_not_stopped by (auto simp: sm_inv_def)

lemma adoptSegment_ok:
  assumes "dio (sdisk s) = []" and "dlookup (sdisk s) n = Some f"
  shows "\<exists>s'. adoptSegment n (length (fdata f)) s = (Inr (), s') \<and> healthy s'"
proof -
  obtain r d where sc: "scanValidTail n (length (fdata f)) (sdisk s) = (r, d)"
    by (cases "scanValidTail n (length (fdata f)) (sdisk s)")
  have "d = sdisk s" "r = Inr (valid_len (fdata f), valid_count (fdata f))"
    using scanValidTail_valid(3) [OF sc assms(2,1)] by auto
  with sc assms show ?thesis
    by (simp add: adoptSegment_def on_disk_def os_Truncate_def next_io_nofault)
qed

lemma openSegmentFile_ok:
  assumes "healthy s" shows "\<exists>s'. openSegmentFile i s = (Inr (), s') \<and> healthy s'"
proof -
  let ?n = "segmentPath i"
  define s1 where "s1 = (if activeFile s \<noteq> None then close_active s else s)"
  obtain d where oc: "os_OpenCreate ?n (sdisk s1) = (Inr (), d)" "dio d = []"
    using assms by (simp add: os_OpenCreate_def next_io_nofault s1_def close_active_def split: option.splits)
  obtain f where f: "dlookup d ?n = Some f" using os_OpenCreate_own [OF oc(1)] by blast
  have st: "os_Stat ?n d = (Inr (length (fdata f), fmtime f), d)"
    using oc(2) f by (simp add: os_Stat_def next_io_nofault)
  show ?thesis
    using adoptSegment_ok [of "s1\<lparr>sdisk := d, activeFile := Some (?n, True)\<rparr>" ?n f] oc st f
    unfolding openSegmentFile_def Let_def s1_def [symmetric] on_disk_def by simp
qed

lemma NewSegmentManager_ok:
  assumes "dio d = []" shows "\<exists>s. NewSegmentManager maxSize d = (Inr (), s) \<and> healthy s"
  using assms openSegmentFile_ok
  by (simp add: NewSegmentManager_def Let_def next_io_nofault recover_segments_def on_disk_def
      os_ReadDir_def openSegment_def)

lemma finalizeLocked_ok:
  assumes "live s" and "healthy s" and "active_dfile s = Some f" and "0 < activeOffset s"
  shows "finalizeLocked s = (Inr (),
           put_synced (activeOffset s) (EncodeFooter (recordCount s) (of_nat (activeOffset s))) f s)"
  using write_sync_ok [OF assms(2,1,3), of "EncodeFooter (recordCount s) (of_nat (activeOffset s))" "activeOffset s"]
    assms(1,4) by (auto simp: finalizeLocked_def Let_def live_def)

lemma append_no_rotation_ok:
  assumes "live s" and "healthy s" and "active_dfile s = Some f" and "rotateIfFull rec s0 = (Inr (), s)"
    and "activeFile s0 \<noteq> None"
  shows "appendLocked rec True s0 = (Inr \<lparr>SegmentID = activeID s, Offset = int (activeOffset s), Size = int (length rec)\<rparr>,
           (put_synced (activeOffset s) rec f s)
             \<lparr>activeOffset := activeOffset s + length rec, recordCount := recordCount s + 1\<rparr>)"
    and "\<exists>s'. appendLocked rec False s0 = (Inr \<lparr>SegmentID = activeID s, Offset = int (activeOffset s), Size = int (length rec)\<rparr>, s')
           \<and> healthy s'"
  using write_sync_ok [OF assms(2,1,3), of rec "activeOffset s"] assms(4,5)
  by (auto simp: appendLocked_def Let_def)

lemma appendLocked_ok:
  assumes "sm_inv s" and "live s" and "healthy s"
  shows "\<exists>loc s'. appendLocked rec fsync s = (Inr loc, s') \<and> healthy s'"
proof -
  obtain f0 where f0: "active_dfile s = Some f0" using live_file [OF assms(1,2)] by blast
  have "\<exists>s2. rotateIfFull rec s = (Inr (), s2) \<and> healthy s2"
    using finalizeLocked_ok [OF assms(2,3) f0] openSegmentFile_ok assms(3)
    by (auto simp: rotateIfFull_def openSegment_def)
  then obtain s2 where rot: "rotateIfFull rec s = (Inr (), s2)" and h2: "healthy s2" by blast
  from rot assms(1,2) have s2: "sm_inv s2" "live s2"
    by (cases rule: rotateIfFull_step; simp add: assms)+
  obtain f where f: "active_dfile s2 = Some f" using live_file [OF s2] by blast
  have act: "activeFile s \<noteq> None" using assms(2) by (simp add: live_def)
  show ?thesis
    using append_no_rotation_ok [OF s2(2) h2 f rot act] h2 by (cases fsync) auto
qed

lemma write_footer_bytes:
  "off \<le> length xs \<Longrightarrow> write_bytes off p xs = take off xs @ p @ drop (off + length p) xs"
  by (simp add: write_bytes_def)

text \<open>A restart after a crash with every appended byte synced finds the durable records again.\<close>

lemma restart_durable:
  assumes "sm_inv s" and "live s" and "clean s"
    and "\<And>f. active_dfile s = Some f \<Longrightarrow> activeOffset s \<le> fsynced f"
    and "crash (sdisk s) d" and "tidy d"
    and "NewSegmentManager maxSize d = (Inr u, s')"
    and "durable s loc rec"
  shows "durable s' loc rec \<and> activeID s' = activeID s \<and> activeOffset s \<le> activeOffset s'"
proof -
  obtain f rs where f: "active_dfile s = Some f" "\<forall>r\<in>set rs. valid_rec r"
     "take (activeOffset s) (fdata f) = enc_recs rs"
    using assms(2,3) by (auto simp: clean_def)
  have fo: "activeOffset s \<le> length (fdata f)"
    using assms(1,2) f(1) live_not_stopped by (auto simp: sm_inv_def)
  then have len: "length (enc_recs rs) = activeOffset s"
    using arg_cong [OF f(3), of length] by simp
  obtain g where g: "dlookup d (segmentPath (activeID s)) = Some g" "crash_file f g"
    using assms(5) f(1) unfolding crash_def active_dfile_def by blast
  have tg: "take (activeOffset s) (fdata g) = enc_recs rs"
    using crash_file_bytes [OF g(2), of 0 "activeOffset s"] assms(4) [OF f(1)] f(3) by simp
  have vl: "activeOffset s \<le> valid_len (fdata g)"
    using valid_len_ge [of rs "fdata g"] f(2) tg len by simp
  have id0: "0 \<le> activeID s" and above: "\<forall>j>activeID s. dlookup d (segmentPath j) = None"
    using assms(1) crash_tidy_same_names [OF assms(5)] by (auto simp: sm_inv_def)
  note n = NewSegmentManager_newest [OF assms(7,6) id0 g(1) above]
  obtain k where k: "active_dfile s' = Some k" "fdata k = take (valid_len (fdata g)) (fdata g)"
      "min (fsynced g) (valid_len (fdata g)) \<le> fsynced k" using n(8) by blast
  obtain x where x: "stored s loc rec x" "loc_end loc rec \<le> fsynced x"
    using assms(8) by (auto simp: durable_def)
  show ?thesis
  proof (cases "SegmentID loc = activeID s")
    case True
    have e: "loc_end loc rec \<le> activeOffset s" and xf: "x = f"
      using x(1) f(1) True by (auto simp: stored_def active_dfile_def)
    have "subslice (nat (Offset loc)) (loc_end loc rec) (fdata k)
        = subslice (nat (Offset loc)) (loc_end loc rec) (enc_recs rs)"
      using e vl by (simp add: k(2) subslice_take flip: tg)
    also have "\<dots> = rec"
      using x(1) e by (simp add: xf subslice_take stored_def flip: f(3))
    finally have "subslice (nat (Offset loc)) (loc_end loc rec) (fdata k) = rec" .
    moreover have "activeOffset s \<le> length (fdata g)"
      using arg_cong [OF tg, of length] len by simp
    moreover have "fsynced g = length (fdata g)" using g(2) by (simp add: crash_file_def)
    ultimately show ?thesis
      using x(1) True e vl k n(3,5) by (auto simp: durable_def stored_def active_dfile_def)
  next
    case False
    then have lt: "SegmentID loc < activeID s" using x(1) by (simp add: stored_def)
    obtain y where y: "dlookup d (segmentPath (SegmentID loc)) = Some y" "crash_file x y"
      using assms(5) x(1) unfolding crash_def stored_def by blast
    have "subslice (nat (Offset loc)) (loc_end loc rec) (fdata y) = rec"
      using crash_file_bytes [OF y(2), of "nat (Offset loc)" "length rec"] x
      by (simp add: subslice_def stored_def)
    moreover have "loc_end loc rec \<le> length (fdata y)" "fsynced y = length (fdata y)"
      using y(2) x(2) by (auto simp: crash_file_def)
    ultimately show ?thesis
      using x(1) lt vl y(1) n(3,5,7) by (auto simp: durable_def stored_def)
  qed
qed

end
