(* ===== verification/Segment_Props.thy ===== *)
theory Segment_Props
  imports Segment_Restart
begin

text \<open>
  The properties of the segment manager, with witnesses on a manager started in an empty
  directory.
\<close>

definition fresh_manager :: "int \<Rightarrow> SegmentManager" where
  "fresh_manager maxSize =
     \<lparr>maxSegmentSize = maxSize, verifyChecksum = True, activeID = 0, activeFile = Some (segmentPath 0, True),
      activeOffset = 0, recordCount = 0, readFiles = Map.empty, readMeta = Map.empty,
      sdisk = \<lparr>dfiles = [(segmentPath 0, empty_file)], dio = []\<rparr>\<rparr>"

lemma NewSegmentManager_empty:
  "NewSegmentManager maxSize \<lparr>dfiles = [], dio = []\<rparr> = (Inr (), fresh_manager maxSize)"
  by (simp add: NewSegmentManager_def Let_def next_io_def recover_segments_def on_disk_def os_ReadDir_def
      max_segment_id_def openSegment_def openSegmentFile_def os_OpenCreate_def put_file_def os_Stat_def
      adoptSegment_def empty_file_def fresh_manager_def)

lemma fresh_manager_ok [simp]:
  "sm_inv (fresh_manager k)" "live (fresh_manager k)" "healthy (fresh_manager k)" "clean (fresh_manager k)"
  "active_dfile (fresh_manager k) = Some empty_file" "maxSegmentSize (fresh_manager k) = k"
  "activeOffset (fresh_manager k) = 0" "recordCount (fresh_manager k) = 0" "activeID (fresh_manager k) = 0"
  "activeFile (fresh_manager k) = Some (segmentPath 0, True)" "verifyChecksum (fresh_manager k)"
  "dlookup (sdisk (fresh_manager k)) n = (if n = segmentPath 0 then Some empty_file else None)"
  by (auto simp: fresh_manager_def sm_inv_def live_def active_dfile_def clean_def empty_file_def
      intro: exI [of _ "[]"])

text \<open>The manager after one synced append to an empty directory.\<close>

definition one_record :: "int \<Rightarrow> u32 \<Rightarrow> bytes \<Rightarrow> SegmentManager" where
  "one_record maxSize m p =
     (put_synced 0 (EncodeRecord m p) empty_file (fresh_manager maxSize))
       \<lparr>activeOffset := length p + 12, recordCount := 1\<rparr>"

abbreviation first_loc :: "bytes \<Rightarrow> Location" where
  "first_loc p \<equiv> \<lparr>SegmentID = 0, Offset = 0, Size = int (length p + 12)\<rparr>"

lemma appendDirect_first:
  "appendDirect (EncodeRecord m p) (fresh_manager k) = (Inr (first_loc p), one_record k m p)"
  using append_no_rotation_ok(1) [of "fresh_manager k" empty_file "EncodeRecord m p" "fresh_manager k"]
  by (simp add: rotateIfFull_def one_record_def appendDirect_def)

lemma one_record_ok:
  "sm_inv (one_record k m p)" "live (one_record k m p)" "healthy (one_record k m p)"
  "activeOffset (one_record k m p) = length p + 12" "recordCount (one_record k m p) = 1"
  "activeID (one_record k m p) = 0" "holds (one_record k m p) (first_loc p) (EncodeRecord m p)"
  "valid_rec (m, p) \<Longrightarrow> clean (one_record k m p)"
  "tidy (sdisk (one_record k m p))"
proof -
  show "sm_inv (one_record k m p)" using seg_durable.append_inv [OF appendDirect_first] by simp
  show "holds (one_record k m p) (first_loc p) (EncodeRecord m p)"
    using seg_durable.append_has [OF appendDirect_first] durable_holds by simp
  show "valid_rec (m, p) \<Longrightarrow> clean (one_record k m p)"
    using appendLocked_clean [OF appendDirect_first [unfolded appendDirect_def]] by simp
  show "live (one_record k m p)" "healthy (one_record k m p)" "activeOffset (one_record k m p) = length p + 12"
    "recordCount (one_record k m p) = 1" "activeID (one_record k m p) = 0"
    by (simp_all add: one_record_def live_def)
  show "tidy (sdisk (one_record k m p))"
    using sscanf_segmentPath [of 0] by (auto simp: one_record_def tidy_def split: if_splits)
qed

subsection \<open>Properties\<close>

text \<open>
  C15 (equivalence). On a disk that does not fail, the streaming scan of a segment file
  returns the offset and record count that \<^verbatim>\<open>truncateToValid\<close> computes from the whole
  file in memory, and changes nothing.
\<close>

theorem scanValidTail_eq_truncateToValid:
  assumes "dlookup d n = Some f" and "dio d = []"
  shows "scanValidTail n (length (fdata f)) d =
     (case truncateToValid (fdata f) of (_, count, off) \<Rightarrow> (Inr (off, count), d))"
  using scanValidTail_valid(3) [OF _ assms]
  by (cases "scanValidTail n (length (fdata f)) d")
    (simp add: valid_len_def valid_count_def split: prod.splits)

theorem scanValidTail_eq_truncateToValid_witness:
  "scanValidTail ''segment_0000.dat'' 13
     \<lparr>dfiles = [(''segment_0000.dat'', \<lparr>fdata = EncodeRecord MagicXML [7], fsynced = 0, fmtime = 0\<rparr>)], dio = []\<rparr>
   = (Inr (13, 1),
      \<lparr>dfiles = [(''segment_0000.dat'', \<lparr>fdata = EncodeRecord MagicXML [7], fsynced = 0, fmtime = 0\<rparr>)], dio = []\<rparr>)"
proof -
  let ?f = "\<lparr>fdata = EncodeRecord MagicXML [7], fsynced = 0, fmtime = 0\<rparr>"
  let ?d = "\<lparr>dfiles = [(''segment_0000.dat'', ?f)], dio = []\<rparr>"
  have "valid_len (EncodeRecord MagicXML [7]) = 13" "valid_count (EncodeRecord MagicXML [7]) = 1"
    using valid_len_recs [of "[(MagicXML, [7])]" "[]"]
    by (simp_all add: valid_rec_def KnownMagic_def next_record_def DecodeRecordHeader_def)
  then show ?thesis
    using scanValidTail_eq_truncateToValid [of ?d "''segment_0000.dat''" ?f]
    by (simp add: valid_len_def valid_count_def split: prod.splits)
qed

text \<open>
  Whatever bytes a segment file holds, recovery keeps the longest run of
  valid records it starts with, counts them, and goes past one footer if one follows; what
  comes next does not start with a valid record.
\<close>

theorem truncateToValid_longest_run:
  "\<exists>rs rest. data = enc_recs rs @ rest \<and> list_all valid_rec rs \<and> next_record rest = None
     \<and> truncateToValid data =
        (let off = length (enc_recs rs) +
             (if 32 \<le> length rest \<and> Uint32 (subslice 28 32 rest) = FooterMagic then 32 else 0)
         in (take off data, of_nat (length rs), off))"
proof -
  obtain off c where oc: "truncLoop data 0 0 = (off, c)" by (cases "truncLoop data 0 0")
  then obtain rs where rs: "\<forall>r\<in>set rs. valid_rec r" "data = enc_recs rs @ drop off data"
    "off = length (enc_recs rs)" "next_record (drop off data) = None"
    using truncLoop_sound [OF oc] by auto
  let ?rest = "drop off data"
  have "valid_len data = off + (if 32 \<le> length ?rest \<and> Uint32 (subslice 28 32 ?rest) = FooterMagic then 32 else 0)"
    and "valid_count data = of_nat (length rs)"
    using valid_len_recs [of rs ?rest] rs by auto
  moreover have "fst (truncateToValid data) = take (valid_len data) data"
    by (simp add: truncateToValid_def valid_len_def Let_def split: prod.splits)
  ultimately have "truncateToValid data =
        (let off = length (enc_recs rs) +
             (if 32 \<le> length ?rest \<and> Uint32 (subslice 28 32 ?rest) = FooterMagic then 32 else 0)
         in (take off data, of_nat (length rs), off))"
    using rs(3) by (simp add: prod_eq_iff Let_def valid_len_def valid_count_def)
  moreover have "list_all valid_rec rs" using rs(1) by (simp add: list_all_iff)
  ultimately show ?thesis using rs(2,4) by blast
qed

text \<open>
  C4 (roundtrip). A record whose append was acknowledged is read back as it was written, with
  its magic, after any further appends, whether they succeed or fail; a read can fail for
  reasons of the environment but never returns anything else, and on a disk that does not
  fail it returns the record.
\<close>

theorem append_then_ReadRecord:
  assumes "sm_inv s" and "length p < 2 ^ 32"
    and "appendDirect (EncodeRecord m p) s = (Inr loc, s1)"
    and "seg_durable.append_all recs s1 = (acks, s2)"
  shows "(fst (ReadRecord (SegmentID loc) (Offset loc) s2) = Inr x \<longrightarrow> x = (m, p))
     \<and> (healthy s2 \<longrightarrow> fst (ReadRecord (SegmentID loc) (Offset loc) s2) = Inr (m, p))"
proof -
  have inv1: "sm_inv s1" using seg_durable.append_inv [OF assms(3,1)] .
  have "durable s2 loc (EncodeRecord m p)"
    by (rule seg_durable.append_all_keeps [OF assms(4) inv1 seg_durable.append_has [OF assms(3,1)]])
  then have h: "holds s2 loc (EncodeRecord m p)" by (rule durable_holds)
  obtain r s3 where r: "ReadRecord (SegmentID loc) (Offset loc) s2 = (r, s3)"
    by (cases "ReadRecord (SegmentID loc) (Offset loc) s2")
  have "r = Inr (m, p)" if hs: "healthy s2"
    by (rule ReadRecord_ok [OF h assms(2) hs]) (simp add: r)
  moreover have "x = (m, p)" if rx: "r = Inr x"
    by (rule ReadRecord_stored [OF h assms(2) r [unfolded rx]])
  ultimately show ?thesis unfolding r fst_conv by blast
qed

theorem append_then_ReadRecord_witness:
  "fst (ReadRecord 0 0 (one_record 1000 MagicXML [7])) = Inr (MagicXML, [7])"
  using append_then_ReadRecord [of "fresh_manager 1000" "[7]" MagicXML "first_loc [7]"
      "one_record 1000 MagicXML [7]" "[]" "[]" "one_record 1000 MagicXML [7]" "(MagicXML, [7])"]
    appendDirect_first [of MagicXML "[7]" 1000] one_record_ok(3) [of 1000 MagicXML "[7]"]
  by simp

text \<open>
  C2 (safety). Whatever fails in between, every record acknowledged in a sequence of synced
  appends is at its location and on stable storage at the end, and so is all that was durable
  before.
\<close>

theorem acknowledged_appends_durable:
  assumes "sm_inv s" and "seg_durable.append_all recs s = (acks, s')"
  shows "sm_inv s' \<and> (\<forall>(rec, loc)\<in>set acks. durable s' loc rec)
     \<and> (\<forall>loc rec. durable s loc rec \<longrightarrow> durable s' loc rec)"
  using seg_durable.append_all_inv [OF assms(2,1)] seg_durable.append_all_has [OF assms(2,1)]
    seg_durable.append_all_keeps [OF assms(2,1)] by blast

theorem acknowledged_appends_durable_witness:
  "durable (one_record 1000 MagicXML [7]) (first_loc [7]) (EncodeRecord MagicXML [7])"
  using acknowledged_appends_durable [of "fresh_manager 1000" "[EncodeRecord MagicXML [7]]"
      "[(EncodeRecord MagicXML [7], first_loc [7])]" "one_record 1000 MagicXML [7]"]
    appendDirect_first [of MagicXML "[7]" 1000]
  by simp

text \<open>
  A batch write answers every entry: an entry without an error is on stable
  storage at the location given to it when the batch returns, even when entries before or
  after it failed or the batch went over a segment boundary; the one sync at the end failing
  turns all its acknowledgements into errors. Earlier records stay durable.
\<close>

theorem batchAppend_durable:
  assumes "sm_inv s" and "\<forall>pw\<in>set batch. pw_err pw = None" and "batchAppend batch s = (batch', s')"
  shows "sm_inv s' \<and> length batch' = length batch
     \<and> (\<forall>i<length batch. pw_record (batch' ! i) = pw_record (batch ! i) \<and>
          (pw_err (batch' ! i) = None \<longrightarrow> durable s' (pw_loc (batch' ! i)) (pw_record (batch ! i))))
     \<and> (\<forall>loc rec. durable s loc rec \<longrightarrow> durable s' loc rec)"
  using batchAppend_durable_all [OF assms(3,1,2)] keeps_durable
  by (auto simp: list_all2_conv_all_nth)

theorem batchAppend_durable_witness:
  "sm_inv (snd (batchAppend [\<lparr>pw_record = EncodeRecord MagicXML [7], pw_loc = first_loc [], pw_err = None\<rparr>]
     (fresh_manager 1000)))"
  using batchAppend_durable [OF fresh_manager_ok(1) [of 1000] _ prod.collapse [symmetric],
      of "[\<lparr>pw_record = EncodeRecord MagicXML [7], pw_loc = first_loc [], pw_err = None\<rparr>]"]
  by simp

text \<open>
  C6 (safety). Take an open manager whose active segment consists of whole records of known types
  with payloads that are not empty, and of no footer, and every appended byte of which is
  synced; and a crash that leaves a directory with properly named segment files only, with ids
  below 10000. When the manager starts again, each record that was durable is found, durable, at
  its location, whatever the crash left behind the synced bytes, and the manager goes on in
  the same segment.
\<close>

theorem restart_keeps_durable:
  assumes "sm_inv s" and "live s" and "clean s"
    and "\<And>f. active_dfile s = Some f \<Longrightarrow> activeOffset s \<le> fsynced f"
    and "crash (sdisk s) d" and "tidy d"
    and "NewSegmentManager maxSize d = (Inr u, s')"
    and "durable s loc rec"
  shows "durable s' loc rec \<and> activeID s' = activeID s \<and> activeOffset s \<le> activeOffset s'"
  by (rule restart_durable [OF assms])

theorem restart_keeps_durable_witness:
  "\<exists>s'. NewSegmentManager 1000 (sdisk (one_record 1000 MagicXML [7])) = (Inr (), s')
     \<and> durable s' (first_loc [7]) (EncodeRecord MagicXML [7])"
proof -
  let ?s = "one_record 1000 MagicXML [7]"
  have v: "valid_rec (MagicXML, [7])" by (simp add: valid_rec_def KnownMagic_def)
  obtain f where f: "active_dfile ?s = Some f" "fsynced f = length (fdata f)" "length (fdata f) = 13"
    by (simp add: one_record_def active_dfile_def file_write_def write_bytes_def empty_file_def)
  have cr: "crash (sdisk ?s) (sdisk ?s)"
    using f by (auto simp: crash_def one_record_def active_dfile_def intro: crash_file_refl)
  have sy: "activeOffset ?s \<le> fsynced g" if "active_dfile ?s = Some g" for g
    using f that by (simp add: one_record_ok)
  have dur: "durable ?s (first_loc [7]) (EncodeRecord MagicXML [7])"
    using seg_durable.append_has [OF appendDirect_first [of MagicXML "[7]" 1000]] by simp
  obtain s' where n: "NewSegmentManager 1000 (sdisk ?s) = (Inr (), s')"
    using NewSegmentManager_ok [OF one_record_ok(3)] by blast
  from restart_keeps_durable [OF one_record_ok(1,2) one_record_ok(8) [OF v] sy cr one_record_ok(9) n dur] n
  show ?thesis by blast
qed

text \<open>
  C13 (safety, a violation). A segment that was closed gets a footer. The manager started next
  appends behind that footer, and the start after that cuts the file at the footer: a record
  whose append was acknowledged and synced is gone, and the next append will reuse its place.
\<close>

theorem reopened_segment_loses_record:
  assumes "sm_inv s" and "live s" and "clean s" and "healthy s" and "tidy (sdisk s)"
    and "0 < activeOffset s" and "unat (recordCount s) < 2 ^ 30" and "valid_rec (m, p)"
    and "int (activeOffset s + length p + 76) \<le> maxSize"
  shows "\<exists>s1 s2 loc s3 s4.
     Close_segments s = (Inr (), s1) \<and>
     NewSegmentManager maxSize (sdisk s1) = (Inr (), s2) \<and>
     appendDirect (EncodeRecord m p) s2 = (Inr loc, s3) \<and>
     durable s3 loc (EncodeRecord m p) \<and>
     NewSegmentManager maxSize (sdisk s3) = (Inr (), s4) \<and>
     \<not> holds s4 loc (EncodeRecord m p) \<and>
     SegmentID loc = activeID s4 \<and> Offset loc = int (activeOffset s4)"
proof -
  let ?n = "segmentPath (activeID s)" and ?rec = "EncodeRecord m p"
  let ?ft = "EncodeFooter (recordCount s) (of_nat (activeOffset s))"
  obtain f rs where f: "active_dfile s = Some f" "\<And>r. r \<in> set rs \<Longrightarrow> valid_rec r"
     "take (activeOffset s) (fdata f) = enc_recs rs"
    using assms(2,3) by (auto simp: clean_def)
  have fo: "activeOffset s \<le> length (fdata f)" using assms(1,2) f(1) live_not_stopped by (auto simp: sm_inv_def)
  then have len: "length (enc_recs rs) = activeOffset s" using arg_cong [OF f(3), of length] by simp
  have id0: "0 \<le> activeID s" using assms(1) by (simp add: sm_inv_def)
  define s1 where "s1 = close_active (put_synced (activeOffset s) ?ft f s)"
  have close: "Close_segments s = (Inr (), s1)"
    using finalizeLocked_ok [OF assms(2,4) f(1) assms(6)] assms(2)
    by (auto simp: Close_segments_def s1_def live_def)
  have d1: "dio (sdisk s1) = []" using assms(4) by (simp add: s1_def close_active_def)
  obtain g where g: "dlookup (sdisk s1) ?n = Some g"
      "fdata g = enc_recs rs @ ?ft @ drop (activeOffset s + 32) (fdata f)"
    using fo f(3) by (simp add: s1_def close_active_def file_write_def write_footer_bytes)
  have o1: "dlookup (sdisk s1) m = dlookup (sdisk s) m" if "m \<noteq> ?n" for m
    using that by (simp add: s1_def close_active_def)
  have vg: "valid_len (fdata g) = activeOffset s + 32"
    using valid_len_footer(1) [OF f(2) assms(7)] by (simp add: g(2) len)
  have a1: "\<forall>j>activeID s. dlookup (sdisk s1) (segmentPath j) = None"
    using assms(1) o1 by (auto simp: sm_inv_def)
  have t1: "tidy (sdisk s1)"
    using assms(5) tidy_cong [of "sdisk s" "sdisk s1"] o1 g(1) f(1) by (metis active_dfile_def option.distinct(1))
  obtain s2 where new2: "NewSegmentManager maxSize (sdisk s1) = (Inr (), s2)" and h2: "healthy s2"
    using NewSegmentManager_ok [OF d1] by blast
  note n2 = NewSegmentManager_newest [OF new2 t1 id0 g(1) a1]
  obtain k where k: "active_dfile s2 = Some k" "fdata k = enc_recs rs @ ?ft"
  proof -
    have "take (valid_len (fdata g)) (fdata g) = enc_recs rs @ ?ft"
      unfolding vg by (simp add: g(2) len)
    with n2(8) show ?thesis by (auto intro: that)
  qed
  have off2: "activeOffset s2 = activeOffset s + 32" using n2(5) vg by simp
  have rot: "rotateIfFull ?rec s2 = (Inr (), s2)"
    using assms(9) off2 n2(4) by (simp add: rotateIfFull_def)
  have act: "activeFile s2 \<noteq> None" using n2(2) by (simp add: live_def)
  obtain loc s3 where app: "appendDirect ?rec s2 = (Inr loc, s3)"
    and loc: "SegmentID loc = activeID s" "Offset loc = int (activeOffset s + 32)"
    and s3: "s3 = (put_synced (activeOffset s2) ?rec k s2)
             \<lparr>activeOffset := activeOffset s2 + length ?rec, recordCount := recordCount s2 + 1\<rparr>"
    using append_no_rotation_ok(1) [OF n2(2) h2 k(1) rot act] n2(3) off2 by (auto simp: appendDirect_def)
  have dur: "durable s3 loc ?rec" using seg_durable.append_has [OF app n2(1)] .
  have d3: "dio (sdisk s3) = []" using h2 by (simp add: s3)
  obtain g3 where g3: "dlookup (sdisk s3) ?n = Some g3" "fdata g3 = enc_recs rs @ ?ft @ ?rec"
    using k off2 len by (simp add: s3 n2(3) file_write_def write_footer_bytes)
  have o3: "dlookup (sdisk s3) m = dlookup (sdisk s2) m" if "m \<noteq> ?n" for m
    using that n2(3) by (simp add: s3)
  have a3: "\<forall>j>activeID s. dlookup (sdisk s3) (segmentPath j) = None"
    using n2(1,3) o3 by (auto simp: sm_inv_def)
  have t3: "tidy (sdisk s3)"
    using n2(9) tidy_cong [of "sdisk s2" "sdisk s3"] o3 g3(1) k(1) n2(3) by (metis active_dfile_def option.distinct(1))
  obtain s4 where new4: "NewSegmentManager maxSize (sdisk s3) = (Inr (), s4)"
    using NewSegmentManager_ok [OF d3] by blast
  note n4 = NewSegmentManager_newest [OF new4 t3 id0 g3(1) a3]
  have off4: "activeOffset s4 = activeOffset s + 32"
    using n4(5) valid_len_footer(1) [OF f(2) assms(7)] by (simp add: g3(2) len)
  then have "\<not> holds s4 loc ?rec"
    using loc n4(3) by (auto simp: holds_def stored_def)
  with close new2 app dur new4 off4 loc n4(3) show ?thesis by auto
qed

theorem reopened_segment_loses_record_witness:
  "\<exists>s1 s2 loc s3 s4.
     Close_segments (one_record 1000 MagicXML [7]) = (Inr (), s1) \<and>
     NewSegmentManager 1000 (sdisk s1) = (Inr (), s2) \<and>
     appendDirect (EncodeRecord MagicXML [8, 9]) s2 = (Inr loc, s3) \<and>
     NewSegmentManager 1000 (sdisk s3) = (Inr (), s4) \<and>
     \<not> holds s4 loc (EncodeRecord MagicXML [8, 9])"
proof -
  let ?s = "one_record 1000 MagicXML [7]"
  have v: "valid_rec (MagicXML, [7])" "valid_rec (MagicXML, [8, 9])"
    by (simp_all add: valid_rec_def KnownMagic_def)
  have "0 < activeOffset ?s" "unat (recordCount ?s) < 2 ^ 30"
    "int (activeOffset ?s + length [8 :: 8 word, 9] + 76) \<le> 1000"
    by (simp_all add: one_record_ok)
  from reopened_segment_loses_record [OF one_record_ok(1,2) one_record_ok(8) [OF v(1)] one_record_ok(3,9)
      this(1,2) v(2) this(3)]
  show ?thesis by blast
qed

text \<open>
  An append is placed at the start of a segment or so that the segment, its
  footer included, does not exceed the configured size.
\<close>

theorem append_within_segment_size:
  assumes "sm_inv s" and "appendLocked rec fsync s = (Inr loc, s')"
  shows "Offset loc = 0 \<or> Offset loc + Size loc + 32 \<le> maxSegmentSize s"
  using assms(2,1)
proof (cases rule: appendLocked_cases)
  case (ok s2 f g)
  from ok(2) assms(1) ok(3) show ?thesis
    by (cases rule: rotateIfFull_step) (use ok(1) in auto)
qed auto

theorem append_within_segment_size_witness:
  "\<exists>loc s'. appendLocked (EncodeRecord MagicXML [8]) True (one_record 30 MagicXML [7]) = (Inr loc, s') \<and>
     (Offset loc = 0 \<or> Offset loc + Size loc + 32 \<le> maxSegmentSize (one_record 30 MagicXML [7]))"
proof -
  obtain loc s' where a: "appendLocked (EncodeRecord MagicXML [8]) True (one_record 30 MagicXML [7]) = (Inr loc, s')"
    using appendLocked_ok [OF one_record_ok(1-3)] by blast
  with append_within_segment_size [OF one_record_ok(1) a] show ?thesis by blast
qed

text \<open>
  C17 (error). Once a rotation has failed between closing the full segment and opening the next,
  or the manager was closed, no append is ever acknowledged again and nothing is written.
\<close>

theorem stopped_manager_rejects_appends:
  assumes "stopped s"
  shows "seg_durable.append_all recs s = ([], s)"
proof (induction recs)
  case (Cons rec recs)
  have "\<exists>e. appendDirect rec s = (Inl e, s)"
    using stopped_append [OF assms] by (simp add: appendDirect_def)
  with Cons show ?case by auto
qed simp

theorem stopped_manager_rejects_appends_witness:
  "seg_durable.append_all [EncodeRecord MagicXML [7]] (close_active (fresh_manager 1000))
     = ([], close_active (fresh_manager 1000))"
  using stopped_manager_rejects_appends [of "close_active (fresh_manager 1000)"]
  by (simp add: stopped_def close_active_def)

text \<open>
  C16 (safety). With checksum verification on, a record of which one payload byte has
  changed on disk is never returned by a read.
\<close>

theorem corrupt_byte_not_returned:
  assumes "verifyChecksum s" and "dlookup (sdisk s) (segmentPath i) = Some f" and "a \<noteq> b"
    and "length (xs @ a # ys) < 2 ^ 32"
    and "drop off (fdata f) = take 8 (EncodeRecord m (xs @ a # ys)) @ (xs @ b # ys)
           @ PutUint32 (RecordChecksum (xs @ a # ys)) @ rest"
  shows "\<exists>e. fst (ReadRecord i (int off) s) = Inl e"
proof (cases "ReadRecord i (int off) s")
  case (Pair r s')
  let ?p = "xs @ a # ys" and ?q = "xs @ b # ys"
  have len: "unat (of_nat (length ?p) :: u32) = length ?q" using unat_length_u32 [OF assms(4)] by simp
  have sub: "subslice (off + k) (off + l) (fdata f) = subslice k l (drop off (fdata f))" for k l
    by simp
  have hdr: "DecodeRecordHeader (subslice off (off + 8) (fdata f)) = Inr (m, of_nat (length ?p))"
    using sub [of 0 8] assms(5) DecodeRecordHeader_take8 [of "EncodeRecord m ?p"]
      DecodeRecordHeader_EncodeRecord [of m ?p "[]"] by (simp add: min_absorb1)
  have pay: "subslice (off + 8) (off + 8 + length ?q) (fdata f) = ?q"
    using sub [of 8 "8 + length ?q"] unfolding assms(5) by (simp add: subslice_def add.assoc)
  have crc: "subslice (off + 8 + length ?q) (off + 8 + length ?q + 4) (fdata f) = PutUint32 (RecordChecksum ?p)"
    using sub [of "8 + length ?q" "8 + length ?q + 4"] unfolding assms(5)
    by (simp add: subslice_def add.assoc add.left_commute)
  have "False" if rr: "r = Inr (m', q)" for m' q
  proof -
    obtain sz where sz: "DecodeRecordHeader (subslice off (off + 8) (fdata f)) = Inr (m', sz)"
      "q = subslice (off + 8) (off + 8 + unat sz) (fdata f)"
      "RecordChecksum q = Uint32 (subslice (off + 8 + unat sz) (off + 8 + unat sz + 4) (fdata f))"
      using ReadRecord_Inr [OF Pair [unfolded rr] assms(2)] assms(1) unfolding nat_int by blast
    have "sz = of_nat (length ?p)" using sz(1) unfolding hdr by simp
    then have usz: "unat sz = length ?q" using len by blast
    have "RecordChecksum ?q = RecordChecksum ?p" using sz(2,3) unfolding usz pay crc by simp
    with assms(3) show False using RecordChecksum_one_byte [of xs b ys a] by simp
  qed
  with Pair show ?thesis by (cases r) auto
qed

theorem corrupt_byte_not_returned_witness:
  "\<exists>e. fst (ReadRecord 0 0 ((fresh_manager 1000)\<lparr>sdisk :=
      \<lparr>dfiles = [(segmentPath 0, \<lparr>fdata = take 8 (EncodeRecord MagicXML [7]) @ [6] @ PutUint32 (RecordChecksum [7]),
                                 fsynced = 0, fmtime = 0\<rparr>)], dio = []\<rparr>\<rparr>)) = Inl e"
  using corrupt_byte_not_returned [of "(fresh_manager 1000)\<lparr>sdisk :=
      \<lparr>dfiles = [(segmentPath 0, \<lparr>fdata = take 8 (EncodeRecord MagicXML [7]) @ [6] @ PutUint32 (RecordChecksum [7]),
                                 fsynced = 0, fmtime = 0\<rparr>)], dio = []\<rparr>\<rparr>" 0
      "\<lparr>fdata = take 8 (EncodeRecord MagicXML [7]) @ [6] @ PutUint32 (RecordChecksum [7]), fsynced = 0, fmtime = 0\<rparr>"
      7 6 "[]" "[]" 0 MagicXML "[]"]
  by simp

text \<open>
  On a disk that does not fail, an open manager accepts every append, with
  rotation where it is due.
\<close>

theorem append_accepted_on_healthy_disk:
  assumes "sm_inv s" and "live s" and "healthy s"
  shows "\<exists>loc s'. appendLocked rec fsync s = (Inr loc, s') \<and> sm_inv s' \<and> live s' \<and> healthy s'
           \<and> holds s' loc rec"
proof -
  obtain loc s' where a: "appendLocked rec fsync s = (Inr loc, s')" "healthy s'"
    using appendLocked_ok [OF assms] by blast
  obtain g where "stored s' loc rec g" using appendLocked_stored [OF a(1) assms(1)] .
  moreover have "live s'" using a(1) assms(1) by (cases rule: appendLocked_cases) auto
  ultimately show ?thesis using a appendLocked_keeps(2) [OF a(1) assms(1)] by (auto simp: holds_def)
qed

theorem append_accepted_on_healthy_disk_witness:
  "\<exists>loc s'. appendLocked (EncodeRecord MagicXML [7]) False (fresh_manager 1000) = (Inr loc, s') \<and> healthy s'"
  using append_accepted_on_healthy_disk [of "fresh_manager 1000" "EncodeRecord MagicXML [7]" False] by auto

subsection \<open>Empty records\<close>

lemma append_in_place:
  assumes "sm_inv s" and "live s" and "healthy s" and "tidy (sdisk s)"
    and "active_dfile s = Some k" and "take (activeOffset s) (fdata k) = pre"
    and "int (activeOffset s + length rec + 32) \<le> maxSegmentSize s"
  obtains loc s' k' where "appendDirect rec s = (Inr loc, s')" and "SegmentID loc = activeID s"
    and "Offset loc = int (activeOffset s)" and "sm_inv s'" and "live s'" and "healthy s'" and "tidy (sdisk s')"
    and "activeID s' = activeID s" and "activeOffset s' = activeOffset s + length rec"
    and "maxSegmentSize s' = maxSegmentSize s" and "active_dfile s' = Some k'"
    and "take (activeOffset s') (fdata k') = pre @ rec"
proof -
  let ?n = "segmentPath (activeID s)"
  let ?s' = "(put_synced (activeOffset s) rec k s)\<lparr>activeOffset := activeOffset s + length rec, recordCount := recordCount s + 1\<rparr>"
  let ?k' = "(file_write (activeOffset s) rec k)\<lparr>fsynced := length (write_bytes (activeOffset s) rec (fdata k))\<rparr>"
  have rot: "rotateIfFull rec s = (Inr (), s)"
    using assms(7) by (simp add: rotateIfFull_def)
  have act: "activeFile s \<noteq> None" using assms(2) by (simp add: live_def)
  have app: "appendDirect rec s = (Inr \<lparr>SegmentID = activeID s, Offset = int (activeOffset s), Size = int (length rec)\<rparr>, ?s')"
    using append_no_rotation_ok(1) [OF assms(2,3,5) rot act] by (simp add: appendDirect_def)
  have fo: "activeOffset s \<le> length (fdata k)" using assms(1,2,5) live_not_stopped by (auto simp: sm_inv_def)
  have af: "active_dfile ?s' = Some ?k'" by (simp add: active_dfile_def)
  have tk: "take (activeOffset ?s') (fdata ?k') = pre @ rec"
    using fo assms(6) by (auto simp: file_write_def write_footer_bytes)
  have "tidy (sdisk ?s')"
    using assms(4,5) tidy_cong [of "sdisk s" "sdisk ?s'"] by (auto simp: active_dfile_def)
  moreover have "maxSegmentSize ?s' = maxSegmentSize s" by (simp add: put_synced_def)
  ultimately show ?thesis
    by (intro that [OF app _ _ seg_durable.append_inv [OF app assms(1)] _ _ _ _ _ _ af tk])
      (use assms in \<open>simp_all add: live_def put_synced_def\<close>)
qed

text \<open>A header with payload size 0 ends the run of records recovery looks for.\<close>

lemma next_record_empty: "next_record (EncodeRecord m [] @ rest) = None"
  by (simp add: next_record_def Let_def)

lemma restart_cuts:
  assumes "sm_inv s" and "live s" and "healthy s" and "tidy (sdisk s)" and "active_dfile s = Some k"
    and "fdata k = enc_recs rs @ rest" and "\<And>r. r \<in> set rs \<Longrightarrow> valid_rec r" and "next_record rest = None"
  obtains s' where "NewSegmentManager maxSize (sdisk s) = (Inr (), s')" and "activeID s' = activeID s"
    and "activeOffset s' \<le> length (enc_recs rs) + 32"
proof -
  obtain s' where new: "NewSegmentManager maxSize (sdisk s) = (Inr (), s')"
    using NewSegmentManager_ok [OF assms(3)] by blast
  have a: "dlookup (sdisk s) (segmentPath (activeID s)) = Some k" using assms(5) by (simp add: active_dfile_def)
  have "0 \<le> activeID s" "\<forall>j>activeID s. dlookup (sdisk s) (segmentPath j) = None" using assms(1) by (auto simp: sm_inv_def)
  note n = NewSegmentManager_newest [OF new assms(4) this(1) a this(2)]
  have "activeOffset s' \<le> length (enc_recs rs) + 32"
    using n(5) valid_len_recs(1) [OF assms(7,8)] by (simp add: assms(6) split: if_splits)
  with new n(3) show ?thesis by (rule that)
qed

text \<open>
  C14 (safety, a violation). Recovery takes a record of an empty payload for the end of the
  segment. After such a record was stored (an empty member of a zip archive is), records appended
  behind it are acknowledged and durable, and the next start cuts them off.
\<close>

theorem empty_record_loses_later_records:
  assumes "sm_inv s" and "live s" and "clean s" and "healthy s" and "tidy (sdisk s)"
    and "8 < length p" and "int (activeOffset s + length p + 76) \<le> maxSegmentSize s"
  shows "\<exists>loc0 s1 loc s2 s3.
     appendDirect (EncodeRecord m0 []) s = (Inr loc0, s1) \<and>
     appendDirect (EncodeRecord m p) s1 = (Inr loc, s2) \<and>
     durable s2 loc (EncodeRecord m p) \<and>
     NewSegmentManager maxSize (sdisk s2) = (Inr (), s3) \<and>
     \<not> holds s3 loc (EncodeRecord m p)"
proof -
  obtain f rs where f: "active_dfile s = Some f" "\<And>r. r \<in> set rs \<Longrightarrow> valid_rec r"
     "take (activeOffset s) (fdata f) = enc_recs rs"
    using assms(2,3) by (auto simp: clean_def)
  have fo: "activeOffset s \<le> length (fdata f)" using assms(1,2) f(1) live_not_stopped by (auto simp: sm_inv_def)
  then have len: "length (enc_recs rs) = activeOffset s" using arg_cong [OF f(3), of length] by simp
  obtain loc0 s1 k1 where e: "appendDirect (EncodeRecord m0 []) s = (Inr loc0, s1)"
    and s1: "sm_inv s1" "live s1" "healthy s1" "tidy (sdisk s1)" "active_dfile s1 = Some k1"
      "take (activeOffset s1) (fdata k1) = enc_recs rs @ EncodeRecord m0 []"
    and o1: "activeID s1 = activeID s" "activeOffset s1 = activeOffset s + 12" "maxSegmentSize s1 = maxSegmentSize s"
    by (rule append_in_place [OF assms(1,2,4,5) f(1,3), of "EncodeRecord m0 []"]) (use assms(7) in auto)
  obtain loc s2 k2 where a: "appendDirect (EncodeRecord m p) s1 = (Inr loc, s2)" "Offset loc = int (activeOffset s1)"
      "SegmentID loc = activeID s1"
    and s2: "sm_inv s2" "live s2" "healthy s2" "tidy (sdisk s2)" "active_dfile s2 = Some k2"
      "take (activeOffset s2) (fdata k2) = (enc_recs rs @ EncodeRecord m0 []) @ EncodeRecord m p"
    and o2: "activeID s2 = activeID s1"
    by (rule append_in_place [OF s1, of "EncodeRecord m p"]) (use assms(7) o1 in auto)
  have "fdata k2 = enc_recs rs @ EncodeRecord m0 [] @ EncodeRecord m p @ drop (activeOffset s2) (fdata k2)"
    using append_take_drop_id [of "activeOffset s2" "fdata k2"] s2(6) by (metis append.assoc)
  then obtain s3 where s3: "NewSegmentManager maxSize (sdisk s2) = (Inr (), s3)" "activeID s3 = activeID s2"
      "activeOffset s3 \<le> length (enc_recs rs) + 32"
    by (rule restart_cuts [OF s2(1-5) _ f(2) next_record_empty])
  have "\<not> holds s3 loc (EncodeRecord m p)"
    using s3 a o1 o2 len assms(6) by (auto simp: holds_def stored_def)
  with e a(1) s3(1) seg_durable.append_has [OF a(1) s1(1)] show ?thesis by blast
qed

theorem empty_record_loses_later_records_witness:
  "\<exists>loc0 s1 loc s2 s3.
     appendDirect (EncodeRecord MagicXML []) (fresh_manager 1000) = (Inr loc0, s1) \<and>
     appendDirect (EncodeRecord MagicXML (replicate 9 7)) s1 = (Inr loc, s2) \<and>
     durable s2 loc (EncodeRecord MagicXML (replicate 9 7)) \<and>
     NewSegmentManager 1000 (sdisk s2) = (Inr (), s3) \<and>
     \<not> holds s3 loc (EncodeRecord MagicXML (replicate 9 7))"
proof -
  have "tidy (sdisk (fresh_manager 1000))"
    using sscanf_segmentPath [of 0] by (auto simp: tidy_def split: if_splits)
  from empty_record_loses_later_records [OF fresh_manager_ok(1,2,4,3) this, of "replicate 9 7" MagicXML MagicXML 1000]
  show ?thesis by simp
qed

end
