(* ===== verification/Write_Buffer.thy ===== *)
theory Write_Buffer
  imports Segment_Props
begin

text \<open>
  The write buffer (\<^verbatim>\<open>internal/storage/write_buffer.go\<close>) and the entry point
  \<^verbatim>\<open>SegmentManager.Append\<close>. Callers run concurrently: the state keeps the queue, the batches
  taken from it that are still being written, what each caller's channel holds and what each
  caller returned, and a step relation interleaves the critical sections. Each caller is
  known by a ticket. \<^verbatim>\<open>batchAppend\<close> does not panic, so the recover branch of \<^verbatim>\<open>Flush\<close> is
  not reached.
\<close>

type_synonym ticket = nat

datatype flush_loop = LoopIdle | LoopWriting ticket | LoopExited

text \<open>
  The goroutine of \<^verbatim>\<open>flushLoop\<close> waits, is inside \<^verbatim>\<open>Flush\<close> with the batch that holds the given
  ticket, or has returned, which is what \<^verbatim>\<open>wg.Wait\<close> waits for. The other batches in flight belong
  to callers that flush from \<^verbatim>\<open>Append\<close>.
\<close>

record WriteBuffer =
  wb_maxSize :: int
  wb_pending :: "(ticket \<times> pendingWrite) list"
  wb_bufSize :: int
  wb_inflight :: "(ticket \<times> pendingWrite) list list"
  wb_done :: "ticket \<rightharpoonup> pendingWrite"
  wb_returned :: "ticket \<rightharpoonup> error + Location"
  wb_next :: ticket
  wb_loop :: flush_loop
  wb_stop :: bool
  wb_segments :: SegmentManager

definition NewWriteBuffer :: "SegmentManager \<Rightarrow> int \<Rightarrow> WriteBuffer" where
  "NewWriteBuffer sm maxSize =
     \<lparr>wb_maxSize = maxSize, wb_pending = [], wb_bufSize = 0, wb_inflight = [], wb_done = Map.empty,
      wb_returned = Map.empty, wb_next = 0, wb_loop = LoopIdle, wb_stop = False, wb_segments = sm\<rparr>"

definition no_location :: Location where
  "no_location = \<lparr>SegmentID = 0, Offset = 0, Size = 0\<rparr>"

definition new_pending :: "bytes \<Rightarrow> pendingWrite" where
  "new_pending rec = \<lparr>pw_record = rec, pw_loc = no_location, pw_err = None\<rparr>"

subsection \<open>The critical sections\<close>

text \<open>The first part of \<open>Append\<close>, under the mutex: enqueue, and say whether to flush.\<close>

definition wb_enqueue :: "bytes \<Rightarrow> WriteBuffer \<Rightarrow> bool \<times> WriteBuffer" where
  "wb_enqueue rec wb =
     (let size' = wb_bufSize wb + int (length rec)
      in (size' \<ge> wb_maxSize wb,
          wb\<lparr>wb_pending := wb_pending wb @ [(wb_next wb, new_pending rec)], wb_bufSize := size',
             wb_next := Suc (wb_next wb)\<rparr>))"

text \<open>\<open>Flush\<close>, under the mutex: take the queue as a batch.\<close>

definition wb_take :: "WriteBuffer \<Rightarrow> WriteBuffer" where
  "wb_take wb = (if wb_pending wb = [] then wb
     else wb\<lparr>wb_inflight := wb_inflight wb @ [wb_pending wb], wb_pending := [], wb_bufSize := 0\<rparr>)"

text \<open>The flush loop on a tick of its timer: its \<open>Flush\<close> takes the queue.\<close>

definition wb_tick :: "WriteBuffer \<Rightarrow> WriteBuffer" where
  "wb_tick wb = (case wb_pending wb of [] \<Rightarrow> wb | e # _ \<Rightarrow> (wb_take wb)\<lparr>wb_loop := LoopWriting (fst e)\<rparr>)"

text \<open>
  \<open>Flush\<close> outside the mutex: write a batch and send every entry its outcome. When it was the
  loop's batch, the loop goes back to waiting.
\<close>

definition loop_writes :: "WriteBuffer \<Rightarrow> (ticket \<times> pendingWrite) list \<Rightarrow> bool" where
  "loop_writes wb batch = (case wb_loop wb of LoopWriting t \<Rightarrow> t \<in> fst ` set batch | _ \<Rightarrow> False)"

definition wb_write :: "nat \<Rightarrow> WriteBuffer \<Rightarrow> WriteBuffer" where
  "wb_write k wb =
     (let batch = wb_inflight wb ! k
      in case batchAppend (map snd batch) (wb_segments wb) of (batch', sm') \<Rightarrow>
           wb\<lparr>wb_inflight := take k (wb_inflight wb) @ drop (Suc k) (wb_inflight wb),
              wb_segments := sm',
              wb_loop := (if loop_writes wb batch then LoopIdle else wb_loop wb),
              wb_done := wb_done wb ++ map_of (zip (map fst batch) batch')\<rparr>)"

text \<open>The end of \<open>Append\<close>: the outcome of the channel, or the cancelled context.\<close>

definition wb_outcome :: "pendingWrite \<Rightarrow> error + Location" where
  "wb_outcome pw = (case pw_err pw of Some e \<Rightarrow> Inl e | None \<Rightarrow> Inr (pw_loc pw))"

definition wb_receive :: "ticket \<Rightarrow> WriteBuffer \<Rightarrow> WriteBuffer" where
  "wb_receive t wb = (case wb_done wb t of None \<Rightarrow> wb
     | Some pw \<Rightarrow> wb\<lparr>wb_returned := (wb_returned wb)(t \<mapsto> wb_outcome pw)\<rparr>)"

definition wb_cancel :: "ticket \<Rightarrow> error \<Rightarrow> WriteBuffer \<Rightarrow> WriteBuffer" where
  "wb_cancel t e wb = wb\<lparr>wb_returned := (wb_returned wb)(t \<mapsto> Inl e)\<rparr>"

definition wb_flush :: "WriteBuffer \<Rightarrow> WriteBuffer" where
  "wb_flush wb = (if wb_pending wb = [] then wb else wb_write (length (wb_inflight wb)) (wb_take wb))"

text \<open>
  The loop's end: \<^verbatim>\<open>Close\<close> closes the channel \<^verbatim>\<open>stop\<close>; \<^verbatim>\<open>wg.Wait\<close> returns once the loop, after
  finishing the batch it is writing, has returned; then \<^verbatim>\<open>Close\<close> flushes what is left.
\<close>

definition wb_close_stop :: "WriteBuffer \<Rightarrow> WriteBuffer" where
  "wb_close_stop wb = wb\<lparr>wb_stop := True\<rparr>"

definition wb_loop_exit :: "WriteBuffer \<Rightarrow> WriteBuffer" where
  "wb_loop_exit wb = wb\<lparr>wb_loop := LoopExited\<rparr>"

definition wb_wait :: "WriteBuffer \<Rightarrow> WriteBuffer" where
  "wb_wait wb = (case find (\<lambda>k. loop_writes wb (wb_inflight wb ! k)) [0..<length (wb_inflight wb)] of
       None \<Rightarrow> wb_loop_exit wb
     | Some k \<Rightarrow> wb_loop_exit (wb_write k wb))"

definition wb_close :: "WriteBuffer \<Rightarrow> WriteBuffer" where
  "wb_close wb = wb_flush (wb_wait (wb_close_stop wb))"

text \<open>
  \<^verbatim>\<open>SegmentManager.Append\<close> for a caller that is alone: directly, or through the buffer, where
  its record is the only one of the batch that the size limit or the ticker flushes.
\<close>

definition wb_append_alone :: "bytes \<Rightarrow> SegmentManager \<Rightarrow> (SegmentManager, Location) result" where
  "wb_append_alone rec sm =
     (let wb = wb_flush (snd (wb_enqueue rec (NewWriteBuffer sm 0)))
      in (case wb_done wb 0 of None \<Rightarrow> Inl (Err ''not flushed'') | Some pw \<Rightarrow> wb_outcome pw, wb_segments wb))"

definition Append_segments :: "bool \<Rightarrow> bytes \<Rightarrow> SegmentManager \<Rightarrow> (SegmentManager, Location) result" where
  "Append_segments buffered rec sm = (if buffered then wb_append_alone rec sm else appendDirect rec sm)"

subsection \<open>Interleavings\<close>

inductive wb_step :: "WriteBuffer \<Rightarrow> WriteBuffer \<Rightarrow> bool" where
  enqueue: "wb_step wb (snd (wb_enqueue rec wb))"
| taken: "wb_step wb (wb_take wb)"
| ticked: "wb_loop wb = LoopIdle \<Longrightarrow> wb_step wb (wb_tick wb)"
| stopped: "wb_step wb (wb_close_stop wb)"
| exited: "wb_stop wb \<Longrightarrow> wb_loop wb = LoopIdle \<Longrightarrow> wb_step wb (wb_loop_exit wb)"
| written: "k < length (wb_inflight wb) \<Longrightarrow> wb_step wb (wb_write k wb)"
| received: "wb_done wb t \<noteq> None \<Longrightarrow> wb_returned wb t = None \<Longrightarrow> wb_step wb (wb_receive t wb)"
| cancelled: "t < wb_next wb \<Longrightarrow> wb_returned wb t = None \<Longrightarrow> wb_step wb (wb_cancel t e wb)"

inductive wb_reach :: "WriteBuffer \<Rightarrow> WriteBuffer \<Rightarrow> bool" where
  start: "wb_reach wb wb"
| next_step: "wb_reach wb wb1 \<Longrightarrow> wb_step wb1 wb2 \<Longrightarrow> wb_reach wb wb2"

subsection \<open>Invariant\<close>

text \<open>
  Every ticket given out is in the queue, in exactly one batch, or answered; the size counter
  is the size of the queue; the batch the loop writes is in flight; entries not yet written carry no error; an answer without an error
  names a durable record, and a caller was told what its channel held or was cancelled.
\<close>

definition wb_tickets :: "WriteBuffer \<Rightarrow> ticket list" where
  "wb_tickets wb = map fst (wb_pending wb) @ map fst (concat (wb_inflight wb))"

definition wb_ids :: "WriteBuffer \<Rightarrow> bool" where
  "wb_ids wb \<longleftrightarrow> distinct (wb_tickets wb) \<and> set (wb_tickets wb) \<inter> dom (wb_done wb) = {}
     \<and> set (wb_tickets wb) \<union> dom (wb_done wb) = {..<wb_next wb}"

definition wb_fresh :: "WriteBuffer \<Rightarrow> bool" where
  "wb_fresh wb \<longleftrightarrow> wb_bufSize wb = (\<Sum>pw\<leftarrow>map snd (wb_pending wb). int (length (pw_record pw)))
     \<and> (\<forall>pw\<in>set (map snd (wb_pending wb @ concat (wb_inflight wb))). pw_err pw = None)"

definition wb_answers :: "WriteBuffer \<Rightarrow> bool" where
  "wb_answers wb \<longleftrightarrow> sm_inv (wb_segments wb)
     \<and> (\<forall>t pw. wb_done wb t = Some pw \<longrightarrow> pw_err pw = None \<longrightarrow>
          durable (wb_segments wb) (pw_loc pw) (pw_record pw))
     \<and> (\<forall>t loc. wb_returned wb t = Some (Inr loc) \<longrightarrow>
          (\<exists>pw. wb_done wb t = Some pw \<and> pw_err pw = None \<and> pw_loc pw = loc))"

definition wb_looping :: "WriteBuffer \<Rightarrow> bool" where
  "wb_looping wb \<longleftrightarrow> (\<forall>t. wb_loop wb = LoopWriting t \<longrightarrow> t \<in> fst ` set (concat (wb_inflight wb)))"

definition wb_inv :: "WriteBuffer \<Rightarrow> bool" where
  "wb_inv wb \<longleftrightarrow> wb_ids wb \<and> wb_fresh wb \<and> wb_looping wb \<and> wb_answers wb"

lemma wb_inv_new: "sm_inv sm \<Longrightarrow> wb_inv (NewWriteBuffer sm n)"
  by (simp add: wb_inv_def wb_ids_def wb_fresh_def wb_looping_def wb_answers_def NewWriteBuffer_def wb_tickets_def)

lemma wb_tickets_enqueue:
  "set (wb_tickets (snd (wb_enqueue rec wb))) = insert (wb_next wb) (set (wb_tickets wb))"
  "distinct (wb_tickets (snd (wb_enqueue rec wb))) \<longleftrightarrow>
     wb_next wb \<notin> set (wb_tickets wb) \<and> distinct (wb_tickets wb)"
  by (auto simp: wb_tickets_def wb_enqueue_def Let_def)

lemma wb_inv_enqueue:
  assumes "wb_inv wb" shows "wb_inv (snd (wb_enqueue rec wb))"
proof -
  have ids: "wb_ids wb" using assms by (simp add: wb_inv_def)
  have nx: "wb_next wb \<notin> set (wb_tickets wb)" "wb_next wb \<notin> dom (wb_done wb)"
    using ids unfolding wb_ids_def by (metis UnCI lessThan_iff less_irrefl)+
  have "wb_ids (snd (wb_enqueue rec wb))"
    using ids nx unfolding wb_ids_def wb_tickets_enqueue
    by (simp add: wb_enqueue_def Let_def lessThan_Suc)
  then show ?thesis
    using assms by (auto simp: wb_inv_def wb_fresh_def wb_looping_def wb_answers_def wb_enqueue_def Let_def new_pending_def)
qed

lemma wb_inv_take:
  assumes "wb_inv wb" shows "wb_inv (wb_take wb)"
proof -
  have "set (wb_tickets (wb_take wb)) = set (wb_tickets wb)"
    "distinct (wb_tickets (wb_take wb)) = distinct (wb_tickets wb)"
    by (auto simp: wb_tickets_def wb_take_def)
  moreover have "wb_done (wb_take wb) = wb_done wb" "wb_next (wb_take wb) = wb_next wb"
    by (auto simp: wb_take_def)
  ultimately have "wb_ids (wb_take wb)" using assms by (simp add: wb_inv_def wb_ids_def)
  then show ?thesis
    using assms by (cases "wb_pending wb = []") (simp_all add: wb_inv_def wb_fresh_def wb_looping_def wb_answers_def wb_take_def ball_Un image_Un)
qed

lemma wb_inv_receive:
  assumes "wb_inv wb" shows "wb_inv (wb_receive t wb)"
proof (cases "wb_done wb t")
  case (Some pw)
  have "\<exists>pw. wb_done wb u = Some pw \<and> pw_err pw = None \<and> pw_loc pw = loc"
    if "wb_returned (wb_receive t wb) u = Some (Inr loc)" for u loc
    using that assms Some
    by (cases "u = t") (simp_all add: wb_receive_def wb_outcome_def wb_inv_def wb_answers_def split: option.splits)
  then show ?thesis
    using assms Some by (simp add: wb_inv_def wb_ids_def wb_fresh_def wb_looping_def wb_answers_def wb_receive_def wb_tickets_def)
qed (simp add: wb_receive_def assms)

lemma wb_inv_cancel: "wb_inv wb \<Longrightarrow> wb_inv (wb_cancel t e wb)"
  by (auto simp: wb_inv_def wb_ids_def wb_fresh_def wb_looping_def wb_answers_def wb_cancel_def wb_tickets_def)

lemma map_of_zip_Some:
  assumes "distinct ks" and "length ks = length vs" and "map_of (zip ks vs) k = Some v"
  obtains i where "i < length ks" "ks ! i = k" "vs ! i = v"
  using assms by (metis in_set_zip map_of_SomeD fst_conv snd_conv)

lemma move_answered:
  assumes "T = T' \<union> B" and "T' \<inter> B = {}" and "T \<inter> D = {}" and "T \<union> D = N"
  shows "T' \<inter> (D \<union> B) = {}" and "T' \<union> (D \<union> B) = N"
  using assms by blast+

text \<open>What writing a batch of the buffer yields.\<close>

lemma wb_batch:
  assumes "wb_inv wb" and k: "k < length (wb_inflight wb)"
    and ba: "batchAppend (map snd (wb_inflight wb ! k)) (wb_segments wb) = (b', sm')"
  shows "list_all2 (\<lambda>pw pw'. pw_record pw' = pw_record pw \<and>
           (pw_err pw' = None \<longrightarrow> durable sm' (pw_loc pw') (pw_record pw))) (map snd (wb_inflight wb ! k)) b'"
    and "sm_inv sm'" and "keeps (wb_segments wb) sm'" and "length b' = length (wb_inflight wb ! k)"
    and "distinct (map fst (wb_inflight wb ! k))"
    and "wb_tickets wb = map fst (wb_pending wb) @ map fst (concat (take k (wb_inflight wb)))
      @ map fst (wb_inflight wb ! k) @ map fst (concat (drop (Suc k) (wb_inflight wb)))"
proof -
  let ?b = "wb_inflight wb ! k"
  have "\<forall>pw\<in>set (map snd (wb_pending wb @ concat (wb_inflight wb))). pw_err pw = None"
    using assms(1) unfolding wb_inv_def wb_fresh_def by blast
  moreover have "set ?b \<subseteq> set (concat (wb_inflight wb))"
    using UN_upper [OF nth_mem [OF k], of set] by simp
  ultimately have errs: "\<forall>pw\<in>set (map snd ?b). pw_err pw = None"
    by (auto simp: image_iff simp del: set_concat)
  have smi: "sm_inv (wb_segments wb)" using assms(1) by (simp add: wb_inv_def wb_answers_def)
  note d = batchAppend_durable_all [OF ba smi errs]
  show "list_all2 (\<lambda>pw pw'. pw_record pw' = pw_record pw \<and>
           (pw_err pw' = None \<longrightarrow> durable sm' (pw_loc pw') (pw_record pw))) (map snd ?b) b'"
    and "sm_inv sm'" and "keeps (wb_segments wb) sm'" by (rule d)+
  show "length b' = length ?b" using list_all2_lengthD [OF d(1)] by simp
  show t1: "wb_tickets wb = map fst (wb_pending wb) @ map fst (concat (take k (wb_inflight wb)))
      @ map fst ?b @ map fst (concat (drop (Suc k) (wb_inflight wb)))"
    using arg_cong [OF id_take_nth_drop [OF k], of "\<lambda>x. map fst (concat x)"] by (simp add: wb_tickets_def)
  show "distinct (map fst ?b)"
    using assms(1) unfolding wb_inv_def wb_ids_def t1 distinct_append by blast
qed

lemma in_set_remove_nth:
  assumes "x \<in> set xs" and "x \<noteq> xs ! k" shows "x \<in> set (take k xs @ drop (Suc k) xs)"
proof (cases "k < length xs")
  case True
  with assms show ?thesis using id_take_nth_drop [OF True] by (metis Un_iff set_ConsD set_append)
qed (use assms in simp)

lemma wb_write_fields:
  "wb_inflight (wb_write k wb) = take k (wb_inflight wb) @ drop (Suc k) (wb_inflight wb)"
  "wb_pending (wb_write k wb) = wb_pending wb" "wb_next (wb_write k wb) = wb_next wb"
  "wb_loop (wb_write k wb) = (if loop_writes wb (wb_inflight wb ! k) then LoopIdle else wb_loop wb)"
  by (simp_all add: wb_write_def Let_def split: prod.splits)

lemma wb_looping_write:
  assumes "wb_looping wb" and "k < length (wb_inflight wb)"
  shows "wb_looping (wb_write k wb)"
proof -
  let ?b = "wb_inflight wb ! k" and ?rest = "take k (wb_inflight wb) @ drop (Suc k) (wb_inflight wb)"
  have "t \<in> fst ` set (concat ?rest)" if l: "wb_loop wb = LoopWriting t" and n: "\<not> loop_writes wb ?b" for t
  proof -
    obtain b where "b \<in> set (wb_inflight wb)" "t \<in> fst ` set b"
      using assms(1) l by (auto simp: wb_looping_def)
    moreover have "b \<noteq> ?b" using l n calculation(2) by (auto simp: loop_writes_def)
    ultimately have "b \<in> set ?rest" using in_set_remove_nth by metis
    with \<open>t \<in> fst ` set b\<close> show ?thesis by auto
  qed
  then show ?thesis unfolding wb_looping_def wb_write_fields by auto
qed

lemma wb_inv_write:
  assumes "wb_inv wb" and k: "k < length (wb_inflight wb)"
  shows "wb_inv (wb_write k wb)"
proof -
  let ?b = "wb_inflight wb ! k" and ?rest = "take k (wb_inflight wb) @ drop (Suc k) (wb_inflight wb)"
  obtain b' sm' where ba: "batchAppend (map snd ?b) (wb_segments wb) = (b', sm')"
    by (cases "batchAppend (map snd ?b) (wb_segments wb)")
  have w: "wb_write k wb = wb\<lparr>wb_inflight := ?rest, wb_segments := sm', wb_loop := (if loop_writes wb ?b then LoopIdle else wb_loop wb),
      wb_done := wb_done wb ++ map_of (zip (map fst ?b) b')\<rparr>"
    by (simp add: wb_write_def Let_def ba)
  note d = wb_batch [OF assms ba]
  note len = d(4) and dn = d(5) and t1 = d(6)
  have t2: "wb_tickets (wb_write k wb) = map fst (wb_pending wb) @ map fst (concat (take k (wb_inflight wb)))
      @ map fst (concat (drop (Suc k) (wb_inflight wb)))"
    by (simp add: wb_tickets_def w)
  have tk: "set (wb_tickets wb) = set (wb_tickets (wb_write k wb)) \<union> fst ` set ?b"
    unfolding t1 t2 by (simp add: Un_assoc Un_commute Un_left_commute)
  have tk2: "distinct (wb_tickets wb) \<Longrightarrow> distinct (wb_tickets (wb_write k wb)) \<and>
       set (wb_tickets (wb_write k wb)) \<inter> fst ` set ?b = {}"
    unfolding t1 t2 by (simp add: Int_Un_distrib Int_Un_distrib2 Int_commute)
  have dd: "dom (wb_done (wb_write k wb)) = dom (wb_done wb) \<union> fst ` set ?b"
    using len by (simp add: w Un_commute)
  have ids: "wb_ids (wb_write k wb)"
  proof -
    have "wb_next (wb_write k wb) = wb_next wb" by (simp add: w)
    moreover have "distinct (wb_tickets wb)" "set (wb_tickets wb) \<inter> dom (wb_done wb) = {}"
      "set (wb_tickets wb) \<union> dom (wb_done wb) = {..<wb_next wb}"
      using assms(1) by (simp_all add: wb_inv_def wb_ids_def)
    ultimately show ?thesis
      using tk2 move_answered [OF tk] unfolding wb_ids_def dd by simp
  qed
  have fresh: "wb_fresh (wb_write k wb)"
  proof -
    have "set (concat ?rest) \<subseteq> set (concat (wb_inflight wb))"
      by (auto dest: in_set_takeD in_set_dropD)
    with assms(1) show ?thesis
      by (auto simp: wb_inv_def wb_fresh_def w image_iff simp del: set_concat concat_append)
  qed
  have looping: "wb_looping (wb_write k wb)" using wb_looping_write [OF _ k] assms(1) by (simp add: wb_inv_def)
  have new: "durable sm' (pw_loc pw) (pw_record pw)"
    if mo: "map_of (zip (map fst ?b) b') t = Some pw" and no: "pw_err pw = None" for t pw
  proof -
    have "length (map fst ?b) = length b'" using len by simp
    from map_of_zip_Some [OF dn this mo] obtain i where "i < length ?b" "b' ! i = pw" by auto
    with d(1) no len show ?thesis by (auto simp: list_all2_conv_all_nth)
  qed
  have old: "durable sm' (pw_loc pw) (pw_record pw)"
    if "wb_done wb t = Some pw" "pw_err pw = None" for t pw
    using assms(1) that keeps_durable [OF d(3)] by (simp add: wb_inv_def wb_answers_def)
  have keep: "wb_done (wb_write k wb) t = Some pw" if "wb_done wb t = Some pw" for t pw
  proof -
    have "t \<notin> fst ` set ?b"
      using assms(1) tk that unfolding wb_inv_def wb_ids_def by blast
    then have "map_of (zip (map fst ?b) b') t = None" using len by (simp add: map_of_zip_is_None)
    with that show ?thesis by (simp add: w map_add_def)
  qed
  have answers: "wb_answers (wb_write k wb)"
    unfolding wb_answers_def
  proof (intro conjI allI impI)
    show "sm_inv (wb_segments (wb_write k wb))" using d(2) by (simp add: w)
    show "durable (wb_segments (wb_write k wb)) (pw_loc pw) (pw_record pw)"
      if "wb_done (wb_write k wb) t = Some pw" "pw_err pw = None" for t pw
      using that new old by (auto simp: w map_add_Some_iff)
    show "\<exists>pw. wb_done (wb_write k wb) t = Some pw \<and> pw_err pw = None \<and> pw_loc pw = loc"
      if "wb_returned (wb_write k wb) t = Some (Inr loc)" for t loc
    proof -
      have "wb_returned wb t = Some (Inr loc)" using that by (simp add: w)
      with assms(1) show ?thesis using keep unfolding wb_inv_def wb_answers_def by blast
    qed
  qed
  show ?thesis using ids fresh looping answers by (simp add: wb_inv_def)
qed

lemma wb_inv_loop_writing:
  "wb_inv wb \<Longrightarrow> t \<in> fst ` set (concat (wb_inflight wb)) \<Longrightarrow> wb_inv (wb\<lparr>wb_loop := LoopWriting t\<rparr>)"
  by (simp add: wb_inv_def wb_ids_def wb_fresh_def wb_looping_def wb_answers_def wb_tickets_def)

lemma wb_inv_tick: "wb_inv wb \<Longrightarrow> wb_inv (wb_tick wb)"
  using wb_inv_take [of wb] wb_inv_loop_writing [of "wb_take wb"]
  by (auto simp: wb_tick_def wb_take_def split: list.splits)

lemma wb_inv_close_stop: "wb_inv wb \<Longrightarrow> wb_inv (wb_close_stop wb)"
  by (simp add: wb_close_stop_def wb_inv_def wb_ids_def wb_fresh_def wb_looping_def wb_answers_def wb_tickets_def)

lemma wb_inv_loop_exit: "wb_inv wb \<Longrightarrow> wb_inv (wb_loop_exit wb)"
  by (simp add: wb_loop_exit_def wb_inv_def wb_ids_def wb_fresh_def wb_looping_def wb_answers_def wb_tickets_def)

lemma wb_inv_step: "wb_step wb wb' \<Longrightarrow> wb_inv wb \<Longrightarrow> wb_inv wb'"
  by (cases rule: wb_step.cases)
    (auto intro: wb_inv_enqueue wb_inv_take wb_inv_tick wb_inv_close_stop wb_inv_loop_exit wb_inv_write wb_inv_receive wb_inv_cancel)

lemma wb_inv_reach: "wb_reach wb wb' \<Longrightarrow> wb_inv wb \<Longrightarrow> wb_inv wb'"
  by (induction rule: wb_reach.induct) (auto intro: wb_inv_step)

subsection \<open>Each ticket keeps its record\<close>

definition wb_carries :: "WriteBuffer \<Rightarrow> ticket \<Rightarrow> bytes \<Rightarrow> bool" where
  "wb_carries wb t rec \<longleftrightarrow> (\<exists>pw. pw_record pw = rec \<and>
     ((t, pw) \<in> set (wb_pending wb) \<or> (\<exists>b\<in>set (wb_inflight wb). (t, pw) \<in> set b) \<or> wb_done wb t = Some pw))"

lemma wb_carries_enqueue: "wb_carries (snd (wb_enqueue rec wb)) (wb_next wb) rec"
  by (force simp: wb_carries_def wb_enqueue_def Let_def new_pending_def)

lemma wb_write_done:
  assumes "wb_inv wb" and k: "k < length (wb_inflight wb)" and "(t, pw) \<in> set (wb_inflight wb ! k)"
  shows "\<exists>pw'. wb_done (wb_write k wb) t = Some pw' \<and> pw_record pw' = pw_record pw"
proof -
  let ?b = "wb_inflight wb ! k"
  obtain b' sm' where ba: "batchAppend (map snd ?b) (wb_segments wb) = (b', sm')"
    by (cases "batchAppend (map snd ?b) (wb_segments wb)")
  note d = wb_batch(1) [OF assms(1) k ba]
    and len = wb_batch(4) [OF assms(1) k ba] and dn = wb_batch(5) [OF assms(1) k ba]
  obtain i where i: "i < length ?b" "?b ! i = (t, pw)" using assms(3) by (auto simp: in_set_conv_nth)
  have "map_of (zip (map fst ?b) b') t = Some (b' ! i)"
    using map_of_zip_nth [of "map fst ?b" b' i] dn len i by simp
  moreover have "pw_record (b' ! i) = pw_record pw" using d i len by (auto simp: list_all2_conv_all_nth)
  ultimately show ?thesis by (auto simp: wb_write_def Let_def ba map_add_Some_iff)
qed

lemma wb_carries_step:
  assumes "wb_step wb wb'" and "wb_inv wb" and "wb_carries wb t rec"
  shows "wb_carries wb' t rec"
  using assms(1)
proof cases
  case (written k)
  obtain pw where pw: "pw_record pw = rec" and
    el: "(t, pw) \<in> set (wb_pending wb) \<or> (\<exists>b\<in>set (wb_inflight wb). (t, pw) \<in> set b) \<or> wb_done wb t = Some pw"
    using assms(3) by (auto simp: wb_carries_def)
  obtain b' sm' where ba: "batchAppend (map snd (wb_inflight wb ! k)) (wb_segments wb) = (b', sm')"
    by (cases "batchAppend (map snd (wb_inflight wb ! k)) (wb_segments wb)")
  have w: "wb_pending wb' = wb_pending wb"
      "wb_inflight wb' = take k (wb_inflight wb) @ drop (Suc k) (wb_inflight wb)"
      "wb_done wb' = wb_done wb ++ map_of (zip (map fst (wb_inflight wb ! k)) b')"
    by (simp_all add: written(1) wb_write_def Let_def ba)
  consider (batch) "(t, pw) \<in> set (wb_inflight wb ! k)" | (other) "(t, pw) \<notin> set (wb_inflight wb ! k)" by blast
  then show ?thesis
  proof cases
    case batch
    from wb_write_done [OF assms(2) written(2) this] pw show ?thesis
      by (auto simp: wb_carries_def written(1))
  next
    case other
    from el show ?thesis
    proof (elim disjE bexE)
      fix b assume "b \<in> set (wb_inflight wb)" "(t, pw) \<in> set b"
      with other in_set_remove_nth [of b "wb_inflight wb" k] pw show ?thesis
        unfolding wb_carries_def w by metis
    next
      assume ans: "wb_done wb t = Some pw"
      then have "t \<notin> set (wb_tickets wb)" using assms(2) by (auto simp: wb_inv_def wb_ids_def)
      then have "map_of (zip (map fst (wb_inflight wb ! k)) b') t = None"
        using wb_batch(4,6) [OF assms(2) written(2) ba] by (simp add: map_of_zip_is_None)
      with ans pw show ?thesis by (auto simp: wb_carries_def w map_add_def)
    qed (use pw in \<open>auto simp: wb_carries_def w\<close>)
  qed
qed (use assms(3) in \<open>auto simp: wb_carries_def wb_enqueue_def wb_take_def wb_tick_def wb_close_stop_def
       wb_loop_exit_def wb_receive_def wb_cancel_def Let_def split: option.splits list.splits\<close>)

lemma wb_carries_reach:
  "wb_reach wb wb' \<Longrightarrow> wb_inv wb \<Longrightarrow> wb_carries wb t rec \<Longrightarrow> wb_inv wb' \<and> wb_carries wb' t rec"
  by (induction rule: wb_reach.induct) (auto intro: wb_inv_step wb_carries_step)

lemma wb_returned_carried:
  assumes "wb_inv wb" and "wb_carries wb t rec" and "wb_returned wb t = Some (Inr loc)"
  shows "durable (wb_segments wb) loc rec"
proof -
  obtain pw where pw: "wb_done wb t = Some pw" "pw_err pw = None" "pw_loc pw = loc"
    using assms(1,3) unfolding wb_inv_def wb_answers_def by blast
  then have "t \<notin> set (wb_tickets wb)" using assms(1) by (auto simp: wb_inv_def wb_ids_def)
  then have "pw_record pw = rec"
    using assms(2) pw(1) by (force simp: wb_carries_def wb_tickets_def)
  with assms(1) pw show ?thesis unfolding wb_inv_def wb_answers_def by blast
qed

subsection \<open>Appending through the manager\<close>

lemma wb_append_alone_batch:
  "wb_append_alone rec sm =
     (case batchAppend [new_pending rec] sm of (b, sm') \<Rightarrow> (case b of [] \<Rightarrow> Inl (Err ''not flushed'') | pw # _ \<Rightarrow> wb_outcome pw, sm'))"
proof (cases "batchAppend [new_pending rec] sm")
  case (Pair b sm')
  then show ?thesis
    by (cases b) (simp_all add: wb_append_alone_def wb_flush_def wb_enqueue_def NewWriteBuffer_def wb_take_def
        wb_write_def Let_def)
qed

lemma wb_append_alone_durable:
  assumes "wb_append_alone rec sm = (r, sm')" and "sm_inv sm"
  shows "sm_inv sm'" and "keeps sm sm'" and "r = Inr loc \<Longrightarrow> durable sm' loc rec"
proof -
  obtain b sm1 where ba: "batchAppend [new_pending rec] sm = (b, sm1)" by (cases "batchAppend [new_pending rec] sm")
  have "\<forall>pw\<in>set [new_pending rec]. pw_err pw = None" by (simp add: new_pending_def)
  note d = batchAppend_durable_all [OF ba assms(2) this]
  obtain pw where b: "b = [pw]" and pw: "pw_err pw = None \<longrightarrow> durable sm1 (pw_loc pw) rec"
    using d(1) by (auto simp: list_all2_Cons1 new_pending_def)
  have eq: "r = wb_outcome pw" "sm' = sm1"
    using assms(1) by (simp_all add: wb_append_alone_batch ba b)
  show "sm_inv sm'" and "keeps sm sm'" using d(2,3) eq by simp_all
  show "r = Inr loc \<Longrightarrow> durable sm' loc rec"
    using pw eq by (auto simp: wb_outcome_def split: option.splits)
qed

interpretation seg_append: record_log "Append_segments buffered" sm_inv durable
proof
  fix rec s r s' l x
  assume a: "Append_segments buffered rec s = (r, s')" and i: "sm_inv s"
  show "sm_inv s'"
    using a i wb_append_alone_durable(1) seg_durable.append_inv
    by (auto simp: Append_segments_def split: if_splits)
  assume "durable s l x"
  then show "durable s' l x"
    using a i keeps_durable wb_append_alone_durable(2) seg_durable.append_keeps
    unfolding Append_segments_def by (cases buffered) (simp_all, blast+)
next
  fix rec s l s'
  assume "Append_segments buffered rec s = (Inr l, s')" and "sm_inv s"
  then show "durable s' l rec"
    using wb_append_alone_durable(3) seg_durable.append_has
    by (auto simp: Append_segments_def split: if_splits)
qed

lemma batchAppend_single_ok:
  assumes "sm_inv s" and "live s" and "healthy s"
  shows "\<exists>loc s'. batchAppend [new_pending rec] s = ([(new_pending rec)\<lparr>pw_loc := loc\<rparr>], s')"
proof -
  obtain loc s1 where a: "appendLocked rec False s = (Inr loc, s1)" "healthy s1"
    using appendLocked_ok [OF assms] by blast
  have lv: "live s1" using a(1) assms(1) by (cases rule: appendLocked_cases) auto
  have inv: "sm_inv s1" using appendLocked_keeps(2) [OF a(1) assms(1)] .
  obtain f where f: "active_dfile s1 = Some f" using live_file [OF inv lv] by blast
  have "activeFile s1 \<noteq> None" using lv by (simp add: live_def)
  with on_active_ok(2) [OF a(2) lv f] a(1) show ?thesis
    by (simp add: batchAppend_def new_pending_def)
qed

lemma wb_append_alone_ok:
  "sm_inv s \<Longrightarrow> live s \<Longrightarrow> healthy s \<Longrightarrow> \<exists>loc s'. wb_append_alone rec s = (Inr loc, s')"
  using batchAppend_single_ok [of s rec]
  by (auto simp: wb_append_alone_batch wb_outcome_def new_pending_def)

subsection \<open>Properties\<close>

text \<open>
  C8 (safety). However the callers, the flushes and the cancellations are interleaved, a caller
  of the write buffer that is given a location finds its own record there, on stable storage.
\<close>

theorem write_buffer_answer_durable:
  assumes "wb_inv wb" and "wb_reach (snd (wb_enqueue rec wb)) wb'"
    and "wb_returned wb' (wb_next wb) = Some (Inr loc)"
  shows "durable (wb_segments wb') loc rec"
  using wb_carries_reach [OF assms(2) wb_inv_enqueue [OF assms(1)] wb_carries_enqueue] assms(3)
    wb_returned_carried by blast

theorem write_buffer_answer_durable_witness:
  "\<exists>wb' loc. wb_reach (snd (wb_enqueue (EncodeRecord MagicXML [7]) (NewWriteBuffer (fresh_manager 1000) 64))) wb'
     \<and> wb_returned wb' 0 = Some (Inr loc)
     \<and> durable (wb_segments wb') loc (EncodeRecord MagicXML [7])"
proof -
  let ?rec = "EncodeRecord MagicXML [7]" and ?wb0 = "NewWriteBuffer (fresh_manager 1000) 64"
  let ?wb1 = "snd (wb_enqueue ?rec ?wb0)"
  let ?wb3 = "wb_write 0 (wb_take ?wb1)" let ?wb4 = "wb_receive 0 ?wb3"
  obtain loc sm where b: "batchAppend [new_pending ?rec] (fresh_manager 1000) = ([(new_pending ?rec)\<lparr>pw_loc := loc\<rparr>], sm)"
    using batchAppend_single_ok [of "fresh_manager 1000" ?rec] by auto
  have d: "wb_done ?wb3 0 = Some ((new_pending ?rec)\<lparr>pw_loc := loc\<rparr>)" "wb_returned ?wb3 0 = None"
    and k: "0 < length (wb_inflight (wb_take ?wb1))"
    by (simp_all add: wb_write_def wb_take_def wb_enqueue_def NewWriteBuffer_def Let_def b)
  have "wb_reach ?wb1 ?wb4"
    using d k by (intro wb_reach.next_step [OF wb_reach.next_step [OF wb_reach.next_step [OF wb_reach.start
        wb_step.taken] wb_step.written] wb_step.received]) auto
  moreover have r: "wb_returned ?wb4 0 = Some (Inr loc)"
    using d by (simp add: wb_receive_def wb_outcome_def new_pending_def)
  moreover have "durable (wb_segments ?wb4) loc ?rec"
    using write_buffer_answer_durable [OF wb_inv_new [of "fresh_manager 1000" 64] calculation(1)] r
    by (simp add: NewWriteBuffer_def)
  ultimately show ?thesis by blast
qed

subsection \<open>Closing\<close>

text \<open>The batches that callers flushing from \<open>Append\<close> are writing.\<close>

definition callers_batches :: "WriteBuffer \<Rightarrow> (ticket \<times> pendingWrite) list list" where
  "callers_batches wb = filter (\<lambda>b. \<not> loop_writes wb b) (wb_inflight wb)"

text \<open>Each of those callers writes its batch, in any order; here from the oldest on.\<close>

definition wb_settle :: "WriteBuffer \<Rightarrow> WriteBuffer" where
  "wb_settle wb = (wb_write 0 ^^ length (wb_inflight wb)) wb"

lemma wb_settle_all:
  assumes "wb_inv wb" and "wb_pending wb = []"
  shows "dom (wb_done (wb_settle wb)) = {..<wb_next wb}"
proof -
  have "wb_inv w \<Longrightarrow> length (wb_inflight w) = n \<Longrightarrow> wb_pending w = [] \<Longrightarrow>
      dom (wb_done ((wb_write 0 ^^ n) w)) = {..<wb_next w}" for n w
  proof (induction n arbitrary: w)
    case 0
    then show ?case by (simp add: wb_inv_def wb_ids_def wb_tickets_def)
  next
    case (Suc n)
    then have "dom (wb_done ((wb_write 0 ^^ n) (wb_write 0 w))) = {..<wb_next (wb_write 0 w)}"
      by (intro Suc.IH wb_inv_write) (simp_all add: wb_write_fields)
    then show ?case by (simp add: funpow_swap1 wb_write_fields)
  qed
  from this [OF assms(1) refl assms(2)] show ?thesis by (simp add: wb_settle_def)
qed

lemma loop_writes_one:
  assumes "wb_inv wb" and "k < length (wb_inflight wb)" and "loop_writes wb (wb_inflight wb ! k)"
  shows "take k (wb_inflight wb) @ drop (Suc k) (wb_inflight wb) = callers_batches wb"
proof -
  obtain t where t: "wb_loop wb = LoopWriting t" "t \<in> fst ` set (wb_inflight wb ! k)"
    using assms(3) by (auto simp: loop_writes_def split: flush_loop.splits)
  have "map fst (concat (wb_inflight wb)) = map fst (concat (take k (wb_inflight wb)))
      @ map fst (wb_inflight wb ! k) @ map fst (concat (drop (Suc k) (wb_inflight wb)))"
    using arg_cong [OF id_take_nth_drop [OF assms(2)], of "\<lambda>x. map fst (concat x)"] by simp
  moreover have "distinct (map fst (concat (wb_inflight wb)))"
    using assms(1) by (simp add: wb_inv_def wb_ids_def wb_tickets_def)
  ultimately have "t \<notin> fst ` set (concat (take k (wb_inflight wb)))" "t \<notin> fst ` set (concat (drop (Suc k) (wb_inflight wb)))"
    using t(2) by (auto simp del: set_concat concat_append)
  then have "\<not> loop_writes wb b" if "b \<in> set (take k (wb_inflight wb)) \<union> set (drop (Suc k) (wb_inflight wb))" for b
    using that t(1) by (auto simp: loop_writes_def image_iff)
  then have "filter (\<lambda>b. \<not> loop_writes wb b) (take k (wb_inflight wb)) = take k (wb_inflight wb)"
    "filter (\<lambda>b. \<not> loop_writes wb b) (drop (Suc k) (wb_inflight wb)) = drop (Suc k) (wb_inflight wb)"
    by simp_all
  then show ?thesis
    using arg_cong [OF id_take_nth_drop [OF assms(2)], of "filter (\<lambda>b. \<not> loop_writes wb b)"] assms(3)
    by (simp add: callers_batches_def)
qed

lemma wb_wait_spec:
  assumes "wb_inv wb"
  shows "wb_inv (wb_wait wb)" and "wb_inflight (wb_wait wb) = callers_batches wb" and "wb_loop (wb_wait wb) = LoopExited"
    and "wb_next (wb_wait wb) = wb_next wb"
proof -
  show "wb_inv (wb_wait wb)"
    using assms by (auto simp: wb_wait_def find_Some_iff intro!: wb_inv_loop_exit wb_inv_write split: option.split)
  show "wb_loop (wb_wait wb) = LoopExited" "wb_next (wb_wait wb) = wb_next wb"
    by (simp_all add: wb_wait_def wb_loop_exit_def wb_write_fields split: option.split)
  show "wb_inflight (wb_wait wb) = callers_batches wb"
  proof (cases "find (\<lambda>k. loop_writes wb (wb_inflight wb ! k)) [0..<length (wb_inflight wb)]")
    case None
    then have "\<not> loop_writes wb b" if "b \<in> set (wb_inflight wb)" for b
      using that by (auto simp: find_None_iff in_set_conv_nth)
    with None show ?thesis by (simp add: wb_wait_def wb_loop_exit_def callers_batches_def)
  next
    case (Some k)
    then have "k < length (wb_inflight wb)" "loop_writes wb (wb_inflight wb ! k)" by (auto simp: find_Some_iff)
    from loop_writes_one [OF assms this] Some show ?thesis
      by (simp add: wb_wait_def wb_loop_exit_def wb_write_fields)
  qed
qed

lemma wb_flush_spec:
  assumes "wb_inv wb"
  shows "wb_inv (wb_flush wb)" and "wb_inflight (wb_flush wb) = wb_inflight wb" and "wb_pending (wb_flush wb) = []"
    and "wb_next (wb_flush wb) = wb_next wb"
  using wb_inv_take [OF assms] assms
  by (auto simp: wb_flush_def wb_take_def wb_write_fields intro!: wb_inv_write)

lemma flush_answers:
  assumes "wb_inv wb"
  shows "dom (wb_done (wb_flush wb)) = {..<wb_next wb} - fst ` set (concat (wb_inflight wb))"
    and "dom (wb_done (wb_settle (wb_flush wb))) = {..<wb_next wb}"
proof -
  note f = wb_flush_spec [OF assms]
  have "set (wb_tickets (wb_flush wb)) = fst ` set (concat (wb_inflight wb))" using f(2,3) by (simp add: wb_tickets_def)
  moreover have "set (wb_tickets (wb_flush wb)) \<inter> dom (wb_done (wb_flush wb)) = {}"
    "set (wb_tickets (wb_flush wb)) \<union> dom (wb_done (wb_flush wb)) = {..<wb_next wb}"
    using f(1,4) by (simp_all add: wb_inv_def wb_ids_def)
  ultimately show "dom (wb_done (wb_flush wb)) = {..<wb_next wb} - fst ` set (concat (wb_inflight wb))" by blast
  show "dom (wb_done (wb_settle (wb_flush wb))) = {..<wb_next wb}" using wb_settle_all [OF f(1,3)] f(4) by simp
qed

text \<open>
  C18 (liveness). In whatever state \<open>Close\<close> is called, also while the flush loop and callers are
  writing batches: when it returns, the loop has ended, nothing is queued, and every caller
  whose record was queued or in the loop's batch has its outcome on its channel; what is still
  being written are exactly the batches that callers flush themselves, and once they have
  written them every caller ever enqueued has its outcome. And if callers, flushes and the loop go
  on while \<open>Close\<close> waits: when it flushes at last, the loop having ended, every caller
  enqueued until then has its outcome or is in a batch that another caller is writing.
\<close>

theorem write_buffer_close_answers_all:
  assumes "wb_inv wb"
  shows "wb_inv (wb_close wb) \<and> wb_loop (wb_close wb) = LoopExited \<and> wb_pending (wb_close wb) = []
     \<and> wb_inflight (wb_close wb) = callers_batches wb
     \<and> dom (wb_done (wb_close wb)) = {..<wb_next wb} - fst ` set (concat (callers_batches wb))
     \<and> dom (wb_done (wb_settle (wb_close wb))) = {..<wb_next wb}
     \<and> (\<forall>wb1. wb_reach (wb_close_stop wb) wb1 \<and> wb_loop wb1 = LoopExited \<longrightarrow>
          wb_pending (wb_flush wb1) = [] \<and> callers_batches wb1 = wb_inflight wb1
          \<and> dom (wb_done (wb_flush wb1)) = {..<wb_next wb1} - fst ` set (concat (wb_inflight wb1))
          \<and> dom (wb_done (wb_settle (wb_flush wb1))) = {..<wb_next wb1})"
proof -
  let ?s = "wb_close_stop wb"
  note s = wb_inv_close_stop [OF assms]
  note w = wb_wait_spec [OF s]
  note f = wb_flush_spec [OF w(1)]
  have same: "callers_batches ?s = callers_batches wb" "wb_next ?s = wb_next wb"
    by (simp_all add: callers_batches_def wb_close_stop_def loop_writes_def)
  have "wb_loop (wb_flush (wb_wait ?s)) = LoopExited"
    using w(3) by (auto simp: wb_flush_def wb_take_def wb_write_fields loop_writes_def)
  moreover have "callers_batches wb1 = wb_inflight wb1" if "wb_loop wb1 = LoopExited" for wb1
    using that by (simp add: callers_batches_def loop_writes_def)
  ultimately show ?thesis
    using f w(2,4) same flush_answers [OF w(1)] flush_answers [OF wb_inv_reach [OF _ s]] wb_flush_spec(3) [OF wb_inv_reach [OF _ s]]
    by (simp add: wb_close_def)
qed

text \<open>A buffer with one record in the loop's batch, one in a caller's and one queued.\<close>

definition busy_buffer :: WriteBuffer where
  "busy_buffer =
     (let e = \<lambda>x wb. snd (wb_enqueue (EncodeRecord MagicXML [x]) wb)
      in e 9 (wb_take (e 8 (wb_tick (e 7 (NewWriteBuffer (fresh_manager 1000) 64))))))"

theorem write_buffer_close_answers_all_witness:
  "wb_loop busy_buffer = LoopWriting 0 \<and> length (wb_inflight busy_buffer) = 2
   \<and> dom (wb_done (wb_close busy_buffer)) = {0, 2}
   \<and> dom (wb_done (wb_settle (wb_close busy_buffer))) = {..<3}"
proof -
  have inv: "wb_inv busy_buffer"
    unfolding busy_buffer_def Let_def by (intro wb_inv_enqueue wb_inv_take wb_inv_tick wb_inv_new) simp
  have "wb_loop busy_buffer = LoopWriting 0" "length (wb_inflight busy_buffer) = 2" "wb_next busy_buffer = 3"
    "fst ` set (concat (callers_batches busy_buffer)) = {1}"
    by (simp_all add: busy_buffer_def wb_enqueue_def wb_take_def wb_tick_def NewWriteBuffer_def Let_def
        callers_batches_def loop_writes_def)
  moreover have "{..<3} - {1} = {0, 2::nat}" by auto
  ultimately show ?thesis using write_buffer_close_answers_all [OF inv] by simp
qed

end
