(* ===== verification/Global_Id.thy ===== *)
theory Global_Id
  imports Lbf_Prelude
begin

text \<open>
  Global package ids (\<^verbatim>\<open>internal/globalid/id.go\<close>) on 64-bit words, and supplier ids
  (\<^verbatim>\<open>internal/supplier/id.go\<close>) with the integer syntax of \<^verbatim>\<open>strconv.Atoi\<close>.
\<close>

unbundle bit_operations_syntax

subsection \<open>Global ids\<close>

abbreviation (input) ShardShift :: nat where "ShardShift \<equiv> 48"

definition localIDMask :: u64 where
  "localIDMask = push_bit ShardShift 1 - 1"

definition Encode :: "int \<Rightarrow> int \<Rightarrow> int" where
  "Encode shardID localID =
     sint (push_bit ShardShift (word_of_int shardID :: u64) OR (word_of_int localID AND localIDMask))"

definition Decode :: "int \<Rightarrow> int \<times> int" where
  "Decode globalID =
     (let u = word_of_int globalID :: u64
      in (sint (drop_bit ShardShift u), sint (u AND localIDMask)))"

subsection \<open>Supplier ids\<close>

abbreviation (input) MaxID :: int where "MaxID \<equiv> 1000000"

definition Validate :: "int \<Rightarrow> error option" where
  "Validate i = (if i \<le> 0 \<or> i > MaxID then Some (Err ''invalid supplier_id'') else None)"

text \<open>\<^verbatim>\<open>strconv.Atoi\<close>: an optional sign, at least one decimal digit, the range of \<^verbatim>\<open>int\<close>.\<close>

definition Atoi :: "string \<Rightarrow> int option" where
  "Atoi v =
     (let neg = (take 1 v = ''-''); body = (if neg \<or> take 1 v = ''+'' then drop 1 v else v);
          i = (if neg then - int (undecimal body) else int (undecimal body))
      in if body \<noteq> [] \<and> list_all is_digit body \<and> - (2 ^ 63) \<le> i \<and> i < 2 ^ 63 then Some i else None)"

text \<open>The query value is the empty string when the parameter is absent.\<close>

definition ParseQuery :: "string \<Rightarrow> error + int" where
  "ParseQuery v =
     (if v = [] then Inl (Err ''supplier_id is required'')
      else case Atoi v of
        None \<Rightarrow> Inl (Err ''invalid supplier_id'')
      | Some i \<Rightarrow> (case Validate i of Some e \<Rightarrow> Inl e | None \<Rightarrow> Inr i))"

subsection \<open>Lemmas\<close>

lemma localIDMask_mask: "localIDMask = mask 48"
  by (simp add: localIDMask_def mask_eq_exp_minus_1)

lemma word_fits:
  fixes l :: int
  assumes "0 \<le> l" and "l < 2 ^ n" and "n \<le> 64"
  shows "take_bit n (word_of_int l :: u64) = word_of_int l"
  using assms by (simp add: take_bit_of_int [symmetric] take_bit_int_eq_self flip: of_int_take_bit)

lemma sint_small_word: "0 \<le> l \<Longrightarrow> l < 2 ^ 63 \<Longrightarrow> sint (word_of_int l :: u64) = l"
  by (simp add: sint_sbintrunc' signed_take_bit_int_eq_self)

lemma word_of_int_sint: "word_of_int (sint w) = (w :: u64)"
  by simp

lemma sint_take_bit:
  fixes w :: u64
  assumes "n < 64"
  shows "0 \<le> sint (take_bit n w) \<and> sint (take_bit n w) < 2 ^ n"
proof -
  have b: "uint (take_bit n w) < 2 ^ n" by (simp add: unsigned_take_bit_eq)
  moreover have "(2::int) ^ n \<le> 2 ^ 63" using assms by (intro power_increasing) auto
  ultimately have "sint (take_bit n w) = uint (take_bit n w)"
    using sint_small_word [of "uint (take_bit n w)"] by simp
  with b show ?thesis by simp
qed

lemma drop_bit_take: "drop_bit 48 (u :: u64) = take_bit 16 (drop_bit 48 u)"
  by (rule bit_word_eqI) (auto simp: bit_simps dest: bit_imp_le_length)

text \<open>The two halves of a global id do not overlap.\<close>

lemma join_parts:
  fixes a b :: u64
  shows "drop_bit 48 (push_bit 48 a OR take_bit 48 b) = take_bit 16 a"
    and "take_bit 48 (push_bit 48 a OR take_bit 48 b) = take_bit 48 b"
  by (rule bit_word_eqI; auto simp: bit_simps dest: bit_imp_le_length)+

lemma split_parts:
  fixes u :: u64
  shows "push_bit 48 (drop_bit 48 u) OR take_bit 48 u = u"
  by (rule bit_word_eqI) (auto simp: bit_simps)

lemma Encode_word: "word_of_int (Encode s l) = (push_bit 48 (word_of_int s) OR take_bit 48 (word_of_int l) :: u64)"
  by (simp add: Encode_def localIDMask_mask take_bit_eq_mask)

lemma Decode_word:
  "Decode g = (sint (drop_bit 48 (word_of_int g :: u64)), sint (take_bit 48 (word_of_int g :: u64)))"
  by (simp add: Decode_def Let_def localIDMask_mask take_bit_eq_mask)

lemma Atoi_itoa: "- (2 ^ 63) \<le> i \<Longrightarrow> i < 2 ^ 63 \<Longrightarrow> 0 \<le> i \<Longrightarrow> Atoi (decimal (nat i)) = Some i"
proof -
  assume i: "- (2 ^ 63) \<le> i" "i < 2 ^ 63" "0 \<le> i"
  have "\<exists>c cs. decimal (nat i) = c # cs" by (cases "decimal (nat i)") auto
  then obtain c cs where c: "decimal (nat i) = c # cs" by blast
  have "is_digit c" by (rule decimal_digits [of _ "nat i"]) (simp add: c)
  then have "c \<noteq> CHR ''-''" and "c \<noteq> CHR ''+''" by (auto simp: is_digit_def)
  moreover have "list_all is_digit (decimal (nat i))" by (auto simp: list_all_iff dest: decimal_digits)
  ultimately show ?thesis
    using i undecimal_decimal [of "nat i"] by (simp add: Atoi_def c Let_def del: undecimal_decimal)
qed

subsection \<open>Properties\<close>

text \<open>
  Ids are split into the shard and the local id they were built from, for every
  shard id of 16 bits and every local id of 48 bits.
\<close>

theorem Decode_Encode:
  assumes "0 \<le> shardID" and "shardID < 2 ^ 16" and "0 \<le> localID" and "localID < 2 ^ 48"
  shows "Decode (Encode shardID localID) = (shardID, localID)"
  unfolding Decode_word Encode_word join_parts using assms by (simp add: word_fits sint_small_word)

theorem Decode_Encode_witness: "Decode (Encode 65535 (2 ^ 48 - 1)) = (65535, 2 ^ 48 - 1)"
  by (rule Decode_Encode) simp_all

text \<open>
  Every \<^verbatim>\<open>int64\<close> is the id of its parts, which lie in the ranges of the format;
  so distinct ids have distinct parts.
\<close>

theorem Encode_Decode:
  assumes "- (2 ^ 63) \<le> g" and "g < 2 ^ 63"
  shows "(case Decode g of (s, l) \<Rightarrow> Encode s l = g \<and> 0 \<le> s \<and> s < 2 ^ 16 \<and> 0 \<le> l \<and> l < 2 ^ 48)"
proof -
  have "Encode (sint (drop_bit 48 u)) (sint (take_bit 48 u)) = sint u" for u :: u64
    by (simp add: Encode_def localIDMask_mask split_parts flip: take_bit_eq_mask)
  moreover have "sint (word_of_int g :: u64) = g"
    using assms by (simp add: sint_sbintrunc' signed_take_bit_int_eq_self)
  moreover have "0 \<le> sint (drop_bit 48 u) \<and> sint (drop_bit 48 u) < 2 ^ 16" for u :: u64
    using sint_take_bit [of 16 "drop_bit 48 u"] drop_bit_take [of u] by simp
  ultimately show ?thesis
    using sint_take_bit [of 48 "word_of_int g"] by (simp add: Decode_word)
qed

theorem Encode_Decode_witness: "Encode 65535 281474976710655 = -1 \<and> Decode (-1) = (65535, 281474976710655)"
  using Encode_Decode [of "-1"] by (simp add: Decode_def localIDMask_def Let_def mask_eq_exp_minus_1)

text \<open>
  A supplier id that the query parser accepts lies between 1 and 1000000, and the
  decimal text of every such id is accepted.
\<close>

theorem ParseQuery_range:
  "(case ParseQuery v of Inl _ \<Rightarrow> True | Inr i \<Rightarrow> 1 \<le> i \<and> i \<le> MaxID)
     \<and> (case Validate i of None \<Rightarrow> ParseQuery (itoa i) = Inr i | Some _ \<Rightarrow> True)"
  by (auto simp: ParseQuery_def Validate_def itoa_def Atoi_itoa split: option.splits if_splits)

end
