(* ===== verification/Coord_Repo.thy ===== *)
theory Coord_Repo
  imports Lbf_Prelude Global_Id
begin

text \<open>
  The coordinator's database (\<^verbatim>\<open>internal/coordinator/repo.go\<close>, \<^verbatim>\<open>models.go\<close>): the three tables
  with the constraints of \<^verbatim>\<open>migrations/coordinator\<close>, and one definition per repository
  operation.

  Every statement takes the next element of a failure schedule: it passes, fails without
  effect (\<open>Fail 0\<close>), or fails after the server has executed it (\<open>Fail (Suc _)\<close>, the
  connection breaks before the answer). Before every statement outside a transaction, and
  at the start of a transaction, other sessions may have replaced the shard table by any
  table that meets the constraints. A transaction is atomic: its first statement locks the
  row it decides on (\<^verbatim>\<open>FOR UPDATE\<close>), and a conflict with a concurrent commit at a later
  statement surfaces as a failure of that statement.
\<close>

subsection \<open>Data\<close>

type_synonym ShardState = string

abbreviation ShardActive :: ShardState where "ShardActive \<equiv> ''active''"
abbreviation ShardSealed :: ShardState where "ShardSealed \<equiv> ''sealed''"
abbreviation ShardStandby :: ShardState where "ShardStandby \<equiv> ''standby''"

record ShardInfo =
  ShardID :: int
  ShardUUID :: "string option"
  State :: ShardState
  PrimaryURL :: string
  ReplicaURL :: "string option"
  TotalBytes_of :: int
  SealedAt :: "time option"
  LastSeenAt :: "time option"
  LastError :: "string option"
  CreatedAt :: time

record GlobalPackageIndex =
  GlobalID :: int
  gpi_ShardID :: int
  gpi_LocalID :: int
  gpi_SupplierID :: int
  gpi_ReceivedAt :: time
  PackageHash :: bytes

record BootstrapShard =
  bs_ShardID :: int
  bs_State :: string
  bs_PrimaryURL :: string
  bs_ReplicaURL :: string
  bs_ShardUUID :: string

record SealedShardTransition =
  sst_ShardID :: int
  sst_TotalBytes :: int
  sst_SealedAt :: time

definition ErrShardNotFound :: error where "ErrShardNotFound = Sentinel ''shard not found''"
definition ErrStateConflict :: error where "ErrStateConflict = Sentinel ''invalid shard state transition''"

subsection \<open>The database\<close>

record coord_db =
  shard_registry :: "ShardInfo list"
  global_package_index :: "GlobalPackageIndex list"
  global_xml_index :: "(bytes \<times> int) list"
  cdb_faults :: "fault list"
  cdb_clock :: "time list"
  cdb_others :: "ShardInfo list option list"

definition is_active :: "ShardInfo \<Rightarrow> bool" where
  "is_active s \<longleftrightarrow> State s = ShardActive"

text \<open>
  The constraints on \<^verbatim>\<open>shard_registry\<close>: the primary key, the types \<^verbatim>\<open>SMALLINT\<close> and
  \<^verbatim>\<open>VARCHAR(10)\<close>, the unique index on the uuid, and the unique index on the active row.
\<close>

definition registry_ok :: "ShardInfo list \<Rightarrow> bool" where
  "registry_ok rows \<longleftrightarrow> distinct (map ShardID rows)
     \<and> distinct (List.map_filter ShardUUID rows)
     \<and> length (filter is_active rows) \<le> 1
     \<and> list_all (\<lambda>s. int2 (ShardID s) \<and> length (State s) \<le> 10) rows"

definition interfere :: "coord_db \<Rightarrow> coord_db" where
  "interfere db = (case cdb_others db of [] \<Rightarrow> db
     | None # os \<Rightarrow> db\<lparr>cdb_others := os\<rparr>
     | Some rows # os \<Rightarrow>
         (if registry_ok rows then db\<lparr>cdb_others := os, shard_registry := rows\<rparr> else db\<lparr>cdb_others := os\<rparr>))"

definition take_fault :: "coord_db \<Rightarrow> fault \<times> coord_db" where
  "take_fault db = (case next_fault (cdb_faults db) of (f, fs) \<Rightarrow> (f, db\<lparr>cdb_faults := fs\<rparr>))"

text \<open>\<open>NOW()\<close> and \<^verbatim>\<open>time.Now()\<close>: an arbitrary sequence of readings.\<close>

definition now :: "coord_db \<Rightarrow> time \<times> coord_db" where
  "now db = (case cdb_clock db of [] \<Rightarrow> (0, db) | t # ts \<Rightarrow> (t, db\<lparr>cdb_clock := ts\<rparr>))"

type_synonym stmt = "coord_db \<Rightarrow> coord_db option"

definition tx_query :: "bool \<Rightarrow> (coord_db \<Rightarrow> 'a) \<Rightarrow> coord_db \<Rightarrow> (coord_db, 'a) result" where
  "tx_query params f db = (case take_fault db of
       (Pass, db') \<Rightarrow> if params then (Inr (f db'), db') else (Inl (Err ''parameter out of range''), db')
     | (Fail n m, db') \<Rightarrow> (Inl (Err m), db'))"

definition tx_exec :: "stmt \<Rightarrow> coord_db \<Rightarrow> (coord_db, unit) result" where
  "tx_exec f db = (case take_fault db of
       (Pass, db') \<Rightarrow> (case f db' of None \<Rightarrow> (Inl (Err ''constraint violation''), db') | Some db'' \<Rightarrow> (Inr (), db''))
     | (Fail 0 m, db') \<Rightarrow> (Inl (Err m), db')
     | (Fail (Suc n) m, db') \<Rightarrow> (Inl (Err m), case f db' of None \<Rightarrow> db' | Some db'' \<Rightarrow> db''))"

definition query :: "bool \<Rightarrow> (coord_db \<Rightarrow> 'a) \<Rightarrow> coord_db \<Rightarrow> (coord_db, 'a) result" where
  "query params f db = tx_query params f (interfere db)"

definition exec :: "stmt \<Rightarrow> coord_db \<Rightarrow> (coord_db, unit) result" where
  "exec f db = tx_exec f (interfere db)"

definition rollback :: "coord_db \<Rightarrow> coord_db \<Rightarrow> coord_db" where
  "rollback old db = db\<lparr>shard_registry := shard_registry old, global_package_index := global_package_index old,
     global_xml_index := global_xml_index old\<rparr>"

text \<open>\<^verbatim>\<open>BeginTx\<close>, the body, and \<^verbatim>\<open>Commit\<close>; every early return rolls back.\<close>

definition in_tx :: "(coord_db \<Rightarrow> (coord_db, 'a) result) \<Rightarrow> coord_db \<Rightarrow> (coord_db, 'a) result" where
  "in_tx body db = (case take_fault (interfere db) of
       (Fail n m, db1) \<Rightarrow> (Inl (Err m), db1)
     | (Pass, db1) \<Rightarrow> (case body db1 of
           (Inl e, db2) \<Rightarrow> (Inl e, rollback db1 db2)
         | (Inr x, db2) \<Rightarrow> (case take_fault db2 of
               (Pass, db3) \<Rightarrow> (Inr x, db3)
             | (Fail 0 m, db3) \<Rightarrow> (Inl (Err m), rollback db1 db3)
             | (Fail (Suc n) m, db3) \<Rightarrow> (Inl (Err m), db3))))"

definition put_registry :: "ShardInfo list \<Rightarrow> stmt" where
  "put_registry rows db = (if registry_ok rows then Some (db\<lparr>shard_registry := rows\<rparr>) else None)"

text \<open>\<^verbatim>\<open>UPDATE shard_registry SET ... WHERE shard_id = $1\<close>.\<close>

definition update_where :: "(ShardInfo \<Rightarrow> bool) \<Rightarrow> (ShardInfo \<Rightarrow> ShardInfo) \<Rightarrow> stmt" where
  "update_where P f db = put_registry (map (\<lambda>s. if P s then f s else s) (shard_registry db)) db"

definition by_id :: "int \<Rightarrow> ShardInfo \<Rightarrow> bool" where
  "by_id i s \<longleftrightarrow> ShardID s = i"

definition update_shard :: "int \<Rightarrow> (ShardInfo \<Rightarrow> ShardInfo) \<Rightarrow> stmt" where
  "update_shard i f db = (if int2 i then update_where (by_id i) f db else None)"

subsection \<open>Reading shards\<close>

definition scanShardRow :: "ShardInfo \<Rightarrow> ShardInfo" where
  "scanShardRow r = \<lparr>ShardID = ShardID r, ShardUUID = ShardUUID r, State = State r, PrimaryURL = PrimaryURL r,
     ReplicaURL = ReplicaURL r, TotalBytes_of = TotalBytes_of r, SealedAt = SealedAt r, LastSeenAt = LastSeenAt r,
     LastError = LastError r, CreatedAt = CreatedAt r\<rparr>"

text \<open>\<^verbatim>\<open>scanShard\<close>: the first row of the result, nil when there is none.\<close>

definition scanShard :: "ShardInfo list \<Rightarrow> ShardInfo option" where
  "scanShard rows = (case rows of [] \<Rightarrow> None | r # _ \<Rightarrow> Some (scanShardRow r))"

text \<open>\<^verbatim>\<open>SELECT ... WHERE P ORDER BY shard_id\<close>.\<close>

definition select_where :: "(ShardInfo \<Rightarrow> bool) \<Rightarrow> coord_db \<Rightarrow> ShardInfo list" where
  "select_where P db = sort_key ShardID (filter P (shard_registry db))"

definition GetShard :: "int \<Rightarrow> coord_db \<Rightarrow> (coord_db, ShardInfo option) result" where
  "GetShard shardID = query (int2 shardID) (\<lambda>db. scanShard (select_where (by_id shardID) db))"

definition ActiveShard :: "coord_db \<Rightarrow> (coord_db, ShardInfo option) result" where
  "ActiveShard = query True (\<lambda>db. scanShard (select_where is_active db))"

definition StandbyShards :: "coord_db \<Rightarrow> (coord_db, ShardInfo list) result" where
  "StandbyShards = query True (\<lambda>db. map scanShardRow (select_where (\<lambda>s. State s = ShardStandby) db))"

definition StandbyShard :: "coord_db \<Rightarrow> (coord_db, ShardInfo option) result" where
  "StandbyShard db = tryE (StandbyShards db) (\<lambda>shards db.
     (Inr (case shards of [] \<Rightarrow> None | first # _ \<Rightarrow> Some first), db))"

definition ListShards :: "coord_db \<Rightarrow> (coord_db, ShardInfo list) result" where
  "ListShards = query True (\<lambda>db. map scanShardRow (select_where (\<lambda>_. True) db))"

definition GetShardByUUID :: "string \<Rightarrow> coord_db \<Rightarrow> (coord_db, ShardInfo option) result" where
  "GetShardByUUID shardUUID = query True (\<lambda>db. scanShard (select_where (\<lambda>s. ShardUUID s = Some shardUUID) db))"

subsection \<open>Writing shards\<close>

text \<open>\<^verbatim>\<open>COALESCE(a, b)\<close>.\<close>

definition coalesce :: "'a option \<Rightarrow> 'a option \<Rightarrow> 'a option" where
  "coalesce a b = (case a of None \<Rightarrow> b | Some x \<Rightarrow> Some x)"

definition UpsertShard :: "ShardInfo \<Rightarrow> coord_db \<Rightarrow> (coord_db, unit) result" where
  "UpsertShard s = exec (\<lambda>db.
     if list_ex (by_id (ShardID s)) (shard_registry db) then
       update_shard (ShardID s) (\<lambda>row. row\<lparr>ShardUUID := coalesce (ShardUUID s) (ShardUUID row), State := State s,
         PrimaryURL := PrimaryURL s, ReplicaURL := ReplicaURL s, TotalBytes_of := TotalBytes_of s,
         SealedAt := SealedAt s, LastSeenAt := LastSeenAt s, LastError := LastError s\<rparr>) db
     else case now db of (t, db') \<Rightarrow> put_registry (shard_registry db' @ [s\<lparr>CreatedAt := t\<rparr>]) db')"

definition SetShardState :: "int \<Rightarrow> ShardState \<Rightarrow> int \<Rightarrow> time option \<Rightarrow> coord_db \<Rightarrow> (coord_db, unit) result" where
  "SetShardState shardID state totalBytes sealedAt =
     exec (update_shard shardID (\<lambda>s. s\<lparr>State := state, TotalBytes_of := totalBytes, SealedAt := sealedAt\<rparr>))"

definition seal_active :: "int \<Rightarrow> SealedShardTransition option \<Rightarrow> ShardInfo option \<Rightarrow> coord_db \<Rightarrow> (coord_db, unit) result" where
  "seal_active targetShardID sealedActive currentActive db = (case sealedActive of
       Some sa \<Rightarrow>
         (case currentActive of None \<Rightarrow> (Inl ErrStateConflict, db)
          | Some cur \<Rightarrow>
              if ShardID cur \<noteq> sst_ShardID sa then (Inl ErrStateConflict, db)
              else tx_exec (update_shard (sst_ShardID sa) (\<lambda>s. s\<lparr>State := ShardSealed, TotalBytes_of := sst_TotalBytes sa,
                     SealedAt := Some (sst_SealedAt sa), LastError := None\<rparr>)) db)
     | None \<Rightarrow> if currentActive \<noteq> None then (Inl ErrStateConflict, db) else (Inr (), db))"

definition promoted :: "ShardInfo \<Rightarrow> ShardInfo" where
  "promoted s = s\<lparr>State := ShardActive, SealedAt := None, LastError := None\<rparr>"

definition PromoteStandby :: "int \<Rightarrow> SealedShardTransition option \<Rightarrow> coord_db \<Rightarrow> (coord_db, ShardInfo option) result" where
  "PromoteStandby targetShardID sealedActive = in_tx (\<lambda>db.
     tryE (tx_query (int2 targetShardID) (\<lambda>db. scanShard (select_where (by_id targetShardID) db)) db) (\<lambda>target db.
     case target of None \<Rightarrow> (Inl ErrShardNotFound, db) | Some t \<Rightarrow>
     if State t \<noteq> ShardStandby then (Inl ErrStateConflict, db) else
     tryE (tx_query True (\<lambda>db. scanShard (select_where (\<lambda>s. is_active s \<and> ShardID s \<noteq> targetShardID) db)) db) (\<lambda>currentActive db.
     tryE (seal_active targetShardID sealedActive currentActive db) (\<lambda>_ db.
     tryE (tx_exec (update_shard targetShardID promoted) db) (\<lambda>_ db.
     tx_query True (\<lambda>db. scanShard (select_where (by_id targetShardID) db)) db)))))"

definition next_shard_id :: "coord_db \<Rightarrow> int" where
  "next_shard_id db = fold max (map ShardID (shard_registry db)) (- 1) + 1"

definition insert_standby :: "int \<Rightarrow> string \<Rightarrow> string \<Rightarrow> string option \<Rightarrow> stmt" where
  "insert_standby nextID shardUUID primaryURL replicaURL db =
     (case now db of (t, db') \<Rightarrow> put_registry (shard_registry db' @
        [\<lparr>ShardID = nextID, ShardUUID = Some shardUUID, State = ShardStandby, PrimaryURL = primaryURL,
          ReplicaURL = replicaURL, TotalBytes_of = 0, SealedAt = None, LastSeenAt = Some t, LastError = None,
          CreatedAt = t\<rparr>]) db')"

definition refresh_shard :: "string \<Rightarrow> string \<Rightarrow> string option \<Rightarrow> stmt" where
  "refresh_shard shardUUID primaryURL replicaURL db =
     (case now db of (t, db') \<Rightarrow> update_where (\<lambda>s. ShardUUID s = Some shardUUID)
        (\<lambda>s. s\<lparr>PrimaryURL := primaryURL, ReplicaURL := replicaURL, LastSeenAt := Some t, LastError := None\<rparr>) db')"

text \<open>The parameter \<open>state\<close> is overwritten by standby, as in the source.\<close>

definition RegisterShard_repo ::
    "string \<Rightarrow> ShardState \<Rightarrow> string \<Rightarrow> string option \<Rightarrow> coord_db \<Rightarrow> (coord_db, ShardInfo option \<times> bool) result" where
  "RegisterShard_repo shardUUID state primaryURL replicaURL = in_tx (\<lambda>db.
     let find = (\<lambda>db. scanShard (select_where (\<lambda>s. ShardUUID s = Some shardUUID) db)) in
     tryE (tx_query True find db) (\<lambda>existing db.
     if existing \<noteq> None then
       tryE (tx_exec (refresh_shard shardUUID primaryURL replicaURL) db) (\<lambda>_ db.
       tryE (tx_query True find db) (\<lambda>updated db. (Inr (updated, False), db)))
     else
       tryE (tx_query True next_shard_id db) (\<lambda>nextID db.
       tryE (tx_exec (insert_standby nextID shardUUID primaryURL replicaURL) db) (\<lambda>_ db.
       tryE (tx_query (int2 nextID) (\<lambda>db. scanShard (select_where (by_id nextID) db)) db) (\<lambda>created db.
       (Inr (created, True), db))))))"

definition seal_row :: "int \<Rightarrow> coord_db \<Rightarrow> (coord_db, unit) result" where
  "seal_row shardID db = (case now db of (t, db') \<Rightarrow>
     tx_exec (update_shard shardID (\<lambda>s. s\<lparr>State := ShardSealed, SealedAt := Some t\<rparr>)) db')"

definition PatchShardState_repo :: "int \<Rightarrow> ShardState \<Rightarrow> bool \<Rightarrow> coord_db \<Rightarrow> (coord_db, ShardInfo option) result" where
  "PatchShardState_repo shardID nextState confirm = in_tx (\<lambda>db.
     tryE (tx_query (int2 shardID) (\<lambda>db. scanShard (select_where (by_id shardID) db)) db) (\<lambda>target db.
     case target of None \<Rightarrow> (Inl ErrShardNotFound, db) | Some t \<Rightarrow>
     tryE (if nextState = ShardSealed then
             if State t \<noteq> ShardActive then (Inl ErrStateConflict, db) else seal_row shardID db
           else if nextState = ShardActive then
             if State t \<noteq> ShardStandby \<or> \<not> confirm then (Inl ErrStateConflict, db) else
             tryE (tx_query True (\<lambda>db. scanShard (select_where (\<lambda>s. is_active s \<and> ShardID s \<noteq> shardID) db)) db) (\<lambda>currentActive db.
             tryE (case currentActive of None \<Rightarrow> (Inr (), db) | Some cur \<Rightarrow> seal_row (ShardID cur) db) (\<lambda>_ db.
             tx_exec (update_shard shardID promoted) db))
           else (Inl ErrStateConflict, db)) (\<lambda>_ db.
     tx_query True (\<lambda>db. scanShard (select_where (by_id shardID) db)) db)))"

definition MarkShardReachable :: "int \<Rightarrow> coord_db \<Rightarrow> (coord_db, unit) result" where
  "MarkShardReachable shardID = exec (\<lambda>db. case now db of (t, db') \<Rightarrow>
     update_shard shardID (\<lambda>s. s\<lparr>LastSeenAt := Some t, LastError := None\<rparr>) db')"

definition MarkShardUnreachable :: "int \<Rightarrow> string \<Rightarrow> coord_db \<Rightarrow> (coord_db, unit) result" where
  "MarkShardUnreachable shardID lastErr = exec (update_shard shardID (\<lambda>s. s\<lparr>LastError := Some lastErr\<rparr>))"

subsection \<open>Global indexes\<close>

definition InsertGlobalPackage :: "GlobalPackageIndex \<Rightarrow> coord_db \<Rightarrow> (coord_db, unit) result" where
  "InsertGlobalPackage e = exec (\<lambda>db.
     if \<not> (int2 (gpi_ShardID e) \<and> int4 (gpi_SupplierID e)) then None
     else if list_ex (\<lambda>r. GlobalID r = GlobalID e) (global_package_index db) then Some db
     else Some (db\<lparr>global_package_index := global_package_index db @ [e]\<rparr>))"

fun InsertGlobalXMLHashes :: "int \<Rightarrow> bytes list \<Rightarrow> coord_db \<Rightarrow> (coord_db, unit) result" where
  "InsertGlobalXMLHashes shardID [] db = (Inr (), db)"
| "InsertGlobalXMLHashes shardID (h # hs) db =
     tryE (exec (\<lambda>db. if \<not> int2 shardID then None
                   else if map_of (global_xml_index db) h \<noteq> None then Some db
                   else Some (db\<lparr>global_xml_index := global_xml_index db @ [(h, shardID)]\<rparr>)) db)
       (\<lambda>_ db. InsertGlobalXMLHashes shardID hs db)"

definition FindShardByXMLHash :: "bytes \<Rightarrow> coord_db \<Rightarrow> (coord_db, ShardInfo option) result" where
  "FindShardByXMLHash h db = tryE (query True (\<lambda>db. map_of (global_xml_index db) h) db) (\<lambda>r db.
     case r of None \<Rightarrow> (Inr None, db) | Some shardID \<Rightarrow> GetShard shardID db)"

definition TruncateAll :: "coord_db \<Rightarrow> (coord_db, unit) result" where
  "TruncateAll = exec (\<lambda>db. Some (db\<lparr>shard_registry := [], global_package_index := [], global_xml_index := []\<rparr>))"

subsection \<open>Bootstrap\<close>

text \<open>\<^verbatim>\<open>BTRIM\<close> removes spaces at both ends.\<close>

definition btrim :: "string \<Rightarrow> string" where
  "btrim v = rev (dropWhile (\<lambda>c. c = CHR '' '') (rev (dropWhile (\<lambda>c. c = CHR '' '') v)))"

definition seedShardFromBootstrap :: "ShardInfo \<Rightarrow> coord_db \<Rightarrow> (coord_db, unit) result" where
  "seedShardFromBootstrap s = exec (\<lambda>db.
     if list_ex (by_id (ShardID s)) (shard_registry db) then
       update_shard (ShardID s) (\<lambda>row. row\<lparr>ShardUUID := coalesce (ShardUUID row) (ShardUUID s),
         PrimaryURL := (if btrim (PrimaryURL row) = [] then PrimaryURL s else PrimaryURL row),
         ReplicaURL := coalesce (ReplicaURL row) (ReplicaURL s)\<rparr>) db
     else case now db of (t, db') \<Rightarrow> put_registry (shard_registry db' @
       [s\<lparr>TotalBytes_of := 0, SealedAt := None, LastSeenAt := None, LastError := None, CreatedAt := t\<rparr>]) db')"

text \<open>The bootstrap file: absent, unreadable, not a JSON list of shards, or the list it holds.\<close>

datatype bootstrap_file = NoFile | ReadError string | NotJSON string | Shards "BootstrapShard list"

definition bootstrap_shard :: "BootstrapShard \<Rightarrow> ShardInfo" where
  "bootstrap_shard b = \<lparr>ShardID = bs_ShardID b,
     ShardUUID = (if bs_ShardUUID b \<noteq> [] then Some (bs_ShardUUID b) else None), State = bs_State b,
     PrimaryURL = bs_PrimaryURL b, ReplicaURL = (if bs_ReplicaURL b \<noteq> [] then Some (bs_ReplicaURL b) else None),
     TotalBytes_of = 0, SealedAt = None, LastSeenAt = None, LastError = None, CreatedAt = 0\<rparr>"

fun seed_all :: "BootstrapShard list \<Rightarrow> coord_db \<Rightarrow> (coord_db, unit) result" where
  "seed_all [] db = (Inr (), db)"
| "seed_all (b # bs) db = tryE (seedShardFromBootstrap (bootstrap_shard b) db) (\<lambda>_ db. seed_all bs db)"

definition BootstrapFromFile :: "bootstrap_file \<Rightarrow> coord_db \<Rightarrow> (coord_db, unit) result" where
  "BootstrapFromFile f db = (case f of NoFile \<Rightarrow> (Inr (), db) | ReadError m \<Rightarrow> (Inl (Err m), db)
     | NotJSON m \<Rightarrow> (Inl (Err m), db) | Shards bs \<Rightarrow> seed_all bs db)"

subsection \<open>Lemmas\<close>

definition same_tables :: "coord_db \<Rightarrow> coord_db \<Rightarrow> bool" where
  "same_tables db db' \<longleftrightarrow> shard_registry db' = shard_registry db
     \<and> global_package_index db' = global_package_index db \<and> global_xml_index db' = global_xml_index db"

lemma same_tables_refl [simp]: "same_tables db db"
  by (simp add: same_tables_def)

lemma same_tables_trans: "same_tables a b \<Longrightarrow> same_tables b c \<Longrightarrow> same_tables a c"
  by (simp add: same_tables_def)

lemma same_tables_registry: "same_tables a b \<Longrightarrow> shard_registry b = shard_registry a"
  by (simp add: same_tables_def)

lemma same_tables_rollback [simp]: "same_tables db (rollback db db')"
  by (simp add: same_tables_def rollback_def)

lemma take_fault_same [simp]: "same_tables db (snd (take_fault db))"
  by (auto simp: take_fault_def same_tables_def split: prod.splits)

lemma take_fault_pair: "take_fault db = (f, db') \<Longrightarrow> same_tables db db'"
  using take_fault_same [of db] by simp

lemma now_same [simp]: "same_tables db (snd (now db))"
  by (auto simp: now_def same_tables_def split: list.splits)

lemma shard_registry_now [simp]: "shard_registry (snd (now db)) = shard_registry db"
  using now_same by (simp add: same_tables_def)

lemma tx_query_same [simp]: "same_tables db (snd (tx_query p f db))"
  by (auto simp: tx_query_def split: prod.splits fault.splits dest: take_fault_pair)

lemma tx_query_Inr:
  assumes "tx_query p f db = (Inr x, db')"
  shows "p \<and> same_tables db db' \<and> x = f db'"
  using assms by (auto simp: tx_query_def split: prod.splits fault.splits if_splits dest: take_fault_pair)

lemma tx_exec_cases:
  assumes "tx_exec f db = (r, db')"
  shows "(\<exists>e. r = Inl e \<and> same_tables db db') \<or> (\<exists>d. same_tables db d \<and> f d = Some db')"
  using assms
  by (auto simp: tx_exec_def split: prod.splits fault.splits option.splits nat.splits dest: take_fault_pair)

lemma tx_exec_Inr:
  assumes "tx_exec f db = (Inr x, db')"
  shows "\<exists>d. same_tables db d \<and> f d = Some db'"
  using tx_exec_cases [OF assms] by auto

lemma in_tx_cases:
  assumes "in_tx body db = (r, db')"
  shows "(\<exists>e. r = Inl e \<and> same_tables (interfere db) db')
    \<or> (\<exists>db1 x db2. same_tables (interfere db) db1 \<and> body db1 = (Inr x, db2) \<and> same_tables db2 db'
         \<and> (r = Inr x \<or> (\<exists>e. r = Inl e)))"
proof -
  obtain f db1 where f: "take_fault (interfere db) = (f, db1)" by fastforce
  have 1: "same_tables (interfere db) db1" using take_fault_same [of "interfere db"] f by simp
  show ?thesis
  proof (cases f)
    case Pass
    show ?thesis
    proof (cases "body db1")
      case (Pair q db2)
      show ?thesis
      proof (cases q)
        case (Inl e)
        with assms f Pass Pair show ?thesis
          using same_tables_trans [OF 1 same_tables_rollback] by (auto simp: in_tx_def)
      next
        case (Inr x)
        obtain g db3 where g: "take_fault db2 = (g, db3)" by fastforce
        have 3: "same_tables db2 db3" using take_fault_same [of db2] g by simp
        have "r = Inr x \<and> db' = db3 \<or> (\<exists>e. r = Inl e \<and> (db' = rollback db1 db3 \<or> db' = db3))"
          using assms f Pass Pair Inr g by (auto simp: in_tx_def split: fault.splits nat.splits)
        with 1 3 Pair Inr show ?thesis
          using same_tables_trans [OF 1 same_tables_rollback] by blast
      qed
    qed
  next
    case (Fail n m)
    with assms f 1 show ?thesis by (auto simp: in_tx_def)
  qed
qed

lemma interfere_ok: "registry_ok (shard_registry db) \<Longrightarrow> registry_ok (shard_registry (interfere db))"
  by (auto simp: interfere_def split: list.splits option.splits)

lemma interfere_none [simp]: "cdb_others db = [] \<Longrightarrow> interfere db = db"
  by (simp add: interfere_def)

lemma put_registry_Some: "put_registry rows db = Some db' \<longleftrightarrow> registry_ok rows \<and> db' = db\<lparr>shard_registry := rows\<rparr>"
  by (auto simp: put_registry_def)

lemma update_shard_Some:
  "update_shard i f db = Some db' \<longleftrightarrow> int2 i \<and> registry_ok (map (\<lambda>s. if by_id i s then f s else s) (shard_registry db))
     \<and> db' = db\<lparr>shard_registry := map (\<lambda>s. if by_id i s then f s else s) (shard_registry db)\<rparr>"
  by (auto simp: update_shard_def update_where_def put_registry_Some)

lemma scanShardRow_id [simp]: "scanShardRow s = s"
  by (simp add: scanShardRow_def)

lemma select_where_same: "same_tables db db' \<Longrightarrow> select_where P db' = select_where P db"
  by (simp add: select_where_def same_tables_def)

lemma scanShard_Some: "scanShard (select_where P db) = Some s \<Longrightarrow> s \<in> set (shard_registry db) \<and> P s"
proof -
  assume "scanShard (select_where P db) = Some s"
  then obtain t where "select_where P db = s # t" by (auto simp: scanShard_def split: list.splits)
  then have "s \<in> set (select_where P db)" by simp
  then show ?thesis by (simp add: select_where_def)
qed

lemma scanShard_None: "scanShard (select_where P db) = None \<longleftrightarrow> (\<forall>s\<in>set (shard_registry db). \<not> P s)"
proof -
  have "scanShard (select_where P db) = None \<longleftrightarrow> set (select_where P db) = {}"
    by (simp add: scanShard_def split: list.splits)
  then show ?thesis by (auto simp: select_where_def)
qed

lemma registry_ok_unique: "registry_ok rows \<Longrightarrow> s \<in> set rows \<Longrightarrow> s' \<in> set rows \<Longrightarrow> ShardID s = ShardID s' \<Longrightarrow> s = s'"
  by (auto simp: registry_ok_def distinct_map dest: inj_onD)

lemma length_filter_le_one:
  assumes "length (filter P xs) \<le> 1" and "x \<in> set xs" and "y \<in> set xs" and "P x" and "P y"
  shows "x = y"
proof -
  have "x \<in> set (filter P xs)" and "y \<in> set (filter P xs)" using assms by auto
  with assms(1) show ?thesis by (cases "filter P xs") auto
qed

lemma single_active:
  "registry_ok rows \<Longrightarrow> s \<in> set rows \<Longrightarrow> s' \<in> set rows \<Longrightarrow> is_active s \<Longrightarrow> is_active s' \<Longrightarrow> s = s'"
  unfolding registry_ok_def by (blast intro: length_filter_le_one)

lemma scanShard_by_id:
  assumes "registry_ok (shard_registry db)" and "s \<in> set (shard_registry db)"
  shows "scanShard (select_where (by_id (ShardID s)) db) = Some s"
proof (cases "scanShard (select_where (by_id (ShardID s)) db)")
  case None
  with assms show ?thesis by (auto simp: scanShard_None by_id_def)
next
  case (Some t)
  then have "t \<in> set (shard_registry db) \<and> ShardID t = ShardID s"
    using scanShard_Some by (fastforce simp: by_id_def)
  with assms Some show ?thesis by (auto dest: registry_ok_unique)
qed

subsection \<open>Invariants of the database\<close>

text \<open>
  An invariant of the tables that every write of the shard table meeting the constraints keeps.
  The operations on shards then keep it under every schedule of failures and interference.
\<close>

locale shard_table =
  fixes Inv :: "coord_db \<Rightarrow> bool"
  assumes tables: "same_tables db db' \<Longrightarrow> Inv db \<Longrightarrow> Inv db'"
    and registry: "Inv db \<Longrightarrow> registry_ok rows \<Longrightarrow> Inv (db\<lparr>shard_registry := rows\<rparr>)"
begin

lemmas try_inv = tryE_inv [where P = Inv]

lemma interfere_inv: "Inv db \<Longrightarrow> Inv (interfere db)"
proof -
  assume i: "Inv db"
  have other: "Inv (db\<lparr>cdb_others := os\<rparr>)" for os
    by (rule tables [OF _ i]) (simp add: same_tables_def)
  then have "registry_ok rows \<Longrightarrow> Inv (db\<lparr>cdb_others := os, shard_registry := rows\<rparr>)" for rows os
    by (rule registry)
  with i other show ?thesis by (auto simp: interfere_def split: list.splits option.splits)
qed

lemma tx_query_inv: "Inv db \<Longrightarrow> Inv (snd (tx_query p f db))"
  by (rule tables) simp_all

lemma query_inv: "Inv db \<Longrightarrow> Inv (snd (query p f db))"
  by (simp add: query_def tx_query_inv interfere_inv)

lemma tx_exec_inv:
  assumes "Inv db" and "\<And>d d'. Inv d \<Longrightarrow> f d = Some d' \<Longrightarrow> Inv d'"
  shows "Inv (snd (tx_exec f db))"
proof (cases "tx_exec f db")
  case (Pair r db')
  from tx_exec_cases [OF Pair] show ?thesis
    using assms tables Pair by (metis snd_conv)
qed

lemma exec_inv: "Inv db \<Longrightarrow> (\<And>d d'. Inv d \<Longrightarrow> f d = Some d' \<Longrightarrow> Inv d') \<Longrightarrow> Inv (snd (exec f db))"
  unfolding exec_def by (rule tx_exec_inv) (simp_all add: interfere_inv)

lemma in_tx_inv:
  assumes "Inv db" and "\<And>d. Inv d \<Longrightarrow> Inv (snd (body d))"
  shows "Inv (snd (in_tx body db))"
proof (cases "in_tx body db")
  case (Pair r db')
  have i: "Inv (interfere db)" by (rule interfere_inv [OF assms(1)])
  from in_tx_cases [OF Pair] show ?thesis
  proof
    assume "\<exists>e. r = Inl e \<and> same_tables (interfere db) db'"
    with i Pair show ?thesis using tables by auto
  next
    assume "\<exists>db1 x db2. same_tables (interfere db) db1 \<and> body db1 = (Inr x, db2) \<and> same_tables db2 db'
         \<and> (r = Inr x \<or> (\<exists>e. r = Inl e))"
    then obtain db1 x db2 where b: "same_tables (interfere db) db1" "body db1 = (Inr x, db2)" "same_tables db2 db'"
      by blast
    have "Inv db2" using assms(2) [OF tables [OF b(1) i]] b(2) by simp
    with b(3) Pair show ?thesis using tables by simp
  qed
qed

lemma put_registry_inv: "Inv d \<Longrightarrow> put_registry rows d = Some d' \<Longrightarrow> Inv d'"
  by (auto simp: put_registry_Some registry)

lemma now_inv: "Inv d \<Longrightarrow> Inv (snd (now d))"
  by (rule tables) simp_all

lemma update_where_inv: "Inv d \<Longrightarrow> update_where P f d = Some d' \<Longrightarrow> Inv d'"
  unfolding update_where_def by (rule put_registry_inv)

lemma update_shard_inv: "Inv d \<Longrightarrow> update_shard i f d = Some d' \<Longrightarrow> Inv d'"
  unfolding update_shard_def by (auto split: if_splits intro: update_where_inv)

lemma insert_standby_inv: "Inv d \<Longrightarrow> insert_standby i u p r d = Some d' \<Longrightarrow> Inv d'"
  unfolding insert_standby_def by (auto split: prod.splits intro: put_registry_inv dest: now_inv)

lemma refresh_shard_inv: "Inv d \<Longrightarrow> refresh_shard u p r d = Some d' \<Longrightarrow> Inv d'"
  unfolding refresh_shard_def by (auto split: prod.splits intro: update_where_inv dest: now_inv)

lemma now_pair_inv: "now d = (t, d') \<Longrightarrow> Inv d \<Longrightarrow> Inv d'"
  using now_inv [of d] by simp

lemma pair_inv: "Inv (snd q) \<Longrightarrow> q = (r, d) \<Longrightarrow> Inv d"
  by simp

lemma seal_row_inv: "Inv d \<Longrightarrow> Inv (snd (seal_row i d))"
  unfolding seal_row_def
  by (auto split: prod.split intro!: tx_exec_inv elim: update_shard_inv dest: now_pair_inv)

lemma seal_active_inv: "Inv d \<Longrightarrow> Inv (snd (seal_active t sa c d))"
  unfolding seal_active_def
  by (auto split: option.split intro!: tx_exec_inv elim: update_shard_inv)

lemma GetShard_inv: "Inv d \<Longrightarrow> Inv (snd (GetShard i d))"
  unfolding GetShard_def by (rule query_inv)

lemma ActiveShard_inv: "Inv d \<Longrightarrow> Inv (snd (ActiveShard d))"
  unfolding ActiveShard_def by (rule query_inv)

lemma StandbyShards_inv: "Inv d \<Longrightarrow> Inv (snd (StandbyShards d))"
  unfolding StandbyShards_def by (rule query_inv)

lemma StandbyShard_inv: "Inv d \<Longrightarrow> Inv (snd (StandbyShard d))"
  unfolding StandbyShard_def by (rule try_inv) (simp_all add: StandbyShards_inv)

lemma ListShards_inv: "Inv d \<Longrightarrow> Inv (snd (ListShards d))"
  unfolding ListShards_def by (rule query_inv)

lemma GetShardByUUID_inv: "Inv d \<Longrightarrow> Inv (snd (GetShardByUUID u d))"
  unfolding GetShardByUUID_def by (rule query_inv)

lemma upsert_inv:
  assumes "Inv d"
    and "(if c then update_shard i f d else case now d of (t, d') \<Rightarrow> put_registry (rows t d') d') = Some d''"
  shows "Inv d''"
  using assms by (auto split: if_splits prod.splits intro: update_shard_inv put_registry_inv dest: now_pair_inv)

lemma UpsertShard_inv: "Inv d \<Longrightarrow> Inv (snd (UpsertShard s d))"
  unfolding UpsertShard_def by (erule exec_inv) (erule (1) upsert_inv)

lemma seedShardFromBootstrap_inv: "Inv d \<Longrightarrow> Inv (snd (seedShardFromBootstrap s d))"
  unfolding seedShardFromBootstrap_def by (erule exec_inv) (erule (1) upsert_inv)

lemma SetShardState_inv: "Inv d \<Longrightarrow> Inv (snd (SetShardState i st n t d))"
  unfolding SetShardState_def by (erule exec_inv) (erule (1) update_shard_inv)

lemma MarkShardUnreachable_inv: "Inv d \<Longrightarrow> Inv (snd (MarkShardUnreachable i m d))"
  unfolding MarkShardUnreachable_def by (erule exec_inv) (erule (1) update_shard_inv)

lemma MarkShardReachable_inv: "Inv d \<Longrightarrow> Inv (snd (MarkShardReachable i d))"
  unfolding MarkShardReachable_def
  by (erule exec_inv) (auto split: prod.splits elim: update_shard_inv dest: now_pair_inv)

lemma tx_update_inv: "Inv d \<Longrightarrow> Inv (snd (tx_exec (update_shard i f) d))"
  by (erule tx_exec_inv) (erule (1) update_shard_inv)

lemma PromoteStandby_inv: "Inv d \<Longrightarrow> Inv (snd (PromoteStandby i sa d))"
  unfolding PromoteStandby_def
  by (erule in_tx_inv)
    (auto intro!: try_inv tx_query_inv tx_update_inv seal_active_inv split: option.split)

lemma RegisterShard_repo_inv: "Inv d \<Longrightarrow> Inv (snd (RegisterShard_repo u st p r d))"
  unfolding RegisterShard_repo_def Let_def
  by (erule in_tx_inv)
    (auto intro!: try_inv tx_query_inv tx_exec_inv elim: insert_standby_inv refresh_shard_inv)

lemma PatchShardState_repo_inv: "Inv d \<Longrightarrow> Inv (snd (PatchShardState_repo i st c d))"
  unfolding PatchShardState_repo_def
  by (erule in_tx_inv)
    (auto intro!: try_inv tx_query_inv tx_update_inv seal_row_inv split: option.split)

lemma FindShardByXMLHash_inv: "Inv d \<Longrightarrow> Inv (snd (FindShardByXMLHash h d))"
  unfolding FindShardByXMLHash_def
  by (auto intro!: try_inv query_inv GetShard_inv split: option.split)

lemma seed_all_inv: "Inv d \<Longrightarrow> Inv (snd (seed_all bs d))"
  by (induction bs d rule: seed_all.induct) (auto intro!: try_inv seedShardFromBootstrap_inv)

lemma BootstrapFromFile_inv: "Inv d \<Longrightarrow> Inv (snd (BootstrapFromFile f d))"
  by (auto simp: BootstrapFromFile_def seed_all_inv split: bootstrap_file.split)

lemmas repo_inv = GetShard_inv ActiveShard_inv StandbyShards_inv StandbyShard_inv ListShards_inv
  GetShardByUUID_inv UpsertShard_inv SetShardState_inv MarkShardReachable_inv MarkShardUnreachable_inv
  PromoteStandby_inv RegisterShard_repo_inv PatchShardState_repo_inv FindShardByXMLHash_inv BootstrapFromFile_inv

end

text \<open>
  An invariant that a row of the package index admitted by \<open>adm\<close> keeps as well, and that holds of
  empty tables, survives the remaining operations.
\<close>

locale coord_inv = shard_table +
  fixes adm :: "GlobalPackageIndex \<Rightarrow> bool"
  assumes package: "Inv db \<Longrightarrow> adm e \<Longrightarrow> \<forall>r\<in>set (global_package_index db). GlobalID r \<noteq> GlobalID e
        \<Longrightarrow> Inv (db\<lparr>global_package_index := global_package_index db @ [e]\<rparr>)"
    and xml: "Inv db \<Longrightarrow> Inv (db\<lparr>global_xml_index := ixs\<rparr>)"
    and truncated: "Inv (db\<lparr>shard_registry := [], global_package_index := [], global_xml_index := []\<rparr>)"
begin

lemma InsertGlobalPackage_inv: "Inv d \<Longrightarrow> adm e \<Longrightarrow> Inv (snd (InsertGlobalPackage e d))"
  unfolding InsertGlobalPackage_def
  by (erule exec_inv) (auto split: if_splits simp: list_ex_iff intro: package)

lemma InsertGlobalXMLHashes_inv: "Inv d \<Longrightarrow> Inv (snd (InsertGlobalXMLHashes i hs d))"
proof (induction hs arbitrary: d)
  case Nil
  then show ?case by simp
next
  case (Cons h hs)
  have step: "Inv (snd (exec (\<lambda>db. if c then None else if p db then Some db
      else Some (db\<lparr>global_xml_index := q db\<rparr>)) d))" for c p q
    by (rule exec_inv [OF Cons.prems]) (auto simp: xml split: if_splits)
  show ?case
    unfolding InsertGlobalXMLHashes.simps by (rule try_inv [OF step]) (rule Cons.IH)
qed

lemma TruncateAll_inv: "Inv d \<Longrightarrow> Inv (snd (TruncateAll d))"
  unfolding TruncateAll_def by (erule exec_inv) (auto simp: truncated)

end

text \<open>The constraints of the shard table, and the package index.\<close>

definition registry_inv :: "coord_db \<Rightarrow> bool" where
  "registry_inv db \<longleftrightarrow> registry_ok (shard_registry db)"

definition index_row_ok :: "GlobalPackageIndex \<Rightarrow> bool" where
  "index_row_ok e \<longleftrightarrow> GlobalID e = Encode (gpi_ShardID e) (gpi_LocalID e)"

definition index_inv :: "coord_db \<Rightarrow> bool" where
  "index_inv db \<longleftrightarrow> distinct (map GlobalID (global_package_index db)) \<and> list_all index_row_ok (global_package_index db)"

interpretation reg_rows: coord_inv registry_inv "\<lambda>_. True"
  by unfold_locales (simp_all add: registry_inv_def same_tables_def registry_ok_def)

interpretation idx_rows: coord_inv index_inv index_row_ok
  by unfold_locales (auto simp: index_inv_def same_tables_def)

interpretation same_idx: shard_table "\<lambda>db. global_package_index db = ix" for ix
  by unfold_locales (auto simp: same_tables_def)

subsection \<open>What the transactions do\<close>

definition sealed_by :: "SealedShardTransition \<Rightarrow> ShardInfo \<Rightarrow> ShardInfo" where
  "sealed_by a s = s\<lparr>State := ShardSealed, TotalBytes_of := sst_TotalBytes a,
     SealedAt := Some (sst_SealedAt a), LastError := None\<rparr>"

text \<open>The table a promotion leaves, and when it is allowed.\<close>

definition promote_rows :: "int \<Rightarrow> SealedShardTransition option \<Rightarrow> ShardInfo list \<Rightarrow> ShardInfo list" where
  "promote_rows target sa rows = map (\<lambda>s. if ShardID s = target then promoted s
     else case sa of None \<Rightarrow> s | Some a \<Rightarrow> if ShardID s = sst_ShardID a then sealed_by a s else s) rows"

definition promotable :: "int \<Rightarrow> SealedShardTransition option \<Rightarrow> ShardInfo list \<Rightarrow> bool" where
  "promotable target sa rows \<longleftrightarrow> (\<exists>s\<in>set rows. ShardID s = target \<and> State s = ShardStandby)
     \<and> (case sa of None \<Rightarrow> \<forall>s\<in>set rows. \<not> is_active s
        | Some a \<Rightarrow> \<exists>s\<in>set rows. ShardID s = sst_ShardID a \<and> is_active s \<and> sst_ShardID a \<noteq> target)"

lemma seal_active_Inr:
  assumes "seal_active t sa cur db = (Inr u, db')"
  shows "case sa of None \<Rightarrow> cur = None \<and> db' = db
    | Some a \<Rightarrow> (\<exists>c. cur = Some c \<and> ShardID c = sst_ShardID a)
        \<and> shard_registry db' = map (\<lambda>s. if ShardID s = sst_ShardID a then sealed_by a s else s) (shard_registry db)"
  using assms
  by (auto simp: seal_active_def update_shard_Some by_id_def sealed_by_def same_tables_def
      split: option.splits if_splits dest!: tx_exec_Inr)

lemma promoted_ID [simp]: "ShardID (promoted s) = ShardID s"
  by (simp add: promoted_def)

lemma sealed_by_ID [simp]: "ShardID (sealed_by a s) = ShardID s"
  by (simp add: sealed_by_def)

lemma PromoteStandby_outcome:
  assumes "PromoteStandby target sa db = (r, db')" and "registry_inv (interfere db)"
  shows "(\<exists>e. r = Inl e \<and> same_tables (interfere db) db')
    \<or> promotable target sa (shard_registry (interfere db))
      \<and> shard_registry db' = promote_rows target sa (shard_registry (interfere db))
      \<and> ((\<exists>e. r = Inl e) \<or> (\<exists>s. r = Inr (Some s) \<and> s \<in> set (shard_registry db') \<and> ShardID s = target \<and> is_active s))"
proof -
  let ?rows = "shard_registry (interfere db)"
  { fix db1 x db2
    assume t1: "same_tables (interfere db) db1" and t4: "same_tables db2 db'" and r: "r = Inr x \<or> (\<exists>e. r = Inl e)"
      and body: "tryE (tx_query (int2 target) (\<lambda>db. scanShard (select_where (by_id target) db)) db1) (\<lambda>tg db.
     case tg of None \<Rightarrow> (Inl ErrShardNotFound, db) | Some t \<Rightarrow>
     if State t \<noteq> ShardStandby then (Inl ErrStateConflict, db) else
     tryE (tx_query True (\<lambda>db. scanShard (select_where (\<lambda>s. is_active s \<and> ShardID s \<noteq> target) db)) db) (\<lambda>currentActive db.
     tryE (seal_active target sa currentActive db) (\<lambda>_ db.
     tryE (tx_exec (update_shard target promoted) db) (\<lambda>_ db.
     tx_query True (\<lambda>db. scanShard (select_where (by_id target) db)) db)))) = (Inr x, db2)"
    from body obtain t d1 c d2 u d3 v d4 where
      q1: "tx_query (int2 target) (\<lambda>db. scanShard (select_where (by_id target) db)) db1 = (Inr (Some t), d1)"
      and st: "State t = ShardStandby"
      and q2: "tx_query True (\<lambda>db. scanShard (select_where (\<lambda>s. is_active s \<and> ShardID s \<noteq> target) db)) d1 = (Inr c, d2)"
      and sl: "seal_active target sa c d2 = (Inr u, d3)"
      and up: "tx_exec (update_shard target promoted) d3 = (Inr v, d4)"
      and q3: "tx_query True (\<lambda>db. scanShard (select_where (by_id target) db)) d4 = (Inr x, db2)"
      by (auto simp: tryE_Inr_iff split: option.splits if_splits)
    have d1: "shard_registry d1 = ?rows" and t: "t \<in> set ?rows" "ShardID t = target"
      using tx_query_Inr [OF q1] t1 scanShard_Some [of "by_id target" d1 t] by (auto simp: same_tables_def by_id_def)
    have d2: "shard_registry d2 = ?rows" and c: "c = scanShard (select_where (\<lambda>s. is_active s \<and> ShardID s \<noteq> target) d2)"
      using tx_query_Inr [OF q2] d1 by (auto simp: same_tables_def)
    obtain d where "same_tables d3 d" "update_shard target promoted d = Some d4"
      using tx_exec_Inr [OF up] by blast
    then have ok4: "registry_ok (shard_registry d4)"
      and d4: "shard_registry d4 = map (\<lambda>s. if ShardID s = target then promoted s else s) (shard_registry d3)"
      by (auto simp: update_shard_Some same_tables_def by_id_def)
    have rows: "promotable target sa ?rows \<and> shard_registry d4 = promote_rows target sa ?rows"
    proof (cases sa)
      case None
      with seal_active_Inr [OF sl] have "c = None" and "d3 = d2" by auto
      then have noact: "\<forall>s\<in>set ?rows. \<not> (is_active s \<and> ShardID s \<noteq> target)"
        using c by (simp add: scanShard_None d2 eq_commute [of None])
      have "\<not> is_active s" if "s \<in> set ?rows" for s
        using noact that registry_ok_unique [OF _ that t(1)] assms(2) st t(2)
        by (auto simp: registry_inv_def is_active_def)
      with None t st \<open>d3 = d2\<close> show ?thesis
        by (auto simp: promotable_def promote_rows_def d4 d2)
    next
      case (Some a)
      with seal_active_Inr [OF sl] obtain k where k: "c = Some k" "ShardID k = sst_ShardID a"
        and d3: "shard_registry d3 = map (\<lambda>s. if ShardID s = sst_ShardID a then sealed_by a s else s) ?rows"
        by (auto simp: d2)
      then have "k \<in> set ?rows \<and> is_active k \<and> ShardID k \<noteq> target"
        using scanShard_Some [of "\<lambda>s. is_active s \<and> ShardID s \<noteq> target" d2 k] c d2 by auto
      with Some t st k show ?thesis
        by (auto simp: promotable_def promote_rows_def d4 d3)
    qed
    have db2: "shard_registry db2 = shard_registry d4" and x: "x = scanShard (select_where (by_id target) db2)"
      using tx_query_Inr [OF q3] by (auto simp: same_tables_def)
    have mem: "promoted t \<in> set (shard_registry db2)"
      using rows t by (force simp: db2 promote_rows_def)
    then have "x = Some (promoted t)"
      using scanShard_by_id [of db2 "promoted t"] ok4 t(2) by (simp add: db2 x)
    moreover have "shard_registry db' = shard_registry db2" using t4 by (simp add: same_tables_def)
    ultimately have "promotable target sa ?rows \<and> shard_registry db' = promote_rows target sa ?rows
      \<and> ((\<exists>e. r = Inl e) \<or> (\<exists>s. r = Inr (Some s) \<and> s \<in> set (shard_registry db') \<and> ShardID s = target \<and> is_active s))"
      using rows db2 mem r t(2) by (auto simp: promoted_def is_active_def) }
  with in_tx_cases [OF assms(1) [unfolded PromoteStandby_def]] show ?thesis by blast
qed

definition standby_row :: "int \<Rightarrow> string \<Rightarrow> string \<Rightarrow> string option \<Rightarrow> time \<Rightarrow> ShardInfo" where
  "standby_row i u p rep t = \<lparr>ShardID = i, ShardUUID = Some u, State = ShardStandby, PrimaryURL = p,
     ReplicaURL = rep, TotalBytes_of = 0, SealedAt = None, LastSeenAt = Some t, LastError = None, CreatedAt = t\<rparr>"

definition has_uuid :: "string \<Rightarrow> ShardInfo \<Rightarrow> bool" where
  "has_uuid u s \<longleftrightarrow> ShardUUID s = Some u"

definition refreshed :: "string \<Rightarrow> string \<Rightarrow> string option \<Rightarrow> time \<Rightarrow> ShardInfo \<Rightarrow> ShardInfo" where
  "refreshed u p rep t s = (if has_uuid u s
     then s\<lparr>PrimaryURL := p, ReplicaURL := rep, LastSeenAt := Some t, LastError := None\<rparr> else s)"

definition register_rows :: "string \<Rightarrow> string \<Rightarrow> string option \<Rightarrow> time \<Rightarrow> ShardInfo list \<Rightarrow> ShardInfo list" where
  "register_rows u p rep t rows =
     (if list_ex (has_uuid u) rows
      then map (refreshed u p rep t) rows
      else rows @ [standby_row (fold max (map ShardID rows) (- 1) + 1) u p rep t])"

lemma now_registry: "now db = (t, db') \<Longrightarrow> shard_registry db' = shard_registry db"
  using shard_registry_now [of db] by simp

lemma refresh_shard_Some:
  assumes "refresh_shard u p rep d = Some d'"
  shows "shard_registry d' = map (refreshed u p rep (fst (now d))) (shard_registry d)"
  using assms
  by (cases "now d")
    (auto simp: refresh_shard_def update_where_def put_registry_Some has_uuid_def refreshed_def now_registry)

lemma refreshed_uuid [simp]: "ShardUUID (refreshed u p rep t s) = ShardUUID s"
  by (simp add: refreshed_def)

lemma insert_standby_Some:
  assumes "insert_standby n u p rep d = Some d'"
  shows "registry_ok (shard_registry d') \<and> shard_registry d' = shard_registry d @ [standby_row n u p rep (fst (now d))]"
  using assms
  by (cases "now d") (auto simp: insert_standby_def standby_row_def put_registry_Some now_registry)

abbreviation (input) find_uuid :: "string \<Rightarrow> coord_db \<Rightarrow> ShardInfo option" where
  "find_uuid u db \<equiv> scanShard (select_where (\<lambda>s. ShardUUID s = Some u) db)"

text \<open>The table and the answer of a registration that ran on \<open>rows\<close>.\<close>

definition registered :: "string \<Rightarrow> string \<Rightarrow> string option \<Rightarrow> ShardInfo list \<Rightarrow> ShardInfo list \<Rightarrow> ShardInfo option \<times> bool \<Rightarrow> bool" where
  "registered u p rep rows rows' x \<longleftrightarrow> (\<exists>t. rows' = register_rows u p rep t rows)
     \<and> (\<exists>s. x = (Some s, \<not> list_ex (has_uuid u) rows) \<and> s \<in> set rows' \<and> ShardUUID s = Some u)"

lemma register_refresh:
  assumes "find_uuid u d \<noteq> None"
    and "tryE (tx_exec (refresh_shard u p rep) d) (\<lambda>_ db.
       tryE (tx_query True (find_uuid u) db) (\<lambda>updated db. (Inr (updated, False), db))) = (Inr x, db2)"
  shows "registered u p rep (shard_registry d) (shard_registry db2) x"
proof -
  from assms(2) obtain v d1 y where up: "tx_exec (refresh_shard u p rep) d = (Inr v, d1)"
    and q: "tx_query True (find_uuid u) d1 = (Inr y, db2)" and x: "x = (y, False)"
    by (auto simp: tryE_Inr_iff)
  from tx_exec_Inr [OF up] obtain d0 where d0: "same_tables d d0" "refresh_shard u p rep d0 = Some d1" by blast
  then have d1: "shard_registry d1 = map (refreshed u p rep (fst (now d0))) (shard_registry d)"
    using refresh_shard_Some [OF d0(2)] by (simp add: same_tables_def)
  have ex: "list_ex (has_uuid u) (shard_registry d)"
    using assms(1) by (auto simp: scanShard_None list_ex_iff has_uuid_def)
  then obtain s where "s \<in> set (shard_registry d)" "has_uuid u s" by (auto simp: list_ex_iff)
  then have "find_uuid u d1 \<noteq> None" unfolding scanShard_None d1 by (force simp: has_uuid_def)
  moreover have db2: "shard_registry db2 = shard_registry d1" and y: "y = find_uuid u d1"
    using tx_query_Inr [OF q] by (auto simp: same_tables_registry select_where_same)
  ultimately obtain s' where s': "find_uuid u d1 = Some s'" by blast
  show ?thesis
    using ex x y scanShard_Some [OF s'] s' by (auto simp: registered_def register_rows_def db2 d1)
qed

lemma register_insert:
  assumes "find_uuid u d = None"
    and "tryE (tx_query True next_shard_id d) (\<lambda>nextID db.
       tryE (tx_exec (insert_standby nextID u p rep) db) (\<lambda>_ db.
       tryE (tx_query (int2 nextID) (\<lambda>db. scanShard (select_where (by_id nextID) db)) db) (\<lambda>created db.
       (Inr (created, True), db)))) = (Inr x, db2)"
  shows "registered u p rep (shard_registry d) (shard_registry db2) x"
proof -
  from assms(2) obtain n d1 v d2 y where q1: "tx_query True next_shard_id d = (Inr n, d1)"
    and up: "tx_exec (insert_standby n u p rep) d1 = (Inr v, d2)"
    and q2: "tx_query (int2 n) (\<lambda>db. scanShard (select_where (by_id n) db)) d2 = (Inr y, db2)" and x: "x = (y, True)"
    by (auto simp: tryE_Inr_iff)
  have n: "n = fold max (map ShardID (shard_registry d)) (- 1) + 1" and d1: "shard_registry d1 = shard_registry d"
    using tx_query_Inr [OF q1] by (auto simp: same_tables_def next_shard_id_def)
  from tx_exec_Inr [OF up] obtain d0 where d0: "same_tables d1 d0" "insert_standby n u p rep d0 = Some d2" by blast
  define t where "t = fst (now d0)"
  have ok: "registry_ok (shard_registry d2)" and d2: "shard_registry d2 = shard_registry d @ [standby_row n u p rep t]"
    using insert_standby_Some [OF d0(2)] d0(1) d1 by (auto simp: same_tables_def t_def)
  have nex: "\<not> list_ex (has_uuid u) (shard_registry d)"
    using assms(1) by (auto simp: scanShard_None list_ex_iff has_uuid_def)
  have db2: "shard_registry db2 = shard_registry d2" and y: "y = scanShard (select_where (by_id n) db2)"
    using tx_query_Inr [OF q2] by (auto simp: same_tables_def)
  have "y = Some (standby_row n u p rep t)"
    using scanShard_by_id [of db2 "standby_row n u p rep t"] ok by (simp add: y db2 d2 standby_row_def)
  then show ?thesis
    using nex x by (auto simp: registered_def register_rows_def db2 d2 n standby_row_def)
qed

lemma RegisterShard_repo_outcome:
  assumes "RegisterShard_repo u st p rep db = (r, db')"
  shows "(\<exists>e. r = Inl e \<and> same_tables (interfere db) db')
    \<or> (\<exists>x. registered u p rep (shard_registry (interfere db)) (shard_registry db') x \<and> (r = Inr x \<or> (\<exists>e. r = Inl e)))"
proof -
  have "registered u p rep (shard_registry db1) (shard_registry db2) x"
    if "(let find = find_uuid u in
     tryE (tx_query True find db1) (\<lambda>existing db.
     if existing \<noteq> None then
       tryE (tx_exec (refresh_shard u p rep) db) (\<lambda>_ db.
       tryE (tx_query True find db) (\<lambda>updated db. (Inr (updated, False), db)))
     else
       tryE (tx_query True next_shard_id db) (\<lambda>nextID db.
       tryE (tx_exec (insert_standby nextID u p rep) db) (\<lambda>_ db.
       tryE (tx_query (int2 nextID) (\<lambda>db. scanShard (select_where (by_id nextID) db)) db) (\<lambda>created db.
       (Inr (created, True), db)))))) = (Inr x, db2)" for db1 x db2
  proof -
    from that obtain e d where q: "tx_query True (find_uuid u) db1 = (Inr e, d)"
      unfolding Let_def tryE_Inr_iff [of "tx_query True (find_uuid u) db1"] by blast
    have d: "shard_registry d = shard_registry db1" and e: "e = find_uuid u d"
      using tx_query_Inr [OF q] by (auto simp: same_tables_def)
    show ?thesis
    proof (cases "e = None")
      case True
      with that q have "registered u p rep (shard_registry d) (shard_registry db2) x"
        by (intro register_insert) (simp_all add: e)
      with d show ?thesis by simp
    next
      case False
      with that q have "registered u p rep (shard_registry d) (shard_registry db2) x"
        by (intro register_refresh) (simp_all add: e)
      with d show ?thesis by simp
    qed
  qed
  with in_tx_cases [OF assms [unfolded RegisterShard_repo_def]] show ?thesis
    by (metis (no_types, lifting) same_tables_registry)
qed

subsection \<open>Properties\<close>

lemma fold_max_ge: "x \<in> set xs \<Longrightarrow> x \<le> fold max xs (a :: int)" "a \<le> fold max xs a"
proof (induction xs arbitrary: a)
  case (Cons y ys)
  { case 1
    with Cons.IH [of "max y a"] show ?case by (auto intro: order_trans)
  next
    case 2
    with Cons.IH(2) [of "max y a"] show ?case by (auto intro: order_trans)
  }
qed simp_all

lemma filter_single:
  assumes "length (filter P xs) \<le> 1" and "x \<in> set xs" and "P x"
  shows "filter P xs = [x]"
proof -
  have "x \<in> set (filter P xs)" using assms by simp
  with assms(1) show ?thesis by (cases "filter P xs") auto
qed

definition sample_shard :: "int \<Rightarrow> ShardState \<Rightarrow> ShardInfo" where
  "sample_shard i st = \<lparr>ShardID = i, ShardUUID = None, State = st, PrimaryURL = ''http://s'' @ itoa i,
     ReplicaURL = None, TotalBytes_of = 10, SealedAt = None, LastSeenAt = None, LastError = None, CreatedAt = 1\<rparr>"

definition sample_db :: "ShardInfo list \<Rightarrow> coord_db" where
  "sample_db rows = \<lparr>shard_registry = rows, global_package_index = [], global_xml_index = [], cdb_faults = [],
     cdb_clock = [], cdb_others = []\<rparr>"

lemma sample_registry_inv:
  "registry_inv (sample_db [sample_shard 0 ShardActive, sample_shard 1 ShardStandby])"
  by (simp add: registry_inv_def sample_db_def sample_shard_def registry_ok_def is_active_def int2_def map_filter_simps)

text \<open>
  A promotion that reports success ran on a table whose target row was standby
  and whose only active row was the one it was told to seal (none, when told none); it leaves
  the target active, that row sealed, and every other row as it was. A promotion that reports
  an error leaves the shard table as it found it, or fully promoted when the answer to the
  commit was lost; nothing in between.
\<close>

theorem PromoteStandby_all_or_nothing:
  assumes "registry_inv db"
  shows "case PromoteStandby target sa db of
      (Inl e, db') \<Rightarrow> shard_registry db' = shard_registry (interfere db)
         \<or> promotable target sa (shard_registry (interfere db))
           \<and> shard_registry db' = promote_rows target sa (shard_registry (interfere db))
    | (Inr s, db') \<Rightarrow> promotable target sa (shard_registry (interfere db))
         \<and> shard_registry db' = promote_rows target sa (shard_registry (interfere db))
         \<and> (\<exists>row. s = Some row \<and> filter is_active (shard_registry db') = [row] \<and> ShardID row = target)"
proof (cases "PromoteStandby target sa db")
  case (Pair r db')
  have "registry_inv (interfere db)" using assms by (rule reg_rows.interfere_inv)
  from PromoteStandby_outcome [OF Pair this] have out: "(\<exists>e. r = Inl e \<and> same_tables (interfere db) db')
    \<or> promotable target sa (shard_registry (interfere db))
      \<and> shard_registry db' = promote_rows target sa (shard_registry (interfere db))
      \<and> ((\<exists>e. r = Inl e) \<or> (\<exists>s. r = Inr (Some s) \<and> s \<in> set (shard_registry db') \<and> ShardID s = target \<and> is_active s))" .
  have "length (filter is_active (shard_registry db')) \<le> 1"
    using reg_rows.PromoteStandby_inv [OF assms, of target sa] Pair by (simp add: registry_inv_def registry_ok_def)
  then have one: "filter is_active (shard_registry db') = [s]" if "s \<in> set (shard_registry db')" "is_active s" for s
    using that by (rule filter_single)
  show ?thesis
  proof (cases r)
    case (Inl e)
    with out Pair show ?thesis by (auto simp: same_tables_def)
  next
    case (Inr x)
    with out obtain s where s: "x = Some s" "s \<in> set (shard_registry db')" "ShardID s = target" "is_active s"
      and "promotable target sa (shard_registry (interfere db))"
      and "shard_registry db' = promote_rows target sa (shard_registry (interfere db))" by blast
    with Pair Inr one [OF s(2,4)] show ?thesis by simp
  qed
qed

theorem PromoteStandby_all_or_nothing_witness:
  "\<exists>row db'. PromoteStandby 1 (Some \<lparr>sst_ShardID = 0, sst_TotalBytes = 7, sst_SealedAt = 5\<rparr>)
      (sample_db [sample_shard 0 ShardActive, sample_shard 1 ShardStandby]) = (Inr (Some row), db')
     \<and> filter is_active (shard_registry db') = [row]"
proof -
  let ?p = "PromoteStandby 1 (Some \<lparr>sst_ShardID = 0, sst_TotalBytes = 7, sst_SealedAt = 5\<rparr>)
      (sample_db [sample_shard 0 ShardActive, sample_shard 1 ShardStandby])"
  have "\<not> Option.is_none (case ?p of (Inl _, _) \<Rightarrow> None | (Inr s, _) \<Rightarrow> s)" by code_simp
  then obtain row db' where "?p = (Inr (Some row), db')"
    by (cases ?p) (auto simp: Option.is_none_def split: sum.splits)
  with PromoteStandby_all_or_nothing [OF sample_registry_inv, of 1 "Some \<lparr>sst_ShardID = 0, sst_TotalBytes = 7, sst_SealedAt = 5\<rparr>"]
  show ?thesis by auto
qed

text \<open>
  Registration never changes the state, the id or the uuid of a shard that is
  there, and adds at most one row: a standby shard whose id is larger than every id in the
  table, when no row had the uuid. Success reports the row with the uuid and whether it is new.
\<close>

theorem RegisterShard_standby_only:
  assumes "registry_inv db"
  shows "case RegisterShard_repo u st p rep db of (r, db') \<Rightarrow>
    (\<exists>new. map (\<lambda>s. (ShardID s, ShardUUID s, State s)) (shard_registry db')
        = map (\<lambda>s. (ShardID s, ShardUUID s, State s)) (shard_registry (interfere db)) @ new
      \<and> (new = [] \<or> (\<exists>i. new = [(i, Some u, ShardStandby)] \<and> \<not> list_ex (has_uuid u) (shard_registry (interfere db))
            \<and> list_all (\<lambda>s. ShardID s < i) (shard_registry (interfere db)) \<and> 0 \<le> i))
      \<and> (case r of Inl _ \<Rightarrow> True
         | Inr (s, created) \<Rightarrow> created = (new \<noteq> []) \<and> (\<exists>row. s = Some row \<and> row \<in> set (shard_registry db') \<and> ShardUUID row = Some u)))"
proof (cases "RegisterShard_repo u st p rep db")
  case (Pair r db')
  let ?rows = "shard_registry (interfere db)"
  let ?key = "\<lambda>s. (ShardID s, ShardUUID s, State s)"
  have refr: "map ?key (map (refreshed u p rep t) ?rows) = map ?key ?rows" for t
    by (simp add: refreshed_def)
  from RegisterShard_repo_outcome [OF Pair] show ?thesis
  proof
    assume "\<exists>e. r = Inl e \<and> same_tables (interfere db) db'"
    with Pair show ?thesis by (auto simp: same_tables_def)
  next
    assume "\<exists>x. registered u p rep ?rows (shard_registry db') x \<and> (r = Inr x \<or> (\<exists>e. r = Inl e))"
    then obtain x t s where t: "shard_registry db' = register_rows u p rep t ?rows" and r: "r = Inr x \<or> (\<exists>e. r = Inl e)"
      and s: "x = (Some s, \<not> list_ex (has_uuid u) ?rows)" "s \<in> set (shard_registry db')" "ShardUUID s = Some u"
      by (auto simp: registered_def)
    show ?thesis
    proof (cases "list_ex (has_uuid u) ?rows")
      case True
      then have "map ?key (shard_registry db') = map ?key ?rows @ []"
        using refr t by (simp add: register_rows_def)
      with Pair r s True show ?thesis by (cases r) auto
    next
      case False
      define i where "i = fold max (map ShardID ?rows) (- 1) + 1"
      have "map ?key (shard_registry db') = map ?key ?rows @ [(i, Some u, ShardStandby)]"
        using False t by (simp add: register_rows_def standby_row_def i_def)
      moreover have "list_all (\<lambda>s. ShardID s < i) ?rows" and "0 \<le> i"
        using fold_max_ge(1) [of _ "map ShardID ?rows" "-1"] fold_max_ge(2) [of "-1" "map ShardID ?rows"]
        by (auto simp: i_def list_all_iff intro: zless_add1_eq [THEN iffD2] order_le_imp_less_or_eq)
      ultimately show ?thesis using Pair r s False by (cases r) auto
    qed
  qed
qed


theorem RegisterShard_standby_only_witness:
  "\<exists>row db'. RegisterShard_repo ''u'' ShardActive ''http://n'' None
      (sample_db [sample_shard 0 ShardActive, sample_shard 1 ShardStandby]) = (Inr (Some row, True), db')
     \<and> ShardUUID row = Some ''u'' \<and> map State (shard_registry db') = [ShardActive, ShardStandby, ShardStandby]"
proof -
  let ?p = "RegisterShard_repo ''u'' ShardActive ''http://n'' None
      (sample_db [sample_shard 0 ShardActive, sample_shard 1 ShardStandby])"
  have "(case ?p of (Inl _, _) \<Rightarrow> False | (Inr (s, c), db) \<Rightarrow> c \<and> map State (shard_registry db) = [ShardActive, ShardStandby, ShardStandby])"
    by code_simp
  moreover obtain r db' where p: "?p = (r, db')" by fastforce
  ultimately obtain s where "r = Inr (s, True)" and "map State (shard_registry db') = [ShardActive, ShardStandby, ShardStandby]"
    by (auto split: sum.splits)
  with p RegisterShard_standby_only [OF sample_registry_inv, of "''u''" ShardActive "''http://n''" None]
  show ?thesis by auto
qed

end
