(* ===== verification/Json.thy ===== *)
theory Json
  imports Lbf_Prelude
begin

text \<open>
  JSON values as \<^verbatim>\<open>encoding/json\<close> decodes them. A number without fraction or exponent is
  \<open>JNum\<close>; any other number is \<open>JReal t\<close>, where \<open>t\<close> is its value truncated towards zero. Decoding
  into \<^verbatim>\<open>any\<close> turns numbers into \<^verbatim>\<open>float64\<close>, so integers are rounded to 53 significant bits, and
  the last of several equal keys of an object wins. The order of keys carries no meaning.
\<close>

datatype json =
    JNull
  | JBool bool
  | JNum int
  | JReal int
  | JStr string
  | JArr "json list"
  | JObj "(string \<times> json) list"

subsection \<open>Numbers\<close>

fun bit_length :: "nat \<Rightarrow> nat" where
  "bit_length n = (if n = 0 then 0 else Suc (bit_length (n div 2)))"

declare bit_length.simps [simp del]

text \<open>The nearest \<^verbatim>\<open>float64\<close> of an integer, ties to even.\<close>

definition f64 :: "int \<Rightarrow> int" where
  "f64 i = (let n = nat \<bar>i\<bar>; m = 2 ^ (bit_length n - 53); q = n div m; r = n mod m;
                q' = (if 2 * r > m \<or> 2 * r = m \<and> odd q then q + 1 else q)
            in sgn i * int (q' * m))"

text \<open>\<^verbatim>\<open>int64(f)\<close> of an integral \<^verbatim>\<open>float64\<close>; out of range the conversion yields the least value.\<close>

definition int64_of_float :: "int \<Rightarrow> int" where
  "int64_of_float v = (if - (2 ^ 63) \<le> v \<and> v < 2 ^ 63 then v else - (2 ^ 63))"

lemma bit_length_le: "n < 2 ^ k \<Longrightarrow> bit_length n \<le> k"
proof (induction k arbitrary: n)
  case 0
  then show ?case by (simp add: bit_length.simps)
next
  case (Suc k)
  then have "bit_length (n div 2) \<le> k" by (intro Suc.IH) (simp add: div_less_iff_less_mult mult.commute)
  then show ?case by (simp add: bit_length.simps [of n])
qed

lemma f64_exact: "\<bar>i\<bar> < 2 ^ 53 \<Longrightarrow> f64 i = i"
proof -
  assume "\<bar>i\<bar> < 2 ^ 53"
  then have "bit_length (nat \<bar>i\<bar>) \<le> 53" by (intro bit_length_le) (simp add: nat_less_iff)
  then show ?thesis by (simp add: f64_def Let_def sgn_mult_abs)
qed

subsection \<open>Objects\<close>

fun obj_set :: "string \<Rightarrow> json \<Rightarrow> (string \<times> json) list \<Rightarrow> (string \<times> json) list" where
  "obj_set k v [] = [(k, v)]"
| "obj_set k v ((k', v') # kvs) = (if k = k' then (k, v) # kvs else (k', v') # obj_set k v kvs)"

definition obj_get :: "string \<Rightarrow> (string \<times> json) list \<Rightarrow> json" where
  "obj_get k kvs = (case map_of kvs k of None \<Rightarrow> JNull | Some v \<Rightarrow> v)"

definition obj_of :: "(string \<times> json) list \<Rightarrow> (string \<times> json) list" where
  "obj_of kvs = foldl (\<lambda>m (k, v). obj_set k v m) [] kvs"

text \<open>Decoding into \<^verbatim>\<open>any\<close>.\<close>

fun decode_any :: "json \<Rightarrow> json" where
  "decode_any (JNum i) = JNum (f64 i)"
| "decode_any (JArr vs) = JArr (map decode_any vs)"
| "decode_any (JObj kvs) = JObj (obj_of (map (\<lambda>kv. (fst kv, decode_any (snd kv))) kvs))"
| "decode_any v = v"

text \<open>
  \<^verbatim>\<open>json.Unmarshal\<close> into a \<^verbatim>\<open>map[string]any\<close>: \<open>None\<close> is the nil map that \<^verbatim>\<open>null\<close> leaves.
\<close>

definition Unmarshal_map :: "json option \<Rightarrow> error + (string \<times> json) list option" where
  "Unmarshal_map j = (case j of
       None \<Rightarrow> Inl (Err ''invalid json'')
     | Some JNull \<Rightarrow> Inr None
     | Some (JObj kvs) \<Rightarrow> Inr (Some (obj_of (map (\<lambda>kv. (fst kv, decode_any (snd kv))) kvs)))
     | Some _ \<Rightarrow> Inl (Err ''json: cannot unmarshal into map''))"

lemma map_of_obj_set: "map_of (obj_set k v kvs) = (map_of kvs)(k \<mapsto> v)"
  by (induction k v kvs rule: obj_set.induct) auto

lemma obj_get_set [simp]: "obj_get k (obj_set k' v kvs) = (if k = k' then v else obj_get k kvs)"
  by (simp add: obj_get_def map_of_obj_set)

lemma map_of_obj_of: "map_of (obj_of kvs) = map_of (rev kvs)"
proof -
  have "map_of (foldl (\<lambda>m (k, v). obj_set k v m) m0 kvs) = map_of m0 ++ map_of (rev kvs)" for m0
    by (induction kvs arbitrary: m0) (auto simp: map_of_obj_set map_add_def fun_eq_iff split: option.splits)
  from this [of "[]"] show ?thesis by (simp add: obj_of_def)
qed

end
