(* ===== verification/Sha256.thy ===== *)
theory Sha256
  imports Lbf_Prelude
begin

text \<open>
  SHA-256 (\<^verbatim>\<open>crypto/sha256\<close>), the content hash of blobs and packages
  (\<^verbatim>\<open>storage/blob_store.go\<close>, \<^verbatim>\<open>coordinator/hash.go\<close>): padding, message schedule and
  compression on 32-bit words, all executable. The digest always has 32 bytes and the padded
  message is a whole number of blocks.
\<close>

text \<open>The round constants and the initial state, in decimal.\<close>

definition sha_K :: "u32 list" where
  "sha_K = [1116352408, 1899447441, 3049323471, 3921009573, 961987163, 1508970993, 2453635748,
      2870763221, 3624381080, 310598401, 607225278, 1426881987, 1925078388, 2162078206,
      2614888103, 3248222580, 3835390401, 4022224774, 264347078, 604807628, 770255983,
      1249150122, 1555081692, 1996064986, 2554220882, 2821834349, 2952996808, 3210313671,
      3336571891, 3584528711, 113926993, 338241895, 666307205, 773529912, 1294757372,
      1396182291, 1695183700, 1986661051, 2177026350, 2456956037, 2730485921, 2820302411,
      3259730800, 3345764771, 3516065817, 3600352804, 4094571909, 275423344, 430227734,
      506948616, 659060556, 883997877, 958139571, 1322822218, 1537002063, 1747873779,
      1955562222, 2024104815, 2227730452, 2361852424, 2428436474, 2756734187, 3204031479,
      3329325298]"

definition sha_init :: "u32 list" where
  "sha_init = [1779033703, 3144134277, 1013904242, 2773480762, 1359893119, 2600822924, 528734635, 1541459225]"

definition rotr :: "nat \<Rightarrow> u32 \<Rightarrow> u32" where
  "rotr n w = drop_bit n w OR push_bit (32 - n) w"

definition sha_Ch :: "u32 \<Rightarrow> u32 \<Rightarrow> u32 \<Rightarrow> u32" where
  "sha_Ch x y z = (x AND y) XOR (NOT x AND z)"

definition sha_Maj :: "u32 \<Rightarrow> u32 \<Rightarrow> u32 \<Rightarrow> u32" where
  "sha_Maj x y z = (x AND y) XOR (x AND z) XOR (y AND z)"

definition sha_S0 :: "u32 \<Rightarrow> u32" where "sha_S0 x = rotr 2 x XOR rotr 13 x XOR rotr 22 x"
definition sha_S1 :: "u32 \<Rightarrow> u32" where "sha_S1 x = rotr 6 x XOR rotr 11 x XOR rotr 25 x"
definition sha_s0 :: "u32 \<Rightarrow> u32" where "sha_s0 x = rotr 7 x XOR rotr 18 x XOR drop_bit 3 x"
definition sha_s1 :: "u32 \<Rightarrow> u32" where "sha_s1 x = rotr 17 x XOR rotr 19 x XOR drop_bit 10 x"

subsection \<open>Words of a block, padding\<close>

fun be_word :: "bytes \<Rightarrow> u32" where
  "be_word [] = 0"
| "be_word (b # bs) = push_bit (8 * length bs) (ucast b) OR be_word bs"

fun be_words :: "bytes \<Rightarrow> u32 list" where
  "be_words (a # b # c # d # rest) = be_word [a, b, c, d] # be_words rest"
| "be_words _ = []"

definition be_bytes :: "u32 \<Rightarrow> bytes" where
  "be_bytes w = rev (le_put 4 w)"

definition sha_pad :: "bytes \<Rightarrow> bytes" where
  "sha_pad m = m @ [0x80] @ replicate ((119 - length m mod 64) mod 64) 0
     @ rev (le_put 8 (of_nat (8 * length m) :: u64))"

fun sha_blocks :: "nat \<Rightarrow> bytes \<Rightarrow> bytes list" where
  "sha_blocks 0 m = []"
| "sha_blocks (Suc n) m = take 64 m # sha_blocks n (drop 64 m)"

subsection \<open>Message schedule and compression\<close>

text \<open>The schedule is kept newest word first: positions 1, 6, 14, 15 are $t-2$, $t-7$, $t-15$, $t-16$.\<close>

fun sha_extend :: "nat \<Rightarrow> u32 list \<Rightarrow> u32 list" where
  "sha_extend 0 ws = ws"
| "sha_extend (Suc n) ws =
     sha_extend n ((sha_s1 (ws ! 1) + ws ! 6 + sha_s0 (ws ! 14) + ws ! 15) # ws)"

definition sha_schedule :: "bytes \<Rightarrow> u32 list" where
  "sha_schedule block = rev (sha_extend 48 (rev (be_words block)))"

fun sha_round :: "u32 list \<Rightarrow> u32 \<times> u32 \<Rightarrow> u32 list" where
  "sha_round [a, b, c, d, e, f, g, h] (k, w) =
     (let t1 = h + sha_S1 e + sha_Ch e f g + k + w;
          t2 = sha_S0 a + sha_Maj a b c
      in [t1 + t2, a, b, c, d + t1, e, f, g])"
| "sha_round st kw = st"

definition sha_compress :: "u32 list \<Rightarrow> bytes \<Rightarrow> u32 list" where
  "sha_compress h block =
     map2 (+) h (foldl sha_round h (zip sha_K (sha_schedule block)))"

definition Sum256 :: "bytes \<Rightarrow> bytes" where
  "Sum256 m = (let p = sha_pad m
     in concat (map be_bytes (foldl sha_compress sha_init (sha_blocks (length p div 64) p))))"

subsection \<open>The digest has 32 bytes\<close>

lemma length_sha_round [simp]: "length (sha_round st kw) = length st"
  by (cases "(st, kw)" rule: sha_round.cases) (auto simp: Let_def)

lemma length_foldl_sha_round [simp]: "length (foldl sha_round st kws) = length st"
  by (induction kws arbitrary: st) simp_all

lemma length_foldl_sha_compress [simp]: "length (foldl sha_compress st bs) = length st"
  by (induction bs arbitrary: st) (simp_all add: sha_compress_def)

lemma length_concat_be_bytes: "length (concat (map be_bytes ws)) = 4 * length ws"
  by (induction ws) (simp_all add: be_bytes_def)

lemma length_Sum256 [simp]: "length (Sum256 m) = 32"
  by (simp add: Sum256_def Let_def length_concat_be_bytes sha_init_def)

lemma length_sha_pad: "64 dvd length (sha_pad m)"
proof -
  define r where "r = length m mod 64"
  have r: "r < 64" and m: "length m = 64 * (length m div 64) + r"
    by (simp_all add: r_def)
  have "(119 - r) mod 64 + r + 9 = 64 \<or> (119 - r) mod 64 + r + 9 = 128"
    using r by (cases "r \<le> 55") (simp_all add: le_mod_geq)
  then have "64 dvd ((119 - r) mod 64 + r + 9)" by auto
  moreover have "length (sha_pad m) = 64 * (length m div 64) + ((119 - r) mod 64 + r + 9)"
    using m by (simp add: sha_pad_def r_def)
  ultimately show ?thesis by simp
qed

end
