(* ===== verification/Coord_Registry.thy ===== *)
theory Coord_Registry
  imports Coord_Repo Json Sha256
begin

text \<open>
  The coordinator's registry (\<^verbatim>\<open>internal/coordinator/registry.go\<close>, \<^verbatim>\<open>hash.go\<close>): rotation of the
  active shard and the package proxy. The state is the database, the schedule of answers of
  the shards, and the log of requests (each with the answer it got) and metrics set. An answer is a failure to build
  the request, a failure to get a response, or a response with its text and what that text
  parses to. \<^verbatim>\<open>rotationMu\<close> is not modelled: the interference of the database model may change
  the shard table before any statement, whether or not the mutex is held.
\<close>

subsection \<open>Shards' answers\<close>

record response =
  rsp_code :: int
  rsp_status :: string
  rsp_type :: string
  rsp_text :: string
  rsp_json :: "json option"
  rsp_broken :: "string option"

datatype reply = BadRequest string | NoResponse string | Response response

datatype event =
    Sent string string "(string \<times> string) list" "string option" bytes reply
  | ShardUp int string bool
  | ShardFailure int string

record Registry =
  shardMaxBytes :: int
  clusterKey :: string

record reg_state =
  reg_db :: coord_db
  reg_replies :: "reply list"
  reg_log :: "event list"

record shardStats =
  st_ShardID :: int
  st_Role :: string
  st_ReadOnly :: bool
  st_TotalBytes :: int

definition ErrRotationIncomplete :: error where "ErrRotationIncomplete = Sentinel ''rotation incomplete''"
definition ErrNoStandbyShard :: error where "ErrNoStandbyShard = Sentinel ''no standby shard available''"

definition on_db :: "(coord_db \<Rightarrow> (coord_db, 'a) result) \<Rightarrow> reg_state \<Rightarrow> (reg_state, 'a) result" where
  "on_db f s = (case f (reg_db s) of (r, db) \<Rightarrow> (r, s\<lparr>reg_db := db\<rparr>))"

text \<open>\<^verbatim>\<open>_ = reg.repo.F(...)\<close>.\<close>

definition ignore_db :: "(coord_db \<Rightarrow> (coord_db, 'a) result) \<Rightarrow> reg_state \<Rightarrow> reg_state" where
  "ignore_db f s = snd (on_db f s)"

definition emit :: "event \<Rightarrow> reg_state \<Rightarrow> reg_state" where
  "emit e s = s\<lparr>reg_log := reg_log s @ [e]\<rparr>"

definition time_Now :: "reg_state \<Rightarrow> time \<times> reg_state" where
  "time_Now s = (case now (reg_db s) of (t, db) \<Rightarrow> (t, s\<lparr>reg_db := db\<rparr>))"

definition send :: "string \<Rightarrow> string \<Rightarrow> (string \<times> string) list \<Rightarrow> string option \<Rightarrow> bytes \<Rightarrow> reg_state \<Rightarrow> reply \<times> reg_state" where
  "send meth url params key body s = (case reg_replies s of
       [] \<Rightarrow> (NoResponse ''no response'', emit (Sent meth url params key body (NoResponse ''no response'')) s)
     | BadRequest m # rs \<Rightarrow> (BadRequest m, s\<lparr>reg_replies := rs\<rparr>)
     | rp # rs \<Rightarrow> (rp, emit (Sent meth url params key body rp) (s\<lparr>reg_replies := rs\<rparr>)))"

definition setInternalAuth :: "Registry \<Rightarrow> string option" where
  "setInternalAuth reg = (if clusterKey reg \<noteq> [] then Some (clusterKey reg) else None)"

text \<open>Marking a shard: the row, then the metrics.\<close>

definition seen :: "int \<Rightarrow> string \<Rightarrow> reg_state \<Rightarrow> reg_state" where
  "seen i st s = emit (ShardUp i st True) (ignore_db (MarkShardReachable i) s)"

definition lost :: "int \<Rightarrow> string \<Rightarrow> string \<Rightarrow> string \<Rightarrow> reg_state \<Rightarrow> reg_state" where
  "lost i st msg op s = emit (ShardFailure i op) (emit (ShardUp i st False) (ignore_db (MarkShardUnreachable i msg) s))"

subsection \<open>Statistics of a shard\<close>

fun stats_field :: "string \<times> json \<Rightarrow> bool \<times> shardStats \<Rightarrow> bool \<times> shardStats" where
  "stats_field (k, v) (bad, st) =
     (if v = JNull then (bad, st)
      else if ToLower k = ''shard_id'' then
        (case v of JNum i \<Rightarrow> if - (2 ^ 63) \<le> i \<and> i < 2 ^ 63 then (bad, st\<lparr>st_ShardID := i\<rparr>) else (True, st) | _ \<Rightarrow> (True, st))
      else if ToLower k = ''role'' then (case v of JStr r \<Rightarrow> (bad, st\<lparr>st_Role := r\<rparr>) | _ \<Rightarrow> (True, st))
      else if ToLower k = ''read_only'' then (case v of JBool b \<Rightarrow> (bad, st\<lparr>st_ReadOnly := b\<rparr>) | _ \<Rightarrow> (True, st))
      else if ToLower k = ''total_bytes'' then
        (case v of JNum i \<Rightarrow> if - (2 ^ 63) \<le> i \<and> i < 2 ^ 63 then (bad, st\<lparr>st_TotalBytes := i\<rparr>) else (True, st) | _ \<Rightarrow> (True, st))
      else (bad, st))"

definition decode_stats :: "response \<Rightarrow> error + shardStats" where
  "decode_stats rsp =
     (let zero = \<lparr>st_ShardID = 0, st_Role = [], st_ReadOnly = False, st_TotalBytes = 0\<rparr>
      in case rsp_broken rsp of Some m \<Rightarrow> Inl (Err m) | None \<Rightarrow>
        (case rsp_json rsp of
           Some JNull \<Rightarrow> Inr zero
         | Some (JObj kvs) \<Rightarrow> (case fold stats_field kvs (False, zero) of
               (True, _) \<Rightarrow> Inl (Err ''json: cannot unmarshal'') | (False, st) \<Rightarrow> Inr st)
         | _ \<Rightarrow> Inl (Err ''invalid json'')))"

definition FetchStats :: "Registry \<Rightarrow> string \<Rightarrow> reg_state \<Rightarrow> (reg_state, shardStats) result" where
  "FetchStats reg baseURL s = (case send ''GET'' (baseURL @ ''/v1/internal/stats'') [] (setInternalAuth reg) [] s of
       (BadRequest m, s) \<Rightarrow> (Inl (Err m), s)
     | (NoResponse m, s) \<Rightarrow> (Inl (Err m), s)
     | (Response rsp, s) \<Rightarrow>
         if rsp_code rsp \<noteq> 200 then (Inl (Err (''stats '' @ rsp_status rsp @ '': '' @ rsp_text rsp)), s)
         else (decode_stats rsp, s))"

subsection \<open>Sealing\<close>

definition sealShardRemote :: "Registry \<Rightarrow> ShardInfo \<Rightarrow> string \<Rightarrow> reg_state \<Rightarrow> (reg_state, int \<times> time) result" where
  "sealShardRemote reg shard op s =
     (case send ''POST'' (PrimaryURL shard @ ''/v1/internal/seal'') [] (setInternalAuth reg) [] s of
       (BadRequest m, s) \<Rightarrow> (Inl (Err m), s)
     | (NoResponse m, s) \<Rightarrow> (Inl (Err m), lost (ShardID shard) (State shard) m op s)
     | (Response rsp, s) \<Rightarrow>
         if rsp_code rsp \<noteq> 200 then
           (let msg = ''seal '' @ rsp_status rsp @ '': '' @ rsp_text rsp
            in (Inl (Err msg), lost (ShardID shard) (State shard) msg op s))
         else case time_Now s of (t, s) \<Rightarrow> (case FetchStats reg (PrimaryURL shard) s of (st, s) \<Rightarrow>
           (Inr (case st of Inl _ \<Rightarrow> 0 | Inr x \<Rightarrow> st_TotalBytes x, t), seen (ShardID shard) (State shard) s)))"

definition SealShard :: "Registry \<Rightarrow> ShardInfo \<Rightarrow> reg_state \<Rightarrow> (reg_state, unit) result" where
  "SealShard reg shard s = tryE (sealShardRemote reg shard ''seal'' s) (\<lambda>(total, sealedAt) s.
     case on_db (SetShardState (ShardID shard) ShardSealed total (Some sealedAt)) s of
       (Inl e, s) \<Rightarrow> (Inl e, emit (ShardFailure (ShardID shard) ''seal_persist'') s)
     | (Inr _, s) \<Rightarrow> (Inr (), emit (ShardUp (ShardID shard) ShardSealed True) s))"

definition ReadURL :: "ShardInfo \<Rightarrow> string" where
  "ReadURL shard = (if State shard = ShardSealed then
       (case ReplicaURL shard of None \<Rightarrow> PrimaryURL shard | Some u \<Rightarrow> if u \<noteq> [] then u else PrimaryURL shard)
     else PrimaryURL shard)"

subsection \<open>Keeping an active shard\<close>

definition nil_deref :: error where "nil_deref = Err ''panic: nil pointer dereference''"

fun ensure_loop :: "Registry \<Rightarrow> ShardInfo list \<Rightarrow> error option \<Rightarrow> reg_state \<Rightarrow> (reg_state, ShardInfo) result" where
  "ensure_loop reg [] lastErr s = (Inl (case lastErr of
       Some e \<Rightarrow> Wrap ''no reachable standby shard available: '' e []
     | None \<Rightarrow> Err ''no reachable standby shard available''), s)"
| "ensure_loop reg (standby # standbys) lastErr s =
     (case FetchStats reg (PrimaryURL standby) s of
       (Inl fetchErr, s) \<Rightarrow>
         ensure_loop reg standbys (Some fetchErr)
           (lost (ShardID standby) (State standby) (error_text fetchErr) ''ensure_active'' s)
     | (Inr _, s) \<Rightarrow>
         (case on_db (PromoteStandby (ShardID standby) None) (seen (ShardID standby) (State standby) s) of
           (Inl err, s) \<Rightarrow>
             let s = emit (ShardFailure (ShardID standby) ''ensure_active_promote'') s
             in if errors_Is err ErrStateConflict then
                  tryE (on_db ActiveShard s) (\<lambda>active s.
                    case active of Some a \<Rightarrow> (Inr a, s) | None \<Rightarrow> ensure_loop reg standbys (Some err) s)
                else ensure_loop reg standbys (Some err) s
         | (Inr None, s) \<Rightarrow> (Inl nil_deref, s)
         | (Inr (Some updated), s) \<Rightarrow> (Inr updated, seen (ShardID updated) (State updated) s)))"

definition EnsureActiveShard :: "Registry \<Rightarrow> reg_state \<Rightarrow> (reg_state, ShardInfo) result" where
  "EnsureActiveShard reg s = tryE (on_db ActiveShard s) (\<lambda>active s.
     case active of Some a \<Rightarrow> (Inr a, s)
     | None \<Rightarrow> tryE (on_db StandbyShards s) (\<lambda>standbys s.
         if standbys = [] then (Inl (Err ''no standby shard available''), s)
         else ensure_loop reg standbys None s))"

definition RegisterShard :: "Registry \<Rightarrow> string \<Rightarrow> ShardState \<Rightarrow> string \<Rightarrow> string option \<Rightarrow> reg_state
    \<Rightarrow> (reg_state, ShardInfo option \<times> bool) result" where
  "RegisterShard reg shardUUID state primaryURL replicaURL s =
     tryE (on_db (RegisterShard_repo shardUUID state primaryURL replicaURL) s) (\<lambda>(shard, created) s.
       let s = (case shard of None \<Rightarrow> s | Some sh \<Rightarrow> seen (ShardID sh) (State sh) s)
       in case EnsureActiveShard reg s of
            (Inl _, s) \<Rightarrow> (Inr (shard, created), s)
          | (Inr ensured, s) \<Rightarrow>
              (Inr (case shard of None \<Rightarrow> None
                    | Some sh \<Rightarrow> if ShardID ensured = ShardID sh then Some ensured else Some sh, created), s))"

subsection \<open>Rotation\<close>

text \<open>\<^verbatim>\<open>SealAndRotate\<close> once the shard has sealed itself: check that nothing changed meanwhile, and promote.\<close>

definition rotate_commit :: "ShardInfo \<Rightarrow> ShardInfo \<Rightarrow> int \<Rightarrow> time \<Rightarrow> reg_state \<Rightarrow> (reg_state, unit) result" where
  "rotate_commit active standby totalBytes sealedAt s =
     tryE (on_db ActiveShard s) (\<lambda>currentActive s.
     if (case currentActive of None \<Rightarrow> True | Some c \<Rightarrow> ShardID c \<noteq> ShardID active \<or> State c \<noteq> ShardActive)
     then (Inl ErrStateConflict, s) else
     tryE (on_db (GetShard (ShardID standby)) s) (\<lambda>currentStandby s.
     if (case currentStandby of None \<Rightarrow> True | Some c \<Rightarrow> State c \<noteq> ShardStandby)
     then (Inl ErrStateConflict, s) else
     case on_db (PromoteStandby (ShardID standby)
            (Some \<lparr>sst_ShardID = ShardID active, sst_TotalBytes = totalBytes, sst_SealedAt = sealedAt\<rparr>))
            (seen (ShardID standby) (State standby) s) of
       (Inl err, s) \<Rightarrow> (Inl (Wrap2 ErrRotationIncomplete err), emit (ShardFailure (ShardID active) ''rotate_commit'') s)
     | (Inr None, s) \<Rightarrow> (Inl nil_deref, s)
     | (Inr (Some nxt), s) \<Rightarrow>
         (Inr (), seen (ShardID nxt) (State nxt) (seen (ShardID active) ShardSealed s))))"

definition SealAndRotate :: "Registry \<Rightarrow> reg_state \<Rightarrow> (reg_state, unit) result" where
  "SealAndRotate reg s =
     tryE (on_db ActiveShard s) (\<lambda>act s. case act of None \<Rightarrow> (Inl (Err ''no active shard''), s) | Some active \<Rightarrow>
     tryE (on_db StandbyShard s) (\<lambda>sb s. case sb of None \<Rightarrow> (Inl ErrNoStandbyShard, s) | Some standby \<Rightarrow>
     (case FetchStats reg (PrimaryURL standby) s of
       (Inl fetchErr, s) \<Rightarrow>
         (Inl (Wrap (''standby shard '' @ itoa (ShardID standby) @ '' is unavailable: '') fetchErr []),
          lost (ShardID standby) (State standby) (error_text fetchErr) ''rotate'' s)
     | (Inr _, s) \<Rightarrow>
         tryE (sealShardRemote reg active ''rotate'' s) (\<lambda>(total, sealedAt) s.
           rotate_commit active standby total sealedAt s))))"

definition PatchShardState_sealed :: "Registry \<Rightarrow> int \<Rightarrow> reg_state \<Rightarrow> (reg_state, ShardInfo option) result" where
  "PatchShardState_sealed reg shardID s =
     tryE (on_db (GetShard shardID) s) (\<lambda>tg s. case tg of None \<Rightarrow> (Inl ErrShardNotFound, s) | Some target \<Rightarrow>
     if State target \<noteq> ShardActive then (Inl ErrStateConflict, s) else
     tryE (sealShardRemote reg target ''manual_seal'' s) (\<lambda>(total, sealedAt) s.
     tryE (on_db (GetShard shardID) s) (\<lambda>cur s. case cur of None \<Rightarrow> (Inl ErrShardNotFound, s) | Some current \<Rightarrow>
     if State current \<noteq> ShardActive then (Inl ErrStateConflict, s) else
     case on_db (SetShardState shardID ShardSealed total (Some sealedAt)) s of
       (Inl e, s) \<Rightarrow> (Inl e, emit (ShardFailure shardID ''manual_seal_persist'') s)
     | (Inr _, s) \<Rightarrow> on_db (GetShard shardID) (emit (ShardUp shardID ShardSealed True) s))))"

definition PatchShardState_active :: "Registry \<Rightarrow> int \<Rightarrow> bool \<Rightarrow> reg_state \<Rightarrow> (reg_state, ShardInfo option) result" where
  "PatchShardState_active reg shardID confirm s =
     tryE (on_db (GetShard shardID) s) (\<lambda>tg s. case tg of None \<Rightarrow> (Inl ErrShardNotFound, s) | Some target \<Rightarrow>
     if State target \<noteq> ShardStandby \<or> \<not> confirm then (Inl ErrStateConflict, s) else
     tryE (on_db ActiveShard s) (\<lambda>act s.
     let activeCopy = (case act of None \<Rightarrow> None | Some a \<Rightarrow> if ShardID a \<noteq> ShardID target then Some a else None) in
     case FetchStats reg (PrimaryURL target) s of
       (Inl fetchErr, s) \<Rightarrow>
         (Inl (Wrap [] ErrStateConflict '': target standby shard is unavailable''),
          lost (ShardID target) (State target) (error_text fetchErr) ''manual_promote'' s)
     | (Inr _, s) \<Rightarrow>
     tryE (case activeCopy of None \<Rightarrow> (Inr None, s)
           | Some a \<Rightarrow> tryE (sealShardRemote reg a ''manual_promote'' s) (\<lambda>(total, sealedAt) s.
               (Inr (Some \<lparr>sst_ShardID = ShardID a, sst_TotalBytes = total, sst_SealedAt = sealedAt\<rparr>), s))) (\<lambda>sealed s.
     tryE (on_db (GetShard shardID) s) (\<lambda>cur s. case cur of None \<Rightarrow> (Inl ErrShardNotFound, s) | Some current \<Rightarrow>
     if State current \<noteq> ShardStandby then (Inl ErrStateConflict, s) else
     case on_db (PromoteStandby (ShardID target) sealed) (seen (ShardID target) (State target) s) of
       (Inl err, s) \<Rightarrow> (case sealed of
           Some sl \<Rightarrow> (Inl (Wrap2 ErrRotationIncomplete err), emit (ShardFailure (sst_ShardID sl) ''manual_promote_commit'') s)
         | None \<Rightarrow> (Inl err, s))
     | (Inr None, s) \<Rightarrow> (Inl nil_deref, s)
     | (Inr (Some updated), s) \<Rightarrow>
         let s = (case sealed of None \<Rightarrow> s | Some sl \<Rightarrow> emit (ShardUp (sst_ShardID sl) ShardSealed True) s)
         in (Inr (Some updated), seen (ShardID updated) (State updated) s)))))"

definition PatchShardState :: "Registry \<Rightarrow> int \<Rightarrow> ShardState \<Rightarrow> bool \<Rightarrow> reg_state \<Rightarrow> (reg_state, ShardInfo option) result" where
  "PatchShardState reg shardID nextState confirm s =
     (if nextState = ShardSealed then PatchShardState_sealed reg shardID s
      else if nextState = ShardActive then PatchShardState_active reg shardID confirm s
      else (Inl ErrStateConflict, s))"

text \<open>\<^verbatim>\<open>CheckSeal\<close> from the statistics of the active shard on.\<close>

definition checkActive :: "Registry \<Rightarrow> ShardInfo \<Rightarrow> reg_state \<Rightarrow> (reg_state, unit) result" where
  "checkActive reg active s = (case FetchStats reg (PrimaryURL active) s of
       (Inl err, s) \<Rightarrow> (Inl err, lost (ShardID active) (State active) (error_text err) ''check'' s)
     | (Inr st, s) \<Rightarrow>
         let s = seen (ShardID active) (State active) s;
             s = ignore_db (SetShardState (ShardID active) ShardActive (st_TotalBytes st) None) s
         in if shardMaxBytes reg > 0 \<and> st_TotalBytes st \<ge> shardMaxBytes reg then
              (case SealAndRotate reg s of
                 (Inl err, s) \<Rightarrow>
                   if errors_Is err ErrNoStandbyShard then
                     tryE (PatchShardState reg (ShardID active) ShardSealed False s) (\<lambda>_ s. (Inr (), s))
                   else (Inl err, s)
               | (Inr _, s) \<Rightarrow> (Inr (), s))
            else (Inr (), s))"

definition CheckSeal :: "Registry \<Rightarrow> reg_state \<Rightarrow> (reg_state, unit) result" where
  "CheckSeal reg s = tryE (on_db ActiveShard s) (\<lambda>act s. case act of
       Some active \<Rightarrow> checkActive reg active s
     | None \<Rightarrow> (case EnsureActiveShard reg s of
           (Inl _, s) \<Rightarrow> (Inr (), s)
         | (Inr active, s) \<Rightarrow> checkActive reg active s))"

subsection \<open>Invariants of the database under the registry\<close>

lemma reg_db_emit [simp]: "reg_db (emit e s) = reg_db s"
  by (simp add: emit_def)

lemma reg_db_send [simp]: "reg_db (snd (send m u p k b s)) = reg_db s"
  by (auto simp: send_def split: list.split reply.split)

lemma reg_db_send_pair: "send m u p k b s = (r, s') \<Longrightarrow> reg_db s' = reg_db s"
  using reg_db_send [of m u p k b s] by simp

lemma reg_db_FetchStats [simp]: "reg_db (snd (FetchStats reg u s)) = reg_db s"
  by (auto simp: FetchStats_def split: prod.split reply.split dest: reg_db_send_pair)

lemma on_db_snd [simp]: "reg_db (snd (on_db f s)) = snd (f (reg_db s))"
  by (simp add: on_db_def split: prod.split)

context shard_table
begin

abbreviation (input) RInv :: "reg_state \<Rightarrow> bool" where "RInv s \<equiv> Inv (reg_db s)"

lemmas tryS_inv = tryE_inv [where P = RInv]

lemma case_inv:
  assumes "RInv (snd q)" and "\<And>r s. q = (r, s) \<Longrightarrow> RInv s \<Longrightarrow> RInv (snd (k r s))"
  shows "RInv (snd (case q of (r, s) \<Rightarrow> k r s))"
  using assms by (cases q) auto

lemma seen_inv: "RInv s \<Longrightarrow> RInv (seen i st s)"
  by (simp add: seen_def ignore_db_def repo_inv)

lemma lost_inv: "RInv s \<Longrightarrow> RInv (lost i st m op s)"
  by (simp add: lost_def ignore_db_def repo_inv)

lemma time_Now_inv: "RInv s \<Longrightarrow> RInv (snd (time_Now s))"
  by (auto simp: time_Now_def split: prod.split dest: now_pair_inv)

lemma sealShardRemote_inv: "RInv s \<Longrightarrow> RInv (snd (sealShardRemote reg sh op s))"
  unfolding sealShardRemote_def
  by (auto intro!: case_inv lost_inv seen_inv time_Now_inv split: reply.split simp: Let_def)

lemma SealShard_inv: "RInv s \<Longrightarrow> RInv (snd (SealShard reg sh s))"
  unfolding SealShard_def
  by (auto intro!: tryS_inv case_inv sealShardRemote_inv repo_inv split: sum.split)

lemma ensure_loop_inv: "RInv s \<Longrightarrow> RInv (snd (ensure_loop reg sbs le s))"
proof (induction sbs arbitrary: le s)
  case Nil
  then show ?case by simp
next
  case (Cons sb sbs)
  from Cons.prems show ?case
    unfolding ensure_loop.simps
    by (auto intro!: tryS_inv case_inv Cons.IH lost_inv seen_inv repo_inv split: sum.split option.split simp: Let_def)
qed

lemma EnsureActiveShard_inv: "RInv s \<Longrightarrow> RInv (snd (EnsureActiveShard reg s))"
  unfolding EnsureActiveShard_def
  by (auto intro!: tryS_inv ensure_loop_inv repo_inv split: option.split)

lemma RegisterShard_inv: "RInv s \<Longrightarrow> RInv (snd (RegisterShard reg u st p rep s))"
  unfolding RegisterShard_def Let_def
  by (auto intro!: tryS_inv case_inv EnsureActiveShard_inv seen_inv repo_inv split: sum.split option.split)

lemma SealAndRotate_inv: "RInv s \<Longrightarrow> RInv (snd (SealAndRotate reg s))"
  unfolding SealAndRotate_def rotate_commit_def
  by (auto intro!: tryS_inv case_inv sealShardRemote_inv lost_inv seen_inv repo_inv split: sum.split option.split)

lemma PatchShardState_sealed_inv: "RInv s \<Longrightarrow> RInv (snd (PatchShardState_sealed reg i s))"
  unfolding PatchShardState_sealed_def
  by (auto intro!: tryS_inv case_inv sealShardRemote_inv repo_inv split: sum.split option.split)

lemma PatchShardState_active_inv: "RInv s \<Longrightarrow> RInv (snd (PatchShardState_active reg i c s))"
  unfolding PatchShardState_active_def Let_def
  by (auto intro!: tryS_inv case_inv sealShardRemote_inv lost_inv seen_inv repo_inv split: sum.split option.split)

lemma PatchShardState_inv: "RInv s \<Longrightarrow> RInv (snd (PatchShardState reg i st c s))"
  by (simp add: PatchShardState_def PatchShardState_sealed_inv PatchShardState_active_inv)

lemma checkActive_inv: "RInv s \<Longrightarrow> RInv (snd (checkActive reg a s))"
  unfolding checkActive_def Let_def
  by (auto intro!: tryS_inv case_inv SealAndRotate_inv PatchShardState_inv lost_inv seen_inv repo_inv
      split: sum.split simp: ignore_db_def)

lemma CheckSeal_inv: "RInv s \<Longrightarrow> RInv (snd (CheckSeal reg s))"
  unfolding CheckSeal_def
  by (auto intro!: tryS_inv case_inv checkActive_inv EnsureActiveShard_inv repo_inv split: sum.split option.split)

end

end
