(* ===== verification/Coord_Proxy.thy ===== *)
theory Coord_Proxy
  imports Coord_Registry
begin

text \<open>
  The package proxy of the coordinator (\<^verbatim>\<open>ProxyPost\<close>, \<^verbatim>\<open>ProxyGet\<close>, \<^verbatim>\<open>ShardSnapshots\<close> of
  \<^verbatim>\<open>internal/coordinator/registry.go\<close>). What is returned to the client is the text of the
  shard's answer or the marshalled, rewritten object. The parser of RFC 3339 times is a parameter.
\<close>

datatype payload = Text string | Marshal json

definition asJSONInt64 :: "json \<Rightarrow> int option" where
  "asJSONInt64 v = (case v of JNum n \<Rightarrow> Some (int64_of_float n) | JReal n \<Rightarrow> Some (int64_of_float n) | _ \<Rightarrow> None)"

definition hashPackage :: "bytes \<Rightarrow> bytes" where
  "hashPackage body = Sum256 body"

definition packages_path :: "int \<Rightarrow> string" where
  "packages_path globalID = ''/v1/packages/'' @ itoa globalID"

text \<open>Rewriting of a package object for clients: the id, the links, the download urls.\<close>

definition rewrite_links :: "int \<Rightarrow> json \<Rightarrow> json" where
  "rewrite_links globalID v = (case v of
       JObj links \<Rightarrow> JObj (obj_set ''original'' (JStr (packages_path globalID @ ''/original''))
                        (obj_set ''self'' (JStr (packages_path globalID)) links))
     | _ \<Rightarrow> v)"

definition rewrite_file :: "int \<Rightarrow> json \<Rightarrow> json" where
  "rewrite_file globalID f = (case f of
       JObj m \<Rightarrow> (case asJSONInt64 (obj_get ''file_id'' m) of
           Some fid \<Rightarrow> JObj (obj_set ''download_url'' (JStr (packages_path globalID @ ''/files/'' @ itoa fid)) m)
         | None \<Rightarrow> f)
     | _ \<Rightarrow> f)"

definition rewrite_files :: "int \<Rightarrow> json \<Rightarrow> json" where
  "rewrite_files globalID v = (case v of JArr fs \<Rightarrow> JArr (map (rewrite_file globalID) fs) | _ \<Rightarrow> v)"

definition obj_update :: "string \<Rightarrow> (json \<Rightarrow> json) \<Rightarrow> (string \<times> json) list \<Rightarrow> (string \<times> json) list" where
  "obj_update k f kvs = map (\<lambda>kv. if fst kv = k then (fst kv, f (snd kv)) else kv) kvs"

definition rewrite_package :: "int \<Rightarrow> (string \<times> json) list \<Rightarrow> (string \<times> json) list" where
  "rewrite_package globalID pkg =
     obj_update ''files'' (rewrite_files globalID) (obj_update ''links'' (rewrite_links globalID)
       (obj_set ''package_id'' (JNum globalID) pkg))"

subsection \<open>Writes\<close>

definition unavailable :: "error \<Rightarrow> error" where
  "unavailable cause = StatusError 503 ''active_shard_unavailable'' cause"

definition invalid_response :: "error \<Rightarrow> error" where
  "invalid_response cause = StatusError 502 ''invalid_shard_response'' cause"

text \<open>The shard that takes the write.\<close>

definition choose_active :: "Registry \<Rightarrow> reg_state \<Rightarrow> (reg_state, ShardInfo) result" where
  "choose_active reg s = tryE (on_db ActiveShard s) (\<lambda>act s. case act of
       Some active \<Rightarrow> (Inr active, s)
     | None \<Rightarrow> (case EnsureActiveShard reg s of
           (Inl e, s) \<Rightarrow> (Inl (unavailable e), s)
         | (Inr active, s) \<Rightarrow> (Inr active, s)))"

text \<open>The answer of the shard other than 201.\<close>

definition post_rejected :: "ShardInfo \<Rightarrow> response \<Rightarrow> reg_state \<Rightarrow> (reg_state, payload \<times> int) result" where
  "post_rejected active rsp s =
     (if rsp_code rsp = 507 then
        (Inl (StatusError 507 ''insufficient_storage'' (Err ''active shard reported insufficient storage'')),
         seen (ShardID active) (State active) s)
      else if rsp_code rsp = 403 \<or> rsp_code rsp \<ge> 500 then
        (let msg = ''active shard returned status '' @ itoa (rsp_code rsp)
         in (Inl (unavailable (Err msg)), lost (ShardID active) (State active) msg ''write_http'' s))
      else (Inr (Text (rsp_text rsp), rsp_code rsp), seen (ShardID active) (State active) s))"

definition received_at :: "(string \<Rightarrow> time option) \<Rightarrow> (string \<times> json) list \<Rightarrow> reg_state \<Rightarrow> time \<times> reg_state" where
  "received_at rfc3339 pkg s = (case time_Now s of (t, s) \<Rightarrow>
     (case obj_get ''received_at'' pkg of
        JStr ts \<Rightarrow> (case rfc3339 ts of Some t' \<Rightarrow> t' | None \<Rightarrow> t)
      | _ \<Rightarrow> t, s))"

text \<open>The answer 201: rewrite the package and enter it into the global index.\<close>

definition post_created ::
    "(string \<Rightarrow> time option) \<Rightarrow> ShardInfo \<Rightarrow> bytes \<Rightarrow> response \<Rightarrow> reg_state \<Rightarrow> (reg_state, payload \<times> int) result" where
  "post_created rfc3339 active body rsp s = (case Unmarshal_map (rsp_json rsp) of
       Inl e \<Rightarrow> (Inl (invalid_response e), s)
     | Inr m \<Rightarrow>
         (let pkg = (case m of None \<Rightarrow> [] | Some kvs \<Rightarrow> kvs) in
          case asJSONInt64 (obj_get ''package_id'' pkg) of
            None \<Rightarrow> (Inl (invalid_response (Err ''missing package_id in shard response'')), s)
          | Some localID \<Rightarrow>
              (let globalID = Encode (ShardID active) localID; out = rewrite_package globalID pkg in
               case asJSONInt64 (obj_get ''supplier_id'' out) of
                 None \<Rightarrow> (Inl (invalid_response (Err ''missing supplier_id in shard response'')), s)
               | Some supplier \<Rightarrow>
                   (case received_at rfc3339 out s of (received, s) \<Rightarrow>
                   (case on_db (InsertGlobalPackage \<lparr>GlobalID = globalID, gpi_ShardID = ShardID active, gpi_LocalID = localID,
                          gpi_SupplierID = supplier, gpi_ReceivedAt = received, PackageHash = hashPackage body\<rparr>) s of
                      (Inl e, s) \<Rightarrow> (Inl (StatusError 500 ''global_index_write_failed'' e),
                                     emit (ShardFailure (ShardID active) ''global_index'') s)
                    | (Inr _, s) \<Rightarrow> (Inr (Marshal (JObj out), 201), seen (ShardID active) (State active) s))))))"

definition ProxyPost :: "(string \<Rightarrow> time option) \<Rightarrow> Registry \<Rightarrow> int \<Rightarrow> bytes \<Rightarrow> string \<Rightarrow> reg_state
    \<Rightarrow> (reg_state, payload \<times> int) result" where
  "ProxyPost rfc3339 reg supplierID body filename s = tryE (choose_active reg s) (\<lambda>active s.
     let params = (if filename \<noteq> [] then [(''filename'', filename)] else []) @ [(''supplier_id'', itoa supplierID)] in
     case send ''POST'' (PrimaryURL active @ ''/v1/packages'') params None body s of
       (BadRequest m, s) \<Rightarrow> (Inl (Err m), s)
     | (NoResponse m, s) \<Rightarrow> (Inl (unavailable (Err m)), lost (ShardID active) (State active) m ''write'' s)
     | (Response rsp, s) \<Rightarrow>
         (case rsp_broken rsp of
            Some m \<Rightarrow> (Inl (Err m), s)
          | None \<Rightarrow> if rsp_code rsp \<noteq> 201 then post_rejected active rsp s else post_created rfc3339 active body rsp s))"

subsection \<open>Reads\<close>

definition shard_not_found :: error where
  "shard_not_found = StatusError 404 ''shard_not_found'' (Err ''shard not found'')"

definition get_data :: "int \<Rightarrow> response \<Rightarrow> error + payload" where
  "get_data globalID rsp =
     (if rsp_code rsp = 200 \<and> rsp_type rsp = ''application/json'' then
        (case Unmarshal_map (rsp_json rsp) of
           Inl _ \<Rightarrow> Inr (Text (rsp_text rsp))
         | Inr None \<Rightarrow> Inl (Err ''panic: assignment to entry in nil map'')
         | Inr (Some pkg) \<Rightarrow> Inr (Marshal (JObj (rewrite_package globalID pkg))))
      else Inr (Text (rsp_text rsp)))"

definition ProxyGet :: "int \<Rightarrow> string \<Rightarrow> reg_state \<Rightarrow> (reg_state, payload \<times> int \<times> string) result" where
  "ProxyGet globalID pathSuffix s = (case Decode globalID of (shardID, localID) \<Rightarrow>
     (case on_db (GetShard shardID) s of
        (Inl _, s) \<Rightarrow> (Inl shard_not_found, s)
      | (Inr None, s) \<Rightarrow> (Inl shard_not_found, s)
      | (Inr (Some shard), s) \<Rightarrow>
          (case send ''GET'' (ReadURL shard @ ''/v1/packages/'' @ itoa localID @ pathSuffix) [] None [] s of
             (BadRequest m, s) \<Rightarrow> (Inl (Err m), s)
           | (NoResponse m, s) \<Rightarrow>
               (Inl (StatusError 503 ''shard_unavailable'' (Err m)), lost shardID (State shard) m ''read'' s)
           | (Response rsp, s) \<Rightarrow>
               (case rsp_broken rsp of
                  Some m \<Rightarrow> (Inl (Err m), s)
                | None \<Rightarrow> (case get_data globalID rsp of
                      Inl e \<Rightarrow> (Inl e, s)
                    | Inr d \<Rightarrow> (Inr (d, rsp_code rsp, rsp_type rsp), seen shardID (State shard) s))))))"

definition ShardSnapshots :: "reg_state \<Rightarrow> (reg_state, (int \<times> string \<times> int) list) result" where
  "ShardSnapshots s = tryE (on_db ListShards s) (\<lambda>shards s.
     (Inr (map (\<lambda>sh. (ShardID sh, State sh, TotalBytes_of sh)) shards), s))"

subsection \<open>Invariants of the database under the proxy\<close>

context shard_table
begin

lemma choose_active_inv: "Inv (reg_db s) \<Longrightarrow> Inv (reg_db (snd (choose_active reg s)))"
  unfolding choose_active_def
  by (auto intro!: tryS_inv case_inv EnsureActiveShard_inv repo_inv split: sum.split option.split)

lemma post_rejected_inv: "Inv (reg_db s) \<Longrightarrow> Inv (reg_db (snd (post_rejected a rsp s)))"
  by (simp add: post_rejected_def Let_def seen_inv lost_inv)

lemma received_at_inv: "Inv (reg_db s) \<Longrightarrow> Inv (reg_db (snd (received_at rf pkg s)))"
  using time_Now_inv [of s] by (auto simp: received_at_def split: prod.split)

lemma ProxyGet_inv: "Inv (reg_db s) \<Longrightarrow> Inv (reg_db (snd (ProxyGet g p s)))"
  unfolding ProxyGet_def
  by (cases "Decode g") (auto intro!: case_inv lost_inv seen_inv repo_inv split: sum.split option.split reply.split)

lemma ShardSnapshots_inv: "Inv (reg_db s) \<Longrightarrow> Inv (reg_db (snd (ShardSnapshots s)))"
  unfolding ShardSnapshots_def by (auto intro!: tryS_inv repo_inv)

end

context coord_inv
begin

lemma post_created_inv:
  assumes "Inv (reg_db s)" and "\<And>e. index_row_ok e \<Longrightarrow> adm e"
  shows "Inv (reg_db (snd (post_created rf a body rsp s)))"
proof -
  have row: "adm \<lparr>GlobalID = Encode i l, gpi_ShardID = i, gpi_LocalID = l, gpi_SupplierID = su,
      gpi_ReceivedAt = t, PackageHash = h\<rparr>" for i l su t h
    by (rule assms(2)) (simp add: index_row_ok_def)
  show ?thesis
    unfolding post_created_def Let_def
    by (auto intro!: case_inv received_at_inv InsertGlobalPackage_inv seen_inv row assms(1) split: sum.split option.split)
qed

lemma ProxyPost_inv:
  "Inv (reg_db s) \<Longrightarrow> (\<And>e. index_row_ok e \<Longrightarrow> adm e) \<Longrightarrow> Inv (reg_db (snd (ProxyPost rf reg su body fn s)))"
  unfolding ProxyPost_def Let_def
  by (auto intro!: tryS_inv case_inv choose_active_inv post_rejected_inv post_created_inv lost_inv
      split: reply.split option.split)

end

subsection \<open>Reachable states\<close>

text \<open>
  Every operation of the coordinator, in any order. Between two operations the answers, the
  clock, the failures and the interference that lie ahead are chosen afresh.
\<close>

definition new_schedules :: "reg_state \<Rightarrow> reg_state \<Rightarrow> bool" where
  "new_schedules s s' \<longleftrightarrow> same_tables (reg_db s) (reg_db s')"

inductive coord_step :: "Registry \<Rightarrow> reg_state \<Rightarrow> reg_state \<Rightarrow> bool" for reg where
  env: "new_schedules s s' \<Longrightarrow> coord_step reg s s'"
| bootstrap: "coord_step reg s (snd (on_db (BootstrapFromFile f) s))"
| upsert: "coord_step reg s (snd (on_db (UpsertShard sh) s))"
| truncate: "coord_step reg s (snd (on_db TruncateAll s))"
| xml: "coord_step reg s (snd (on_db (InsertGlobalXMLHashes i hs) s))"
| find_xml: "coord_step reg s (snd (on_db (FindShardByXMLHash h) s))"
| by_uuid: "coord_step reg s (snd (on_db (GetShardByUUID u) s))"
| patch_repo: "coord_step reg s (snd (on_db (PatchShardState_repo i st c) s))"
| register: "coord_step reg s (snd (RegisterShard reg u st p rep s))"
| patch: "coord_step reg s (snd (PatchShardState reg i st c s))"
| seal: "coord_step reg s (snd (SealShard reg sh s))"
| rotate: "coord_step reg s (snd (SealAndRotate reg s))"
| ensure: "coord_step reg s (snd (EnsureActiveShard reg s))"
| check: "coord_step reg s (snd (CheckSeal reg s))"
| post: "coord_step reg s (snd (ProxyPost rf reg su body fn s))"
| get: "coord_step reg s (snd (ProxyGet g p s))"
| snapshots: "coord_step reg s (snd (ShardSnapshots s))"

inductive coord_reach :: "Registry \<Rightarrow> reg_state \<Rightarrow> bool" for reg where
  fresh: "shard_registry (reg_db s) = [] \<Longrightarrow> global_package_index (reg_db s) = [] \<Longrightarrow> coord_reach reg s"
| step: "coord_reach reg s \<Longrightarrow> coord_step reg s s' \<Longrightarrow> coord_reach reg s'"

context coord_inv
begin

lemma step_inv:
  assumes "coord_step reg s s'" and "Inv (reg_db s)" and "\<And>e. index_row_ok e \<Longrightarrow> adm e"
  shows "Inv (reg_db s')"
  using assms(1,2)
  by (induction rule: coord_step.induct)
    (auto simp: new_schedules_def repo_inv TruncateAll_inv InsertGlobalXMLHashes_inv RegisterShard_inv PatchShardState_inv SealShard_inv SealAndRotate_inv
      EnsureActiveShard_inv CheckSeal_inv ProxyPost_inv assms(3) ProxyGet_inv ShardSnapshots_inv intro: tables)

lemma reach_inv:
  assumes "coord_reach reg s" and "\<And>e. index_row_ok e \<Longrightarrow> adm e"
    and "\<And>d. shard_registry d = [] \<Longrightarrow> global_package_index d = [] \<Longrightarrow> Inv d"
  shows "Inv (reg_db s)"
  using assms(1) by (induction rule: coord_reach.induct) (auto intro: assms(2,3) step_inv)

end

subsection \<open>Properties\<close>

text \<open>
  Whatever the shards answer, whatever fails and whatever other sessions do, the constraints of the
  shard table hold (one active row, unique ids and uuids, ids in the 16-bit range of package ids),
  as the database enforces them; and every row of the global package index carries the id that
  its shard and its local id encode, once.
\<close>

theorem coordinator_invariant:
  assumes "coord_reach reg s"
  shows "length (filter is_active (shard_registry (reg_db s))) \<le> 1
    \<and> registry_ok (shard_registry (reg_db s)) \<and> index_inv (reg_db s)"
proof -
  have "registry_inv (reg_db s)"
    by (rule reg_rows.reach_inv [OF assms]) (simp_all add: registry_inv_def registry_ok_def map_filter_simps)
  moreover have "index_inv (reg_db s)"
    by (rule idx_rows.reach_inv [OF assms]) (simp_all add: index_inv_def)
  ultimately show ?thesis by (simp add: registry_inv_def registry_ok_def)
qed

definition ok_response :: "json \<Rightarrow> response" where
  "ok_response j = \<lparr>rsp_code = 200, rsp_status = ''200 OK'', rsp_type = ''application/json'', rsp_text = ''{}'',
     rsp_json = Some j, rsp_broken = None\<rparr>"

definition ok_reply :: "json \<Rightarrow> reply" where
  "ok_reply j = Response (ok_response j)"

definition sample_state :: "ShardInfo list \<Rightarrow> reply list \<Rightarrow> reg_state" where
  "sample_state rows rps = \<lparr>reg_db = sample_db rows, reg_replies = rps, reg_log = []\<rparr>"

definition sample_reg :: Registry where
  "sample_reg = \<lparr>shardMaxBytes = 100, clusterKey = ''k''\<rparr>"

theorem coordinator_invariant_witness:
  "let s = snd (RegisterShard sample_reg ''u'' ShardActive ''http://n'' None (sample_state [] [ok_reply (JObj [])]))
   in map State (shard_registry (reg_db s)) = [ShardActive] \<and> registry_ok (shard_registry (reg_db s))"
proof -
  let ?s = "snd (RegisterShard sample_reg ''u'' ShardActive ''http://n'' None (sample_state [] [ok_reply (JObj [])]))"
  have "coord_reach sample_reg (sample_state [] [ok_reply (JObj [])])"
    by (rule coord_reach.fresh) (simp_all add: sample_state_def sample_db_def)
  then have "coord_reach sample_reg ?s" by (rule coord_reach.step) (rule coord_step.register)
  from coordinator_invariant [OF this] have "registry_ok (shard_registry (reg_db ?s))" by blast
  moreover have "map State (shard_registry (reg_db ?s)) = [ShardActive]" by code_simp
  ultimately show ?thesis by (simp add: Let_def)
qed

end
