(* ===== verification/Coord_Props.thy ===== *)
theory Coord_Props
  imports Coord_Proxy
begin

text \<open>
  What the rotation of shards does to the table when no other session interferes, and its
  liveness; the race of the periodic check; the routing of packages.
\<close>

subsection \<open>Operations that leave states alone\<close>

definition row_key :: "ShardInfo \<Rightarrow> int \<times> ShardState \<times> string" where
  "row_key sh = (ShardID sh, State sh, PrimaryURL sh)"

definition keys :: "reg_state \<Rightarrow> (int \<times> ShardState \<times> string) list" where
  "keys s = map row_key (shard_registry (reg_db s))"

definition quiet :: "reg_state \<Rightarrow> bool" where
  "quiet s \<longleftrightarrow> cdb_others (reg_db s) = []"

text \<open>Without interference: the states stay, and the log only grows.\<close>

definition calm :: "reg_state \<Rightarrow> reg_state \<Rightarrow> bool" where
  "calm s s' \<longleftrightarrow> (quiet s \<longrightarrow> quiet s' \<and> keys s' = keys s) \<and> (\<exists>es. reg_log s' = reg_log s @ es)"

lemma calm_refl [simp]: "calm s s"
  by (simp add: calm_def)

lemma calm_trans [trans]: "calm a b \<Longrightarrow> calm b c \<Longrightarrow> calm a c"
  by (auto simp: calm_def)

lemma others_take_fault [simp]: "cdb_others (snd (take_fault db)) = cdb_others db"
  by (simp add: take_fault_def split: prod.split)

lemma others_now [simp]: "cdb_others (snd (now db)) = cdb_others db"
  by (simp add: now_def split: list.split)

lemma others_tx_query [simp]: "cdb_others (snd (tx_query p f db)) = cdb_others db"
  using others_take_fault [of db] by (auto simp: tx_query_def split: prod.split fault.split simp del: others_take_fault)

lemma tx_exec_others:
  assumes "\<And>d d'. f d = Some d' \<Longrightarrow> cdb_others d' = cdb_others d"
  shows "cdb_others (snd (tx_exec f db)) = cdb_others db"
proof (cases "take_fault db")
  case (Pair t d)
  then have "cdb_others d = cdb_others db" using others_take_fault [of db] by simp
  with Pair assms show ?thesis by (auto simp: tx_exec_def split: fault.split option.split nat.split)
qed

lemma update_shard_others: "update_shard i f d = Some d' \<Longrightarrow> cdb_others d' = cdb_others d"
  by (auto simp: update_shard_Some)

lemma now_pair_others: "now d = (t, d') \<Longrightarrow> cdb_others d' = cdb_others d \<and> shard_registry d' = shard_registry d"
  using others_now [of d] shard_registry_now [of d] by simp

lemma calm_on_query [simp]: "calm s (snd (on_db (query p f) s))"
proof (cases "cdb_others (reg_db s) = []")
  case True
  then have "same_tables (reg_db s) (snd (query p f (reg_db s)))" and "cdb_others (snd (query p f (reg_db s))) = []"
    by (simp_all add: query_def)
  with True show ?thesis
    by (auto simp: calm_def quiet_def keys_def same_tables_def on_db_def split: prod.split)
next
  case False
  then show ?thesis by (auto simp: calm_def quiet_def on_db_def split: prod.split)
qed

lemma calm_on_update:
  assumes "\<And>d d'. f d = Some d' \<Longrightarrow> cdb_others d' = cdb_others d
     \<and> map row_key (shard_registry d') = map row_key (shard_registry d)"
  shows "calm s (snd (on_db (exec f) s))"
proof (cases "cdb_others (reg_db s) = []")
  case True
  obtain r db' where e: "tx_exec f (reg_db s) = (r, db')" by fastforce
  have "cdb_others db' = []" using tx_exec_others [of f "reg_db s"] assms True e by simp
  moreover have "map row_key (shard_registry db') = map row_key (shard_registry (reg_db s))"
    using tx_exec_cases [OF e] assms by (metis same_tables_registry)
  ultimately show ?thesis
    using True e by (auto simp: calm_def quiet_def keys_def exec_def on_db_def)
next
  case False
  then show ?thesis by (auto simp: calm_def quiet_def on_db_def split: prod.split)
qed

lemma calm_emit [simp]: "calm s (emit e s)"
  by (auto simp: calm_def emit_def quiet_def keys_def)

lemma calm_seen [simp]: "calm s (seen i st s)"
proof -
  have "calm s (snd (on_db (MarkShardReachable i) s))"
    unfolding MarkShardReachable_def
    by (rule calm_on_update)
      (auto simp: update_shard_Some row_key_def dest!: now_pair_others split: prod.splits)
  then show ?thesis by (auto simp: seen_def ignore_db_def intro: calm_trans)
qed

lemma calm_lost [simp]: "calm s (lost i st m op s)"
proof -
  have "calm s (snd (on_db (MarkShardUnreachable i m) s))"
    unfolding MarkShardUnreachable_def
    by (rule calm_on_update) (auto simp: update_shard_Some row_key_def)
  then show ?thesis unfolding lost_def ignore_db_def by (blast intro: calm_trans calm_emit)
qed

lemma calm_send [simp]: "calm s (snd (send m u p k b s))"
  by (auto simp: calm_def send_def emit_def quiet_def keys_def split: list.split reply.split)

lemma calm_time_Now [simp]: "calm s (snd (time_Now s))"
  by (auto simp: calm_def time_Now_def quiet_def keys_def dest!: now_pair_others split: prod.split)

lemma calm_send_pair: "send m u p k b s = (r, s') \<Longrightarrow> calm s s'"
  using calm_send [of s m u p k b] by simp

lemma calm_FetchStats [simp]: "calm s (snd (FetchStats reg u s))"
  by (auto simp: FetchStats_def split: prod.split reply.split dest: calm_send_pair)

lemma calm_pair: "calm s (snd q) \<Longrightarrow> q = (r, s') \<Longrightarrow> calm s s'"
  by simp

lemma calm_try: "calm s (snd r) \<Longrightarrow> (\<And>x t. r = (Inr x, t) \<Longrightarrow> calm s t \<Longrightarrow> calm s (snd (k x t))) \<Longrightarrow> calm s (snd (tryE r k))"
  by (rule tryE_inv)

lemma calm_case:
  assumes "calm s (snd q)" and "\<And>r t. q = (r, t) \<Longrightarrow> calm s t \<Longrightarrow> calm s (snd (k r t))"
  shows "calm s (snd (case q of (r, t) \<Rightarrow> k r t))"
  using assms by (cases q) auto

lemma calm_step: "calm s t \<Longrightarrow> calm t u \<Longrightarrow> calm s u"
  by (rule calm_trans)

lemmas calm_after = calm_step [OF _ calm_lost] calm_step [OF _ calm_seen] calm_step [OF _ calm_emit]
  calm_step [OF _ calm_FetchStats] calm_step [OF _ calm_time_Now] calm_step [OF _ calm_send]

lemma calm_sealShardRemote [simp]: "calm s (snd (sealShardRemote reg sh op s))"
  unfolding sealShardRemote_def Let_def
  by (auto intro!: calm_case calm_after split: reply.split)

lemma calm_queries [simp]:
  "calm s (snd (on_db ActiveShard s))" "calm s (snd (on_db (GetShard i) s))" "calm s (snd (on_db StandbyShards s))"
  by (simp_all add: ActiveShard_def GetShard_def StandbyShards_def)

lemma on_db_try: "on_db (\<lambda>db. tryE (f db) (\<lambda>x db. (g x, db))) s = tryE (on_db f s) (\<lambda>x s. (g x, s))"
  by (cases "f (reg_db s)") (auto simp: on_db_def err_simps split: sum.split)

lemma calm_StandbyShard [simp]: "calm s (snd (on_db StandbyShard s))"
  unfolding StandbyShard_def [abs_def] on_db_try by (rule calm_try) auto

subsection \<open>Rotation without interference\<close>

lemma in_tx_others:
  assumes "\<And>d. cdb_others (snd (body d)) = cdb_others d"
  shows "cdb_others (snd (in_tx body db)) = cdb_others (interfere db)"
proof -
  obtain f d where f: "take_fault (interfere db) = (f, d)" by fastforce
  have d: "cdb_others d = cdb_others (interfere db)" using others_take_fault [of "interfere db"] f by simp
  obtain r d2 where b: "body d = (r, d2)" by fastforce
  have d2: "cdb_others d2 = cdb_others (interfere db)" using assms [of d] b d by simp
  obtain g d3 where g: "take_fault d2 = (g, d3)" by fastforce
  have d3: "cdb_others d3 = cdb_others (interfere db)" using others_take_fault [of d2] g d2 by simp
  show ?thesis
    using f b g d d2 d3 by (auto simp: in_tx_def rollback_def split: fault.split sum.split nat.split)
qed

lemma others_tx_update [simp]: "cdb_others (snd (tx_exec (update_shard i f) d)) = cdb_others d"
  by (rule tx_exec_others) (rule update_shard_others)

lemma others_seal_active [simp]: "cdb_others (snd (seal_active t sa c d)) = cdb_others d"
  by (simp add: seal_active_def split: option.split)

lemma others_PromoteStandby: "cdb_others (snd (PromoteStandby t sa db)) = cdb_others (interfere db)"
proof -
  note tryO = tryE_inv [where P = "\<lambda>s. cdb_others s = X" for X]
  show ?thesis
    unfolding PromoteStandby_def
    by (rule in_tx_others) (auto intro!: tryO split: option.split)
qed

definition rotate_key :: "int \<Rightarrow> int option \<Rightarrow> int \<times> ShardState \<times> string \<Rightarrow> int \<times> ShardState \<times> string" where
  "rotate_key target old k = (case k of (i, st, u) \<Rightarrow>
     (i, if i = target then ShardActive else if old = Some i then ShardSealed else st, u))"

lemma row_key_promote_rows:
  "map row_key (promote_rows target sa rows) = map (rotate_key target (map_option sst_ShardID sa)) (map row_key rows)"
  by (auto simp: promote_rows_def row_key_def rotate_key_def promoted_def sealed_by_def split: option.split)

lemma Promote_quiet:
  assumes "on_db (PromoteStandby target sa) s = (r, s')" and "quiet s" and "registry_inv (reg_db s)"
  shows "quiet s' \<and> reg_log s' = reg_log s \<and> registry_inv (reg_db s')
    \<and> ((\<exists>e. r = Inl e) \<and> keys s' = keys s
       \<or> promotable target sa (shard_registry (reg_db s)) \<and> keys s' = map (rotate_key target (map_option sst_ShardID sa)) (keys s)
         \<and> ((\<exists>e. r = Inl e) \<or> (\<exists>x. r = Inr (Some x))))"
proof -
  from assms(1) obtain d where p: "PromoteStandby target sa (reg_db s) = (r, d)" and s': "s' = s\<lparr>reg_db := d\<rparr>"
    by (auto simp: on_db_def split: prod.splits)
  have q: "interfere (reg_db s) = reg_db s" using assms(2) by (simp add: quiet_def)
  have "cdb_others d = []" using others_PromoteStandby [of target sa "reg_db s"] p q assms(2) by (simp add: quiet_def)
  moreover have "registry_inv d" using reg_rows.PromoteStandby_inv [OF assms(3), of target sa] p by simp
  moreover have "(\<exists>e. r = Inl e) \<and> keys s' = keys s
       \<or> promotable target sa (shard_registry (reg_db s)) \<and> keys s' = map (rotate_key target (map_option sst_ShardID sa)) (keys s)
         \<and> ((\<exists>e. r = Inl e) \<or> (\<exists>x. r = Inr (Some x)))"
    using PromoteStandby_outcome [OF p] q assms(3)
    by (auto simp: keys_def s' same_tables_def row_key_promote_rows)
  ultimately show ?thesis by (simp add: quiet_def s')
qed

text \<open>The shard at \<open>u\<close> acknowledged the request to seal itself.\<close>

definition seal_acked :: "string \<Rightarrow> reg_state \<Rightarrow> reg_state \<Rightarrow> bool" where
  "seal_acked u s s' \<longleftrightarrow> (\<exists>es k rsp. reg_log s' = reg_log s @ es \<and> rsp_code rsp = 200
     \<and> Sent ''POST'' (u @ ''/v1/internal/seal'') [] k [] (Response rsp) \<in> set es)"

lemma seal_acked_calm: "calm s t \<Longrightarrow> seal_acked u t v \<Longrightarrow> calm v w \<Longrightarrow> seal_acked u s w"
  unfolding calm_def seal_acked_def by fastforce

lemma sealShardRemote_acked:
  assumes "sealShardRemote reg sh op s = (Inr x, s')"
  shows "seal_acked (PrimaryURL sh) s s'"
proof -
  let ?u = "PrimaryURL sh @ ''/v1/internal/seal''"
  obtain rp s1 where snd: "send ''POST'' ?u [] (setInternalAuth reg) [] s = (rp, s1)" by fastforce
  with assms obtain rsp where rp: "rp = Response rsp" and c: "rsp_code rsp = 200"
    by (auto simp: sealShardRemote_def Let_def split: reply.splits if_splits)
  have log: "reg_log s1 = reg_log s @ [Sent ''POST'' ?u [] (setInternalAuth reg) [] (Response rsp)]"
    using snd rp by (auto simp: send_def emit_def split: list.splits reply.splits)
  have "calm s1 s'"
    using assms snd rp c
    by (auto simp: sealShardRemote_def split: prod.splits intro!: calm_after dest: calm_pair [OF calm_FetchStats] calm_pair [OF calm_time_Now] intro: calm_trans)
  with log c show ?thesis unfolding calm_def seal_acked_def by fastforce
qed

text \<open>What an attempt to promote \<open>j\<close> in place of \<open>i\<close> may do to the table.\<close>

definition rotated :: "int \<Rightarrow> int \<Rightarrow> reg_state \<Rightarrow> reg_state \<Rightarrow> bool" where
  "rotated i j s s' \<longleftrightarrow> (\<exists>u. (i, ShardActive, u) \<in> set (keys s)) \<and> (\<exists>v. (j, ShardStandby, v) \<in> set (keys s))
     \<and> keys s' = map (rotate_key j (Some i)) (keys s)"

lemma rotated_calm: "calm s t \<Longrightarrow> quiet s \<Longrightarrow> rotated i j t v \<Longrightarrow> quiet v \<Longrightarrow> calm v w \<Longrightarrow> rotated i j s w"
  by (simp add: calm_def rotated_def)

lemma promotable_keys:
  "promotable j (Some a) (shard_registry (reg_db s)) \<Longrightarrow> keys s' = map (rotate_key j (Some (sst_ShardID a))) (keys s)
    \<Longrightarrow> rotated (sst_ShardID a) j s s'"
  by (force simp: promotable_def rotated_def keys_def row_key_def is_active_def)

lemma query_quiet:
  assumes "on_db (query p f) s = (Inr x, s')" and "quiet s"
  shows "p \<and> same_tables (reg_db s) (reg_db s') \<and> x = f (reg_db s')"
  using assms tx_query_Inr [of p f "reg_db s" x "reg_db s'"]
  by (auto simp: on_db_def query_def quiet_def split: prod.splits)

lemma ActiveShard_quiet:
  assumes "on_db ActiveShard s = (Inr (Some a), s')" and "quiet s"
  shows "a \<in> set (shard_registry (reg_db s)) \<and> is_active a"
  using query_quiet [OF assms(1) [unfolded ActiveShard_def] assms(2)] scanShard_Some [of is_active "reg_db s'" a]
  by (auto simp: same_tables_def)

lemma seal_acked_grow:
  assumes "\<exists>es. reg_log t = reg_log s @ es" and "seal_acked u t v" and "\<exists>es. reg_log w = reg_log v @ es"
  shows "seal_acked u s w"
  using assms unfolding seal_acked_def by fastforce

lemma on_db_inv: "registry_inv (reg_db s) \<Longrightarrow> (\<And>d. registry_inv d \<Longrightarrow> registry_inv (snd (f d))) \<Longrightarrow> on_db f s = (r, s')
    \<Longrightarrow> registry_inv (reg_db s')"
  using on_db_snd [of f s] by fastforce

lemma rotate_commit_outcome:
  assumes "rotate_commit active standby totb at s = (r, s')" and "quiet s" and "registry_inv (reg_db s)"
  shows "(\<exists>es. reg_log s' = reg_log s @ es) \<and> ((\<exists>e. r = Inl e) \<and> keys s' = keys s
    \<or> rotated (ShardID active) (ShardID standby) s s' \<and> (r = Inr () \<or> (\<exists>e. r = Inl (Wrap2 ErrRotationIncomplete e))))"
proof -
  obtain ra s1 where a: "on_db ActiveShard s = (ra, s1)" by fastforce
  obtain rb s2 where b: "on_db (GetShard (ShardID standby)) s1 = (rb, s2)" by fastforce
  define s3 where "s3 = seen (ShardID standby) (State standby) s2"
  define sst where "sst = \<lparr>sst_ShardID = ShardID active, sst_TotalBytes = totb, sst_SealedAt = at\<rparr>"
  obtain rp s4 where p: "on_db (PromoteStandby (ShardID standby) (Some sst)) s3 = (rp, s4)" by fastforce
  have c: "calm s s1" "calm s s2" "calm s s3"
    using calm_pair [OF calm_queries(1) a] calm_pair [OF calm_queries(2) b]
    by (auto simp: s3_def intro: calm_trans calm_seen)
  have i3: "registry_inv (reg_db s3)"
    using on_db_inv [OF on_db_inv [OF assms(3) reg_rows.ActiveShard_inv a] reg_rows.GetShard_inv b]
    by (simp add: s3_def reg_rows.seen_inv)
  have q3: "quiet s3" using c(3) assms(2) by (simp add: calm_def)
  from Promote_quiet [OF p q3 i3] have q4: "quiet s4" and l4: "reg_log s4 = reg_log s3"
    and out: "(\<exists>e. rp = Inl e) \<and> keys s4 = keys s3 \<or> rotated (ShardID active) (ShardID standby) s3 s4
      \<and> ((\<exists>e. rp = Inl e) \<or> (\<exists>x. rp = Inr (Some x)))"
    by (auto simp: sst_def dest!: promotable_keys)
  have done_cases: "s' = s1 \<and> (\<exists>e. r = Inl e) \<or> s' = s2 \<and> (\<exists>e. r = Inl e)
    \<or> (\<exists>e. rp = Inl e \<and> r = Inl (Wrap2 ErrRotationIncomplete e) \<and> calm s4 s')
    \<or> (\<exists>x. rp = Inr x \<and> (x = None \<or> r = Inr () \<and> calm s4 s'))"
    using assms(1) a b p unfolding rotate_commit_def s3_def sst_def
    by (auto simp: err_simps split: sum.splits if_splits option.splits intro!: calm_after)
  have keep: "keys s1 = keys s" "keys s2 = keys s" "keys s3 = keys s" using c assms(2) by (simp_all add: calm_def)
  have post: "calm s4 s' \<Longrightarrow> rotated (ShardID active) (ShardID standby) s3 s4 \<Longrightarrow> rotated (ShardID active) (ShardID standby) s s'"
    using rotated_calm [OF c(3) assms(2) _ q4] by blast
  have same: "calm s4 s' \<Longrightarrow> keys s4 = keys s3 \<Longrightarrow> keys s' = keys s" using q4 keep by (simp add: calm_def)
  have log: "calm s4 s' \<Longrightarrow> \<exists>es. reg_log s' = reg_log s @ es" using c(3) l4 by (auto simp: calm_def)
  have log12: "\<exists>es. reg_log s1 = reg_log s @ es" "\<exists>es. reg_log s2 = reg_log s @ es" using c by (auto simp: calm_def)
  show ?thesis using done_cases out keep log12 log post same by auto
qed

text \<open>
  C5 (safety). When no other session interferes, a rotation either reports an error and leaves
  the state of every shard, or it turns the active shard sealed and one standby shard active,
  nothing else; and it does the latter only after the active shard itself has acknowledged that
  it is sealed. The error reported although the rotation took place is \<open>rotation incomplete\<close>.
\<close>

theorem SealAndRotate_safe:
  assumes "quiet s" and "registry_inv (reg_db s)" and "SealAndRotate reg s = (r, s')"
  shows "(\<exists>e. r = Inl e) \<and> keys s' = keys s
    \<or> (\<exists>(active :: ShardInfo) (standby :: ShardInfo). (ShardID active, ShardActive, PrimaryURL active) \<in> set (keys s)
         \<and> rotated (ShardID active) (ShardID standby) s s' \<and> seal_acked (PrimaryURL active) s s'
         \<and> (r = Inr () \<or> (\<exists>e. r = Inl (Wrap2 ErrRotationIncomplete e))))"
proof -
  obtain ra s1 where a: "on_db ActiveShard s = (ra, s1)" by fastforce
  obtain rb s2 where b: "on_db StandbyShard s1 = (rb, s2)" by fastforce
  have c2: "calm s s1" "calm s s2"
    using calm_pair [OF calm_queries(1) a] calm_pair [OF calm_StandbyShard b] by (auto intro: calm_trans)
  have i2: "registry_inv (reg_db s2)"
    using on_db_inv [OF on_db_inv [OF assms(2) reg_rows.ActiveShard_inv a] reg_rows.StandbyShard_inv b] .
  have unchanged: ?thesis if "calm s s'" "\<exists>e. r = Inl e"
    using that assms(1) by (auto simp: calm_def)
  show ?thesis
  proof (cases "\<exists>active standby t. ra = Inr (Some active) \<and> rb = Inr (Some standby)
      \<and> FetchStats reg (PrimaryURL standby) s2 = (Inr t, snd (FetchStats reg (PrimaryURL standby) s2))")
    case False
    have "calm s s' \<and> (\<exists>e. r = Inl e)"
      using assms(3) a b c2 False unfolding SealAndRotate_def
      by (auto simp: err_simps split: sum.splits option.splits prod.splits intro!: calm_after dest: calm_pair [OF calm_FetchStats] intro: calm_trans)
    then show ?thesis using unchanged by blast
  next
    case True
    then obtain active standby t s3 where ra: "ra = Inr (Some active)" and rb: "rb = Inr (Some standby)"
      and f: "FetchStats reg (PrimaryURL standby) s2 = (Inr t, s3)" by (metis prod.collapse)
    have c3: "calm s s3" using c2(2) calm_pair [OF calm_FetchStats f] by (rule calm_trans)
    have i3: "registry_inv (reg_db s3)" using i2 reg_db_FetchStats [of reg "PrimaryURL standby" s2] f by simp
    obtain rs s4 where sl: "sealShardRemote reg active ''rotate'' s3 = (rs, s4)" by fastforce
    have c4: "calm s s4" using c3 calm_pair [OF calm_sealShardRemote sl] by (rule calm_trans)
    have i4: "registry_inv (reg_db s4)" using reg_rows.sealShardRemote_inv [OF i3, of reg active "''rotate''"] sl by simp
    have act: "(ShardID active, ShardActive, PrimaryURL active) \<in> set (keys s)"
      using ActiveShard_quiet [OF a [unfolded ra] assms(1)] by (force simp: keys_def row_key_def is_active_def)
    show ?thesis
    proof (cases rs)
      case (Inl e)
      then have "r = Inl e \<and> s' = s4"
        using assms(3) a b ra rb f sl by (simp add: SealAndRotate_def)
      with c4 show ?thesis using unchanged by blast
    next
      case (Inr x)
      then have rc: "rotate_commit active standby (fst x) (snd x) s4 = (r, s')"
        using assms(3) a b ra rb f sl by (simp add: SealAndRotate_def split: prod.splits)
      have q4: "quiet s4" and k4: "keys s4 = keys s" using c4 assms(1) by (simp_all add: calm_def)
      have ack: "seal_acked (PrimaryURL active) s3 s4" using sealShardRemote_acked sl Inr by blast
      have l3: "\<exists>es. reg_log s3 = reg_log s @ es" using c3 by (simp add: calm_def)
      from rotate_commit_outcome [OF rc q4 i4] have "seal_acked (PrimaryURL active) s s'"
        using seal_acked_grow [OF l3 ack] by blast
      moreover have "rotated i j s4 s' \<Longrightarrow> rotated i j s s'" for i j using k4 by (simp add: rotated_def)
      ultimately show ?thesis using rotate_commit_outcome [OF rc q4 i4] act unfolding k4 by blast
    qed
  qed
qed

theorem SealAndRotate_safe_witness:
  "let s = sample_state [sample_shard 0 ShardActive, sample_shard 1 ShardStandby]
             [ok_reply (JObj []), ok_reply JNull, ok_reply (JObj [(''total_bytes'', JNum 42)])]
   in \<exists>s' (active :: ShardInfo). SealAndRotate sample_reg s = (Inr (), s') \<and> seal_acked (PrimaryURL active) s s'
        \<and> map (\<lambda>sh. (ShardID sh, State sh, TotalBytes_of sh)) (shard_registry (reg_db s'))
          = [(0, ShardSealed, 42), (1, ShardActive, 10)]"
proof -
  let ?s = "sample_state [sample_shard 0 ShardActive, sample_shard 1 ShardStandby]
             [ok_reply (JObj []), ok_reply JNull, ok_reply (JObj [(''total_bytes'', JNum 42)])]"
  obtain r s' where p: "SealAndRotate sample_reg ?s = (r, s')" by fastforce
  have "(case SealAndRotate sample_reg ?s of (Inl _, _) \<Rightarrow> False
      | (Inr _, t) \<Rightarrow> map (\<lambda>sh. (ShardID sh, State sh, TotalBytes_of sh)) (shard_registry (reg_db t))
          = [(0, ShardSealed, 42), (1, ShardActive, 10)])" by code_simp
  with p have ok: "r = Inr ()" "map (\<lambda>sh. (ShardID sh, State sh, TotalBytes_of sh)) (shard_registry (reg_db s'))
          = [(0, ShardSealed, 42), (1, ShardActive, 10)]" by (auto split: sum.splits)
  have "quiet ?s" and "registry_inv (reg_db ?s)"
    using sample_registry_inv by (simp_all add: quiet_def sample_state_def sample_db_def)
  from SealAndRotate_safe [OF this p] ok p show ?thesis by (auto simp: Let_def)
qed

subsection \<open>A database that does not fail\<close>

definition healthy :: "coord_db \<Rightarrow> bool" where
  "healthy db \<longleftrightarrow> cdb_faults db = [] \<and> cdb_others db = []"

lemma take_fault_healthy [simp]: "healthy db \<Longrightarrow> take_fault db = (Pass, db)"
  by (simp add: take_fault_def healthy_def)

lemma interfere_healthy [simp]: "healthy db \<Longrightarrow> interfere db = db"
  by (simp add: healthy_def)

lemma healthy_now: "healthy db \<Longrightarrow> now db = (t, db') \<Longrightarrow> healthy db' \<and> shard_registry db' = shard_registry db"
  by (auto simp: now_def healthy_def split: list.splits)

lemma healthy_registry [simp]: "healthy (db\<lparr>shard_registry := rows\<rparr>) = healthy db"
  by (simp add: healthy_def)

lemma query_healthy [simp]:
  "healthy db \<Longrightarrow> query p f db = (if p then Inr (f db) else Inl (Err ''parameter out of range''), db)"
  "healthy db \<Longrightarrow> tx_query p f db = (if p then Inr (f db) else Inl (Err ''parameter out of range''), db)"
  by (simp_all add: query_def tx_query_def)

lemma tx_exec_healthy: "healthy db \<Longrightarrow> f db = Some db' \<Longrightarrow> tx_exec f db = (Inr (), db')"
  by (simp add: tx_exec_def)

lemma map_filter_cong_key: "(\<And>s. f (g s) = f s) \<Longrightarrow> List.map_filter f (map g xs) = List.map_filter f xs"
  by (induction xs) (auto simp: List.map_filter_simps split: option.split)

lemma registry_ok_map:
  assumes "\<And>s. ShardID (g s) = ShardID s \<and> ShardUUID (g s) = ShardUUID s \<and> State (g s) = State s"
  shows "registry_ok (map g rows) = registry_ok rows"
  using assms by (simp add: registry_ok_def map_filter_cong_key comp_def is_active_def [abs_def] filter_map list_all_iff)

lemma mark_healthy:
  assumes "healthy db" and "registry_ok (shard_registry db)" and "snd (now db) = db'" and "int2 i"
    and "\<And>s. ShardID (g s) = ShardID s \<and> ShardUUID (g s) = ShardUUID s \<and> State (g s) = State s"
  shows "update_shard i g db' = Some (db'\<lparr>shard_registry := map (\<lambda>s. if by_id i s then g s else s) (shard_registry db)\<rparr>)"
proof -
  have "shard_registry db' = shard_registry db" using assms(3) shard_registry_now [of db] by simp
  with assms show ?thesis by (simp add: update_shard_Some registry_ok_map)
qed

text \<open>A change of states that leaves at most the row \<open>t\<close> active keeps the constraints; so does a promotion.\<close>

lemma registry_ok_one_active:
  assumes "registry_ok rows" and "\<And>s. ShardID (g s) = ShardID s \<and> ShardUUID (g s) = ShardUUID s"
    and "\<And>s. s \<in> set rows \<Longrightarrow> length (State (g s)) \<le> 10 \<and> (is_active (g s) \<longrightarrow> ShardID s = t)"
  shows "registry_ok (map g rows)"
proof -
  have ids: "distinct (map ShardID rows)" using assms(1) by (simp add: registry_ok_def)
  have "filter is_active (map g rows) = map g (filter (\<lambda>s. is_active (g s)) rows)" by (simp add: filter_map comp_def)
  moreover have "length (filter (\<lambda>s. is_active (g s)) rows) \<le> length (filter (\<lambda>s. ShardID s = t) rows)"
    using assms(3) by (induction rows) auto
  moreover have "length (filter (\<lambda>s. ShardID s = t) rows) \<le> 1"
    using ids by (induction rows) (auto simp: filter_empty_conv image_iff)
  ultimately have one: "length (filter is_active (map g rows)) \<le> 1" by simp
  have "map ShardID (map g rows) = map ShardID rows" using assms(2) by simp
  moreover have "List.map_filter ShardUUID (map g rows) = List.map_filter ShardUUID rows"
    using assms(2) by (intro map_filter_cong_key) blast
  moreover have "list_all (\<lambda>s. int2 (ShardID s) \<and> length (State s) \<le> 10) (map g rows)"
    using assms by (auto simp: registry_ok_def list_all_iff)
  ultimately show ?thesis using one assms(1) unfolding registry_ok_def by metis
qed

lemma one_active:
  assumes "registry_ok rows" and "a \<in> set rows" and "is_active a" and "b \<in> set rows" and "is_active b"
  shows "b = a"
proof -
  have "filter is_active rows = [a]" using assms by (intro filter_single) (simp_all add: registry_ok_def)
  moreover have "b \<in> set (filter is_active rows)" using assms by simp
  ultimately show ?thesis by simp
qed

lemma registry_ok_promote:
  assumes "registry_ok rows" and "promotable target sa rows"
  shows "registry_ok (promote_rows target sa rows)"
  unfolding promote_rows_def
proof (rule registry_ok_one_active [OF assms(1), where t = target])
  fix s assume s: "s \<in> set rows"
  have len: "length (State s) \<le> 10" using assms(1) s by (simp add: registry_ok_def list_all_iff)
  have "\<not> is_active s" if "sa = None" using assms(2) s that by (simp add: promotable_def)
  moreover have "ShardID s = sst_ShardID a" if "sa = Some a" "is_active s" for a
    using assms(2) that one_active [OF assms(1) _ _ s] by (force simp: promotable_def)
  ultimately show "length (State (if ShardID s = target then promoted s
        else case sa of None \<Rightarrow> s | Some a \<Rightarrow> if ShardID s = sst_ShardID a then sealed_by a s else s)) \<le> 10
      \<and> (is_active (if ShardID s = target then promoted s
        else case sa of None \<Rightarrow> s | Some a \<Rightarrow> if ShardID s = sst_ShardID a then sealed_by a s else s) \<longrightarrow> ShardID s = target)"
    using len by (auto simp: promoted_def sealed_by_def is_active_def split: option.splits if_splits)
qed (auto simp: promoted_def sealed_by_def split: option.split)

text \<open>The part of the transaction that seals the active shard, when it is the one to be sealed.\<close>

lemma seal_active_healthy:
  assumes "healthy db" and "registry_ok (shard_registry db)" and "promotable target sa (shard_registry db)"
  shows "seal_active target sa (scanShard (select_where (\<lambda>s. is_active s \<and> ShardID s \<noteq> target) db)) db
    = (Inr (), db\<lparr>shard_registry := map (\<lambda>s. case sa of None \<Rightarrow> s | Some a \<Rightarrow> if ShardID s = sst_ShardID a then sealed_by a s else s)
         (shard_registry db)\<rparr>)"
proof (cases sa)
  case None
  then have "scanShard (select_where (\<lambda>s. is_active s \<and> ShardID s \<noteq> target) db) = None"
    using assms(3) by (simp add: scanShard_None promotable_def)
  with None show ?thesis by (simp add: seal_active_def)
next
  case (Some a)
  let ?rows = "shard_registry db" and ?g = "\<lambda>s. if ShardID s = sst_ShardID a then sealed_by a s else s"
  obtain c where c: "c \<in> set ?rows" "ShardID c = sst_ShardID a" "is_active c" "sst_ShardID a \<noteq> target"
    using assms(3) Some by (auto simp: promotable_def)
  then have "scanShard (select_where (\<lambda>s. is_active s \<and> ShardID s \<noteq> target) db) \<noteq> None"
    by (auto simp: scanShard_None)
  then obtain k where k: "scanShard (select_where (\<lambda>s. is_active s \<and> ShardID s \<noteq> target) db) = Some k" by blast
  then have "k = c" using scanShard_Some [OF k] one_active [OF assms(2) c(1,3)] by blast
  have i: "int2 (sst_ShardID a)" using assms(2) c by (auto simp: registry_ok_def list_all_iff)
  have "registry_ok (map ?g ?rows)"
  proof (rule registry_ok_one_active [OF assms(2), where t = target])
    fix s assume s: "s \<in> set ?rows"
    then show "length (State (?g s)) \<le> 10 \<and> (is_active (?g s) \<longrightarrow> ShardID s = target)"
      using assms(2) one_active [OF assms(2) c(1,3) s] c(2) by (auto simp: sealed_by_def is_active_def registry_ok_def list_all_iff)
  qed (simp add: sealed_by_def)
  then have "tx_exec (update_shard (sst_ShardID a) (\<lambda>s. s\<lparr>State := ShardSealed, TotalBytes_of := sst_TotalBytes a,
      SealedAt := Some (sst_SealedAt a), LastError := None\<rparr>)) db = (Inr (), db\<lparr>shard_registry := map ?g ?rows\<rparr>)"
    using assms(1) i unfolding sealed_by_def by (intro tx_exec_healthy) (simp_all add: update_shard_Some by_id_def)
  with Some k \<open>k = c\<close> c(2) show ?thesis by (simp add: seal_active_def)
qed

lemma PromoteStandby_healthy:
  assumes "healthy db" and "registry_ok (shard_registry db)" and "promotable target sa (shard_registry db)"
  shows "\<exists>s. PromoteStandby target sa db
      = (Inr (Some s), db\<lparr>shard_registry := promote_rows target sa (shard_registry db)\<rparr>)
    \<and> s \<in> set (promote_rows target sa (shard_registry db)) \<and> is_active s"
proof -
  let ?rows = "shard_registry db" and ?rows' = "promote_rows target sa (shard_registry db)"
  let ?g = "\<lambda>s. case sa of None \<Rightarrow> s | Some a \<Rightarrow> if ShardID s = sst_ShardID a then sealed_by a s else s"
  from assms(3) obtain t where t: "t \<in> set ?rows" "ShardID t = target" "State t = ShardStandby"
    by (auto simp: promotable_def)
  have i: "int2 target" using assms(2) t by (auto simp: registry_ok_def list_all_iff)
  have ok: "registry_ok ?rows'" using assms(2,3) by (rule registry_ok_promote)
  have q1: "scanShard (select_where (by_id target) db) = Some t" using scanShard_by_id [OF assms(2) t(1)] t(2) by simp
  have ne: "sst_ShardID a \<noteq> target" if "sa = Some a" for a using assms(3) that by (auto simp: promotable_def)
  have "map (\<lambda>s. if by_id target s then promoted s else s) (map ?g ?rows) = ?rows'"
    using ne by (auto simp: promote_rows_def by_id_def sealed_by_def split: option.split)
  then have up: "tx_exec (update_shard target promoted) (db\<lparr>shard_registry := map ?g ?rows\<rparr>) = (Inr (), db\<lparr>shard_registry := ?rows'\<rparr>)"
    using assms(1) i ok by (intro tx_exec_healthy) (simp_all add: update_shard_Some)
  have mem: "promoted t \<in> set ?rows'" using t by (force simp: promote_rows_def)
  have q3: "scanShard (select_where (by_id target) (db\<lparr>shard_registry := ?rows'\<rparr>)) = Some (promoted t)"
    using scanShard_by_id [of "db\<lparr>shard_registry := ?rows'\<rparr>" "promoted t"] ok mem t(2) by simp
  have "PromoteStandby target sa db = (Inr (Some (promoted t)), db\<lparr>shard_registry := ?rows'\<rparr>)"
    using assms(1) i q1 t(3) seal_active_healthy [OF assms] up q3 by (simp add: PromoteStandby_def in_tx_def)
  then show ?thesis using mem by (auto simp: promoted_def is_active_def)
qed

text \<open>
  C3 (functional). What a promotion does, whatever other sessions did before it and wherever it fails.
  If it reports success, its target was standby, the one active shard was the one it was told to
  seal (none, if told none), and it leaves the target active, that shard sealed with the
  measured size and time, and every other row as it was; the row it returns is the only active
  one. If it reports an error, the table is as it found it, or fully promoted when only the answer
  of the commit was lost. On a database that does not fail and without other sessions it
  succeeds exactly in the situation described.
\<close>

theorem promotion_exact:
  assumes "registry_inv db"
  shows "(case PromoteStandby target sa db of
      (Inl e, db') \<Rightarrow> shard_registry db' = shard_registry (interfere db)
         \<or> promotable target sa (shard_registry (interfere db))
           \<and> shard_registry db' = promote_rows target sa (shard_registry (interfere db))
    | (Inr s, db') \<Rightarrow> promotable target sa (shard_registry (interfere db))
         \<and> shard_registry db' = promote_rows target sa (shard_registry (interfere db))
         \<and> (\<exists>row. s = Some row \<and> filter is_active (shard_registry db') = [row] \<and> ShardID row = target))
    \<and> (healthy db \<longrightarrow> ((\<exists>s. fst (PromoteStandby target sa db) = Inr s) \<longleftrightarrow> promotable target sa (shard_registry db)))"
proof -
  note outcome = PromoteStandby_all_or_nothing [OF assms, of target sa]
  have "(\<exists>s. fst (PromoteStandby target sa db) = Inr s) \<longleftrightarrow> promotable target sa (shard_registry db)" if h: "healthy db"
  proof
    assume "\<exists>s. fst (PromoteStandby target sa db) = Inr s"
    then show "promotable target sa (shard_registry db)"
      using outcome h by (cases "PromoteStandby target sa db") auto
  next
    assume "promotable target sa (shard_registry db)"
    with PromoteStandby_healthy [OF h] assms show "\<exists>s. fst (PromoteStandby target sa db) = Inr s"
      by (fastforce simp: registry_inv_def)
  qed
  with outcome show ?thesis by blast
qed

theorem promotion_exact_witness:
  "let sa = \<lparr>sst_ShardID = 0, sst_TotalBytes = 7, sst_SealedAt = 5\<rparr>; db = sample_db [sample_shard 0 ShardActive, sample_shard 1 ShardStandby]
   in (\<exists>row db'. PromoteStandby 1 (Some sa) db = (Inr (Some row), db') \<and> filter is_active (shard_registry db') = [row])
    \<and> (\<exists>e db'. PromoteStandby 1 None db = (Inl e, db') \<and> shard_registry db' = shard_registry db)
    \<and> (\<exists>e db'. PromoteStandby 1 (Some (sa\<lparr>sst_ShardID := 1\<rparr>)) db = (Inl e, db') \<and> shard_registry db' = shard_registry db)"
proof -
  let ?db = "sample_db [sample_shard 0 ShardActive, sample_shard 1 ShardStandby]"
  let ?sa = "\<lparr>sst_ShardID = 0, sst_TotalBytes = 7, sst_SealedAt = 5\<rparr>"
  have h: "healthy ?db" by (simp add: healthy_def sample_db_def)
  have p: "promotable 1 (Some ?sa) (shard_registry ?db)" "\<not> promotable 1 None (shard_registry ?db)"
    "\<not> promotable 1 (Some (?sa\<lparr>sst_ShardID := 1\<rparr>)) (shard_registry ?db)"
    by (simp_all add: promotable_def sample_db_def sample_shard_def is_active_def)
  note x = promotion_exact [OF sample_registry_inv, of 1]
  show ?thesis
    using x [of "Some ?sa"] x [of None] x [of "Some (?sa\<lparr>sst_ShardID := 1\<rparr>)"] h p
    by (cases "PromoteStandby 1 (Some ?sa) ?db"; cases "PromoteStandby 1 None ?db"; cases "PromoteStandby 1 (Some (?sa\<lparr>sst_ShardID := 1\<rparr>)) ?db")
      (auto simp: Let_def split: sum.splits)
qed

subsection \<open>Liveness of the write path\<close>

definition calm_db :: "reg_state \<Rightarrow> bool" where
  "calm_db s \<longleftrightarrow> healthy (reg_db s) \<and> registry_ok (shard_registry (reg_db s))"

lemma Reachable_healthy:
  assumes "healthy db" and "registry_ok (shard_registry db)" and "int2 i"
  shows "healthy (snd (MarkShardReachable i db))"
proof -
  obtain t d where n: "now db = (t, d)" by fastforce
  with healthy_now [OF assms(1)] mark_healthy [OF assms(1,2), of d i "\<lambda>s. s\<lparr>LastSeenAt := Some t, LastError := None\<rparr>"] assms
  show ?thesis by (simp add: MarkShardReachable_def exec_def tx_exec_healthy)
qed

lemma Unreachable_healthy:
  assumes "healthy db" and "registry_ok (shard_registry db)" and "int2 i"
  shows "healthy (snd (MarkShardUnreachable i m db))"
  using assms
  by (simp add: MarkShardUnreachable_def exec_def tx_exec_healthy update_shard_Some registry_ok_map)

lemma calm_db_seen: "calm_db s \<Longrightarrow> int2 i \<Longrightarrow> calm_db (seen i st s) \<and> keys (seen i st s) = keys s"
  using calm_seen [of s i st] reg_rows.seen_inv [of s i st] Reachable_healthy [of "reg_db s" i]
  by (auto simp: calm_db_def registry_inv_def calm_def quiet_def healthy_def seen_def ignore_db_def)

lemma calm_db_lost: "calm_db s \<Longrightarrow> int2 i \<Longrightarrow> calm_db (lost i st m op s) \<and> keys (lost i st m op s) = keys s"
  using calm_lost [of s i st m op] reg_rows.lost_inv [of s i st m op] Unreachable_healthy [of "reg_db s" i m]
  by (auto simp: calm_db_def registry_inv_def calm_def quiet_def healthy_def lost_def ignore_db_def)

lemma replies_on_db [simp]: "reg_replies (snd (on_db f s)) = reg_replies s"
  by (simp add: on_db_def split: prod.split)

lemma replies_marks [simp]: "reg_replies (emit e s) = reg_replies s" "reg_replies (seen i st s) = reg_replies s"
  "reg_replies (lost i st m op s) = reg_replies s"
  by (simp_all add: emit_def seen_def lost_def ignore_db_def)

lemma FetchStats_down:
  assumes "reg_replies s = NoResponse m # rps"
  obtains s' where "FetchStats reg u s = (Inl (Err m), s')" and "reg_db s' = reg_db s" and "reg_replies s' = rps"
  using assms by (simp add: FetchStats_def send_def emit_def)

lemma FetchStats_up:
  assumes "reg_replies s = Response rsp # rps" and "rsp_code rsp = 200" and "decode_stats rsp = Inr st"
  obtains s' where "FetchStats reg u s = (Inr st, s')" and "reg_db s' = reg_db s" and "reg_replies s' = rps"
  using assms by (simp add: FetchStats_def send_def emit_def)

lemma keys_cong: "reg_db s' = reg_db s \<Longrightarrow> keys s' = keys s"
  by (simp add: keys_def)

lemma promotable_of_keys:
  assumes "(target, ShardStandby, u) \<in> set (keys s)" and "\<forall>(i, st, v)\<in>set (keys s). st \<noteq> ShardActive"
  shows "promotable target None (shard_registry (reg_db s))"
  using assms by (fastforce simp: keys_def row_key_def promotable_def is_active_def)

lemma ensure_loop_live:
  assumes "calm_db s" and "\<forall>(i, st, v)\<in>set (keys s). st \<noteq> ShardActive"
    and "\<forall>sb\<in>set sbs. (ShardID sb, ShardStandby, PrimaryURL sb) \<in> set (keys s) \<and> int2 (ShardID sb)"
    and "reg_replies s = map NoResponse ms @ Response rsp # rps" and "length ms < length sbs"
    and "rsp_code rsp = 200" and "decode_stats rsp = Inr st"
  shows "\<exists>a s'. ensure_loop reg sbs le s = (Inr a, s') \<and> (ShardID a, ShardActive, PrimaryURL a) \<in> set (keys s')"
  using assms(1-5)
proof (induction sbs arbitrary: ms s le)
  case Nil
  then show ?case by simp
next
  case (Cons sb sbs)
  have i2: "int2 (ShardID sb)" using Cons.prems(3) by simp
  show ?case
  proof (cases ms)
    case (Cons m ms')
    obtain s1 where f: "FetchStats reg (PrimaryURL sb) s = (Inl (Err m), s1)" and d: "reg_db s1 = reg_db s"
      and rp: "reg_replies s1 = map NoResponse ms' @ Response rsp # rps"
      using FetchStats_down [of s m "map NoResponse ms' @ Response rsp # rps"] Cons.prems(4) Cons by auto
    define s2 where "s2 = lost (ShardID sb) (State sb) m ''ensure_active'' s1"
    have "calm_db s1" using Cons.prems(1) d by (simp add: calm_db_def)
    then have s2: "calm_db s2" "keys s2 = keys s"
      using calm_db_lost [of s1 "ShardID sb"] i2 keys_cong [OF d] by (auto simp: s2_def)
    have "\<exists>a s'. ensure_loop reg sbs (Some (Err m)) s2 = (Inr a, s') \<and> (ShardID a, ShardActive, PrimaryURL a) \<in> set (keys s')"
      using Cons.IH [OF s2(1), of ms'] Cons.prems Cons rp s2(2) by (simp add: s2_def)
    with f show ?thesis by (simp add: s2_def)
  next
    case Nil
    obtain s1 where f: "FetchStats reg (PrimaryURL sb) s = (Inr st, s1)" and d: "reg_db s1 = reg_db s"
      using Cons.prems(4) Nil assms(6,7) by (auto elim: FetchStats_up [of s rsp rps st reg "PrimaryURL sb"])
    define s2 where "s2 = seen (ShardID sb) (State sb) s1"
    have "calm_db s1" using Cons.prems(1) d by (simp add: calm_db_def)
    then have s2: "calm_db s2" "keys s2 = keys s"
      using calm_db_seen [of s1 "ShardID sb"] i2 keys_cong [OF d] by (auto simp: s2_def)
    then have "promotable (ShardID sb) None (shard_registry (reg_db s2))"
      using Cons.prems(2,3) promotable_of_keys [of "ShardID sb" "PrimaryURL sb" s2] by simp
    with s2(1) i2 obtain a where p: "PromoteStandby (ShardID sb) None (reg_db s2)
        = (Inr (Some a), (reg_db s2)\<lparr>shard_registry := promote_rows (ShardID sb) None (shard_registry (reg_db s2))\<rparr>)"
      and a: "a \<in> set (promote_rows (ShardID sb) None (shard_registry (reg_db s2)))" "is_active a"
      using PromoteStandby_healthy [of "reg_db s2" "ShardID sb" None] unfolding calm_db_def by blast
    define s3 where "s3 = s2\<lparr>reg_db := (reg_db s2)\<lparr>shard_registry := promote_rows (ShardID sb) None (shard_registry (reg_db s2))\<rparr>\<rparr>"
    have "registry_inv (reg_db s3)"
      using reg_rows.PromoteStandby_inv [of "reg_db s2" "ShardID sb" None] s2(1) p
      by (simp add: s3_def calm_db_def registry_inv_def)
    then have c3: "calm_db s3" using s2(1) by (simp add: calm_db_def s3_def registry_inv_def)
    have a3: "(ShardID a, ShardActive, PrimaryURL a) \<in> set (keys s3)"
      using a by (force simp: keys_def s3_def row_key_def is_active_def)
    have "int2 (ShardID a)"
      using c3 a(1) by (auto simp: calm_db_def registry_ok_def list_all_iff s3_def)
    with calm_db_seen [OF c3] have "keys (seen (ShardID a) (State a) s3) = keys s3" by blast
    with f p a3 show ?thesis by (auto simp: s2_def s3_def on_db_def)
  qed
qed

text \<open>
  C21 (liveness). When the database works and nobody interferes, a cluster without an active
  shard gets one as soon as one of its standby shards answers, whatever number of standby
  shards before it do not.
\<close>

theorem EnsureActiveShard_live:
  assumes "calm_db s" and "\<forall>(i, st, v)\<in>set (keys s). st \<noteq> ShardActive"
    and "reg_replies s = map NoResponse ms @ Response rsp # rps" and "rsp_code rsp = 200" and "decode_stats rsp = Inr st"
    and "length ms < length (filter (\<lambda>sh. State sh = ShardStandby) (shard_registry (reg_db s)))"
  shows "\<exists>a s'. EnsureActiveShard reg s = (Inr a, s') \<and> (ShardID a, ShardActive, PrimaryURL a) \<in> set (keys s')"
proof -
  let ?sbs = "select_where (\<lambda>sh. State sh = ShardStandby) (reg_db s)"
  have h: "healthy (reg_db s)" using assms(1) by (simp add: calm_db_def)
  have "scanShard (select_where is_active (reg_db s)) = None"
    using assms(2) by (force simp: scanShard_None keys_def row_key_def is_active_def)
  with h have act: "on_db ActiveShard s = (Inr None, s)" by (simp add: on_db_def ActiveShard_def)
  have sb: "on_db StandbyShards s = (Inr ?sbs, s)" using h by (simp add: on_db_def StandbyShards_def map_idI)
  have len: "length ms < length ?sbs" using assms(6) by (simp add: select_where_def)
  have "\<forall>sb\<in>set ?sbs. (ShardID sb, ShardStandby, PrimaryURL sb) \<in> set (keys s) \<and> int2 (ShardID sb)"
    using assms(1) by (force simp: select_where_def keys_def row_key_def calm_db_def registry_ok_def list_all_iff)
  from ensure_loop_live [OF assms(1,2) this assms(3) len assms(4,5)] act sb len show ?thesis
    by (auto simp: EnsureActiveShard_def)
qed

theorem EnsureActiveShard_live_witness:
  "\<exists>a s'. EnsureActiveShard sample_reg (sample_state [sample_shard 0 ShardSealed, sample_shard 1 ShardStandby, sample_shard 2 ShardStandby]
       [NoResponse ''refused'', ok_reply JNull]) = (Inr a, s') \<and> (ShardID a, ShardActive, PrimaryURL a) \<in> set (keys s')"
  by (rule EnsureActiveShard_live [where ms = "[''refused'']" and rsp = "ok_response JNull" and rps = "[]" and st = "\<lparr>st_ShardID = 0, st_Role = [], st_ReadOnly = False, st_TotalBytes = 0\<rparr>"])
    (simp_all add: calm_db_def healthy_def sample_state_def sample_db_def sample_shard_def registry_ok_def is_active_def
      int2_def map_filter_simps keys_def row_key_def ok_reply_def ok_response_def decode_stats_def)

text \<open>
  C22 (safety, a violation). \<^verbatim>\<open>CheckSeal\<close> writes the state \<open>active\<close> back without looking at the row
  again: a shard that another session sealed after \<^verbatim>\<open>CheckSeal\<close> had read it is active again when
  \<^verbatim>\<open>CheckSeal\<close> returns, with its time of sealing erased, and no error is reported.
\<close>

theorem CheckSeal_reactivates:
  assumes "shard_registry (reg_db s) = [a]" and "is_active a" and "registry_ok [a]"
    and "cdb_others (reg_db s) = [None, None, Some [a\<lparr>State := ShardSealed, SealedAt := Some t\<rparr>]]"
    and "cdb_faults (reg_db s) = []"
    and "reg_replies s = Response rsp # rps" and "rsp_code rsp = 200" and "decode_stats rsp = Inr st"
    and "st_TotalBytes st < shardMaxBytes reg"
  shows "\<exists>s'. CheckSeal reg s = (Inr (), s')
    \<and> map (\<lambda>sh. (ShardID sh, State sh, SealedAt sh)) (shard_registry (reg_db s')) = [(ShardID a, ShardActive, None)]"
proof -
  let ?b = "a\<lparr>State := ShardSealed, SealedAt := Some t\<rparr>"
  let ?d1 = "(reg_db s)\<lparr>cdb_others := [None, Some [?b]]\<rparr>"
  have d1: "on_db ActiveShard s = (Inr (Some a), s\<lparr>reg_db := ?d1\<rparr>)"
    using assms(1,2,4,5)
    by (simp add: on_db_def ActiveShard_def query_def interfere_def tx_query_def take_fault_def scanShard_def select_where_def)
  obtain s2 where f: "FetchStats reg (PrimaryURL a) (s\<lparr>reg_db := ?d1\<rparr>) = (Inr st, s2)" and s2: "reg_db s2 = ?d1"
    by (rule FetchStats_up [of "s\<lparr>reg_db := ?d1\<rparr>" rsp rps st reg "PrimaryURL a"]) (use assms(6-8) in auto)
  define s3 where "s3 = seen (ShardID a) (State a) s2"
  have i: "int2 (ShardID a)" using assms(3) by (simp add: registry_ok_def)
  have d3: "cdb_others (reg_db s3) = [Some [?b]] \<and> cdb_faults (reg_db s3) = []"
    using assms(1,4,5) s2
    by (auto simp: s3_def seen_def ignore_db_def on_db_def MarkShardReachable_def exec_def interfere_def tx_exec_def
        take_fault_def now_def update_shard_Some split: option.split list.split prod.split)
  have b: "registry_ok [?b]" and c: "registry_ok [?b\<lparr>State := ShardActive, TotalBytes_of := st_TotalBytes st, SealedAt := None\<rparr>]"
    using assms(3) by (simp_all add: registry_ok_def is_active_def map_filter_simps split: option.split)
  have "shard_registry (reg_db (ignore_db (SetShardState (ShardID a) ShardActive (st_TotalBytes st) None) s3))
      = [?b\<lparr>State := ShardActive, TotalBytes_of := st_TotalBytes st, SealedAt := None\<rparr>]"
    using d3 i b c
    by (simp add: ignore_db_def on_db_def SetShardState_def exec_def interfere_def tx_exec_def take_fault_def
        update_shard_def update_where_def put_registry_def by_id_def)
  then show ?thesis
    using d1 f assms(9) by (simp add: CheckSeal_def checkActive_def s3_def Let_def)
qed

theorem CheckSeal_reactivates_witness:
  "\<exists>s'. CheckSeal sample_reg \<lparr>reg_db = (sample_db [sample_shard 0 ShardActive])
        \<lparr>cdb_others := [None, None, Some [(sample_shard 0 ShardActive)\<lparr>State := ShardSealed, SealedAt := Some 9\<rparr>]]\<rparr>,
       reg_replies = [ok_reply JNull], reg_log = []\<rparr> = (Inr (), s')
    \<and> map State (shard_registry (reg_db s')) = [ShardActive]"
  using CheckSeal_reactivates [where reg = sample_reg and a = "sample_shard 0 ShardActive" and t = 9 and rsp = "ok_response JNull" and rps = "[]"
      and st = "\<lparr>st_ShardID = 0, st_Role = [], st_ReadOnly = False, st_TotalBytes = 0\<rparr>"
      and s = "\<lparr>reg_db = (sample_db [sample_shard 0 ShardActive])
        \<lparr>cdb_others := [None, None, Some [(sample_shard 0 ShardActive)\<lparr>State := ShardSealed, SealedAt := Some 9\<rparr>]]\<rparr>,
       reg_replies = [ok_reply JNull], reg_log = []\<rparr>"]
  by (auto simp: sample_db_def sample_shard_def is_active_def registry_ok_def int2_def map_filter_simps ok_reply_def
      ok_response_def decode_stats_def sample_reg_def)

end
