(* ===== verification/Coord_Routing.thy ===== *)
theory Coord_Routing
  imports Coord_Props
begin

text \<open>
  Packages through the coordinator: the id a client is given leads back to the shard that took
  the package, and the global index changes only when a package was taken.
\<close>

lemma map_of_obj_update: "map_of (obj_update k f kvs) k' = (if k' = k then map_option f (map_of kvs k') else map_of kvs k')"
  by (induction kvs) (auto simp: obj_update_def)

lemma rewrite_package_id: "obj_get ''package_id'' (rewrite_package g pkg) = JNum g"
  by (simp add: rewrite_package_def obj_get_def map_of_obj_update map_of_obj_set)

lemma now_pair_same: "now d = (t, d') \<Longrightarrow> same_tables d d'"
  using now_same [of d] by simp

lemma received_at_db: "received_at rf pkg s = (t, s') \<Longrightarrow> same_tables (reg_db s) (reg_db s') \<and> reg_log s' = reg_log s"
  by (auto simp: received_at_def time_Now_def split: prod.splits dest: now_pair_same)

lemma index_seen [simp]: "global_package_index (reg_db (seen i st s)) = global_package_index (reg_db s)"
  by (rule same_idx.seen_inv) simp

lemma log_seen: "\<exists>es. reg_log (seen i st s) = reg_log s @ es"
  using calm_seen [of s i st] by (simp add: calm_def)

lemma InsertGlobalPackage_Inr:
  assumes "InsertGlobalPackage e db = (Inr u, db')"
  shows "\<exists>r\<in>set (global_package_index db'). GlobalID r = GlobalID e"
  using assms tx_exec_Inr [of _ "interfere db" u db']
  by (auto simp: InsertGlobalPackage_def exec_def list_ex_iff split: if_splits dest!: tx_exec_Inr)

lemma post_created_Inr:
  assumes "post_created rf active body rsp s = (Inr (p, c), s')"
  shows "\<exists>kvs localID out. c = 201 \<and> rsp_json rsp = Some (JObj kvs) \<and> p = Marshal (JObj out)
    \<and> asJSONInt64 (obj_get ''package_id'' (obj_of (map (\<lambda>kv. (fst kv, decode_any (snd kv))) kvs))) = Some localID
    \<and> obj_get ''package_id'' out = JNum (Encode (ShardID active) localID)
    \<and> (\<exists>r\<in>set (global_package_index (reg_db s')). GlobalID r = Encode (ShardID active) localID)
    \<and> (\<exists>es. reg_log s' = reg_log s @ es)"
proof -
  from assms obtain m where m: "Unmarshal_map (rsp_json rsp) = Inr m"
    by (auto simp: post_created_def split: sum.splits)
  define pkg where "pkg = (case m of None \<Rightarrow> [] | Some kvs \<Rightarrow> kvs)"
  from assms m obtain localID where l: "asJSONInt64 (obj_get ''package_id'' pkg) = Some localID"
    by (auto simp: post_created_def pkg_def Let_def split: option.splits)
  define out where "out = rewrite_package (Encode (ShardID active) localID) pkg"
  from assms m l obtain su where su: "asJSONInt64 (obj_get ''supplier_id'' out) = Some su"
    by (auto simp: post_created_def pkg_def [symmetric] out_def Let_def split: option.splits)
  obtain t s1 where rv: "received_at rf out s = (t, s1)" by fastforce
  define e where "e = \<lparr>GlobalID = Encode (ShardID active) localID, gpi_ShardID = ShardID active, gpi_LocalID = localID,
     gpi_SupplierID = su, gpi_ReceivedAt = t, PackageHash = hashPackage body\<rparr>"
  obtain ri s2 where ins: "on_db (InsertGlobalPackage e) s1 = (ri, s2)" by fastforce
  with assms m l su rv have res: "ri = Inr ()" "p = Marshal (JObj out)" "c = 201" "s' = seen (ShardID active) (State active) s2"
    by (auto simp: post_created_def pkg_def [symmetric] out_def [symmetric] e_def Let_def split: sum.splits)
  have row: "\<exists>r\<in>set (global_package_index (reg_db s2)). GlobalID r = Encode (ShardID active) localID"
    using ins res(1) InsertGlobalPackage_Inr [of e "reg_db s1"] by (auto simp: on_db_def e_def split: prod.splits)
  have lg: "\<exists>es. reg_log s' = reg_log s @ es"
    using received_at_db [OF rv] ins log_seen [of "ShardID active" "State active" s2] res(4)
    by (auto simp: on_db_def split: prod.splits)
  have "m \<noteq> None" using l by (auto simp: pkg_def obj_get_def asJSONInt64_def split: option.splits)
  then obtain kvs where "rsp_json rsp = Some (JObj kvs)" "pkg = obj_of (map (\<lambda>kv. (fst kv, decode_any (snd kv))) kvs)"
    using m by (auto simp: Unmarshal_map_def pkg_def split: option.splits json.splits)
  with l row lg res rewrite_package_id show ?thesis unfolding out_def by fastforce
qed

text \<open>A read of a global id goes to the shard it names, and asks for the local id it names.\<close>

lemma ProxyGet_routed:
  assumes "healthy (reg_db t)" and "registry_ok (shard_registry (reg_db t))" and "sh \<in> set (shard_registry (reg_db t))"
    and "reg_replies t = Response rsp # rps" and "0 \<le> ShardID sh" and "0 \<le> localID" and "localID < 2 ^ 48"
  shows "Sent ''GET'' (ReadURL sh @ ''/v1/packages/'' @ itoa localID @ sfx) [] None [] (Response rsp)
    \<in> set (reg_log (snd (ProxyGet (Encode (ShardID sh) localID) sfx t)))"
proof -
  have i: "int2 (ShardID sh)" using assms(2,3) by (simp add: registry_ok_def list_all_iff)
  then have dec: "Decode (Encode (ShardID sh) localID) = (ShardID sh, localID)"
    using assms(5-7) unfolding Decode_word Encode_word join_parts by (simp add: word_fits sint_small_word int2_def)
  have "on_db (GetShard (ShardID sh)) t = (Inr (Some sh), t)"
    using assms(1-3) i by (simp add: on_db_def GetShard_def scanShard_by_id)
  moreover have "send ''GET'' u [] None [] t = (Response rsp, emit (Sent ''GET'' u [] None [] (Response rsp)) (t\<lparr>reg_replies := rps\<rparr>))" for u
    using assms(4) by (simp add: send_def)
  moreover have "x \<in> set (reg_log (seen i st s))" if "x \<in> set (reg_log s)" for x i st s
    using log_seen [of i st s] that by auto
  ultimately show ?thesis
    using dec by (auto simp: ProxyGet_def emit_def split: option.split sum.split)
qed

text \<open>Without interference, the shard that takes a write is the active one of the table.\<close>

abbreviation in_table :: "ShardInfo \<Rightarrow> reg_state \<Rightarrow> bool" where
  "in_table a s \<equiv> (ShardID a, ShardActive, PrimaryURL a) \<in> set (keys s)"

lemma in_table_row: "a \<in> set (shard_registry (reg_db s)) \<Longrightarrow> is_active a \<Longrightarrow> in_table a s"
  by (force simp: keys_def row_key_def is_active_def)

lemma in_table_calm: "calm s s' \<Longrightarrow> quiet s \<Longrightarrow> quiet s' \<and> (in_table a s' \<longleftrightarrow> in_table a s)"
  by (simp add: calm_def)

lemma ActiveShard_in_table:
  assumes "on_db ActiveShard s = (Inr (Some a), s')" and "quiet s"
  shows "quiet s' \<and> in_table a s'"
  using ActiveShard_quiet [OF assms] in_table_row in_table_calm [OF calm_pair [OF calm_queries(1) assms(1)] assms(2)] by blast

lemma ensure_loop_in_table:
  "ensure_loop reg sbs le s = (Inr a, s') \<Longrightarrow> quiet s \<Longrightarrow> registry_inv (reg_db s) \<Longrightarrow> quiet s' \<and> in_table a s'"
proof (induction sbs arbitrary: le s)
  case (Cons sb sbs)
  obtain rf s1 where f: "FetchStats reg (PrimaryURL sb) s = (rf, s1)" by fastforce
  have s1: "quiet s1" "registry_inv (reg_db s1)"
    using in_table_calm [OF calm_pair [OF calm_FetchStats f]] Cons.prems(2,3) reg_db_FetchStats [of reg "PrimaryURL sb" s] f by auto
  show ?case
  proof (cases rf)
    case (Inl e)
    let ?t = "lost (ShardID sb) (State sb) (error_text e) ''ensure_active'' s1"
    have "quiet ?t" "registry_inv (reg_db ?t)" using in_table_calm [OF calm_lost] s1 reg_rows.lost_inv by blast+
    with Cons.IH Cons.prems(1) f Inl show ?thesis by simp
  next
    case (Inr x)
    let ?t = "seen (ShardID sb) (State sb) s1"
    have t: "quiet ?t" "registry_inv (reg_db ?t)" using in_table_calm [OF calm_seen] s1 reg_rows.seen_inv by blast+
    obtain rp s2 where p: "on_db (PromoteStandby (ShardID sb) None) ?t = (rp, s2)" by fastforce
    have s2: "quiet s2" "registry_inv (reg_db s2)" using Promote_quiet [OF p t] by auto
    show ?thesis
    proof (cases rp)
      case (Inl e)
      let ?u = "emit (ShardFailure (ShardID sb) ''ensure_active_promote'') s2"
      have u: "quiet ?u" "registry_inv (reg_db ?u)" using s2 by (simp_all add: quiet_def emit_def)
      show ?thesis
      proof (cases "errors_Is e ErrStateConflict")
        case True
        then obtain c v where c: "on_db ActiveShard ?u = (Inr c, v)"
          and k: "(case c of Some a \<Rightarrow> (Inr a, v) | None \<Rightarrow> ensure_loop reg sbs (Some e) v) = (Inr a, s')"
          using Cons.prems(1) f Inr p Inl by (auto simp: Let_def tryE_Inr_iff)
        have v: "quiet v" "registry_inv (reg_db v)"
          using in_table_calm [OF calm_pair [OF calm_queries(1) c] u(1)] on_db_inv [OF u(2) reg_rows.ActiveShard_inv c] by auto
        show ?thesis
        proof (cases c)
          case None
          with k v Cons.IH show ?thesis by simp
        next
          case (Some b)
          with k c ActiveShard_in_table [OF _ u(1)] show ?thesis by simp
        qed
      next
        case False
        with Cons.IH u Cons.prems(1) f Inr p Inl show ?thesis by simp
      qed
    next
      case (Inr y)
      obtain d where d: "PromoteStandby (ShardID sb) None (reg_db ?t) = (rp, d)" "reg_db s2 = d"
        using p by (auto simp: on_db_def split: prod.splits)
      obtain b where b: "y = Some b" "b \<in> set (shard_registry (reg_db s2))" "is_active b"
        using PromoteStandby_outcome [OF d(1)] t Inr d(2) by (auto simp: quiet_def)
      have "a = b" "s' = seen (ShardID b) (State b) s2" using Cons.prems(1) f \<open>rf = Inr x\<close> p Inr b(1) by auto
      with in_table_row [OF b(2,3)] in_table_calm [OF calm_seen s2(1)] show ?thesis by simp
    qed
  qed
qed simp

lemma choose_active_in_table:
  assumes "choose_active reg s = (Inr a, s')" and "quiet s" and "registry_inv (reg_db s)"
  shows "quiet s' \<and> in_table a s'"
proof -
  obtain c s1 where c: "on_db ActiveShard s = (Inr c, s1)" using assms(1) by (auto simp: choose_active_def tryE_Inr_iff)
  have s1: "quiet s1" "registry_inv (reg_db s1)"
    using in_table_calm [OF calm_pair [OF calm_queries(1) c] assms(2)] on_db_inv [OF assms(3) reg_rows.ActiveShard_inv c] by auto
  show ?thesis
  proof (cases c)
    case (Some b)
    with assms(1) c ActiveShard_in_table [OF _ assms(2)] show ?thesis by (simp add: choose_active_def)
  next
    case None
    then have "EnsureActiveShard reg s1 = (Inr a, s')" using assms(1) c by (auto simp: choose_active_def split: prod.splits sum.splits)
    then obtain e s2 where e: "on_db ActiveShard s1 = (Inr e, s2)" and k: "(case e of Some a \<Rightarrow> (Inr a, s2)
       | None \<Rightarrow> tryE (on_db StandbyShards s2) (\<lambda>standbys s. if standbys = [] then (Inl (Err ''no standby shard available''), s)
            else ensure_loop reg standbys None s)) = (Inr a, s')"
      by (auto simp: EnsureActiveShard_def tryE_Inr_iff)
    have s2: "quiet s2" "registry_inv (reg_db s2)"
      using in_table_calm [OF calm_pair [OF calm_queries(1) e] s1(1)] on_db_inv [OF s1(2) reg_rows.ActiveShard_inv e] by auto
    show ?thesis
    proof (cases e)
      case (Some b)
      with k e ActiveShard_in_table [OF _ s1(1)] show ?thesis by simp
    next
      case None
      then obtain sbs s3 where sb: "on_db StandbyShards s2 = (Inr sbs, s3)" and l: "ensure_loop reg sbs None s3 = (Inr a, s')"
        using k by (auto simp: tryE_Inr_iff split: if_splits)
      have "quiet s3" "registry_inv (reg_db s3)"
        using in_table_calm [OF calm_pair [OF calm_queries(3) sb] s2(1)] on_db_inv [OF s2(2) reg_rows.StandbyShards_inv sb] by auto
      with ensure_loop_in_table [OF l] show ?thesis by blast
    qed
  qed
qed

lemma calm_InsertGlobalPackage: "calm s (snd (on_db (InsertGlobalPackage e) s))"
  unfolding InsertGlobalPackage_def by (rule calm_on_update) (auto split: if_splits)

lemma calm_received_at: "calm s (snd (received_at rf pkg s))"
  by (auto simp: received_at_def split: prod.split dest: calm_pair [OF calm_time_Now])

lemma calm_post_created: "calm s (snd (post_created rf a body rsp s))"
proof -
  note ins = calm_step [OF _ calm_InsertGlobalPackage]
  show ?thesis
    unfolding post_created_def Let_def
    by (auto intro!: calm_case calm_received_at ins calm_after split: sum.split option.split)
qed

subsection \<open>Properties\<close>

text \<open>
  C7 (roundtrip). When a package was accepted, the request went to the shard that \<open>choose_active\<close>
  chose, which is the active shard of the table when no other session interferes; the client is
  given the id that encodes this shard's id and the local id in the shard's answer, and the index
  has a row for it. Whenever that shard is registered and the database answers, a read of the id
  asks the shard's read address for that local id, for the package and for anything below it;
  this for shard ids that are not negative and local ids below \<open>2 ^ 48\<close>.
\<close>

theorem ProxyPost_then_ProxyGet:
  assumes "ProxyPost rf reg su body fn s = (Inr (p, 201), s')"
  shows "\<exists>(active :: ShardInfo) s1 localID kvs out rsp params.
     choose_active reg s = (Inr active, s1)
   \<and> (quiet s \<and> registry_inv (reg_db s) \<longrightarrow> (ShardID active, ShardActive, PrimaryURL active) \<in> set (keys s'))
   \<and> Sent ''POST'' (PrimaryURL active @ ''/v1/packages'') params None body (Response rsp) \<in> set (reg_log s')
   \<and> rsp_json rsp = Some (JObj kvs)
   \<and> asJSONInt64 (obj_get ''package_id'' (obj_of (map (\<lambda>kv. (fst kv, decode_any (snd kv))) kvs))) = Some localID
   \<and> p = Marshal (JObj out) \<and> obj_get ''package_id'' out = JNum (Encode (ShardID active) localID)
   \<and> (\<exists>r\<in>set (global_package_index (reg_db s')). GlobalID r = Encode (ShardID active) localID)
   \<and> (\<forall>t sh sfx rsp2 rps. 0 \<le> ShardID active \<and> 0 \<le> localID \<and> localID < 2 ^ 48 \<and> calm_db t
        \<and> sh \<in> set (shard_registry (reg_db t)) \<and> ShardID sh = ShardID active \<and> reg_replies t = Response rsp2 # rps
        \<longrightarrow> Sent ''GET'' (ReadURL sh @ ''/v1/packages/'' @ itoa localID @ sfx) [] None [] (Response rsp2)
             \<in> set (reg_log (snd (ProxyGet (Encode (ShardID active) localID) sfx t))))"
proof -
  define params where "params = (if fn \<noteq> [] then [(''filename'', fn)] else []) @ [(''supplier_id'', itoa su)]"
  from assms obtain active s1 where ch: "choose_active reg s = (Inr active, s1)"
    by (auto simp: ProxyPost_def tryE_Inr_iff)
  let ?u = "PrimaryURL active @ ''/v1/packages''"
  obtain rp s2 where sd: "send ''POST'' ?u params None body s1 = (rp, s2)" by fastforce
  with assms ch obtain rsp where rp: "rp = Response rsp" "rsp_broken rsp = None"
    by (auto simp: ProxyPost_def params_def split: reply.splits option.splits)
  have code: "rsp_code rsp = 201"
  proof (rule ccontr)
    assume "rsp_code rsp \<noteq> 201"
    with assms ch sd rp have "post_rejected active rsp s2 = (Inr (p, 201), s')"
      by (simp add: ProxyPost_def params_def)
    with \<open>rsp_code rsp \<noteq> 201\<close> show False by (simp add: post_rejected_def Let_def split: if_splits)
  qed
  with assms ch sd rp have pc: "post_created rf active body rsp s2 = (Inr (p, 201), s')"
    by (simp add: ProxyPost_def params_def)
  from post_created_Inr [OF pc] obtain kvs localID out es where
    o: "rsp_json rsp = Some (JObj kvs)" "p = Marshal (JObj out)"
    "asJSONInt64 (obj_get ''package_id'' (obj_of (map (\<lambda>kv. (fst kv, decode_any (snd kv))) kvs))) = Some localID"
    "obj_get ''package_id'' out = JNum (Encode (ShardID active) localID)"
    "\<exists>r\<in>set (global_package_index (reg_db s')). GlobalID r = Encode (ShardID active) localID"
    and es: "reg_log s' = reg_log s2 @ es" by blast
  have "Sent ''POST'' ?u params None body (Response rsp) \<in> set (reg_log s2)"
    using sd rp(1) by (auto simp: send_def emit_def split: list.splits reply.splits)
  then have "Sent ''POST'' ?u params None body (Response rsp) \<in> set (reg_log s')" using es by simp
  moreover have "quiet s \<and> registry_inv (reg_db s) \<longrightarrow> in_table active s'"
    using choose_active_in_table [OF ch] in_table_calm [OF calm_trans [OF calm_send_pair [OF sd] calm_pair [OF calm_post_created pc]]] by blast
  moreover have "\<forall>t sh sfx rsp2 rps. 0 \<le> ShardID active \<and> 0 \<le> localID \<and> localID < 2 ^ 48 \<and> calm_db t
        \<and> sh \<in> set (shard_registry (reg_db t)) \<and> ShardID sh = ShardID active \<and> reg_replies t = Response rsp2 # rps
        \<longrightarrow> Sent ''GET'' (ReadURL sh @ ''/v1/packages/'' @ itoa localID @ sfx) [] None [] (Response rsp2)
             \<in> set (reg_log (snd (ProxyGet (Encode (ShardID active) localID) sfx t)))"
    using ProxyGet_routed unfolding calm_db_def by metis
  ultimately show ?thesis using o ch by blast
qed

text \<open>
  An answer other than 201 leaves the global index as it was, unless it says that
  writing the index failed.
\<close>

theorem ProxyPost_index_on_error:
  assumes "ProxyPost rf reg su body fn s = (r, s')"
  shows "global_package_index (reg_db s') = global_package_index (reg_db s)
    \<or> (\<exists>p. r = Inr (p, 201)) \<or> (\<exists>e. r = Inl (StatusError 500 ''global_index_write_failed'' e))"
proof -
  have created: "(\<exists>e. fst q = Inl (StatusError 500 ''global_index_write_failed'' e)) \<or> (\<exists>p. fst q = Inr (p, 201))
      \<or> global_package_index (reg_db (snd q)) = global_package_index (reg_db s2)"
    if "q = post_created rf a body rsp s2" for q a rsp s2
    unfolding that post_created_def Let_def by (auto split: sum.split option.split prod.split)
  let ?same = "\<lambda>t. global_package_index (reg_db t) = global_package_index (reg_db s)"
  have "?same (snd q) \<or> (\<exists>p. fst q = Inr (p, 201)) \<or> (\<exists>e. fst q = Inl (StatusError 500 ''global_index_write_failed'' e))"
    if q: "q = ProxyPost rf reg su body fn s" for q
  proof -
    have ch: "?same (snd (choose_active reg s))" by (rule same_idx.choose_active_inv) simp
    show ?thesis
    proof (cases "choose_active reg s")
      case (Pair ra s1)
      then have s1: "?same s1" using ch by simp
      show ?thesis
      proof (cases ra)
        case (Inl e)
        with Pair s1 q show ?thesis by (simp add: ProxyPost_def)
      next
        case (Inr a)
        define params where "params = (if fn \<noteq> [] then [(''filename'', fn)] else []) @ [(''supplier_id'', itoa su)]"
        obtain rp s2 where sd: "send ''POST'' (PrimaryURL a @ ''/v1/packages'') params None body s1 = (rp, s2)" by fastforce
        have s2: "?same s2" using reg_db_send_pair [OF sd] s1 by simp
        have "?same (lost i st m op s2)" "?same (snd (post_rejected a rsp s2))" for i st m op rsp
          using s2 by (auto intro: same_idx.lost_inv same_idx.post_rejected_inv)
        with s2 q Pair Inr sd created [OF refl, of a _ s2] show ?thesis
          by (cases rp) (auto simp: ProxyPost_def params_def split: option.split)
      qed
    qed
  qed
  from this [OF refl] assms show ?thesis by simp
qed

definition created_response :: response where
  "created_response = \<lparr>rsp_code = 201, rsp_status = ''201 Created'', rsp_type = ''application/json'', rsp_text = ''{}'',
     rsp_json = Some (JObj [(''package_id'', JNum 5), (''supplier_id'', JNum 3)]), rsp_broken = None\<rparr>"

abbreviation posting :: reg_state where
  "posting \<equiv> sample_state [sample_shard 0 ShardActive] [Response created_response]"

lemma created_choice: "\<exists>s1. choose_active sample_reg posting = (Inr (sample_shard 0 ShardActive), s1)"
  by (simp add: choose_active_def sample_state_def sample_db_def on_db_def ActiveShard_def query_def tx_query_def
      take_fault_def interfere_def scanShard_def select_where_def sample_shard_def is_active_def)

lemma created_post:
  "\<exists>p s'. ProxyPost (\<lambda>_. None) sample_reg 3 [1] [] posting = (Inr (p, 201), s')
     \<and> (\<forall>m u ps k b rsp. Sent m u ps k b (Response rsp) \<in> set (reg_log s') \<longrightarrow> rsp = created_response)"
  by (simp add: ProxyPost_def choose_active_def sample_state_def sample_db_def on_db_def ActiveShard_def query_def tx_query_def
      take_fault_def interfere_def scanShard_def select_where_def sample_shard_def is_active_def send_def created_response_def emit_def
      post_created_def Unmarshal_map_def obj_of_def f64_exact Let_def rewrite_package_def obj_update_def obj_get_def asJSONInt64_def
      received_at_def time_Now_def now_def InsertGlobalPackage_def exec_def tx_exec_def int2_def int4_def int64_of_float_def
      seen_def ignore_db_def split: prod.split)

text \<open>Shard 0 takes the package as its number 5; the id leads there also when the shard is sealed.\<close>

theorem ProxyPost_then_ProxyGet_witness:
  "\<exists>p s' out. ProxyPost (\<lambda>_. None) sample_reg 3 [1] [] posting = (Inr (p, 201), s')
     \<and> p = Marshal (JObj out) \<and> obj_get ''package_id'' out = JNum (Encode 0 5)
     \<and> Sent ''GET'' (''http://s0/v1/packages/5/original'') [] None [] (Response created_response)
         \<in> set (reg_log (snd (ProxyGet (Encode 0 5) ''/original'' (sample_state [sample_shard 0 ShardSealed] [Response created_response]))))"
proof -
  let ?t = "sample_state [sample_shard 0 ShardSealed] [Response created_response]"
  obtain p s' where p: "ProxyPost (\<lambda>_. None) sample_reg 3 [1] [] posting = (Inr (p, 201), s')"
    and lg: "\<forall>m u ps k b rsp. Sent m u ps k b (Response rsp) \<in> set (reg_log s') \<longrightarrow> rsp = created_response"
    using created_post by blast
  from ProxyPost_then_ProxyGet [OF p] obtain active s1 localID kvs out rsp params where
    a: "choose_active sample_reg posting = (Inr active, s1)"
    "Sent ''POST'' (PrimaryURL active @ ''/v1/packages'') params None [1] (Response rsp) \<in> set (reg_log s')"
    "rsp_json rsp = Some (JObj kvs)"
    "asJSONInt64 (obj_get ''package_id'' (obj_of (map (\<lambda>kv. (fst kv, decode_any (snd kv))) kvs))) = Some localID"
    "p = Marshal (JObj out)" "obj_get ''package_id'' out = JNum (Encode (ShardID active) localID)"
    and g: "\<forall>t sh sfx rsp2 rps. 0 \<le> ShardID active \<and> 0 \<le> localID \<and> localID < 2 ^ 48 \<and> calm_db t
        \<and> sh \<in> set (shard_registry (reg_db t)) \<and> ShardID sh = ShardID active \<and> reg_replies t = Response rsp2 # rps
        \<longrightarrow> Sent ''GET'' (ReadURL sh @ ''/v1/packages/'' @ itoa localID @ sfx) [] None [] (Response rsp2)
             \<in> set (reg_log (snd (ProxyGet (Encode (ShardID active) localID) sfx t)))" by blast
  have sh: "active = sample_shard 0 ShardActive" using a(1) created_choice by auto
  have "rsp = created_response" using lg a(2) by blast
  then have l: "localID = 5" using a(3,4) by (auto simp: created_response_def obj_of_def f64_exact obj_get_def asJSONInt64_def int64_of_float_def)
  have n: "itoa 0 = ''0''" "itoa 5 = ''5''" by code_simp+
  have c: "calm_db ?t"
    by (simp add: calm_db_def healthy_def sample_state_def sample_db_def sample_shard_def registry_ok_def is_active_def int2_def map_filter_simps)
  have "Sent ''GET'' (ReadURL (sample_shard 0 ShardSealed) @ ''/v1/packages/'' @ itoa 5 @ ''/original'') [] None [] (Response created_response)
      \<in> set (reg_log (snd (ProxyGet (Encode 0 5) ''/original'' ?t)))"
    using g [rule_format, of ?t "sample_shard 0 ShardSealed" created_response "[]" "''/original''"] c sh l
    by (simp add: sample_state_def sample_db_def sample_shard_def)
  moreover have "ReadURL (sample_shard 0 ShardSealed) = ''http://s0''" by (simp add: ReadURL_def sample_shard_def n)
  ultimately show ?thesis using p a(5,6) sh l n by (simp add: sample_shard_def)
qed

theorem ProxyPost_index_on_error_witness:
  "\<exists>r s'. ProxyPost (\<lambda>_. None) sample_reg 3 [1] [] (sample_state [sample_shard 0 ShardActive] [NoResponse ''refused''])
       = (r, s') \<and> global_package_index (reg_db s') = []"
proof -
  obtain r s' where p: "ProxyPost (\<lambda>_. None) sample_reg 3 [1] []
       (sample_state [sample_shard 0 ShardActive] [NoResponse ''refused'']) = (r, s')" by fastforce
  moreover have "r = Inl (unavailable (Err ''refused''))"
    using p by (simp add: ProxyPost_def choose_active_def sample_state_def sample_db_def on_db_def ActiveShard_def query_def tx_query_def
      take_fault_def interfere_def scanShard_def select_where_def sample_shard_def is_active_def send_def)
  ultimately show ?thesis
    using ProxyPost_index_on_error [OF p] by (auto simp: sample_state_def sample_db_def unavailable_def)
qed

end
