(* ===== verification/Coord_Server.thy ===== *)
theory Coord_Server
  imports Coord_Routing Config
begin

text \<open>
  The HTTP handlers of the coordinator (\<^verbatim>\<open>internal/coordinator/server.go\<close>,
  \<^verbatim>\<open>admin_requests.go\<close>). A request comes
  as the values the router and \<^verbatim>\<open>net/http\<close> extract from it: path and query parameters, headers,
  the body with the failure that ends it, and the JSON value the body starts with.
\<close>

subsection \<open>Answers to clients\<close>

datatype out_body =
    ErrorBody string
  | DataBody payload
  | ShardsBody "ShardInfo list"
  | ShardBody "ShardInfo option"
  | RegisterBody ShardInfo bool
  | StatusBody string

record answer =
  ans_status :: int
  ans_type :: string
  ans_body :: out_body

definition writeJSON :: "int \<Rightarrow> out_body \<Rightarrow> answer" where
  "writeJSON status v = \<lparr>ans_status = status, ans_type = ''application/json'', ans_body = v\<rparr>"

text \<open>An empty content type leaves the header to be sniffed by \<^verbatim>\<open>net/http\<close>.\<close>

definition writeRaw :: "int \<Rightarrow> string \<Rightarrow> payload \<Rightarrow> answer" where
  "writeRaw status ct data = \<lparr>ans_status = status, ans_type = ct, ans_body = DataBody data\<rparr>"

text \<open>\<^verbatim>\<open>errors.As(err, &statusErr)\<close>.\<close>

fun as_StatusError :: "error \<Rightarrow> (int \<times> string) option" where
  "as_StatusError (StatusError n c e) = Some (n, c)"
| "as_StatusError (Wrap p e q) = as_StatusError e"
| "as_StatusError (Wrap2 e1 e2) = (case as_StatusError e1 of Some x \<Rightarrow> Some x | None \<Rightarrow> as_StatusError e2)"
| "as_StatusError (Err m) = None"
| "as_StatusError (Sentinel m) = None"

definition proxy_error :: "error \<Rightarrow> answer" where
  "proxy_error err = (case as_StatusError err of
       Some (st, code) \<Rightarrow> writeJSON st (ErrorBody code)
     | None \<Rightarrow> writeJSON 502 (ErrorBody (error_text err)))"

subsection \<open>Packages\<close>

record http_body =
  hb_bytes :: "bytes option"
  hb_fail :: "string option"

text \<open>
  \<^verbatim>\<open>readBody\<close>: at most \<open>max + 1\<close> bytes are read (the sum wraps in \<^verbatim>\<open>int64\<close>); a failure of the
  connection is noticed only when the bytes before it do not exhaust that limit.
\<close>

definition readBody :: "http_body \<Rightarrow> int \<Rightarrow> error + bytes" where
  "readBody b mx = (case hb_bytes b of
       None \<Rightarrow> Inl (Err ''empty body'')
     | Some bs \<Rightarrow>
         (let lim = nat (sint (word_of_int (mx + 1) :: u64)); data = take lim bs in
          if hb_fail b \<noteq> None \<and> length bs < lim then Inl (Err (the (hb_fail b)))
          else if int (length data) > mx then Inl (Err ''payload too large'')
          else if data = [] then Inl (Err ''empty body'') else Inr data))"

definition postPackage :: "(string \<Rightarrow> time option) \<Rightarrow> Config \<Rightarrow> Registry \<Rightarrow> string \<Rightarrow> string \<Rightarrow> http_body \<Rightarrow> reg_state
    \<Rightarrow> answer \<times> reg_state" where
  "postPackage rfc3339 cfg reg supplier_id filename b s = (case ParseQuery supplier_id of
       Inl e \<Rightarrow> (writeJSON 400 (ErrorBody (error_text e)), s)
     | Inr supplierID \<Rightarrow> (case readBody b (MaxBodyBytes cfg) of
           Inl e \<Rightarrow> (writeJSON (if error_text e = ''payload too large'' then 413 else 400) (ErrorBody (error_text e)), s)
         | Inr body \<Rightarrow> (case ProxyPost rfc3339 reg supplierID body filename s of
               (Inl e, s) \<Rightarrow> (proxy_error e, s)
             | (Inr (data, status), s) \<Rightarrow>
                 (\<lparr>ans_status = status, ans_type = ''application/json'', ans_body = DataBody data\<rparr>, s))))"

definition parse_error :: "string \<Rightarrow> string" where
  "parse_error v = ''strconv.ParseInt: parsing '' @ v @ '': invalid''"

definition proxy_read :: "string \<Rightarrow> string \<Rightarrow> reg_state \<Rightarrow> answer \<times> reg_state" where
  "proxy_read idv suffix s = (case Atoi idv of
       None \<Rightarrow> (writeJSON 400 (ErrorBody (parse_error idv)), s)
     | Some gid \<Rightarrow> (case ProxyGet gid suffix s of
           (Inl e, s) \<Rightarrow> (proxy_error e, s)
         | (Inr (data, status, ct), s) \<Rightarrow> (writeRaw status ct data, s)))"

definition getPackage :: "string \<Rightarrow> reg_state \<Rightarrow> answer \<times> reg_state" where
  "getPackage idv s = proxy_read idv [] s"

definition getFile :: "string \<Rightarrow> string \<Rightarrow> reg_state \<Rightarrow> answer \<times> reg_state" where
  "getFile idv fileID s = proxy_read idv (''/files/'' @ fileID) s"

definition getOriginal :: "string \<Rightarrow> reg_state \<Rightarrow> answer \<times> reg_state" where
  "getOriginal idv s = proxy_read idv ''/original'' s"

subsection \<open>Administration\<close>

definition validateClusterKey :: "Config \<Rightarrow> string \<Rightarrow> error option" where
  "validateClusterKey cfg provided =
     (if EffectiveClusterKey cfg = [] then Some (Err ''cluster key is not configured'')
      else if provided \<noteq> EffectiveClusterKey cfg then Some (Err ''invalid cluster key'') else None)"

text \<open>The key of the body, else of \<^verbatim>\<open>X-Cluster-Key\<close>, else the bearer token of \<^verbatim>\<open>Authorization\<close>.\<close>

definition clusterKeyFromRequest :: "string \<Rightarrow> string \<Rightarrow> string \<Rightarrow> string" where
  "clusterKeyFromRequest explicit xkey authorization =
     (if TrimSpace explicit \<noteq> [] then TrimSpace explicit
      else if TrimSpace xkey \<noteq> [] then TrimSpace xkey
      else let auth = TrimSpace authorization in
        if take 7 (ToLower auth) = ''bearer '' then TrimSpace (drop 7 auth) else [])"

definition is_hex_char :: "char \<Rightarrow> bool" where
  "is_hex_char c \<longleftrightarrow> c \<in> set ''0123456789abcdef''"

definition isUUID :: "string \<Rightarrow> bool" where
  "isUUID value = (let v = ToLower (TrimSpace value) in
     length v = 36 \<and> list_all (\<lambda>(i, ch). if i \<in> {8, 13, 18, 23} then ch = CHR ''-'' else is_hex_char ch) (enumerate 0 v))"

definition ParseShardState :: "string \<Rightarrow> error + ShardState" where
  "ParseShardState raw = (let state = ToLower (TrimSpace raw) in
     if state = ShardActive \<or> state = ShardSealed \<or> state = ShardStandby then Inr state
     else Inl (Err (''invalid shard state: '' @ raw)))"

definition startupRegistrationState :: "string \<Rightarrow> error + ShardState" where
  "startupRegistrationState raw =
     (if TrimSpace raw = [] then Inr ShardStandby
      else case ParseShardState raw of
        Inl e \<Rightarrow> Inl e
      | Inr parsed \<Rightarrow> if parsed \<noteq> ShardStandby then Inl (Err ''startup_state must be standby'') else Inr ShardStandby)"

text \<open>Decoding of one field of a request; \<open>None\<close> is a value of the wrong type.\<close>

definition field_values :: "string \<Rightarrow> (string \<times> json) list \<Rightarrow> json list" where
  "field_values name kvs = map snd (filter (\<lambda>kv. ToLower (fst kv) = name) kvs)"

definition str_field :: "string \<Rightarrow> (string \<times> json) list \<Rightarrow> string option" where
  "str_field name kvs = foldl (\<lambda>acc v. case v of JNull \<Rightarrow> acc | JStr x \<Rightarrow> map_option (\<lambda>_. x) acc | _ \<Rightarrow> None) (Some [])
     (field_values name kvs)"

definition ptr_field :: "string \<Rightarrow> (string \<times> json) list \<Rightarrow> string option option" where
  "ptr_field name kvs = foldl (\<lambda>acc v. case v of JNull \<Rightarrow> map_option (\<lambda>_. None) acc | JStr x \<Rightarrow> map_option (\<lambda>_. Some x) acc | _ \<Rightarrow> None)
     (Some None) (field_values name kvs)"

definition bool_field :: "string \<Rightarrow> (string \<times> json) list \<Rightarrow> bool option" where
  "bool_field name kvs = foldl (\<lambda>acc v. case v of JNull \<Rightarrow> acc | JBool x \<Rightarrow> map_option (\<lambda>_. x) acc | _ \<Rightarrow> None) (Some False)
     (field_values name kvs)"

text \<open>The object a request body decodes: \<^verbatim>\<open>null\<close> sets no field.\<close>

definition request_object :: "json option \<Rightarrow> (string \<times> json) list option" where
  "request_object j = (case j of Some JNull \<Rightarrow> Some [] | Some (JObj kvs) \<Rightarrow> Some kvs | _ \<Rightarrow> None)"

record RegisterShardRequest =
  rr_ShardUUID :: string
  rr_ClusterKey :: string
  rr_PrimaryURL :: string
  rr_ReplicaURL :: "string option"
  rr_StartupState :: string

definition decode_register :: "json option \<Rightarrow> RegisterShardRequest option" where
  "decode_register j = (case request_object j of None \<Rightarrow> None | Some kvs \<Rightarrow>
     (case (str_field ''shard_uuid'' kvs, str_field ''cluster_key'' kvs, str_field ''primary_url'' kvs,
            ptr_field ''replica_url'' kvs, str_field ''startup_state'' kvs) of
        (Some u, Some k, Some p, Some r, Some st) \<Rightarrow>
          Some \<lparr>rr_ShardUUID = u, rr_ClusterKey = k, rr_PrimaryURL = p, rr_ReplicaURL = r, rr_StartupState = st\<rparr>
      | _ \<Rightarrow> None))"

record PatchShardStateRequest =
  pr_State :: string
  pr_Confirm :: bool
  pr_ClusterKey :: string

definition decode_patch :: "json option \<Rightarrow> PatchShardStateRequest option" where
  "decode_patch j = (case request_object j of None \<Rightarrow> None | Some kvs \<Rightarrow>
     (case (str_field ''state'' kvs, bool_field ''confirm'' kvs, str_field ''cluster_key'' kvs) of
        (Some st, Some c, Some k) \<Rightarrow> Some \<lparr>pr_State = st, pr_Confirm = c, pr_ClusterKey = k\<rparr>
      | _ \<Rightarrow> None))"

definition decode_rotate :: "json option \<Rightarrow> string option" where
  "decode_rotate j = (case request_object j of None \<Rightarrow> None | Some kvs \<Rightarrow> str_field ''cluster_key'' kvs)"

definition listShards :: "reg_state \<Rightarrow> answer \<times> reg_state" where
  "listShards s = (case on_db ListShards s of
       (Inl e, s) \<Rightarrow> (writeJSON 500 (ErrorBody (error_text e)), s)
     | (Inr shards, s) \<Rightarrow> (writeJSON 200 (ShardsBody shards), s))"

text \<open>\<open>hasBody\<close> is \<^verbatim>\<open>r.Body != nil && r.ContentLength != 0\<close>.\<close>

definition sealRotate :: "Config \<Rightarrow> Registry \<Rightarrow> bool \<Rightarrow> json option \<Rightarrow> string \<Rightarrow> string \<Rightarrow> reg_state \<Rightarrow> answer \<times> reg_state" where
  "sealRotate cfg reg hasBody j xkey authorization s =
     (case (if hasBody then decode_rotate j else Some []) of
        None \<Rightarrow> (writeJSON 400 (ErrorBody ''invalid json body''), s)
      | Some key \<Rightarrow> (case validateClusterKey cfg (clusterKeyFromRequest key xkey authorization) of
            Some e \<Rightarrow> (writeJSON 403 (ErrorBody (error_text e)), s)
          | None \<Rightarrow> (case SealAndRotate reg s of
                (Inl e, s) \<Rightarrow>
                  (writeJSON (if errors_Is e ErrStateConflict then 409 else if errors_Is e ErrRotationIncomplete then 503 else 500)
                     (ErrorBody (error_text e)), s)
              | (Inr _, s) \<Rightarrow> (writeJSON 200 (StatusBody ''rotated''), s))))"

definition registerShard :: "Config \<Rightarrow> Registry \<Rightarrow> json option \<Rightarrow> reg_state \<Rightarrow> answer \<times> reg_state" where
  "registerShard cfg reg j s = (case decode_register j of
       None \<Rightarrow> (writeJSON 400 (ErrorBody ''invalid json body''), s)
     | Some req \<Rightarrow> (case validateClusterKey cfg (rr_ClusterKey req) of
           Some e \<Rightarrow> (writeJSON 403 (ErrorBody (error_text e)), s)
         | None \<Rightarrow>
             if \<not> isUUID (rr_ShardUUID req) then (writeJSON 400 (ErrorBody ''invalid shard_uuid''), s)
             else if TrimSpace (rr_PrimaryURL req) = [] then (writeJSON 400 (ErrorBody ''primary_url is required''), s)
             else (case startupRegistrationState (rr_StartupState req) of
               Inl e \<Rightarrow> (writeJSON 400 (ErrorBody (error_text e)), s)
             | Inr state \<Rightarrow>
                 (case RegisterShard reg (rr_ShardUUID req) state (rr_PrimaryURL req) (rr_ReplicaURL req) s of
                    (Inl e, s) \<Rightarrow> (writeJSON (if errors_Is e ErrStateConflict then 409 else 500) (ErrorBody (error_text e)), s)
                  | (Inr (Some shard, created), s) \<Rightarrow> (writeJSON (if created then 201 else 200) (RegisterBody shard created), s)
                  | (Inr (None, created), s) \<Rightarrow> (writeJSON 500 (ErrorBody (error_text nil_deref)), s)))))"

definition patchShardState :: "Config \<Rightarrow> Registry \<Rightarrow> string \<Rightarrow> json option \<Rightarrow> reg_state \<Rightarrow> answer \<times> reg_state" where
  "patchShardState cfg reg idv j s = (case Atoi idv of
       None \<Rightarrow> (writeJSON 400 (ErrorBody ''invalid shard id''), s)
     | Some i \<Rightarrow> (case decode_patch j of
           None \<Rightarrow> (writeJSON 400 (ErrorBody ''invalid json body''), s)
         | Some req \<Rightarrow> (case validateClusterKey cfg (pr_ClusterKey req) of
               Some e \<Rightarrow> (writeJSON 403 (ErrorBody (error_text e)), s)
             | None \<Rightarrow> (case ParseShardState (pr_State req) of
                   Inl e \<Rightarrow> (writeJSON 400 (ErrorBody (error_text e)), s)
                 | Inr state \<Rightarrow> (case PatchShardState reg i state (pr_Confirm req) s of
                       (Inl e, s) \<Rightarrow>
                         (writeJSON (if errors_Is e ErrShardNotFound then 404 else if errors_Is e ErrStateConflict then 409 else 500)
                            (ErrorBody (error_text e)), s)
                     | (Inr shard, s) \<Rightarrow> (writeJSON 200 (ShardBody shard), s))))))"

text \<open>\<open>n\<close> ticks of the seal loop.\<close>

definition RunSealLoop :: "Config \<Rightarrow> Registry \<Rightarrow> nat \<Rightarrow> reg_state \<Rightarrow> reg_state" where
  "RunSealLoop cfg reg n s =
     (if IsSingleNode cfg \<or> SealCheckInterval cfg \<le> 0 \<or> ShardMaxBytes cfg \<le> 0 then s
      else ((\<lambda>s. snd (CheckSeal reg s)) ^^ n) s)"

subsection \<open>Properties\<close>

text \<open>
  C23 (safety). A request that rotates, registers or patches a shard has an effect only when a
  cluster key is configured and the request carries it; in particular nothing happens when
  none is configured.
\<close>

theorem admin_requires_cluster_key:
  "(snd (sealRotate cfg reg hasBody j xkey auth s) \<noteq> s \<longrightarrow> EffectiveClusterKey cfg \<noteq> []
      \<and> (\<exists>key. (if hasBody then decode_rotate j else Some []) = Some key
           \<and> clusterKeyFromRequest key xkey auth = EffectiveClusterKey cfg))
   \<and> (snd (registerShard cfg reg j s) \<noteq> s \<longrightarrow> EffectiveClusterKey cfg \<noteq> []
      \<and> (\<exists>req. decode_register j = Some req \<and> rr_ClusterKey req = EffectiveClusterKey cfg \<and> isUUID (rr_ShardUUID req)))
   \<and> (snd (patchShardState cfg reg idv j s) \<noteq> s \<longrightarrow> EffectiveClusterKey cfg \<noteq> []
      \<and> (\<exists>req. decode_patch j = Some req \<and> pr_ClusterKey req = EffectiveClusterKey cfg))"
  by (auto simp: sealRotate_def registerShard_def patchShardState_def validateClusterKey_def split: option.splits if_splits)

lemma rotate_effect:
  "snd (sealRotate sample_config sample_reg False None [] ''Bearer k''
      (sample_state [sample_shard 0 ShardActive, sample_shard 1 ShardStandby] [NoResponse ''down'']))
    \<noteq> sample_state [sample_shard 0 ShardActive, sample_shard 1 ShardStandby] [NoResponse ''down'']"
proof -
  let ?s = "sample_state [sample_shard 0 ShardActive, sample_shard 1 ShardStandby] [NoResponse ''down'']"
  let ?c = "sample_config"
  have "reg_replies (snd (sealRotate ?c sample_reg False None [] ''Bearer k'' ?s)) = []" by code_simp
  moreover have "reg_replies ?s \<noteq> []" by (simp add: sample_state_def)
  ultimately show ?thesis by metis
qed

theorem admin_requires_cluster_key_witness:
  "\<exists>key. clusterKeyFromRequest key [] ''Bearer k'' = EffectiveClusterKey sample_config"
  using admin_requires_cluster_key [THEN conjunct1, rule_format, OF rotate_effect] by blast

text \<open>
  A body that is accepted is the body that was sent, complete, not empty and not
  longer than the limit; a longer one is never passed on, not even in part.
\<close>

theorem readBody_bounds:
  assumes "0 \<le> mx" and "mx < 2 ^ 63 - 1"
  shows "case readBody b mx of
      Inl _ \<Rightarrow> True
    | Inr data \<Rightarrow> hb_bytes b = Some data \<and> 0 < length data \<and> int (length data) \<le> mx \<and> hb_fail b = None"
proof -
  have "sint (word_of_int (mx + 1) :: u64) = mx + 1"
    using assms by (intro sint_small_word) auto
  then show ?thesis
    using assms by (auto simp: readBody_def Let_def split: option.splits)
qed

theorem readBody_bounds_witness: "readBody \<lparr>hb_bytes = Some [1, 2, 3], hb_fail = None\<rparr> 2 = Inl (Err ''payload too large'')
    \<and> readBody \<lparr>hb_bytes = Some [1, 2], hb_fail = None\<rparr> 2 = Inr [1, 2]"
  using readBody_bounds [of 2 "\<lparr>hb_bytes = Some [1, 2], hb_fail = None\<rparr>"]
  by (simp add: readBody_def Let_def numeral_eq_Suc split: sum.splits)

end
