(* ===== verification/Compress.thy ===== *)
theory Compress
  imports Record_Format
begin

text \<open>
  The payload encoder (\<^verbatim>\<open>internal/compress/encoder.go\<close>). The Zstandard library is a parameter; what
  the code relies on is stated as \<open>zstd_laws\<close>. A closed encoder has neither writer nor reader.
\<close>

record zstd =
  zs_NewWriter :: "bytes \<Rightarrow> error option"
  zs_NewReader :: "bytes \<Rightarrow> error option"
  zs_EncodeAll :: "bytes \<Rightarrow> bytes \<Rightarrow> bytes"
  zs_DecodeAll :: "bytes \<Rightarrow> bytes \<Rightarrow> error + bytes"
  zs_BuildDict :: "bytes list \<Rightarrow> error + bytes"

record Encoder =
  dictID :: int
  minSize :: int
  dict :: bytes
  has_enc :: bool
  has_dec :: bool

definition init_encoder :: "zstd \<Rightarrow> Encoder \<Rightarrow> error + Encoder" where
  "init_encoder zs e = (case zs_NewWriter zs (dict e) of
       Some err \<Rightarrow> Inl err
     | None \<Rightarrow> (case zs_NewReader zs (dict e) of
         Some err \<Rightarrow> Inl err
       | None \<Rightarrow> Inr (e\<lparr>has_enc := True, has_dec := True\<rparr>)))"

definition NewEncoder :: "zstd \<Rightarrow> bytes \<Rightarrow> int \<Rightarrow> error + Encoder" where
  "NewEncoder zs d n = init_encoder zs
     \<lparr>dictID = 0, minSize = (if n \<le> 0 then 64 else n), dict = d, has_enc = False, has_dec = False\<rparr>"

definition SetDictID :: "int \<Rightarrow> Encoder \<Rightarrow> Encoder" where
  "SetDictID i e = e\<lparr>dictID := i\<rparr>"

definition ShouldCompress :: "int \<Rightarrow> Encoder \<Rightarrow> bool" where
  "ShouldCompress n e \<longleftrightarrow> n \<ge> minSize e"

definition Compress :: "zstd \<Rightarrow> Encoder \<Rightarrow> bytes \<Rightarrow> bytes" where
  "Compress zs e data =
     (if \<not> has_enc e then data
      else let out = zs_EncodeAll zs (dict e) data in if length out \<ge> length data then data else out)"

definition isZstdFrame :: "bytes \<Rightarrow> bool" where
  "isZstdFrame data \<longleftrightarrow> data ! 0 = 0x28 \<and> data ! 1 = 0xB5 \<and> data ! 2 = 0x2F \<and> data ! 3 = 0xFD"

definition Decompress :: "zstd \<Rightarrow> Encoder \<Rightarrow> bytes \<Rightarrow> error + bytes" where
  "Decompress zs e data =
     (if length data < 4 \<or> \<not> isZstdFrame data then Inr data
      else if \<not> has_dec e then Inr data
      else zs_DecodeAll zs (dict e) data)"

definition Close_encoder :: "Encoder \<Rightarrow> Encoder" where
  "Close_encoder e = e\<lparr>has_enc := False, has_dec := False\<rparr>"

definition infix_of :: "string \<Rightarrow> string \<Rightarrow> bool" where
  "infix_of sub v \<longleftrightarrow> list_ex (\<lambda>i. take (length sub) (drop i v) = sub) [0..<Suc (length v)]"

definition TrainDictionary :: "zstd \<Rightarrow> bytes list \<Rightarrow> error + bytes" where
  "TrainDictionary zs samples =
     (if samples = [] then Inr []
      else case zs_BuildDict zs samples of
        Inl err \<Rightarrow> if infix_of ''dictionary of size'' (error_text err) then Inr [] else Inl err
      | Inr d \<Rightarrow> if length d < 8 then Inr [] else Inr d)"

text \<open>
  Zstandard: decoding inverts encoding with the same dictionary, and the encoding of anything that
  is not empty starts with the frame magic.
\<close>

definition zstd_laws :: "zstd \<Rightarrow> bool" where
  "zstd_laws zs \<longleftrightarrow> (\<forall>d x. x \<noteq> [] \<longrightarrow> zs_DecodeAll zs d (zs_EncodeAll zs d x) = Inr x
     \<and> (\<exists>rest. zs_EncodeAll zs d x = [0x28, 0xB5, 0x2F, 0xFD] @ rest))"

lemma Compress_shorter:
  assumes "zstd_laws zs" and "length (Compress zs e data) < length data" and "has_dec e"
  shows "Decompress zs e (Compress zs e data) = Inr data"
proof -
  have c: "Compress zs e data = zs_EncodeAll zs (dict e) data" "data \<noteq> []"
    using assms(2) by (auto simp: Compress_def Let_def split: if_splits)
  then obtain rest where "zs_EncodeAll zs (dict e) data = [0x28, 0xB5, 0x2F, 0xFD] @ rest"
    "zs_DecodeAll zs (dict e) (zs_EncodeAll zs (dict e) data) = Inr data"
    using assms(1) unfolding zstd_laws_def by blast
  with c assms(3) show ?thesis by (simp add: Decompress_def isZstdFrame_def)
qed

end
