(* ===== verification/Metadata.thy ===== *)
theory Metadata
  imports Complex_Main Lbf_Prelude
begin

text \<open>
  The metadata repository (\<^verbatim>\<open>internal/metadata/models.go\<close>, \<^verbatim>\<open>repo.go\<close>): the tables of
  \<^verbatim>\<open>migrations/\<close> with their constraints and sequences, the transaction operations of \<^verbatim>\<open>pgTx\<close> and
  the repository operations of \<^verbatim>\<open>PostgresRepository\<close>.

  Every statement takes the next element of the failure schedule. A statement that fails inside a
  transaction aborts it: later statements fail too and the commit rolls back. A rollback restores
  the tables but not the sequences. Transactions are atomic with respect to one another.
\<close>

subsection \<open>Data\<close>

record ContentBlob =
  ContentHash :: bytes
  BlobSize :: int
  StoredSize :: int
  cb_SegmentID :: int
  cb_Offset :: int
  RefCount :: int
  FirstSeenAt :: time

record PackageFile =
  pf_ID :: int
  pf_PackageID :: int
  BlobHash :: bytes
  Role :: string
  pf_OriginalFilename :: "string option"
  SequenceNumber :: "int option"
  pf_Size :: int

record Package =
  pk_ID :: int
  pk_SupplierID :: int
  pk_ReceivedAt :: time
  pk_PackageHash :: bytes
  PayloadType_of :: string
  StorageMode :: string
  pk_OriginalFilename :: "string option"
  CanonicalPackageID :: "int option"
  FileCount :: int
  UnpackError :: "string option"
  Files :: "PackageFile list"

record CreatePackageInput =
  ci_SupplierID :: int
  ci_PackageHash :: bytes
  ci_PayloadType :: string
  ci_StorageMode :: string
  ci_OriginalFilename :: "string option"
  ci_CanonicalPackageID :: "int option"
  ci_FileCount :: int
  ci_UnpackError :: "string option"

record CreateFileInput =
  fi_BlobHash :: bytes
  fi_Role :: string
  fi_OriginalFilename :: "string option"
  fi_SequenceNumber :: "int option"

record SupplierStats =
  ss_SupplierID :: int
  TotalPackages :: int
  TotalRefs :: int
  DuplicateRefs :: int
  LastActivity :: time

definition DedupRatio :: "SupplierStats \<Rightarrow> rat" where
  "DedupRatio s = (if TotalRefs s = 0 then 0 else of_int (DuplicateRefs s) / of_int (TotalRefs s))"

record BlobByteTotals =
  LogicalBytes :: int
  StoredBytes :: int
  ReferencedLogicalBytes :: int

subsection \<open>The database\<close>

text \<open>The size of a file is a column of its blob; the rows of \<^verbatim>\<open>package_files\<close> carry size 0.\<close>

record meta_db =
  content_blobs :: "ContentBlob list"
  packages :: "Package list"
  package_files :: "PackageFile list"
  supplier_stats :: "SupplierStats list"
  dictionaries :: "(bytes \<times> int) list"
  seq_packages :: int
  seq_files :: int
  md_faults :: "fault list"
  md_clock :: "time list"
  md_aborted :: bool

definition opt_le :: "nat \<Rightarrow> string option \<Rightarrow> bool" where
  "opt_le n v \<longleftrightarrow> (case v of None \<Rightarrow> True | Some x \<Rightarrow> length x \<le> n)"

definition blob_types :: "ContentBlob \<Rightarrow> bool" where
  "blob_types b \<longleftrightarrow> int4 (BlobSize b) \<and> int4 (StoredSize b) \<and> int4 (cb_SegmentID b)"

definition package_types :: "Package \<Rightarrow> bool" where
  "package_types p \<longleftrightarrow> int4 (pk_SupplierID p) \<and> int4 (FileCount p) \<and> length (PayloadType_of p) \<le> 10
     \<and> length (StorageMode p) \<le> 20 \<and> opt_le 255 (pk_OriginalFilename p)"

definition file_types :: "PackageFile \<Rightarrow> bool" where
  "file_types f \<longleftrightarrow> length (Role f) \<le> 15 \<and> opt_le 255 (pf_OriginalFilename f)
     \<and> (case SequenceNumber f of None \<Rightarrow> True | Some n \<Rightarrow> int4 n)"

definition has_blob :: "bytes \<Rightarrow> meta_db \<Rightarrow> bool" where
  "has_blob h db \<longleftrightarrow> list_ex (\<lambda>b. ContentHash b = h) (content_blobs db)"

definition has_package :: "int \<Rightarrow> meta_db \<Rightarrow> bool" where
  "has_package i db \<longleftrightarrow> list_ex (\<lambda>p. pk_ID p = i) (packages db)"

text \<open>Two rows of \<^verbatim>\<open>package_files\<close> that a unique index excludes.\<close>

definition file_clash :: "PackageFile \<Rightarrow> PackageFile \<Rightarrow> bool" where
  "file_clash f g \<longleftrightarrow> pf_ID f = pf_ID g
     \<or> pf_PackageID f = pf_PackageID g \<and> Role f = Role g
        \<and> (Role f = ''original'' \<or> Role f = ''unpack_error''
           \<or> Role f = ''member'' \<and> SequenceNumber f = SequenceNumber g \<and> SequenceNumber f \<noteq> None)"

definition package_accepted :: "Package \<Rightarrow> meta_db \<Rightarrow> bool" where
  "package_accepted p db \<longleftrightarrow> package_types p
     \<and> (case CanonicalPackageID p of None \<Rightarrow> True | Some c \<Rightarrow> has_package c db \<or> c = pk_ID p)"

definition file_accepted :: "PackageFile \<Rightarrow> PackageFile list \<Rightarrow> meta_db \<Rightarrow> bool" where
  "file_accepted f rest db \<longleftrightarrow> file_types f \<and> has_package (pf_PackageID f) db \<and> has_blob (BlobHash f) db
     \<and> \<not> list_ex (file_clash f) rest"

definition violation :: error where "violation = Err ''constraint violation''"

subsection \<open>Statements and transactions\<close>

definition md_take_fault :: "meta_db \<Rightarrow> fault \<times> meta_db" where
  "md_take_fault db = (case next_fault (md_faults db) of (f, fs) \<Rightarrow> (f, db\<lparr>md_faults := fs\<rparr>))"

definition md_now :: "meta_db \<Rightarrow> time \<times> meta_db" where
  "md_now db = (case md_clock db of [] \<Rightarrow> (0, db) | t # ts \<Rightarrow> (t, db\<lparr>md_clock := ts\<rparr>))"

text \<open>A statement yields a value and the tables, or an error (sequences may have moved).\<close>

definition tx_stmt :: "(meta_db \<Rightarrow> (meta_db, 'a) result) \<Rightarrow> meta_db \<Rightarrow> (meta_db, 'a) result" where
  "tx_stmt f db =
     (if md_aborted db then (Inl (Err ''current transaction is aborted''), db)
      else case md_take_fault db of
        (Fail n m, db) \<Rightarrow> (Inl (Err m), db\<lparr>md_aborted := True\<rparr>)
      | (Pass, db) \<Rightarrow> (case f db of
            (Inl e, db) \<Rightarrow> (Inl e, db\<lparr>md_aborted := True\<rparr>)
          | (Inr x, db) \<Rightarrow> (Inr x, db)))"

text \<open>Outside transactions a statement commits at once; its answer may be lost.\<close>

definition pool_stmt :: "(meta_db \<Rightarrow> (meta_db, 'a) result) \<Rightarrow> meta_db \<Rightarrow> (meta_db, 'a) result" where
  "pool_stmt f db = (case md_take_fault db of
       (Pass, db) \<Rightarrow> f db
     | (Fail 0 m, db) \<Rightarrow> (Inl (Err m), db)
     | (Fail (Suc n) m, db) \<Rightarrow> (Inl (Err m), snd (f db)))"

definition restore_tables :: "meta_db \<Rightarrow> meta_db \<Rightarrow> meta_db" where
  "restore_tables old db = db\<lparr>content_blobs := content_blobs old, packages := packages old,
     package_files := package_files old, supplier_stats := supplier_stats old, dictionaries := dictionaries old,
     md_aborted := False\<rparr>"

text \<open>\<^verbatim>\<open>Begin\<close> yields the tables to fall back to.\<close>

definition tx_begin :: "meta_db \<Rightarrow> (meta_db, meta_db) result" where
  "tx_begin db = (case md_take_fault db of
       (Pass, db) \<Rightarrow> (Inr db, db\<lparr>md_aborted := False\<rparr>)
     | (Fail n m, db) \<Rightarrow> (Inl (Err m), db))"

text \<open>The end of \<^verbatim>\<open>WithTx\<close>: roll back on an error of the body, else commit.\<close>

definition tx_end :: "meta_db \<Rightarrow> error + 'a \<Rightarrow> meta_db \<Rightarrow> (meta_db, 'a) result" where
  "tx_end old r db = (case r of
       Inl e \<Rightarrow> (Inl e, restore_tables old db)
     | Inr x \<Rightarrow>
         if md_aborted db then (Inl (Err ''commit unexpectedly resulted in rollback''), restore_tables old db)
         else (case md_take_fault db of
             (Pass, db) \<Rightarrow> (Inr x, db)
           | (Fail 0 m, db) \<Rightarrow> (Inl (Err m), restore_tables old db)
           | (Fail (Suc n) m, db) \<Rightarrow> (Inl (Err m), db)))"

definition WithTx :: "(meta_db \<Rightarrow> (meta_db, 'a) result) \<Rightarrow> meta_db \<Rightarrow> (meta_db, 'a) result" where
  "WithTx body db = tryE (tx_begin db) (\<lambda>old db. case body db of (r, db) \<Rightarrow> tx_end old r db)"

subsection \<open>Operations of a transaction\<close>

definition find_blob :: "bytes \<Rightarrow> meta_db \<Rightarrow> ContentBlob option" where
  "find_blob h db = find (\<lambda>b. ContentHash b = h) (content_blobs db)"

definition tx_GetBlob :: "bytes \<Rightarrow> meta_db \<Rightarrow> (meta_db, ContentBlob option) result" where
  "tx_GetBlob h = tx_stmt (\<lambda>db. (Inr (find_blob h db), db))"

definition tx_GetBlobByHash :: "bytes \<Rightarrow> meta_db \<Rightarrow> (meta_db, ContentBlob option) result" where
  "tx_GetBlobByHash h = tx_GetBlob h"

definition insert_blob :: "ContentBlob \<Rightarrow> meta_db \<Rightarrow> (meta_db, unit) result" where
  "insert_blob b db = (if blob_types b \<and> \<not> has_blob (ContentHash b) db
     then (Inr (), db\<lparr>content_blobs := content_blobs db @ [b]\<rparr>) else (Inl violation, db))"

definition tx_InsertBlob :: "ContentBlob \<Rightarrow> meta_db \<Rightarrow> (meta_db, unit) result" where
  "tx_InsertBlob b = tx_stmt (insert_blob b)"

definition bump :: "bytes \<Rightarrow> ContentBlob \<Rightarrow> ContentBlob" where
  "bump h b = (if ContentHash b = h then b\<lparr>RefCount := RefCount b + 1\<rparr> else b)"

definition bump_ref :: "bytes \<Rightarrow> meta_db \<Rightarrow> meta_db" where
  "bump_ref h db = db\<lparr>content_blobs := map (bump h) (content_blobs db)\<rparr>"

definition tx_InsertBlobOrIncrement :: "ContentBlob \<Rightarrow> meta_db \<Rightarrow> (meta_db, bool) result" where
  "tx_InsertBlobOrIncrement b = tx_stmt (\<lambda>db.
     if \<not> blob_types b then (Inl violation, db)
     else if has_blob (ContentHash b) db then (Inr False, bump_ref (ContentHash b) db)
     else (Inr True, db\<lparr>content_blobs := content_blobs db @ [b]\<rparr>))"

definition tx_IncrementRefCount :: "bytes \<Rightarrow> meta_db \<Rightarrow> (meta_db, unit) result" where
  "tx_IncrementRefCount h = tx_stmt (\<lambda>db. (Inr (), bump_ref h db))"

definition tx_IncrementRefCountIfExists :: "bytes \<Rightarrow> meta_db \<Rightarrow> (meta_db, bool) result" where
  "tx_IncrementRefCountIfExists h = tx_stmt (\<lambda>db. (Inr (has_blob h db), bump_ref h db))"

fun tx_IncrementRefCounts :: "bytes list \<Rightarrow> meta_db \<Rightarrow> (meta_db, unit) result" where
  "tx_IncrementRefCounts [] db = (Inr (), db)"
| "tx_IncrementRefCounts (h # hs) db = tryE (tx_IncrementRefCount h db) (\<lambda>_ db. tx_IncrementRefCounts hs db)"

definition new_package :: "int \<Rightarrow> time \<Rightarrow> CreatePackageInput \<Rightarrow> Package" where
  "new_package i t inp = \<lparr>pk_ID = i, pk_SupplierID = ci_SupplierID inp, pk_ReceivedAt = t,
     pk_PackageHash = ci_PackageHash inp, PayloadType_of = ci_PayloadType inp, StorageMode = ci_StorageMode inp,
     pk_OriginalFilename = ci_OriginalFilename inp, CanonicalPackageID = ci_CanonicalPackageID inp,
     FileCount = ci_FileCount inp, UnpackError = ci_UnpackError inp, Files = []\<rparr>"

definition tx_CreatePackage :: "CreatePackageInput \<Rightarrow> meta_db \<Rightarrow> (meta_db, int) result" where
  "tx_CreatePackage inp = tx_stmt (\<lambda>db. case md_now (db\<lparr>seq_packages := seq_packages db + 1\<rparr>) of (t, db) \<Rightarrow>
     (let p = new_package (seq_packages db) t inp in
      if package_accepted p db \<and> \<not> has_package (pk_ID p) db
      then (Inr (pk_ID p), db\<lparr>packages := packages db @ [p]\<rparr>) else (Inl violation, db)))"

definition new_file :: "int \<Rightarrow> int \<Rightarrow> CreateFileInput \<Rightarrow> PackageFile" where
  "new_file i packageID inp = \<lparr>pf_ID = i, pf_PackageID = packageID, BlobHash = fi_BlobHash inp, Role = fi_Role inp,
     pf_OriginalFilename = fi_OriginalFilename inp, SequenceNumber = fi_SequenceNumber inp, pf_Size = 0\<rparr>"

definition tx_CreatePackageFile :: "int \<Rightarrow> CreateFileInput \<Rightarrow> meta_db \<Rightarrow> (meta_db, int) result" where
  "tx_CreatePackageFile packageID inp = tx_stmt (\<lambda>db.
     let db = db\<lparr>seq_files := seq_files db + 1\<rparr>; f = new_file (seq_files db) packageID inp in
     if file_accepted f (package_files db) db
     then (Inr (pf_ID f), db\<lparr>package_files := package_files db @ [f]\<rparr>) else (Inl violation, db))"

definition find_package :: "int \<Rightarrow> meta_db \<Rightarrow> Package option" where
  "find_package i db = find (\<lambda>p. pk_ID p = i) (packages db)"

definition tx_GetPackageForUpdate :: "int \<Rightarrow> meta_db \<Rightarrow> (meta_db, Package option) result" where
  "tx_GetPackageForUpdate i = tx_stmt (\<lambda>db. (Inr (find_package i db), db))"

definition after_unpack :: "int \<Rightarrow> string \<Rightarrow> int \<Rightarrow> string option \<Rightarrow> Package \<Rightarrow> Package" where
  "after_unpack i mode n err p = (if pk_ID p = i \<and> StorageMode p = ''raw_large''
     then p\<lparr>StorageMode := mode, FileCount := n, UnpackError := err\<rparr> else p)"

definition tx_UpdatePackageAfterUnpack :: "int \<Rightarrow> string \<Rightarrow> int \<Rightarrow> string option \<Rightarrow> meta_db \<Rightarrow> (meta_db, bool) result" where
  "tx_UpdatePackageAfterUnpack i mode n err = tx_stmt (\<lambda>db.
     if \<not> (length mode \<le> 20 \<and> int4 n) then (Inl violation, db)
     else (Inr (list_ex (\<lambda>p. pk_ID p = i \<and> StorageMode p = ''raw_large'') (packages db)),
           db\<lparr>packages := map (after_unpack i mode n err) (packages db)\<rparr>))"

subsection \<open>Operations of the repository\<close>

definition FindCanonicalPackageID :: "bytes \<Rightarrow> meta_db \<Rightarrow> (meta_db, int option) result" where
  "FindCanonicalPackageID h = pool_stmt (\<lambda>db.
     (Inr (case sort (map pk_ID (filter (\<lambda>p. pk_PackageHash p = h) (packages db))) of [] \<Rightarrow> None | i # _ \<Rightarrow> Some i), db))"

definition ListClonePackageIDs :: "int \<Rightarrow> meta_db \<Rightarrow> (meta_db, int list) result" where
  "ListClonePackageIDs c = pool_stmt (\<lambda>db.
     (Inr (sort (map pk_ID (filter (\<lambda>p. CanonicalPackageID p = Some c) (packages db)))), db))"

definition ListPendingLargePackages :: "meta_db \<Rightarrow> (meta_db, int list) result" where
  "ListPendingLargePackages = pool_stmt (\<lambda>db.
     (Inr (sort (map pk_ID (filter (\<lambda>p. StorageMode p = ''raw_large'' \<and> CanonicalPackageID p = None) (packages db)))), db))"

text \<open>The join of a file with its blob.\<close>

definition join_blob :: "meta_db \<Rightarrow> PackageFile \<Rightarrow> PackageFile option" where
  "join_blob db f = map_option (\<lambda>b. f\<lparr>pf_Size := BlobSize b\<rparr>) (find_blob (BlobHash f) db)"

definition files_where :: "(PackageFile \<Rightarrow> bool) \<Rightarrow> meta_db \<Rightarrow> PackageFile list" where
  "files_where P db = List.map_filter (join_blob db) (sort_key pf_ID (filter P (package_files db)))"

definition ListPackageFiles :: "int \<Rightarrow> meta_db \<Rightarrow> (meta_db, PackageFile list) result" where
  "ListPackageFiles i = pool_stmt (\<lambda>db. (Inr (files_where (\<lambda>f. pf_PackageID f = i) db), db))"

definition GetPackage :: "int \<Rightarrow> meta_db \<Rightarrow> (meta_db, Package option) result" where
  "GetPackage i db = tryE (pool_stmt (\<lambda>db. (Inr (find_package i db), db)) db) (\<lambda>p db. case p of
       None \<Rightarrow> (Inr None, db)
     | Some p \<Rightarrow> tryE (ListPackageFiles i db) (\<lambda>files db. (Inr (Some (p\<lparr>Files := files\<rparr>)), db)))"

definition first_file :: "PackageFile list \<Rightarrow> PackageFile option" where
  "first_file fs = (case fs of [] \<Rightarrow> None | f # _ \<Rightarrow> Some f)"

definition GetPackageFile :: "int \<Rightarrow> int \<Rightarrow> meta_db \<Rightarrow> (meta_db, PackageFile option) result" where
  "GetPackageFile p i = pool_stmt (\<lambda>db. (Inr (first_file (files_where (\<lambda>f. pf_PackageID f = p \<and> pf_ID f = i) db)), db))"

definition GetOriginalFile :: "int \<Rightarrow> meta_db \<Rightarrow> (meta_db, PackageFile option) result" where
  "GetOriginalFile p = pool_stmt (\<lambda>db. (Inr (first_file (files_where (\<lambda>f. pf_PackageID f = p \<and> Role f = ''original'') db)), db))"

definition CountContentBlobs :: "meta_db \<Rightarrow> (meta_db, int) result" where
  "CountContentBlobs = pool_stmt (\<lambda>db. (Inr (int (length (content_blobs db))), db))"

definition GetBlob :: "bytes \<Rightarrow> meta_db \<Rightarrow> (meta_db, ContentBlob option) result" where
  "GetBlob h = pool_stmt (\<lambda>db. (Inr (find_blob h db), db))"

definition GetLatestDictionary :: "meta_db \<Rightarrow> (meta_db, bytes \<times> int) result" where
  "GetLatestDictionary = pool_stmt (\<lambda>db. (Inr (if dictionaries db = [] then ([], 0) else last (dictionaries db)), db))"

definition SaveDictionary :: "bytes \<Rightarrow> int \<Rightarrow> meta_db \<Rightarrow> (meta_db, unit) result" where
  "SaveDictionary d n = pool_stmt (\<lambda>db.
     if int4 n then (Inr (), db\<lparr>dictionaries := dictionaries db @ [(d, n)]\<rparr>) else (Inl violation, db))"

definition ListContentBlobs :: "meta_db \<Rightarrow> (meta_db, ContentBlob list) result" where
  "ListContentBlobs = pool_stmt (\<lambda>db. (Inr (sort_key FirstSeenAt (content_blobs db)), db))"

definition BlobByteTotals_query :: "meta_db \<Rightarrow> (meta_db, BlobByteTotals) result" where
  "BlobByteTotals_query = pool_stmt (\<lambda>db. (Inr \<lparr>LogicalBytes = sum_list (map BlobSize (content_blobs db)),
     StoredBytes = sum_list (map (\<lambda>b. if StoredSize b > 0 then StoredSize b else BlobSize b) (content_blobs db)),
     ReferencedLogicalBytes = sum_list (map (\<lambda>b. BlobSize b * RefCount b) (content_blobs db))\<rparr>, db))"

definition RecordSupplierIngest :: "int \<Rightarrow> int \<Rightarrow> int \<Rightarrow> int \<Rightarrow> meta_db \<Rightarrow> (meta_db, unit) result" where
  "RecordSupplierIngest supplierID fileCount newBlobs duplicateRefs = pool_stmt (\<lambda>db.
     let dup = (if duplicateRefs < 0 then 0 else duplicateRefs) in
     case md_now db of (t, db) \<Rightarrow>
       if \<not> int4 supplierID then (Inl violation, db)
       else if list_ex (\<lambda>s. ss_SupplierID s = supplierID) (supplier_stats db) then
         (Inr (), db\<lparr>supplier_stats := map (\<lambda>s. if ss_SupplierID s = supplierID
            then s\<lparr>TotalPackages := TotalPackages s + 1, TotalRefs := TotalRefs s + fileCount,
                   DuplicateRefs := DuplicateRefs s + dup, LastActivity := t\<rparr> else s) (supplier_stats db)\<rparr>)
       else (Inr (), db\<lparr>supplier_stats := supplier_stats db @
            [\<lparr>ss_SupplierID = supplierID, TotalPackages = 1, TotalRefs = fileCount, DuplicateRefs = dup, LastActivity = t\<rparr>]\<rparr>))"

definition GetSupplierStats :: "int \<Rightarrow> meta_db \<Rightarrow> (meta_db, SupplierStats option) result" where
  "GetSupplierStats i = pool_stmt (\<lambda>db. (Inr (find (\<lambda>s. ss_SupplierID s = i) (supplier_stats db)), db))"

subsection \<open>Recovery\<close>

definition UpsertContentBlob :: "ContentBlob \<Rightarrow> meta_db \<Rightarrow> (meta_db, unit) result" where
  "UpsertContentBlob blob = pool_stmt (\<lambda>db.
     let b = (if StoredSize blob = 0 then blob\<lparr>StoredSize := BlobSize blob\<rparr> else blob) in
     if \<not> blob_types b then (Inl violation, db)
     else if has_blob (ContentHash b) db then
       (Inr (), db\<lparr>content_blobs := map (\<lambda>r. if ContentHash r = ContentHash b
          then r\<lparr>BlobSize := BlobSize b, StoredSize := StoredSize b, cb_SegmentID := cb_SegmentID b, cb_Offset := cb_Offset b\<rparr>
          else r) (content_blobs db)\<rparr>)
     else (Inr (), db\<lparr>content_blobs := content_blobs db @ [b]\<rparr>))"

definition RestorePackage :: "Package \<Rightarrow> meta_db \<Rightarrow> (meta_db, unit) result" where
  "RestorePackage p = pool_stmt (\<lambda>db.
     if \<not> package_accepted p db then (Inl violation, db)
     else if has_package (pk_ID p) db then
       (Inr (), db\<lparr>packages := map (\<lambda>r. if pk_ID r = pk_ID p then p\<lparr>Files := []\<rparr> else r) (packages db)\<rparr>)
     else (Inr (), db\<lparr>packages := packages db @ [p\<lparr>Files := []\<rparr>]\<rparr>))"

definition RestorePackageFile :: "PackageFile \<Rightarrow> meta_db \<Rightarrow> (meta_db, unit) result" where
  "RestorePackageFile f = pool_stmt (\<lambda>db.
     let rest = filter (\<lambda>g. pf_ID g \<noteq> pf_ID f) (package_files db); f = f\<lparr>pf_Size := 0\<rparr> in
     if \<not> file_accepted f rest db then (Inl violation, db)
     else if list_ex (\<lambda>g. pf_ID g = pf_ID f) (package_files db) then
       (Inr (), db\<lparr>package_files := map (\<lambda>g. if pf_ID g = pf_ID f then f else g) (package_files db)\<rparr>)
     else (Inr (), db\<lparr>package_files := package_files db @ [f]\<rparr>))"

definition TruncateRecoveryTables :: "meta_db \<Rightarrow> (meta_db, unit) result" where
  "TruncateRecoveryTables = pool_stmt (\<lambda>db. (Inr (), db\<lparr>package_files := [], packages := [], content_blobs := [],
     supplier_stats := [], seq_packages := 0, seq_files := 0\<rparr>))"

definition ref_count_of :: "PackageFile list \<Rightarrow> bytes \<Rightarrow> int" where
  "ref_count_of fs h = int (length (filter (\<lambda>f. BlobHash f = h) fs))"

definition RecomputeRefCounts :: "meta_db \<Rightarrow> (meta_db, unit) result" where
  "RecomputeRefCounts = pool_stmt (\<lambda>db. (Inr (), db\<lparr>content_blobs :=
     map (\<lambda>b. b\<lparr>RefCount := ref_count_of (package_files db) (ContentHash b)\<rparr>) (content_blobs db)\<rparr>))"

definition max_or_one :: "int list \<Rightarrow> int" where
  "max_or_one is = (case is of [] \<Rightarrow> 1 | i # rest \<Rightarrow> fold max rest i)"

definition ResetIDSequences :: "meta_db \<Rightarrow> (meta_db, unit) result" where
  "ResetIDSequences db =
     tryE (pool_stmt (\<lambda>db. (Inr (), db\<lparr>seq_packages := max_or_one (map pk_ID (packages db))\<rparr>)) db) (\<lambda>_ db.
     pool_stmt (\<lambda>db. (Inr (), db\<lparr>seq_files := max_or_one (map pf_ID (package_files db))\<rparr>)) db)"

lemma pool_stmt_Inr:
  assumes "pool_stmt f db = (Inr x, db')"
  obtains d where "md_take_fault db = (Pass, d)" and "f d = (Inr x, db')"
  using assms by (auto simp: pool_stmt_def split: prod.splits fault.splits nat.splits)

end
