(* ===== verification/Meta_Memory.thy ===== *)
theory Meta_Memory
  imports Metadata "HOL-Library.AList"
begin

text \<open>
  The in-memory metadata repository that the tests use in place of PostgreSQL
  (\<^verbatim>\<open>internal/testmetadata/memory.go\<close>). Its Go maps are association lists with distinct keys; the
  order in which a loop over a map visits it is the order of the list. Its operations fail only
  where the source returns an error, and \<^verbatim>\<open>WithTx\<close> undoes nothing.
\<close>

record MemoryRepository =
  mr_blobs :: "(bytes \<times> ContentBlob) list"
  mr_pkgs :: "(int \<times> Package) list"
  mr_files :: "(int \<times> PackageFile) list"
  mr_stats :: "(int \<times> SupplierStats) list"
  nextPkg :: int
  nextFile :: int
  mr_clock :: "time list"

definition NewMemoryRepository :: "time list \<Rightarrow> MemoryRepository" where
  "NewMemoryRepository clock = \<lparr>mr_blobs = [], mr_pkgs = [], mr_files = [], mr_stats = [],
     nextPkg = 1, nextFile = 1, mr_clock = clock\<rparr>"

definition mr_now :: "MemoryRepository \<Rightarrow> time \<times> MemoryRepository" where
  "mr_now m = (case mr_clock m of [] \<Rightarrow> (0, m) | t # ts \<Rightarrow> (t, m\<lparr>mr_clock := ts\<rparr>))"

definition mem_WithTx :: "(MemoryRepository \<Rightarrow> (MemoryRepository, 'a) result) \<Rightarrow> MemoryRepository \<Rightarrow> (MemoryRepository, 'a) result" where
  "mem_WithTx fn m = fn m"

subsection \<open>Operations of a transaction\<close>

definition memTx_GetBlob :: "bytes \<Rightarrow> MemoryRepository \<Rightarrow> (MemoryRepository, ContentBlob option) result" where
  "memTx_GetBlob h m = (Inr (map_of (mr_blobs m) h), m)"

definition memTx_GetBlobByHash :: "bytes \<Rightarrow> MemoryRepository \<Rightarrow> (MemoryRepository, ContentBlob option) result" where
  "memTx_GetBlobByHash h m = memTx_GetBlob h m"

definition put_blob :: "bytes \<Rightarrow> ContentBlob \<Rightarrow> MemoryRepository \<Rightarrow> MemoryRepository" where
  "put_blob h b m = m\<lparr>mr_blobs := AList.update h b (mr_blobs m)\<rparr>"

definition memTx_InsertBlob :: "ContentBlob \<Rightarrow> MemoryRepository \<Rightarrow> (MemoryRepository, unit) result" where
  "memTx_InsertBlob b m = (Inr (), put_blob (ContentHash b) b m)"

definition memTx_InsertBlobOrIncrement :: "ContentBlob \<Rightarrow> MemoryRepository \<Rightarrow> (MemoryRepository, bool) result" where
  "memTx_InsertBlobOrIncrement b m = (case map_of (mr_blobs m) (ContentHash b) of
       Some old \<Rightarrow> (Inr False, put_blob (ContentHash b) (old\<lparr>RefCount := RefCount old + 1\<rparr>) m)
     | None \<Rightarrow> (Inr True, put_blob (ContentHash b) b m))"

definition memTx_IncrementRefCount :: "bytes \<Rightarrow> MemoryRepository \<Rightarrow> (MemoryRepository, unit) result" where
  "memTx_IncrementRefCount h m = (case map_of (mr_blobs m) h of
       None \<Rightarrow> (Inl (Err ''blob not found''), m)
     | Some b \<Rightarrow> (Inr (), put_blob h (b\<lparr>RefCount := RefCount b + 1\<rparr>) m))"

definition memTx_IncrementRefCountIfExists :: "bytes \<Rightarrow> MemoryRepository \<Rightarrow> (MemoryRepository, bool) result" where
  "memTx_IncrementRefCountIfExists h m = (case map_of (mr_blobs m) h of
       None \<Rightarrow> (Inr False, m)
     | Some b \<Rightarrow> (Inr True, put_blob h (b\<lparr>RefCount := RefCount b + 1\<rparr>) m))"

fun memTx_IncrementRefCounts :: "bytes list \<Rightarrow> MemoryRepository \<Rightarrow> (MemoryRepository, unit) result" where
  "memTx_IncrementRefCounts [] m = (Inr (), m)"
| "memTx_IncrementRefCounts (h # hs) m = tryE (memTx_IncrementRefCount h m) (\<lambda>_ m. memTx_IncrementRefCounts hs m)"

definition memTx_CreatePackage :: "CreatePackageInput \<Rightarrow> MemoryRepository \<Rightarrow> (MemoryRepository, int) result" where
  "memTx_CreatePackage inp m =
     (let i = nextPkg m in
      case mr_now (m\<lparr>nextPkg := nextPkg m + 1\<rparr>) of (t, m) \<Rightarrow>
        (Inr i, m\<lparr>mr_pkgs := AList.update i (new_package i t inp) (mr_pkgs m)\<rparr>))"

text \<open>The zero value a missing key of the package map yields.\<close>

definition zero_package :: Package where
  "zero_package = \<lparr>pk_ID = 0, pk_SupplierID = 0, pk_ReceivedAt = 0, pk_PackageHash = [], PayloadType_of = [],
     StorageMode = [], pk_OriginalFilename = None, CanonicalPackageID = None, FileCount = 0, UnpackError = None, Files = []\<rparr>"

definition memTx_CreatePackageFile :: "int \<Rightarrow> CreateFileInput \<Rightarrow> MemoryRepository \<Rightarrow> (MemoryRepository, int) result" where
  "memTx_CreatePackageFile packageID inp m =
     (let i = nextFile m; m = m\<lparr>nextFile := nextFile m + 1\<rparr> in
      case map_of (mr_blobs m) (fi_BlobHash inp) of
        None \<Rightarrow> (Inl (Err ''blob missing''), m)
      | Some blob \<Rightarrow>
          (let f = (new_file i packageID inp)\<lparr>pf_Size := BlobSize blob\<rparr>;
               p = (case map_of (mr_pkgs m) packageID of None \<Rightarrow> zero_package | Some p \<Rightarrow> p)
           in (Inr i, m\<lparr>mr_files := AList.update i f (mr_files m),
                       mr_pkgs := AList.update packageID (p\<lparr>Files := Files p @ [f]\<rparr>) (mr_pkgs m)\<rparr>)))"

definition listFiles :: "(int \<times> PackageFile) list \<Rightarrow> int \<Rightarrow> PackageFile list" where
  "listFiles fs packageID = sort_key pf_ID (filter (\<lambda>f. pf_PackageID f = packageID) (map snd fs))"

definition memTx_GetPackageForUpdate :: "int \<Rightarrow> MemoryRepository \<Rightarrow> (MemoryRepository, Package option) result" where
  "memTx_GetPackageForUpdate i m =
     (Inr (map_option (\<lambda>p. p\<lparr>Files := listFiles (mr_files m) i\<rparr>) (map_of (mr_pkgs m) i)), m)"

definition memTx_UpdatePackageAfterUnpack :: "int \<Rightarrow> string \<Rightarrow> int \<Rightarrow> string option \<Rightarrow> MemoryRepository \<Rightarrow> (MemoryRepository, bool) result" where
  "memTx_UpdatePackageAfterUnpack i mode n err m = (case map_of (mr_pkgs m) i of
       None \<Rightarrow> (Inr False, m)
     | Some p \<Rightarrow>
         if StorageMode p \<noteq> ''raw_large'' then (Inr False, m)
         else (Inr True, m\<lparr>mr_pkgs := AList.update i (p\<lparr>StorageMode := mode, FileCount := n, UnpackError := err\<rparr>) (mr_pkgs m)\<rparr>))"

subsection \<open>Operations of the repository\<close>

definition mem_FindCanonicalPackageID :: "bytes \<Rightarrow> MemoryRepository \<Rightarrow> (MemoryRepository, int option) result" where
  "mem_FindCanonicalPackageID h m =
     (Inr (foldl (\<lambda>minID (i, p). if pk_PackageHash p = h \<and> CanonicalPackageID p = None
               then (case minID of None \<Rightarrow> Some i | Some v \<Rightarrow> if i < v then Some i else Some v) else minID) None (mr_pkgs m)), m)"

definition mem_ListClonePackageIDs :: "int \<Rightarrow> MemoryRepository \<Rightarrow> (MemoryRepository, int list) result" where
  "mem_ListClonePackageIDs c m = (Inr (sort (map fst (filter (\<lambda>(i, p). CanonicalPackageID p = Some c) (mr_pkgs m)))), m)"

definition mem_ListPendingLargePackages :: "MemoryRepository \<Rightarrow> (MemoryRepository, int list) result" where
  "mem_ListPendingLargePackages m =
     (Inr (sort (map fst (filter (\<lambda>(i, p). StorageMode p = ''raw_large'' \<and> CanonicalPackageID p = None) (mr_pkgs m)))), m)"

definition mem_GetPackage :: "int \<Rightarrow> MemoryRepository \<Rightarrow> (MemoryRepository, Package option) result" where
  "mem_GetPackage i m = (Inr (map_option (\<lambda>p. p\<lparr>Files := listFiles (mr_files m) i\<rparr>) (map_of (mr_pkgs m) i)), m)"

definition mem_ListPackageFiles :: "int \<Rightarrow> MemoryRepository \<Rightarrow> (MemoryRepository, PackageFile list) result" where
  "mem_ListPackageFiles i m = (Inr (listFiles (mr_files m) i), m)"

definition mem_GetPackageFile :: "int \<Rightarrow> int \<Rightarrow> MemoryRepository \<Rightarrow> (MemoryRepository, PackageFile option) result" where
  "mem_GetPackageFile p i m = (Inr (case map_of (mr_files m) i of
       None \<Rightarrow> None | Some f \<Rightarrow> if pf_PackageID f \<noteq> p then None else Some f), m)"

definition mem_GetOriginalFile :: "int \<Rightarrow> MemoryRepository \<Rightarrow> (MemoryRepository, PackageFile option) result" where
  "mem_GetOriginalFile p m = tryE (mem_ListPackageFiles p m) (\<lambda>files m. (Inr (find (\<lambda>f. Role f = ''original'') files), m))"

definition mem_CountContentBlobs :: "MemoryRepository \<Rightarrow> (MemoryRepository, int) result" where
  "mem_CountContentBlobs m = (Inr (int (length (mr_blobs m))), m)"

definition mem_GetBlob :: "bytes \<Rightarrow> MemoryRepository \<Rightarrow> (MemoryRepository, ContentBlob option) result" where
  "mem_GetBlob h m = (Inr (map_of (mr_blobs m) h), m)"

definition mem_ListContentBlobs :: "MemoryRepository \<Rightarrow> (MemoryRepository, ContentBlob list) result" where
  "mem_ListContentBlobs m = (Inr (map snd (mr_blobs m)), m)"

definition add_totals :: "ContentBlob \<Rightarrow> BlobByteTotals \<Rightarrow> BlobByteTotals" where
  "add_totals b t = \<lparr>LogicalBytes = LogicalBytes t + BlobSize b,
     StoredBytes = StoredBytes t + (if StoredSize b \<le> 0 then BlobSize b else StoredSize b),
     ReferencedLogicalBytes = ReferencedLogicalBytes t + BlobSize b * RefCount b\<rparr>"

definition mem_BlobByteTotals :: "MemoryRepository \<Rightarrow> (MemoryRepository, BlobByteTotals) result" where
  "mem_BlobByteTotals m =
     (Inr (fold add_totals (map snd (mr_blobs m)) \<lparr>LogicalBytes = 0, StoredBytes = 0, ReferencedLogicalBytes = 0\<rparr>), m)"

definition mem_RecordSupplierIngest :: "int \<Rightarrow> int \<Rightarrow> int \<Rightarrow> int \<Rightarrow> MemoryRepository \<Rightarrow> (MemoryRepository, unit) result" where
  "mem_RecordSupplierIngest supplierID fileCount newBlobs duplicateRefs m =
     (let s = (case map_of (mr_stats m) supplierID of
             None \<Rightarrow> \<lparr>ss_SupplierID = 0, TotalPackages = 0, TotalRefs = 0, DuplicateRefs = 0, LastActivity = 0\<rparr> | Some s \<Rightarrow> s)
      in case mr_now m of (t, m) \<Rightarrow>
        (Inr (), m\<lparr>mr_stats := AList.update supplierID
           (s\<lparr>ss_SupplierID := supplierID, TotalPackages := TotalPackages s + 1, TotalRefs := TotalRefs s + fileCount,
              DuplicateRefs := DuplicateRefs s + duplicateRefs, LastActivity := t\<rparr>) (mr_stats m)\<rparr>))"

definition mem_GetSupplierStats :: "int \<Rightarrow> MemoryRepository \<Rightarrow> (MemoryRepository, SupplierStats option) result" where
  "mem_GetSupplierStats i m = (Inr (map_of (mr_stats m) i), m)"

end
