(* ===== verification/Meta_Refine.thy ===== *)
theory Meta_Refine
  imports Meta_Memory
begin

text \<open>
  The tables stay well-formed under every operation of a transaction, and the in-memory
  repository refines the transaction interface of the PostgreSQL one: every run of operations
  that PostgreSQL accepts is accepted by the memory repository with the same answers.
\<close>

subsection \<open>Well-formed tables\<close>

definition md_wf :: "meta_db \<Rightarrow> bool" where
  "md_wf db \<longleftrightarrow> distinct (map ContentHash (content_blobs db)) \<and> distinct (map pk_ID (packages db))
     \<and> distinct (map pf_ID (package_files db))
     \<and> list_all (\<lambda>p. pk_ID p \<le> seq_packages db \<and> Files p = []) (packages db)
     \<and> list_all (\<lambda>f. pf_ID f \<le> seq_files db \<and> pf_Size f = 0 \<and> has_blob (BlobHash f) db \<and> has_package (pf_PackageID f) db)
         (package_files db)"

lemma md_take_fault_tables:
  assumes "md_take_fault db = (f, db')"
  shows "content_blobs db' = content_blobs db" "packages db' = packages db" "package_files db' = package_files db"
    "supplier_stats db' = supplier_stats db" "dictionaries db' = dictionaries db"
    "seq_packages db' = seq_packages db" "seq_files db' = seq_files db" "md_clock db' = md_clock db" "md_aborted db' = md_aborted db"
  using assms by (auto simp: md_take_fault_def split: prod.splits)

lemma md_now_tables:
  assumes "md_now db = (t, db')"
  shows "content_blobs db' = content_blobs db" "packages db' = packages db" "package_files db' = package_files db"
    "supplier_stats db' = supplier_stats db" "dictionaries db' = dictionaries db"
    "seq_packages db' = seq_packages db" "seq_files db' = seq_files db" "md_aborted db' = md_aborted db"
  using assms by (auto simp: md_now_def split: list.splits)

lemma md_wf_cong:
  "content_blobs db' = content_blobs db \<Longrightarrow> packages db' = packages db \<Longrightarrow> package_files db' = package_files db
    \<Longrightarrow> seq_packages db \<le> seq_packages db' \<Longrightarrow> seq_files db \<le> seq_files db' \<Longrightarrow> md_wf db \<Longrightarrow> md_wf db'"
  by (auto simp: md_wf_def list_all_iff has_blob_def has_package_def)

lemma md_wf_take_fault: "md_take_fault db = (f, db') \<Longrightarrow> md_wf db \<Longrightarrow> md_wf db'"
  by (rule md_wf_cong) (simp_all add: md_take_fault_tables)

lemma tx_stmt_cases:
  assumes "tx_stmt f db = (r, db')"
  shows "(\<exists>e. r = Inl e \<and> db' = db) \<or> (\<exists>d e. r = Inl e \<and> md_take_fault db = d \<and> db' = (snd d)\<lparr>md_aborted := True\<rparr>)
    \<or> (\<exists>d d' e. \<not> md_aborted db \<and> md_take_fault db = (Pass, d) \<and> f d = (Inl e, d') \<and> r = Inl e \<and> db' = d'\<lparr>md_aborted := True\<rparr>)
    \<or> (\<exists>d x. \<not> md_aborted db \<and> md_take_fault db = (Pass, d) \<and> f d = (Inr x, db') \<and> r = Inr x)"
  using assms by (auto simp: tx_stmt_def split: if_splits prod.splits fault.splits sum.splits)

lemma tx_stmt_Inr:
  assumes "tx_stmt f db = (Inr x, db')"
  obtains d where "\<not> md_aborted db" and "md_take_fault db = (Pass, d)" and "f d = (Inr x, db')"
  using assms by (auto simp: tx_stmt_def split: if_splits prod.splits fault.splits sum.splits)

lemma tx_stmt_wf:
  assumes "md_wf db" and "\<And>d. md_wf d \<Longrightarrow> md_wf (snd (f d))"
  shows "md_wf (snd (tx_stmt f db))"
proof (cases "tx_stmt f db")
  case (Pair r db')
  obtain fl d where fl: "md_take_fault db = (fl, d)" by fastforce
  have d: "md_wf d" using md_wf_take_fault [OF fl assms(1)] .
  have ab: "md_wf (x\<lparr>md_aborted := b\<rparr>)" if "md_wf x" for x b
    by (rule md_wf_cong [OF _ _ _ _ _ that]) simp_all
  from tx_stmt_cases [OF Pair] show ?thesis
    using Pair assms(1) d ab fl assms(2) [OF d] by (auto simp del: split_paired_Ex)
qed

lemma has_blob_iff: "has_blob h db \<longleftrightarrow> h \<in> set (map ContentHash (content_blobs db))"
  by (auto simp: has_blob_def list_ex_iff)

lemma has_package_iff: "has_package i db \<longleftrightarrow> i \<in> set (map pk_ID (packages db))"
  by (auto simp: has_package_def list_ex_iff)

lemma bump_hash [simp]: "ContentHash (bump h b) = ContentHash b"
  by (simp add: bump_def)

lemma map_hash_bump [simp]: "map ContentHash (content_blobs (bump_ref h db)) = map ContentHash (content_blobs db)"
  by (simp add: bump_ref_def)

lemma has_blob_bump [simp]: "has_blob h (bump_ref h' db) = has_blob h db"
  unfolding has_blob_iff map_hash_bump ..

lemma bump_ref_tables [simp]: "packages (bump_ref h db) = packages db" "package_files (bump_ref h db) = package_files db"
  "seq_packages (bump_ref h db) = seq_packages db" "seq_files (bump_ref h db) = seq_files db"
  "md_clock (bump_ref h db) = md_clock db" "md_aborted (bump_ref h db) = md_aborted db"
  "has_package i (bump_ref h db) = has_package i db"
  by (simp_all add: bump_ref_def has_package_def)

lemma md_wf_bump: "md_wf db \<Longrightarrow> md_wf (bump_ref h db)"
  by (simp add: md_wf_def)

lemma md_wf_add_blob: "md_wf db \<Longrightarrow> \<not> has_blob (ContentHash b) db \<Longrightarrow> md_wf (db\<lparr>content_blobs := content_blobs db @ [b]\<rparr>)"
  by (auto simp: md_wf_def list_all_iff has_blob_def has_package_def list_ex_iff)

lemma md_wf_add_package:
  "md_wf db \<Longrightarrow> \<not> has_package (pk_ID p) db \<Longrightarrow> pk_ID p \<le> seq_packages db \<Longrightarrow> Files p = []
    \<Longrightarrow> md_wf (db\<lparr>packages := packages db @ [p]\<rparr>)"
  by (auto simp: md_wf_def list_all_iff has_blob_def has_package_def list_ex_iff)

lemma md_wf_add_file:
  "md_wf db \<Longrightarrow> file_accepted f (package_files db) db \<Longrightarrow> pf_ID f \<le> seq_files db \<Longrightarrow> pf_Size f = 0
    \<Longrightarrow> md_wf (db\<lparr>package_files := package_files db @ [f]\<rparr>)"
  by (auto simp: md_wf_def list_all_iff has_blob_def has_package_def list_ex_iff file_accepted_def file_clash_def)

lemma md_wf_update_packages:
  assumes "md_wf db" and "\<And>p. pk_ID (g p) = pk_ID p \<and> Files (g p) = Files p"
  shows "md_wf (db\<lparr>packages := map g (packages db)\<rparr>)"
  using assms by (auto simp: md_wf_def list_all_iff has_blob_def has_package_def list_ex_iff comp_def)

lemma md_wf_InsertBlobOrIncrement: "md_wf db \<Longrightarrow> md_wf (snd (tx_InsertBlobOrIncrement b db))"
  unfolding tx_InsertBlobOrIncrement_def
  by (erule tx_stmt_wf) (auto simp: md_wf_bump md_wf_add_blob)

lemma md_wf_CreatePackage: "md_wf db \<Longrightarrow> md_wf (snd (tx_CreatePackage inp db))"
  unfolding tx_CreatePackage_def
proof (erule tx_stmt_wf)
  fix d :: meta_db assume w: "md_wf d"
  obtain t d1 where n: "md_now (d\<lparr>seq_packages := seq_packages d + 1\<rparr>) = (t, d1)" by fastforce
  have "md_wf d1" by (rule md_wf_cong [OF _ _ _ _ _ w]) (simp_all add: md_now_tables [OF n])
  then show "md_wf (snd (case md_now (d\<lparr>seq_packages := seq_packages d + 1\<rparr>) of (t, db) \<Rightarrow>
     (let p = new_package (seq_packages db) t inp in
      if package_accepted p db \<and> \<not> has_package (pk_ID p) db
      then (Inr (pk_ID p), db\<lparr>packages := packages db @ [p]\<rparr>) else (Inl violation, db))))"
    using n by (auto simp: Let_def intro!: md_wf_add_package simp: new_package_def)
qed

lemma md_wf_CreatePackageFile: "md_wf db \<Longrightarrow> md_wf (snd (tx_CreatePackageFile i inp db))"
  unfolding tx_CreatePackageFile_def Let_def
proof (erule tx_stmt_wf)
  fix d :: meta_db assume w: "md_wf d"
  let ?d = "d\<lparr>seq_files := seq_files d + 1\<rparr>"
  have "md_wf ?d" by (rule md_wf_cong [OF _ _ _ _ _ w]) simp_all
  then show "md_wf (snd (if file_accepted (new_file (seq_files ?d) i inp) (package_files ?d) ?d
      then (Inr (pf_ID (new_file (seq_files ?d) i inp)), ?d\<lparr>package_files := package_files ?d @ [new_file (seq_files ?d) i inp]\<rparr>)
      else (Inl violation, ?d)))"
    using md_wf_add_file [of ?d "new_file (seq_files ?d) i inp"] by (auto simp: new_file_def)
qed

lemma md_wf_UpdatePackageAfterUnpack: "md_wf db \<Longrightarrow> md_wf (snd (tx_UpdatePackageAfterUnpack i mode n err db))"
  unfolding tx_UpdatePackageAfterUnpack_def
  by (erule tx_stmt_wf) (auto intro!: md_wf_update_packages simp: after_unpack_def)

lemma md_wf_InsertBlob: "md_wf db \<Longrightarrow> md_wf (snd (tx_InsertBlob b db))"
  unfolding tx_InsertBlob_def by (erule tx_stmt_wf) (auto simp: insert_blob_def md_wf_add_blob)

lemma md_wf_IncrementRefCount: "md_wf db \<Longrightarrow> md_wf (snd (tx_IncrementRefCount h db))"
  unfolding tx_IncrementRefCount_def by (erule tx_stmt_wf) (simp add: md_wf_bump)

lemma md_wf_IncrementRefCountIfExists: "md_wf db \<Longrightarrow> md_wf (snd (tx_IncrementRefCountIfExists h db))"
  unfolding tx_IncrementRefCountIfExists_def by (erule tx_stmt_wf) (simp add: md_wf_bump)

lemma md_wf_IncrementRefCounts: "md_wf db \<Longrightarrow> md_wf (snd (tx_IncrementRefCounts hs db))"
proof (induction hs arbitrary: db)
  case (Cons h hs)
  show ?case unfolding tx_IncrementRefCounts.simps
    by (rule tryE_inv [where P = md_wf]) (simp_all add: md_wf_IncrementRefCount Cons)
qed simp

lemma md_wf_read: "md_wf db \<Longrightarrow> md_wf (snd (tx_stmt (\<lambda>db. (g db, db)) db))"
  by (erule tx_stmt_wf) simp

lemmas md_wf_ops = md_wf_InsertBlobOrIncrement md_wf_CreatePackage md_wf_CreatePackageFile
  md_wf_UpdatePackageAfterUnpack md_wf_InsertBlob md_wf_IncrementRefCount md_wf_IncrementRefCountIfExists
  md_wf_IncrementRefCounts md_wf_read

subsection \<open>The simulation relation\<close>

lemma find_snoc: "find P (xs @ [x]) = (case find P xs of Some y \<Rightarrow> Some y | None \<Rightarrow> if P x then Some x else None)"
  by (induction xs) auto

lemma find_map_same: "(\<And>x. P (g x) = P x) \<Longrightarrow> find P (map g xs) = map_option g (find P xs)"
  by (induction xs) auto

lemma find_SomeD: "find P xs = Some x \<Longrightarrow> x \<in> set xs \<and> P x"
  by (auto simp: find_Some_iff)

lemma find_blob_None: "find_blob h db = None \<longleftrightarrow> \<not> has_blob h db"
  by (auto simp: find_blob_def find_None_iff has_blob_def list_ex_iff)

lemma find_package_None: "find_package i db = None \<longleftrightarrow> \<not> has_package i db"
  by (auto simp: find_package_def find_None_iff has_package_def list_ex_iff)

definition find_file :: "int \<Rightarrow> meta_db \<Rightarrow> PackageFile option" where
  "find_file i db = find (\<lambda>f. pf_ID f = i) (package_files db)"

definition erase_files :: "Package \<Rightarrow> Package" where
  "erase_files p = p\<lparr>Files := []\<rparr>"

definition sim :: "meta_db \<Rightarrow> MemoryRepository \<Rightarrow> bool" where
  "sim db m \<longleftrightarrow> md_wf db \<and> \<not> md_aborted db
     \<and> (\<forall>h. map_of (mr_blobs m) h = find_blob h db)
     \<and> (\<forall>i. map_option erase_files (map_of (mr_pkgs m) i) = find_package i db)
     \<and> (\<forall>i. map_of (mr_files m) i = Option.bind (find_file i db) (join_blob db))
     \<and> nextPkg m = seq_packages db + 1 \<and> nextFile m = seq_files db + 1 \<and> mr_clock m = md_clock db"

lemma find_cong:
  "content_blobs d = content_blobs db \<Longrightarrow> find_blob h d = find_blob h db"
  "packages d = packages db \<Longrightarrow> find_package i d = find_package i db"
  "package_files d = package_files db \<Longrightarrow> find_file i d = find_file i db"
  by (simp_all add: find_blob_def find_package_def find_file_def)

lemma sim_take_fault: "sim db m \<Longrightarrow> md_take_fault db = (f, d) \<Longrightarrow> sim d m"
  using md_take_fault_tables [of db f d] md_wf_take_fault [of db f d]
  by (auto simp: sim_def find_cong [of d db] join_blob_def [abs_def])

lemma find_file_blob: "md_wf db \<Longrightarrow> find_file i db = Some f \<Longrightarrow> has_blob (BlobHash f) db"
  by (auto simp: md_wf_def list_all_iff find_file_def dest!: find_SomeD)

text \<open>A change of blobs that keeps the sizes of those that are there keeps the files.\<close>

lemma sim_blobs:
  assumes "sim db m" and "md_wf db'" and "packages db' = packages db" and "package_files db' = package_files db"
    and "seq_packages db' = seq_packages db" and "seq_files db' = seq_files db" and "md_clock db' = md_clock db"
    and "\<not> md_aborted db'"
    and "\<And>h b. find_blob h db = Some b \<Longrightarrow> map_option BlobSize (find_blob h db') = Some (BlobSize b)"
    and "\<And>h. map_of bs h = find_blob h db'"
  shows "sim db' (m\<lparr>mr_blobs := bs\<rparr>)"
proof -
  have "Option.bind (find_file i db') (join_blob db') = Option.bind (find_file i db) (join_blob db)" for i
  proof (cases "find_file i db")
    case None
    then show ?thesis using find_cong(3) [of db' db i] assms(4) by simp
  next
    case (Some f)
    then have "has_blob (BlobHash f) db" using assms(1) find_file_blob by (auto simp: sim_def)
    then obtain b where b: "find_blob (BlobHash f) db = Some b" using find_blob_None by blast
    then obtain b' where "find_blob (BlobHash f) db' = Some b'" "BlobSize b' = BlobSize b" using assms(9) [OF b] by auto
    with b Some show ?thesis using find_cong(3) [of db' db i] assms(4) by (simp add: join_blob_def)
  qed
  with assms show ?thesis by (auto simp: sim_def find_cong(2) [of db' db])
qed

lemma find_blob_bump: "find_blob h (bump_ref k db) = map_option (bump k) (find_blob h db)"
  by (simp add: find_blob_def bump_ref_def find_map_same)

lemma find_blob_add:
  "find_blob h (db\<lparr>content_blobs := content_blobs db @ [b]\<rparr>)
    = (case find_blob h db of Some x \<Rightarrow> Some x | None \<Rightarrow> if ContentHash b = h then Some b else None)"
  by (simp add: find_blob_def find_snoc)

lemma find_blob_hash: "find_blob h db = Some b \<Longrightarrow> ContentHash b = h"
  by (auto simp: find_blob_def dest: find_SomeD)

lemma sim_bump:
  assumes "sim db m" and "map_of (mr_blobs m) h = Some b"
  shows "sim (bump_ref h db) (put_blob h (b\<lparr>RefCount := RefCount b + 1\<rparr>) m)"
  unfolding put_blob_def
proof (rule sim_blobs [OF assms(1)])
  show "md_wf (bump_ref h db)" using assms(1) by (simp add: sim_def md_wf_bump)
  fix k c
  show "find_blob k db = Some c \<Longrightarrow> map_option BlobSize (find_blob k (bump_ref h db)) = Some (BlobSize c)"
    by (simp add: find_blob_bump bump_def)
  have m: "map_of (mr_blobs m) k = find_blob k db" for k using assms(1) by (simp add: sim_def)
  show "map_of (AList.update h (b\<lparr>RefCount := RefCount b + 1\<rparr>) (mr_blobs m)) k = find_blob k (bump_ref h db)"
  proof (cases "find_blob k db")
    case None
    with assms(2) m [of h] show ?thesis by (auto simp: update_conv' find_blob_bump m)
  next
    case (Some c)
    with assms(2) m [of h] find_blob_hash [OF Some] show ?thesis by (auto simp: update_conv' find_blob_bump m bump_def)
  qed
qed (use assms(1) in \<open>simp_all add: sim_def\<close>)

lemma sim_add_blob:
  assumes "sim db m" and "\<not> has_blob (ContentHash b) db"
  shows "sim (db\<lparr>content_blobs := content_blobs db @ [b]\<rparr>) (put_blob (ContentHash b) b m)"
  unfolding put_blob_def
proof (rule sim_blobs [OF assms(1)])
  show "md_wf (db\<lparr>content_blobs := content_blobs db @ [b]\<rparr>)" using assms by (simp add: sim_def md_wf_add_blob)
  fix k c
  show "find_blob k db = Some c \<Longrightarrow> map_option BlobSize (find_blob k (db\<lparr>content_blobs := content_blobs db @ [b]\<rparr>)) = Some (BlobSize c)"
    by (simp add: find_blob_add)
  have "map_of (mr_blobs m) k = find_blob k db" for k using assms(1) by (simp add: sim_def)
  then show "map_of (AList.update (ContentHash b) b (mr_blobs m)) k = find_blob k (db\<lparr>content_blobs := content_blobs db @ [b]\<rparr>)"
    using assms(2) find_blob_None [of "ContentHash b" db] by (auto simp: update_conv' find_blob_add split: option.split)
qed (use assms(1) in \<open>simp_all add: sim_def\<close>)

lemma erase_new: "erase_files (new_package i t inp) = new_package i t inp"
  by (simp add: erase_files_def new_package_def)

lemma sim_add_package:
  assumes "sim db m" and "mr_now (m\<lparr>nextPkg := nextPkg m + 1\<rparr>) = (t, m1)"
    and "md_now (db\<lparr>seq_packages := seq_packages db + 1\<rparr>) = (t', d1)"
  shows "t = t' \<and> sim (d1\<lparr>packages := packages d1 @ [new_package (seq_packages d1) t' inp]\<rparr>)
           (m1\<lparr>mr_pkgs := AList.update (nextPkg m) (new_package (nextPkg m) t inp) (mr_pkgs m1)\<rparr>)"
proof -
  let ?p = "new_package (seq_packages d1) t' inp" and ?d = "d1\<lparr>packages := packages d1 @ [new_package (seq_packages d1) t' inp]\<rparr>"
  have d1: "content_blobs d1 = content_blobs db" "packages d1 = packages db" "package_files d1 = package_files db"
    "seq_packages d1 = seq_packages db + 1" "seq_files d1 = seq_files db" "md_aborted d1 = md_aborted db"
    using md_now_tables [OF assms(3)] by simp_all
  have m1: "mr_blobs m1 = mr_blobs m" "mr_pkgs m1 = mr_pkgs m" "mr_files m1 = mr_files m" "nextPkg m1 = nextPkg m + 1" "nextFile m1 = nextFile m"
    using assms(2) by (auto simp: mr_now_def split: list.splits)
  have clk: "t = t' \<and> mr_clock m1 = md_clock d1"
    using assms by (auto simp: sim_def mr_now_def md_now_def split: list.splits)
  have np: "nextPkg m = seq_packages d1" using assms(1) d1 by (simp add: sim_def)
  have wf: "md_wf db" using assms(1) by (simp add: sim_def)
  then have "md_wf d1" by (rule md_wf_cong [rotated 5]) (simp_all add: d1)
  moreover have fresh: "\<not> has_package (seq_packages d1) d1"
    using wf by (auto simp: has_package_def list_ex_iff d1 md_wf_def list_all_iff)
  ultimately have wf': "md_wf ?d" by (intro md_wf_add_package) (simp_all add: new_package_def)
  have fp: "find_package i ?d = (case find_package i db of Some x \<Rightarrow> Some x | None \<Rightarrow> if i = seq_packages d1 then Some ?p else None)" for i
    by (auto simp: find_package_def find_snoc d1 new_package_def split: option.split)
  have "find_package (seq_packages d1) db = None" using fresh by (simp add: find_package_None has_package_def d1)
  then have pk: "map_option erase_files (map_of (AList.update (nextPkg m) (new_package (nextPkg m) t inp) (mr_pkgs m1)) i) = find_package i ?d" for i
  proof -
    have r: "map_option erase_files (map_of (mr_pkgs m) i) = find_package i db" using assms(1) by (simp add: sim_def)
    show ?thesis
    proof (cases "i = nextPkg m")
      case True
      with clk np \<open>find_package (seq_packages d1) db = None\<close> show ?thesis
        unfolding fp by (simp add: update_conv' erase_new)
    next
      case False
      with r np show ?thesis unfolding fp by (simp add: update_conv' m1 split: option.split)
    qed
  qed
  have "find_file i ?d = find_file i db" "find_blob h ?d = find_blob h db" for i h
    by (simp_all add: find_file_def find_blob_def d1)
  moreover have "join_blob ?d = join_blob db" by (simp add: join_blob_def [abs_def] find_blob_def d1)
  ultimately show ?thesis
    using assms(1) clk pk wf' by (simp add: sim_def m1 d1)
qed

lemma sim_add_file:
  assumes "sim db m" and "file_accepted f (package_files db) db" and "pf_ID f = seq_files db + 1" and "pf_Size f = 0"
    and "map_of (mr_blobs m) (BlobHash f) = Some b" and "map_of (mr_pkgs m) (pf_PackageID f) = Some p"
  shows "sim (db\<lparr>seq_files := seq_files db + 1, package_files := package_files db @ [f]\<rparr>)
     (m\<lparr>nextFile := nextFile m + 1, mr_files := AList.update (pf_ID f) (f\<lparr>pf_Size := BlobSize b\<rparr>) (mr_files m),
        mr_pkgs := AList.update (pf_PackageID f) (p\<lparr>Files := fs\<rparr>) (mr_pkgs m)\<rparr>)"
proof -
  let ?d1 = "db\<lparr>seq_files := seq_files db + 1\<rparr>" and ?d = "db\<lparr>seq_files := seq_files db + 1, package_files := package_files db @ [f]\<rparr>"
  have wf: "md_wf db" using assms(1) by (simp add: sim_def)
  then have "md_wf ?d1" by (rule md_wf_cong [rotated 5]) simp_all
  then have wf': "md_wf ?d"
    using md_wf_add_file [of ?d1 f] assms(2-4) by (simp add: file_accepted_def has_package_def has_blob_def)
  have "find_file (pf_ID f) db = None"
    using wf assms(3) by (auto simp: find_file_def find_None_iff md_wf_def list_all_iff)
  then have ff: "find_file i ?d = (if i = pf_ID f then Some f else find_file i db)" for i
    by (auto simp: find_file_def find_snoc split: option.split)
  have jb: "join_blob ?d = join_blob db" "find_blob h ?d = find_blob h db" "find_package i ?d = find_package i db" for h i
    by (simp_all add: join_blob_def [abs_def] find_blob_def find_package_def)
  have "join_blob db f = Some (f\<lparr>pf_Size := BlobSize b\<rparr>)"
    using assms(1,5) by (simp add: sim_def join_blob_def)
  then have fl: "map_of (AList.update (pf_ID f) (f\<lparr>pf_Size := BlobSize b\<rparr>) (mr_files m)) i = Option.bind (find_file i ?d) (join_blob ?d)" for i
    using assms(1) by (simp add: update_conv' ff jb sim_def)
  have pk: "map_option erase_files (map_of (AList.update (pf_PackageID f) (p\<lparr>Files := fs\<rparr>) (mr_pkgs m)) i) = find_package i ?d" for i
  proof -
    have "map_option erase_files (map_of (mr_pkgs m) j) = find_package j db" for j using assms(1) by (simp add: sim_def)
    from this [of i] this [of "pf_PackageID f"] assms(6) show ?thesis
      by (auto simp: update_conv' jb erase_files_def)
  qed
  show ?thesis using assms(1) wf' fl pk jb by (simp add: sim_def)
qed

lemma sim_update_package:
  assumes "sim db m" and "map_of (mr_pkgs m) i = Some p" and "StorageMode p = ''raw_large''"
  shows "sim (db\<lparr>packages := map (after_unpack i mode n err) (packages db)\<rparr>)
     (m\<lparr>mr_pkgs := AList.update i (p\<lparr>StorageMode := mode, FileCount := n, UnpackError := err\<rparr>) (mr_pkgs m)\<rparr>)"
proof -
  let ?d = "db\<lparr>packages := map (after_unpack i mode n err) (packages db)\<rparr>"
  have wf: "md_wf ?d"
    using assms(1) by (auto simp: sim_def after_unpack_def intro!: md_wf_update_packages)
  have fp: "find_package j ?d = map_option (after_unpack i mode n err) (find_package j db)" for j
    by (simp add: find_package_def find_map_same after_unpack_def)
  have r: "map_option erase_files (map_of (mr_pkgs m) j) = find_package j db" for j using assms(1) by (simp add: sim_def)
  have "pk_ID q = j" if "find_package j db = Some q" for j q
    using that by (auto simp: find_package_def dest: find_SomeD)
  then have pk: "map_option erase_files (map_of (AList.update i (p\<lparr>StorageMode := mode, FileCount := n, UnpackError := err\<rparr>) (mr_pkgs m)) j)
      = find_package j ?d" for j
    using r [of j, symmetric] r [of i, symmetric] assms(2,3)
    by (cases "map_of (mr_pkgs m) j") (auto simp: update_conv' fp erase_files_def after_unpack_def)
  have "find_file k ?d = find_file k db" "find_blob h ?d = find_blob h db" "join_blob ?d = join_blob db" for k h
    by (simp_all add: find_file_def find_blob_def join_blob_def [abs_def])
  then show ?thesis using assms(1) wf pk by (simp add: sim_def)
qed

subsection \<open>Runs of operations\<close>

datatype tx_op =
    TxGetBlob bytes
  | TxInsertBlob ContentBlob
  | TxInsertBlobOrIncrement ContentBlob
  | TxIncrementRefCount bytes
  | TxIncrementRefCountIfExists bytes
  | TxCreatePackage CreatePackageInput
  | TxCreatePackageFile int CreateFileInput
  | TxGetPackageForUpdate int
  | TxUpdatePackageAfterUnpack int string int "string option"

datatype tx_val = VBlob "ContentBlob option" | VUnit | VBool bool | VInt int | VPackage "Package option"

definition retE :: "('a \<Rightarrow> 'b) \<Rightarrow> ('s, 'a) result \<Rightarrow> ('s, 'b) result" where
  "retE g r = tryE r (\<lambda>x s. (Inr (g x), s))"

fun pg_op :: "tx_op \<Rightarrow> meta_db \<Rightarrow> (meta_db, tx_val) result" where
  "pg_op (TxGetBlob h) db = retE VBlob (tx_GetBlob h db)"
| "pg_op (TxInsertBlob b) db = retE (\<lambda>_. VUnit) (tx_InsertBlob b db)"
| "pg_op (TxInsertBlobOrIncrement b) db = retE VBool (tx_InsertBlobOrIncrement b db)"
| "pg_op (TxIncrementRefCount h) db = retE (\<lambda>_. VUnit) (tx_IncrementRefCount h db)"
| "pg_op (TxIncrementRefCountIfExists h) db = retE VBool (tx_IncrementRefCountIfExists h db)"
| "pg_op (TxCreatePackage i) db = retE VInt (tx_CreatePackage i db)"
| "pg_op (TxCreatePackageFile p i) db = retE VInt (tx_CreatePackageFile p i db)"
| "pg_op (TxGetPackageForUpdate i) db = retE VPackage (tx_GetPackageForUpdate i db)"
| "pg_op (TxUpdatePackageAfterUnpack i mo n e) db = retE VBool (tx_UpdatePackageAfterUnpack i mo n e db)"

fun mem_op :: "tx_op \<Rightarrow> MemoryRepository \<Rightarrow> (MemoryRepository, tx_val) result" where
  "mem_op (TxGetBlob h) m = retE VBlob (memTx_GetBlob h m)"
| "mem_op (TxInsertBlob b) m = retE (\<lambda>_. VUnit) (memTx_InsertBlob b m)"
| "mem_op (TxInsertBlobOrIncrement b) m = retE VBool (memTx_InsertBlobOrIncrement b m)"
| "mem_op (TxIncrementRefCount h) m = retE (\<lambda>_. VUnit) (memTx_IncrementRefCount h m)"
| "mem_op (TxIncrementRefCountIfExists h) m = retE VBool (memTx_IncrementRefCountIfExists h m)"
| "mem_op (TxCreatePackage i) m = retE VInt (memTx_CreatePackage i m)"
| "mem_op (TxCreatePackageFile p i) m = retE VInt (memTx_CreatePackageFile p i m)"
| "mem_op (TxGetPackageForUpdate i) m = retE VPackage (memTx_GetPackageForUpdate i m)"
| "mem_op (TxUpdatePackageAfterUnpack i mo n e) m = retE VBool (memTx_UpdatePackageAfterUnpack i mo n e m)"

text \<open>The reference count of a blob that is not there is left alone by one and an error for the other.\<close>

fun names_known :: "tx_op \<Rightarrow> meta_db \<Rightarrow> bool" where
  "names_known (TxIncrementRefCount h) db = has_blob h db"
| "names_known _ db = True"

text \<open>Only the memory repository fills in the files of a package it locks.\<close>

fun observe :: "tx_val \<Rightarrow> tx_val" where
  "observe (VPackage p) = VPackage (map_option erase_files p)"
| "observe v = v"

fun run_ops :: "('op \<Rightarrow> 's \<Rightarrow> ('s, 'v) result) \<Rightarrow> 'op list \<Rightarrow> 's \<Rightarrow> ('s, 'v list) result" where
  "run_ops f [] s = (Inr [], s)"
| "run_ops f (x # xs) s = tryE (f x s) (\<lambda>v s. tryE (run_ops f xs s) (\<lambda>vs s. (Inr (v # vs), s)))"

fun guarded :: "('op \<Rightarrow> 's \<Rightarrow> bool) \<Rightarrow> ('op \<Rightarrow> 's \<Rightarrow> ('s, 'v) result) \<Rightarrow> 'op list \<Rightarrow> 's \<Rightarrow> bool" where
  "guarded g f [] s = True"
| "guarded g f (x # xs) s = (g x s \<and> guarded g f xs (snd (f x s)))"

text \<open>A forward simulation of one interface by another, step by step, extends to runs.\<close>

locale forward_sim =
  fixes stepA :: "'op \<Rightarrow> 'a \<Rightarrow> ('a, 'v) result" and stepC :: "'op \<Rightarrow> 'c \<Rightarrow> ('c, 'v) result"
    and R :: "'a \<Rightarrow> 'c \<Rightarrow> bool" and guard :: "'op \<Rightarrow> 'a \<Rightarrow> bool" and obs :: "'v \<Rightarrow> 'w"
  assumes step: "R a c \<Longrightarrow> guard x a \<Longrightarrow> stepA x a = (Inr v, a')
    \<Longrightarrow> \<exists>w c'. stepC x c = (Inr w, c') \<and> obs w = obs v \<and> R a' c'"
begin

lemma run:
  assumes "R a c" and "guarded guard stepA xs a" and "run_ops stepA xs a = (Inr vs, a')"
  shows "\<exists>ws c'. run_ops stepC xs c = (Inr ws, c') \<and> map obs ws = map obs vs \<and> R a' c'"
  using assms
proof (induction xs arbitrary: a c vs)
  case Nil
  then show ?case by simp
next
  case (Cons x xs)
  from Cons.prems(3) obtain v a1 us where x: "stepA x a = (Inr v, a1)" and xs: "run_ops stepA xs a1 = (Inr us, a')"
    and vs: "vs = v # us" by (auto simp: tryE_Inr_iff)
  from step [OF Cons.prems(1) _ x] Cons.prems(2) obtain w c1
    where w: "stepC x c = (Inr w, c1)" "obs w = obs v" "R a1 c1" by auto
  have "guarded guard stepA xs a1" using Cons.prems(2) x by simp
  from Cons.IH [OF w(3) this xs] w vs show ?case by auto
qed

end

lemma retE_Inr: "retE g r = (Inr y, t) \<longleftrightarrow> (\<exists>x. r = (Inr x, t) \<and> y = g x)"
  by (auto simp: retE_def tryE_Inr_iff)

lemma retE_pair: "retE g (Inr x, s) = (Inr (g x), s)"
  by (simp add: retE_def)

lemma sim_blob: "sim db m \<Longrightarrow> map_of (mr_blobs m) h = find_blob h db"
  by (simp add: sim_def)

lemma sim_has_blob: "sim db m \<Longrightarrow> has_blob h db \<Longrightarrow> \<exists>b. map_of (mr_blobs m) h = Some b"
  using find_blob_None [of h db] by (auto simp: sim_blob)

lemma sim_has_package: "sim db m \<Longrightarrow> has_package i db \<Longrightarrow> \<exists>p. map_of (mr_pkgs m) i = Some p"
proof -
  assume s: "sim db m" and "has_package i db"
  then have "find_package i db \<noteq> None" by (simp add: find_package_None)
  moreover have "map_option erase_files (map_of (mr_pkgs m) i) = find_package i db" using s by (simp add: sim_def)
  ultimately show ?thesis by auto
qed

lemma sim_bump_absent: "sim db m \<Longrightarrow> \<not> has_blob h db \<Longrightarrow> bump_ref h db = db"
proof -
  assume "\<not> has_blob h db"
  then have "map (bump h) (content_blobs db) = content_blobs db"
    by (intro map_idI) (auto simp: bump_def has_blob_def list_ex_iff)
  then show ?thesis by (simp add: bump_ref_def)
qed

text \<open>Each operation.\<close>

lemma step_GetBlob:
  assumes "sim db m" and "tx_GetBlob h db = (Inr v, db')"
  shows "memTx_GetBlob h m = (Inr v, m) \<and> sim db' m"
  using assms(2) sim_take_fault [OF assms(1)] sim_blob [of db' m h]
  by (auto simp: tx_GetBlob_def memTx_GetBlob_def elim!: tx_stmt_Inr)

lemma step_InsertBlob:
  assumes "sim db m" and "tx_InsertBlob b db = (Inr v, db')"
  shows "\<exists>m'. memTx_InsertBlob b m = (Inr (), m') \<and> sim db' m'"
  using assms(2) sim_take_fault [OF assms(1)]
  by (auto simp: tx_InsertBlob_def insert_blob_def memTx_InsertBlob_def split: if_splits intro!: sim_add_blob elim!: tx_stmt_Inr)

lemma step_InsertBlobOrIncrement:
  assumes "sim db m" and "tx_InsertBlobOrIncrement b db = (Inr v, db')"
  shows "\<exists>m'. memTx_InsertBlobOrIncrement b m = (Inr v, m') \<and> sim db' m'"
proof -
  from assms(2) obtain d where d: "md_take_fault db = (Pass, d)" and t: "blob_types b"
    and f: "if has_blob (ContentHash b) d then v = False \<and> db' = bump_ref (ContentHash b) d
      else v = True \<and> db' = d\<lparr>content_blobs := content_blobs d @ [b]\<rparr>"
    unfolding tx_InsertBlobOrIncrement_def by (auto elim!: tx_stmt_Inr split: if_splits)
  have s: "sim d m" by (rule sim_take_fault [OF assms(1) d])
  show ?thesis
  proof (cases "has_blob (ContentHash b) d")
    case True
    then obtain o1 where "map_of (mr_blobs m) (ContentHash b) = Some o1" using sim_has_blob [OF s] by blast
    with True f sim_bump [OF s this] show ?thesis by (simp add: memTx_InsertBlobOrIncrement_def)
  next
    case False
    then have "map_of (mr_blobs m) (ContentHash b) = None" using sim_blob [OF s] find_blob_None by simp
    with False f sim_add_blob [OF s False] show ?thesis by (simp add: memTx_InsertBlobOrIncrement_def)
  qed
qed

lemma step_IncrementRefCount:
  assumes "sim db m" and "has_blob h db" and "tx_IncrementRefCount h db = (Inr v, db')"
  shows "\<exists>m'. memTx_IncrementRefCount h m = (Inr (), m') \<and> sim db' m'"
proof -
  from assms(3) obtain d where d: "md_take_fault db = (Pass, d)" and db': "db' = bump_ref h d"
    unfolding tx_IncrementRefCount_def by (auto elim!: tx_stmt_Inr)
  have s: "sim d m" by (rule sim_take_fault [OF assms(1) d])
  obtain b where b: "map_of (mr_blobs m) h = Some b" using sim_has_blob [OF assms(1,2)] by blast
  from sim_bump [OF s b] db' b show ?thesis by (simp add: memTx_IncrementRefCount_def)
qed

lemma step_IncrementRefCountIfExists:
  assumes "sim db m" and "tx_IncrementRefCountIfExists h db = (Inr v, db')"
  shows "\<exists>m'. memTx_IncrementRefCountIfExists h m = (Inr v, m') \<and> sim db' m'"
proof -
  from assms(2) obtain d where d: "md_take_fault db = (Pass, d)" and db': "v = has_blob h d" "db' = bump_ref h d"
    unfolding tx_IncrementRefCountIfExists_def by (auto elim!: tx_stmt_Inr)
  have s: "sim d m" by (rule sim_take_fault [OF assms(1) d])
  show ?thesis
  proof (cases "has_blob h d")
    case True
    then obtain b where b: "map_of (mr_blobs m) h = Some b" using sim_has_blob [OF s] by blast
    from sim_bump [OF s b] db' b True show ?thesis by (simp add: memTx_IncrementRefCountIfExists_def)
  next
    case False
    then have "map_of (mr_blobs m) h = None" using sim_blob [OF s] find_blob_None by simp
    with sim_bump_absent [OF s False] db' s False show ?thesis by (simp add: memTx_IncrementRefCountIfExists_def)
  qed
qed

lemma step_CreatePackage:
  assumes "sim db m" and "tx_CreatePackage inp db = (Inr v, db')"
  shows "\<exists>m'. memTx_CreatePackage inp m = (Inr v, m') \<and> sim db' m'"
proof -
  from assms(2) obtain d where d: "md_take_fault db = (Pass, d)"
    and f: "(case md_now (d\<lparr>seq_packages := seq_packages d + 1\<rparr>) of (t, db) \<Rightarrow>
     (let p = new_package (seq_packages db) t inp in
      if package_accepted p db \<and> \<not> has_package (pk_ID p) db
      then (Inr (pk_ID p), db\<lparr>packages := packages db @ [p]\<rparr>) else (Inl violation, db))) = (Inr v, db')"
    unfolding tx_CreatePackage_def by (rule tx_stmt_Inr)
  have s: "sim d m" by (rule sim_take_fault [OF assms(1) d])
  obtain t' d1 where n: "md_now (d\<lparr>seq_packages := seq_packages d + 1\<rparr>) = (t', d1)" by fastforce
  obtain t m1 where mn: "mr_now (m\<lparr>nextPkg := nextPkg m + 1\<rparr>) = (t, m1)" by fastforce
  have v: "v = seq_packages d1" "db' = d1\<lparr>packages := packages d1 @ [new_package (seq_packages d1) t' inp]\<rparr>"
    using f n by (auto simp: Let_def new_package_def split: if_splits)
  have "nextPkg m = seq_packages d1" using s md_now_tables [OF n] by (simp add: sim_def)
  with sim_add_package [OF s mn n, of inp] v mn show ?thesis by (auto simp: memTx_CreatePackage_def Let_def)
qed

lemma step_CreatePackageFile:
  assumes "sim db m" and "tx_CreatePackageFile i inp db = (Inr v, db')"
  shows "\<exists>m'. memTx_CreatePackageFile i inp m = (Inr v, m') \<and> sim db' m'"
proof -
  define mkf where "mkf = (\<lambda>d::meta_db. new_file (seq_files d + 1) i inp)"
  from assms(2) obtain d where d: "md_take_fault db = (Pass, d)"
    and acc: "file_accepted (mkf d) (package_files d) (d\<lparr>seq_files := seq_files d + 1\<rparr>)"
    and v: "v = seq_files d + 1" and db': "db' = d\<lparr>seq_files := seq_files d + 1, package_files := package_files d @ [mkf d]\<rparr>"
    unfolding tx_CreatePackageFile_def Let_def mkf_def by (auto elim!: tx_stmt_Inr split: if_splits simp: new_file_def)
  have s: "sim d m" by (rule sim_take_fault [OF assms(1) d])
  have acc': "file_accepted (mkf d) (package_files d) d" using acc by (simp add: file_accepted_def has_blob_def has_package_def)
  then have hb: "has_blob (fi_BlobHash inp) d" and hp: "has_package i d" by (simp_all add: file_accepted_def mkf_def new_file_def)
  obtain b where b: "map_of (mr_blobs m) (fi_BlobHash inp) = Some b" using sim_has_blob [OF s hb] by blast
  obtain p where p: "map_of (mr_pkgs m) i = Some p" using sim_has_package [OF s hp] by blast
  have nf: "nextFile m = seq_files d + 1" using s by (simp add: sim_def)
  have "sim db' (m\<lparr>nextFile := nextFile m + 1, mr_files := AList.update (pf_ID (mkf d)) ((mkf d)\<lparr>pf_Size := BlobSize b\<rparr>) (mr_files m),
        mr_pkgs := AList.update (pf_PackageID (mkf d)) (p\<lparr>Files := fs\<rparr>) (mr_pkgs m)\<rparr>)" for fs
    unfolding db' by (rule sim_add_file [OF s acc']) (use b p in \<open>simp_all add: mkf_def new_file_def\<close>)
  then show ?thesis using b p v nf by (simp add: memTx_CreatePackageFile_def Let_def mkf_def new_file_def)
qed

lemma step_UpdatePackageAfterUnpack:
  assumes "sim db m" and "tx_UpdatePackageAfterUnpack i mode n err db = (Inr v, db')"
  shows "\<exists>m'. memTx_UpdatePackageAfterUnpack i mode n err m = (Inr v, m') \<and> sim db' m'"
proof -
  from assms(2) obtain d where d: "md_take_fault db = (Pass, d)"
    and v: "v = list_ex (\<lambda>p. pk_ID p = i \<and> StorageMode p = ''raw_large'') (packages d)"
    and db': "db' = d\<lparr>packages := map (after_unpack i mode n err) (packages d)\<rparr>"
    unfolding tx_UpdatePackageAfterUnpack_def by (auto elim!: tx_stmt_Inr split: if_splits)
  have s: "sim d m" by (rule sim_take_fault [OF assms(1) d])
  have r: "map_option erase_files (map_of (mr_pkgs m) i) = find_package i d" using s by (simp add: sim_def)
  have dist: "distinct (map pk_ID (packages d))" using s by (simp add: sim_def md_wf_def)
  show ?thesis
  proof (cases "\<exists>p. map_of (mr_pkgs m) i = Some p \<and> StorageMode p = ''raw_large''")
    case True
    then obtain p where p: "map_of (mr_pkgs m) i = Some p" "StorageMode p = ''raw_large''" by blast
    then have "find_package i d = Some (erase_files p)" using r by simp
    then have "v" using v p(2) by (auto simp: find_package_def erase_files_def list_ex_iff dest!: find_SomeD)
    with p sim_update_package [OF s p] db' show ?thesis by (simp add: memTx_UpdatePackageAfterUnpack_def)
  next
    case False
    have none: "\<not> (pk_ID q = i \<and> StorageMode q = ''raw_large'')" if "q \<in> set (packages d)" for q
    proof
      assume q: "pk_ID q = i \<and> StorageMode q = ''raw_large''"
      then have "find_package i d \<noteq> None" using that by (auto simp: find_package_def find_None_iff)
      then obtain q' where q': "find_package i d = Some q'" by blast
      then have "q' \<in> set (packages d)" "pk_ID q' = i" by (auto simp: find_package_def dest: find_SomeD)
      with dist that q have "q' = q" by (auto simp: distinct_map dest: inj_onD)
      with r q' False q show False by (auto simp: erase_files_def)
    qed
    then have "map (after_unpack i mode n err) (packages d) = packages d" by (intro map_idI) (auto simp: after_unpack_def)
    moreover have "\<not> v" using v none by (auto simp: list_ex_iff)
    ultimately show ?thesis using s db' False by (auto simp: memTx_UpdatePackageAfterUnpack_def split: option.split)
  qed
qed

lemma step_GetPackageForUpdate:
  assumes "sim db m" and "tx_GetPackageForUpdate i db = (Inr v, db')"
  shows "\<exists>w. memTx_GetPackageForUpdate i m = (Inr w, m) \<and> map_option erase_files w = map_option erase_files v \<and> sim db' m"
proof -
  from assms(2) obtain d where d: "md_take_fault db = (Pass, d)" and v: "v = find_package i d" "db' = d"
    unfolding tx_GetPackageForUpdate_def by (auto elim!: tx_stmt_Inr)
  have s: "sim d m" by (rule sim_take_fault [OF assms(1) d])
  have "map_option erase_files (map_of (mr_pkgs m) i) = find_package i d" using s by (simp add: sim_def)
  then have "map_option erase_files v = map_option erase_files (map_of (mr_pkgs m) i)"
    unfolding v by (cases "map_of (mr_pkgs m) i") (auto simp: erase_files_def dest: sym)
  with s v show ?thesis
    by (cases "map_of (mr_pkgs m) i") (auto simp: memTx_GetPackageForUpdate_def erase_files_def)
qed

interpretation mem_sim: forward_sim pg_op mem_op sim names_known observe
proof (unfold_locales, goal_cases)
  case (1 db m x v db')
  show ?case
  proof (cases x)
    case (TxGetPackageForUpdate i)
    with 1(3) obtain p where "tx_GetPackageForUpdate i db = (Inr p, db')" "v = VPackage p" by (auto simp: retE_Inr)
    with step_GetPackageForUpdate [OF 1(1)] TxGetPackageForUpdate show ?thesis by (fastforce simp: retE_def)
  next
    case (TxIncrementRefCount h)
    with 1 obtain y where "tx_IncrementRefCount h db = (Inr y, db')" "v = VUnit" "has_blob h db" by (auto simp: retE_Inr)
    with step_IncrementRefCount [OF 1(1)] TxIncrementRefCount show ?thesis by (fastforce simp: retE_def)
  next
    case (TxInsertBlob b)
    with 1(3) obtain y where "tx_InsertBlob b db = (Inr y, db')" "v = VUnit" by (auto simp: retE_Inr)
    with step_InsertBlob [OF 1(1)] TxInsertBlob show ?thesis by (fastforce simp: retE_def)
  qed (use 1(3) in \<open>auto simp: retE_Inr retE_pair dest!: step_GetBlob [OF 1(1)] step_InsertBlobOrIncrement [OF 1(1)]
        step_IncrementRefCountIfExists [OF 1(1)] step_CreatePackage [OF 1(1)] step_CreatePackageFile [OF 1(1)]
        step_UpdatePackageAfterUnpack [OF 1(1)]\<close>)
qed

lemma md_wf_pg_op: "md_wf db \<Longrightarrow> md_wf (snd (pg_op x db))"
proof -
  assume w: "md_wf db"
  have ret: "md_wf (snd (retE g r))" if "md_wf (snd r)" for g :: "'b \<Rightarrow> tx_val" and r :: "(meta_db, 'b) result"
    unfolding retE_def by (rule tryE_inv [where P = md_wf]) (use that in auto)
  show ?thesis using w
    by (cases x) (auto intro!: ret simp: md_wf_ops tx_GetBlob_def tx_GetPackageForUpdate_def)
qed

text \<open>
  The body of a transaction: a closure that calls operations of the transaction one after another,
  sees every answer, errors included, decides by them how to go on, and in the end returns a value
  or an error, one of the database's or its own.
\<close>

datatype 'a tx_prog = Return "error + 'a" | Call tx_op "error + tx_val \<Rightarrow> 'a tx_prog"

primrec run_prog :: "'a tx_prog \<Rightarrow> meta_db \<Rightarrow> (meta_db, 'a) result" where
  "run_prog (Return r) db = (r, db)"
| "run_prog (Call x k) db = (case pg_op x db of (r, db') \<Rightarrow> run_prog (k r) db')"

lemma md_wf_run_prog: "md_wf db \<Longrightarrow> md_wf (snd (run_prog p db))"
proof (induction p arbitrary: db)
  case (Call x k)
  then show ?case using md_wf_pg_op [of db x] by (cases "pg_op x db") simp
qed simp

definition same_meta :: "meta_db \<Rightarrow> meta_db \<Rightarrow> bool" where
  "same_meta db db' \<longleftrightarrow> content_blobs db' = content_blobs db \<and> packages db' = packages db
     \<and> package_files db' = package_files db \<and> supplier_stats db' = supplier_stats db \<and> dictionaries db' = dictionaries db"

lemma tx_begin_Inr: "tx_begin db = (Inr old, d) \<Longrightarrow> old\<lparr>md_aborted := False\<rparr> = d \<and> same_meta db old \<and> same_meta db d
    \<and> seq_packages d = seq_packages db \<and> seq_files d = seq_files db \<and> \<not> md_aborted d"
  by (auto simp: tx_begin_def same_meta_def md_take_fault_def split: prod.splits fault.splits)

lemma tx_begin_Inl: "tx_begin db = (Inl e, d) \<Longrightarrow> same_meta db d \<and> seq_packages d = seq_packages db \<and> seq_files d = seq_files db"
  by (auto simp: tx_begin_def same_meta_def md_take_fault_def split: prod.splits fault.splits)

lemma tx_end_cases:
  assumes "tx_end old r db = (q, db')"
  shows "(\<exists>e. q = Inl e) \<and> same_meta old db' \<and> seq_packages db' = seq_packages db \<and> seq_files db' = seq_files db
    \<or> (\<exists>x. r = Inr x \<and> same_meta db db' \<and> seq_packages db' = seq_packages db \<and> seq_files db' = seq_files db
         \<and> (q = Inr x \<or> (\<exists>e. q = Inl e)))"
  using assms
  by (auto simp: tx_end_def same_meta_def restore_tables_def md_take_fault_def
      split: sum.splits if_splits prod.splits fault.splits nat.splits)

lemma WithTx_cases:
  assumes "WithTx body db = (q, db')"
  shows "(\<exists>e. q = Inl e) \<and> same_meta db db' \<and> (seq_packages db' = seq_packages db \<and> seq_files db' = seq_files db
        \<or> (\<exists>d. seq_packages d = seq_packages db \<and> seq_files d = seq_files db
             \<and> seq_packages db' = seq_packages (snd (body d)) \<and> seq_files db' = seq_files (snd (body d))))
    \<or> (\<exists>d x d'. same_meta db d \<and> seq_packages d = seq_packages db \<and> seq_files d = seq_files db \<and> body d = (Inr x, d')
         \<and> same_meta d' db' \<and> seq_packages db' = seq_packages d' \<and> seq_files db' = seq_files d' \<and> (q = Inr x \<or> (\<exists>e. q = Inl e)))"
proof (cases "tx_begin db")
  case (Pair b d)
  show ?thesis
  proof (cases b)
    case (Inl e)
    with assms Pair tx_begin_Inl [of db e d] show ?thesis by (auto simp: WithTx_def)
  next
    case (Inr old)
    obtain r d' where bd: "body d = (r, d')" by fastforce
    with assms Pair Inr have e: "tx_end old r d' = (q, db')" by (simp add: WithTx_def)
    have b: "same_meta db old" "same_meta db d" "seq_packages d = seq_packages db" "seq_files d = seq_files db"
      using tx_begin_Inr [of db old d] Pair Inr by auto
    from tx_end_cases [OF e] show ?thesis
    proof
      assume "(\<exists>e. q = Inl e) \<and> same_meta old db' \<and> seq_packages db' = seq_packages d' \<and> seq_files db' = seq_files d'"
      with b bd have "(\<exists>e. q = Inl e) \<and> same_meta db db'" and "seq_packages db' = seq_packages (snd (body d))"
        and "seq_files db' = seq_files (snd (body d))" by (auto simp: same_meta_def)
      with b show ?thesis by blast
    next
      assume "\<exists>x. r = Inr x \<and> same_meta d' db' \<and> seq_packages db' = seq_packages d' \<and> seq_files db' = seq_files d'
         \<and> (q = Inr x \<or> (\<exists>e. q = Inl e))"
      with b bd show ?thesis by blast
    qed
  qed
qed

lemma tx_stmt_seq:
  assumes "\<And>d. seq_packages d \<le> seq_packages (snd (f d)) \<and> seq_files d \<le> seq_files (snd (f d))"
  shows "seq_packages db \<le> seq_packages (snd (tx_stmt f db)) \<and> seq_files db \<le> seq_files (snd (tx_stmt f db))"
proof -
  obtain fl d where fl: "md_take_fault db = (fl, d)" by fastforce
  have "seq_packages d = seq_packages db" "seq_files d = seq_files db" using md_take_fault_tables [OF fl] by simp_all
  with fl assms [of d] show ?thesis by (cases "f d") (auto simp: tx_stmt_def split: fault.split sum.split)
qed

lemma seq_mono_op: "seq_packages db \<le> seq_packages (snd (pg_op x db)) \<and> seq_files db \<le> seq_files (snd (pg_op x db))"
proof -
  have ret: "snd (retE g r) = snd r" for g :: "'b \<Rightarrow> tx_val" and r :: "(meta_db, 'b) result"
    by (cases r rule: prod.exhaust; cases "fst r") (auto simp: retE_def)
  have now: "seq_packages d' = seq_packages d \<and> seq_files d' = seq_files d" if "md_now d = (t, d')" for d t d'
    using md_now_tables [OF that] by simp
  show ?thesis
    by (cases x)
      (auto simp: ret tx_GetBlob_def tx_GetPackageForUpdate_def tx_InsertBlob_def insert_blob_def tx_InsertBlobOrIncrement_def
        tx_IncrementRefCount_def tx_IncrementRefCountIfExists_def tx_CreatePackage_def tx_CreatePackageFile_def
        tx_UpdatePackageAfterUnpack_def Let_def
        intro!: tx_stmt_seq [THEN conjunct1] tx_stmt_seq [THEN conjunct2] split: prod.split dest!: now)
qed

lemma seq_mono_prog: "seq_packages db \<le> seq_packages (snd (run_prog p db)) \<and> seq_files db \<le> seq_files (snd (run_prog p db))"
proof (induction p arbitrary: db)
  case (Call x k)
  obtain r d where d: "pg_op x db = (r, d)" by fastforce
  have "seq_packages d \<le> seq_packages (snd (run_prog (k r) d)) \<and> seq_files d \<le> seq_files (snd (run_prog (k r) d))"
    by (rule Call) simp
  then show ?case using seq_mono_op [of db x] d by auto
qed simp

lemma WithTx_md_wf:
  assumes "md_wf db" and "WithTx (run_prog p) db = (q, db')"
  shows "md_wf db'"
  using WithTx_cases [OF assms(2)]
proof
  assume c: "(\<exists>e. q = Inl e) \<and> same_meta db db' \<and> (seq_packages db' = seq_packages db \<and> seq_files db' = seq_files db
      \<or> (\<exists>d. seq_packages d = seq_packages db \<and> seq_files d = seq_files db
           \<and> seq_packages db' = seq_packages (snd (run_prog p d)) \<and> seq_files db' = seq_files (snd (run_prog p d))))"
  then have "seq_packages db \<le> seq_packages db' \<and> seq_files db \<le> seq_files db'" by (metis seq_mono_prog order_refl)
  with c show ?thesis using md_wf_cong [OF _ _ _ _ _ assms(1), of db'] by (auto simp: same_meta_def)
next
  assume "\<exists>d x d'. same_meta db d \<and> seq_packages d = seq_packages db \<and> seq_files d = seq_files db \<and> run_prog p d = (Inr x, d')
       \<and> same_meta d' db' \<and> seq_packages db' = seq_packages d' \<and> seq_files db' = seq_files d' \<and> (q = Inr x \<or> (\<exists>e. q = Inl e))"
  then obtain d x d' where d: "same_meta db d" "seq_packages d = seq_packages db" "seq_files d = seq_files db"
    "run_prog p d = (Inr x, d')" "same_meta d' db'" "seq_packages db' = seq_packages d'" "seq_files db' = seq_files d'" by blast
  have "md_wf d" using md_wf_cong [OF _ _ _ _ _ assms(1), of d] d by (simp add: same_meta_def)
  then have "md_wf d'" using md_wf_run_prog [of d p] d(4) by simp
  then show ?thesis using md_wf_cong [of db' d'] d by (simp add: same_meta_def)
qed

text \<open>
  C11 (safety). A transaction is all or nothing, whatever its body does and wherever it fails. When
  \<open>Begin\<close> fails, or the body returns an error, its own or the database's and after any number of
  statements that succeeded, \<open>WithTx\<close> returns that error and the tables are as they were. When
  the body succeeds, the tables are as it left them and its value is returned, or an error of the
  commit is returned and the tables are as they were or, if only the commit's answer was lost, as
  the body left them; a body that went on after a failed statement is never committed. The tables
  stay well-formed: keys unique, files of known packages and blobs, ids within their sequences.
\<close>

theorem WithTx_atomic_well_formed:
  assumes "md_wf db" and "WithTx (run_prog p) db = (q, db')"
  shows "md_wf db' \<and> (case tx_begin db of
       (Inl e, _) \<Rightarrow> q = Inl e \<and> same_meta db db'
     | (Inr _, d) \<Rightarrow> (case run_prog p d of
           (Inl e, _) \<Rightarrow> q = Inl e \<and> same_meta db db'
         | (Inr x, d') \<Rightarrow> (if md_aborted d' then (\<exists>e. q = Inl e) \<and> same_meta db db'
             else q = Inr x \<and> same_meta d' db' \<or> (\<exists>e. q = Inl e) \<and> (same_meta db db' \<or> same_meta d' db'))))"
proof -
  have undo: "same_meta db (restore_tables old d')" if "tx_begin db = (Inr old, d)" for old d d'
    using tx_begin_Inr [OF that] by (simp add: same_meta_def restore_tables_def)
  have "case tx_begin db of
       (Inl e, _) \<Rightarrow> q = Inl e \<and> same_meta db db'
     | (Inr _, d) \<Rightarrow> (case run_prog p d of
           (Inl e, _) \<Rightarrow> q = Inl e \<and> same_meta db db'
         | (Inr x, d') \<Rightarrow> (if md_aborted d' then (\<exists>e. q = Inl e) \<and> same_meta db db'
             else q = Inr x \<and> same_meta d' db' \<or> (\<exists>e. q = Inl e) \<and> (same_meta db db' \<or> same_meta d' db')))"
  proof (cases "tx_begin db")
    case (Pair b d)
    show ?thesis
    proof (cases b)
      case (Inl e)
      then show ?thesis using Pair assms(2) tx_begin_Inl [of db e d] by (simp add: WithTx_def)
    next
      case (Inr old)
      obtain r d' where r: "run_prog p d = (r, d')" by fastforce
      then have "tx_end old r d' = (q, db')" using Pair Inr assms(2) by (simp add: WithTx_def)
      then show ?thesis using Pair Inr r undo [of old d]
        by (cases r) (auto simp: tx_end_def md_take_fault_def same_meta_def split: if_splits prod.splits fault.splits nat.splits)
    qed
  qed
  with WithTx_md_wf [OF assms] show ?thesis by blast
qed

definition empty_meta :: "time list \<Rightarrow> meta_db" where
  "empty_meta clock = \<lparr>content_blobs = [], packages = [], package_files = [], supplier_stats = [], dictionaries = [],
     seq_packages = 0, seq_files = 0, md_faults = [], md_clock = clock, md_aborted = False\<rparr>"

definition sample_blob :: ContentBlob where
  "sample_blob = \<lparr>ContentHash = [1, 2], BlobSize = 5, StoredSize = 17, cb_SegmentID = 0, cb_Offset = 0, RefCount = 1, FirstSeenAt = 3\<rparr>"

definition sample_ops :: "tx_op list" where
  "sample_ops = [TxInsertBlobOrIncrement sample_blob,
     TxCreatePackage \<lparr>ci_SupplierID = 7, ci_PackageHash = [9], ci_PayloadType = ''xml'', ci_StorageMode = ''single'',
       ci_OriginalFilename = None, ci_CanonicalPackageID = None, ci_FileCount = 1, ci_UnpackError = None\<rparr>,
     TxCreatePackageFile 1 \<lparr>fi_BlobHash = [1, 2], fi_Role = ''original'', fi_OriginalFilename = None, fi_SequenceNumber = None\<rparr>,
     TxIncrementRefCount [1, 2], TxGetBlob [1, 2]]"

text \<open>A body that inserts a blob and then returns an error of its own: the insert is undone.\<close>

definition quitting_body :: "unit tx_prog" where
  "quitting_body = Call (TxInsertBlobOrIncrement sample_blob) (\<lambda>_. Return (Inl (Err ''package has no original'')))"

theorem WithTx_atomic_well_formed_witness:
  "length (content_blobs (snd (run_prog quitting_body (empty_meta [4])))) = 1
    \<and> fst (WithTx (run_prog quitting_body) (empty_meta [4])) = Inl (Err ''package has no original'')
    \<and> content_blobs (snd (WithTx (run_prog quitting_body) (empty_meta [4]))) = []"
proof -
  obtain q db' where w: "WithTx (run_prog quitting_body) (empty_meta [4]) = (q, db')" by fastforce
  have wf: "md_wf (empty_meta [4])" by (simp add: md_wf_def empty_meta_def)
  have b: "tx_begin (empty_meta [4]) = (Inr (empty_meta [4]), empty_meta [4])"
    by (simp add: tx_begin_def md_take_fault_def empty_meta_def)
  have p: "fst (run_prog quitting_body (empty_meta [4])) = Inl (Err ''package has no original'')"
    "length (content_blobs (snd (run_prog quitting_body (empty_meta [4])))) = 1" by code_simp+
  with WithTx_atomic_well_formed [OF wf w] b w show ?thesis
    by (cases "run_prog quitting_body (empty_meta [4])") (simp add: same_meta_def empty_meta_def)
qed

text \<open>
  C12 (refinement). The memory repository refines the transaction interface of the PostgreSQL
  repository on the runs that never increment the reference count of a blob that is not there
  (PostgreSQL reports success for that, the memory repository an error): every such run of
  operations that PostgreSQL carries out is carried out by the memory repository, from related
  states to related states, and with the same answers up to the list of files of a locked
  package, which only the memory repository fills in.
\<close>

theorem memory_refines_postgres:
  assumes "sim db m" and "guarded names_known pg_op ops db" and "run_ops pg_op ops db = (Inr vs, db')"
  shows "\<exists>ws m'. run_ops mem_op ops m = (Inr ws, m') \<and> map observe ws = map observe vs \<and> sim db' m'"
  using assms by (rule mem_sim.run)

theorem memory_refines_postgres_witness:
  "\<exists>ws m'. run_ops mem_op sample_ops (NewMemoryRepository [4]) = (Inr ws, m')
     \<and> map observe ws = [VBool True, VInt 1, VInt 1, VUnit, VBlob (Some (sample_blob\<lparr>RefCount := 2\<rparr>))]"
proof -
  let ?db = "empty_meta [4]"
  have s: "sim ?db (NewMemoryRepository [4])"
    by (simp add: sim_def md_wf_def empty_meta_def NewMemoryRepository_def find_blob_def find_package_def find_file_def)
  have g: "guarded names_known pg_op sample_ops ?db" by code_simp
  obtain r db' where r: "run_ops pg_op sample_ops ?db = (r, db')" by fastforce
  have "fst (run_ops pg_op sample_ops ?db) = Inr [VBool True, VInt 1, VInt 1, VUnit, VBlob (Some (sample_blob\<lparr>RefCount := 2\<rparr>))]"
    by code_simp
  with r have "run_ops pg_op sample_ops ?db = (Inr [VBool True, VInt 1, VInt 1, VUnit, VBlob (Some (sample_blob\<lparr>RefCount := 2\<rparr>))], db')"
    by simp
  from memory_refines_postgres [OF s g this] show ?thesis by auto
qed

end
