(* ===== verification/Dedup.thy ===== *)
theory Dedup
  imports Meta_Refine Record_Format
begin

text \<open>
  The hot index of known content (\<^verbatim>\<open>internal/dedup\<close>): entries and their codec, the key-value
  store interface with its memory and RocksDB implementations, the Bloom filter and the index
  that combines them.

  RocksDB and the Bloom filter library are parameters: records of their operations. What the code
  relies on is stated as \<open>rocks_laws\<close> and \<open>bloom_laws\<close>.
\<close>

subsection \<open>Entries\<close>

record Entry =
  en_SegmentID :: int
  en_Offset :: int
  en_Size :: int

definition encodeEntry :: "Entry \<Rightarrow> bytes" where
  "encodeEntry e = PutUint32 (of_int (en_SegmentID e)) @ PutUint64 (of_int (en_Offset e)) @ PutUint32 (of_int (en_Size e))"

definition decodeEntry :: "bytes \<Rightarrow> error + Entry" where
  "decodeEntry data =
     (if length data < 16 then Inl (Err ''entry value too short'')
      else Inr \<lparr>en_SegmentID = uint (Uint32 (subslice 0 4 data)), en_Offset = sint (Uint64 (subslice 4 12 data)),
                en_Size = uint (Uint32 (subslice 12 16 data))\<rparr>)"

definition entry_ok :: "Entry \<Rightarrow> bool" where
  "entry_ok e \<longleftrightarrow> 0 \<le> en_SegmentID e \<and> en_SegmentID e < 2 ^ 32 \<and> - (2 ^ 63) \<le> en_Offset e \<and> en_Offset e < 2 ^ 63
     \<and> 0 \<le> en_Size e \<and> en_Size e < 2 ^ 32"

lemma length_encodeEntry [simp]: "length (encodeEntry e) = 16"
  by (simp add: encodeEntry_def)

lemma decodeEntry_encodeEntry: "entry_ok e \<Longrightarrow> decodeEntry (encodeEntry e) = Inr e"
  by (simp add: entry_ok_def encodeEntry_def decodeEntry_def subslice_def uint_word_of_int sint_sbintrunc'
      signed_take_bit_int_eq_self take_bit_int_eq_self)

interpretation entry_codec: fixed_codec encodeEntry decodeEntry entry_ok Inr 16
  by unfold_locales (auto simp: decodeEntry_encodeEntry)

subsection \<open>The store interface\<close>

record 's kvStore =
  kv_Get :: "bytes \<Rightarrow> 's \<Rightarrow> ('s, Entry option) result"
  kv_Put :: "bytes \<Rightarrow> Entry \<Rightarrow> 's \<Rightarrow> ('s, unit) result"
  kv_Clear :: "'s \<Rightarrow> ('s, unit) result"
  kv_Close :: "'s \<Rightarrow> ('s, unit) result"
  kv_Len :: "'s \<Rightarrow> ('s, int) result"

subsubsection \<open>In memory\<close>

type_synonym memoryStore = "(bytes \<times> Entry) list"

definition newMemoryStore :: memoryStore where
  "newMemoryStore = []"

definition memoryStore_Get :: "bytes \<Rightarrow> memoryStore \<Rightarrow> (memoryStore, Entry option) result" where
  "memoryStore_Get h s = (Inr (map_of s h), s)"

definition memoryStore_Put :: "bytes \<Rightarrow> Entry \<Rightarrow> memoryStore \<Rightarrow> (memoryStore, unit) result" where
  "memoryStore_Put h e s = (Inr (), AList.update h e s)"

definition memoryStore_Clear :: "memoryStore \<Rightarrow> (memoryStore, unit) result" where
  "memoryStore_Clear s = (Inr (), [])"

definition memoryStore_Close :: "memoryStore \<Rightarrow> (memoryStore, unit) result" where
  "memoryStore_Close s = (Inr (), s)"

definition memoryStore_Len :: "memoryStore \<Rightarrow> (memoryStore, int) result" where
  "memoryStore_Len s = (Inr (int (length s)), s)"

definition memory_kv :: "memoryStore kvStore" where
  "memory_kv = \<lparr>kv_Get = memoryStore_Get, kv_Put = memoryStore_Put, kv_Clear = memoryStore_Clear,
     kv_Close = memoryStore_Close, kv_Len = memoryStore_Len\<rparr>"

subsubsection \<open>RocksDB\<close>

text \<open>
  Reads and writes of the database may fail. An iteration visits a list of keys; the code does
  not ask it for an error at its end.
\<close>

record 'd rocksdb =
  gr_GetBytes :: "bytes \<Rightarrow> 'd \<Rightarrow> ('d, bytes option) result"
  gr_Put :: "bytes \<Rightarrow> bytes \<Rightarrow> 'd \<Rightarrow> ('d, unit) result"
  gr_Keys :: "'d \<Rightarrow> bytes list"
  gr_DeleteBatch :: "bytes list \<Rightarrow> 'd \<Rightarrow> ('d, unit) result"
  gr_Close :: "'d \<Rightarrow> 'd"

definition rocksDBStore_Get :: "'d rocksdb \<Rightarrow> bytes \<Rightarrow> 'd \<Rightarrow> ('d, Entry option) result" where
  "rocksDBStore_Get db h s = tryE (gr_GetBytes db h s) (\<lambda>val s. case val of
       None \<Rightarrow> (Inr None, s)
     | Some v \<Rightarrow> (case decodeEntry v of Inl err \<Rightarrow> (Inl err, s) | Inr e \<Rightarrow> (Inr (Some e), s)))"

definition rocksDBStore_Put :: "'d rocksdb \<Rightarrow> bytes \<Rightarrow> Entry \<Rightarrow> 'd \<Rightarrow> ('d, unit) result" where
  "rocksDBStore_Put db h e s = gr_Put db h (encodeEntry e) s"

definition rocksDBStore_Clear :: "'d rocksdb \<Rightarrow> 'd \<Rightarrow> ('d, unit) result" where
  "rocksDBStore_Clear db s = gr_DeleteBatch db (gr_Keys db s) s"

definition rocksDBStore_Close :: "'d rocksdb \<Rightarrow> 'd \<Rightarrow> ('d, unit) result" where
  "rocksDBStore_Close db s = (Inr (), gr_Close db s)"

definition rocksDBStore_Len :: "'d rocksdb \<Rightarrow> 'd \<Rightarrow> ('d, int) result" where
  "rocksDBStore_Len db s = (Inr (int (length (gr_Keys db s))), s)"

definition rocks_kv :: "'d rocksdb \<Rightarrow> 'd kvStore" where
  "rocks_kv db = \<lparr>kv_Get = rocksDBStore_Get db, kv_Put = rocksDBStore_Put db, kv_Clear = rocksDBStore_Clear db,
     kv_Close = rocksDBStore_Close db, kv_Len = rocksDBStore_Len db\<rparr>"

subsection \<open>The Bloom filter\<close>

record 'b bloom_lib =
  bl_New :: "u64 \<Rightarrow> rat \<Rightarrow> 'b"
  bl_Test :: "bytes \<Rightarrow> 'b \<Rightarrow> bool"
  bl_Add :: "bytes \<Rightarrow> 'b \<Rightarrow> 'b"

record 'b bloomFilter =
  bf_f :: 'b
  bf_cap :: u64

definition newBloom :: "'b bloom_lib \<Rightarrow> u64 \<Rightarrow> rat \<Rightarrow> 'b bloomFilter" where
  "newBloom bl expectedItems rate =
     (let n = (if expectedItems = 0 then 1000000 else expectedItems); r = (if rate \<le> 0 then 1 / 1000 else rate)
      in \<lparr>bf_f = bl_New bl n r, bf_cap = n\<rparr>)"

definition bloom_MightContain :: "'b bloom_lib \<Rightarrow> bytes \<Rightarrow> 'b bloomFilter \<Rightarrow> bool" where
  "bloom_MightContain bl h b = bl_Test bl h (bf_f b)"

definition bloom_Add :: "'b bloom_lib \<Rightarrow> bytes \<Rightarrow> 'b bloomFilter \<Rightarrow> 'b bloomFilter" where
  "bloom_Add bl h b = b\<lparr>bf_f := bl_Add bl h (bf_f b)\<rparr>"

definition bloom_Reset :: "'b bloom_lib \<Rightarrow> u64 \<Rightarrow> rat \<Rightarrow> 'b bloomFilter \<Rightarrow> 'b bloomFilter" where
  "bloom_Reset bl expectedItems rate b =
     (let n = (if expectedItems = 0 then bf_cap b else expectedItems); r = (if rate \<le> 0 then 1 / 1000 else rate)
      in b\<lparr>bf_f := bl_New bl n r, bf_cap := n\<rparr>)"

subsection \<open>The hot index\<close>

record ('s, 'b) HotIndex =
  backend :: string
  bloom :: "'b bloomFilter option"
  store :: "'s option"

definition HotIndex_MightContain :: "'b bloom_lib \<Rightarrow> bytes \<Rightarrow> ('s, 'b) HotIndex option \<Rightarrow> bool" where
  "HotIndex_MightContain bl h idx = (case idx of None \<Rightarrow> True | Some x \<Rightarrow>
     (case bloom x of None \<Rightarrow> True | Some b \<Rightarrow> bloom_MightContain bl h b))"

definition HotIndex_Lookup :: "'s kvStore \<Rightarrow> bytes \<Rightarrow> ('s, 'b) HotIndex option \<Rightarrow> Entry option \<times> ('s, 'b) HotIndex option" where
  "HotIndex_Lookup kv h idx = (case idx of None \<Rightarrow> (None, idx) | Some x \<Rightarrow>
     (case store x of None \<Rightarrow> (None, idx) | Some s \<Rightarrow>
       (case kv_Get kv h s of
          (Inl err, s) \<Rightarrow> (None, Some (x\<lparr>store := Some s\<rparr>))
        | (Inr e, s) \<Rightarrow> (e, Some (x\<lparr>store := Some s\<rparr>)))))"

definition HotIndex_Put ::
    "'s kvStore \<Rightarrow> 'b bloom_lib \<Rightarrow> bytes \<Rightarrow> Entry \<Rightarrow> ('s, 'b) HotIndex option \<Rightarrow> (('s, 'b) HotIndex option, unit) result" where
  "HotIndex_Put kv bl h e idx = (case idx of None \<Rightarrow> (Inr (), idx) | Some x \<Rightarrow>
     (case store x of None \<Rightarrow> (Inr (), idx) | Some s \<Rightarrow>
       (case kv_Put kv h e s of
          (Inl err, s) \<Rightarrow> (Inl err, Some (x\<lparr>store := Some s\<rparr>))
        | (Inr _, s) \<Rightarrow> (Inr (), Some (x\<lparr>store := Some s, bloom := map_option (bloom_Add bl h) (bloom x)\<rparr>)))))"

definition HotIndex_Close :: "'s kvStore \<Rightarrow> ('s, 'b) HotIndex option \<Rightarrow> (('s, 'b) HotIndex option, unit) result" where
  "HotIndex_Close kv idx = (case idx of None \<Rightarrow> (Inr (), idx) | Some x \<Rightarrow>
     (case store x of None \<Rightarrow> (Inr (), idx) | Some s \<Rightarrow> (case kv_Close kv s of (r, s) \<Rightarrow> (r, Some (x\<lparr>store := Some s\<rparr>)))))"

definition HotIndex_Len :: "'s kvStore \<Rightarrow> ('s, 'b) HotIndex option \<Rightarrow> (('s, 'b) HotIndex option, int) result" where
  "HotIndex_Len kv idx = (case idx of None \<Rightarrow> (Inr 0, idx) | Some x \<Rightarrow>
     (case store x of None \<Rightarrow> (Inr 0, idx) | Some s \<Rightarrow> (case kv_Len kv s of (r, s) \<Rightarrow> (r, Some (x\<lparr>store := Some s\<rparr>)))))"

definition openMemoryIndex :: "'b bloom_lib \<Rightarrow> u64 \<Rightarrow> rat \<Rightarrow> (memoryStore, 'b) HotIndex" where
  "openMemoryIndex bl expectedItems rate =
     \<lparr>backend = ''memory'', bloom = Some (newBloom bl expectedItems rate), store = Some newMemoryStore\<rparr>"

text \<open>Opening the database is the library's; with the build tag it yields a handle or an error.\<close>

definition openRocksDBIndex :: "error + 'd \<Rightarrow> 'b bloom_lib \<Rightarrow> u64 \<Rightarrow> rat \<Rightarrow> error + ('d, 'b) HotIndex" where
  "openRocksDBIndex opened bl expectedItems rate = (case opened of
       Inl e \<Rightarrow> Inl (Wrap ''open rocksdb: '' e [])
     | Inr d \<Rightarrow> Inr \<lparr>backend = ''rocksdb'', bloom = Some (newBloom bl expectedItems rate), store = Some d\<rparr>)"

definition openRocksDBIndex_stub :: "error + ('d, 'b) HotIndex" where
  "openRocksDBIndex_stub = Inl (Err ''rocksdb backend requires build tag -tags rocksdb and librocksdb-dev'')"

datatype ('d, 'b) opened_index = NoIndex | MemoryIndex "(memoryStore, 'b) HotIndex" | RocksIndex "('d, 'b) HotIndex"

definition Open_index :: "bool \<Rightarrow> error + 'd \<Rightarrow> 'b bloom_lib \<Rightarrow> string \<Rightarrow> u64 \<Rightarrow> rat \<Rightarrow> error + ('d, 'b) opened_index" where
  "Open_index rocks_built opened bl DedupBackend expectedItems rate =
     (if DedupBackend = [] \<or> DedupBackend = ''postgres'' then Inr NoIndex
      else if DedupBackend = ''memory'' then Inr (MemoryIndex (openMemoryIndex bl expectedItems rate))
      else if DedupBackend = ''rocksdb'' then
        (case (if rocks_built then openRocksDBIndex opened bl expectedItems rate else openRocksDBIndex_stub) of
           Inl e \<Rightarrow> Inl e | Inr x \<Rightarrow> Inr (RocksIndex x))
      else Inl (Err (''unknown dedup backend '' @ DedupBackend)))"

definition blob_entry :: "ContentBlob \<Rightarrow> Entry" where
  "blob_entry b = \<lparr>en_SegmentID = cb_SegmentID b, en_Offset = cb_Offset b, en_Size = BlobSize b\<rparr>"

fun put_blobs ::
    "'s kvStore \<Rightarrow> 'b bloom_lib \<Rightarrow> ContentBlob list \<Rightarrow> ('s, 'b) HotIndex option \<Rightarrow> (('s, 'b) HotIndex option, unit) result" where
  "put_blobs kv bl [] idx = (Inr (), idx)"
| "put_blobs kv bl (b # bs) idx =
     tryE (HotIndex_Put kv bl (ContentHash b) (blob_entry b) idx) (\<lambda>_ idx. put_blobs kv bl bs idx)"

definition clear_store :: "'s kvStore \<Rightarrow> ('s, 'b) HotIndex \<Rightarrow> (('s, 'b) HotIndex, unit) result" where
  "clear_store kv x = (case store x of None \<Rightarrow> (Inr (), x) | Some s \<Rightarrow>
     (case kv_Clear kv s of (r, s) \<Rightarrow> (r, x\<lparr>store := Some s\<rparr>)))"

definition RebuildFromPG :: "'s kvStore \<Rightarrow> 'b bloom_lib \<Rightarrow> u64 \<Rightarrow> rat \<Rightarrow> ('s, 'b) HotIndex option \<times> meta_db
    \<Rightarrow> (('s, 'b) HotIndex option \<times> meta_db, unit) result" where
  "RebuildFromPG kv bl expectedItems rate = (\<lambda>(idx, db). case idx of None \<Rightarrow> (Inr (), (idx, db)) | Some x \<Rightarrow>
     (case ListContentBlobs db of
        (Inl err, db) \<Rightarrow> (Inl err, (idx, db))
      | (Inr blobs, db) \<Rightarrow>
          (case clear_store kv x of
             (Inl err, x) \<Rightarrow> (Inl err, (Some x, db))
           | (Inr _, x) \<Rightarrow>
               (let n = (if int (length blobs) > sint expectedItems then of_nat (length blobs) else expectedItems);
                    x = x\<lparr>bloom := map_option (bloom_Reset bl n rate) (bloom x)\<rparr>
                in case put_blobs kv bl blobs (Some x) of (r, idx) \<Rightarrow> (r, (idx, db))))))"

lemma Put_shape:
  assumes "HotIndex_Put kv bl h e (Some x) = (r, idx')" and "store x \<noteq> None"
  shows "\<exists>x'. idx' = Some x' \<and> store x' \<noteq> None"
proof -
  obtain s where s: "store x = Some s" using assms(2) by blast
  obtain q s' where "kv_Put kv h e s = (q, s')" by fastforce
  with s assms(1) show ?thesis by (cases q) (auto simp: HotIndex_Put_def)
qed

subsection \<open>What a store promises\<close>

text \<open>
  \<open>content s\<close> is what the store answers. A failed write may or may not have taken effect on its
  own key, a failed \<^verbatim>\<open>Clear\<close> leaves anything.
\<close>

locale kv_store =
  fixes kv :: "'s kvStore"
    and inv :: "'s \<Rightarrow> bool"
    and content :: "'s \<Rightarrow> bytes \<rightharpoonup> Entry"
    and ok :: "Entry \<Rightarrow> bool"
  assumes get: "inv s \<Longrightarrow> kv_Get kv h s = (q, s') \<Longrightarrow> inv s' \<and> content s' = content s \<and> (\<forall>x. q = Inr x \<longrightarrow> x = content s h)"
    and put: "inv s \<Longrightarrow> ok e \<Longrightarrow> kv_Put kv h e s = (r, s') \<Longrightarrow> inv s' \<and> (\<forall>k. k \<noteq> h \<longrightarrow> content s' k = content s k)
        \<and> (r = Inr () \<longrightarrow> content s' h = Some e)"
    and clear: "inv s \<Longrightarrow> kv_Clear kv s = (r, s') \<Longrightarrow> inv s' \<and> (r = Inr () \<longrightarrow> content s' = Map.empty)"
begin

definition idx_ok :: "('s, 'b) HotIndex option \<Rightarrow> bool" where
  "idx_ok idx \<longleftrightarrow> (case idx of None \<Rightarrow> True | Some x \<Rightarrow> (case store x of None \<Rightarrow> True | Some s \<Rightarrow> inv s))"

definition known :: "('s, 'b) HotIndex option \<Rightarrow> bytes \<rightharpoonup> Entry" where
  "known idx = (case idx of None \<Rightarrow> Map.empty | Some x \<Rightarrow> (case store x of None \<Rightarrow> Map.empty | Some s \<Rightarrow> content s))"

text \<open>The filter never denies what the store has.\<close>

definition covered :: "'b bloom_lib \<Rightarrow> ('s, 'b) HotIndex option \<Rightarrow> bool" where
  "covered bl idx \<longleftrightarrow> (\<forall>h. known idx h \<noteq> None \<longrightarrow> HotIndex_MightContain bl h idx)"

lemma Lookup_known:
  assumes "idx_ok idx" and "HotIndex_Lookup kv h idx = (e, idx')"
  shows "idx_ok idx'" and "known idx' = known idx" and "e \<noteq> None \<Longrightarrow> e = known idx h"
    and "HotIndex_MightContain bl k idx' = HotIndex_MightContain bl k idx"
  using assms get
  by (auto simp: HotIndex_Lookup_def idx_ok_def known_def HotIndex_MightContain_def
      split: option.splits prod.splits sum.splits)

lemma Put_known:
  assumes "idx_ok idx" and "ok e" and "HotIndex_Put kv bl h e idx = (r, idx')"
  shows "idx_ok idx'" and "k \<noteq> h \<Longrightarrow> known idx' k = known idx k"
    and "r = Inr () \<Longrightarrow> idx = Some x \<Longrightarrow> store x \<noteq> None \<Longrightarrow> known idx' h = Some e"
  using assms put
  by (auto simp: HotIndex_Put_def idx_ok_def known_def split: option.splits prod.splits sum.splits)

end

text \<open>The Bloom filter library: an element that was added is found, also after further additions.\<close>

definition bloom_laws :: "'b bloom_lib \<Rightarrow> bool" where
  "bloom_laws bl \<longleftrightarrow> (\<forall>h f. bl_Test bl h (bl_Add bl h f)) \<and> (\<forall>h k f. bl_Test bl h f \<longrightarrow> bl_Test bl h (bl_Add bl k f))"

interpretation mem_kv: kv_store memory_kv "\<lambda>_. True" map_of "\<lambda>_. True"
  by unfold_locales
    (auto simp: memory_kv_def memoryStore_Get_def memoryStore_Put_def memoryStore_Clear_def update_conv')

text \<open>
  RocksDB: a read returns what is stored and changes nothing, a write that succeeds stores its
  value and any write leaves other keys, an iteration visits all keys, and a batch of deletions
  that succeeds removes its keys.
\<close>

definition rocks_laws :: "'d rocksdb \<Rightarrow> ('d \<Rightarrow> bytes \<rightharpoonup> bytes) \<Rightarrow> bool" where
  "rocks_laws db raw \<longleftrightarrow>
     (\<forall>h d r d'. gr_GetBytes db h d = (r, d') \<longrightarrow> raw d' = raw d \<and> (\<forall>x. r = Inr x \<longrightarrow> x = raw d h))
     \<and> (\<forall>h v d r d'. gr_Put db h v d = (r, d') \<longrightarrow> (\<forall>k. k \<noteq> h \<longrightarrow> raw d' k = raw d k)
          \<and> (raw d' h = raw d h \<or> raw d' h = Some v) \<and> (r = Inr () \<longrightarrow> raw d' h = Some v))
     \<and> (\<forall>d. set (gr_Keys db d) = dom (raw d))
     \<and> (\<forall>hs d r d'. gr_DeleteBatch db hs d = (r, d') \<longrightarrow> (\<forall>k. raw d' k = raw d k \<or> k \<in> set hs \<and> raw d' k = None)
          \<and> (r = Inr () \<longrightarrow> (\<forall>k\<in>set hs. raw d' k = None)))"

definition decoded :: "bytes option \<Rightarrow> Entry option" where
  "decoded v = (case v of None \<Rightarrow> None | Some bs \<Rightarrow> (case decodeEntry bs of Inl _ \<Rightarrow> None | Inr e \<Rightarrow> Some e))"

definition all_decode :: "('d \<Rightarrow> bytes \<rightharpoonup> bytes) \<Rightarrow> 'd \<Rightarrow> bool" where
  "all_decode raw d \<longleftrightarrow> (\<forall>h v. raw d h = Some v \<longrightarrow> 16 \<le> length v)"

lemma decoded_long: "16 \<le> length v \<Longrightarrow> \<exists>e. decodeEntry v = Inr e \<and> decoded (Some v) = Some e"
  by (simp add: decodeEntry_def decoded_def)

lemma rocks_kv_store:
  assumes "rocks_laws db raw"
  shows "kv_store (rocks_kv db) (all_decode raw) (\<lambda>d h. decoded (raw d h)) entry_ok"
proof
  fix s h r s'
  assume i: "all_decode raw s" and g: "kv_Get (rocks_kv db) h s = (r, s')"
  obtain q d where q: "gr_GetBytes db h s = (q, d)" by fastforce
  have raw: "raw d = raw s" "\<And>x. q = Inr x \<Longrightarrow> x = raw s h" using assms q by (auto simp: rocks_laws_def)
  have s': "s' = d" using g q by (cases q) (auto simp: rocks_kv_def rocksDBStore_Get_def split: option.splits sum.splits)
  have "x = decoded (raw s h)" if "r = Inr x" for x
    using that g q raw(2) by (cases q) (auto simp: rocks_kv_def rocksDBStore_Get_def decoded_def split: option.splits sum.splits)
  with raw s' i show "all_decode raw s' \<and> (\<lambda>h. decoded (raw s' h)) = (\<lambda>h. decoded (raw s h)) \<and> (\<forall>x. r = Inr x \<longrightarrow> x = decoded (raw s h))"
    by (auto simp: all_decode_def)
next
  fix s e h r s'
  assume i: "all_decode raw s" and e: "entry_ok e" and p: "kv_Put (rocks_kv db) h e s = (r, s')"
  have g: "gr_Put db h (encodeEntry e) s = (r, s')" using p by (simp add: rocks_kv_def rocksDBStore_Put_def)
  have w: "\<And>k. k \<noteq> h \<Longrightarrow> raw s' k = raw s k" "raw s' h = raw s h \<or> raw s' h = Some (encodeEntry e)"
      "r = Inr () \<Longrightarrow> raw s' h = Some (encodeEntry e)"
    using assms [unfolded rocks_laws_def, THEN conjunct2, THEN conjunct1, rule_format, OF g] by simp_all
  have long: "16 \<le> length v" if "raw s' k = Some v" for k v
  proof (cases "k = h")
    case True
    from w(2) show ?thesis
    proof
      assume "raw s' h = raw s h" with True that i show ?thesis by (simp add: all_decode_def)
    qed (use True that in auto)
  next
    case False
    with w(1) [of k] that i show ?thesis by (simp add: all_decode_def)
  qed
  have "decoded (raw s' h) = Some e" if "r = Inr ()"
    using w(3) [OF that] decodeEntry_encodeEntry [OF e] by (simp add: decoded_def)
  with w(1) long show "all_decode raw s' \<and> (\<forall>k. k \<noteq> h \<longrightarrow> decoded (raw s' k) = decoded (raw s k)) \<and> (r = Inr () \<longrightarrow> decoded (raw s' h) = Some e)"
    by (simp add: all_decode_def)
next
  fix s r s'
  assume i: "all_decode raw s" and c: "kv_Clear (rocks_kv db) s = (r, s')"
  have g: "gr_DeleteBatch db (gr_Keys db s) s = (r, s')" using c by (simp add: rocks_kv_def rocksDBStore_Clear_def)
  have k: "set (gr_Keys db s) = dom (raw s)" using assms by (simp add: rocks_laws_def)
  have w: "\<And>k. raw s' k = raw s k \<or> k \<in> set (gr_Keys db s) \<and> raw s' k = None" "r = Inr () \<Longrightarrow> \<forall>k\<in>set (gr_Keys db s). raw s' k = None"
    using assms [unfolded rocks_laws_def, THEN conjunct2, THEN conjunct2, THEN conjunct2, rule_format, OF g] by simp_all
  have "all_decode raw s'" using i w(1) unfolding all_decode_def by (metis option.distinct(1))
  moreover have "raw s' k = None" if "r = Inr ()" for k
    using w(1) [of k] w(2) [OF that] k by (cases "raw s k") auto
  ultimately show "all_decode raw s' \<and> (r = Inr () \<longrightarrow> (\<lambda>h. decoded (raw s' h)) = Map.empty)"
    by (auto simp: decoded_def)
qed

context kv_store
begin

lemma covered_Put:
  assumes "bloom_laws bl" and "idx_ok idx" and "ok e" and "HotIndex_Put kv bl h e idx = (Inr (), idx')" and "covered bl idx"
  shows "covered bl idx'"
  unfolding covered_def
proof (intro allI impI)
  fix k assume k: "known idx' k \<noteq> None"
  from assms(4) consider "idx' = idx" | x s s' where "idx = Some x" "store x = Some s" "kv_Put kv h e s = (Inr (), s')"
      "idx' = Some (x\<lparr>store := Some s', bloom := map_option (bloom_Add bl h) (bloom x)\<rparr>)"
    by (auto simp: HotIndex_Put_def split: option.splits prod.splits sum.splits)
  then show "HotIndex_MightContain bl k idx'"
  proof cases
    case 1
    with assms(5) k show ?thesis by (simp add: covered_def)
  next
    case 2
    show ?thesis
    proof (cases "k = h")
      case True
      with 2 assms(1) show ?thesis
        by (auto simp: HotIndex_MightContain_def bloom_MightContain_def bloom_Add_def bloom_laws_def split: option.splits)
    next
      case False
      then have "known idx k \<noteq> None" using Put_known(2) [OF assms(2,3,4) False] k by simp
      then have "HotIndex_MightContain bl k idx" using assms(5) by (simp add: covered_def)
      with 2 assms(1) show ?thesis
        by (auto simp: HotIndex_MightContain_def bloom_MightContain_def bloom_Add_def bloom_laws_def split: option.splits)
    qed
  qed
qed

lemma put_blobs_known:
  assumes "bloom_laws bl" and "idx_ok (Some x)" and "store x \<noteq> None" and "covered bl (Some x)"
    and "list_all (\<lambda>b. ok (blob_entry b)) bs" and "distinct (map ContentHash bs)"
    and "put_blobs kv bl bs (Some x) = (Inr (), idx')"
  shows "covered bl idx' \<and> (\<forall>h. known idx' h = (case find (\<lambda>b. ContentHash b = h) bs of
      Some b \<Rightarrow> Some (blob_entry b) | None \<Rightarrow> known (Some x) h))"
  using assms(2-7)
proof (induction bs arbitrary: x)
  case (Cons b bs)
  from Cons.prems(6) obtain i1 where p: "HotIndex_Put kv bl (ContentHash b) (blob_entry b) (Some x) = (Inr (), i1)"
    and r: "put_blobs kv bl bs i1 = (Inr (), idx')" by (auto simp: tryE_Inr_iff)
  have b: "ok (blob_entry b)" using Cons.prems(4) by simp
  obtain x1 where x1: "i1 = Some x1" "store x1 \<noteq> None" using Put_shape [OF p Cons.prems(2)] by blast
  note k = Put_known [OF Cons.prems(1) b p]
  have ih: "covered bl idx' \<and> (\<forall>h. known idx' h = (case find (\<lambda>b. ContentHash b = h) bs of
      Some b \<Rightarrow> Some (blob_entry b) | None \<Rightarrow> known (Some x1) h))"
    using Cons.IH [of x1] covered_Put [OF assms(1) Cons.prems(1) b p Cons.prems(3)] k(1) x1 r Cons.prems(4,5) by simp
  have "find (\<lambda>c. ContentHash c = ContentHash b) bs = None" using Cons.prems(5) by (auto simp: find_None_iff image_iff)
  then have "known idx' h = (case find (\<lambda>b. ContentHash b = h) (b # bs) of Some b \<Rightarrow> Some (blob_entry b) | None \<Rightarrow> known (Some x) h)" for h
    using ih k(2) [of h] k(3) [OF refl refl Cons.prems(2)] x1(1) by (cases "ContentHash b = h") (auto split: option.split)
  with ih show ?case by blast
qed simp

lemma rebuild_known:
  assumes "bloom_laws bl" and "idx_ok (Some x)" and "store x \<noteq> None" and "md_wf db"
    and "list_all (\<lambda>b. ok (blob_entry b)) (content_blobs db)"
    and "RebuildFromPG kv bl n rate (Some x, db) = (Inr (), (idx', db'))"
  shows "known idx' h = map_option blob_entry (find_blob h db)" and "covered bl idx'"
proof -
  obtain q d where l: "ListContentBlobs db = (q, d)" by fastforce
  with assms(6) obtain blobs where q: "q = Inr blobs" by (cases q) (auto simp: RebuildFromPG_def)
  have blobs: "blobs = sort_key FirstSeenAt (content_blobs db)"
    using l q by (auto simp: ListContentBlobs_def pool_stmt_def md_take_fault_def split: prod.splits fault.splits nat.splits)
  obtain c x1 where c: "clear_store kv x = (c, x1)" by fastforce
  with assms(6) l q have c1: "c = Inr ()" by (cases c) (auto simp: RebuildFromPG_def)
  obtain s s1 where s: "store x = Some s" "kv_Clear kv s = (Inr (), s1)" "x1 = x\<lparr>store := Some s1\<rparr>"
    using c c1 assms(3) by (auto simp: clear_store_def split: option.splits prod.splits)
  have inv1: "inv s1" "content s1 = Map.empty" using clear [OF _ s(2)] assms(2) s(1) by (auto simp: idx_ok_def)
  define x2 where "x2 = x1\<lparr>bloom := map_option (bloom_Reset bl
      (if int (length blobs) > sint n then of_nat (length blobs) else n) rate) (bloom x1)\<rparr>"
  have x2: "store x2 = Some s1" "put_blobs kv bl blobs (Some x2) = (Inr (), idx')"
    using assms(6) l q c c1 s(3) by (auto simp: RebuildFromPG_def Let_def x2_def split: prod.splits)
  have k2: "known (Some x2) = Map.empty" "idx_ok (Some x2)" "covered bl (Some x2)"
    using x2(1) inv1 by (simp_all add: known_def idx_ok_def covered_def)
  have "distinct (map ContentHash blobs)" "list_all (\<lambda>b. ok (blob_entry b)) blobs"
    using assms(4,5) by (auto simp: blobs md_wf_def distinct_map list_all_iff)
  note r = put_blobs_known [OF assms(1) k2(2) _ k2(3) this(2,1) x2(2)]
  have f: "find (\<lambda>b. ContentHash b = h) blobs = find_blob h db"
  proof (cases "find_blob h db")
    case None
    then have "find (\<lambda>b. ContentHash b = h) blobs = None" by (auto simp: blobs find_blob_def find_None_iff)
    with None show ?thesis by simp
  next
    case (Some b)
    then have b: "b \<in> set blobs" "ContentHash b = h" by (auto simp: find_blob_def blobs dest: find_SomeD)
    then obtain c where f: "find (\<lambda>b. ContentHash b = h) blobs = Some c" by (cases "find (\<lambda>b. ContentHash b = h) blobs") (auto simp: find_None_iff)
    then have "c \<in> set blobs" "ContentHash c = h" by (auto dest: find_SomeD)
    with b \<open>distinct (map ContentHash blobs)\<close> have "c = b" by (auto simp: distinct_map dest: inj_onD)
    with f Some show ?thesis by simp
  qed
  from r x2(1) f k2(1) show "known idx' h = map_option blob_entry (find_blob h db)"
    by (cases "find_blob h db") auto
  from r x2(1) show "covered bl idx'" by simp
qed

end


lemma RebuildFromPG_shape:
  assumes "RebuildFromPG kv bl n rate (Some x, db) = (r, (idx', db'))" and "store x \<noteq> None"
  shows "\<exists>x' s. idx' = Some x' \<and> store x' = Some s"
proof -
  have put: "\<exists>x'. snd (put_blobs kv bl bs (Some y)) = Some x' \<and> store x' \<noteq> None" if "store y \<noteq> None" for bs y
    using that
  proof (induction bs arbitrary: y)
    case (Cons b bs)
    obtain r i where p: "HotIndex_Put kv bl (ContentHash b) (blob_entry b) (Some y) = (r, i)" by fastforce
    obtain y1 where "i = Some y1" "store y1 \<noteq> None" using Put_shape [OF p Cons.prems] by blast
    with p Cons.IH [of y1] show ?case by (cases r) auto
  qed simp
  have clear: "store (snd (clear_store kv x)) \<noteq> None" using assms(2) by (auto simp: clear_store_def split: prod.splits)
  obtain q d where l: "ListContentBlobs db = (q, d)" by fastforce
  obtain c x1 where c: "clear_store kv x = (c, x1)" by fastforce
  show ?thesis
  proof (cases "\<exists>bs. q = Inr bs \<and> c = Inr ()")
    case True
    then obtain bs where b: "q = Inr bs" "c = Inr ()" by blast
    define y where "y = x1\<lparr>bloom := map_option (bloom_Reset bl (if int (length bs) > sint n then of_nat (length bs) else n) rate) (bloom x1)\<rparr>"
    have "store y \<noteq> None" using clear c by (simp add: y_def)
    moreover have "idx' = snd (put_blobs kv bl bs (Some y))"
      using assms(1) l c b by (auto simp: RebuildFromPG_def Let_def y_def split: prod.splits)
    ultimately show ?thesis using put [of y bs] by auto
  next
    case False
    with assms l c clear show ?thesis by (cases q; cases c) (auto simp: RebuildFromPG_def)
  qed
qed

subsection \<open>Properties\<close>

text \<open>
  After a successful rebuild the index with the memory backend answers for every
  hash what the table of content blobs says: the location of a known blob, nothing for an unknown
  one, and the filter admits every known hash.
\<close>

theorem rebuild_restores_memory_index:
  assumes "bloom_laws bl" and "store x \<noteq> None" and "md_wf db"
    and "RebuildFromPG memory_kv bl n rate (Some x, db) = (Inr (), (idx', db'))"
  shows "fst (HotIndex_Lookup memory_kv h idx') = map_option blob_entry (find_blob h db)
     \<and> (find_blob h db \<noteq> None \<longrightarrow> HotIndex_MightContain bl h idx')"
proof -
  have i: "mem_kv.idx_ok (Some x)" by (simp add: mem_kv.idx_ok_def split: option.split)
  have "list_all (\<lambda>b. True) (content_blobs db)" by (simp add: list_all_iff)
  note k = mem_kv.rebuild_known [OF assms(1) i assms(2,3) this assms(4)]
  obtain x' s where "idx' = Some x'" "store x' = Some s" using RebuildFromPG_shape [OF assms(4,2)] by blast
  then have "fst (HotIndex_Lookup memory_kv h idx') = mem_kv.known idx' h"
    by (simp add: HotIndex_Lookup_def mem_kv.known_def memory_kv_def memoryStore_Get_def)
  with k(1) [of h] k(2) show ?thesis by (auto simp: mem_kv.covered_def)
qed

text \<open>A Bloom filter library that remembers everything.\<close>

definition exact_bloom :: "bytes list bloom_lib" where
  "exact_bloom = \<lparr>bl_New = \<lambda>_ _. [], bl_Test = \<lambda>h f. h \<in> set f, bl_Add = Cons\<rparr>"

lemma exact_bloom_laws: "bloom_laws exact_bloom"
  by (simp add: bloom_laws_def exact_bloom_def)

definition sample_blobs :: meta_db where
  "sample_blobs = (empty_meta [])\<lparr>content_blobs := [sample_blob, sample_blob\<lparr>ContentHash := [5], cb_Offset := 17\<rparr>]\<rparr>"

lemma sample_blobs_wf: "md_wf sample_blobs"
  by (simp add: sample_blobs_def empty_meta_def sample_blob_def md_wf_def)

theorem rebuild_restores_memory_index_witness:
  "fst (HotIndex_Lookup memory_kv [5] (fst (snd (RebuildFromPG memory_kv exact_bloom 0 0
      (Some (openMemoryIndex exact_bloom 0 0), sample_blobs))))) = Some \<lparr>en_SegmentID = 0, en_Offset = 17, en_Size = 5\<rparr>"
proof -
  obtain r i d where r: "RebuildFromPG memory_kv exact_bloom 0 0 (Some (openMemoryIndex exact_bloom 0 0), sample_blobs) = (r, (i, d))"
    by (metis prod.exhaust)
  have "fst (RebuildFromPG memory_kv exact_bloom 0 0 (Some (openMemoryIndex exact_bloom 0 0), sample_blobs)) = Inr ()"
    by code_simp
  with r have r1: "RebuildFromPG memory_kv exact_bloom 0 0 (Some (openMemoryIndex exact_bloom 0 0), sample_blobs) = (Inr (), (i, d))"
    by simp
  have s: "store (openMemoryIndex exact_bloom 0 0) \<noteq> None" by (simp add: openMemoryIndex_def)
  have "map_option blob_entry (find_blob [5] sample_blobs) = Some \<lparr>en_SegmentID = 0, en_Offset = 17, en_Size = 5\<rparr>" by code_simp
  with rebuild_restores_memory_index [OF exact_bloom_laws s sample_blobs_wf r1, of "[5]"] r show ?thesis by simp
qed

text \<open>
  With the RocksDB backend, whose entries go through a fixed-width codec, a rebuilt
  index never gives a wrong location: a lookup yields what the table says, or nothing when the
  read fails, and the filter admits every known hash.
\<close>

theorem rebuild_restores_rocksdb_index:
  assumes "bloom_laws bl" and "rocks_laws db raw" and "all_decode raw d" and "store x = Some d" and "md_wf mdb"
    and "list_all (\<lambda>b. entry_ok (blob_entry b)) (content_blobs mdb)"
    and "RebuildFromPG (rocks_kv db) bl n rate (Some x, mdb) = (Inr (), (idx', mdb'))"
  shows "fst (HotIndex_Lookup (rocks_kv db) h idx') \<in> {None, map_option blob_entry (find_blob h mdb)}
     \<and> (find_blob h mdb \<noteq> None \<longrightarrow> HotIndex_MightContain bl h idx')"
proof -
  note kv = rocks_kv_store [OF assms(2)]
  have i: "kv_store.idx_ok (all_decode raw) (Some x)" using assms(3,4) by (simp add: kv_store.idx_ok_def [OF kv])
  have s: "store x \<noteq> None" using assms(4) by simp
  note k = kv_store.rebuild_known [OF kv assms(1) i s assms(5,6,7)]
  obtain x' s' where x': "idx' = Some x'" "store x' = Some s'" using RebuildFromPG_shape [OF assms(7) s] by blast
  have "kv_store.known (\<lambda>d h. decoded (raw d h)) idx' h = map_option blob_entry (find_blob h mdb)" using k(1) .
  moreover have "fst (HotIndex_Lookup (rocks_kv db) h idx') \<in> {None, decoded (raw s' h)}"
  proof -
    obtain q d' where q: "gr_GetBytes db h s' = (q, d')" by fastforce
    then have "y = raw s' h" if "q = Inr y" for y
      using assms(2) [unfolded rocks_laws_def, THEN conjunct1, rule_format, OF q] that by simp
    with q x' show ?thesis
      by (cases q) (auto simp: HotIndex_Lookup_def rocks_kv_def rocksDBStore_Get_def decoded_def split: sum.split option.split)
  qed
  moreover have "kv_store.known (\<lambda>d h. decoded (raw d h)) idx' h = decoded (raw s' h)"
    using x' by (simp add: kv_store.known_def [OF kv])
  ultimately show ?thesis using k(2) by (auto simp: kv_store.covered_def [OF kv])
qed

text \<open>A database that never fails.\<close>

definition list_rocks :: "(bytes \<times> bytes) list rocksdb" where
  "list_rocks = \<lparr>gr_GetBytes = \<lambda>h d. (Inr (map_of d h), d), gr_Put = \<lambda>h v d. (Inr (), AList.update h v d),
     gr_Keys = \<lambda>d. map fst d, gr_DeleteBatch = \<lambda>hs d. (Inr (), filter (\<lambda>(k, _). k \<notin> set hs) d), gr_Close = \<lambda>d. d\<rparr>"

lemma map_of_filter_key: "map_of (filter (\<lambda>(k, _). P k) d) k = (if P k then map_of d k else None)"
  by (induction d) auto

lemma list_rocks_laws: "rocks_laws list_rocks map_of"
  unfolding rocks_laws_def list_rocks_def
  by (auto simp: update_conv' map_of_filter_key dom_map_of_conv_image_fst image_iff)

theorem rebuild_restores_rocksdb_index_witness:
  "fst (HotIndex_Lookup (rocks_kv list_rocks) [5] (fst (snd (RebuildFromPG (rocks_kv list_rocks) exact_bloom 0 0
      (Some \<lparr>backend = ''rocksdb'', bloom = Some (newBloom exact_bloom 0 0), store = Some [([5], replicate 16 9)]\<rparr>, sample_blobs)))))
    \<in> {None, Some \<lparr>en_SegmentID = 0, en_Offset = 17, en_Size = 5\<rparr>}"
proof -
  let ?x = "\<lparr>backend = ''rocksdb'', bloom = Some (newBloom exact_bloom 0 0), store = Some [([5], replicate 16 9)]\<rparr>"
  let ?r = "RebuildFromPG (rocks_kv list_rocks) exact_bloom 0 0 (Some ?x, sample_blobs)"
  obtain r i d where r: "?r = (r, (i, d))" by (metis prod.exhaust)
  have "fst ?r = Inr ()" by code_simp
  with r have r1: "?r = (Inr (), (i, d))" by simp
  have a: "all_decode map_of [([5 :: 8 word], replicate 16 (9 :: 8 word))]" by (simp add: all_decode_def)
  have e: "list_all (\<lambda>b. entry_ok (blob_entry b)) (content_blobs sample_blobs)" by code_simp
  have "map_option blob_entry (find_blob [5] sample_blobs) = Some \<lparr>en_SegmentID = 0, en_Offset = 17, en_Size = 5\<rparr>" by code_simp
  with rebuild_restores_rocksdb_index [OF exact_bloom_laws list_rocks_laws a _ sample_blobs_wf e r1, of "[5]"] r
  show ?thesis by simp
qed

end
