(* ===== verification/Blob_Store.thy ===== *)
theory Blob_Store
  imports Compress Dedup Segment_Index Write_Buffer Sha256
begin

text \<open>
  The content-addressed blob store (\<^verbatim>\<open>internal/storage/blob_store.go\<close>): it puts together the segment
  manager, the segment index, the encoder, the hot index and the metadata transaction. A
  transaction body runs on a \<open>shard\<close>, the store beside the database it belongs to.
\<close>

record ('s, 'b) BlobStore =
  segments :: SegmentManager
  segmentIndex :: "SegmentIndex option"
  encoder :: "Encoder option"
  hot_index :: "('s, 'b) HotIndex option"
  bs_buffered :: bool
  bs_clock :: "time list"

record ('s, 'b) shard =
  sh_blobs :: "('s, 'b) BlobStore"
  sh_meta :: meta_db

text \<open>The libraries the store is built on.\<close>

record ('s, 'b) libs =
  lib_zstd :: zstd
  lib_kv :: "'s kvStore"
  lib_bloom :: "'b bloom_lib"

definition NewBlobStore :: "SegmentManager \<Rightarrow> SegmentIndex option \<Rightarrow> Encoder option \<Rightarrow> ('s, 'b) HotIndex option
    \<Rightarrow> bool \<Rightarrow> time list \<Rightarrow> ('s, 'b) BlobStore" where
  "NewBlobStore sm si enc idx buffered clock =
     \<lparr>segments = sm, segmentIndex = si, encoder = enc, hot_index = idx, bs_buffered = buffered, bs_clock = clock\<rparr>"

definition ContentHash_of :: "bytes \<Rightarrow> bytes" where
  "ContentHash_of data = Sum256 data"

definition PackageHash_of :: "bytes \<Rightarrow> bytes" where
  "PackageHash_of data = ContentHash_of data"

definition encodeRecord :: "zstd \<Rightarrow> Encoder option \<Rightarrow> bytes \<Rightarrow> RecordType \<Rightarrow> bytes" where
  "encodeRecord zs enc data recordType = (case enc of
       None \<Rightarrow> EncodeRecord (Magic recordType) data
     | Some e \<Rightarrow>
         if recordType = RecordXML \<and> ShouldCompress (int (length data)) e \<and> length (Compress zs e data) < length data
         then EncodeRecord MagicXMLC (Compress zs e data)
         else EncodeRecord (Magic recordType) data)"

definition on_tx :: "(meta_db \<Rightarrow> (meta_db, 'a) result) \<Rightarrow> ('s, 'b) shard \<Rightarrow> (('s, 'b) shard, 'a) result" where
  "on_tx f st = (case f (sh_meta st) of (r, db) \<Rightarrow> (r, st\<lparr>sh_meta := db\<rparr>))"

definition on_segments :: "(SegmentManager \<Rightarrow> (SegmentManager, 'a) result) \<Rightarrow> ('s, 'b) shard \<Rightarrow> (('s, 'b) shard, 'a) result" where
  "on_segments f st = (case f (segments (sh_blobs st)) of (r, sm) \<Rightarrow> (r, st\<lparr>sh_blobs := (sh_blobs st)\<lparr>segments := sm\<rparr>\<rparr>))"

definition on_hot :: "(('s, 'b) HotIndex option \<Rightarrow> (('s, 'b) HotIndex option, 'a) result) \<Rightarrow> ('s, 'b) shard \<Rightarrow> (('s, 'b) shard, 'a) result" where
  "on_hot f st = (case f (hot_index (sh_blobs st)) of (r, i) \<Rightarrow> (r, st\<lparr>sh_blobs := (sh_blobs st)\<lparr>hot_index := i\<rparr>\<rparr>))"

definition bs_now :: "('s, 'b) shard \<Rightarrow> time \<times> ('s, 'b) shard" where
  "bs_now st = (case bs_clock (sh_blobs st) of [] \<Rightarrow> (0, st)
     | t # ts \<Rightarrow> (t, st\<lparr>sh_blobs := (sh_blobs st)\<lparr>bs_clock := ts\<rparr>\<rparr>))"

definition indexPut :: "('s, 'b) libs \<Rightarrow> bytes \<Rightarrow> ContentBlob \<Rightarrow> ('s, 'b) shard \<Rightarrow> (('s, 'b) shard, unit) result" where
  "indexPut L h blob st = (if hot_index (sh_blobs st) = None then (Inr (), st)
     else on_hot (HotIndex_Put (lib_kv L) (lib_bloom L) h (blob_entry blob)) st)"

definition index_entry :: "Encoder option \<Rightarrow> Location \<Rightarrow> bytes \<Rightarrow> bytes \<Rightarrow> bytes \<Rightarrow> int \<Rightarrow> IndexEntry" where
  "index_entry enc loc hash data record supplierID =
     (let magic = (case DecodeRecordHeader record of Inl _ \<Rightarrow> 0 | Inr (m, _) \<Rightarrow> m) in
      \<lparr>ieOffset = Offset loc, ieStoredSize = of_nat (length record), ieLogicalSize = of_nat (length data), ieMagic = magic,
       ieHash = hash, ieSupplierID = of_int supplierID,
       ieDictID = (case enc of None \<Rightarrow> 0 | Some e \<Rightarrow> if IsCompressedXML magic then of_int (dictID e) else 0)\<rparr>)"

definition segment_index_append :: "int \<Rightarrow> IndexEntry \<Rightarrow> ('s, 'b) shard \<Rightarrow> (('s, 'b) shard, unit) result" where
  "segment_index_append i e st = (case segmentIndex (sh_blobs st) of None \<Rightarrow> (Inr (), st)
     | Some si \<Rightarrow> (case Append_index i e si of (r, si) \<Rightarrow> (r, st\<lparr>sh_blobs := (sh_blobs st)\<lparr>segmentIndex := Some si\<rparr>\<rparr>)))"

definition new_blob :: "bytes \<Rightarrow> bytes \<Rightarrow> bytes \<Rightarrow> Location \<Rightarrow> time \<Rightarrow> ContentBlob" where
  "new_blob hash data record loc t = \<lparr>ContentHash = hash, BlobSize = int (length data), StoredSize = int (length record),
     cb_SegmentID = SegmentID loc, cb_Offset = Offset loc, RefCount = 1, FirstSeenAt = t\<rparr>"

definition storeNew :: "('s, 'b) libs \<Rightarrow> bytes \<Rightarrow> bytes \<Rightarrow> RecordType \<Rightarrow> int \<Rightarrow> ('s, 'b) shard
    \<Rightarrow> (('s, 'b) shard, bytes \<times> bool) result" where
  "storeNew L hash data recordType supplierID st =
     (let enc = encoder (sh_blobs st); record = encodeRecord (lib_zstd L) enc data recordType in
      tryE (on_segments (Append_segments (bs_buffered (sh_blobs st)) record) st) (\<lambda>loc st.
      case bs_now st of (t, st) \<Rightarrow>
      (let blob = new_blob hash data record loc t in
       tryE (wrapE ''insert blob: '' (on_tx (tx_InsertBlobOrIncrement blob) st)) (\<lambda>inserted st.
       if \<not> inserted then (Inr (hash, False), st) else
       tryE (segment_index_append (SegmentID loc) (index_entry enc loc hash data record supplierID) st) (\<lambda>_ st.
       tryE (indexPut L hash blob st) (\<lambda>_ st. (Inr (hash, True), st)))))))"

definition store_existing :: "('s, 'b) libs \<Rightarrow> bytes \<Rightarrow> bytes \<Rightarrow> RecordType \<Rightarrow> int \<Rightarrow> ('s, 'b) shard
    \<Rightarrow> (('s, 'b) shard, bytes \<times> bool) result" where
  "store_existing L hash data recordType supplierID st =
     tryE (on_tx (tx_GetBlob hash) st) (\<lambda>existing st. case existing of
       Some b \<Rightarrow>
         tryE (on_tx (tx_IncrementRefCount hash) st) (\<lambda>_ st.
         tryE (indexPut L hash b st) (\<lambda>_ st. (Inr (hash, False), st)))
     | None \<Rightarrow> storeNew L hash data recordType supplierID st)"

definition lookup_hot :: "('s, 'b) libs \<Rightarrow> bytes \<Rightarrow> ('s, 'b) shard \<Rightarrow> Entry option \<times> ('s, 'b) shard" where
  "lookup_hot L hash st = (case HotIndex_Lookup (lib_kv L) hash (hot_index (sh_blobs st)) of
     (e, i) \<Rightarrow> (e, st\<lparr>sh_blobs := (sh_blobs st)\<lparr>hot_index := i\<rparr>\<rparr>))"

definition StoreOrRef :: "('s, 'b) libs \<Rightarrow> bytes \<Rightarrow> RecordType \<Rightarrow> int \<Rightarrow> ('s, 'b) shard
    \<Rightarrow> (('s, 'b) shard, bytes \<times> bool) result" where
  "StoreOrRef L data recordType supplierID st =
     (let hash = ContentHash_of data; idx = hot_index (sh_blobs st) in
      if idx \<noteq> None \<and> \<not> HotIndex_MightContain (lib_bloom L) hash idx
      then storeNew L hash data recordType supplierID st
      else if idx \<noteq> None then
        (case lookup_hot L hash st of (e, st) \<Rightarrow>
           if e = None then store_existing L hash data recordType supplierID st
           else tryE (on_tx (tx_IncrementRefCountIfExists hash) st) (\<lambda>updated st.
             if updated then (Inr (hash, False), st) else store_existing L hash data recordType supplierID st))
      else store_existing L hash data recordType supplierID st)"

definition ReadBlob :: "zstd \<Rightarrow> ContentBlob \<Rightarrow> ('s, 'b) BlobStore \<Rightarrow> (('s, 'b) BlobStore, bytes) result" where
  "ReadBlob zs blob b = (case ReadRecord (cb_SegmentID blob) (cb_Offset blob) (segments b) of
       (Inl e, sm) \<Rightarrow> (Inl e, b\<lparr>segments := sm\<rparr>)
     | (Inr (magic, payload), sm) \<Rightarrow>
         if IsCompressedXML magic then
           (case encoder b of
              None \<Rightarrow> (Inl (Err ''compressed blob but no encoder configured''), b\<lparr>segments := sm\<rparr>)
            | Some e \<Rightarrow> (Decompress zs e payload, b\<lparr>segments := sm\<rparr>))
         else (Inr payload, b\<lparr>segments := sm\<rparr>))"

subsection \<open>Every row of the table is backed by a durable record\<close>

definition payload_of :: "zstd \<Rightarrow> Encoder option \<Rightarrow> u32 \<Rightarrow> bytes \<Rightarrow> error + bytes" where
  "payload_of zs enc m p = (if IsCompressedXML m then
      (case enc of None \<Rightarrow> Inl (Err ''compressed blob but no encoder configured'') | Some e \<Rightarrow> Decompress zs e p)
    else Inr p)"

definition blob_loc :: "ContentBlob \<Rightarrow> Location" where
  "blob_loc b = \<lparr>SegmentID = cb_SegmentID b, Offset = cb_Offset b, Size = StoredSize b\<rparr>"

definition blob_content :: "zstd \<Rightarrow> ('s, 'b) BlobStore \<Rightarrow> ContentBlob \<Rightarrow> bytes \<Rightarrow> bool" where
  "blob_content zs bs b data \<longleftrightarrow> ContentHash b = ContentHash_of data \<and> BlobSize b = int (length data)
     \<and> (\<exists>m p. length p < 2 ^ 32 \<and> durable (segments bs) (blob_loc b) (EncodeRecord m p) \<and> payload_of zs (encoder bs) m p = Inr data)"

definition backed :: "zstd \<Rightarrow> ('s, 'b) BlobStore \<Rightarrow> ContentBlob \<Rightarrow> bool" where
  "backed zs bs b \<longleftrightarrow> (\<exists>data. blob_content zs bs b data)"

definition encoder_ready :: "Encoder option \<Rightarrow> bool" where
  "encoder_ready enc \<longleftrightarrow> (case enc of None \<Rightarrow> True | Some e \<Rightarrow> has_dec e)"

definition store_inv :: "zstd \<Rightarrow> ('s, 'b) shard \<Rightarrow> bool" where
  "store_inv zs st \<longleftrightarrow> sm_inv (segments (sh_blobs st)) \<and> encoder_ready (encoder (sh_blobs st))
     \<and> md_wf (sh_meta st) \<and> list_all (backed zs (sh_blobs st)) (content_blobs (sh_meta st))"

text \<open>What one operation may do to the store: records stay, the encoder stays.\<close>

definition store_keeps :: "('s, 'b) BlobStore \<Rightarrow> ('s, 'b) BlobStore \<Rightarrow> bool" where
  "store_keeps b b' \<longleftrightarrow> encoder b' = encoder b \<and> (sm_inv (segments b) \<longrightarrow> sm_inv (segments b'))
     \<and> (\<forall>l r. sm_inv (segments b) \<longrightarrow> durable (segments b) l r \<longrightarrow> durable (segments b') l r)"

lemma store_keeps_refl [simp]: "store_keeps b b"
  by (simp add: store_keeps_def)

lemma store_keeps_trans: "store_keeps b c \<Longrightarrow> store_keeps c d \<Longrightarrow> store_keeps b d"
  by (auto simp: store_keeps_def)

lemma store_keeps_same: "segments b' = segments b \<Longrightarrow> encoder b' = encoder b \<Longrightarrow> store_keeps b b'"
  by (simp add: store_keeps_def)

lemma blob_content_keeps:
  "store_keeps b b' \<Longrightarrow> sm_inv (segments b) \<Longrightarrow> blob_content zs b x data \<Longrightarrow> blob_content zs b' x data"
  unfolding blob_content_def store_keeps_def by auto

lemma blob_content_cong:
  "ContentHash x' = ContentHash x \<Longrightarrow> BlobSize x' = BlobSize x \<Longrightarrow> blob_loc x' = blob_loc x
    \<Longrightarrow> blob_content zs b x' data = blob_content zs b x data"
  by (simp add: blob_content_def)

lemma blob_content_bump [simp]: "blob_content zs b (bump h x) data = blob_content zs b x data"
  by (rule blob_content_cong) (simp_all add: bump_def blob_loc_def)

lemma encodeRecord_content:
  assumes "zstd_laws zs" and "encoder_ready enc" and "length data < 2 ^ 32"
  obtains m p where "encodeRecord zs enc data t = EncodeRecord m p" and "length p < 2 ^ 32" and "payload_of zs enc m p = Inr data"
proof (cases "\<exists>e. enc = Some e \<and> t = RecordXML \<and> ShouldCompress (int (length data)) e \<and> length (Compress zs e data) < length data")
  case True
  then obtain e where e: "enc = Some e" "t = RecordXML" "ShouldCompress (int (length data)) e" "length (Compress zs e data) < length data"
    by blast
  have "has_dec e" using assms(2) e(1) by (simp add: encoder_ready_def)
  from Compress_shorter [OF assms(1) e(4) this] e assms(3) show ?thesis
    by (intro that [of MagicXMLC "Compress zs e data"]) (auto simp: encodeRecord_def payload_of_def IsCompressedXML_def)
next
  case False
  with assms(3) show ?thesis
    by (intro that [of "Magic t" data]) (auto simp: encodeRecord_def payload_of_def split: option.split)
qed

subsection \<open>Reading\<close>

lemma ReadBlob_content:
  assumes "blob_content zs b x data" and "sm_inv (segments b)"
  shows "fst (ReadBlob zs x b) = Inr y \<Longrightarrow> y = data"
    and "healthy (segments b) \<Longrightarrow> fst (ReadBlob zs x b) = Inr data"
proof -
  obtain m p where p: "length p < 2 ^ 32" "durable (segments b) (blob_loc x) (EncodeRecord m p)" "payload_of zs (encoder b) m p = Inr data"
    using assms(1) by (auto simp: blob_content_def)
  note h = durable_holds [OF p(2)]
  obtain r sm where r: "ReadRecord (cb_SegmentID x) (cb_Offset x) (segments b) = (r, sm)" by fastforce
  then have r': "ReadRecord (SegmentID (blob_loc x)) (Offset (blob_loc x)) (segments b) = (r, sm)" by (simp add: blob_loc_def)
  have ok: "v = (m, p)" if "r = Inr v" for v
    by (rule ReadRecord_stored [OF h p(1) r' [unfolded that]])
  show "y = data" if "fst (ReadBlob zs x b) = Inr y"
  proof (cases r)
    case (Inl e)
    with that r show ?thesis by (simp add: ReadBlob_def)
  next
    case (Inr v)
    with ok r that p(3) show ?thesis
      by (auto simp: ReadBlob_def payload_of_def split: if_splits option.splits)
  qed
  show "fst (ReadBlob zs x b) = Inr data" if hs: "healthy (segments b)"
  proof -
    have "r = Inr (m, p)" by (rule ReadRecord_ok [OF h p(1) hs]) (simp add: r')
    with r p(3) show ?thesis by (auto simp: ReadBlob_def payload_of_def split: if_splits option.splits)
  qed
qed

subsection \<open>Effect of the transaction operations\<close>

text \<open>The tables after one more reference to \<open>h\<close>, or unchanged.\<close>

definition same_rest :: "meta_db \<Rightarrow> meta_db \<Rightarrow> bool" where
  "same_rest db db' \<longleftrightarrow> packages db' = packages db \<and> package_files db' = package_files db \<and> supplier_stats db' = supplier_stats db
     \<and> dictionaries db' = dictionaries db \<and> seq_packages db' = seq_packages db \<and> seq_files db' = seq_files db \<and> md_clock db' = md_clock db"

lemma same_rest_refl [simp]: "same_rest db db"
  by (simp add: same_rest_def)

lemma same_rest_trans: "same_rest a b \<Longrightarrow> same_rest b c \<Longrightarrow> same_rest a c"
  by (simp add: same_rest_def)

lemma same_rest_take_fault: "md_take_fault db = (f, d) \<Longrightarrow> same_rest db d \<and> content_blobs d = content_blobs db"
  using md_take_fault_tables [of db f d] by (simp add: same_rest_def)

lemma same_rest_bump [simp]: "same_rest db (bump_ref h db)"
  by (simp add: same_rest_def bump_ref_def)

lemma tx_stmt_effect:
  assumes "tx_stmt f db = (r, db')" and "\<And>d. same_rest d (snd (f d))" and "\<And>d e d'. f d = (Inl e, d') \<Longrightarrow> content_blobs d' = content_blobs d"
  shows "same_rest db db'" and "r = Inl e \<Longrightarrow> content_blobs db' = content_blobs db"
proof -
  obtain fl d where fl: "md_take_fault db = (fl, d)" by fastforce
  note t = same_rest_take_fault [OF fl]
  obtain q d' where f: "f d = (q, d')" by fastforce
  have d': "same_rest db d'" using same_rest_trans [of db d d'] assms(2) [of d] f t by simp
  have ab: "same_rest a (c\<lparr>md_aborted := x\<rparr>) = same_rest a c" for a c x by (simp add: same_rest_def)
  show "same_rest db db'"
    using assms(1) fl f t d' by (auto simp: tx_stmt_def ab split: if_splits fault.splits sum.splits)
  show "content_blobs db' = content_blobs db" if "r = Inl e"
    using assms(1) fl f t assms(3) [of d] that by (auto simp: tx_stmt_def split: if_splits fault.splits sum.splits)
qed

lemma InsertBlobOrIncrement_effect:
  assumes "tx_InsertBlobOrIncrement b db = (r, db')"
  shows "same_rest db db'" and "r = Inl e \<Longrightarrow> content_blobs db' = content_blobs db"
    and "r = Inr True \<Longrightarrow> blob_types b \<and> \<not> has_blob (ContentHash b) db \<and> content_blobs db' = content_blobs db @ [b]"
    and "r = Inr False \<Longrightarrow> has_blob (ContentHash b) db \<and> content_blobs db' = map (bump (ContentHash b)) (content_blobs db)"
proof -
  note e = tx_stmt_effect [OF assms [unfolded tx_InsertBlobOrIncrement_def]]
  show "same_rest db db'" by (rule e) (auto simp: same_rest_def bump_ref_def split: if_splits)
  show "content_blobs db' = content_blobs db" if "r = Inl e" using that by (rule e(2) [rotated 2]) (auto simp: same_rest_def bump_ref_def split: if_splits)
  have ok: "if has_blob (ContentHash b) db then \<not> v \<and> content_blobs db' = map (bump (ContentHash b)) (content_blobs db)
      else v \<and> blob_types b \<and> content_blobs db' = content_blobs db @ [b]" if "r = Inr v" for v
  proof -
    from assms [unfolded that tx_InsertBlobOrIncrement_def] obtain d where d: "md_take_fault db = (Pass, d)"
      and f: "(if \<not> blob_types b then (Inl violation, d)
        else if has_blob (ContentHash b) d then (Inr False, bump_ref (ContentHash b) d)
        else (Inr True, d\<lparr>content_blobs := content_blobs d @ [b]\<rparr>)) = (Inr v, db')"
      by (rule tx_stmt_Inr)
    have "content_blobs d = content_blobs db" using same_rest_take_fault [OF d] by simp
    with f show ?thesis by (auto simp: has_blob_def bump_ref_def split: if_splits)
  qed
  show "blob_types b \<and> \<not> has_blob (ContentHash b) db \<and> content_blobs db' = content_blobs db @ [b]" if "r = Inr True"
    using ok [OF that] by (simp split: if_splits)
  show "has_blob (ContentHash b) db \<and> content_blobs db' = map (bump (ContentHash b)) (content_blobs db)" if "r = Inr False"
    using ok [OF that] by (simp split: if_splits)
qed

lemma IncrementRefCountIfExists_effect:
  assumes "tx_IncrementRefCountIfExists h db = (r, db')"
  shows "same_rest db db'" and "r = Inl e \<Longrightarrow> content_blobs db' = content_blobs db"
    and "r = Inr v \<Longrightarrow> v = has_blob h db \<and> content_blobs db' = map (bump h) (content_blobs db)"
proof -
  note e = tx_stmt_effect [OF assms [unfolded tx_IncrementRefCountIfExists_def]]
  show "same_rest db db'" by (rule e) auto
  show "content_blobs db' = content_blobs db" if "r = Inl e" using that by (rule e(2) [rotated 2]) auto
  show "v = has_blob h db \<and> content_blobs db' = map (bump h) (content_blobs db)" if "r = Inr v"
    using assms that same_rest_take_fault unfolding tx_IncrementRefCountIfExists_def
    by (auto elim!: tx_stmt_Inr simp: bump_ref_def has_blob_def)
qed

lemma IncrementRefCount_effect:
  assumes "tx_IncrementRefCount h db = (r, db')"
  shows "same_rest db db'" and "r = Inl e \<Longrightarrow> content_blobs db' = content_blobs db"
    and "r = Inr v \<Longrightarrow> content_blobs db' = map (bump h) (content_blobs db)"
proof -
  note e = tx_stmt_effect [OF assms [unfolded tx_IncrementRefCount_def]]
  show "same_rest db db'" by (rule e) auto
  show "content_blobs db' = content_blobs db" if "r = Inl e" using that by (rule e(2) [rotated 2]) auto
  show "content_blobs db' = map (bump h) (content_blobs db)" if "r = Inr v"
    using assms that same_rest_take_fault unfolding tx_IncrementRefCount_def
    by (auto elim!: tx_stmt_Inr simp: bump_ref_def)
qed

lemma GetBlob_effect:
  assumes "tx_GetBlob h db = (r, db')"
  shows "same_rest db db'" and "content_blobs db' = content_blobs db" and "r = Inr v \<Longrightarrow> v = find_blob h db"
proof -
  note e = tx_stmt_effect [OF assms [unfolded tx_GetBlob_def]]
  show "same_rest db db'" by (rule e) auto
  show v: "v = find_blob h db" if "r = Inr v" for v
    using assms that same_rest_take_fault unfolding tx_GetBlob_def
    by (auto elim!: tx_stmt_Inr simp: find_blob_def)
  show "content_blobs db' = content_blobs db"
  proof (cases r)
    case (Inr w)
    then show ?thesis using assms same_rest_take_fault unfolding tx_GetBlob_def by (auto elim!: tx_stmt_Inr)
  next
    case (Inl x)
    then show ?thesis by (rule e(2) [rotated 2]) auto
  qed
qed

subsection \<open>One reference more\<close>

definition ref_added :: "zstd \<Rightarrow> bytes \<Rightarrow> bytes \<Rightarrow> ('s, 'b) shard \<Rightarrow> ('s, 'b) shard \<Rightarrow> bool" where
  "ref_added zs h data st st' \<longleftrightarrow>
     (if has_blob h (sh_meta st) then content_blobs (sh_meta st') = map (bump h) (content_blobs (sh_meta st))
      else \<exists>b. ContentHash b = h \<and> RefCount b = 1 \<and> blob_content zs (sh_blobs st') b data
             \<and> content_blobs (sh_meta st') = content_blobs (sh_meta st) @ [b])"

definition touched :: "('s, 'b) shard \<Rightarrow> ('s, 'b) shard \<Rightarrow> bool" where
  "touched st st' \<longleftrightarrow> store_keeps (sh_blobs st) (sh_blobs st') \<and> same_rest (sh_meta st) (sh_meta st')"

lemma touched_refl [simp]: "touched st st"
  by (simp add: touched_def)

lemma touched_trans: "touched a b \<Longrightarrow> touched b c \<Longrightarrow> touched a c"
  using store_keeps_trans same_rest_trans by (auto simp: touched_def)

text \<open>An operation that adds one reference to \<open>h\<close>, or fails with the reference added or not.\<close>

definition ref_step :: "zstd \<Rightarrow> bytes \<Rightarrow> bytes \<Rightarrow> ('s, 'b) shard \<Rightarrow> error + 'a \<Rightarrow> ('s, 'b) shard \<Rightarrow> bool" where
  "ref_step zs h data st r st' \<longleftrightarrow> touched st st'
     \<and> (ref_added zs h data st st' \<or> (\<exists>e. r = Inl e) \<and> content_blobs (sh_meta st') = content_blobs (sh_meta st))"

text \<open>Steps that leave tables and records alone.\<close>

definition quiet_step :: "('s, 'b) shard \<Rightarrow> ('s, 'b) shard \<Rightarrow> bool" where
  "quiet_step st st' \<longleftrightarrow> store_keeps (sh_blobs st) (sh_blobs st') \<and> same_rest (sh_meta st) (sh_meta st')
     \<and> content_blobs (sh_meta st') = content_blobs (sh_meta st)"

lemma quiet_touched: "quiet_step st st' \<Longrightarrow> touched st st'"
  by (simp add: quiet_step_def touched_def)

lemma quiet_inv: "quiet_step st st' \<Longrightarrow> sm_inv (segments (sh_blobs st)) \<Longrightarrow> sm_inv (segments (sh_blobs st'))"
  by (simp add: quiet_step_def store_keeps_def)

lemma indexPut_quiet: "indexPut L h b st = (r, st') \<Longrightarrow> quiet_step st st'"
  by (auto simp: indexPut_def on_hot_def quiet_step_def intro!: store_keeps_same split: if_splits prod.splits)

lemma segment_index_append_quiet: "segment_index_append i e st = (r, st') \<Longrightarrow> quiet_step st st'"
  by (auto simp: segment_index_append_def quiet_step_def intro!: store_keeps_same split: option.splits prod.splits)

lemma lookup_hot_quiet: "lookup_hot L h st = (e, st') \<Longrightarrow> quiet_step st st'"
  by (auto simp: lookup_hot_def quiet_step_def intro!: store_keeps_same split: prod.splits)

lemma bs_now_quiet: "bs_now st = (t, st') \<Longrightarrow> quiet_step st st'"
  by (auto simp: bs_now_def quiet_step_def intro!: store_keeps_same split: list.splits)

lemma quiet_after:
  assumes "quiet_step st1 st'" and "ref_added zs h data st st1" and "touched st st1" and "sm_inv (segments (sh_blobs st))"
  shows "ref_added zs h data st st'" and "touched st st'"
proof -
  have i: "sm_inv (segments (sh_blobs st1))" using assms(3,4) by (simp add: touched_def store_keeps_def)
  have k: "store_keeps (sh_blobs st1) (sh_blobs st')" using assms(1) by (simp add: quiet_step_def)
  show "ref_added zs h data st st'"
    using assms(1,2) blob_content_keeps [OF k i] by (auto simp: ref_added_def quiet_step_def split: if_splits)
  show "touched st st'" using touched_trans [OF assms(3) quiet_touched [OF assms(1)]] .
qed

lemma quiet_before:
  assumes "quiet_step st st1" and "ref_step zs h data st1 r st'"
  shows "ref_step zs h data st r st'"
proof -
  have h: "has_blob h (sh_meta st1) = has_blob h (sh_meta st)" using assms(1) by (simp add: quiet_step_def has_blob_def)
  have "touched st st'" using touched_trans [OF quiet_touched [OF assms(1)]] assms(2) by (simp add: ref_step_def)
  with h assms show ?thesis by (auto simp: ref_step_def ref_added_def quiet_step_def)
qed


lemma on_tx_iff: "on_tx f st = (r, st') \<longleftrightarrow> (\<exists>db. f (sh_meta st) = (r, db) \<and> st' = st\<lparr>sh_meta := db\<rparr>)"
  by (auto simp: on_tx_def split: prod.splits)

lemma append_step:
  assumes "on_segments (Append_segments buf rec) st = (r, st')" and "sm_inv (segments (sh_blobs st))"
  shows "quiet_step st st'" and "r = Inr loc \<Longrightarrow> durable (segments (sh_blobs st')) loc rec \<and> Size loc = int (length rec)"
proof -
  obtain sm where a: "Append_segments buf rec (segments (sh_blobs st)) = (r, sm)"
      "st' = st\<lparr>sh_blobs := (sh_blobs st)\<lparr>segments := sm\<rparr>\<rparr>"
    using assms(1) by (auto simp: on_segments_def split: prod.splits)
  show "quiet_step st st'"
    using seg_append.append_inv [OF a(1)] seg_append.append_keeps [OF a(1)] a(2) by (auto simp: quiet_step_def store_keeps_def)
  show "durable (segments (sh_blobs st')) loc rec \<and> Size loc = int (length rec)" if "r = Inr loc"
    using seg_append.append_has [OF a(1) [unfolded that] assms(2)] a(2) by (auto simp: durable_def stored_def)
qed

lemma new_blob_content:
  assumes "durable (segments b) loc record" and "Size loc = int (length record)" and "record = EncodeRecord m p"
    and "length p < 2 ^ 32" and "payload_of zs (encoder b) m p = Inr data"
  shows "blob_content zs b (new_blob (ContentHash_of data) data record loc t) data"
proof -
  have "blob_loc (new_blob (ContentHash_of data) data record loc t) = loc"
    using assms(2) by (cases loc) (simp add: blob_loc_def new_blob_def)
  with assms show ?thesis by (auto simp: blob_content_def new_blob_def)
qed

lemma insert_step:
  assumes "wrapE ''insert blob: '' (on_tx (tx_InsertBlobOrIncrement b) st) = (r, st')"
    and "ContentHash b = h" and "RefCount b = 1" and "blob_types b \<longrightarrow> blob_content zs (sh_blobs st) b data"
  shows "ref_step zs h data st r st'" and "r = Inr x \<Longrightarrow> x \<longleftrightarrow> \<not> has_blob h (sh_meta st)"
proof -
  obtain q db where q: "tx_InsertBlobOrIncrement b (sh_meta st) = (q, db)" by fastforce
  have st': "st' = st\<lparr>sh_meta := db\<rparr>" and r: "r = (case q of Inl e \<Rightarrow> Inl (Wrap ''insert blob: '' e []) | Inr x \<Rightarrow> Inr x)"
    using assms(1) q by (cases q; auto simp: on_tx_def)+
  note e = InsertBlobOrIncrement_effect [OF q]
  have t: "touched st st'" using e(1) st' by (simp add: touched_def)
  show "ref_step zs h data st r st'"
  proof (cases q)
    case (Inl x)
    with e(2) t r st' show ?thesis by (simp add: ref_step_def)
  next
    case (Inr x)
    with e(3,4) t st' assms(2-4) show ?thesis by (cases x) (auto simp: ref_step_def ref_added_def)
  qed
  show "x \<longleftrightarrow> \<not> has_blob h (sh_meta st)" if "r = Inr x"
    using that r e(3,4) assms(2) by (cases q; cases x) auto
qed

lemma storeNew_step:
  assumes "zstd_laws (lib_zstd L)" and "sm_inv (segments (sh_blobs st))" and "encoder_ready (encoder (sh_blobs st))"
    and "h = ContentHash_of data" and "storeNew L h data t spl st = (r, st')"
  shows "ref_step (lib_zstd L) h data st r st'" and "r = Inr x \<Longrightarrow> x = (h, \<not> has_blob h (sh_meta st))"
proof -
  let ?zs = "lib_zstd L" and ?enc = "encoder (sh_blobs st)"
  let ?rec = "encodeRecord ?zs ?enc data t"
  obtain ra st1 where a: "on_segments (Append_segments (bs_buffered (sh_blobs st)) ?rec) st = (ra, st1)" by fastforce
  note q1 = append_step(1) [OF a assms(2)]
  have "ref_step ?zs h data st r st' \<and> (r = Inr x \<longrightarrow> x = (h, \<not> has_blob h (sh_meta st)))"
  proof (cases ra)
    case (Inl e)
    with a assms(5) have "r = Inl e" "st' = st1" by (simp_all add: storeNew_def Let_def)
    with q1 show ?thesis by (auto simp: ref_step_def quiet_step_def touched_def)
  next
    case (Inr loc)
    obtain tm st2 where n: "bs_now st1 = (tm, st2)" by fastforce
    let ?b = "new_blob h data ?rec loc tm"
    obtain ri st3 where i: "wrapE ''insert blob: '' (on_tx (tx_InsertBlobOrIncrement ?b) st2) = (ri, st3)" by fastforce
    have q2: "quiet_step st st2"
      using q1 bs_now_quiet [OF n] store_keeps_trans same_rest_trans unfolding quiet_step_def by metis
    have d: "durable (segments (sh_blobs st1)) loc ?rec" "Size loc = int (length ?rec)" using append_step(2) [OF a assms(2) Inr] by auto
    have "durable (segments (sh_blobs st2)) loc ?rec"
      using bs_now_quiet [OF n] d(1) quiet_inv [OF q1 assms(2)] by (simp add: quiet_step_def store_keeps_def)
    moreover have "encoder (sh_blobs st2) = ?enc" using q2 by (simp add: quiet_step_def store_keeps_def)
    ultimately have c: "blob_types ?b \<longrightarrow> blob_content ?zs (sh_blobs st2) ?b data"
    proof (intro impI)
      assume ty: "blob_types ?b"
      have "length data < 2 ^ 32" using ty by (simp add: blob_types_def new_blob_def int4_def)
      then obtain m p where mp: "?rec = EncodeRecord m p" "length p < 2 ^ 32" "payload_of ?zs ?enc m p = Inr data"
        by (rule encodeRecord_content [OF assms(1,3)])
      with \<open>durable (segments (sh_blobs st2)) loc ?rec\<close> \<open>encoder (sh_blobs st2) = ?enc\<close>
      show "blob_content ?zs (sh_blobs st2) ?b data"
        using new_blob_content [OF _ d(2) mp(1,2), of "sh_blobs st2" ?zs data tm] assms(4) by simp
    qed
    have f: "ContentHash ?b = h" "RefCount ?b = 1" by (simp_all add: new_blob_def)
    note s3 = insert_step [OF i f c]
    have hb: "has_blob h (sh_meta st2) = has_blob h (sh_meta st)" using q2 by (simp add: quiet_step_def has_blob_def)
    have r3: "ref_step ?zs h data st ri st3" using quiet_before [OF q2 s3(1)] .
    show ?thesis
    proof (cases "ri = Inr True")
      case False
      then have "(ri = Inr False \<and> r = Inr (h, False) \<or> (\<exists>e. ri = Inl e \<and> r = Inl e)) \<and> st' = st3"
        using assms(5) a Inr n i by (cases ri) (auto simp: storeNew_def Let_def)
      with r3 s3(2) hb show ?thesis by (auto simp: ref_step_def)
    next
      case True
      then have add: "ref_added ?zs h data st st3" "touched st st3" using r3 by (auto simp: ref_step_def)
      let ?e = "index_entry ?enc loc h data ?rec spl"
      obtain rs st4 where g: "segment_index_append (SegmentID loc) ?e st3 = (rs, st4)" by fastforce
      note q4 = quiet_after [OF segment_index_append_quiet [OF g] add assms(2)]
      obtain rp st5 where p: "indexPut L h ?b st4 = (rp, st5)" by fastforce
      note q5 = quiet_after [OF indexPut_quiet [OF p] q4 assms(2)]
      have "(\<exists>e. rs = Inl e \<and> r = Inl e) \<and> st' = st4 \<or> (\<exists>e. r = Inl e) \<and> st' = st5 \<or> r = Inr (h, True) \<and> st' = st5"
        using assms(5) a Inr n i True g p by (cases rs; cases rp) (auto simp: storeNew_def Let_def)
      with q4 q5 s3(2) [OF True] hb show ?thesis by (auto simp: ref_step_def)
    qed
  qed
  then show "ref_step ?zs h data st r st'" and "r = Inr x \<Longrightarrow> x = (h, \<not> has_blob h (sh_meta st))" by auto
qed

lemma bump_absent: "\<not> has_blob h db \<Longrightarrow> map (bump h) (content_blobs db) = content_blobs db"
  by (rule map_idI) (auto simp: has_blob_def list_ex_iff bump_def)

lemma has_blob_quiet: "quiet_step st st' \<Longrightarrow> has_blob h (sh_meta st') = has_blob h (sh_meta st)"
  by (simp add: quiet_step_def has_blob_def)

lemma encoder_quiet: "quiet_step st st' \<Longrightarrow> encoder (sh_blobs st') = encoder (sh_blobs st)"
  by (simp add: quiet_step_def store_keeps_def)

lemma increment_step:
  assumes "on_tx (tx_IncrementRefCount h) st = (r, st')" and "has_blob h (sh_meta st)"
  shows "ref_step zs h data st r st'"
  using assms IncrementRefCount_effect by (cases r) (fastforce simp: on_tx_iff ref_step_def ref_added_def touched_def)+

lemma store_existing_step:
  assumes "zstd_laws (lib_zstd L)" and "sm_inv (segments (sh_blobs st))" and "encoder_ready (encoder (sh_blobs st))"
    and "h = ContentHash_of data" and "store_existing L h data t spl st = (r, st')"
  shows "ref_step (lib_zstd L) h data st r st' \<and> (r = Inr x \<longrightarrow> x = (h, \<not> has_blob h (sh_meta st)))"
proof -
  obtain rg st1 where g: "on_tx (tx_GetBlob h) st = (rg, st1)" by fastforce
  then obtain db where db: "tx_GetBlob h (sh_meta st) = (rg, db)" "st1 = st\<lparr>sh_meta := db\<rparr>" by (auto simp: on_tx_iff)
  have q1: "quiet_step st st1" using GetBlob_effect(1,2) [OF db(1)] db(2) by (simp add: quiet_step_def)
  show ?thesis
  proof (cases rg)
    case (Inl e)
    with g assms(5) have "r = Inl e" "st' = st1" by (simp_all add: store_existing_def)
    with q1 show ?thesis by (auto simp: ref_step_def quiet_step_def touched_def)
  next
    case (Inr v)
    have v: "v = find_blob h (sh_meta st)" using GetBlob_effect(3) [OF db(1) Inr] .
    show ?thesis
    proof (cases v)
      case None
      then have "storeNew L h data t spl st1 = (r, st')" using g Inr assms(5) by (simp add: store_existing_def)
      note n = storeNew_step [OF assms(1) quiet_inv [OF q1 assms(2)] _ assms(4) this]
      show ?thesis using quiet_before [OF q1 n(1)] n(2) [of x] has_blob_quiet [OF q1] encoder_quiet [OF q1] assms(3) by auto
    next
      case (Some b)
      have hb: "has_blob h (sh_meta st)" using v Some find_blob_None [of h "sh_meta st"] by auto
      obtain ri st2 where i: "on_tx (tx_IncrementRefCount h) st1 = (ri, st2)" by fastforce
      have s2: "ref_step (lib_zstd L) h data st ri st2"
        using quiet_before [OF q1 increment_step [OF i]] hb has_blob_quiet [OF q1] by simp
      show ?thesis
      proof (cases ri)
        case (Inl e)
        with g Inr Some i assms(5) have "r = Inl e" "st' = st2" by (simp_all add: store_existing_def)
        with s2 Inl show ?thesis by (auto simp: ref_step_def)
      next
        case (Inr u)
        then have add: "ref_added (lib_zstd L) h data st st2" "touched st st2" using s2 by (auto simp: ref_step_def)
        obtain rp st3 where p: "indexPut L h b st2 = (rp, st3)" by fastforce
        note q3 = quiet_after [OF indexPut_quiet [OF p] add assms(2)]
        have "st' = st3 \<and> (r = Inr (h, False) \<or> (\<exists>e. r = Inl e))"
          using g \<open>rg = Inr v\<close> Some i Inr p assms(5) by (cases rp) (auto simp: store_existing_def)
        with q3 hb show ?thesis by (auto simp: ref_step_def)
      qed
    qed
  qed
qed

lemma StoreOrRef_step:
  assumes "zstd_laws (lib_zstd L)" and "sm_inv (segments (sh_blobs st))" and "encoder_ready (encoder (sh_blobs st))"
    and "StoreOrRef L data t spl st = (r, st')"
  shows "ref_step (lib_zstd L) (ContentHash_of data) data st r st'
     \<and> (r = Inr x \<longrightarrow> x = (ContentHash_of data, \<not> has_blob (ContentHash_of data) (sh_meta st)))"
proof -
  let ?h = "ContentHash_of data" and ?idx = "hot_index (sh_blobs st)"
  have ex: "ref_step (lib_zstd L) ?h data st q s' \<and> (q = Inr x \<longrightarrow> x = (?h, \<not> has_blob ?h (sh_meta st)))"
    if "quiet_step st s" "store_existing L ?h data t spl s = (q, s')" for s q s'
    using store_existing_step [OF assms(1) quiet_inv [OF that(1) assms(2)] _ refl that(2), of x] assms(3)
      encoder_quiet [OF that(1)] quiet_before [OF that(1)] has_blob_quiet [OF that(1)] by auto
  have refl: "quiet_step st st" by (simp add: quiet_step_def)
  consider (n) "storeNew L ?h data t spl st = (r, st')" | (e) "store_existing L ?h data t spl st = (r, st')"
    | (l) "StoreOrRef L data t spl st = (case lookup_hot L ?h st of (e, st) \<Rightarrow>
           if e = None then store_existing L ?h data t spl st
           else tryE (on_tx (tx_IncrementRefCountIfExists ?h) st) (\<lambda>updated st.
             if updated then (Inr (?h, False), st) else store_existing L ?h data t spl st))"
    using assms(4) by (auto simp: StoreOrRef_def Let_def split: if_splits)
  then show ?thesis
  proof cases
    case n
    from storeNew_step [OF assms(1-3) HOL.refl n] show ?thesis by blast
  next
    case e
    from ex [OF refl e] show ?thesis .
  next
    case l
    obtain y s1 where y: "lookup_hot L ?h st = (y, s1)" by fastforce
    note q1 = lookup_hot_quiet [OF y]
    show ?thesis
    proof (cases "y = None")
      case True
      with l y assms(4) have "store_existing L ?h data t spl s1 = (r, st')" by simp
      from ex [OF q1 this] show ?thesis .
    next
      case False
      obtain ri db where i: "tx_IncrementRefCountIfExists ?h (sh_meta s1) = (ri, db)" by fastforce
      note e = IncrementRefCountIfExists_effect [OF i]
      let ?s2 = "s1\<lparr>sh_meta := db\<rparr>"
      have on: "on_tx (tx_IncrementRefCountIfExists ?h) s1 = (ri, ?s2)" using i by (simp add: on_tx_def)
      have t2: "touched st ?s2" using touched_trans [OF quiet_touched [OF q1], of ?s2] e(1) by (simp add: touched_def)
      consider (err) er where "ri = Inl er" | (upd) "ri = Inr True" | (absent) "ri = Inr False" by (cases ri) auto
      then show ?thesis
      proof cases
        case err
        with l y False on assms(4) have "r = Inl er" "st' = ?s2" by simp_all
        with t2 e(2) [OF err] q1 show ?thesis by (simp add: ref_step_def quiet_step_def)
      next
        case upd
        with l y False on assms(4) have "r = Inr (?h, False)" "st' = ?s2" by simp_all
        with t2 e(3) [OF upd] q1 has_blob_quiet [OF q1] show ?thesis by (auto simp: ref_step_def ref_added_def quiet_step_def)
      next
        case absent
        with l y False on assms(4) have s: "store_existing L ?h data t spl ?s2 = (r, st')" by simp
        have "content_blobs db = content_blobs (sh_meta s1)" using e(3) [OF absent] bump_absent by metis
        then have "quiet_step st ?s2" using q1 t2 by (simp add: quiet_step_def touched_def)
        from ex [OF this s] show ?thesis .
      qed
    qed
  qed
qed

lemma store_inv_ref:
  assumes "store_inv zs st" and "ref_step zs (ContentHash_of data) data st r st'" and "md_wf (sh_meta st')"
  shows "store_inv zs st'"
proof -
  let ?h = "ContentHash_of data"
  have i: "sm_inv (segments (sh_blobs st))" using assms(1) by (simp add: store_inv_def)
  have k: "store_keeps (sh_blobs st) (sh_blobs st')" using assms(2) by (simp add: ref_step_def touched_def)
  have old: "backed zs (sh_blobs st') b" if "b \<in> set (content_blobs (sh_meta st))" for b
  proof -
    obtain d where "blob_content zs (sh_blobs st) b d"
      using assms(1) \<open>b \<in> set (content_blobs (sh_meta st))\<close> by (auto simp: store_inv_def list_all_iff backed_def)
    from blob_content_keeps [OF k i this] show ?thesis by (auto simp: backed_def)
  qed
  have "backed zs (sh_blobs st') b" if "b \<in> set (content_blobs (sh_meta st'))" for b
  proof -
    from assms(2) consider "content_blobs (sh_meta st') = content_blobs (sh_meta st)"
      | "content_blobs (sh_meta st') = map (bump ?h) (content_blobs (sh_meta st))"
      | c where "blob_content zs (sh_blobs st') c data" "content_blobs (sh_meta st') = content_blobs (sh_meta st) @ [c]"
      by (auto simp: ref_step_def ref_added_def split: if_splits)
    then show ?thesis
    proof cases
      case 2
      then obtain c where "c \<in> set (content_blobs (sh_meta st))" "b = bump ?h c" using \<open>b \<in> _\<close> by auto
      with old [of c] show ?thesis by (simp add: backed_def)
    qed (use that old in \<open>auto simp: backed_def\<close>)
  qed
  with assms(1,3) k show ?thesis by (simp add: store_inv_def list_all_iff store_keeps_def)
qed


lemma ref_step_wf:
  assumes "md_wf (sh_meta st)" and "ref_step zs h data st r st'"
  shows "md_wf (sh_meta st')"
proof -
  let ?a = "sh_meta st" and ?b = "sh_meta st'"
  have rest: "same_rest ?a ?b" using assms(2) by (simp add: ref_step_def touched_def)
  from assms(2) consider "content_blobs ?b = content_blobs ?a" | "content_blobs ?b = content_blobs (bump_ref h ?a)"
    | c where "\<not> has_blob (ContentHash c) ?a" "content_blobs ?b = content_blobs ?a @ [c]"
    by (auto simp: ref_step_def ref_added_def bump_ref_def split: if_splits)
  then show ?thesis
  proof cases
    case 1
    with rest show ?thesis by (intro md_wf_cong [OF _ _ _ _ _ assms(1)]) (simp_all add: same_rest_def)
  next
    case 2
    with rest show ?thesis by (intro md_wf_cong [OF _ _ _ _ _ md_wf_bump [OF assms(1)]]) (simp_all add: same_rest_def)
  next
    case 3
    with rest show ?thesis
      by (intro md_wf_cong [OF _ _ _ _ _ md_wf_add_blob [OF assms(1) 3(1)]]) (simp_all add: same_rest_def)
  qed
qed

definition refs :: "bytes \<Rightarrow> meta_db \<Rightarrow> int" where
  "refs h db = (case find_blob h db of None \<Rightarrow> 0 | Some b \<Rightarrow> RefCount b)"

lemma find_blob_cong: "content_blobs d = content_blobs db \<Longrightarrow> find_blob h d = find_blob h db"
  by (simp add: find_blob_def)

lemma ref_added_refs:
  assumes "ref_added zs h data st st'"
  shows "refs k (sh_meta st') = refs k (sh_meta st) + (if k = h then 1 else 0)"
proof (cases "has_blob h (sh_meta st)")
  case True
  then have "find_blob k (sh_meta st') = map_option (bump h) (find_blob k (sh_meta st))"
    using assms find_blob_bump [of k h "sh_meta st"] by (simp add: ref_added_def find_blob_def bump_ref_def)
  moreover have "find_blob h (sh_meta st) \<noteq> None" using True find_blob_None by blast
  ultimately show ?thesis using find_blob_hash [of k "sh_meta st"] by (auto simp: refs_def bump_def split: option.split)
next
  case False
  then obtain b where b: "ContentHash b = h" "RefCount b = 1" "content_blobs (sh_meta st') = content_blobs (sh_meta st) @ [b]"
    using assms by (auto simp: ref_added_def)
  have "find_blob k (sh_meta st') = (case find_blob k (sh_meta st) of Some x \<Rightarrow> Some x | None \<Rightarrow> if ContentHash b = k then Some b else None)"
    using b(3) by (simp add: find_blob_def find_snoc)
  moreover have "find_blob h (sh_meta st) = None" using False find_blob_None by blast
  ultimately show ?thesis using b by (auto simp: refs_def split: option.split)
qed

text \<open>What a row holds it goes on holding.\<close>

lemma ref_step_row:
  assumes "ref_step zs h data st r st'" and "sm_inv (segments (sh_blobs st))"
    and "find_blob k (sh_meta st) = Some b" and "blob_content zs (sh_blobs st) b d"
  shows "\<exists>b'. find_blob k (sh_meta st') = Some b' \<and> blob_content zs (sh_blobs st') b' d"
proof -
  have "store_keeps (sh_blobs st) (sh_blobs st')" using assms(1) by (simp add: ref_step_def touched_def)
  note c = blob_content_keeps [OF this assms(2,4)]
  from assms(1) consider "content_blobs (sh_meta st') = content_blobs (sh_meta st)"
    | "content_blobs (sh_meta st') = map (bump h) (content_blobs (sh_meta st))"
    | x where "content_blobs (sh_meta st') = content_blobs (sh_meta st) @ [x]"
    by (auto simp: ref_step_def ref_added_def split: if_splits)
  then show ?thesis
  proof cases
    case 2
    then have "find_blob k (sh_meta st') = Some (bump h b)" using assms(3) by (simp add: find_blob_def find_map_same)
    with c show ?thesis by simp
  qed (use assms(3) c in \<open>auto simp: find_blob_def find_snoc\<close>)
qed

fun store_all :: "('s, 'b) libs \<Rightarrow> (bytes \<times> RecordType \<times> int) list \<Rightarrow> ('s, 'b) shard \<Rightarrow> ('s, 'b) shard" where
  "store_all L [] st = st"
| "store_all L ((data, t, spl) # xs) st = store_all L xs (snd (StoreOrRef L data t spl st))"

lemma StoreOrRef_inv:
  assumes "zstd_laws (lib_zstd L)" and "store_inv (lib_zstd L) st" and "StoreOrRef L data t spl st = (r, st')"
  shows "store_inv (lib_zstd L) st'" and "ref_step (lib_zstd L) (ContentHash_of data) data st r st'"
    and "r = Inr x \<Longrightarrow> x = (ContentHash_of data, \<not> has_blob (ContentHash_of data) (sh_meta st))"
proof -
  have i: "sm_inv (segments (sh_blobs st))" "encoder_ready (encoder (sh_blobs st))" "md_wf (sh_meta st)"
    using assms(2) by (simp_all add: store_inv_def)
  note s = StoreOrRef_step [OF assms(1) i(1,2) assms(3)]
  show rs: "ref_step (lib_zstd L) (ContentHash_of data) data st r st'" using s by blast
  show "store_inv (lib_zstd L) st'" by (rule store_inv_ref [OF assms(2) rs ref_step_wf [OF i(3) rs]])
  show "r = Inr x \<Longrightarrow> x = (ContentHash_of data, \<not> has_blob (ContentHash_of data) (sh_meta st))" using s by blast
qed

lemma store_all_row:
  assumes "zstd_laws (lib_zstd L)" and "store_inv (lib_zstd L) st" and "find_blob k (sh_meta st) = Some b" and "blob_content (lib_zstd L) (sh_blobs st) b d"
  shows "store_inv (lib_zstd L) (store_all L xs st)
    \<and> (\<exists>b'. find_blob k (sh_meta (store_all L xs st)) = Some b' \<and> blob_content (lib_zstd L) (sh_blobs (store_all L xs st)) b' d)"
  using assms(2-4)
proof (induction xs arbitrary: st b)
  case (Cons x xs)
  obtain data t spl where x: "x = (data, t, spl)" by (metis prod.exhaust)
  obtain r st1 where s: "StoreOrRef L data t spl st = (r, st1)" by fastforce
  note i = StoreOrRef_inv [OF assms(1) Cons.prems(1) s]
  have "sm_inv (segments (sh_blobs st))" using Cons.prems(1) by (simp add: store_inv_def)
  from ref_step_row [OF i(2) this Cons.prems(2,3)] Cons.IH [OF i(1)] show ?case by (auto simp: x s)
qed auto

subsection \<open>Properties\<close>

text \<open>
  Every content blob of the database stays backed by a durable record that
  decodes to content of its hash and size, whatever fails; a successful store or reference adds
  one reference to the content's hash and none to any other.
\<close>

theorem StoreOrRef_backs_every_blob:
  assumes "zstd_laws (lib_zstd L)" and "store_inv (lib_zstd L) st" and "StoreOrRef L data t spl st = (r, st')"
  shows "store_inv (lib_zstd L) st' \<and> (case r of Inl _ \<Rightarrow> True | Inr (h, created) \<Rightarrow>
      h = ContentHash_of data \<and> (created \<longleftrightarrow> \<not> has_blob h (sh_meta st))
      \<and> (\<forall>k. refs k (sh_meta st') = refs k (sh_meta st) + (if k = h then 1 else 0)))"
proof -
  note i = StoreOrRef_inv [OF assms]
  show ?thesis
  proof (cases r)
    case (Inr x)
    then have "ref_added (lib_zstd L) (ContentHash_of data) data st st'" using i(2) by (auto simp: ref_step_def)
    from ref_added_refs [OF this] i(1) i(3) [OF Inr] Inr show ?thesis by simp
  qed (use i(1) in simp)
qed

text \<open>
  C25 (roundtrip). Content that was stored or referenced is read back after any further stores,
  failed ones included: a read returns content of the same hash and nothing else, the very bytes
  when they were stored by this call, and does return it on a disk that does not fail.
\<close>

theorem StoreOrRef_then_ReadBlob:
  assumes "zstd_laws (lib_zstd L)" and "store_inv (lib_zstd L) st"
    and "StoreOrRef L data t spl st = (Inr (h, created), st1)" and "st2 = store_all L xs st1"
  shows "\<exists>b y. find_blob h (sh_meta st2) = Some b \<and> ContentHash_of y = ContentHash_of data \<and> (created \<longrightarrow> y = data)
     \<and> (\<forall>z. fst (ReadBlob (lib_zstd L) b (sh_blobs st2)) = Inr z \<longrightarrow> z = y)
     \<and> (healthy (segments (sh_blobs st2)) \<longrightarrow> fst (ReadBlob (lib_zstd L) b (sh_blobs st2)) = Inr y)"
proof -
  note i = StoreOrRef_inv [OF assms(1-3)]
  have h: "h = ContentHash_of data" "created \<longleftrightarrow> \<not> has_blob h (sh_meta st)" using i(3) by auto
  have add: "ref_added (lib_zstd L) h data st st1" using i(2) h by (auto simp: ref_step_def)
  obtain b y where b: "find_blob h (sh_meta st1) = Some b" "blob_content (lib_zstd L) (sh_blobs st1) b y" "created \<longrightarrow> y = data"
  proof (cases "has_blob h (sh_meta st)")
    case True
    then obtain c where c: "find_blob h (sh_meta st1) = Some c" using add find_blob_None [of h "sh_meta st1"]
      by (fastforce simp: ref_added_def has_blob_def list_ex_iff)
    then have "c \<in> set (content_blobs (sh_meta st1))" by (auto simp: find_blob_def dest: find_SomeD)
    then have "backed (lib_zstd L) (sh_blobs st1) c" using i(1) by (simp add: store_inv_def list_all_iff)
    with c True h(2) show ?thesis by (auto simp: backed_def intro: that)
  next
    case False
    then obtain c where c: "ContentHash c = h" "blob_content (lib_zstd L) (sh_blobs st1) c data"
        "content_blobs (sh_meta st1) = content_blobs (sh_meta st) @ [c]" using add by (auto simp: ref_added_def)
    have "find_blob h (sh_meta st) = None" using False find_blob_None by blast
    then have "find_blob h (sh_meta st1) = Some c" using c(1,3) by (simp add: find_blob_def find_snoc)
    with c(2) show ?thesis by (auto intro: that)
  qed
  obtain b' where b': "find_blob h (sh_meta st2) = Some b'" "blob_content (lib_zstd L) (sh_blobs st2) b' y" "store_inv (lib_zstd L) st2"
    using store_all_row [OF assms(1) i(1) b(1,2)] assms(4) by auto
  have "sm_inv (segments (sh_blobs st2))" using b'(3) by (simp add: store_inv_def)
  note rd = ReadBlob_content [OF b'(2) this]
  have "ContentHash_of y = ContentHash_of data"
    using b'(2) find_blob_hash [OF b'(1)] h(1) by (simp add: blob_content_def)
  with b' b(3) rd show ?thesis by blast
qed

subsection \<open>A concrete store\<close>

text \<open>A compressor for runs of one byte, and a store on an empty directory and database.\<close>

definition run_bytes :: "bytes \<Rightarrow> bool" where
  "run_bytes x \<longleftrightarrow> length x < 256 \<and> x = replicate (length x) (hd x)"

definition run_zstd :: zstd where
  "run_zstd = \<lparr>zs_NewWriter = \<lambda>_. None, zs_NewReader = \<lambda>_. None,
     zs_EncodeAll = \<lambda>_ x. [0x28, 0xB5, 0x2F, 0xFD] @ (if run_bytes x then [0, of_nat (length x), hd x] else 1 # x),
     zs_DecodeAll = \<lambda>_ z. (case drop 4 z of [] \<Rightarrow> Inl (Err ''corrupt'') | c # y \<Rightarrow>
        if c = 0 then Inr (replicate (unat (y ! 0)) (y ! 1)) else Inr y),
     zs_BuildDict = \<lambda>_. Inr []\<rparr>"

lemma run_zstd_laws: "zstd_laws run_zstd"
proof -
  have "replicate (unat (of_nat (length x) :: 8 word)) (hd x) = x" if "run_bytes x" for x
    using that by (simp add: run_bytes_def unat_of_nat)
  then show ?thesis by (auto simp: zstd_laws_def run_zstd_def)
qed

definition sample_libs :: "(memoryStore, bytes list) libs" where
  "sample_libs = \<lparr>lib_zstd = run_zstd, lib_kv = memory_kv, lib_bloom = exact_bloom\<rparr>"

definition sample_encoder :: Encoder where
  "sample_encoder = \<lparr>dictID = 0, minSize = 64, dict = [], has_enc = True, has_dec = True\<rparr>"

definition empty_shard :: "(memoryStore, bytes list) shard" where
  "empty_shard = \<lparr>sh_blobs = NewBlobStore (fresh_manager 1000) None (Some sample_encoder) None False [3], sh_meta = empty_meta [4]\<rparr>"

abbreviation sample_data :: bytes where
  "sample_data \<equiv> replicate 100 7"

lemma empty_shard_inv: "store_inv run_zstd empty_shard"
  by (simp add: store_inv_def empty_shard_def NewBlobStore_def encoder_ready_def sample_encoder_def empty_meta_def md_wf_def)

lemma sample_record: "encodeRecord run_zstd (Some sample_encoder) sample_data RecordXML
    = EncodeRecord MagicXMLC [0x28, 0xB5, 0x2F, 0xFD, 0, 100, 7]"
proof -
  have "Compress run_zstd sample_encoder sample_data = [0x28, 0xB5, 0x2F, 0xFD, 0, 100, 7]" by code_simp
  then show ?thesis by (simp add: encodeRecord_def ShouldCompress_def sample_encoder_def)
qed

lemma sample_store:
  "\<exists>st. StoreOrRef sample_libs sample_data RecordXML 5 empty_shard = (Inr (ContentHash_of sample_data, True), st)
     \<and> healthy (segments (sh_blobs st))"
proof -
  let ?p = "[0x28, 0xB5, 0x2F, 0xFD, 0, 100, 7] :: bytes"
  have a: "Append_segments False (EncodeRecord MagicXMLC ?p) (fresh_manager 1000) = (Inr (first_loc ?p), one_record 1000 MagicXMLC ?p)"
    by (simp add: Append_segments_def appendDirect_first)
  have h: "healthy (one_record 1000 MagicXMLC ?p)" by (rule one_record_ok)
  show ?thesis
    unfolding StoreOrRef_def Let_def
    by (simp add: empty_shard_def sample_libs_def NewBlobStore_def store_existing_def on_tx_def tx_GetBlob_def tx_stmt_def empty_meta_def
        md_take_fault_def find_blob_def storeNew_def Let_def sample_record on_segments_def a bs_now_def tx_InsertBlobOrIncrement_def
        blob_types_def new_blob_def int4_def has_blob_def segment_index_append_def indexPut_def h)
qed

theorem StoreOrRef_backs_every_blob_witness:
  "\<exists>st. StoreOrRef sample_libs sample_data RecordXML 5 empty_shard = (Inr (ContentHash_of sample_data, True), st)
     \<and> refs (ContentHash_of sample_data) (sh_meta st) = 1 \<and> store_inv run_zstd st"
proof -
  obtain st where s: "StoreOrRef sample_libs sample_data RecordXML 5 empty_shard = (Inr (ContentHash_of sample_data, True), st)"
    using sample_store by blast
  have L: "lib_zstd sample_libs = run_zstd" by (simp add: sample_libs_def)
  have "refs (ContentHash_of sample_data) (sh_meta empty_shard) = 0"
    by (simp add: refs_def empty_shard_def empty_meta_def find_blob_def)
  with s StoreOrRef_backs_every_blob [OF _ _ s] show ?thesis by (simp add: L run_zstd_laws empty_shard_inv)
qed

theorem StoreOrRef_then_ReadBlob_witness:
  "\<exists>st b. StoreOrRef sample_libs sample_data RecordXML 5 empty_shard = (Inr (ContentHash_of sample_data, True), st)
     \<and> find_blob (ContentHash_of sample_data) (sh_meta st) = Some b
     \<and> fst (ReadBlob run_zstd b (sh_blobs st)) = Inr sample_data"
proof -
  obtain st where s: "StoreOrRef sample_libs sample_data RecordXML 5 empty_shard = (Inr (ContentHash_of sample_data, True), st)"
    "healthy (segments (sh_blobs st))"
    using sample_store by blast
  have L: "lib_zstd sample_libs = run_zstd" by (simp add: sample_libs_def)
  from StoreOrRef_then_ReadBlob [OF _ _ s(1), of st "[]"] s show ?thesis
    by (auto simp: L run_zstd_laws empty_shard_inv)
qed

end
