(* ===== verification/Journal.thy ===== *)
theory Journal
  imports Disk Json Metadata
begin

text \<open>
  The ingest journal (\<^verbatim>\<open>internal/recovery/journal.go\<close>, \<^verbatim>\<open>journal_record.go\<close>): one line of JSON per
  package, appended and synced. The text of an entry is what \<^verbatim>\<open>json.Marshal\<close> writes for it. Instants
  count nanoseconds since 1970; strings are taken to be valid UTF-8.
\<close>

subsection \<open>The text of JSON values\<close>

definition hex_char :: "nat \<Rightarrow> char" where
  "hex_char n = ''0123456789abcdef'' ! n"

definition hex_byte :: "nat \<Rightarrow> string" where
  "hex_byte n = [hex_char (n div 16 mod 16), hex_char (n mod 16)]"

text \<open>Characters in a JSON string: quotes, backslashes, control characters and HTML are escaped.\<close>

definition json_char :: "char \<Rightarrow> string" where
  "json_char c = (let n = of_char c :: nat; backslash = CHR 0x5C in
     if n = 34 \<or> n = 92 then [backslash, c]
     else if n = 8 then [backslash, CHR ''b''] else if n = 12 then [backslash, CHR ''f'']
     else if n = 10 then [backslash, CHR ''n''] else if n = 13 then [backslash, CHR ''r'']
     else if n = 9 then [backslash, CHR ''t'']
     else if n < 32 \<or> n = 60 \<or> n = 62 \<or> n = 38 then backslash # ''u00'' @ hex_byte n
     else [c])"

text \<open>The line separators U+2028 and U+2029, in UTF-8, are escaped too.\<close>

definition line_separator :: "char \<Rightarrow> char \<Rightarrow> char \<Rightarrow> bool" where
  "line_separator a b c \<longleftrightarrow> (of_char a :: nat) = 0xE2 \<and> (of_char b :: nat) = 0x80 \<and> (of_char c :: nat) \<in> {0xA8, 0xA9}"

fun json_chars :: "string \<Rightarrow> string" where
  "json_chars (a # b # c # v) =
     (if line_separator a b c then CHR 0x5C # ''u202'' @ hex_char (of_char c mod 16) # json_chars v
      else json_char a @ json_chars (b # c # v))"
| "json_chars v = concat (map json_char v)"

definition json_string :: "string \<Rightarrow> string" where
  "json_string v = CHR 0x22 # json_chars v @ [CHR 0x22]"

fun commas :: "string list \<Rightarrow> string" where
  "commas [] = []"
| "commas [x] = x"
| "commas (x # y # zs) = x @ '','' @ commas (y # zs)"

fun json_text :: "json \<Rightarrow> string" where
  "json_text JNull = ''null''"
| "json_text (JBool b) = (if b then ''true'' else ''false'')"
| "json_text (JNum i) = itoa i"
| "json_text (JReal i) = itoa i"
| "json_text (JStr v) = json_string v"
| "json_text (JArr vs) = ''['' @ commas (map json_text vs) @ '']''"
| "json_text (JObj kvs) = ''{'' @ commas (map (\<lambda>kv. json_string (fst kv) @ '':'' @ json_text (snd kv)) kvs) @ ''}''"

subsection \<open>Instants\<close>

definition pad :: "nat \<Rightarrow> nat \<Rightarrow> string" where
  "pad k n = replicate (k - length (decimal n)) (CHR ''0'') @ decimal n"

text \<open>Year, month and day of a day counted from 1 January 1970.\<close>

definition civil :: "int \<Rightarrow> int \<times> int \<times> int" where
  "civil days =
     (let z = days + 719468; era = z div 146097; doe = z mod 146097;
          yoe = (doe - doe div 1460 + doe div 36524 - doe div 146096) div 365;
          doy = doe - (365 * yoe + yoe div 4 - yoe div 100); mp = (5 * doy + 2) div 153;
          d = doy - (153 * mp + 2) div 5 + 1; m = (if mp < 10 then mp + 3 else mp - 9)
      in (yoe + era * 400 + (if m \<le> 2 then 1 else 0), m, d))"

definition fraction :: "nat \<Rightarrow> string" where
  "fraction ns = (if ns = 0 then [] else ''.'' @ rev (dropWhile (\<lambda>c. c = CHR ''0'') (rev (pad 9 ns))))"

definition FormatTimeUTC :: "time \<Rightarrow> string" where
  "FormatTimeUTC t =
     (let secs = t div 1000000000; ns = t mod 1000000000; s = secs mod 86400 in
      case civil (secs div 86400) of (y, m, d) \<Rightarrow>
        pad 4 (nat y) @ ''-'' @ pad 2 (nat m) @ ''-'' @ pad 2 (nat d) @ ''T'' @ pad 2 (nat (s div 3600)) @ '':''
        @ pad 2 (nat (s mod 3600 div 60)) @ '':'' @ pad 2 (nat (s mod 60)) @ fraction (nat ns) @ ''Z'')"

definition hex_EncodeToString :: "bytes \<Rightarrow> string" where
  "hex_EncodeToString bs = concat (map (\<lambda>b. hex_byte (unat b)) bs)"

subsection \<open>Entries\<close>

record FileRef =
  fr_FileID :: int
  fr_BlobHash :: string
  fr_Role :: string
  fr_OriginalFilename :: "string option"
  fr_SequenceNumber :: "int option"

record JournalEntry =
  Version :: int
  je_PackageID :: int
  je_SupplierID :: int
  je_ReceivedAt :: string
  je_PackageHash :: string
  je_PayloadType :: string
  je_StorageMode :: string
  je_CanonicalPackageID :: "int option"
  je_OriginalFilename :: "string option"
  je_FileCount :: int
  je_UnpackError :: "string option"
  je_Files :: "FileRef list option"

definition journalVersion :: int where "journalVersion = 1"

definition JournalFile :: string where "JournalFile = ''ingest_journal.ndjson''"

definition file_ref :: "PackageFile \<Rightarrow> FileRef" where
  "file_ref f = \<lparr>fr_FileID = pf_ID f, fr_BlobHash = hex_EncodeToString (BlobHash f), fr_Role = Role f,
     fr_OriginalFilename = pf_OriginalFilename f, fr_SequenceNumber = SequenceNumber f\<rparr>"

text \<open>A nil slice is \<open>None\<close>.\<close>

definition EntryFromPackage :: "Package \<Rightarrow> JournalEntry" where
  "EntryFromPackage p = \<lparr>Version = 0, je_PackageID = pk_ID p, je_SupplierID = pk_SupplierID p,
     je_ReceivedAt = FormatTimeUTC (pk_ReceivedAt p), je_PackageHash = hex_EncodeToString (pk_PackageHash p),
     je_PayloadType = PayloadType_of p, je_StorageMode = StorageMode p, je_CanonicalPackageID = CanonicalPackageID p,
     je_OriginalFilename = pk_OriginalFilename p, je_FileCount = FileCount p, je_UnpackError = UnpackError p,
     je_Files = (if Files p = [] then None else Some (map file_ref (Files p)))\<rparr>"

definition omitempty :: "string \<Rightarrow> ('a \<Rightarrow> json) \<Rightarrow> 'a option \<Rightarrow> (string \<times> json) list" where
  "omitempty k f v = (case v of None \<Rightarrow> [] | Some x \<Rightarrow> [(k, f x)])"

definition file_json :: "FileRef \<Rightarrow> json" where
  "file_json f = JObj ([(''file_id'', JNum (fr_FileID f)), (''blob_hash'', JStr (fr_BlobHash f)), (''role'', JStr (fr_Role f))]
     @ omitempty ''original_filename'' JStr (fr_OriginalFilename f) @ omitempty ''sequence_number'' JNum (fr_SequenceNumber f))"

definition entry_json :: "JournalEntry \<Rightarrow> json" where
  "entry_json e = JObj ([(''v'', JNum (Version e)), (''package_id'', JNum (je_PackageID e)), (''supplier_id'', JNum (je_SupplierID e)),
     (''received_at'', JStr (je_ReceivedAt e)), (''package_hash'', JStr (je_PackageHash e)),
     (''payload_type'', JStr (je_PayloadType e)), (''storage_mode'', JStr (je_StorageMode e))]
     @ omitempty ''canonical_package_id'' JNum (je_CanonicalPackageID e)
     @ omitempty ''original_filename'' JStr (je_OriginalFilename e)
     @ [(''file_count'', JNum (je_FileCount e))]
     @ omitempty ''unpack_error'' JStr (je_UnpackError e)
     @ [(''files'', case je_Files e of None \<Rightarrow> JNull | Some fs \<Rightarrow> JArr (map file_json fs))])"

definition text_bytes :: "string \<Rightarrow> bytes" where
  "text_bytes v = map (\<lambda>c. of_nat (of_char c)) v"

definition marshal_entry :: "JournalEntry \<Rightarrow> bytes" where
  "marshal_entry e = text_bytes (json_text (entry_json (if Version e = 0 then e\<lparr>Version := journalVersion\<rparr> else e)))"

subsection \<open>The journal file\<close>

record Journal =
  jn_open :: bool
  jn_disk :: disk

definition on_jn :: "(disk \<Rightarrow> (disk, 'a) result) \<Rightarrow> Journal \<Rightarrow> (Journal, 'a) result" where
  "on_jn f j = (case f (jn_disk j) of (r, d) \<Rightarrow> (r, j\<lparr>jn_disk := d\<rparr>))"

text \<open>\<^verbatim>\<open>os.MkdirAll\<close> takes one element of the schedule and changes no file.\<close>

definition NewJournal :: "disk \<Rightarrow> (disk, Journal) result" where
  "NewJournal d = (case next_io d of
       (Some m, _, d) \<Rightarrow> (Inl (Err m), d)
     | (None, _, d) \<Rightarrow> (case os_OpenCreate JournalFile d of
          (Inl e, d) \<Rightarrow> (Inl (Wrap ''open journal: '' e []), d)
        | (Inr _, d) \<Rightarrow> (Inr \<lparr>jn_open = True, jn_disk = d\<rparr>, d)))"

text \<open>A write to a file opened with \<^verbatim>\<open>O_APPEND\<close> goes to its end.\<close>

definition jn_write :: "bytes \<Rightarrow> Journal \<Rightarrow> (Journal, nat) result" where
  "jn_write p j = (if \<not> jn_open j then (Inl (Sentinel ''file already closed''), j)
     else on_jn (os_WriteAt JournalFile p (case dlookup (jn_disk j) JournalFile of None \<Rightarrow> 0 | Some f \<Rightarrow> length (fdata f))) j)"

definition Journal_Append :: "JournalEntry \<Rightarrow> Journal \<Rightarrow> (Journal, unit) result" where
  "Journal_Append e j =
     tryE (jn_write (marshal_entry e) j) (\<lambda>_ j.
     tryE (jn_write [10] j) (\<lambda>_ j. on_jn (os_Sync JournalFile) j))"

definition Journal_Close :: "Journal \<Rightarrow> (Journal, unit) result" where
  "Journal_Close j = (Inr (), j\<lparr>jn_open := False\<rparr>)"

subsection \<open>Lines\<close>

fun split_lines :: "bytes \<Rightarrow> bytes list" where
  "split_lines [] = []"
| "split_lines (b # bs) = (if b = 10 then [] # split_lines bs
     else case split_lines bs of [] \<Rightarrow> [[b]] | l # ls \<Rightarrow> (b # l) # ls)"

text \<open>No control character is written inside an entry, so neither a line break nor a carriage return.\<close>

definition control :: "char \<Rightarrow> bool" where
  "control c \<longleftrightarrow> (of_char c :: nat) < 32"

lemma hex_char_printable: "n < 16 \<Longrightarrow> \<not> control (hex_char n)"
proof -
  assume n: "n < 16"
  have "hex_char n \<in> set ''0123456789abcdef''" using n unfolding hex_char_def by (intro nth_mem) simp
  moreover have "\<forall>c\<in>set ''0123456789abcdef''. \<not> control c" by (simp add: control_def)
  ultimately show ?thesis by blast
qed

lemma json_char_printable: "c \<in> set (json_char d) \<Longrightarrow> \<not> control c"
  using hex_char_printable [of "of_char d div 16 mod 16"] hex_char_printable [of "of_char d mod 16"]
  by (auto simp: json_char_def hex_byte_def Let_def control_def split: if_splits)

lemma json_chars_printable: "c \<in> set (json_chars v) \<Longrightarrow> \<not> control c"
proof (induction v rule: json_chars.induct)
  case (1 x y z v)
  then show ?case using hex_char_printable [of "of_char z mod 16"] json_char_printable
    by (auto simp: control_def split: if_splits)
qed (auto dest: json_char_printable)

lemma json_string_printable: "c \<in> set (json_string v) \<Longrightarrow> \<not> control c"
  using json_chars_printable by (auto simp: json_string_def control_def)

lemma set_commas: "x \<in> set (commas vs) \<Longrightarrow> x = CHR '','' \<or> (\<exists>v\<in>set vs. x \<in> set v)"
  by (induction vs rule: commas.induct) auto

lemma itoa_printable: "c \<in> set (itoa i) \<Longrightarrow> \<not> control c"
proof -
  have d: "\<not> control c" if "is_digit c" for c using that by (auto simp: is_digit_def control_def)
  assume "c \<in> set (itoa i)"
  then show ?thesis using d decimal_digits [of c] by (auto simp: itoa_def control_def split: if_splits)
qed

lemma json_text_printable: "c \<in> set (json_text j) \<Longrightarrow> \<not> control c"
proof (induction j rule: json_text.induct)
  case (6 vs)
  then show ?case by (auto simp: control_def dest!: set_commas)
next
  case (7 kvs)
  then show ?case using json_string_printable by (auto simp: control_def dest!: set_commas)
next
  case (2 b)
  then show ?case by (auto simp: control_def split: if_splits)
qed (auto simp: itoa_printable json_string_printable, auto simp: control_def)

lemma marshal_entry_printable: "b \<in> set (marshal_entry e) \<Longrightarrow> 32 \<le> unat b"
proof -
  assume "b \<in> set (marshal_entry e)"
  then obtain c j where c: "c \<in> set (json_text j)" "b = of_nat (of_char c)" by (auto simp: marshal_entry_def text_bytes_def)
  have "(of_char c :: nat) < 256" using mod_less_divisor [of 256 "of_char c :: nat"] by simp
  then have "unat b = of_char c" using c(2) by (simp add: unat_of_nat)
  with json_text_printable [OF c(1)] show ?thesis by (simp add: control_def)
qed

lemma marshal_entry_no_newline: "10 \<notin> set (marshal_entry e)"
  using marshal_entry_printable [of 10 e] by auto

lemma marshal_entry_nonempty: "marshal_entry e \<noteq> []"
  by (simp add: marshal_entry_def text_bytes_def entry_json_def)

lemma split_lines_line: "10 \<notin> set l \<Longrightarrow> split_lines (l @ 10 # bs) = l # split_lines bs"
  by (induction l) auto

lemma split_lines_append: "split_lines (concat (map (\<lambda>l. l @ [10]) ls) @ bs) = ls @ split_lines bs" if "\<forall>l\<in>set ls. 10 \<notin> set l"
  using that by (induction ls) (auto simp: split_lines_line)

subsection \<open>Appending\<close>

abbreviation jn_data :: "Journal \<Rightarrow> bytes option" where
  "jn_data j \<equiv> map_option fdata (dlookup (jn_disk j) JournalFile)"

lemma jn_write_own:
  assumes "jn_write p j = (r, j')" and "dlookup (jn_disk j) JournalFile = Some f"
  shows "\<exists>k g. dlookup (jn_disk j') JournalFile = Some g \<and> fdata g = fdata f @ take k p \<and> jn_open j' = jn_open j \<and> (\<forall>x. r = Inr x \<longrightarrow> k = length p)"
proof (cases "jn_open j")
  case False
  with assms show ?thesis by (intro exI [of _ 0] exI [of _ f]) (auto simp: jn_write_def)
next
  case True
  then obtain d where w: "os_WriteAt JournalFile p (length (fdata f)) (jn_disk j) = (r, d)" "j' = j\<lparr>jn_disk := d\<rparr>"
    using assms by (auto simp: jn_write_def on_jn_def split: prod.splits)
  from os_WriteAt_own [OF w(1) assms(2)] show ?thesis
  proof
    assume "r = Inr (length p) \<and> dlookup d JournalFile = Some (file_write (length (fdata f)) p f)"
    with w(2) show ?thesis by (intro exI [of _ "length p"]) (simp add: file_write_def)
  next
    assume "\<exists>e k. r = Inl e \<and> dlookup d JournalFile = Some (file_write (length (fdata f)) (take k p) f)"
    with w(2) show ?thesis by (auto simp: file_write_def)
  qed
qed

lemma Journal_Append_Inr:
  assumes "Journal_Append e j = (Inr u, j')" and "dlookup (jn_disk j) JournalFile = Some f"
  shows "\<exists>g. dlookup (jn_disk j') JournalFile = Some g \<and> fdata g = fdata f @ marshal_entry e @ [10]
     \<and> fsynced g = length (fdata g) \<and> jn_open j' = jn_open j"
proof -
  from assms(1) obtain n1 j1 n2 j2 where a: "jn_write (marshal_entry e) j = (Inr n1, j1)" "jn_write [10] j1 = (Inr n2, j2)"
    "on_jn (os_Sync JournalFile) j2 = (Inr u, j')" by (auto simp: Journal_Append_def tryE_Inr_iff)
  obtain g1 where g1: "dlookup (jn_disk j1) JournalFile = Some g1" "fdata g1 = fdata f @ marshal_entry e" "jn_open j1 = jn_open j"
    using jn_write_own [OF a(1) assms(2)] by auto
  obtain g2 where g2: "dlookup (jn_disk j2) JournalFile = Some g2" "fdata g2 = fdata g1 @ [10]" "jn_open j2 = jn_open j1"
    using jn_write_own [OF a(2) g1(1)] by auto
  obtain d where s: "os_Sync JournalFile (jn_disk j2) = (Inr u, d)" "j' = j2\<lparr>jn_disk := d\<rparr>"
    using a(3) by (auto simp: on_jn_def split: prod.splits)
  from os_Sync_own [OF s(1) g2(1)] have "dlookup d JournalFile = Some (g2\<lparr>fsynced := length (fdata g2)\<rparr>)" by auto
  with g1 g2 s(2) show ?thesis by simp
qed

fun journal_all :: "JournalEntry list \<Rightarrow> Journal \<Rightarrow> (Journal, unit) result" where
  "journal_all [] j = (Inr (), j)"
| "journal_all (e # es) j = tryE (Journal_Append e j) (\<lambda>_ j. journal_all es j)"

lemma journal_all_data:
  assumes "journal_all es j = (Inr u, j')" and "dlookup (jn_disk j) JournalFile = Some f" and "fsynced f = length (fdata f)"
  shows "\<exists>g. dlookup (jn_disk j') JournalFile = Some g \<and> fsynced g = length (fdata g)
     \<and> fdata g = fdata f @ concat (map (\<lambda>e. marshal_entry e @ [10]) es)"
  using assms
proof (induction es arbitrary: j f)
  case (Cons e es)
  from Cons.prems(1) obtain v j1 where a: "Journal_Append e j = (Inr v, j1)" "journal_all es j1 = (Inr u, j')"
    by (auto simp: tryE_Inr_iff)
  obtain g where "dlookup (jn_disk j1) JournalFile = Some g" "fdata g = fdata f @ marshal_entry e @ [10]" "fsynced g = length (fdata g)"
    using Journal_Append_Inr [OF a(1) Cons.prems(2)] by blast
  with Cons.IH [OF a(2)] show ?case by auto
qed auto

text \<open>
  Entries appended one after the other to a journal of whole lines are its lines
  behind those it had, in order, each the text of its entry, and all of it is on stable storage.
\<close>

theorem journal_lines:
  assumes "dlookup (jn_disk j) JournalFile = Some f" and "fsynced f = length (fdata f)"
    and "fdata f = concat (map (\<lambda>l. l @ [10]) ls)" and "\<forall>l\<in>set ls. 10 \<notin> set l"
    and "journal_all es j = (Inr u, j')"
  shows "\<exists>g. dlookup (jn_disk j') JournalFile = Some g \<and> fsynced g = length (fdata g)
     \<and> split_lines (fdata g) = ls @ map marshal_entry es"
proof -
  obtain g where g: "dlookup (jn_disk j') JournalFile = Some g" "fsynced g = length (fdata g)"
      "fdata g = fdata f @ concat (map (\<lambda>e. marshal_entry e @ [10]) es)"
    using journal_all_data [OF assms(5,1,2)] by blast
  have "split_lines (concat (map (\<lambda>e. marshal_entry e @ [10]) es)) = map marshal_entry es"
    using split_lines_append [of "map marshal_entry es" "[]"] marshal_entry_no_newline by (simp add: comp_def)
  with g assms(3) split_lines_append [OF assms(4)] show ?thesis by auto
qed

definition sample_entry :: JournalEntry where
  "sample_entry = \<lparr>Version = 0, je_PackageID = 7, je_SupplierID = 3, je_ReceivedAt = FormatTimeUTC 1735819200000000000,
     je_PackageHash = ''ab'', je_PayloadType = ''xml'', je_StorageMode = ''single'', je_CanonicalPackageID = None,
     je_OriginalFilename = Some ''a<b>.xml'', je_FileCount = 1, je_UnpackError = None, je_Files = None\<rparr>"

lemma sample_entry_text: "json_text (entry_json (sample_entry\<lparr>Version := 1\<rparr>)) =
  ''{\"v\":1,\"package_id\":7,\"supplier_id\":3,\"received_at\":\"2025-01-02T12:00:00Z\",\"package_hash\":\"ab\",\"payload_type\":\"xml\",\"storage_mode\":\"single\",''
  @ ''\"original_filename\":\"a'' @ CHR 0x5C # ''u003cb'' @ CHR 0x5C # ''u003e.xml\",\"file_count\":1,\"files\":null}''"
  by code_simp

definition empty_journal :: "fault list \<Rightarrow> Journal" where
  "empty_journal fs = \<lparr>jn_open = True, jn_disk = \<lparr>dfiles = [(JournalFile, empty_file)], dio = fs\<rparr>\<rparr>"

theorem journal_lines_witness:
  "\<exists>j g. journal_all [sample_entry, sample_entry] (empty_journal []) = (Inr (), j) \<and> dlookup (jn_disk j) JournalFile = Some g
     \<and> split_lines (fdata g) = [marshal_entry sample_entry, marshal_entry sample_entry]"
proof -
  obtain j where j: "journal_all [sample_entry, sample_entry] (empty_journal []) = (Inr (), j)"
    by (simp add: empty_journal_def Journal_Append_def jn_write_def on_jn_def os_WriteAt_def os_Sync_def next_io_def put_file_def)
  from journal_lines [of "empty_journal []" empty_file "[]", OF _ _ _ _ j] j show ?thesis
    by (auto simp: empty_journal_def empty_file_def)
qed

text \<open>
  C26 (safety, a violation). An append that fails part-way leaves the beginning of a line behind.
  The next append is acknowledged and synced, but its entry is glued to that beginning: no line of
  the journal is the text of the entry, and a reader finds a broken line that is not the last.
\<close>

theorem journal_append_after_failure_glued:
  assumes "dlookup (jn_disk j) JournalFile = Some f" and "fdata f = concat (map (\<lambda>l. l @ [10]) ls)" and "\<forall>l\<in>set ls. 10 \<notin> set l"
    and "jn_open j" and "dio (jn_disk j) = [Fail k m]" and "0 < k" and "k < length (marshal_entry e1)"
  shows "\<exists>j1 j2 g. Journal_Append e1 j = (Inl (Err m), j1) \<and> Journal_Append e2 j1 = (Inr (), j2)
     \<and> dlookup (jn_disk j2) JournalFile = Some g
     \<and> split_lines (fdata g) = ls @ [take k (marshal_entry e1) @ marshal_entry e2]"
proof -
  let ?p = "marshal_entry e1"
  let ?d = "put_file JournalFile (file_write (length (fdata f)) (take k ?p) f) (jn_disk j\<lparr>dio := []\<rparr>)"
  let ?j1 = "j\<lparr>jn_disk := ?d\<rparr>"
  have lk: "dlookup (jn_disk j\<lparr>dio := []\<rparr>) JournalFile = Some f" using assms(1) by simp
  have w: "jn_write ?p j = (Inl (Err m), ?j1)"
    using assms(1,4,5) by (simp add: jn_write_def on_jn_def os_WriteAt_def next_io_def)
  then have a1: "Journal_Append e1 j = (Inl (Err m), ?j1)" by (simp add: Journal_Append_def)
  have f1: "dlookup (jn_disk ?j1) JournalFile = Some (file_write (length (fdata f)) (take k ?p) f)" by simp
  obtain j2 where a2: "Journal_Append e2 ?j1 = (Inr (), j2)"
    using assms(4) by (simp add: Journal_Append_def jn_write_def on_jn_def os_WriteAt_def os_Sync_def next_io_def)
  obtain g where g: "dlookup (jn_disk j2) JournalFile = Some g" "fdata g = (fdata f @ take k ?p) @ marshal_entry e2 @ [10]"
    using Journal_Append_Inr [OF a2 f1] by (auto simp: file_write_def)
  have n: "10 \<notin> set (take k ?p @ marshal_entry e2)"
    using marshal_entry_no_newline [of e1] marshal_entry_no_newline [of e2] by (auto dest: in_set_takeD)
  have "split_lines (fdata g) = ls @ [take k ?p @ marshal_entry e2]"
    using split_lines_append [OF assms(3), of "(take k ?p @ marshal_entry e2) @ [10]"] split_lines_line [OF n, of "[]"] g(2) assms(2) by simp
  with a1 a2 g(1) show ?thesis by blast
qed

theorem journal_append_after_failure_glued_witness:
  "\<exists>j1 j2 g. Journal_Append sample_entry (empty_journal [Fail 5 ''disk full'']) = (Inl (Err ''disk full''), j1)
     \<and> Journal_Append sample_entry j1 = (Inr (), j2) \<and> dlookup (jn_disk j2) JournalFile = Some g
     \<and> split_lines (fdata g) = [take 5 (marshal_entry sample_entry) @ marshal_entry sample_entry]"
proof -
  have "5 < length (marshal_entry sample_entry)"
    using arg_cong [OF sample_entry_text, of length] by (simp add: marshal_entry_def text_bytes_def sample_entry_def journalVersion_def)
  from journal_append_after_failure_glued [of "empty_journal [Fail 5 ''disk full'']" empty_file "[]" 5 "''disk full''", OF _ _ _ _ _ _ this]
  show ?thesis by (simp add: empty_journal_def empty_file_def)
qed

end
