(* ===== verification/Zip_Detect.thy ===== *)
theory Zip_Detect
  imports Lbf_Prelude
begin

text \<open>
  Detection of payloads and reading of zip archives under a limit
  (\<^verbatim>\<open>internal/ingestion/detect.go\<close>). The archive reader of \<^verbatim>\<open>archive/zip\<close> is an argument: it
  yields the entries of an archive, each with its declared size and the bytes its stream
  delivers, ended by an error or not. Nothing is assumed of it, so entries may declare any size.
  Sizes are \<^verbatim>\<open>int64\<close>: conversions and sums wrap.
\<close>

type_synonym i64 = int

definition wrap64 :: "int \<Rightarrow> i64" where
  "wrap64 i = sint (word_of_int i :: u64)"

lemma wrap64_id: "- (2 ^ 63) \<le> i \<Longrightarrow> i < 2 ^ 63 \<Longrightarrow> wrap64 i = i"
  by (simp add: wrap64_def sint_sbintrunc' signed_take_bit_int_eq_self)

record zip_file =
  zf_Name :: string
  zf_IsDir :: bool
  zf_UncompressedSize64 :: u64
  zf_Open :: "error + bytes \<times> error option"

type_synonym zip_reader = "bytes \<Rightarrow> error + zip_file list"

datatype PayloadType = PayloadZIP | PayloadXML

definition payload_text :: "PayloadType \<Rightarrow> string" where
  "payload_text t = (case t of PayloadZIP \<Rightarrow> ''zip'' | PayloadXML \<Rightarrow> ''xml'')"

definition ErrZipTooLarge :: error where
  "ErrZipTooLarge = Sentinel ''zip unpacked size exceeds limit''"

definition DefaultMaxUnpackedZipBytes :: i64 where
  "DefaultMaxUnpackedZipBytes = 512 * 1024 * 1024"

definition effectiveMaxUnpackedZipBytes :: "i64 \<Rightarrow> i64" where
  "effectiveMaxUnpackedZipBytes mx = (if mx > 0 then mx else DefaultMaxUnpackedZipBytes)"

text \<open>
  The spaces \<^verbatim>\<open>strings.TrimSpace\<close> removes in front, as they are encoded in UTF-8. The prefixes that
  are tested for contain no space, so what it removes at the end does not matter.
\<close>

definition space1 :: "byte \<Rightarrow> bool" where
  "space1 a \<longleftrightarrow> a = 32 \<or> 9 \<le> a \<and> a \<le> 13"

definition space2 :: "byte \<Rightarrow> byte \<Rightarrow> bool" where
  "space2 a b \<longleftrightarrow> a = 0xC2 \<and> (b = 0x85 \<or> b = 0xA0)"

definition space3 :: "byte \<Rightarrow> byte \<Rightarrow> byte \<Rightarrow> bool" where
  "space3 a b c \<longleftrightarrow> a = 0xE1 \<and> b = 0x9A \<and> c = 0x80
     \<or> a = 0xE2 \<and> b = 0x80 \<and> (0x80 \<le> c \<and> c \<le> 0x8A \<or> c = 0xA8 \<or> c = 0xA9 \<or> c = 0xAF)
     \<or> a = 0xE2 \<and> b = 0x81 \<and> c = 0x9F \<or> a = 0xE3 \<and> b = 0x80 \<and> c = 0x80"

fun trim_front :: "bytes \<Rightarrow> bytes" where
  "trim_front (a # b # c # r) =
     (if space1 a then trim_front (b # c # r) else if space2 a b then trim_front (c # r)
      else if space3 a b c then trim_front r else a # b # c # r)"
| "trim_front [a, b] = (if space1 a then trim_front [b] else if space2 a b then [] else [a, b])"
| "trim_front [a] = (if space1 a then [] else [a])"
| "trim_front [] = []"

definition starts_with :: "bytes \<Rightarrow> bytes \<Rightarrow> bool" where
  "starts_with p data \<longleftrightarrow> take (length p) data = p"

definition DetectPayload :: "bytes \<Rightarrow> error + PayloadType" where
  "DetectPayload data =
     (if length data < 4 then Inl (Err ''payload too small'')
      else if data ! 0 = 0x50 \<and> data ! 1 = 0x4B then Inr PayloadZIP
      else let trimmed = trim_front data in
        if starts_with [0x3C, 0x3F, 0x78, 0x6D, 0x6C] trimmed \<or> starts_with [0x3C] trimmed then Inr PayloadXML
        else Inl (Err ''unsupported payload type''))"

definition IsZip :: "bytes \<Rightarrow> bool" where
  "IsZip data \<longleftrightarrow> DetectPayload data = Inr PayloadZIP"

subsection \<open>Reading an archive\<close>

definition has_dotdot :: "string \<Rightarrow> bool" where
  "has_dotdot name \<longleftrightarrow> list_ex (\<lambda>i. take 2 (drop i name) = ''..'') [0..<length name]"

definition shouldSkipZipEntry :: "string \<Rightarrow> bool \<Rightarrow> bool" where
  "shouldSkipZipEntry name isDir \<longleftrightarrow> isDir \<or> has_dotdot name"

abbreviation skipped :: "zip_file \<Rightarrow> bool" where
  "skipped f \<equiv> shouldSkipZipEntry (zf_Name f) (zf_IsDir f)"

definition too_large :: "i64 \<Rightarrow> error" where
  "too_large mx = Wrap [] ErrZipTooLarge ('': limit '' @ itoa mx)"

text \<open>
  \<^verbatim>\<open>io.ReadAll(io.LimitReader(rc, n))\<close>: at most \<open>n\<close> bytes; an error at the end of the stream is
  seen only when the limit was not reached before it.
\<close>

definition read_limited :: "i64 \<Rightarrow> bytes \<times> error option \<Rightarrow> error + bytes" where
  "read_limited n stream = (case stream of (bs, err) \<Rightarrow>
     if nat n \<le> length bs then Inr (take (nat n) bs) else (case err of Some e \<Rightarrow> Inl e | None \<Rightarrow> Inr bs))"

text \<open>The body of one entry, when \<open>tot\<close> bytes were unpacked before it.\<close>

definition member_body :: "i64 \<Rightarrow> i64 \<Rightarrow> zip_file \<Rightarrow> error + bytes" where
  "member_body mx tot f =
     (let uncompressed = sint (zf_UncompressedSize64 f) in
      if uncompressed > mx \<or> wrap64 (tot + uncompressed) > mx then Inl (too_large mx)
      else case zf_Open f of
        Inl e \<Rightarrow> Inl e
      | Inr stream \<Rightarrow>
          (let remaining = mx - tot in
           case read_limited (wrap64 (remaining + 1)) stream of
             Inl e \<Rightarrow> Inl e
           | Inr body \<Rightarrow> if int (length body) > remaining then Inl (too_large mx) else Inr body))"

fun zip_loop :: "i64 \<Rightarrow> (string \<Rightarrow> bytes \<Rightarrow> 'st \<Rightarrow> ('st, unit) result) \<Rightarrow> zip_file list \<Rightarrow> i64 \<Rightarrow> 'st \<Rightarrow> ('st, unit) result" where
  "zip_loop mx fn [] tot st = (Inr (), st)"
| "zip_loop mx fn (f # fs) tot st =
     (if skipped f then zip_loop mx fn fs tot st
      else case member_body mx tot f of
        Inl e \<Rightarrow> (Inl e, st)
      | Inr body \<Rightarrow> tryE (fn (zf_Name f) body st) (\<lambda>_ st. zip_loop mx fn fs (tot + int (length body)) st))"

definition ForEachZipMember :: "zip_reader \<Rightarrow> bytes \<Rightarrow> i64 \<Rightarrow> (string \<Rightarrow> bytes \<Rightarrow> 'st \<Rightarrow> ('st, unit) result) \<Rightarrow> 'st \<Rightarrow> ('st, unit) result" where
  "ForEachZipMember zr data maxUnpacked fn st =
     (let mx = effectiveMaxUnpackedZipBytes maxUnpacked in
      case zr data of Inl e \<Rightarrow> (Inl e, st) | Inr files \<Rightarrow> zip_loop mx fn files 0 st)"

record ZipMember =
  Filename :: string
  Data :: bytes

definition UnpackZipWithLimit :: "zip_reader \<Rightarrow> bytes \<Rightarrow> i64 \<Rightarrow> (ZipMember list, unit) result" where
  "UnpackZipWithLimit zr data maxUnpacked =
     ForEachZipMember zr data maxUnpacked (\<lambda>name body ms. (Inr (), ms @ [\<lparr>Filename = name, Data = body\<rparr>])) []"

definition UnpackZip :: "zip_reader \<Rightarrow> bytes \<Rightarrow> (ZipMember list, unit) result" where
  "UnpackZip zr data = UnpackZipWithLimit zr data DefaultMaxUnpackedZipBytes"

definition CountZipEntries :: "zip_reader \<Rightarrow> bytes \<Rightarrow> error + int" where
  "CountZipEntries zr data = (case zr data of Inl e \<Rightarrow> Inl e
     | Inr files \<Rightarrow> Inr (int (length (filter (\<lambda>f. \<not> skipped f) files))))"

fun limit_loop :: "i64 \<Rightarrow> zip_file list \<Rightarrow> i64 \<Rightarrow> error option" where
  "limit_loop mx [] tot = None"
| "limit_loop mx (f # fs) tot =
     (if skipped f then limit_loop mx fs tot
      else let sz = sint (zf_UncompressedSize64 f) in
        if sz > mx \<or> wrap64 (tot + sz) > mx then Some (too_large mx) else limit_loop mx fs (wrap64 (tot + sz)))"

definition CheckZipUncompressedLimit :: "zip_reader \<Rightarrow> bytes \<Rightarrow> i64 \<Rightarrow> error option" where
  "CheckZipUncompressedLimit zr data maxUnpacked =
     (let mx = effectiveMaxUnpackedZipBytes maxUnpacked in
      case zr data of Inl e \<Rightarrow> Some e | Inr files \<Rightarrow> limit_loop mx files 0)"

subsection \<open>The limit holds\<close>

lemma member_body_length: "member_body mx tot f = Inr body \<Longrightarrow> int (length body) \<le> mx - tot"
  by (auto simp: member_body_def Let_def split: if_splits sum.splits)

text \<open>
  An invariant of the callback's state and the bytes unpacked so far is kept by the loop, which
  never passes on more than the limit.
\<close>

lemma zip_loop_inv:
  assumes "\<And>name body tot st. I tot st \<Longrightarrow> tot + int (length body) \<le> mx \<Longrightarrow>
      (case fn name body st of (r, st') \<Rightarrow> J st' \<and> (r = Inr () \<longrightarrow> I (tot + int (length body)) st'))"
    and "\<And>tot st. I tot st \<Longrightarrow> J st" and "I tot st"
  shows "case zip_loop mx fn fs tot st of (r, st') \<Rightarrow> J st' \<and> (r = Inr () \<longrightarrow> (\<exists>tot'. I tot' st'))"
  using assms(3)
proof (induction fs arbitrary: tot st)
  case Nil
  with assms(2) show ?case by auto
next
  case (Cons f fs)
  consider "skipped f" | e where "\<not> skipped f" "member_body mx tot f = Inl e" | body where "\<not> skipped f" "member_body mx tot f = Inr body"
    by (cases "member_body mx tot f") auto
  then show ?case
  proof cases
    case 1
    with Cons show ?thesis by simp
  next
    case 2
    with Cons.prems assms(2) show ?thesis by auto
  next
    case 3
    obtain r st1 where f: "fn (zf_Name f) body st = (r, st1)" by fastforce
    have "tot + int (length body) \<le> mx" using member_body_length [OF 3(2)] by simp
    with assms(1) [OF Cons.prems this, of "zf_Name f"] f have "J st1" "r = Inr () \<Longrightarrow> I (tot + int (length body)) st1" by auto
    with 3 f Cons.IH show ?thesis by (cases r) auto
  qed
qed

text \<open>
  C27 (bounds). Unpacking an archive never hands on more bytes than the configured limit, whatever
  sizes the archive declares for its members, also when it ends with an error.
\<close>

theorem UnpackZipWithLimit_bounded:
  "sum_list (map (int \<circ> length \<circ> Data) (snd (UnpackZipWithLimit zr data mx))) \<le> effectiveMaxUnpackedZipBytes mx"
proof (cases "zr data")
  case (Inl e)
  then show ?thesis by (simp add: UnpackZipWithLimit_def ForEachZipMember_def effectiveMaxUnpackedZipBytes_def DefaultMaxUnpackedZipBytes_def)
next
  case (Inr files)
  let ?m = "effectiveMaxUnpackedZipBytes mx" and ?s = "\<lambda>ms. sum_list (map (int \<circ> length \<circ> Data) ms)"
  have p: "0 \<le> ?m" by (simp add: effectiveMaxUnpackedZipBytes_def DefaultMaxUnpackedZipBytes_def)
  have "case zip_loop ?m (\<lambda>name body ms. (Inr (), ms @ [\<lparr>Filename = name, Data = body\<rparr>])) files 0 [] of
     (r, ms) \<Rightarrow> ?s ms \<le> ?m \<and> (r = Inr () \<longrightarrow> (\<exists>tot. ?s ms = tot \<and> tot \<le> ?m))"
    by (rule zip_loop_inv) (use p in auto)
  with Inr show ?thesis by (auto simp: UnpackZipWithLimit_def ForEachZipMember_def Let_def split: prod.splits)
qed

end
