(* ===== verification/Unpack_Queue.thy ===== *)
theory Unpack_Queue
  imports Lbf_Prelude
begin

text \<open>
  The queue of archives to unpack in the background (\<^verbatim>\<open>internal/ingestion/unpack_worker.go\<close>): a
  bounded channel and the set of package ids that are marked, queued or being worked on. \<open>uq_sending\<close>
  are the ids that a caller has marked and not yet put into the channel or given up on, \<open>uq_jobs\<close>
  the jobs that workers have received and not finished.
\<close>

record UnpackQueue =
  uq_ch :: "int list"
  uq_cap :: nat
  uq_workers :: nat
  uq_inflight :: "int list"
  uq_sending :: "int list"
  uq_jobs :: "int list"
  uq_stopped :: bool
  UnpackEnqueued :: nat
  UnpackDropped :: nat
  UnpackRecovered :: nat

definition NewUnpackQueue :: "int \<Rightarrow> int \<Rightarrow> UnpackQueue" where
  "NewUnpackQueue workers queueSize = \<lparr>uq_ch = [], uq_cap = nat (if queueSize < 1 then 64 else queueSize),
     uq_workers = nat (if workers < 1 then 1 else workers), uq_inflight = [], uq_sending = [], uq_jobs = [],
     uq_stopped = False, UnpackEnqueued = 0, UnpackDropped = 0, UnpackRecovered = 0\<rparr>"

subsection \<open>Enqueueing\<close>

text \<open>The two critical sections of \<^verbatim>\<open>Enqueue\<close>: marking the id, and sending it or giving up.\<close>

definition uq_mark :: "int \<Rightarrow> UnpackQueue \<Rightarrow> UnpackQueue" where
  "uq_mark packageID q = (if packageID \<in> set (uq_inflight q) then q
     else q\<lparr>uq_inflight := packageID # uq_inflight q, uq_sending := packageID # uq_sending q\<rparr>)"

definition uq_send :: "int \<Rightarrow> UnpackQueue \<Rightarrow> UnpackQueue" where
  "uq_send packageID q =
     (if length (uq_ch q) < uq_cap q
      then q\<lparr>uq_ch := uq_ch q @ [packageID], uq_sending := remove1 packageID (uq_sending q), UnpackEnqueued := UnpackEnqueued q + 1\<rparr>
      else q\<lparr>uq_inflight := removeAll packageID (uq_inflight q), uq_sending := remove1 packageID (uq_sending q),
             UnpackDropped := UnpackDropped q + 1\<rparr>)"

definition Enqueue :: "int \<Rightarrow> UnpackQueue \<Rightarrow> UnpackQueue" where
  "Enqueue packageID q = (if packageID \<in> set (uq_inflight q) then q else uq_send packageID (uq_mark packageID q))"

subsection \<open>Workers, recovery and shutdown\<close>

text \<open>A worker receives the oldest job; when it is done, also by a panic, the id is free again.\<close>

definition uq_receive :: "UnpackQueue \<Rightarrow> UnpackQueue" where
  "uq_receive q = (case uq_ch q of [] \<Rightarrow> q | i # rest \<Rightarrow> q\<lparr>uq_ch := rest, uq_jobs := i # uq_jobs q\<rparr>)"

definition uq_finish :: "int \<Rightarrow> UnpackQueue \<Rightarrow> UnpackQueue" where
  "uq_finish i q = q\<lparr>uq_jobs := remove1 i (uq_jobs q), uq_inflight := removeAll i (uq_inflight q)\<rparr>"

text \<open>One id of the recovery scan, and the scan as it runs when nothing interferes.\<close>

definition recover_one :: "int \<Rightarrow> UnpackQueue \<Rightarrow> UnpackQueue" where
  "recover_one i q = (if i \<in> set (uq_inflight q) then q else Enqueue i (q\<lparr>UnpackRecovered := UnpackRecovered q + 1\<rparr>))"

fun recover_ids :: "int list \<Rightarrow> UnpackQueue \<Rightarrow> UnpackQueue" where
  "recover_ids [] q = q"
| "recover_ids (i # is) q = recover_ids is (recover_one i q)"

definition Shutdown_queue :: "UnpackQueue \<Rightarrow> UnpackQueue" where
  "Shutdown_queue q = q\<lparr>uq_stopped := True\<rparr>"

subsection \<open>The queue as a state machine\<close>

text \<open>
  Requests, the recovery loop and the workers run concurrently. A worker that is idle receives until
  the queue is shut down; \<^verbatim>\<open>select\<close> may still pick a job once afterwards.
\<close>

inductive uq_step :: "UnpackQueue \<Rightarrow> UnpackQueue \<Rightarrow> bool" where
  mark: "uq_step q (uq_mark i q)"
| send: "i \<in> set (uq_sending q) \<Longrightarrow> uq_step q (uq_send i q)"
| found: "uq_step q (q\<lparr>UnpackRecovered := UnpackRecovered q + 1\<rparr>)"
| receive: "length (uq_jobs q) < uq_workers q \<Longrightarrow> uq_step q (uq_receive q)"
| finish: "i \<in> set (uq_jobs q) \<Longrightarrow> uq_step q (uq_finish i q)"
| stop: "uq_step q (Shutdown_queue q)"

inductive uq_reachable :: "int \<Rightarrow> int \<Rightarrow> UnpackQueue \<Rightarrow> bool" for workers queueSize where
  start: "uq_reachable workers queueSize (NewUnpackQueue workers queueSize)"
| step: "uq_reachable workers queueSize q \<Longrightarrow> uq_step q q' \<Longrightarrow> uq_reachable workers queueSize q'"

definition uq_inv :: "UnpackQueue \<Rightarrow> bool" where
  "uq_inv q \<longleftrightarrow> distinct (uq_sending q @ uq_ch q @ uq_jobs q) \<and> set (uq_inflight q) = set (uq_sending q @ uq_ch q @ uq_jobs q)
     \<and> length (uq_ch q) \<le> uq_cap q \<and> length (uq_jobs q) \<le> uq_workers q"

inductive_simps uq_step_iff: "uq_step q q'"

lemma uq_inv_step: "uq_step q q' \<Longrightarrow> uq_inv q \<Longrightarrow> uq_inv q'"
proof (induction rule: uq_step.induct)
  case (mark q i)
  then show ?case by (auto simp: uq_mark_def uq_inv_def)
next
  case (send i q)
  then show ?case by (auto simp: uq_send_def uq_inv_def)
next
  case (receive q)
  then show ?case by (cases "uq_ch q") (auto simp: uq_receive_def uq_inv_def)
next
  case (finish i q)
  then have "length (remove1 i (uq_jobs q)) \<le> uq_workers q" by (auto simp: length_remove1 uq_inv_def)
  with finish show ?case by (auto simp: uq_finish_def uq_inv_def)
qed (auto simp: uq_inv_def Shutdown_queue_def)

lemma uq_inv_start: "uq_inv (NewUnpackQueue w n)"
  by (simp add: uq_inv_def NewUnpackQueue_def)

lemma uq_reachable_inv: "uq_reachable w n q \<Longrightarrow> uq_inv q"
  by (induction rule: uq_reachable.induct) (auto intro: uq_inv_start uq_inv_step)

lemma uq_step_sizes: "uq_step q q' \<Longrightarrow> uq_cap q' = uq_cap q \<and> uq_workers q' = uq_workers q"
  by (auto simp: uq_step_iff uq_mark_def uq_send_def uq_receive_def uq_finish_def Shutdown_queue_def split: list.split)

lemma uq_reachable_sizes: "uq_reachable w n q \<Longrightarrow> uq_cap q = uq_cap (NewUnpackQueue w n) \<and> uq_workers q = uq_workers (NewUnpackQueue w n)"
  by (induction rule: uq_reachable.induct) (auto dest: uq_step_sizes)

text \<open>The atomic \<open>Enqueue\<close> and the recovery scan are runs of the machine.\<close>

lemma Enqueue_steps: "uq_step\<^sup>*\<^sup>* q (Enqueue i q)"
proof (cases "i \<in> set (uq_inflight q)")
  case False
  then have "i \<in> set (uq_sending (uq_mark i q))" by (simp add: uq_mark_def)
  then have "uq_step (uq_mark i q) (uq_send i (uq_mark i q))" by (rule uq_step.send)
  with False show ?thesis using uq_step.mark [of q i] by (auto simp: Enqueue_def intro: converse_rtranclp_into_rtranclp)
qed (simp add: Enqueue_def)

lemma recover_one_steps: "uq_step\<^sup>*\<^sup>* q (recover_one i q)"
  using converse_rtranclp_into_rtranclp [OF uq_step.found Enqueue_steps] by (simp add: recover_one_def)

lemma recover_ids_steps: "uq_step\<^sup>*\<^sup>* q (recover_ids is q)"
  by (induction "is" arbitrary: q) (auto intro: rtranclp_trans recover_one_steps)

lemma uq_reachable_steps: "uq_step\<^sup>*\<^sup>* q q' \<Longrightarrow> uq_reachable w n q \<Longrightarrow> uq_reachable w n q'"
  by (induction rule: rtranclp_induct) (auto intro: uq_reachable.step)

lemma Enqueue_frame: "uq_cap (Enqueue i q) = uq_cap q" "length (uq_ch q) \<le> length (uq_ch (Enqueue i q))"
  "set (uq_inflight q) \<subseteq> set (uq_inflight (Enqueue i q))"
  "i \<in> set (uq_inflight (Enqueue i q)) \<or> uq_cap q \<le> length (uq_ch (Enqueue i q))"
  by (auto simp: Enqueue_def uq_mark_def uq_send_def)

lemma recover_ids_frame: "uq_cap (recover_ids is q) = uq_cap q \<and> length (uq_ch q) \<le> length (uq_ch (recover_ids is q))
    \<and> set (uq_inflight q) \<subseteq> set (uq_inflight (recover_ids is q))"
proof (induction "is" arbitrary: q)
  case (Cons i "is")
  have "uq_cap (recover_one i q) = uq_cap q \<and> length (uq_ch q) \<le> length (uq_ch (recover_one i q)) \<and> set (uq_inflight q) \<subseteq> set (uq_inflight (recover_one i q))"
    using Enqueue_frame(1-3) [where i = i and q = "q\<lparr>UnpackRecovered := UnpackRecovered q + 1\<rparr>"] by (simp add: recover_one_def)
  with Cons [of "recover_one i q"] show ?case by auto
qed simp

subsection \<open>Properties\<close>

text \<open>
  C31 (safety). However requests, the recovery scan and the workers interleave, no package is ever
  unpacked by two workers or queued twice, the channel and the workers stay within their numbers,
  and an id is marked exactly while somebody sends it, it is queued or it is worked on, so that no
  package is locked out for good.
\<close>

theorem unpack_queue_exclusive:
  assumes "uq_reachable workers queueSize q"
  shows "distinct (uq_ch q @ uq_jobs q) \<and> length (uq_ch q) \<le> uq_cap (NewUnpackQueue workers queueSize)
    \<and> length (uq_jobs q) \<le> uq_workers (NewUnpackQueue workers queueSize)
    \<and> set (uq_inflight q) = set (uq_sending q) \<union> set (uq_ch q) \<union> set (uq_jobs q)"
  using uq_reachable_inv [OF assms] uq_reachable_sizes [OF assms] by (auto simp: uq_inv_def)

theorem unpack_queue_exclusive_witness:
  "distinct (uq_ch (uq_receive (Enqueue 7 (Enqueue 5 (NewUnpackQueue 2 1)))) @ uq_jobs (uq_receive (Enqueue 7 (Enqueue 5 (NewUnpackQueue 2 1)))))"
proof -
  let ?q = "Enqueue 7 (Enqueue 5 (NewUnpackQueue 2 1))"
  have q: "uq_reachable 2 1 ?q"
    by (rule uq_reachable_steps [OF rtranclp_trans [OF Enqueue_steps Enqueue_steps] uq_reachable.start])
  have "length (uq_jobs ?q) < uq_workers ?q" by code_simp
  from unpack_queue_exclusive [OF uq_reachable.step [OF q uq_step.receive [OF this]]] show ?thesis by blast
qed

text \<open>
  After a recovery scan that nothing interrupts, every package it found is being sent,
  queued or worked on, or the channel is full; an empty queue with room takes them all.
\<close>

theorem recovery_scan_requeues:
  assumes "i \<in> set ids"
  shows "(i \<in> set (uq_inflight (recover_ids ids q)) \<or> length (uq_ch (recover_ids ids q)) \<ge> uq_cap q)
    \<and> (uq_inv q \<and> uq_inflight q = [] \<and> distinct ids \<and> length ids \<le> uq_cap q \<longrightarrow> uq_ch (recover_ids ids q) = ids)"
proof -
  have a: "i \<in> set (uq_inflight (recover_ids ids q)) \<or> length (uq_ch (recover_ids ids q)) \<ge> uq_cap q"
    using assms
  proof (induction ids arbitrary: q)
    case (Cons j ids)
    let ?q = "recover_one j q"
    note f = recover_ids_frame [of ids ?q] recover_ids_frame [of "[j]" q]
    show ?case
    proof (cases "i = j")
      case True
      have "j \<in> set (uq_inflight ?q) \<or> uq_cap q \<le> length (uq_ch ?q)"
        using Enqueue_frame(4) [where i = j and q = "q\<lparr>UnpackRecovered := UnpackRecovered q + 1\<rparr>"] by (auto simp: recover_one_def)
      with True f show ?thesis by auto
    next
      case False
      with Cons.prems Cons.IH [of ?q] f show ?thesis by auto
    qed
  qed simp
  have b: "uq_ch (recover_ids js p) = uq_ch p @ js" if "distinct js" "length (uq_ch p) + length js \<le> uq_cap p" "set js \<inter> set (uq_inflight p) = {}" for js p
    using that
  proof (induction js arbitrary: p)
    case (Cons j js)
    then have "uq_ch (recover_one j p) = uq_ch p @ [j]" "uq_cap (recover_one j p) = uq_cap p" "uq_inflight (recover_one j p) = j # uq_inflight p"
      by (simp_all add: recover_one_def Enqueue_def uq_mark_def uq_send_def)
    with Cons show ?case by auto
  qed simp
  have "uq_ch (recover_ids ids q) = ids" if "uq_inv q" "uq_inflight q = []" "distinct ids" "length ids \<le> uq_cap q"
  proof -
    have "uq_ch q = []" using that(1,2) by (simp add: uq_inv_def)
    with b [of ids q] that show ?thesis by simp
  qed
  with a show ?thesis by blast
qed

theorem recovery_scan_requeues_witness: "uq_ch (recover_ids [3, 1, 2] (NewUnpackQueue 1 8)) = [3, 1, 2]"
proof -
  have "distinct [3, 1, 2 :: int]" "length [3, 1, 2 :: int] \<le> uq_cap (NewUnpackQueue 1 8)" "uq_inflight (NewUnpackQueue 1 8) = []"
    by (simp_all add: NewUnpackQueue_def)
  with recovery_scan_requeues [of 3 "[3, 1, 2]" "NewUnpackQueue 1 8"] uq_inv_start show ?thesis by simp
qed

end
