(* ===== verification/Ingestion.thy ===== *)
theory Ingestion
  imports Blob_Store Journal Zip_Detect Unpack_Queue Config
begin

text \<open>
  The ingestion service (\<^verbatim>\<open>internal/ingestion/package.go\<close>, \<^verbatim>\<open>stats.go\<close>, \<^verbatim>\<open>unpack_large.go\<close>): packages
  come in as XML documents or zip archives, known ones are cloned, small archives are unpacked at
  once and large ones later. A service is a shard with its journal and its unpack queue.
\<close>

subsection \<open>State\<close>

record ('s, 'b) service =
  sv_shard :: "('s, 'b) shard"
  sv_journal :: "Journal option"
  sv_queue :: "UnpackQueue option"

definition on_shard :: "(('s, 'b) shard \<Rightarrow> (('s, 'b) shard, 'a) result) \<Rightarrow> ('s, 'b) service \<Rightarrow> (('s, 'b) service, 'a) result" where
  "on_shard f sv = (case f (sv_shard sv) of (r, st) \<Rightarrow> (r, sv\<lparr>sv_shard := st\<rparr>))"

abbreviation on_repo :: "(meta_db \<Rightarrow> (meta_db, 'a) result) \<Rightarrow> ('s, 'b) service \<Rightarrow> (('s, 'b) service, 'a) result" where
  "on_repo f \<equiv> on_shard (on_tx f)"

text \<open>\<^verbatim>\<open>repo.WithTx\<close> around a body that also works on the blob store, which is not rolled back.\<close>

definition with_tx :: "(('s, 'b) shard \<Rightarrow> (('s, 'b) shard, 'a) result) \<Rightarrow> ('s, 'b) shard \<Rightarrow> (('s, 'b) shard, 'a) result" where
  "with_tx body st = (case tx_begin (sh_meta st) of
       (Inl e, db) \<Rightarrow> (Inl e, st\<lparr>sh_meta := db\<rparr>)
     | (Inr old, db) \<Rightarrow> (case body (st\<lparr>sh_meta := db\<rparr>) of (r, st1) \<Rightarrow>
         (case tx_end old r (sh_meta st1) of (q, db) \<Rightarrow> (q, st1\<lparr>sh_meta := db\<rparr>))))"

record ingestCounters =
  newBlobs :: int
  duplicateRefs :: int

definition add_counter :: "bool \<Rightarrow> ingestCounters \<Rightarrow> ingestCounters" where
  "add_counter created c = (if created then c\<lparr>newBlobs := newBlobs c + 1\<rparr> else c\<lparr>duplicateRefs := duplicateRefs c + 1\<rparr>)"

abbreviation no_counters :: ingestCounters where
  "no_counters \<equiv> \<lparr>newBlobs = 0, duplicateRefs = 0\<rparr>"

definition recordIngest :: "int \<Rightarrow> int \<Rightarrow> ingestCounters \<Rightarrow> bool \<Rightarrow> ('s, 'b) service \<Rightarrow> ('s, 'b) service" where
  "recordIngest supplierID fileCount c packageClone sv =
     snd (on_repo (RecordSupplierIngest supplierID fileCount (newBlobs c) (if packageClone then fileCount else duplicateRefs c)) sv)"

definition journalPackage :: "Package option \<Rightarrow> ('s, 'b) service \<Rightarrow> (('s, 'b) service, unit) result" where
  "journalPackage pkg sv = (case (sv_journal sv, pkg) of
       (Some j, Some p) \<Rightarrow> (case Journal_Append (EntryFromPackage p) j of (r, j) \<Rightarrow> (r, sv\<lparr>sv_journal := Some j\<rparr>))
     | _ \<Rightarrow> (Inr (), sv))"

definition loadAndJournal :: "int \<Rightarrow> ('s, 'b) service \<Rightarrow> (('s, 'b) service, Package option) result" where
  "loadAndJournal packageID sv =
     tryE (on_repo (GetPackage packageID) sv) (\<lambda>pkg sv.
     tryE (journalPackage pkg sv) (\<lambda>_ sv. (Inr pkg, sv)))"

subsection \<open>Files of a package\<close>

definition original_input :: "bytes \<Rightarrow> string option \<Rightarrow> CreateFileInput" where
  "original_input h filename = \<lparr>fi_BlobHash = h, fi_Role = ''original'', fi_OriginalFilename = filename, fi_SequenceNumber = None\<rparr>"

definition persistUnpackError :: "('s, 'b) libs \<Rightarrow> int \<Rightarrow> int \<Rightarrow> error \<Rightarrow> ingestCounters \<Rightarrow> ('s, 'b) shard
    \<Rightarrow> (('s, 'b) shard, ingestCounters) result" where
  "persistUnpackError L packageID supplierID unpackErr c st =
     tryE (StoreOrRef L (text_bytes (error_text unpackErr)) RecordError supplierID st) (\<lambda>(h, created) st.
     tryE (on_tx (tx_CreatePackageFile packageID \<lparr>fi_BlobHash = h, fi_Role = ''unpack_error'',
        fi_OriginalFilename = Some ''_unpack_error.txt'', fi_SequenceNumber = None\<rparr>) st) (\<lambda>_ st.
     (Inr (add_counter created c), st)))"

text \<open>The callback for one member, on the shard, the counters and the number of members so far.\<close>

definition persistMember :: "('s, 'b) libs \<Rightarrow> int \<Rightarrow> int \<Rightarrow> string \<Rightarrow> bytes
    \<Rightarrow> ('s, 'b) shard \<times> ingestCounters \<times> int \<Rightarrow> (('s, 'b) shard \<times> ingestCounters \<times> int, unit) result" where
  "persistMember L packageID supplierID name data = (\<lambda>(st, c, memberCount).
     case StoreOrRef L data RecordXML supplierID st of
       (Inl e, st) \<Rightarrow> (Inl e, (st, c, memberCount))
     | (Inr (h, created), st) \<Rightarrow>
         (case on_tx (tx_CreatePackageFile packageID \<lparr>fi_BlobHash = h, fi_Role = ''member'', fi_OriginalFilename = Some name,
                fi_SequenceNumber = Some memberCount\<rparr>) st of
            (Inl e, st) \<Rightarrow> (Inl e, (st, add_counter created c, memberCount + 1))
          | (Inr _, st) \<Rightarrow> (Inr (), (st, add_counter created c, memberCount + 1))))"

definition persistZipMembers :: "('s, 'b) libs \<Rightarrow> zip_reader \<Rightarrow> int \<Rightarrow> int \<Rightarrow> bytes \<Rightarrow> int \<Rightarrow> ingestCounters \<Rightarrow> ('s, 'b) shard
    \<Rightarrow> (('s, 'b) shard, int \<times> string option \<times> ingestCounters) result" where
  "persistZipMembers L zr packageID supplierID zipBytes maxUnpacked c st =
     (case ForEachZipMember zr zipBytes maxUnpacked (persistMember L packageID supplierID) (st, c, 0) of
        (Inr _, (st, c, memberCount)) \<Rightarrow> (Inr (1 + memberCount, None, c), st)
      | (Inl unpackErr, (st, c, memberCount)) \<Rightarrow>
          tryE (persistUnpackError L packageID supplierID unpackErr c st) (\<lambda>c st.
            (Inr (2, Some (error_text unpackErr), c), st)))"

subsection \<open>Ingesting\<close>

definition package_input :: "int \<Rightarrow> bytes \<Rightarrow> PayloadType \<Rightarrow> string \<Rightarrow> string option \<Rightarrow> int option \<Rightarrow> int \<Rightarrow> string option \<Rightarrow> CreatePackageInput" where
  "package_input supplierID pkgHash t mode filename canonical n err =
     \<lparr>ci_SupplierID = supplierID, ci_PackageHash = pkgHash, ci_PayloadType = payload_text t, ci_StorageMode = mode,
      ci_OriginalFilename = filename, ci_CanonicalPackageID = canonical, ci_FileCount = n, ci_UnpackError = err\<rparr>"

text \<open>The part the three kinds of ingestion share: the blob, the package and its original file.\<close>

definition store_original :: "('s, 'b) libs \<Rightarrow> int \<Rightarrow> bytes \<Rightarrow> RecordType \<Rightarrow> CreatePackageInput \<Rightarrow> string option \<Rightarrow> ('s, 'b) shard
    \<Rightarrow> (('s, 'b) shard, int \<times> ingestCounters) result" where
  "store_original L supplierID body t inp filename st =
     tryE (StoreOrRef L body t supplierID st) (\<lambda>(h, created) st.
     tryE (on_tx (tx_CreatePackage inp) st) (\<lambda>packageID st.
     tryE (on_tx (tx_CreatePackageFile packageID (original_input h filename)) st) (\<lambda>_ st.
     (Inr (packageID, add_counter created no_counters), st))))"

definition ingestXML :: "('s, 'b) libs \<Rightarrow> int \<Rightarrow> bytes \<Rightarrow> bytes \<Rightarrow> string option \<Rightarrow> ('s, 'b) service
    \<Rightarrow> (('s, 'b) service, Package option) result" where
  "ingestXML L supplierID pkgHash body filename sv =
     tryE (on_shard (with_tx (store_original L supplierID body RecordXML
             (package_input supplierID pkgHash PayloadXML ''single'' filename None 1 None) filename)) sv) (\<lambda>(packageID, c) sv.
     loadAndJournal packageID (recordIngest supplierID 1 c False sv))"

definition ingestLargeZIP :: "('s, 'b) libs \<Rightarrow> Config \<Rightarrow> int \<Rightarrow> bytes \<Rightarrow> bytes \<Rightarrow> string option \<Rightarrow> ('s, 'b) service
    \<Rightarrow> (('s, 'b) service, Package option) result" where
  "ingestLargeZIP L cfg supplierID pkgHash body filename sv =
     tryE (on_shard (with_tx (store_original L supplierID body RecordZIP
             (package_input supplierID pkgHash PayloadZIP ''raw_large'' filename None 1 None) filename)) sv) (\<lambda>(packageID, c) sv.
     let sv = recordIngest supplierID 1 c False sv;
         sv = (if LargeZipAsyncUnpack cfg then sv\<lparr>sv_queue := map_option (Enqueue packageID) (sv_queue sv)\<rparr> else sv)
     in loadAndJournal packageID sv)"

definition ingestSmallZIP :: "('s, 'b) libs \<Rightarrow> zip_reader \<Rightarrow> Config \<Rightarrow> int \<Rightarrow> bytes \<Rightarrow> bytes \<Rightarrow> string option \<Rightarrow> ('s, 'b) service
    \<Rightarrow> (('s, 'b) service, Package option) result" where
  "ingestSmallZIP L zr cfg supplierID pkgHash body filename sv =
     (let count = CountZipEntries zr body;
          unpackErr = (case count of Inl e \<Rightarrow> Some e | Inr _ \<Rightarrow> CheckZipUncompressedLimit zr body (MaxUnpackedZipBytes cfg));
          fileCount = (case unpackErr of Some _ \<Rightarrow> 2 | None \<Rightarrow> 1 + (case count of Inl _ \<Rightarrow> 0 | Inr n \<Rightarrow> n))
      in tryE (on_shard (with_tx (\<lambda>st.
           tryE (store_original L supplierID body RecordZIP (package_input supplierID pkgHash PayloadZIP ''zip_with_members'' filename None
                   fileCount (map_option error_text unpackErr)) filename st) (\<lambda>(packageID, c) st.
           case unpackErr of
             Some e \<Rightarrow> tryE (persistUnpackError L packageID supplierID e c st) (\<lambda>c st. (Inr (packageID, c), st))
           | None \<Rightarrow> tryE (persistZipMembers L zr packageID supplierID body (MaxUnpackedZipBytes cfg) c st) (\<lambda>(_, _, c) st.
               (Inr (packageID, c), st))))) sv) (\<lambda>(packageID, c) sv.
         loadAndJournal packageID (recordIngest supplierID fileCount c False sv)))"

definition ingestZIP :: "('s, 'b) libs \<Rightarrow> zip_reader \<Rightarrow> Config \<Rightarrow> int \<Rightarrow> bytes \<Rightarrow> bytes \<Rightarrow> string option \<Rightarrow> ('s, 'b) service
    \<Rightarrow> (('s, 'b) service, Package option) result" where
  "ingestZIP L zr cfg supplierID pkgHash body filename sv =
     (if int (length body) > ZipThresholdSize cfg
         \<or> (case CountZipEntries zr body of Inl _ \<Rightarrow> False | Inr count \<Rightarrow> count > ZipThresholdCount cfg)
      then ingestLargeZIP L cfg supplierID pkgHash body filename sv
      else ingestSmallZIP L zr cfg supplierID pkgHash body filename sv)"

fun clone_files :: "int \<Rightarrow> PackageFile list \<Rightarrow> ('s, 'b) shard \<Rightarrow> (('s, 'b) shard, bytes list) result" where
  "clone_files packageID [] st = (Inr [], st)"
| "clone_files packageID (f # fs) st =
     tryE (on_tx (tx_CreatePackageFile packageID \<lparr>fi_BlobHash = BlobHash f, fi_Role = Role f,
        fi_OriginalFilename = pf_OriginalFilename f, fi_SequenceNumber = SequenceNumber f\<rparr>) st) (\<lambda>_ st.
     tryE (clone_files packageID fs st) (\<lambda>hs st. (Inr (BlobHash f # hs), st)))"

definition clonePackage :: "int \<Rightarrow> bytes \<Rightarrow> PayloadType \<Rightarrow> string option \<Rightarrow> int \<Rightarrow> ('s, 'b) service
    \<Rightarrow> (('s, 'b) service, Package option) result" where
  "clonePackage supplierID pkgHash t filename canonicalID sv =
     tryE (on_repo (GetPackage canonicalID) sv) (\<lambda>pkg sv. case pkg of
       None \<Rightarrow> (Inl (Err ''canonical package missing''), sv)
     | Some canonical \<Rightarrow>
         tryE (on_shard (with_tx (\<lambda>st.
            tryE (on_tx (tx_CreatePackage (package_input supplierID pkgHash t (StorageMode canonical) filename (Some canonicalID)
                    (FileCount canonical) (UnpackError canonical))) st) (\<lambda>packageID st.
            tryE (clone_files packageID (Files canonical) st) (\<lambda>hashes st.
            tryE (on_tx (tx_IncrementRefCounts hashes) st) (\<lambda>_ st. (Inr packageID, st)))))) sv) (\<lambda>packageID sv.
         loadAndJournal packageID sv))"

text \<open>The package that was just written may be nil when its row is gone; its field is read all the same.\<close>

definition ProcessPackage :: "('s, 'b) libs \<Rightarrow> zip_reader \<Rightarrow> Config \<Rightarrow> int \<Rightarrow> bytes \<Rightarrow> string option \<Rightarrow> ('s, 'b) service
    \<Rightarrow> (('s, 'b) service, Package option) result" where
  "ProcessPackage L zr cfg supplierID body filename sv =
     (if body = [] then (Inl (Err ''empty body''), sv)
      else if int (length body) > MaxBodyBytes cfg then (Inl (Err ''payload too large''), sv)
      else let pkgHash = PackageHash_of body in
        case DetectPayload body of
          Inl e \<Rightarrow> (Inl e, sv)
        | Inr t \<Rightarrow>
            tryE (on_repo (FindCanonicalPackageID pkgHash) sv) (\<lambda>canonicalID sv. case canonicalID of
              Some c \<Rightarrow>
                tryE (clonePackage supplierID pkgHash t filename c sv) (\<lambda>pkg sv. case pkg of
                  None \<Rightarrow> (Inl (Err ''runtime error: invalid memory address or nil pointer dereference''), sv)
                | Some p \<Rightarrow> (Inr (Some p), recordIngest supplierID (FileCount p) no_counters True sv))
            | None \<Rightarrow> (case t of
                  PayloadXML \<Rightarrow> ingestXML L supplierID pkgHash body filename sv
                | PayloadZIP \<Rightarrow> ingestZIP L zr cfg supplierID pkgHash body filename sv)))"

subsection \<open>Unpacking large archives\<close>

definition errSkipLargeUnpack :: error where
  "errSkipLargeUnpack = Sentinel ''large zip package already unpacked''"

definition PendingLargePackageIDs :: "('s, 'b) service \<Rightarrow> (('s, 'b) service, int list) result" where
  "PendingLargePackageIDs sv = on_repo ListPendingLargePackages sv"

definition packageFileKey :: "string \<Rightarrow> bytes \<Rightarrow> string option \<Rightarrow> int option \<Rightarrow> string" where
  "packageFileKey role blobHash name seq =
     role @ ''|'' @ itoa (case seq of None \<Rightarrow> -1 | Some n \<Rightarrow> n) @ ''|'' @ (case name of None \<Rightarrow> [] | Some v \<Rightarrow> v)
       @ ''|'' @ hex_EncodeToString blobHash"

definition file_key :: "PackageFile \<Rightarrow> string" where
  "file_key f = packageFileKey (Role f) (BlobHash f) (pf_OriginalFilename f) (SequenceNumber f)"

definition is_extra :: "PackageFile \<Rightarrow> bool" where
  "is_extra f \<longleftrightarrow> Role f = ''member'' \<or> Role f = ''unpack_error''"

text \<open>The rows the clone lacks are added; the hashes of the added ones are returned.\<close>

fun add_extra :: "int \<Rightarrow> PackageFile list \<Rightarrow> string list \<Rightarrow> ('s, 'b) shard \<Rightarrow> (('s, 'b) shard, bytes list) result" where
  "add_extra cloneID [] existing st = (Inr [], st)"
| "add_extra cloneID (f # fs) existing st =
     (if file_key f \<in> set existing then add_extra cloneID fs existing st
      else tryE (on_tx (tx_CreatePackageFile cloneID \<lparr>fi_BlobHash = BlobHash f, fi_Role = Role f,
             fi_OriginalFilename = pf_OriginalFilename f, fi_SequenceNumber = SequenceNumber f\<rparr>) st) (\<lambda>_ st.
           tryE (add_extra cloneID fs (file_key f # existing) st) (\<lambda>hs st. (Inr (BlobHash f # hs), st))))"

definition update_clone :: "Package \<Rightarrow> int \<Rightarrow> PackageFile list \<Rightarrow> string list \<Rightarrow> ('s, 'b) shard \<Rightarrow> (('s, 'b) shard, unit) result" where
  "update_clone canonical cloneID extraFiles existing st =
     tryE (add_extra cloneID extraFiles existing st) (\<lambda>hashes st.
     tryE (on_tx (tx_IncrementRefCounts hashes) st) (\<lambda>_ st.
     tryE (on_tx (tx_UpdatePackageAfterUnpack cloneID ''zip_with_members'' (FileCount canonical) (UnpackError canonical)) st) (\<lambda>_ st.
     (Inr (), st))))"

fun propagate_loop :: "Package \<Rightarrow> PackageFile list \<Rightarrow> int list \<Rightarrow> ('s, 'b) service \<Rightarrow> (('s, 'b) service, unit) result" where
  "propagate_loop canonical extraFiles [] sv = (Inr (), sv)"
| "propagate_loop canonical extraFiles (cloneID # ids) sv =
     tryE (on_repo (GetPackage cloneID) sv) (\<lambda>clone sv.
       case clone of
         None \<Rightarrow> propagate_loop canonical extraFiles ids sv
       | Some p \<Rightarrow>
           if StorageMode p \<noteq> ''raw_large'' then propagate_loop canonical extraFiles ids sv
           else tryE (on_shard (with_tx (update_clone canonical cloneID extraFiles (map file_key (filter is_extra (Files p))))) sv) (\<lambda>_ sv.
             propagate_loop canonical extraFiles ids sv))"

definition propagateUnpackToClones :: "int \<Rightarrow> ('s, 'b) service \<Rightarrow> (('s, 'b) service, unit) result" where
  "propagateUnpackToClones canonicalID sv =
     tryE (on_repo (GetPackage canonicalID) sv) (\<lambda>pkg sv. case pkg of
       None \<Rightarrow> (Inr (), sv)
     | Some canonical \<Rightarrow>
         if StorageMode canonical \<noteq> ''zip_with_members'' then (Inr (), sv)
         else tryE (on_repo (ListClonePackageIDs canonicalID) sv) (\<lambda>cloneIDs sv.
           propagate_loop canonical (filter is_extra (Files canonical)) cloneIDs sv))"

definition finish_unpack :: "int \<Rightarrow> ('s, 'b) service \<Rightarrow> (('s, 'b) service, unit) result" where
  "finish_unpack packageID sv =
     tryE (propagateUnpackToClones packageID sv) (\<lambda>_ sv.
     tryE (loadAndJournal packageID sv) (\<lambda>_ sv. (Inr (), sv)))"

definition not_found :: "int \<Rightarrow> error" where
  "not_found i = Err (''package '' @ itoa i @ '' not found'')"

definition unpack_tx :: "('s, 'b) libs \<Rightarrow> zip_reader \<Rightarrow> Config \<Rightarrow> int \<Rightarrow> bytes \<Rightarrow> ('s, 'b) shard \<Rightarrow> (('s, 'b) shard, unit) result" where
  "unpack_tx L zr cfg packageID zipBytes st =
     tryE (on_tx (tx_GetPackageForUpdate packageID) st) (\<lambda>locked st. case locked of
       None \<Rightarrow> (Inl (not_found packageID), st)
     | Some p \<Rightarrow>
         if StorageMode p \<noteq> ''raw_large'' then (Inl errSkipLargeUnpack, st)
         else tryE (persistZipMembers L zr packageID (pk_SupplierID p) zipBytes (MaxUnpackedZipBytes cfg) no_counters st)
           (\<lambda>(fileCount, unpackErrText, _) st.
           tryE (on_tx (tx_UpdatePackageAfterUnpack packageID ''zip_with_members'' fileCount unpackErrText) st) (\<lambda>updated st.
           if updated then (Inr (), st) else (Inl errSkipLargeUnpack, st))))"

definition read_original :: "('s, 'b) libs \<Rightarrow> int \<Rightarrow> ('s, 'b) service \<Rightarrow> (('s, 'b) service, bytes) result" where
  "read_original L packageID sv =
     tryE (on_repo (GetOriginalFile packageID) sv) (\<lambda>orig sv. case orig of
       None \<Rightarrow> (Inl (Err (''package '' @ itoa packageID @ '' has no original'')), sv)
     | Some f \<Rightarrow>
         tryE (on_repo (GetBlob (BlobHash f)) sv) (\<lambda>blob sv. case blob of
           None \<Rightarrow> (Inl (Err (''blob missing for package '' @ itoa packageID)), sv)
         | Some b \<Rightarrow> on_shard (\<lambda>st. case ReadBlob (lib_zstd L) b (sh_blobs st) of (r, bs) \<Rightarrow> (r, st\<lparr>sh_blobs := bs\<rparr>)) sv))"

definition UnpackLargePackage :: "('s, 'b) libs \<Rightarrow> zip_reader \<Rightarrow> Config \<Rightarrow> int \<Rightarrow> ('s, 'b) service \<Rightarrow> (('s, 'b) service, unit) result" where
  "UnpackLargePackage L zr cfg packageID sv =
     tryE (on_repo (GetPackage packageID) sv) (\<lambda>pkg sv. case pkg of
       None \<Rightarrow> (Inl (not_found packageID), sv)
     | Some p \<Rightarrow>
         if StorageMode p = ''zip_with_members'' then finish_unpack packageID sv
         else if StorageMode p \<noteq> ''raw_large'' then (Inr (), sv)
         else tryE (read_original L packageID sv) (\<lambda>zipBytes sv.
           (case on_shard (with_tx (unpack_tx L zr cfg packageID zipBytes)) sv of
              (Inl e, sv) \<Rightarrow> if errors_Is e errSkipLargeUnpack then finish_unpack packageID sv else (Inl e, sv)
            | (Inr _, sv) \<Rightarrow> finish_unpack packageID sv)))"

end
