(* ===== verification/Ingest_Inv.thy ===== *)
theory Ingest_Inv
  imports Ingestion
begin

text \<open>
  The invariant of a shard: every blob is backed by a durable record, no blob has fewer references
  counted than package files that refer to it, and every package has the original it was received
  as. It is kept by everything the ingestion service does, whatever fails.
\<close>

subsection \<open>Counting references\<close>

definition owed :: "bytes \<Rightarrow> meta_db \<Rightarrow> int" where
  "owed h db = refs h db - ref_count_of (package_files db) h"

definition has_original :: "meta_db \<Rightarrow> Package \<Rightarrow> bool" where
  "has_original db p \<longleftrightarrow> list_ex (\<lambda>f. pf_PackageID f = pk_ID p \<and> Role f = ''original'' \<and> BlobHash f = pk_PackageHash p) (package_files db)"

text \<open>The rows that the unique indexes of the table of files exclude.\<close>

abbreviation files_unique :: "meta_db \<Rightarrow> bool" where
  "files_unique db \<equiv> sorted_wrt (\<lambda>f g. \<not> file_clash g f) (package_files db)"

definition balance :: "(bytes \<Rightarrow> int) \<Rightarrow> int set \<Rightarrow> meta_db \<Rightarrow> bool" where
  "balance D X db \<longleftrightarrow> (\<forall>h. D h \<le> owed h db) \<and> (\<forall>p\<in>set (packages db). pk_ID p \<notin> X \<longrightarrow> has_original db p)
     \<and> files_unique db"

definition shard_inv :: "zstd \<Rightarrow> ('s, 'b) shard \<Rightarrow> bool" where
  "shard_inv zs st \<longleftrightarrow> store_inv zs st \<and> balance (\<lambda>_. 0) {} (sh_meta st)"

text \<open>Packages stay, with the hash they were received with.\<close>

definition package_keys :: "meta_db \<Rightarrow> (int \<times> bytes) set" where
  "package_keys db = (\<lambda>p. (pk_ID p, pk_PackageHash p)) ` set (packages db)"

text \<open>
  Inside a transaction that began with the tables \<open>old\<close>: unless it is aborted, \<open>D\<close> bounds the
  references counted beyond the files there are, and only the packages in \<open>X\<close> lack an original.
\<close>

definition tx_inv :: "zstd \<Rightarrow> meta_db \<Rightarrow> (bytes \<Rightarrow> int) \<Rightarrow> int set \<Rightarrow> ('s, 'b) shard \<Rightarrow> bool" where
  "tx_inv zs old D X st \<longleftrightarrow> store_inv zs st \<and> list_all (backed zs (sh_blobs st)) (content_blobs old)
     \<and> seq_packages old \<le> seq_packages (sh_meta st) \<and> seq_files old \<le> seq_files (sh_meta st)
     \<and> package_keys old \<subseteq> package_keys (sh_meta st)
     \<and> (md_aborted (sh_meta st) \<or> balance D X (sh_meta st))"

lemma tx_inv_aborted: "tx_inv zs old D X st \<Longrightarrow> md_aborted (sh_meta st) \<Longrightarrow> tx_inv zs old D' X' st"
  by (simp add: tx_inv_def)

lemma tx_inv_mono: "tx_inv zs old D X st \<Longrightarrow> (\<And>h. D' h \<le> D h) \<Longrightarrow> X \<subseteq> X' \<Longrightarrow> tx_inv zs old D' X' st"
  unfolding tx_inv_def balance_def by (meson order_trans subsetD)

lemma refs_cong: "content_blobs d = content_blobs db \<Longrightarrow> refs h d = refs h db"
  by (simp add: refs_def find_blob_def)

lemma balance_cong:
  "(\<And>h. refs h d = refs h db) \<Longrightarrow> packages d = packages db \<Longrightarrow> package_files d = package_files db \<Longrightarrow> balance D X d = balance D X db"
  by (simp add: balance_def owed_def has_original_def)

lemma tx_stmt_Inl_aborted: "tx_stmt f db = (Inl e, db') \<Longrightarrow> md_aborted db'"
  by (auto simp: tx_stmt_def split: if_splits prod.splits fault.splits sum.splits)

subsection \<open>Storing\<close>

lemma ref_added_balance:
  assumes "ref_added zs h data st st'" and "same_rest (sh_meta st) (sh_meta st')" and "balance D X (sh_meta st)"
  shows "balance (D(h := D h + 1)) X (sh_meta st')"
proof -
  have "owed k (sh_meta st') = owed k (sh_meta st) + (if k = h then 1 else 0)" for k
    using ref_added_refs [OF assms(1), of k] assms(2) by (simp add: owed_def same_rest_def)
  with assms(2,3) show ?thesis by (auto simp: balance_def has_original_def same_rest_def)
qed

lemma backed_keeps: "store_keeps b b' \<Longrightarrow> sm_inv (segments b) \<Longrightarrow> backed zs b x \<Longrightarrow> backed zs b' x"
  unfolding backed_def by (blast intro: blob_content_keeps)

text \<open>Whether a transaction is aborted is changed by its statements only.\<close>

lemma aborted_storeNew:
  assumes "storeNew L h data t spl st = (r, st')" and "md_aborted (sh_meta st)"
  shows "md_aborted (sh_meta st') \<and> (\<exists>e. r = Inl e)"
proof -
  have q: "md_aborted (sh_meta s) \<Longrightarrow> on_segments f s = (ra, s') \<Longrightarrow> md_aborted (sh_meta s')" for f :: "SegmentManager \<Rightarrow> (SegmentManager, Location) result" and s s' ra
    by (auto simp: on_segments_def split: prod.splits)
  have n: "md_aborted (sh_meta s) \<Longrightarrow> bs_now s = (tm, s') \<Longrightarrow> md_aborted (sh_meta s')" for s s' tm
    by (auto simp: bs_now_def split: list.splits)
  have i: "\<exists>e. wrapE p (on_tx (tx_InsertBlobOrIncrement b) s) = (Inl e, s)" if "md_aborted (sh_meta s)" for s p b
    using that by (simp add: on_tx_def tx_InsertBlobOrIncrement_def tx_stmt_def)
  obtain ra s1 where a: "on_segments (Append_segments (bs_buffered (sh_blobs st)) (encodeRecord (lib_zstd L) (encoder (sh_blobs st)) data t)) st = (ra, s1)"
    by fastforce
  note a1 = q [OF assms(2) a]
  obtain tm s2 where n2: "bs_now s1 = (tm, s2)" by fastforce
  note a2 = n [OF a1 n2]
  show ?thesis
  proof (cases ra)
    case Inl
    with assms(1) a a1 show ?thesis by (auto simp: storeNew_def Let_def)
  next
    case (Inr loc)
    obtain e where e: "wrapE ''insert blob: '' (on_tx (tx_InsertBlobOrIncrement
        (new_blob h data (encodeRecord (lib_zstd L) (encoder (sh_blobs st)) data t) loc tm)) s2) = (Inl e, s2)"
      using i [OF a2, of "''insert blob: ''"] by blast
    have "st' = s2 \<and> (\<exists>e. r = Inl e)" using assms(1) a Inr n2 e by (auto simp: storeNew_def Let_def)
    with a2 show ?thesis by auto
  qed
qed

lemma aborted_StoreOrRef:
  assumes "StoreOrRef L data t spl st = (r, st')" and "md_aborted (sh_meta st)"
  shows "md_aborted (sh_meta st')" and "\<exists>e. r = Inl e"
proof -
  have ex: "md_aborted (sh_meta s') \<and> (\<exists>e. q = Inl e)" if "store_existing L h data t spl s = (q, s')" "md_aborted (sh_meta s)" for s s' q h
    using that by (auto simp: store_existing_def on_tx_def tx_GetBlob_def tx_stmt_def)
  have look: "md_aborted (sh_meta s')" if "lookup_hot L h s = (y, s')" "md_aborted (sh_meta s)" for s s' h y
    using that by (auto simp: lookup_hot_def split: prod.splits)
  let ?h = "ContentHash_of data"
  have "md_aborted (sh_meta st') \<and> (\<exists>e. r = Inl e)"
  proof (cases "hot_index (sh_blobs st) \<noteq> None")
    case False
    then show ?thesis using assms ex by (auto simp: StoreOrRef_def Let_def)
  next
    case True
    obtain y s1 where y: "lookup_hot L ?h st = (y, s1)" by fastforce
    note l = look [OF y assms(2)]
    have i: "on_tx (tx_IncrementRefCountIfExists ?h) s1 = (Inl (Err ''current transaction is aborted''), s1)"
      using l by (simp add: on_tx_def tx_IncrementRefCountIfExists_def tx_stmt_def)
    show ?thesis
    proof (cases "HotIndex_MightContain (lib_bloom L) ?h (hot_index (sh_blobs st))")
      case True
      with \<open>hot_index (sh_blobs st) \<noteq> None\<close> assms(1) y i l ex show ?thesis
        by (auto simp: StoreOrRef_def Let_def split: if_splits)
    next
      case False
      with True assms(1) have s: "storeNew L ?h data t spl st = (r, st')" by (simp add: StoreOrRef_def Let_def)
      from aborted_storeNew [OF s assms(2)] show ?thesis .
    qed
  qed
  then show "md_aborted (sh_meta st')" and "\<exists>e. r = Inl e" by auto
qed


lemma tx_inv_StoreOrRef:
  assumes "zstd_laws (lib_zstd L)" and "tx_inv (lib_zstd L) old D X st" and "StoreOrRef L data t spl st = (r, st')"
  shows "tx_inv (lib_zstd L) old D X st'"
    and "r = Inr (h, created) \<Longrightarrow> h = ContentHash_of data \<and> tx_inv (lib_zstd L) old (D(h := D h + 1)) X st'"
proof -
  have si: "store_inv (lib_zstd L) st" using assms(2) by (simp add: tx_inv_def)
  note i = StoreOrRef_inv [OF assms(1) si assms(3)]
  have sm: "sm_inv (segments (sh_blobs st))" using si by (simp add: store_inv_def)
  have k: "store_keeps (sh_blobs st) (sh_blobs st')" and rest: "same_rest (sh_meta st) (sh_meta st')"
    using i(2) by (simp_all add: ref_step_def touched_def)
  have base: "list_all (backed (lib_zstd L) (sh_blobs st')) (content_blobs old)"
     "seq_packages old \<le> seq_packages (sh_meta st')" "seq_files old \<le> seq_files (sh_meta st')"
     "package_keys old \<subseteq> package_keys (sh_meta st')"
    using assms(2) backed_keeps [OF k sm] rest by (auto simp: tx_inv_def list_all_iff same_rest_def package_keys_def)
  have bal: "balance D X (sh_meta st') \<and> (\<forall>x. r = Inr x \<longrightarrow> balance (D(ContentHash_of data := D (ContentHash_of data) + 1)) X (sh_meta st'))"
    if "balance D X (sh_meta st)"
  proof -
    from i(2) consider "ref_added (lib_zstd L) (ContentHash_of data) data st st'"
      | e where "r = Inl e" "content_blobs (sh_meta st') = content_blobs (sh_meta st)" by (auto simp: ref_step_def)
    then show ?thesis
    proof cases
      case 1
      note b = ref_added_balance [OF 1 rest that]
      then have "balance D X (sh_meta st')" unfolding balance_def by (smt (verit) fun_upd_apply)
      with b show ?thesis by blast
    next
      case 2
      have "balance D X (sh_meta st') = balance D X (sh_meta st)"
        using rest 2(2) by (intro balance_cong refs_cong) (simp_all add: same_rest_def)
      with 2 that show ?thesis by simp
    qed
  qed
  show "tx_inv (lib_zstd L) old D X st'"
    using base i(1) bal assms(2) aborted_StoreOrRef [OF assms(3)] by (auto simp: tx_inv_def)
  show "h = ContentHash_of data \<and> tx_inv (lib_zstd L) old (D(h := D h + 1)) X st'" if r: "r = Inr (h, created)"
  proof -
    have h: "h = ContentHash_of data" using i(3) [OF r] by simp
    have "\<not> md_aborted (sh_meta st)" using aborted_StoreOrRef(2) [OF assms(3)] r by auto
    with bal assms(2) r h base i(1) show ?thesis by (auto simp: tx_inv_def)
  qed
qed

subsection \<open>Statements\<close>

lemma tx_inv_stmt:
  assumes "tx_inv zs old D X st" and "on_tx op st = (r, st')" and "md_wf (sh_meta st')"
    and "content_blobs (sh_meta st') = map g (content_blobs (sh_meta st))"
    and "\<And>b d. blob_content zs (sh_blobs st) (g b) d = blob_content zs (sh_blobs st) b d"
    and "seq_packages (sh_meta st) \<le> seq_packages (sh_meta st')" and "seq_files (sh_meta st) \<le> seq_files (sh_meta st')"
    and "package_keys (sh_meta st) \<subseteq> package_keys (sh_meta st')"
    and "md_aborted (sh_meta st') \<or> balance D' X' (sh_meta st')"
  shows "tx_inv zs old D' X' st'"
proof -
  have b: "sh_blobs st' = sh_blobs st" using assms(2) by (auto simp: on_tx_iff)
  have "list_all (backed zs (sh_blobs st)) (content_blobs (sh_meta st'))"
  proof -
    have "blob_content zs (sh_blobs st) (g b) = blob_content zs (sh_blobs st) b" for b by (rule ext) (rule assms(5))
    then have "backed zs (sh_blobs st) (g b) = backed zs (sh_blobs st) b" for b by (simp add: backed_def)
    with assms(1) show ?thesis unfolding assms(4) by (simp add: tx_inv_def store_inv_def list_all_iff)
  qed
  with assms b show ?thesis by (auto simp: tx_inv_def store_inv_def)
qed

lemma CreatePackage_effect:
  assumes "tx_CreatePackage inp db = (r, db')" and "md_wf db"
  shows "md_wf db'" and "content_blobs db' = content_blobs db" and "package_files db' = package_files db"
    and "seq_packages db \<le> seq_packages db'" and "seq_files db \<le> seq_files db'"
    and "r = Inl e \<Longrightarrow> md_aborted db' \<and> packages db' = packages db"
    and "r = Inr i \<Longrightarrow> \<not> md_aborted db \<and> \<not> has_package i db \<and> (\<exists>p. pk_ID p = i \<and> pk_PackageHash p = ci_PackageHash inp \<and> packages db' = packages db @ [p])"
proof -
  show "md_wf db'" using md_wf_CreatePackage [OF assms(2), of inp] assms(1) by simp
  show "seq_packages db \<le> seq_packages db'" "seq_files db \<le> seq_files db'"
    using seq_mono_op [of db "TxCreatePackage inp"] assms(1) by (auto simp: retE_def tryE_cases split: sum.splits)
  obtain fl d where fl: "md_take_fault db = (fl, d)" by fastforce
  obtain t d1 where n: "md_now (d\<lparr>seq_packages := seq_packages d + 1\<rparr>) = (t, d1)" by fastforce
  note tf = md_take_fault_tables [OF fl] md_now_tables [OF n]
  show "md_aborted db' \<and> packages db' = packages db" if "r = Inl e"
    using assms(1) fl n tf that by (auto simp: tx_CreatePackage_def tx_stmt_def Let_def split: if_splits fault.splits)
  show "content_blobs db' = content_blobs db" "package_files db' = package_files db"
    using assms(1) fl n tf by (auto simp: tx_CreatePackage_def tx_stmt_def Let_def split: if_splits fault.splits)
  show "\<not> md_aborted db \<and> \<not> has_package i db \<and> (\<exists>p. pk_ID p = i \<and> pk_PackageHash p = ci_PackageHash inp \<and> packages db' = packages db @ [p])"
    if "r = Inr i"
    using assms(1) fl n tf that
    by (auto simp: tx_CreatePackage_def tx_stmt_def Let_def has_package_def new_package_def split: if_splits fault.splits)
qed

lemma CreatePackageFile_effect:
  assumes "tx_CreatePackageFile i inp db = (r, db')" and "md_wf db"
  shows "md_wf db'" and "content_blobs db' = content_blobs db" and "packages db' = packages db"
    and "seq_packages db \<le> seq_packages db'" and "seq_files db \<le> seq_files db'"
    and "r = Inl e \<Longrightarrow> md_aborted db'"
    and "r = Inr j \<Longrightarrow> \<not> md_aborted db \<and> has_blob (fi_BlobHash inp) db \<and> (\<exists>f. pf_PackageID f = i \<and> Role f = fi_Role inp
        \<and> BlobHash f = fi_BlobHash inp \<and> (\<forall>g\<in>set (package_files db). \<not> file_clash f g) \<and> package_files db' = package_files db @ [f])"
proof -
  show "md_wf db'" using md_wf_CreatePackageFile [OF assms(2), of i inp] assms(1) by simp
  show "seq_packages db \<le> seq_packages db'" "seq_files db \<le> seq_files db'"
    using seq_mono_op [of db "TxCreatePackageFile i inp"] assms(1) by (auto simp: retE_def tryE_cases split: sum.splits)
  show "r = Inl e \<Longrightarrow> md_aborted db'" using assms(1) tx_stmt_Inl_aborted by (auto simp: tx_CreatePackageFile_def)
  obtain fl d where fl: "md_take_fault db = (fl, d)" by fastforce
  note tf = md_take_fault_tables [OF fl]
  show "content_blobs db' = content_blobs db" "packages db' = packages db"
    using assms(1) fl tf by (auto simp: tx_CreatePackageFile_def tx_stmt_def Let_def split: if_splits fault.splits)
  show "\<not> md_aborted db \<and> has_blob (fi_BlobHash inp) db \<and> (\<exists>f. pf_PackageID f = i \<and> Role f = fi_Role inp
        \<and> BlobHash f = fi_BlobHash inp \<and> (\<forall>g\<in>set (package_files db). \<not> file_clash f g) \<and> package_files db' = package_files db @ [f])" if "r = Inr j"
    using assms(1) fl tf that
    by (auto simp: tx_CreatePackageFile_def tx_stmt_def Let_def file_accepted_def new_file_def has_blob_def list_ex_iff split: if_splits fault.splits)
qed


lemma tx_inv_CreatePackage:
  assumes "tx_inv zs old D X st" and "on_tx (tx_CreatePackage inp) st = (r, st')"
  shows "r = Inl e \<Longrightarrow> tx_inv zs old D' X' st'"
    and "r = Inr i \<Longrightarrow> tx_inv zs old D (insert i X) st' \<and> (\<exists>p. find_package i (sh_meta st') = Some p \<and> pk_PackageHash p = ci_PackageHash inp)"
proof -
  obtain db where db: "tx_CreatePackage inp (sh_meta st) = (r, db)" "st' = st\<lparr>sh_meta := db\<rparr>" using assms(2) by (auto simp: on_tx_iff)
  have wf: "md_wf (sh_meta st)" using assms(1) by (simp add: tx_inv_def store_inv_def)
  note e = CreatePackage_effect [OF db(1) wf]
  note s = tx_inv_stmt [OF assms, where g = "\<lambda>b. b"]
  show "tx_inv zs old D' X' st'" if "r = Inl e"
    by (rule s) (use e(1-5) e(6) [OF that] db(2) in \<open>simp_all add: package_keys_def\<close>)
  show "tx_inv zs old D (insert i X) st' \<and> (\<exists>p. find_package i (sh_meta st') = Some p \<and> pk_PackageHash p = ci_PackageHash inp)" if ri: "r = Inr i"
  proof -
    obtain p where p: "\<not> md_aborted (sh_meta st)" "\<not> has_package i (sh_meta st)" "pk_ID p = i" "pk_PackageHash p = ci_PackageHash inp"
        "packages db = packages (sh_meta st) @ [p]"
      using e(7) [OF ri] by blast
    have "balance D X (sh_meta st)" using assms(1) p(1) by (simp add: tx_inv_def)
    then have "balance D (insert i X) db"
      using p e(2,3) by (auto simp: balance_def owed_def has_original_def refs_def find_blob_def)
    then have "tx_inv zs old D (insert i X) st'" by (intro s) (use e(1-5) p(5) db(2) in \<open>auto simp: package_keys_def\<close>)
    moreover have "find_package i (sh_meta st') = Some p"
      using p db(2) find_package_None [of i "sh_meta st"] by (simp add: find_package_def find_snoc)
    ultimately show ?thesis using p(4) by blast
  qed
qed

lemma tx_inv_CreatePackageFile:
  assumes "tx_inv zs old D X st" and "on_tx (tx_CreatePackageFile i inp) st = (r, st')"
  shows "r = Inl e \<Longrightarrow> tx_inv zs old D' X' st'"
    and "r = Inr j \<Longrightarrow> tx_inv zs old (D(fi_BlobHash inp := D (fi_BlobHash inp) - 1)) X st' \<and> has_blob (fi_BlobHash inp) (sh_meta st')
      \<and> packages (sh_meta st') = packages (sh_meta st)"
    and "r = Inr j \<Longrightarrow> find_package i (sh_meta st) = Some p \<Longrightarrow> pk_PackageHash p = fi_BlobHash inp \<Longrightarrow> fi_Role inp = ''original''
      \<Longrightarrow> tx_inv zs old (D(fi_BlobHash inp := D (fi_BlobHash inp) - 1)) (X - {i}) st'"
proof -
  obtain db where db: "tx_CreatePackageFile i inp (sh_meta st) = (r, db)" "st' = st\<lparr>sh_meta := db\<rparr>" using assms(2) by (auto simp: on_tx_iff)
  have wf: "md_wf (sh_meta st)" using assms(1) by (simp add: tx_inv_def store_inv_def)
  note e = CreatePackageFile_effect [OF db(1) wf]
  note s = tx_inv_stmt [OF assms, where g = "\<lambda>b. b"]
  let ?h = "fi_BlobHash inp"
  show "tx_inv zs old D' X' st'" if "r = Inl e"
    by (rule s) (use e(1-5) e(6) [OF that] db(2) in \<open>simp_all add: package_keys_def\<close>)
  have bal: "balance (D(?h := D ?h - 1)) (if mine then X - {i} else X) db \<and> has_blob ?h db"
    if rj: "r = Inr j" and mine: "mine \<Longrightarrow> find_package i (sh_meta st) = Some p \<and> pk_PackageHash p = ?h \<and> fi_Role inp = ''original''" for mine
  proof -
    obtain f where f: "\<not> md_aborted (sh_meta st)" "has_blob ?h (sh_meta st)" "pf_PackageID f = i" "Role f = fi_Role inp" "BlobHash f = ?h"
        "package_files db = package_files (sh_meta st) @ [f]" "\<forall>g\<in>set (package_files (sh_meta st)). \<not> file_clash f g"
      using e(7) [OF rj] by blast
    have b: "balance D X (sh_meta st)" using assms(1) f(1) by (simp add: tx_inv_def)
    have "refs k db = refs k (sh_meta st)" for k using e(2) by (rule refs_cong)
    then have o: "owed k db = owed k (sh_meta st) - (if k = ?h then 1 else 0)" for k
      using f(5,6) by (simp add: owed_def ref_count_of_def)
    have or: "has_original db q" if q: "q \<in> set (packages db)" "pk_ID q \<notin> (if mine then X - {i} else X)" for q
    proof (cases "mine \<and> pk_ID q = i")
      case False
      with q b e(3) f(6) show ?thesis by (auto simp: balance_def has_original_def split: if_splits)
    next
      case True
      with mine have fp: "find_package i (sh_meta st) = Some p" "pk_PackageHash p = ?h" "fi_Role inp = ''original''" by auto
      have "p \<in> set (packages (sh_meta st))" "pk_ID p = i" using fp(1) by (auto simp: find_package_def dest: find_SomeD)
      then have "q = p" using wf q(1) e(3) True by (auto simp: md_wf_def distinct_map dest: inj_onD)
      with f(3-6) fp(2,3) True show ?thesis by (simp add: has_original_def)
    qed
    have "has_blob ?h db" using f(2) e(2) by (simp add: has_blob_def)
    moreover have "(D(?h := D ?h - 1)) k \<le> owed k db" for k
    proof -
      have "D k \<le> owed k (sh_meta st)" using b by (simp add: balance_def)
      with o [of k] show ?thesis by (cases "k = ?h") auto
    qed
    moreover have "files_unique db" using b f(6,7) by (simp add: balance_def sorted_wrt_append)
    ultimately show ?thesis using or by (auto simp: balance_def)
  qed
  show "tx_inv zs old (D(?h := D ?h - 1)) X st' \<and> has_blob ?h (sh_meta st') \<and> packages (sh_meta st') = packages (sh_meta st)" if "r = Inr j"
  proof -
    have "tx_inv zs old (D(?h := D ?h - 1)) X st'" by (rule s) (use e(1-5) bal [OF that, of False] db(2) in \<open>simp_all add: package_keys_def\<close>)
    with bal [OF that, of False] e(3) db(2) show ?thesis by simp
  qed
  show "tx_inv zs old (D(?h := D ?h - 1)) (X - {i}) st'" if "r = Inr j" "find_package i (sh_meta st) = Some p" "pk_PackageHash p = ?h" "fi_Role inp = ''original''"
    by (rule s) (use e(1-5) bal [OF that(1), of True] that db(2) in \<open>simp_all add: package_keys_def\<close>)
qed


lemma tx_inv_IncrementRefCount:
  assumes "tx_inv zs old D X st" and "on_tx (tx_IncrementRefCount h) st = (r, st')" and "has_blob h (sh_meta st)"
  shows "r = Inl e \<Longrightarrow> tx_inv zs old D' X' st'" and "r = Inr u \<Longrightarrow> tx_inv zs old (D(h := D h + 1)) X st' \<and> (\<forall>k. has_blob k (sh_meta st') = has_blob k (sh_meta st))"
proof -
  obtain db where db: "tx_IncrementRefCount h (sh_meta st) = (r, db)" "st' = st\<lparr>sh_meta := db\<rparr>" using assms(2) by (auto simp: on_tx_iff)
  have wf: "md_wf (sh_meta st)" using assms(1) by (simp add: tx_inv_def store_inv_def)
  have wf': "md_wf db" using md_wf_IncrementRefCount [OF wf, of h] db(1) by simp
  note e = IncrementRefCount_effect [OF db(1)]
  have sq: "seq_packages db = seq_packages (sh_meta st)" "seq_files db = seq_files (sh_meta st)" "package_keys db = package_keys (sh_meta st)"
    using e(1) by (simp_all add: same_rest_def package_keys_def)
  show "tx_inv zs old D' X' st'" if "r = Inl e"
    by (rule tx_inv_stmt [OF assms(1,2), where g = "\<lambda>b. b"])
      (use wf' sq e(2) [OF that] db that tx_stmt_Inl_aborted in \<open>auto simp: tx_IncrementRefCount_def\<close>)
  show "tx_inv zs old (D(h := D h + 1)) X st' \<and> (\<forall>k. has_blob k (sh_meta st') = has_blob k (sh_meta st))" if ru: "r = Inr u"
  proof -
    have c: "content_blobs db = map (bump h) (content_blobs (sh_meta st))" using e(3) [OF ru] .
    have "\<not> md_aborted (sh_meta st)" using db(1) ru by (auto simp: tx_IncrementRefCount_def tx_stmt_def)
    then have b: "balance D X (sh_meta st)" using assms(1) by (simp add: tx_inv_def)
    have "ref_added zs h [] st st'" using assms(3) c db(2) by (simp add: ref_added_def)
    then have "balance (D(h := D h + 1)) X db" using ref_added_balance [of zs h "[]" st st' D X] b e(1) db(2) by simp
    then have "tx_inv zs old (D(h := D h + 1)) X st'"
      by (intro tx_inv_stmt [OF assms(1,2), where g = "bump h"]) (use wf' sq c db(2) in simp_all)
    moreover have "has_blob k db = has_blob k (sh_meta st)" for k using c by (simp add: has_blob_def list_ex_iff)
    ultimately show ?thesis using db(2) by simp
  qed
qed

fun more_refs :: "bytes list \<Rightarrow> (bytes \<Rightarrow> int) \<Rightarrow> bytes \<Rightarrow> int" where
  "more_refs [] D = D"
| "more_refs (h # hs) D = more_refs hs (D(h := D h + 1))"

fun less_refs :: "bytes list \<Rightarrow> (bytes \<Rightarrow> int) \<Rightarrow> bytes \<Rightarrow> int" where
  "less_refs [] D = D"
| "less_refs (h # hs) D = less_refs hs (D(h := D h - 1))"

lemma more_refs_count: "more_refs hs D k = D k + int (length (filter (\<lambda>h. h = k) hs))"
  by (induction hs arbitrary: D) auto

lemma less_refs_count: "less_refs hs D k = D k - int (length (filter (\<lambda>h. h = k) hs))"
  by (induction hs arbitrary: D) auto

lemma more_less_refs: "more_refs hs (less_refs hs D) = D"
  by (rule ext) (simp add: more_refs_count less_refs_count)

lemma on_tx_tryE: "on_tx (\<lambda>db. tryE (f db) k) st = tryE (on_tx f st) (\<lambda>x. on_tx (k x))"
  by (cases "f (sh_meta st)"; cases "fst (f (sh_meta st))") (auto simp: on_tx_def)

lemma tx_inv_IncrementRefCounts:
  assumes "tx_inv zs old D X st" and "on_tx (tx_IncrementRefCounts hs) st = (r, st')" and "\<forall>h\<in>set hs. has_blob h (sh_meta st)"
  shows "r = Inl e \<Longrightarrow> tx_inv zs old D' X' st'" and "r = Inr u \<Longrightarrow> tx_inv zs old (more_refs hs D) X st'"
proof -
  have "(\<forall>e. r = Inl e \<longrightarrow> tx_inv zs old D' X' st') \<and> (\<forall>u. r = Inr u \<longrightarrow> tx_inv zs old (more_refs hs D) X st')"
    using assms
  proof (induction hs arbitrary: D st)
    case Nil
    then show ?case by (auto simp: on_tx_def)
  next
    case (Cons h hs)
    obtain q s1 where q: "on_tx (tx_IncrementRefCount h) st = (q, s1)" by fastforce
    have hb: "has_blob h (sh_meta st)" using Cons.prems(3) by simp
    note i = tx_inv_IncrementRefCount [OF Cons.prems(1) q hb]
    have ex: "tx_IncrementRefCounts (h # hs) = (\<lambda>db. tryE (tx_IncrementRefCount h db) (\<lambda>_. tx_IncrementRefCounts hs))"
      by (rule ext) simp
    have un: "on_tx (tx_IncrementRefCounts (h # hs)) st = tryE (q, s1) (\<lambda>_. on_tx (tx_IncrementRefCounts hs))"
      using on_tx_tryE [of "tx_IncrementRefCount h" "\<lambda>_. tx_IncrementRefCounts hs" st] q
      unfolding ex by simp
    show ?case
    proof (cases q)
      case (Inl e)
      with un Cons.prems(2) i(1) show ?thesis by auto
    next
      case (Inr u)
      with un Cons.prems(2) have "on_tx (tx_IncrementRefCounts hs) s1 = (r, st')" by simp
      moreover have "tx_inv zs old (D(h := D h + 1)) X s1" and "\<forall>h\<in>set hs. has_blob h (sh_meta s1)" using i(2) [OF Inr] Cons.prems(3) by auto
      ultimately show ?thesis using Cons.IH [of "D(h := D h + 1)" s1] by (simp del: fun_upd_apply)
    qed
  qed
  then show "r = Inl e \<Longrightarrow> tx_inv zs old D' X' st'" and "r = Inr u \<Longrightarrow> tx_inv zs old (more_refs hs D) X st'" by blast+
qed

lemma tx_inv_quiet:
  assumes "tx_inv zs old D X st" and "on_tx op st = (r, st')" and "same_rest (sh_meta st) (sh_meta st')"
    and "content_blobs (sh_meta st') = content_blobs (sh_meta st)" and "md_aborted (sh_meta st) \<longrightarrow> md_aborted (sh_meta st')"
  shows "tx_inv zs old D X st'"
proof (rule tx_inv_stmt [OF assms(1,2), where g = "\<lambda>b. b"])
  have "md_wf (sh_meta st)" using assms(1) by (simp add: tx_inv_def store_inv_def)
  then show "md_wf (sh_meta st')" by (rule md_wf_cong [rotated 5]) (use assms(3,4) in \<open>simp_all add: same_rest_def\<close>)
  have "balance D X (sh_meta st') = balance D X (sh_meta st)"
    using assms(3,4) by (intro balance_cong refs_cong) (simp_all add: same_rest_def)
  with assms(1,5) show "md_aborted (sh_meta st') \<or> balance D X (sh_meta st')" by (auto simp: tx_inv_def)
qed (use assms(3,4) in \<open>simp_all add: same_rest_def package_keys_def\<close>)

lemma after_unpack_keys: "pk_ID (after_unpack i mode n err q) = pk_ID q" "pk_PackageHash (after_unpack i mode n err q) = pk_PackageHash q"
  by (simp_all add: after_unpack_def)

lemma tx_inv_UpdatePackageAfterUnpack:
  assumes "tx_inv zs old D X st" and "on_tx (tx_UpdatePackageAfterUnpack i mode n err) st = (r, st')"
  shows "r = Inl e \<Longrightarrow> tx_inv zs old D' X' st'" and "r = Inr v \<Longrightarrow> tx_inv zs old D X st'"
proof -
  let ?db = "sh_meta st"
  obtain db where db: "tx_UpdatePackageAfterUnpack i mode n err ?db = (r, db)" "st' = st\<lparr>sh_meta := db\<rparr>" using assms(2) by (auto simp: on_tx_iff)
  have wf: "md_wf ?db" using assms(1) by (simp add: tx_inv_def store_inv_def)
  have wf': "md_wf db" using md_wf_UpdatePackageAfterUnpack [OF wf, of i mode n err] db(1) by simp
  obtain fl d where fl: "md_take_fault ?db = (fl, d)" by fastforce
  note tf = md_take_fault_tables [OF fl]
  have same: "content_blobs db = content_blobs ?db" "package_files db = package_files ?db" "seq_packages db = seq_packages ?db" "seq_files db = seq_files ?db"
    using db(1) fl tf by (auto simp: tx_UpdatePackageAfterUnpack_def tx_stmt_def split: if_splits fault.splits)
  have "packages db = packages ?db \<or> packages db = map (after_unpack i mode n err) (packages ?db)"
    using db(1) fl tf by (auto simp: tx_UpdatePackageAfterUnpack_def tx_stmt_def split: if_splits fault.splits)
  then have keys: "package_keys db = package_keys ?db"
    by (auto simp: package_keys_def image_image after_unpack_keys)
  show "tx_inv zs old D' X' st'" if "r = Inl e"
    by (rule tx_inv_stmt [OF assms(1,2), where g = "\<lambda>b. b"])
      (use wf' same keys db that tx_stmt_Inl_aborted in \<open>auto simp: tx_UpdatePackageAfterUnpack_def\<close>)
  show "tx_inv zs old D X st'" if "r = Inr v"
  proof -
    have p: "packages db = map (after_unpack i mode n err) (packages ?db)" "\<not> md_aborted ?db"
      using db(1) fl tf that by (auto simp: tx_UpdatePackageAfterUnpack_def tx_stmt_def split: if_splits fault.splits)
    have "balance D X ?db" using assms(1) p(2) by (simp add: tx_inv_def)
    then have "balance D X db" using p(1) same refs_cong [OF same(1)] by (auto simp: balance_def owed_def has_original_def after_unpack_keys)
    then show ?thesis by (intro tx_inv_stmt [OF assms(1,2), where g = "\<lambda>b. b"]) (use wf' same keys db(2) in simp_all)
  qed
qed

subsection \<open>Bodies of transactions\<close>

text \<open>The invariant with the rows of packages pinned, for the parts that add files only.\<close>

definition tx_ok :: "zstd \<Rightarrow> meta_db \<Rightarrow> (bytes \<Rightarrow> int) \<Rightarrow> int set \<Rightarrow> Package list \<Rightarrow> ('s, 'b) shard \<Rightarrow> bool" where
  "tx_ok zs old D X P st \<longleftrightarrow> tx_inv zs old D X st \<and> packages (sh_meta st) = P"

lemma tx_ok_StoreOrRef:
  assumes "zstd_laws (lib_zstd L)" and "tx_ok (lib_zstd L) old D X P st" and "StoreOrRef L data t spl st = (r, st')"
  shows "tx_ok (lib_zstd L) old D X P st'"
    and "r = Inr (h, created) \<Longrightarrow> h = ContentHash_of data \<and> tx_ok (lib_zstd L) old (D(h := D h + 1)) X P st'"
proof -
  have i: "tx_inv (lib_zstd L) old D X st" "store_inv (lib_zstd L) st" using assms(2) by (simp_all add: tx_ok_def tx_inv_def)
  have "packages (sh_meta st') = packages (sh_meta st)"
    using StoreOrRef_inv(2) [OF assms(1) i(2) assms(3)] by (simp add: ref_step_def touched_def same_rest_def)
  with assms(2) tx_inv_StoreOrRef [OF assms(1) i(1) assms(3)]
  show "tx_ok (lib_zstd L) old D X P st'"
    and "r = Inr (h, created) \<Longrightarrow> h = ContentHash_of data \<and> tx_ok (lib_zstd L) old (D(h := D h + 1)) X P st'"
    by (auto simp: tx_ok_def)
qed

lemma tx_ok_CreatePackageFile:
  assumes "tx_ok zs old D X P st" and "on_tx (tx_CreatePackageFile i inp) st = (r, st')"
  shows "r = Inl e \<Longrightarrow> tx_ok zs old D' X' P st'"
    and "r = Inr j \<Longrightarrow> tx_ok zs old (D(fi_BlobHash inp := D (fi_BlobHash inp) - 1)) X P st' \<and> has_blob (fi_BlobHash inp) (sh_meta st')"
proof -
  have i: "tx_inv zs old D X st" "md_wf (sh_meta st)" using assms(1) by (simp_all add: tx_ok_def tx_inv_def store_inv_def)
  obtain db where db: "tx_CreatePackageFile i inp (sh_meta st) = (r, db)" "st' = st\<lparr>sh_meta := db\<rparr>" using assms(2) by (auto simp: on_tx_iff)
  have p: "packages (sh_meta st') = P" using CreatePackageFile_effect(3) [OF db(1) i(2)] db(2) assms(1) by (simp add: tx_ok_def)
  show "tx_ok zs old D' X' P st'" if "r = Inl e" using tx_inv_CreatePackageFile(1) [OF i(1) assms(2) that] p by (simp add: tx_ok_def)
  show "tx_ok zs old (D(fi_BlobHash inp := D (fi_BlobHash inp) - 1)) X P st' \<and> has_blob (fi_BlobHash inp) (sh_meta st')" if "r = Inr j"
    using tx_inv_CreatePackageFile(2) [OF i(1) assms(2) that] p by (simp add: tx_ok_def)
qed

text \<open>Content and the file that refers to it.\<close>

lemma tx_ok_stored_file:
  assumes "tx_ok zs old (D(h := D h + 1)) X P st" and "on_tx (tx_CreatePackageFile i inp) st = (r, st')" and "fi_BlobHash inp = h"
  shows "tx_ok zs old D X P st'"
proof (cases r)
  case (Inl e)
  then show ?thesis by (rule tx_ok_CreatePackageFile(1) [OF assms(1,2)])
next
  case (Inr j)
  from tx_ok_CreatePackageFile(2) [OF assms(1,2) Inr] assms(3) show ?thesis by simp
qed

lemma tx_ok_persistUnpackError:
  assumes "zstd_laws (lib_zstd L)" and "tx_ok (lib_zstd L) old D X P st" and "persistUnpackError L i spl err c st = (r, st')"
  shows "tx_ok (lib_zstd L) old D X P st'"
proof -
  obtain q s1 where q: "StoreOrRef L (text_bytes (error_text err)) RecordError spl st = (q, s1)" by fastforce
  note s = tx_ok_StoreOrRef [OF assms(1,2) q]
  show ?thesis
  proof (cases q)
    case Inl
    with q assms(3) s(1) show ?thesis by (simp add: persistUnpackError_def)
  next
    case (Inr x)
    obtain h created where x: "x = (h, created)" by fastforce
    let ?inp = "\<lparr>fi_BlobHash = h, fi_Role = ''unpack_error'', fi_OriginalFilename = Some ''_unpack_error.txt'', fi_SequenceNumber = None\<rparr>"
    obtain v s2 where v: "on_tx (tx_CreatePackageFile i ?inp) s1 = (v, s2)" by fastforce
    have "tx_ok (lib_zstd L) old D X P s2"
      using s(2) [of h created] Inr x by (intro tx_ok_stored_file [OF _ v]) auto
    moreover have "st' = s2" using assms(3) q Inr x v by (cases v) (auto simp: persistUnpackError_def)
    ultimately show ?thesis by simp
  qed
qed

lemma tx_ok_persistMember:
  assumes "zstd_laws (lib_zstd L)" and "tx_ok (lib_zstd L) old D X P st" and "persistMember L i spl name data (st, c, n) = (r, (st', c', n'))"
  shows "tx_ok (lib_zstd L) old D X P st'"
proof -
  obtain q s1 where q: "StoreOrRef L data RecordXML spl st = (q, s1)" by fastforce
  note s = tx_ok_StoreOrRef [OF assms(1,2) q]
  show ?thesis
  proof (cases q)
    case Inl
    with q assms(3) s(1) show ?thesis by (simp add: persistMember_def)
  next
    case (Inr x)
    obtain h created where x: "x = (h, created)" by fastforce
    let ?inp = "\<lparr>fi_BlobHash = h, fi_Role = ''member'', fi_OriginalFilename = Some name, fi_SequenceNumber = Some n\<rparr>"
    obtain v s2 where v: "on_tx (tx_CreatePackageFile i ?inp) s1 = (v, s2)" by fastforce
    have "tx_ok (lib_zstd L) old D X P s2"
      using s(2) [of h created] Inr x by (intro tx_ok_stored_file [OF _ v]) auto
    moreover have "st' = s2" using assms(3) q Inr x v by (cases v) (auto simp: persistMember_def)
    ultimately show ?thesis by simp
  qed
qed

lemma tx_ok_persistZipMembers:
  assumes "zstd_laws (lib_zstd L)" and "tx_ok (lib_zstd L) old D X P st" and "persistZipMembers L zr i spl zb mx c st = (r, st')"
  shows "tx_ok (lib_zstd L) old D X P st'"
proof -
  let ?I = "\<lambda>s. tx_ok (lib_zstd L) old D X P (fst s)"
  obtain q s1 c1 n1 where q: "ForEachZipMember zr zb mx (persistMember L i spl) (st, c, 0) = (q, (s1, c1, n1))"
    by (metis prod.exhaust)
  have m: "?I s \<Longrightarrow> persistMember L i spl name body s = (r, s') \<Longrightarrow> ?I s'" for s name body r s'
    using tx_ok_persistMember [OF assms(1), of old D X P "fst s" i spl name body "fst (snd s)" "snd (snd s)" r "fst s'"] by (cases s; cases s') auto
  have loop: "tx_ok (lib_zstd L) old D X P s2" if z: "zip_loop k (persistMember L i spl) fs 0 (st, c, 0) = (q', (s2, x))" for k fs q' s2 x
  proof -
    have "case zip_loop k (persistMember L i spl) fs 0 (st, c, 0) of (r, s') \<Rightarrow> ?I s' \<and> (r = Inr () \<longrightarrow> (\<exists>tot'::int. ?I s'))"
      by (rule zip_loop_inv [where I = "\<lambda>_. ?I" and J = ?I]) (use m assms(2) in \<open>auto split: prod.split\<close>)
    with z show ?thesis by simp
  qed
  have i: "tx_ok (lib_zstd L) old D X P s1"
  proof (cases "zr zb")
    case Inl
    with q assms(2) show ?thesis by (simp add: ForEachZipMember_def)
  next
    case (Inr fs)
    with q have "zip_loop (effectiveMaxUnpackedZipBytes mx) (persistMember L i spl) fs 0 (st, c, 0) = (q, (s1, c1, n1))"
      by (simp add: ForEachZipMember_def)
    then show ?thesis by (rule loop)
  qed
  show ?thesis
  proof (cases q)
    case (Inl e)
    obtain v s2 where v: "persistUnpackError L i spl e c1 s1 = (v, s2)" by fastforce
    have "st' = s2" using assms(3) q Inl v by (cases v) (auto simp: persistZipMembers_def)
    with tx_ok_persistUnpackError [OF assms(1) i v] show ?thesis by simp
  next
    case Inr
    with assms(3) q i show ?thesis by (simp add: persistZipMembers_def)
  qed
qed

lemma tx_inv_store_original:
  assumes "zstd_laws (lib_zstd L)" and "tx_inv (lib_zstd L) old D X st" and "ci_PackageHash inp = ContentHash_of body"
    and "store_original L spl body t inp filename st = (r, st')"
  shows "tx_inv (lib_zstd L) old D X st'"
    and "r = Inr (i, c) \<Longrightarrow> \<exists>p. find_package i (sh_meta st') = Some p \<and> pk_PackageHash p = ContentHash_of body"
proof -
  let ?z = "lib_zstd L"
  let ?Q = "tx_inv ?z old D X st' \<and> (\<forall>i c. r = Inr (i, c) \<longrightarrow> (\<exists>p. find_package i (sh_meta st') = Some p \<and> pk_PackageHash p = ContentHash_of body))"
  obtain q s1 where q: "StoreOrRef L body t spl st = (q, s1)" by fastforce
  note s = tx_inv_StoreOrRef [OF assms(1,2) q]
  have ?Q
  proof (cases q)
    case Inl
    with q assms(4) s(1) show ?thesis by (auto simp: store_original_def)
  next
    case (Inr x)
    obtain h created where x: "x = (h, created)" by fastforce
    with s(2) Inr have h: "h = ContentHash_of body" and t1: "tx_inv ?z old (D(h := D h + 1)) X s1" by auto
    obtain v s2 where v: "on_tx (tx_CreatePackage inp) s1 = (v, s2)" by fastforce
    note cp = tx_inv_CreatePackage [OF t1 v]
    show ?thesis
    proof (cases v)
      case (Inl e)
      with q \<open>q = Inr x\<close> x v assms(4) cp(1) [OF Inl] show ?thesis by (auto simp: store_original_def)
    next
      case (Inr j)
      obtain p where t2: "tx_inv ?z old (D(h := D h + 1)) (insert j X) s2" and p: "find_package j (sh_meta s2) = Some p" "pk_PackageHash p = h"
        using cp(2) [OF Inr] assms(3) h by auto
      let ?inp = "original_input h filename"
      obtain w s3 where w: "on_tx (tx_CreatePackageFile j ?inp) s2 = (w, s3)" by fastforce
      note cf = tx_inv_CreatePackageFile [OF t2 w]
      show ?thesis
      proof (cases w)
        case (Inl e)
        with q \<open>q = Inr x\<close> x v \<open>v = Inr j\<close> w assms(4) cf(1) [OF Inl] show ?thesis by (auto simp: store_original_def)
      next
        case (Inr k)
        have "tx_inv ?z old D (insert j X - {j}) s3"
          using cf(3) [OF Inr p(1)] p(2) by (simp add: original_input_def)
        then have "tx_inv ?z old D X s3" by (rule tx_inv_mono) auto
        moreover have "find_package j (sh_meta s3) = Some p" using cf(2) [OF Inr] p(1) by (simp add: find_package_def)
        moreover have "r = Inr (j, add_counter created no_counters) \<and> st' = s3"
          using q \<open>q = Inr x\<close> x v \<open>v = Inr j\<close> w Inr assms(4) by (auto simp: store_original_def)
        ultimately show ?thesis using p(2) h by auto
      qed
    qed
  qed
  then show "tx_inv ?z old D X st'" and "r = Inr (i, c) \<Longrightarrow> \<exists>p. find_package i (sh_meta st') = Some p \<and> pk_PackageHash p = ContentHash_of body"
    by auto
qed

text \<open>Files copied from another package: each takes a reference that is counted afterwards.\<close>

abbreviation copy_input :: "PackageFile \<Rightarrow> CreateFileInput" where
  "copy_input f \<equiv> \<lparr>fi_BlobHash = BlobHash f, fi_Role = Role f, fi_OriginalFilename = pf_OriginalFilename f, fi_SequenceNumber = SequenceNumber f\<rparr>"

definition original_of :: "Package list \<Rightarrow> int \<Rightarrow> PackageFile \<Rightarrow> bool" where
  "original_of P i f \<longleftrightarrow> (\<exists>p. find (\<lambda>p. pk_ID p = i) P = Some p \<and> Role f = ''original'' \<and> BlobHash f = pk_PackageHash p)"

lemma tx_ok_copy:
  assumes "tx_ok zs old D X P st" and "on_tx (tx_CreatePackageFile i (copy_input f)) st = (r, st')"
  shows "r = Inr j \<Longrightarrow> tx_ok zs old (D(BlobHash f := D (BlobHash f) - 1)) (if original_of P i f then X - {i} else X) P st'
      \<and> has_blob (BlobHash f) (sh_meta st) \<and> content_blobs (sh_meta st') = content_blobs (sh_meta st)"
proof -
  assume r: "r = Inr j"
  have i: "tx_inv zs old D X st" "md_wf (sh_meta st)" using assms(1) by (simp_all add: tx_ok_def tx_inv_def store_inv_def)
  obtain db where db: "tx_CreatePackageFile i (copy_input f) (sh_meta st) = (r, db)" "st' = st\<lparr>sh_meta := db\<rparr>"
    using assms(2) by (auto simp: on_tx_iff)
  note e = CreatePackageFile_effect [OF db(1) i(2)]
  have "tx_inv zs old (D(BlobHash f := D (BlobHash f) - 1)) (X - {i}) st'" if "original_of P i f"
    using tx_inv_CreatePackageFile(3) [OF i(1) assms(2) r] that assms(1) by (auto simp: original_of_def find_package_def tx_ok_def)
  with tx_ok_CreatePackageFile(2) [OF assms(1,2) r] e(2) e(7) [OF r] db(2)
  show ?thesis by (auto simp: tx_ok_def)
qed

lemma tx_ok_clone_files:
  assumes "tx_ok zs old D X P st" and "clone_files i fs st = (r, st')"
  shows "r = Inl e \<Longrightarrow> tx_ok zs old D' X' P st'"
    and "r = Inr hs \<Longrightarrow> tx_ok zs old (less_refs hs D) (if list_ex (original_of P i) fs then X - {i} else X) P st'
      \<and> (\<forall>h\<in>set hs. has_blob h (sh_meta st'))"
proof -
  have "(\<forall>e. r = Inl e \<longrightarrow> tx_ok zs old D' X' P st') \<and> (\<forall>hs. r = Inr hs \<longrightarrow>
      tx_ok zs old (less_refs hs D) (if list_ex (original_of P i) fs then X - {i} else X) P st'
      \<and> (\<forall>h\<in>set hs. has_blob h (sh_meta st)) \<and> content_blobs (sh_meta st') = content_blobs (sh_meta st))"
    using assms(1,2)
  proof (induction fs arbitrary: D X st r)
    case (Cons f fs)
    obtain q s1 where q: "on_tx (tx_CreatePackageFile i (copy_input f)) st = (q, s1)" by fastforce
    show ?case
    proof (cases q)
      case (Inl e)
      with tx_ok_CreatePackageFile(1) [OF Cons.prems(1) q Inl] q Cons.prems(2) show ?thesis by auto
    next
      case (Inr j)
      note c = tx_ok_copy [OF Cons.prems(1) q Inr]
      obtain v s2 where v: "clone_files i fs s1 = (v, s2)" by fastforce
      have st': "st' = s2" "r = (case v of Inl e \<Rightarrow> Inl e | Inr hs \<Rightarrow> Inr (BlobHash f # hs))"
        using q Inr v Cons.prems(2) by (cases v; auto)+
      have hb: "has_blob h (sh_meta s1) = has_blob h (sh_meta st)" for h using c by (simp add: has_blob_def)
      note ih = Cons.IH [OF conjunct1 [OF c] v [folded st'(1)]]
      have X: "(if list_ex (original_of P i) fs then (if original_of P i f then X - {i} else X) - {i} else (if original_of P i f then X - {i} else X))
          = (if list_ex (original_of P i) (f # fs) then X - {i} else X)" by auto
      show ?thesis
      proof (cases v)
        case (Inl e)
        with ih st' show ?thesis by simp
      next
        case (Inr hs)
        from ih [THEN conjunct2, rule_format, OF Inr, unfolded X]
        have "tx_ok zs old (less_refs (BlobHash f # hs) D) (if list_ex (original_of P i) (f # fs) then X - {i} else X) P st'"
          and "\<forall>h\<in>set (BlobHash f # hs). has_blob h (sh_meta st)" and "content_blobs (sh_meta st') = content_blobs (sh_meta st)"
          using c hb by (simp_all del: fun_upd_apply)
        then show ?thesis using st'(2) Inr by auto
      qed
    qed
  qed auto
  then show "r = Inl e \<Longrightarrow> tx_ok zs old D' X' P st'"
    and "r = Inr hs \<Longrightarrow> tx_ok zs old (less_refs hs D) (if list_ex (original_of P i) fs then X - {i} else X) P st'
      \<and> (\<forall>h\<in>set hs. has_blob h (sh_meta st'))"
    by (auto simp: has_blob_def)
qed

text \<open>The rows a clone lacks are copied the same way.\<close>

fun lacking :: "PackageFile list \<Rightarrow> string list \<Rightarrow> PackageFile list" where
  "lacking [] existing = []"
| "lacking (f # fs) existing = (if file_key f \<in> set existing then lacking fs existing else f # lacking fs (file_key f # existing))"

lemma add_extra_clone_files: "add_extra i fs existing st = clone_files i (lacking fs existing) st"
proof (induction fs arbitrary: existing st)
  case (Cons f fs)
  then show ?case by (cases "on_tx (tx_CreatePackageFile i (copy_input f)) st" rule: prod.exhaust) (auto simp: tryE_cases split: sum.splits prod.splits)
qed simp

subsection \<open>Whole transactions\<close>

lemma shard_inv_cong:
  assumes "shard_inv zs st" and "sh_blobs st' = sh_blobs st" and "same_meta (sh_meta st) (sh_meta st')"
    and "seq_packages (sh_meta st) \<le> seq_packages (sh_meta st')" and "seq_files (sh_meta st) \<le> seq_files (sh_meta st')"
  shows "shard_inv zs st'"
proof -
  have "md_wf (sh_meta st')"
    by (rule md_wf_cong [of "sh_meta st'" "sh_meta st"]) (use assms in \<open>auto simp: same_meta_def shard_inv_def store_inv_def\<close>)
  moreover have "balance (\<lambda>_. 0) {} (sh_meta st')"
    using assms(1,3) balance_cong [of "sh_meta st'" "sh_meta st"] refs_cong [of "sh_meta st'" "sh_meta st"]
    by (simp add: shard_inv_def same_meta_def)
  ultimately show ?thesis using assms by (simp add: shard_inv_def store_inv_def same_meta_def)
qed

lemma tx_end_outcome:
  assumes "tx_end old r db = (q, db')"
  shows "(\<exists>e. q = Inl e) \<and> same_meta old db' \<and> seq_packages db' = seq_packages db \<and> seq_files db' = seq_files db
    \<or> \<not> md_aborted db \<and> (\<exists>x. r = Inr x \<and> same_meta db db' \<and> seq_packages db' = seq_packages db \<and> seq_files db' = seq_files db
         \<and> (q = Inr x \<or> (\<exists>e. q = Inl e)))"
  using assms
  by (auto simp: tx_end_def same_meta_def restore_tables_def md_take_fault_def
      split: sum.splits if_splits prod.splits fault.splits nat.splits)

lemma tx_inv_start:
  assumes "shard_inv zs st" and "tx_begin (sh_meta st) = (Inr old, db)"
  shows "tx_inv zs old (\<lambda>_. 0) {} (st\<lparr>sh_meta := db\<rparr>)"
proof -
  note b = tx_begin_Inr [OF assms(2)]
  have s: "shard_inv zs (st\<lparr>sh_meta := db\<rparr>)" by (rule shard_inv_cong [OF assms(1)]) (use b in auto)
  have old: "content_blobs old = content_blobs db" "seq_packages old = seq_packages db" "seq_files old = seq_files db"
    "package_keys old = package_keys db"
    using b by (auto simp: package_keys_def)
  from s show ?thesis by (simp add: tx_inv_def shard_inv_def store_inv_def old)
qed

lemma with_tx_inv:
  assumes "shard_inv zs st" and "with_tx body st = (r, st')"
    and "\<And>old s q s'. tx_inv zs old (\<lambda>_. 0) {} s \<Longrightarrow> body s = (q, s') \<Longrightarrow> tx_inv zs old (\<lambda>_. 0) {} s'"
  shows "shard_inv zs st'" and "package_keys (sh_meta st) \<subseteq> package_keys (sh_meta st')"
    and "r = Inr x \<Longrightarrow> \<exists>old s s'. tx_inv zs old (\<lambda>_. 0) {} s \<and> body s = (Inr x, s') \<and> packages (sh_meta st') = packages (sh_meta s')"
proof -
  obtain b db where b: "tx_begin (sh_meta st) = (b, db)" by fastforce
  have "(shard_inv zs st' \<and> package_keys (sh_meta st) \<subseteq> package_keys (sh_meta st')) \<and> (\<forall>x. r = Inr x \<longrightarrow> (\<exists>old s s'. tx_inv zs old (\<lambda>_. 0) {} s \<and> body s = (Inr x, s') \<and> packages (sh_meta st') = packages (sh_meta s')))"
  proof (cases b)
    case (Inl e)
    with assms(2) b have "st' = st\<lparr>sh_meta := db\<rparr>" "r = Inl e" by (auto simp: with_tx_def)
    moreover have "shard_inv zs (st\<lparr>sh_meta := db\<rparr>)"
      by (rule shard_inv_cong [OF assms(1)]) (use tx_begin_Inl b Inl in auto)
    ultimately show ?thesis using tx_begin_Inl [of "sh_meta st" e db] b Inl by (simp add: package_keys_def same_meta_def)
  next
    case (Inr old)
    let ?s = "st\<lparr>sh_meta := db\<rparr>"
    have i: "tx_inv zs old (\<lambda>_. 0) {} ?s" using tx_inv_start [OF assms(1)] b Inr by simp
    obtain q s1 where q: "body ?s = (q, s1)" by fastforce
    note i1 = assms(3) [OF i q]
    obtain v db1 where v: "tx_end old q (sh_meta s1) = (v, db1)" by fastforce
    have st': "st' = s1\<lparr>sh_meta := db1\<rparr>" "r = v" using assms(2) b Inr q v by (auto simp: with_tx_def)
    have o: "same_meta (sh_meta st) old" "seq_packages old = seq_packages (sh_meta st)" "seq_files old = seq_files (sh_meta st)"
      using tx_begin_Inr [of "sh_meta st" old db] b Inr by auto
    from tx_end_outcome [OF v] show ?thesis
    proof
      assume a: "(\<exists>e. v = Inl e) \<and> same_meta old db1 \<and> seq_packages db1 = seq_packages (sh_meta s1) \<and> seq_files db1 = seq_files (sh_meta s1)"
      have "shard_inv zs (s1\<lparr>sh_meta := (sh_meta st)\<rparr>)"
        using assms(1) i1 o by (simp add: shard_inv_def tx_inv_def store_inv_def same_meta_def)
      then have "shard_inv zs st'"
        by (rule shard_inv_cong) (use a o i1 st' in \<open>auto simp: same_meta_def tx_inv_def\<close>)
      with a st' o(1) show ?thesis by (auto simp: package_keys_def same_meta_def)
    next
      assume a: "\<not> md_aborted (sh_meta s1) \<and> (\<exists>x. q = Inr x \<and> same_meta (sh_meta s1) db1 \<and> seq_packages db1 = seq_packages (sh_meta s1)
         \<and> seq_files db1 = seq_files (sh_meta s1) \<and> (v = Inr x \<or> (\<exists>e. v = Inl e)))"
      have "shard_inv zs s1" using i1 a by (simp add: shard_inv_def tx_inv_def)
      then have "shard_inv zs st'" by (rule shard_inv_cong) (use a st' in auto)
      moreover have "package_keys (sh_meta st) \<subseteq> package_keys (sh_meta st')"
        using i1 o(1) a st'(1) by (auto simp: tx_inv_def package_keys_def same_meta_def)
      moreover have "\<exists>old s s'. tx_inv zs old (\<lambda>_. 0) {} s \<and> body s = (Inr x, s') \<and> packages (sh_meta st') = packages (sh_meta s')" if "r = Inr x" for x
        using i q a that st' by (intro exI [of _ old] exI [of _ ?s] exI [of _ s1]) (auto simp: same_meta_def)
      ultimately show ?thesis by blast
    qed
  qed
  then show "shard_inv zs st'" and "package_keys (sh_meta st) \<subseteq> package_keys (sh_meta st')"
    and "r = Inr x \<Longrightarrow> \<exists>old s s'. tx_inv zs old (\<lambda>_. 0) {} s \<and> body s = (Inr x, s') \<and> packages (sh_meta st') = packages (sh_meta s')"
    by auto
qed

text \<open>Copying files and counting their references leaves the balance.\<close>

lemma tx_ok_copies:
  assumes "tx_ok zs old D X P st" and "clone_files i fs st = (Inr hs, s1)" and "on_tx (tx_IncrementRefCounts hs) s1 = (r, st')"
  shows "tx_inv zs old D (if list_ex (original_of P i) fs then X - {i} else X) st'"
proof -
  note c = tx_ok_clone_files(2) [OF assms(1,2) refl]
  from c have t: "tx_inv zs old (less_refs hs D) (if list_ex (original_of P i) fs then X - {i} else X) s1" by (simp add: tx_ok_def)
  note n = tx_inv_IncrementRefCounts [OF t assms(3) conjunct2 [OF c]]
  show ?thesis
  proof (cases r)
    case (Inl e)
    then show ?thesis by (rule n(1))
  next
    case (Inr u)
    from n(2) [OF Inr] show ?thesis by (simp add: more_less_refs)
  qed
qed

lemma tx_inv_update_clone:
  assumes "tx_inv zs old D X st" and "update_clone canonical i fs existing st = (r, st')"
  shows "tx_inv zs old D X st'"
proof -
  have ok: "tx_ok zs old D X (packages (sh_meta st)) st" using assms(1) by (simp add: tx_ok_def)
  from assms(2) [unfolded update_clone_def add_extra_clone_files] show ?thesis
  proof (cases rule: tryE_E)
    case (error e)
    from tx_ok_clone_files(1) [OF ok error(1) refl] show ?thesis by (simp add: tx_ok_def)
  next
    case (ok hs s1)
    have t: "tx_inv zs old D X s2" if "on_tx (tx_IncrementRefCounts hs) s1 = (q, s2)" for q s2
      by (rule tx_inv_mono [OF tx_ok_copies [OF \<open>tx_ok zs old D X (packages (sh_meta st)) st\<close> ok(1) that]]) auto
    from ok(2) show ?thesis
    proof (cases rule: tryE_E)
      case (error e)
      show ?thesis by (rule t [OF error(1)])
    next
      case (ok u s2)
      note t2 = t [OF ok(1)]
      from ok(2) show ?thesis
      proof (cases rule: tryE_E)
        case (error e)
        show ?thesis by (rule tx_inv_UpdatePackageAfterUnpack(1) [OF t2 error(1) refl])
      next
        case (ok v s3)
        from tx_inv_UpdatePackageAfterUnpack(2) [OF t2 ok(1) refl] ok(2) show ?thesis by simp
      qed
    qed
  qed
qed

lemma packages_IncrementRefCounts: "on_tx (tx_IncrementRefCounts hs) st = (r, st') \<Longrightarrow> packages (sh_meta st') = packages (sh_meta st)"
proof -
  have "packages (snd (tx_IncrementRefCounts hs db)) = packages db" for db
  proof (induction hs arbitrary: db)
    case (Cons h hs)
    obtain q d where q: "tx_IncrementRefCount h db = (q, d)" by fastforce
    have "packages d = packages db" using IncrementRefCount_effect(1) [OF q] by (simp add: same_rest_def)
    with Cons q show ?case by (cases q) auto
  qed simp
  then show "on_tx (tx_IncrementRefCounts hs) st = (r, st') \<Longrightarrow> packages (sh_meta st') = packages (sh_meta st)"
    by (auto simp: on_tx_iff) (metis snd_conv)
qed

lemma tx_inv_clone_body:
  assumes "tx_inv zs old D {} st" and "list_ex (\<lambda>f. Role f = ''original'' \<and> BlobHash f = ci_PackageHash inp) fs"
    and "tryE (on_tx (tx_CreatePackage inp) st) (\<lambda>i st. tryE (clone_files i fs st) (\<lambda>hs st.
        tryE (on_tx (tx_IncrementRefCounts hs) st) (\<lambda>_ st. (Inr i, st)))) = (r, st')"
  shows "tx_inv zs old D {} st'"
    and "r = Inr i \<Longrightarrow> \<exists>p. find_package i (sh_meta st') = Some p \<and> pk_PackageHash p = ci_PackageHash inp"
proof -
  let ?Q = "tx_inv zs old D {} st' \<and> (\<forall>i. r = Inr i \<longrightarrow> (\<exists>p. find_package i (sh_meta st') = Some p \<and> pk_PackageHash p = ci_PackageHash inp))"
  from assms(3) have ?Q
  proof (cases rule: tryE_E)
    case (error e)
    from tx_inv_CreatePackage(1) [OF assms(1) error(1) refl] error(2) show ?thesis by simp
  next
    case (ok i s1)
    obtain p where t1: "tx_inv zs old D {i} s1" and p: "find_package i (sh_meta s1) = Some p" "pk_PackageHash p = ci_PackageHash inp"
      using tx_inv_CreatePackage(2) [OF assms(1) ok(1) refl] by auto
    let ?P = "packages (sh_meta s1)"
    have ok1: "tx_ok zs old D {i} ?P s1" using t1 by (simp add: tx_ok_def)
    have og: "list_ex (original_of ?P i) fs" using assms(2) p by (auto simp: list_ex_iff original_of_def find_package_def)
    from ok(2) show ?thesis
    proof (cases rule: tryE_E)
      case (error e)
      from tx_ok_clone_files(1) [OF ok1 error(1) refl] error(2) show ?thesis by (simp add: tx_ok_def)
    next
      case (ok hs s2)
      have P: "packages (sh_meta s2) = ?P" using tx_ok_clone_files(2) [OF ok1 ok(1) refl] by (simp add: tx_ok_def)
      obtain q s3 where q: "on_tx (tx_IncrementRefCounts hs) s2 = (q, s3)" by fastforce
      have "tx_inv zs old D {} s3" using tx_ok_copies [OF ok1 ok(1) q] og by simp
      moreover have "packages (sh_meta s3) = ?P" using packages_IncrementRefCounts [OF q] P by simp
      ultimately show ?thesis using ok(2) q p by (cases q) (auto simp: find_package_def)
    qed
  qed
  then show "tx_inv zs old D {} st'"
    and "r = Inr i \<Longrightarrow> \<exists>p. find_package i (sh_meta st') = Some p \<and> pk_PackageHash p = ci_PackageHash inp" by auto
qed

lemma tx_inv_unpack_tx:
  assumes "zstd_laws (lib_zstd L)" and "tx_inv (lib_zstd L) old D X st" and "unpack_tx L zr cfg i zb st = (r, st')"
  shows "tx_inv (lib_zstd L) old D X st'"
proof -
  let ?z = "lib_zstd L"
  have q: "tx_inv ?z old D X s" if g: "on_tx (tx_GetPackageForUpdate i) st = (v, s)" for v s
  proof (rule tx_inv_quiet [OF assms(2) g])
    obtain db where db: "tx_GetPackageForUpdate i (sh_meta st) = (v, db)" "s = st\<lparr>sh_meta := db\<rparr>" using g by (auto simp: on_tx_iff)
    note e = tx_stmt_effect [OF db(1) [unfolded tx_GetPackageForUpdate_def]]
    show "same_rest (sh_meta st) (sh_meta s)" using e(1) db(2) by simp
    show "content_blobs (sh_meta s) = content_blobs (sh_meta st)" and "md_aborted (sh_meta st) \<longrightarrow> md_aborted (sh_meta s)"
      using db md_take_fault_tables by (auto simp: tx_GetPackageForUpdate_def tx_stmt_def split: if_splits prod.splits fault.splits)
  qed
  from assms(3) [unfolded unpack_tx_def] show ?thesis
  proof (cases rule: tryE_E)
    case (error e)
    show ?thesis by (rule q [OF error(1)])
  next
    case (ok x s1)
    note t1 = q [OF ok(1)]
    show ?thesis
    proof (cases x)
      case None
      with ok(2) t1 show ?thesis by simp
    next
      case (Some p)
      show ?thesis
      proof (cases "StorageMode p = ''raw_large''")
        case False
        with Some ok(2) t1 show ?thesis by simp
      next
        case True
        have ok1: "tx_ok ?z old D X (packages (sh_meta s1)) s1" using t1 by (simp add: tx_ok_def)
        have k: "tx_inv ?z old D X s" if "persistZipMembers L zr i (pk_SupplierID p) zb (MaxUnpackedZipBytes cfg) no_counters s1 = (v, s)" for v s
          using tx_ok_persistZipMembers [OF assms(1) ok1 that] by (simp add: tx_ok_def)
        from ok(2) Some True have "tryE (persistZipMembers L zr i (pk_SupplierID p) zb (MaxUnpackedZipBytes cfg) no_counters s1)
           (\<lambda>(fileCount, unpackErrText, _) st.
             tryE (on_tx (tx_UpdatePackageAfterUnpack i ''zip_with_members'' fileCount unpackErrText) st) (\<lambda>updated st.
             if updated then (Inr (), st) else (Inl errSkipLargeUnpack, st))) = (r, st')" by simp
        then show ?thesis
        proof (cases rule: tryE_E)
          case (error e)
          show ?thesis by (rule k [OF error(1)])
        next
          case (ok y s2)
          obtain n u c where y: "y = (n, u, c)" by (metis prod.exhaust)
          obtain v s3 where v: "on_tx (tx_UpdatePackageAfterUnpack i ''zip_with_members'' n u) s2 = (v, s3)" by fastforce
          have "tx_inv ?z old D X s3"
            using tx_inv_UpdatePackageAfterUnpack [OF k [OF ok(1)] v] by (cases v) auto
          moreover have "st' = s3" using ok(2) y v by (cases v) (auto split: if_splits)
          ultimately show ?thesis by simp
        qed
      qed
    qed
  qed
qed

end
