(* ===== verification/Ingest_Props.thy ===== *)
theory Ingest_Props
  imports Ingest_Inv
begin

text \<open>
  The ingestion service as a whole: every operation keeps the invariant of the shard and every
  package it holds, whatever fails, and what a client was told is stored can be read back.
\<close>

subsection \<open>Statements outside transactions\<close>

definition same_rows :: "meta_db \<Rightarrow> meta_db \<Rightarrow> bool" where
  "same_rows db db' \<longleftrightarrow> content_blobs db' = content_blobs db \<and> packages db' = packages db \<and> package_files db' = package_files db
     \<and> seq_packages db' = seq_packages db \<and> seq_files db' = seq_files db"

lemma same_rows_trans: "same_rows a b \<Longrightarrow> same_rows b c \<Longrightarrow> same_rows a c"
  by (simp add: same_rows_def)

lemma same_rows_take_fault: "md_take_fault db = (f, d) \<Longrightarrow> same_rows db d"
  using md_take_fault_tables [of db f d] by (simp add: same_rows_def)

lemma same_rows_pool:
  assumes "pool_stmt f db = (r, db')" and "\<And>d. same_rows d (snd (f d))"
  shows "same_rows db db'" and "r = Inr x \<Longrightarrow> \<exists>d d'. same_rows db d \<and> f d = (Inr x, d')"
proof -
  obtain fl d where fl: "md_take_fault db = (fl, d)" by fastforce
  note t = same_rows_take_fault [OF fl]
  note s = same_rows_trans [OF t assms(2)]
  show "same_rows db db'" using assms(1) fl t s
    by (auto simp: pool_stmt_def split: fault.splits nat.splits)
  show "\<exists>d d'. same_rows db d \<and> f d = (Inr x, d')" if "r = Inr x"
    using assms(1) fl t that by (auto simp: pool_stmt_def split: fault.splits nat.splits)
qed

lemma same_rows_refl [simp]: "same_rows d d"
  by (simp add: same_rows_def)

lemma find_package_rows: "same_rows db d \<Longrightarrow> find_package i d = find_package i db"
  by (simp add: same_rows_def find_package_def)

lemma find_blob_rows: "same_rows db d \<Longrightarrow> find_blob i d = find_blob i db"
  by (simp add: same_rows_def find_blob_def)

lemma files_where_rows: "same_rows db d \<Longrightarrow> files_where P d = files_where P db"
proof -
  assume s: "same_rows db d"
  then have "join_blob d = join_blob db" using find_blob_rows [OF s] by (simp add: join_blob_def fun_eq_iff)
  with s show ?thesis by (simp add: files_where_def same_rows_def)
qed

lemma GetPackage_effect:
  assumes "GetPackage i db = (r, db')"
  shows "same_rows db db'"
    and "r = Inr (Some p) \<Longrightarrow> \<exists>p0. find_package i db = Some p0 \<and> p = p0\<lparr>Files := files_where (\<lambda>f. pf_PackageID f = i) db\<rparr>"
proof -
  have "same_rows db db' \<and> (\<forall>p. r = Inr (Some p) \<longrightarrow> (\<exists>p0. find_package i db = Some p0 \<and> p = p0\<lparr>Files := files_where (\<lambda>f. pf_PackageID f = i) db\<rparr>))"
    using assms [unfolded GetPackage_def]
  proof (cases rule: tryE_E)
    case (error e)
    from same_rows_pool(1) [OF error(1)] error(2) show ?thesis by simp
  next
    case (ok x s1)
    note r1 = same_rows_pool [OF ok(1), simplified]
    have x: "x = find_package i db" using r1(2) [of x] find_package_rows by fastforce
    show ?thesis
    proof (cases x)
      case None
      with ok(2) r1(1) show ?thesis by auto
    next
      case (Some p0)
      with ok(2) have "tryE (ListPackageFiles i s1) (\<lambda>files db. (Inr (Some (p0\<lparr>Files := files\<rparr>)), db)) = (r, db')" by simp
      then show ?thesis
      proof (cases rule: tryE_E)
        case (error e)
        from same_rows_pool(1) [OF error(1) [unfolded ListPackageFiles_def]] r1(1) error(2) show ?thesis by (auto intro: same_rows_trans)
      next
        case (ok fs s2)
        note r2 = same_rows_pool [OF ok(1) [unfolded ListPackageFiles_def], simplified]
        have "fs = files_where (\<lambda>f. pf_PackageID f = i) db"
          using r2(2) [of fs] files_where_rows same_rows_trans [OF r1(1)] by fastforce
        moreover have "find_package i db = Some p0" using x Some by simp
        ultimately show ?thesis using ok(2) r2(1) r1(1) by (auto intro: same_rows_trans)
      qed
    qed
  qed
  then show "same_rows db db'"
    and "r = Inr (Some p) \<Longrightarrow> \<exists>p0. find_package i db = Some p0 \<and> p = p0\<lparr>Files := files_where (\<lambda>f. pf_PackageID f = i) db\<rparr>" by auto
qed

lemma FindCanonical_effect:
  assumes "FindCanonicalPackageID h db = (r, db')" and "md_wf db"
  shows "same_rows db db'" and "r = Inr (Some i) \<Longrightarrow> \<exists>p. find_package i db = Some p \<and> pk_PackageHash p = h"
proof -
  note s = same_rows_pool [OF assms(1) [unfolded FindCanonicalPackageID_def], simplified]
  show "same_rows db db'" using s(1) .
  show "\<exists>p. find_package i db = Some p \<and> pk_PackageHash p = h" if ri: "r = Inr (Some i)"
  proof -
    obtain d where d: "same_rows db d" and c: "(case sort (map pk_ID (filter (\<lambda>p. pk_PackageHash p = h) (packages d))) of [] \<Rightarrow> None | i # _ \<Rightarrow> Some i) = Some i"
      using s(2) [OF ri] by auto
    let ?l = "sort (map pk_ID (filter (\<lambda>p. pk_PackageHash p = h) (packages d)))"
    have "i \<in> set ?l" using c by (cases ?l) (simp_all del: set_sort)
    then obtain p where p: "p \<in> set (packages db)" "pk_PackageHash p = h" "pk_ID p = i" using d by (auto simp: same_rows_def)
    then obtain q where q: "find_package i db = Some q" using find_package_None [of i db] by (fastforce simp: has_package_def list_ex_iff)
    then have "q \<in> set (packages db)" "pk_ID q = i" by (auto simp: find_package_def dest: find_SomeD)
    with p assms(2) have "q = p" by (auto simp: md_wf_def distinct_map dest: inj_onD)
    with q p show ?thesis by simp
  qed
qed

lemma RecordSupplierIngest_rows: "RecordSupplierIngest a b c e db = (r, db') \<Longrightarrow> same_rows db db'"
  unfolding RecordSupplierIngest_def
  by (erule same_rows_pool(1)) (auto simp: same_rows_def Let_def md_now_def split: list.splits prod.splits)

subsection \<open>What an operation keeps\<close>

definition grows :: "zstd \<Rightarrow> ('s, 'b) service \<Rightarrow> ('s, 'b) service \<Rightarrow> bool" where
  "grows zs sv sv' \<longleftrightarrow> (shard_inv zs (sv_shard sv) \<longrightarrow>
     shard_inv zs (sv_shard sv') \<and> package_keys (sh_meta (sv_shard sv)) \<subseteq> package_keys (sh_meta (sv_shard sv')))"

lemma grows_refl [simp]: "grows zs sv sv"
  by (simp add: grows_def)

lemma grows_trans: "grows zs a b \<Longrightarrow> grows zs b c \<Longrightarrow> grows zs a c"
  unfolding grows_def by blast

lemma grows_same_shard: "sv_shard sv' = sv_shard sv \<Longrightarrow> grows zs sv sv'"
  by (simp add: grows_def)

lemma grows_try:
  assumes "tryE m k = (r, sv')" and "\<And>q s1. m = (q, s1) \<Longrightarrow> grows zs sv s1"
    and "\<And>x s1. m = (Inr x, s1) \<Longrightarrow> k x s1 = (r, sv') \<Longrightarrow> grows zs s1 sv'"
  shows "grows zs sv sv'"
  using assms(1)
proof (cases rule: tryE_E)
  case (error e)
  then show ?thesis using assms(2) by blast
next
  case (ok x s1)
  then show ?thesis using assms(2,3) grows_trans by blast
qed

lemma shard_inv_rows:
  assumes "shard_inv zs st" and "sh_blobs st' = sh_blobs st" and "same_rows (sh_meta st) (sh_meta st')"
  shows "shard_inv zs st'"
proof -
  have "md_wf (sh_meta st')"
    by (rule md_wf_cong [of "sh_meta st'" "sh_meta st"]) (use assms in \<open>auto simp: same_rows_def shard_inv_def store_inv_def\<close>)
  moreover have "balance (\<lambda>_. 0) {} (sh_meta st')"
    using assms(1,3) balance_cong [of "sh_meta st'" "sh_meta st"] refs_cong [of "sh_meta st'" "sh_meta st"]
    by (simp add: shard_inv_def same_rows_def)
  ultimately show ?thesis using assms by (simp add: shard_inv_def store_inv_def same_rows_def)
qed

lemma grows_repo:
  assumes "on_repo f sv = (r, sv')" and "\<And>q d d'. f d = (q, d') \<Longrightarrow> same_rows d d'"
  shows "grows zs sv sv'"
    and "\<exists>d'. f (sh_meta (sv_shard sv)) = (r, d') \<and> same_rows (sh_meta (sv_shard sv)) (sh_meta (sv_shard sv'))"
proof -
  obtain q d where q: "f (sh_meta (sv_shard sv)) = (q, d)" by fastforce
  have sv': "sv' = sv\<lparr>sv_shard := (sv_shard sv)\<lparr>sh_meta := d\<rparr>\<rparr>" "r = q" using assms(1) q by (auto simp: on_shard_def on_tx_def)
  note s = assms(2) [OF q]
  show "grows zs sv sv'"
    using shard_inv_rows [of zs "sv_shard sv" "sv_shard sv'"] s sv' by (auto simp: grows_def package_keys_def same_rows_def)
  show "\<exists>d'. f (sh_meta (sv_shard sv)) = (r, d') \<and> same_rows (sh_meta (sv_shard sv)) (sh_meta (sv_shard sv'))"
    using q s sv' by auto
qed

lemma grows_tx:
  assumes "on_shard (with_tx body) sv = (r, sv')"
    and "\<And>old s q s'. tx_inv zs old (\<lambda>_. 0) {} s \<Longrightarrow> body s = (q, s') \<Longrightarrow> tx_inv zs old (\<lambda>_. 0) {} s'"
  shows "grows zs sv sv'"
proof -
  obtain q st where q: "with_tx body (sv_shard sv) = (q, st)" by fastforce
  then have sv': "sv' = sv\<lparr>sv_shard := st\<rparr>" using assms(1) by (auto simp: on_shard_def)
  with with_tx_inv(1,2) [OF _ q assms(2)] show ?thesis by (auto simp: grows_def)
qed

lemma grows_GetPackage: "on_repo (GetPackage i) sv = (r, sv') \<Longrightarrow> grows zs sv sv'"
  by (rule grows_repo(1)) (auto dest: GetPackage_effect(1))

lemma grows_journalPackage: "journalPackage pkg sv = (r, sv') \<Longrightarrow> grows zs sv sv'"
  by (rule grows_same_shard) (auto simp: journalPackage_def split: option.splits prod.splits)

lemma grows_loadAndJournal: "loadAndJournal i sv = (r, sv') \<Longrightarrow> grows zs sv sv'"
  unfolding loadAndJournal_def
  by (erule grows_try, erule grows_GetPackage, erule grows_try, erule grows_journalPackage) simp

lemma grows_recordIngest: "grows zs sv (recordIngest a b c e sv)"
proof -
  obtain r sv' where q: "on_repo (RecordSupplierIngest a b (newBlobs c) (if e then b else duplicateRefs c)) sv = (r, sv')" by fastforce
  from grows_repo(1) [OF q RecordSupplierIngest_rows] q show ?thesis by (simp add: recordIngest_def)
qed

lemma grows_recorded: "loadAndJournal i (recordIngest a b c e sv) = (r, sv') \<Longrightarrow> grows zs sv sv'"
  using grows_trans [OF grows_recordIngest grows_loadAndJournal] .

lemma original_listed:
  assumes "shard_inv zs st" and "find_package i (sh_meta st) = Some p"
  shows "list_ex (\<lambda>f. Role f = ''original'' \<and> BlobHash f = pk_PackageHash p) (files_where (\<lambda>f. pf_PackageID f = i) (sh_meta st))"
proof -
  have wf: "md_wf (sh_meta st)" using assms(1) by (simp add: shard_inv_def store_inv_def)
  have p: "p \<in> set (packages (sh_meta st))" "pk_ID p = i" using assms(2) by (auto simp: find_package_def dest: find_SomeD)
  then obtain f where f: "f \<in> set (package_files (sh_meta st))" "pf_PackageID f = i" "Role f = ''original''" "BlobHash f = pk_PackageHash p"
    using assms(1) by (auto simp: shard_inv_def balance_def has_original_def list_ex_iff)
  have "has_blob (BlobHash f) (sh_meta st)" using wf f(1) by (auto simp: md_wf_def list_all_iff)
  then obtain b where "find_blob (BlobHash f) (sh_meta st) = Some b" using find_blob_None [of "BlobHash f" "sh_meta st"] by auto
  then have "join_blob (sh_meta st) f = Some (f\<lparr>pf_Size := BlobSize b\<rparr>)" by (simp add: join_blob_def)
  with f have "f\<lparr>pf_Size := BlobSize b\<rparr> \<in> set (files_where (\<lambda>f. pf_PackageID f = i) (sh_meta st))"
    by (auto simp: files_where_def List.map_filter_def image_iff intro!: bexI [of _ f])
  with f show ?thesis by (auto simp: list_ex_iff intro!: bexI [of _ "f\<lparr>pf_Size := BlobSize b\<rparr>"])
qed

lemma loadAndJournal_result:
  assumes "loadAndJournal i sv = (Inr (Some p), sv')" and "md_wf (sh_meta (sv_shard sv))" and "(i, h) \<in> package_keys (sh_meta (sv_shard sv))"
  shows "pk_ID p = i \<and> pk_PackageHash p = h"
  using assms(1) [unfolded loadAndJournal_def]
proof (cases rule: tryE_E)
  case (ok x s1)
  from ok(2) have "x = Some p" by (cases rule: tryE_E) auto
  then obtain p0 where p0: "find_package i (sh_meta (sv_shard sv)) = Some p0" "pk_ID p = pk_ID p0" "pk_PackageHash p = pk_PackageHash p0"
    using ok(1) GetPackage_effect(2) by (fastforce simp: on_shard_def on_tx_def split: prod.splits)
  obtain q where q: "q \<in> set (packages (sh_meta (sv_shard sv)))" "pk_ID q = i" "pk_PackageHash q = h"
    using assms(3) by (auto simp: package_keys_def)
  have "p0 \<in> set (packages (sh_meta (sv_shard sv)))" "pk_ID p0 = i" using p0(1) by (auto simp: find_package_def dest: find_SomeD)
  with q assms(2) have "q = p0" by (auto simp: md_wf_def distinct_map dest: inj_onD)
  with q p0 show ?thesis by simp
qed simp

subsection \<open>Ingestion\<close>

definition ingested :: "zstd \<Rightarrow> bytes \<Rightarrow> ('s, 'b) service \<Rightarrow> error + Package option \<Rightarrow> ('s, 'b) service \<Rightarrow> bool" where
  "ingested zs h sv r sv' \<longleftrightarrow> grows zs sv sv' \<and> (shard_inv zs (sv_shard sv) \<longrightarrow>
     (\<forall>p. r = Inr (Some p) \<longrightarrow> pk_PackageHash p = h \<and> (pk_ID p, h) \<in> package_keys (sh_meta (sv_shard sv'))))"

text \<open>Every kind of ingestion is a transaction that yields the id of the new package, which is then loaded.\<close>

lemma ingest_rule:
  assumes "tryE (on_shard (with_tx body) sv) k = (r, sv')"
    and body: "\<And>old s q s'. tx_inv zs old (\<lambda>_. 0) {} s \<Longrightarrow> body s = (q, s') \<Longrightarrow> tx_inv zs old (\<lambda>_. 0) {} s'
      \<and> (\<forall>x. q = Inr x \<longrightarrow> (\<exists>p. find_package (f x) (sh_meta s') = Some p \<and> pk_PackageHash p = h))"
    and k: "\<And>x s. k x s = loadAndJournal (f x) (g x s)" and g: "\<And>x s. grows zs s (g x s)"
  shows "ingested zs h sv r sv'"
  using assms(1)
proof (cases rule: tryE_E)
  case (error e)
  from grows_tx [OF error(1)] body error(2) show ?thesis by (auto simp: ingested_def)
next
  case (ok x s1)
  obtain s2 where s2: "k x s1 = loadAndJournal (f x) s2" "grows zs s1 s2" using k g by blast
  have g1: "grows zs sv s1" using grows_tx [OF ok(1)] body by blast
  have g2: "grows zs s2 sv'" using grows_loadAndJournal ok(2) s2(1) by metis
  have "pk_PackageHash p = h \<and> (pk_ID p, h) \<in> package_keys (sh_meta (sv_shard sv'))"
    if inv: "shard_inv zs (sv_shard sv)" and rp: "r = Inr (Some p)" for p
  proof -
    obtain st where st: "with_tx body (sv_shard sv) = (Inr x, st)" "s1 = sv\<lparr>sv_shard := st\<rparr>"
      using ok(1) by (auto simp: on_shard_def split: prod.splits)
    obtain old s s' where s: "tx_inv zs old (\<lambda>_. 0) {} s" "body s = (Inr x, s')" "packages (sh_meta st) = packages (sh_meta s')"
      using with_tx_inv(3) [OF inv st(1) _ refl] body by blast
    obtain q where q: "find_package (f x) (sh_meta s') = Some q" "pk_PackageHash q = h" using body [OF s(1,2)] by auto
    have "(f x, h) \<in> package_keys (sh_meta (sv_shard s1))"
      using q s(3) st(2) by (force simp: package_keys_def find_package_def dest: find_SomeD)
    then have key: "(f x, h) \<in> package_keys (sh_meta (sv_shard s2))" and i2: "shard_inv zs (sv_shard s2)"
      using g1 s2(2) inv by (auto simp: grows_def)
    have "md_wf (sh_meta (sv_shard s2))" using i2 by (simp add: shard_inv_def store_inv_def)
    with loadAndJournal_result key ok(2) s2(1) rp have "pk_ID p = f x \<and> pk_PackageHash p = h" by metis
    moreover have "(f x, h) \<in> package_keys (sh_meta (sv_shard sv'))" using g2 i2 key by (auto simp: grows_def)
    ultimately show ?thesis by simp
  qed
  with grows_trans [OF grows_trans [OF g1 s2(2)] g2] show ?thesis by (simp add: ingested_def)
qed

lemma store_original_body:
  assumes "zstd_laws (lib_zstd L)" and "ci_PackageHash inp = ContentHash_of body" and "tx_inv (lib_zstd L) old D X s"
    and "store_original L spl body t inp fn s = (q, s')"
  shows "tx_inv (lib_zstd L) old D X s'
    \<and> (\<forall>x. q = Inr x \<longrightarrow> (\<exists>p. find_package (fst x) (sh_meta s') = Some p \<and> pk_PackageHash p = ContentHash_of body))"
  using tx_inv_store_original [OF assms(1,3,2,4)] by (metis prod.collapse)

lemma package_input_hash [simp]: "ci_PackageHash (package_input a h b c d e f g) = h"
  by (simp add: package_input_def)

lemma ingested_XML:
  assumes "zstd_laws (lib_zstd L)" and "ingestXML L spl (ContentHash_of body) body fn sv = (r, sv')"
  shows "ingested (lib_zstd L) (ContentHash_of body) sv r sv'"
proof (rule ingest_rule [where f = fst and g = "\<lambda>x. recordIngest spl 1 (snd x) False"])
  show "tryE (on_shard (with_tx (store_original L spl body RecordXML
      (package_input spl (ContentHash_of body) PayloadXML ''single'' fn None 1 None) fn)) sv)
      (\<lambda>x sv. loadAndJournal (fst x) (recordIngest spl 1 (snd x) False sv)) = (r, sv')"
    using assms(2) by (simp add: ingestXML_def case_prod_beta')
qed (rule store_original_body [OF assms(1)] grows_recordIngest refl; simp)+

lemma ingested_LargeZIP:
  assumes "zstd_laws (lib_zstd L)" and "ingestLargeZIP L cfg spl (ContentHash_of body) body fn sv = (r, sv')"
  shows "ingested (lib_zstd L) (ContentHash_of body) sv r sv'"
proof -
  let ?g = "\<lambda>x sv. let sv = recordIngest spl 1 (snd x) False sv in
      if LargeZipAsyncUnpack cfg then sv\<lparr>sv_queue := map_option (Enqueue (fst x)) (sv_queue sv)\<rparr> else sv"
  show ?thesis
  proof (rule ingest_rule [where f = fst and g = ?g])
    show "tryE (on_shard (with_tx (store_original L spl body RecordZIP
        (package_input spl (ContentHash_of body) PayloadZIP ''raw_large'' fn None 1 None) fn)) sv)
        (\<lambda>x sv. loadAndJournal (fst x) (?g x sv)) = (r, sv')"
      using assms(2) by (simp add: ingestLargeZIP_def Let_def case_prod_beta')
    show "grows (lib_zstd L) s (?g x s)" for x and s :: "('a, 'b) service"
      by (rule grows_trans [OF grows_recordIngest grows_same_shard]) (simp add: Let_def)
  qed (rule store_original_body [OF assms(1)] refl; simp)+
qed

lemma tx_ok_packages: "tx_ok zs old D X P st \<Longrightarrow> find_package i (sh_meta st) = find (\<lambda>p. pk_ID p = i) P"
  by (simp add: tx_ok_def find_package_def)

lemma ingested_SmallZIP:
  assumes "zstd_laws (lib_zstd L)" and "ingestSmallZIP L zr cfg spl (ContentHash_of body) body fn sv = (r, sv')"
  shows "ingested (lib_zstd L) (ContentHash_of body) sv r sv'"
proof -
  let ?z = "lib_zstd L" and ?h = "ContentHash_of body"
  define ue where "ue = (case CountZipEntries zr body of Inl e \<Rightarrow> Some e | Inr _ \<Rightarrow> CheckZipUncompressedLimit zr body (MaxUnpackedZipBytes cfg))"
  define fc where "fc = (case ue of Some _ \<Rightarrow> 2 | None \<Rightarrow> 1 + (case CountZipEntries zr body of Inl _ \<Rightarrow> 0 | Inr n \<Rightarrow> n))"
  define inp where "inp = package_input spl ?h PayloadZIP ''zip_with_members'' fn None fc (map_option error_text ue)"
  let ?more = "\<lambda>(i, c) st. case ue of
      Some e \<Rightarrow> tryE (persistUnpackError L i spl e c st) (\<lambda>c st. (Inr (i, c), st))
    | None \<Rightarrow> tryE (persistZipMembers L zr i spl body (MaxUnpackedZipBytes cfg) c st) (\<lambda>(_, _, c) st. (Inr (i, c), st))"
  let ?body = "\<lambda>st. tryE (store_original L spl body RecordZIP inp fn st) ?more"
  have more: "tx_ok ?z old D X P s' \<and> (q = Inr x \<longrightarrow> fst x = fst ic)"
    if m: "?more ic s = (q, s')" and t: "tx_ok ?z old D X P s" for ic s q s' x old D X P
  proof (cases ue)
    case (Some e)
    obtain i c where ic: "ic = (i, c)" by fastforce
    from m Some ic have "tryE (persistUnpackError L i spl e c s) (\<lambda>c st. (Inr (i, c), st)) = (q, s')" by simp
    then show ?thesis using tx_ok_persistUnpackError [OF assms(1) t] ic by (cases rule: tryE_E) auto
  next
    case None
    obtain i c where ic: "ic = (i, c)" by fastforce
    from m None ic have "tryE (persistZipMembers L zr i spl body (MaxUnpackedZipBytes cfg) c s) (\<lambda>(_, _, c) st. (Inr (i, c), st)) = (q, s')" by simp
    then show ?thesis using tx_ok_persistZipMembers [OF assms(1) t] ic by (cases rule: tryE_E) (auto split: prod.splits)
  qed
  show ?thesis
  proof (rule ingest_rule [where f = fst and g = "\<lambda>x. recordIngest spl fc (snd x) False"])
    have "tryE (on_shard (with_tx ?body) sv) (\<lambda>(i, c) sv. loadAndJournal i (recordIngest spl fc c False sv)) = (r, sv')"
      using assms(2) unfolding ingestSmallZIP_def Let_def ue_def fc_def inp_def .
    then show "tryE (on_shard (with_tx ?body) sv) (\<lambda>x sv. loadAndJournal (fst x) (recordIngest spl fc (snd x) False sv)) = (r, sv')"
      by (simp add: case_prod_beta')
    fix old and s :: "('a, 'b) shard" and q s'
    assume t: "tx_inv ?z old (\<lambda>_. 0) {} s" and b: "?body s = (q, s')"
    have h: "ci_PackageHash inp = ?h" by (simp add: inp_def package_input_def)
    from b show "tx_inv ?z old (\<lambda>_. 0) {} s' \<and> (\<forall>x. q = Inr x \<longrightarrow> (\<exists>p. find_package (fst x) (sh_meta s') = Some p \<and> pk_PackageHash p = ?h))"
    proof (cases rule: tryE_E)
      case (error e)
      from tx_inv_store_original(1) [OF assms(1) t h error(1)] error(2) show ?thesis by simp
    next
      case (ok ic s1)
      have t1: "tx_ok ?z old (\<lambda>_. 0) {} (packages (sh_meta s1)) s1"
        using tx_inv_store_original(1) [OF assms(1) t h ok(1)] by (simp add: tx_ok_def)
      have "\<exists>p. find_package (fst ic) (sh_meta s1) = Some p \<and> pk_PackageHash p = ?h"
        using tx_inv_store_original(2) [OF assms(1) t h ok(1), of "fst ic" "snd ic"] by simp
      with more [OF ok(2) t1] tx_ok_packages [OF t1] show ?thesis
        by (metis tx_ok_def find_package_def)
    qed
  qed (rule grows_recordIngest refl)+
qed

lemma ingested_ZIP:
  assumes "zstd_laws (lib_zstd L)" and "ingestZIP L zr cfg spl (ContentHash_of body) body fn sv = (r, sv')"
  shows "ingested (lib_zstd L) (ContentHash_of body) sv r sv'"
  using assms(2) ingested_LargeZIP [OF assms(1)] ingested_SmallZIP [OF assms(1)] by (auto simp: ingestZIP_def split: if_splits)

lemma ingested_step:
  assumes "grows zs sv s1" and "shard_inv zs (sv_shard sv) \<Longrightarrow> ingested zs h s1 r sv'"
  shows "ingested zs h sv r sv'"
  unfolding ingested_def grows_def
proof (intro conjI impI allI)
  assume i: "shard_inv zs (sv_shard sv)"
  note n = assms(2) [OF i, unfolded ingested_def grows_def]
  have g: "shard_inv zs (sv_shard s1)" "package_keys (sh_meta (sv_shard sv)) \<subseteq> package_keys (sh_meta (sv_shard s1))"
    using assms(1) i by (auto simp: grows_def)
  show "shard_inv zs (sv_shard sv')" using n g by blast
  show "package_keys (sh_meta (sv_shard sv)) \<subseteq> package_keys (sh_meta (sv_shard sv'))" using n g by blast
  fix p assume "r = Inr (Some p)"
  then show "pk_PackageHash p = h" and "(pk_ID p, h) \<in> package_keys (sh_meta (sv_shard sv'))" using n g by blast+
qed

lemma ingested_error: "grows zs sv sv' \<Longrightarrow> ingested zs h sv (Inl e) sv'"
  by (simp add: ingested_def)

lemma GetPackage_of_shard:
  assumes "on_repo (GetPackage i) sv = (Inr (Some p), s1)"
  shows "\<exists>p0. find_package i (sh_meta (sv_shard sv)) = Some p0 \<and> p = p0\<lparr>Files := files_where (\<lambda>f. pf_PackageID f = i) (sh_meta (sv_shard sv))\<rparr>"
  using assms GetPackage_effect(2) by (fastforce simp: on_shard_def on_tx_def split: prod.splits)

lemma find_package_key:
  assumes "md_wf db" and "(i, h) \<in> package_keys db"
  shows "\<exists>p. find_package i db = Some p \<and> pk_PackageHash p = h"
proof -
  obtain q where q: "q \<in> set (packages db)" "pk_ID q = i" "pk_PackageHash q = h" using assms(2) by (auto simp: package_keys_def)
  then obtain p where p: "find_package i db = Some p" using find_package_None [of i db] by (fastforce simp: has_package_def list_ex_iff)
  then have "p \<in> set (packages db)" "pk_ID p = i" by (auto simp: find_package_def dest: find_SomeD)
  with q assms(1) have "q = p" by (auto simp: md_wf_def distinct_map dest: inj_onD)
  with p q show ?thesis by simp
qed

lemma ingested_clone:
  assumes "shard_inv zs (sv_shard sv)" and "(c, h) \<in> package_keys (sh_meta (sv_shard sv))" and "clonePackage spl h t fn c sv = (r, sv')"
  shows "ingested zs h sv r sv'"
  using assms(3) [unfolded clonePackage_def]
proof (cases rule: tryE_E)
  case (error e)
  from grows_GetPackage [OF error(1)] error(2) show ?thesis by (simp add: ingested_error)
next
  case (ok x s1)
  note g = grows_GetPackage [OF ok(1)]
  show ?thesis
  proof (cases x)
    case None
    with ok(2) g show ?thesis by (auto simp: ingested_error)
  next
    case (Some p)
    have wf: "md_wf (sh_meta (sv_shard sv))" using assms(1) by (simp add: shard_inv_def store_inv_def)
    obtain p0 where p0: "find_package c (sh_meta (sv_shard sv)) = Some p0" "p = p0\<lparr>Files := files_where (\<lambda>f. pf_PackageID f = c) (sh_meta (sv_shard sv))\<rparr>"
      using GetPackage_of_shard ok(1) Some by blast
    have "pk_PackageHash p0 = h" using find_package_key [OF wf assms(2)] p0(1) by auto
    with original_listed [OF assms(1) p0(1)] p0(2)
    have og: "list_ex (\<lambda>f. Role f = ''original'' \<and> BlobHash f = h) (Files p)" by simp
    let ?inp = "package_input spl h t (StorageMode p) fn (Some c) (FileCount p) (UnpackError p)"
    let ?body = "\<lambda>st. tryE (on_tx (tx_CreatePackage ?inp) st) (\<lambda>i st. tryE (clone_files i (Files p) st) (\<lambda>hs st.
        tryE (on_tx (tx_IncrementRefCounts hs) st) (\<lambda>_ st. (Inr i, st))))"
    have b: "tx_inv zs old (\<lambda>_. 0) {} s' \<and> (\<forall>i. q = Inr i \<longrightarrow> (\<exists>p. find_package i (sh_meta s') = Some p \<and> pk_PackageHash p = h))"
      if "tx_inv zs old (\<lambda>_. 0) {} s" "?body s = (q, s')" for old and s :: "('a, 'b) shard" and q s'
      using tx_inv_clone_body [OF that(1) _ that(2)] og by simp
    have "tryE (on_shard (with_tx ?body) s1) loadAndJournal = (r, sv')"
      using ok(2) Some by simp
    then have "ingested zs h s1 r sv'" by (rule ingest_rule [where f = "\<lambda>x. x" and g = "\<lambda>_ s. s"]) (use b in simp_all)
    then show ?thesis by (rule ingested_step [OF g])
  qed
qed

lemma ProcessPackage_ingested:
  assumes "zstd_laws (lib_zstd L)" and "ProcessPackage L zr cfg spl body fn sv = (r, sv')"
  shows "ingested (lib_zstd L) (ContentHash_of body) sv r sv'"
proof -
  let ?z = "lib_zstd L" and ?h = "ContentHash_of body"
  have rej: "ingested ?z ?h sv (Inl e) sv" for e by (simp add: ingested_error)
  consider e where "r = Inl e" "sv' = sv" | t where "DetectPayload body = Inr t"
    "tryE (on_repo (FindCanonicalPackageID ?h) sv) (\<lambda>canonicalID sv. case canonicalID of
              Some c \<Rightarrow>
                tryE (clonePackage spl ?h t fn c sv) (\<lambda>pkg sv. case pkg of
                  None \<Rightarrow> (Inl (Err ''runtime error: invalid memory address or nil pointer dereference''), sv)
                | Some p \<Rightarrow> (Inr (Some p), recordIngest spl (FileCount p) no_counters True sv))
            | None \<Rightarrow> (case t of
                  PayloadXML \<Rightarrow> ingestXML L spl ?h body fn sv
                | PayloadZIP \<Rightarrow> ingestZIP L zr cfg spl ?h body fn sv)) = (r, sv')"
    using assms(2) by (auto simp: ProcessPackage_def Let_def PackageHash_of_def split: if_splits sum.splits)
  then show ?thesis
  proof cases
    case 1
    with rej show ?thesis by simp
  next
    case 2
    have fg: "grows ?z sv s1" if "on_repo (FindCanonicalPackageID ?h) sv = (q, s1)" for q s1
      using that by (rule grows_repo(1)) (use same_rows_pool(1) in \<open>fastforce simp: FindCanonicalPackageID_def\<close>)
    from 2(2) show ?thesis
    proof (cases rule: tryE_E)
      case (error e)
      with fg show ?thesis by (auto simp: ingested_error)
    next
      case (ok x s1)
      note g = fg [OF ok(1)]
      show ?thesis
      proof (rule ingested_step [OF g])
        assume i: "shard_inv ?z (sv_shard sv)"
        show "ingested ?z ?h s1 r sv'"
        proof (cases x)
          case None
          with ok(2) ingested_XML [OF assms(1)] ingested_ZIP [OF assms(1)] show ?thesis by (cases t) auto
        next
          case (Some c)
          have wf: "md_wf (sh_meta (sv_shard sv))" using i by (simp add: shard_inv_def store_inv_def)
          obtain p where p: "find_package c (sh_meta (sv_shard sv)) = Some p" "pk_PackageHash p = ?h"
            using ok(1) Some FindCanonical_effect(2) [OF _ wf] by (fastforce simp: on_shard_def on_tx_def split: prod.splits)
          then have "(c, ?h) \<in> package_keys (sh_meta (sv_shard sv))" by (force simp: package_keys_def find_package_def dest: find_SomeD)
          then have k: "(c, ?h) \<in> package_keys (sh_meta (sv_shard s1))" "shard_inv ?z (sv_shard s1)" using g i by (auto simp: grows_def)
          note cl = ingested_clone [OF k(2,1)]
          from ok(2) Some have "tryE (clonePackage spl ?h t fn c s1) (\<lambda>pkg sv. case pkg of
                  None \<Rightarrow> (Inl (Err ''runtime error: invalid memory address or nil pointer dereference''), sv)
                | Some p \<Rightarrow> (Inr (Some p), recordIngest spl (FileCount p) no_counters True sv)) = (r, sv')" by simp
          then show ?thesis
          proof (cases rule: tryE_E)
            case (error e)
            with cl show ?thesis by blast
          next
            case (ok y s2)
            note n = cl [OF ok(1)]
            have gr: "grows ?z s2 (recordIngest spl a no_counters True s2)" for a by (rule grows_recordIngest)
            show ?thesis
            proof (cases y)
              case None
              with ok(2) n show ?thesis by (auto simp: ingested_def)
            next
              case (Some p)
              have "shard_inv ?z (sv_shard s2)" using n k(2) by (auto simp: ingested_def grows_def)
              with ok(2) Some n gr [of "FileCount p"] grows_trans show ?thesis by (auto simp: ingested_def grows_def)
            qed
          qed
        qed
      qed
    qed
  qed
qed

subsection \<open>Reading leaves the files\<close>

definition same_files :: "SegmentManager \<Rightarrow> SegmentManager \<Rightarrow> bool" where
  "same_files s s' \<longleftrightarrow> dfiles (sdisk s') = dfiles (sdisk s) \<and> activeID s' = activeID s \<and> activeOffset s' = activeOffset s
     \<and> activeFile s' = activeFile s"

lemma same_files_ReadAt: "same_files s s1 \<Longrightarrow> on_disk (os_ReadAt n k off) s1 = (r, s2) \<Longrightarrow> same_files s s2"
  by (auto simp: same_files_def on_disk_def split: prod.splits dest: os_ReadAt_frame)

lemma same_files_ReadRecord: "same_files s (snd (ReadRecord i off s))"
proof -
  let ?P = "same_files s"
  have rd: "?P s1 \<Longrightarrow> ?P (snd (on_disk (os_ReadAt n k o') s1))" for s1 n k o'
    using same_files_ReadAt [of s s1 n k o' "fst (on_disk (os_ReadAt n k o') s1)" "snd (on_disk (os_ReadAt n k o') s1)"] by simp
  have op: "?P (snd (openReadHandle i s))"
    using openReadHandle_frame(1-4) [of i s "fst (openReadHandle i s)" "snd (openReadHandle i s)"] by (simp add: same_files_def)
  have tr: "?P s1 \<Longrightarrow> (\<And>x s2. ?P s2 \<Longrightarrow> ?P (snd (k x s2))) \<Longrightarrow> ?P (snd (tryE (on_disk (os_ReadAt n l o') s1) k))"
    "?P s1 \<Longrightarrow> (\<And>x s2. ?P s2 \<Longrightarrow> ?P (snd (k x s2))) \<Longrightarrow> ?P (snd (tryE (wrapE m (on_disk (os_ReadAt n l o') s1)) k))"
    for s1 and k :: "bytes \<Rightarrow> SegmentManager \<Rightarrow> (SegmentManager, u32 \<times> bytes) result" and n l o' m
    using rd [of s1 n l o'] by (cases "on_disk (os_ReadAt n l o') s1"; cases "fst (on_disk (os_ReadAt n l o') s1)"; auto)+
  show ?thesis
    unfolding ReadRecord_def
    by (rule tryE_inv [where P = ?P], rule op, rule tr)
      (auto simp del: split_paired_All intro!: tr split: sum.splits prod.splits)
qed


lemma ReadBlob_keeps: "ReadBlob zs b bs = (r, bs') \<Longrightarrow> store_keeps bs bs'"
proof -
  assume rd: "ReadBlob zs b bs = (r, bs')"
  obtain q sm where q: "ReadRecord (cb_SegmentID b) (cb_Offset b) (segments bs) = (q, sm)" by fastforce
  have f: "same_files (segments bs) sm" using same_files_ReadRecord [of "segments bs" "cb_SegmentID b" "cb_Offset b"] q by simp
  have bs': "bs' = bs\<lparr>segments := sm\<rparr>" using rd q by (auto simp: ReadBlob_def split: sum.splits prod.splits if_splits option.splits)
  have "sm_inv sm = sm_inv (segments bs)"
    using f by (simp add: sm_inv_def same_files_def live_def stopped_def active_dfile_def)
  moreover have "durable sm l x = durable (segments bs) l x" for l x
    using f by (simp add: durable_def stored_def same_files_def)
  ultimately show ?thesis using bs' by (simp add: store_keeps_def)
qed

lemma shard_inv_keeps:
  assumes "shard_inv zs st" and "store_keeps (sh_blobs st) bs"
  shows "shard_inv zs (st\<lparr>sh_blobs := bs\<rparr>)"
proof -
  have sm: "sm_inv (segments (sh_blobs st))" using assms(1) by (simp add: shard_inv_def store_inv_def)
  with assms backed_keeps [OF assms(2) sm] show ?thesis
    by (auto simp: shard_inv_def store_inv_def list_all_iff store_keeps_def)
qed

subsection \<open>Unpacking\<close>

lemma grows_read_original: "read_original L i sv = (r, sv') \<Longrightarrow> grows zs sv sv'"
  unfolding read_original_def
proof (erule grows_try)
  show "on_repo (GetOriginalFile i) sv = (q, s1) \<Longrightarrow> grows zs sv s1" for q s1
    by (rule grows_repo(1)) (use same_rows_pool(1) in \<open>fastforce simp: GetOriginalFile_def\<close>)+
next
  fix x s1
  assume c: "(case x of None \<Rightarrow> (Inl (Err (''package '' @ itoa i @ '' has no original'')), s1)
     | Some f \<Rightarrow> tryE (on_repo (GetBlob (BlobHash f)) s1) (\<lambda>blob sv. case blob of
           None \<Rightarrow> (Inl (Err (''blob missing for package '' @ itoa i)), sv)
         | Some b \<Rightarrow> on_shard (\<lambda>st. case ReadBlob (lib_zstd L) b (sh_blobs st) of (r, bs) \<Rightarrow> (r, st\<lparr>sh_blobs := bs\<rparr>)) sv)) = (r, sv')"
  show "grows zs s1 sv'"
  proof (cases x)
    case None
    with c show ?thesis by simp
  next
    case (Some f)
    with c have "tryE (on_repo (GetBlob (BlobHash f)) s1) (\<lambda>blob sv. case blob of
           None \<Rightarrow> (Inl (Err (''blob missing for package '' @ itoa i)), sv)
         | Some b \<Rightarrow> on_shard (\<lambda>st. case ReadBlob (lib_zstd L) b (sh_blobs st) of (r, bs) \<Rightarrow> (r, st\<lparr>sh_blobs := bs\<rparr>)) sv) = (r, sv')" by simp
    then show ?thesis
    proof (rule grows_try)
      show "on_repo (GetBlob (BlobHash f)) s1 = (q, s2) \<Longrightarrow> grows zs s1 s2" for q s2
        by (rule grows_repo(1)) (use same_rows_pool(1) in \<open>fastforce simp: GetBlob_def\<close>)+
      fix b s2
      assume b: "(case b of None \<Rightarrow> (Inl (Err (''blob missing for package '' @ itoa i)), s2)
         | Some b \<Rightarrow> on_shard (\<lambda>st. case ReadBlob (lib_zstd L) b (sh_blobs st) of (r, bs) \<Rightarrow> (r, st\<lparr>sh_blobs := bs\<rparr>)) s2) = (r, sv')"
      show "grows zs s2 sv'"
      proof (cases b)
        case None
        with b show ?thesis by simp
      next
        case (Some y)
        obtain q bs where q: "ReadBlob (lib_zstd L) y (sh_blobs (sv_shard s2)) = (q, bs)" by fastforce
        have "sv' = s2\<lparr>sv_shard := (sv_shard s2)\<lparr>sh_blobs := bs\<rparr>\<rparr>" using b Some q by (auto simp: on_shard_def)
        with shard_inv_keeps [OF _ ReadBlob_keeps [OF q]] show ?thesis by (simp add: grows_def)
      qed
    qed
  qed
qed

lemma grows_propagate_loop: "propagate_loop canonical fs ids sv = (r, sv') \<Longrightarrow> grows zs sv sv'"
proof (induction ids arbitrary: sv)
  case (Cons i ids)
  from Cons.prems [unfolded propagate_loop.simps] show ?case
  proof (rule grows_try)
    show "on_repo (GetPackage i) sv = (q, s1) \<Longrightarrow> grows zs sv s1" for q s1 by (rule grows_GetPackage)
    fix x s1
    assume c: "(case x of None \<Rightarrow> propagate_loop canonical fs ids s1
       | Some p \<Rightarrow> if StorageMode p \<noteq> ''raw_large'' then propagate_loop canonical fs ids s1
           else tryE (on_shard (with_tx (update_clone canonical i fs (map file_key (filter is_extra (Files p))))) s1) (\<lambda>_ sv.
             propagate_loop canonical fs ids sv)) = (r, sv')"
    show "grows zs s1 sv'"
    proof (cases "propagate_loop canonical fs ids s1 = (r, sv')")
      case True
      then show ?thesis by (rule Cons.IH)
    next
      case False
      with c obtain p where p: "x = Some p" "StorageMode p = ''raw_large''" by (cases x) (auto split: if_splits)
      with c have "tryE (on_shard (with_tx (update_clone canonical i fs (map file_key (filter is_extra (Files p))))) s1) (\<lambda>_ sv.
             propagate_loop canonical fs ids sv) = (r, sv')" by simp
      then show ?thesis
      proof (rule grows_try)
        show "on_shard (with_tx (update_clone canonical i fs (map file_key (filter is_extra (Files p))))) s1 = (q, s2) \<Longrightarrow> grows zs s1 s2" for q s2
          by (erule grows_tx) (rule tx_inv_update_clone)
      qed (rule Cons.IH)
    qed
  qed
qed simp

lemma grows_propagate: "propagateUnpackToClones i sv = (r, sv') \<Longrightarrow> grows zs sv sv'"
  unfolding propagateUnpackToClones_def
proof (erule grows_try, erule grows_GetPackage)
  have l: "on_repo (ListClonePackageIDs i) s = (q, s1) \<Longrightarrow> grows zs s s1" for s :: "('a, 'b) service" and q s1
    by (rule grows_repo(1)) (use same_rows_pool(1) in \<open>fastforce simp: ListClonePackageIDs_def\<close>)+
  fix x s1
  assume c: "(case x of None \<Rightarrow> (Inr (), s1)
     | Some canonical \<Rightarrow> if StorageMode canonical \<noteq> ''zip_with_members'' then (Inr (), s1)
         else tryE (on_repo (ListClonePackageIDs i) s1) (propagate_loop canonical (filter is_extra (Files canonical)))) = (r, sv')"
  show "grows zs s1 sv'"
  proof (cases "s1 = sv'")
    case False
    with c obtain p where "tryE (on_repo (ListClonePackageIDs i) s1) (propagate_loop p (filter is_extra (Files p))) = (r, sv')"
      by (auto split: option.splits if_splits)
    then show ?thesis by (rule grows_try) (auto intro: l grows_propagate_loop)
  qed simp
qed

lemma grows_finish_unpack: "finish_unpack i sv = (r, sv') \<Longrightarrow> grows zs sv sv'"
  unfolding finish_unpack_def
  by (erule grows_try, erule grows_propagate, erule grows_try, erule grows_loadAndJournal) simp

lemma grows_UnpackLargePackage:
  assumes "zstd_laws (lib_zstd L)" and "UnpackLargePackage L zr cfg i sv = (r, sv')"
  shows "grows (lib_zstd L) sv sv'"
  using assms(2) [unfolded UnpackLargePackage_def]
proof (rule grows_try)
  show "on_repo (GetPackage i) sv = (q, s1) \<Longrightarrow> grows (lib_zstd L) sv s1" for q s1 by (rule grows_GetPackage)
  have tx: "grows (lib_zstd L) s s1" if "on_shard (with_tx (unpack_tx L zr cfg i zb)) s = (q, s1)" for s :: "('a, 'b) service" and q s1 zb
    using that by (rule grows_tx) (rule tx_inv_unpack_tx [OF assms(1)])
  fix x s1
  assume c: "(case x of None \<Rightarrow> (Inl (not_found i), s1)
     | Some p \<Rightarrow>
         if StorageMode p = ''zip_with_members'' then finish_unpack i s1
         else if StorageMode p \<noteq> ''raw_large'' then (Inr (), s1)
         else tryE (read_original L i s1) (\<lambda>zipBytes sv.
           (case on_shard (with_tx (unpack_tx L zr cfg i zipBytes)) sv of
              (Inl e, sv) \<Rightarrow> if errors_Is e errSkipLargeUnpack then finish_unpack i sv else (Inl e, sv)
            | (Inr _, sv) \<Rightarrow> finish_unpack i sv))) = (r, sv')"
  show "grows (lib_zstd L) s1 sv'"
  proof (cases "s1 = sv' \<or> finish_unpack i s1 = (r, sv')")
    case True
    then show ?thesis using grows_finish_unpack by auto
  next
    case False
    with c have "tryE (read_original L i s1) (\<lambda>zipBytes sv.
           (case on_shard (with_tx (unpack_tx L zr cfg i zipBytes)) sv of
              (Inl e, sv) \<Rightarrow> if errors_Is e errSkipLargeUnpack then finish_unpack i sv else (Inl e, sv)
            | (Inr _, sv) \<Rightarrow> finish_unpack i sv)) = (r, sv')"
      by (auto split: option.splits if_splits)
    then show ?thesis
    proof (rule grows_try)
      show "read_original L i s1 = (q, s2) \<Longrightarrow> grows (lib_zstd L) s1 s2" for q s2 by (rule grows_read_original)
      fix zb s2
      assume f: "(case on_shard (with_tx (unpack_tx L zr cfg i zb)) s2 of
              (Inl e, sv) \<Rightarrow> if errors_Is e errSkipLargeUnpack then finish_unpack i sv else (Inl e, sv)
            | (Inr _, sv) \<Rightarrow> finish_unpack i sv) = (r, sv')"
      obtain q s3 where q: "on_shard (with_tx (unpack_tx L zr cfg i zb)) s2 = (q, s3)" by fastforce
      have "s3 = sv' \<or> finish_unpack i s3 = (r, sv')" using f q by (auto split: sum.splits if_splits)
      with tx [OF q] grows_finish_unpack grows_trans show "grows (lib_zstd L) s2 sv'" by blast
    qed
  qed
qed

subsection \<open>Histories of requests\<close>

datatype request = Post int bytes "string option" | Unpack int

fun serve :: "('s, 'b) libs \<Rightarrow> zip_reader \<Rightarrow> Config \<Rightarrow> request \<Rightarrow> ('s, 'b) service \<Rightarrow> ('s, 'b) service" where
  "serve L zr cfg (Post supplierID body filename) sv = snd (ProcessPackage L zr cfg supplierID body filename sv)"
| "serve L zr cfg (Unpack i) sv = snd (UnpackLargePackage L zr cfg i sv)"

fun serve_all :: "('s, 'b) libs \<Rightarrow> zip_reader \<Rightarrow> Config \<Rightarrow> request list \<Rightarrow> ('s, 'b) service \<Rightarrow> ('s, 'b) service" where
  "serve_all L zr cfg [] sv = sv"
| "serve_all L zr cfg (q # qs) sv = serve_all L zr cfg qs (serve L zr cfg q sv)"

lemma grows_serve: "zstd_laws (lib_zstd L) \<Longrightarrow> grows (lib_zstd L) sv (serve L zr cfg q sv)"
  using ProcessPackage_ingested [of L zr cfg _ _ _ sv] grows_UnpackLargePackage [of L zr cfg _ sv]
  by (cases q) (auto simp: ingested_def, metis prod.collapse, metis prod.collapse)

lemma grows_serve_all: "zstd_laws (lib_zstd L) \<Longrightarrow> grows (lib_zstd L) sv (serve_all L zr cfg qs sv)"
  by (induction qs arbitrary: sv) (auto intro: grows_trans grows_serve)

lemma original_unique:
  assumes "shard_inv zs st" and "(i, h) \<in> package_keys (sh_meta st)"
    and "f \<in> set (package_files (sh_meta st))" and "pf_PackageID f = i" and "Role f = ''original''"
  shows "BlobHash f = h"
proof -
  obtain p where p: "p \<in> set (packages (sh_meta st))" "pk_ID p = i" "pk_PackageHash p = h" using assms(2) by (auto simp: package_keys_def)
  then obtain g where g: "g \<in> set (package_files (sh_meta st))" "pf_PackageID g = i" "Role g = ''original''" "BlobHash g = h"
    using assms(1) by (auto simp: shard_inv_def balance_def has_original_def list_ex_iff)
  have u: "files_unique (sh_meta st)" using assms(1) by (simp add: shard_inv_def balance_def)
  have "f = g"
  proof (rule ccontr)
    assume "f \<noteq> g"
    then have "\<not> file_clash f g \<or> \<not> file_clash g f"
      using u assms(3) g(1) unfolding sorted_wrt_iff_nth_less in_set_conv_nth by (metis nat_neq_iff)
    with assms(4,5) g(2,3) show False by (auto simp: file_clash_def)
  qed
  with g(4) show ?thesis by simp
qed

lemma first_file_SomeD: "first_file fs = Some f \<Longrightarrow> f \<in> set fs"
  by (cases fs) (auto simp: first_file_def)

lemma files_where_mem: "g \<in> set (files_where P db) \<Longrightarrow> \<exists>f\<in>set (package_files db). P f \<and> BlobHash g = BlobHash f \<and> has_blob (BlobHash f) db"
  using find_blob_None by (fastforce simp: files_where_def List.map_filter_def join_blob_def)

lemma original_file:
  assumes "shard_inv zs st" and "(i, h) \<in> package_keys (sh_meta st)"
  shows "\<exists>g. first_file (files_where (\<lambda>f. pf_PackageID f = i \<and> Role f = ''original'') (sh_meta st)) = Some g \<and> BlobHash g = h"
proof -
  let ?l = "files_where (\<lambda>f. pf_PackageID f = i \<and> Role f = ''original'') (sh_meta st)"
  have wf: "md_wf (sh_meta st)" using assms(1) by (simp add: shard_inv_def store_inv_def)
  obtain p where p: "find_package i (sh_meta st) = Some p" using find_package_key [OF wf assms(2)] by blast
  obtain f where f: "f \<in> set (package_files (sh_meta st))" "pf_PackageID f = i" "Role f = ''original''"
  proof -
    have "p \<in> set (packages (sh_meta st))" "pk_ID p = i" using p by (auto simp: find_package_def dest: find_SomeD)
    then show ?thesis using assms(1) that by (auto simp: shard_inv_def balance_def has_original_def list_ex_iff)
  qed
  then obtain b where "find_blob (BlobHash f) (sh_meta st) = Some b"
    using wf find_blob_None [of "BlobHash f" "sh_meta st"] by (fastforce simp: md_wf_def list_all_iff)
  then have "join_blob (sh_meta st) f = Some (f\<lparr>pf_Size := BlobSize b\<rparr>)" by (simp add: join_blob_def)
  with f have "f\<lparr>pf_Size := BlobSize b\<rparr> \<in> set ?l"
    by (auto simp: files_where_def List.map_filter_def image_iff intro!: bexI [of _ f])
  then obtain g gs where g: "?l = g # gs" by (cases ?l) auto
  have "BlobHash g = h" using files_where_mem [of g "\<lambda>f. pf_PackageID f = i \<and> Role f = ''original''" "sh_meta st"] g original_unique [OF assms] by auto
  with g show ?thesis by (simp add: first_file_def)
qed

lemma read_original_content:
  assumes "shard_inv (lib_zstd L) (sv_shard sv)" and "(i, h) \<in> package_keys (sh_meta (sv_shard sv))"
  shows "fst (read_original L i sv) = Inr z \<Longrightarrow> ContentHash_of z = h"
    and "healthy (segments (sh_blobs (sv_shard sv))) \<Longrightarrow> md_faults (sh_meta (sv_shard sv)) = [] \<Longrightarrow> \<exists>z. fst (read_original L i sv) = Inr z"
proof -
  let ?st = "sv_shard sv"
  obtain g where g: "first_file (files_where (\<lambda>f. pf_PackageID f = i \<and> Role f = ''original'') (sh_meta ?st)) = Some g" "BlobHash g = h"
    using original_file [OF assms] by blast
  then have "has_blob h (sh_meta ?st)" using files_where_mem [OF first_file_SomeD [OF g(1)]] by auto
  then obtain b where b: "find_blob h (sh_meta ?st) = Some b" using find_blob_None [of h "sh_meta ?st"] by auto
  then have bm: "b \<in> set (content_blobs (sh_meta ?st))" "ContentHash b = h" by (auto simp: find_blob_def dest: find_SomeD)
  then obtain y where y: "blob_content (lib_zstd L) (sh_blobs ?st) b y"
    using assms(1) by (auto simp: shard_inv_def store_inv_def list_all_iff backed_def)
  have yh: "ContentHash_of y = h" using y bm(2) by (simp add: blob_content_def)
  have sm: "sm_inv (segments (sh_blobs ?st))" using assms(1) by (simp add: shard_inv_def store_inv_def)
  note rd = ReadBlob_content [OF y sm]
  have keep: "sh_blobs (sv_shard s1) = sh_blobs ?st \<and> same_rows (sh_meta ?st) (sh_meta (sv_shard s1))"
    if "on_repo (pool_stmt (\<lambda>db. (Inr (f db), db))) sv = (q, s1)" for f :: "meta_db \<Rightarrow> 'c" and q s1
    using that same_rows_pool(1) by (fastforce simp: on_shard_def on_tx_def split: prod.splits)
  show "ContentHash_of z = h" if rz: "fst (read_original L i sv) = Inr z"
  proof -
    obtain sv' where "read_original L i sv = (Inr z, sv')" using rz by (cases "read_original L i sv") auto
    from this [unfolded read_original_def tryE_Inr_iff] obtain x s1 where
      x: "on_repo (GetOriginalFile i) sv = (Inr x, s1)" and k: "(case x of None \<Rightarrow> (Inl (Err (''package '' @ itoa i @ '' has no original'')), s1)
     | Some f \<Rightarrow> tryE (on_repo (GetBlob (BlobHash f)) s1) (\<lambda>blob sv. case blob of
           None \<Rightarrow> (Inl (Err (''blob missing for package '' @ itoa i)), sv)
         | Some b \<Rightarrow> on_shard (\<lambda>st. case ReadBlob (lib_zstd L) b (sh_blobs st) of (r, bs) \<Rightarrow> (r, st\<lparr>sh_blobs := bs\<rparr>)) sv)) = (Inr z, sv')" by auto
    obtain d where d: "same_rows (sh_meta ?st) d" "x = first_file (files_where (\<lambda>f. pf_PackageID f = i \<and> Role f = ''original'') d)"
      using x same_rows_pool(2) by (fastforce simp: on_shard_def on_tx_def GetOriginalFile_def split: prod.splits)
    then have xg: "x = Some g" using g files_where_rows by metis
    note k1 = keep [OF x [unfolded GetOriginalFile_def]]
    from k xg obtain v s2 where v: "on_repo (GetBlob h) s1 = (Inr v, s2)" and k2: "(case v of
           None \<Rightarrow> (Inl (Err (''blob missing for package '' @ itoa i)), s2)
         | Some b \<Rightarrow> on_shard (\<lambda>st. case ReadBlob (lib_zstd L) b (sh_blobs st) of (r, bs) \<Rightarrow> (r, st\<lparr>sh_blobs := bs\<rparr>)) s2) = (Inr z, sv')"
      by (auto simp: tryE_Inr_iff g(2))
    obtain d where d: "same_rows (sh_meta (sv_shard s1)) d" "v = find_blob h d"
      using v same_rows_pool(2) by (fastforce simp: on_shard_def on_tx_def GetBlob_def split: prod.splits)
    then have vb: "v = Some b" using b find_blob_rows [OF d(1)] find_blob_rows [of "sh_meta ?st" "sh_meta (sv_shard s1)"] k1 by simp
    have s2: "sh_blobs (sv_shard s2) = sh_blobs ?st" using v k1 by (auto simp: on_shard_def on_tx_def split: prod.splits)
    with k2 vb have "fst (ReadBlob (lib_zstd L) b (sh_blobs ?st)) = Inr z" by (auto simp: on_shard_def split: prod.splits)
    with rd(1) yh show ?thesis by simp
  qed
  show "\<exists>z. fst (read_original L i sv) = Inr z" if "healthy (segments (sh_blobs ?st))" "md_faults (sh_meta ?st) = []"
  proof -
    have "(sh_meta ?st)\<lparr>md_faults := []\<rparr> = sh_meta ?st" using that(2) by (cases "sh_meta ?st") simp
    then have nf: "md_take_fault (sh_meta ?st) = (Pass, sh_meta ?st)" using that(2) by (simp add: md_take_fault_def)
    have "on_repo (GetOriginalFile i) sv = (Inr (Some g), sv)" using g by (simp add: on_shard_def on_tx_def GetOriginalFile_def pool_stmt_def nf)
    moreover have "on_repo (GetBlob h) sv = (Inr (Some b), sv)" using b by (simp add: on_shard_def on_tx_def GetBlob_def pool_stmt_def nf)
    ultimately show ?thesis using rd(2) [OF that(1)] g(2)
      by (cases "ReadBlob (lib_zstd L) b (sh_blobs ?st)") (simp add: read_original_def on_shard_def)
  qed
qed

subsection \<open>Properties\<close>

text \<open>
  C9 (invariant). In every history of packages received and archives unpacked, with any failures
  of files and database, every blob stays backed by a durable record of its content, no blob has
  fewer references counted than package files that refer to it, every package has the original it
  was received as, and no package is lost or changes its hash.
\<close>

theorem ingestion_keeps_shard_invariant:
  assumes "zstd_laws (lib_zstd L)" and "shard_inv (lib_zstd L) (sv_shard sv)" and "sv' = serve_all L zr cfg qs sv"
  shows "shard_inv (lib_zstd L) (sv_shard sv') \<and> package_keys (sh_meta (sv_shard sv)) \<subseteq> package_keys (sh_meta (sv_shard sv'))"
  using grows_serve_all [OF assms(1)] assms(2,3) by (simp add: grows_def)

text \<open>
  A package that was accepted carries the hash of the body that was sent, and after
  any further history its original reads back as content of that hash and nothing else; it does
  read back when neither the files nor the database fail.
\<close>

theorem accepted_package_reads_back:
  assumes "zstd_laws (lib_zstd L)" and "shard_inv (lib_zstd L) (sv_shard sv)"
    and "ProcessPackage L zr cfg supplierID body filename sv = (Inr (Some p), sv1)" and "sv2 = serve_all L zr cfg qs sv1"
  shows "pk_PackageHash p = PackageHash_of body
    \<and> (\<forall>z. fst (read_original L (pk_ID p) sv2) = Inr z \<longrightarrow> ContentHash_of z = PackageHash_of body)
    \<and> (healthy (segments (sh_blobs (sv_shard sv2))) \<and> md_faults (sh_meta (sv_shard sv2)) = []
        \<longrightarrow> (\<exists>z. fst (read_original L (pk_ID p) sv2) = Inr z))"
proof -
  note i = ProcessPackage_ingested [OF assms(1,3), unfolded ingested_def]
  have s1: "shard_inv (lib_zstd L) (sv_shard sv1)" and p: "pk_PackageHash p = ContentHash_of body"
      "(pk_ID p, ContentHash_of body) \<in> package_keys (sh_meta (sv_shard sv1))"
    using i assms(2) by (auto simp: grows_def)
  have "shard_inv (lib_zstd L) (sv_shard sv2)" "(pk_ID p, ContentHash_of body) \<in> package_keys (sh_meta (sv_shard sv2))"
    using grows_serve_all [OF assms(1), of sv1 zr cfg qs] s1 p(2) assms(4) unfolding grows_def by blast+
  from read_original_content [OF this] p(1) show ?thesis by (auto simp: PackageHash_of_def)
qed

subsection \<open>A concrete service\<close>

definition no_zip :: zip_reader where
  "no_zip data = Inl (Err ''zip: not a valid zip file'')"

definition empty_service :: "(memoryStore, bytes list) service" where
  "empty_service = \<lparr>sv_shard = empty_shard, sv_journal = None, sv_queue = None\<rparr>"

abbreviation sample_xml :: bytes where
  "sample_xml \<equiv> replicate 100 60"

lemma empty_service_inv: "shard_inv run_zstd (sv_shard empty_service)"
  using empty_shard_inv
  by (simp add: empty_service_def shard_inv_def balance_def empty_shard_def empty_meta_def owed_def refs_def find_blob_def ref_count_of_def)

lemma sample_xml_record: "encodeRecord run_zstd (Some sample_encoder) sample_xml RecordXML
    = EncodeRecord MagicXMLC [0x28, 0xB5, 0x2F, 0xFD, 0, 100, 60]"
proof -
  have "Compress run_zstd sample_encoder sample_xml = [0x28, 0xB5, 0x2F, 0xFD, 0, 100, 60]" by code_simp
  then show ?thesis by (simp add: encodeRecord_def ShouldCompress_def sample_encoder_def)
qed

lemma sample_xml_type: "DetectPayload sample_xml = Inr PayloadXML"
  by code_simp

lemma sample_process:
  "\<exists>p sv. ProcessPackage sample_libs no_zip sample_config 5 sample_xml None empty_service = (Inr (Some p), sv) \<and> pk_ID p = 1
     \<and> healthy (segments (sh_blobs (sv_shard sv))) \<and> md_faults (sh_meta (sv_shard sv)) = []
     \<and> (\<exists>f. package_files (sh_meta (sv_shard sv)) = [f] \<and> pf_PackageID f = 1 \<and> pf_ID f = 1)"
proof -
  let ?p = "[0x28, 0xB5, 0x2F, 0xFD, 0, 100, 60] :: bytes"
  have a: "Append_segments False (EncodeRecord MagicXMLC ?p) (fresh_manager 1000) = (Inr (first_loc ?p), one_record 1000 MagicXMLC ?p)"
    by (simp add: Append_segments_def appendDirect_first)
  have h: "healthy (one_record 1000 MagicXMLC ?p)" by (rule one_record_ok)
  have n: "sample_xml \<noteq> []" "\<not> int (length sample_xml) > MaxBodyBytes sample_config" by (simp_all add: sample_config_def)
  note defs = ProcessPackage_def Let_def PackageHash_of_def sample_xml_type on_shard_def on_tx_def FindCanonicalPackageID_def pool_stmt_def
    empty_service_def empty_shard_def empty_meta_def md_take_fault_def ingestXML_def with_tx_def tx_begin_def store_original_def
    StoreOrRef_def sample_libs_def NewBlobStore_def store_existing_def tx_GetBlob_def tx_stmt_def find_blob_def storeNew_def
    sample_xml_record on_segments_def a bs_now_def tx_InsertBlobOrIncrement_def blob_types_def new_blob_def int4_def has_blob_def
    segment_index_append_def indexPut_def h tx_CreatePackage_def package_input_def new_package_def package_accepted_def package_types_def
    payload_text_def opt_le_def md_now_def tx_CreatePackageFile_def new_file_def file_accepted_def file_types_def original_input_def has_package_def
    tx_end_def recordIngest_def RecordSupplierIngest_def add_counter_def loadAndJournal_def GetPackage_def find_package_def ListPackageFiles_def
    files_where_def join_blob_def journalPackage_def List.map_filter_def
  show ?thesis
    using n by (simp add: defs)
qed

theorem ingestion_keeps_shard_invariant_witness:
  "shard_inv run_zstd (sv_shard (serve_all sample_libs no_zip sample_config [Post 5 sample_xml None, Unpack 1, Post 6 sample_xml None] empty_service))"
proof -
  have L: "lib_zstd sample_libs = run_zstd" by (simp add: sample_libs_def)
  from ingestion_keeps_shard_invariant [of sample_libs empty_service _ no_zip sample_config "[Post 5 sample_xml None, Unpack 1, Post 6 sample_xml None]"]
  show ?thesis by (simp add: L run_zstd_laws empty_service_inv del: serve_all.simps)
qed

theorem accepted_package_reads_back_witness:
  "\<exists>p sv z. ProcessPackage sample_libs no_zip sample_config 5 sample_xml None empty_service = (Inr (Some p), sv)
     \<and> fst (read_original sample_libs 1 sv) = Inr z \<and> ContentHash_of z = ContentHash_of sample_xml"
proof -
  have L: "lib_zstd sample_libs = run_zstd" by (simp add: sample_libs_def)
  obtain p sv where p: "ProcessPackage sample_libs no_zip sample_config 5 sample_xml None empty_service = (Inr (Some p), sv)" "pk_ID p = 1"
    "healthy (segments (sh_blobs (sv_shard sv)))" "md_faults (sh_meta (sv_shard sv)) = []" using sample_process by blast
  from accepted_package_reads_back [OF _ _ p(1), of sv "[]"] p(2-4)
  obtain z where "fst (read_original sample_libs 1 sv) = Inr z" "ContentHash_of z = PackageHash_of sample_xml"
    by (auto simp: L run_zstd_laws empty_service_inv)
  with p(1) show ?thesis by (auto simp: PackageHash_of_def)
qed

end
