(* ===== verification/Shard_Api.thy ===== *)
theory Shard_Api
  imports Coord_Server Ingest_Props
begin

text \<open>
  The HTTP API of a shard (\<^verbatim>\<open>internal/api/handlers.go\<close>, \<^verbatim>\<open>shard.go\<close>, \<^verbatim>\<open>body.go\<close>). A request comes as the
  route the router chose, with its path parameters, and the values \<^verbatim>\<open>net/http\<close> extracts. What a
  handler reads of the data directory besides the segments is an argument.
\<close>

subsection \<open>Answers\<close>

record fileResponse =
  fo_FileID :: int
  fo_Role :: string
  fo_Filename :: string
  fo_Size :: int
  fo_Sequence :: "int option"
  fo_DownloadURL :: string

record packageResponse =
  po_PackageID :: int
  po_SupplierID :: int
  po_PayloadType :: string
  po_StorageMode :: string
  po_ReceivedAt :: time
  po_OriginalFilename :: "string option"
  po_FileCount :: int
  po_Files :: "fileResponse list"
  po_Self :: string
  po_Original :: string
  po_UnpackStatus :: string
  po_UnpackError :: string

record shardStatsResponse =
  so_ShardID :: int
  so_Role :: string
  so_ReadOnly :: bool
  so_WriteBlockReason :: string
  so_TotalBytes :: int

record segmentFileInfo =
  sf_Name :: string
  sf_Size :: int
  sf_SHA256 :: string
  sf_ModifiedUnix :: int

datatype api_body =
    ApiError string
  | ApiPackage packageResponse
  | ApiStats shardStatsResponse
  | ApiStatus string
  | ApiSegments "segmentFileInfo list"
  | ApiBytes bytes

record api_answer =
  aa_status :: int
  aa_type :: string
  aa_disposition :: "string option"
  aa_length :: "int option"
  aa_body :: api_body

definition writeJSON_api :: "int \<Rightarrow> api_body \<Rightarrow> api_answer" where
  "writeJSON_api status v = \<lparr>aa_status = status, aa_type = ''application/json'', aa_disposition = None, aa_length = None, aa_body = v\<rparr>"

abbreviation api_error :: "int \<Rightarrow> string \<Rightarrow> api_answer" where
  "api_error status m \<equiv> writeJSON_api status (ApiError m)"

subsection \<open>The guard of a shard\<close>

record ShardGuard =
  g_ShardID :: int
  g_Role :: string
  readOnly :: bool
  writeBlockReason :: string

definition NewShardGuard :: "int \<Rightarrow> string \<Rightarrow> bool \<Rightarrow> ShardGuard" where
  "NewShardGuard shardID role ro = \<lparr>g_ShardID = shardID, g_Role = role, readOnly = ro, writeBlockReason = []\<rparr>"

definition SetReadOnly :: "bool \<Rightarrow> ShardGuard \<Rightarrow> ShardGuard" where
  "SetReadOnly v g = g\<lparr>readOnly := v\<rparr>"

definition SetWriteBlockReason :: "string \<Rightarrow> ShardGuard \<Rightarrow> ShardGuard" where
  "SetWriteBlockReason reason g = g\<lparr>writeBlockReason := TrimSpace reason\<rparr>"

definition EqualFold :: "string \<Rightarrow> string \<Rightarrow> bool" where
  "EqualFold a b \<longleftrightarrow> ToLower a = ToLower b"

definition writeAllowed :: "ShardGuard option \<Rightarrow> bool" where
  "writeAllowed g = (case g of None \<Rightarrow> True
     | Some g \<Rightarrow> \<not> readOnly g \<and> \<not> EqualFold (g_Role g) ''replica'' \<and> writeBlockReason g = [])"

subsection \<open>Server and requests\<close>

record ('s, 'b) Server =
  ss_service :: "('s, 'b) service"
  ss_guard :: "ShardGuard option"

definition NewServer :: "('s, 'b) service \<Rightarrow> ('s, 'b) Server" where
  "NewServer sv = \<lparr>ss_service = sv, ss_guard = None\<rparr>"

definition NewShardServer :: "Config \<Rightarrow> ('s, 'b) service \<Rightarrow> ('s, 'b) Server" where
  "NewShardServer cfg sv = (NewServer sv)\<lparr>ss_guard := Some (NewShardGuard (cfg_ShardID cfg) (cfg_ShardRole cfg) (cfg_ShardReadOnly cfg))\<rparr>"

datatype route = PostPackages | GetPackages string | GetPackageFiles string string | GetPackageOriginal string
  | InternalStats | InternalSeal | InternalSegments | InternalSegment string

fun route_method :: "route \<Rightarrow> string" where
  "route_method PostPackages = ''POST''"
| "route_method InternalSeal = ''POST''"
| "route_method _ = ''GET''"

fun route_path :: "route \<Rightarrow> string" where
  "route_path PostPackages = ''/v1/packages''"
| "route_path (GetPackages i) = ''/v1/packages/'' @ i"
| "route_path (GetPackageFiles i f) = ''/v1/packages/'' @ i @ ''/files/'' @ f"
| "route_path (GetPackageOriginal i) = ''/v1/packages/'' @ i @ ''/original''"
| "route_path InternalStats = ''/v1/internal/stats''"
| "route_path InternalSeal = ''/v1/internal/seal''"
| "route_path InternalSegments = ''/v1/internal/segments''"
| "route_path (InternalSegment n) = ''/v1/internal/segments/'' @ n"

record api_request =
  rq_supplier_id :: string
  rq_filename :: string
  rq_XClusterKey :: string
  rq_Authorization :: string
  rq_body :: http_body

text \<open>An entry of the data directory: its name, what \<^verbatim>\<open>Info\<close> says and what reading it yields.\<close>

record dir_entry =
  de_name :: string
  de_dir :: bool
  de_info :: "error + int \<times> int"
  de_content :: "error + bytes"

type_synonym data_dir = "error + dir_entry list"

subsection \<open>Bodies, names and types\<close>

definition readBodyLimited :: "http_body \<Rightarrow> int \<Rightarrow> error + bytes" where
  "readBodyLimited b maxBytes = (case hb_bytes b of
       None \<Rightarrow> Inl (Err ''empty body'')
     | Some bs \<Rightarrow>
         (let lim = nat (sint (word_of_int (maxBytes + 1) :: u64)); data = take lim bs in
          if hb_fail b \<noteq> None \<and> length bs < lim then Inl (Err (the (hb_fail b)))
          else if int (length data) > maxBytes then Inl (Err ''payload too large'')
          else if data = [] then Inl (Err ''empty body'') else Inr data))"

definition isClientError :: "error \<Rightarrow> bool" where
  "isClientError err = (let msg = error_text err in
     infix_of ''empty'' msg \<or> infix_of ''unsupported'' msg \<or> infix_of ''too large'' msg
     \<or> infix_of ''unpacked size exceeds'' msg \<or> infix_of ''supplier'' msg)"

definition contentTypeFor :: "string \<Rightarrow> string \<Rightarrow> string" where
  "contentTypeFor role filename = (let low = ToLower filename in
     if role = ''original'' \<and> HasSuffix low ''.zip'' then ''application/zip''
     else if role = ''member'' \<and> HasSuffix low ''.xml'' then ''application/xml''
     else if role = ''unpack_error'' then ''text/plain; charset=utf-8''
     else if HasSuffix low ''.xml'' then ''application/xml''
     else if HasSuffix low ''.zip'' then ''application/zip''
     else ''application/octet-stream'')"

text \<open>\<^verbatim>\<open>mime.FormatMediaType("attachment", map[string]string{"filename": v})\<close>.\<close>

definition isTSpecial :: "char \<Rightarrow> bool" where
  "isTSpecial c \<longleftrightarrow> c \<in> set ''()<>@,;:/[]?='' \<or> c = CHR 0x5C \<or> c = CHR 0x22"

definition isTokenChar :: "char \<Rightarrow> bool" where
  "isTokenChar c \<longleftrightarrow> (let n = of_char c :: nat in 32 < n \<and> n < 127) \<and> \<not> isTSpecial c"

definition needsEncoding :: "string \<Rightarrow> bool" where
  "needsEncoding v \<longleftrightarrow> list_ex (\<lambda>c. let n = of_char c :: nat in (n < 32 \<or> n > 126) \<and> n \<noteq> 9) v"

definition upper_hex :: "nat \<Rightarrow> char" where
  "upper_hex n = ''0123456789ABCDEF'' ! n"

definition percent_char :: "char \<Rightarrow> string" where
  "percent_char c = (let n = of_char c :: nat in
     if n \<le> 32 \<or> n \<ge> 127 \<or> c \<in> {CHR ''*'', CHR 0x27, CHR ''%''} \<or> isTSpecial c
     then [CHR ''%'', upper_hex (n div 16 mod 16), upper_hex (n mod 16)] else [c])"

definition quoted_char :: "char \<Rightarrow> string" where
  "quoted_char c = (if c = CHR 0x22 \<or> c = CHR 0x5C then [CHR 0x5C, c] else [c])"

definition FormatMediaType_filename :: "string \<Rightarrow> string" where
  "FormatMediaType_filename v =
     (if needsEncoding v then ''attachment; filename*=utf-8'' @ [CHR 0x27, CHR 0x27] @ concat (map percent_char v)
      else ''attachment; filename='' @ (if v \<noteq> [] \<and> list_all isTokenChar v then v
        else [CHR 0x22] @ concat (map quoted_char v) @ [CHR 0x22]))"

definition contentDisposition :: "string \<Rightarrow> string" where
  "contentDisposition filename =
     (let filename = (if TrimSpace filename = [] then ''file.bin'' else filename); cd = FormatMediaType_filename filename in
      if cd \<noteq> [] then cd else ''attachment; filename='' @ [CHR 0x22] @ ''file.bin'' @ [CHR 0x22])"

subsection \<open>Packages\<close>

definition file_response :: "int \<Rightarrow> PackageFile \<Rightarrow> fileResponse" where
  "file_response packageID f = \<lparr>fo_FileID = pf_ID f, fo_Role = Role f,
     fo_Filename = (case pf_OriginalFilename f of None \<Rightarrow> [] | Some v \<Rightarrow> v), fo_Size = pf_Size f, fo_Sequence = SequenceNumber f,
     fo_DownloadURL = ''/v1/packages/'' @ itoa packageID @ ''/files/'' @ itoa (pf_ID f)\<rparr>"

definition unpack_status :: "Config \<Rightarrow> Package \<Rightarrow> string \<times> string" where
  "unpack_status cfg p =
     (if PayloadType_of p \<noteq> payload_text PayloadZIP then ([], [])
      else if StorageMode p = ''raw_large'' then (if LargeZipAsyncUnpack cfg then ''pending'' else ''skipped'', [])
      else if StorageMode p = ''zip_with_members'' then (case UnpackError p of Some e \<Rightarrow> (''failed'', e) | None \<Rightarrow> (''ok'', []))
      else ([], []))"

definition buildPackageResponse :: "Config \<Rightarrow> Package \<Rightarrow> packageResponse" where
  "buildPackageResponse cfg p = \<lparr>po_PackageID = pk_ID p, po_SupplierID = pk_SupplierID p, po_PayloadType = PayloadType_of p,
     po_StorageMode = StorageMode p, po_ReceivedAt = pk_ReceivedAt p, po_OriginalFilename = pk_OriginalFilename p,
     po_FileCount = FileCount p, po_Files = map (file_response (pk_ID p)) (Files p),
     po_Self = ''/v1/packages/'' @ itoa (pk_ID p), po_Original = ''/v1/packages/'' @ itoa (pk_ID p) @ ''/original'',
     po_UnpackStatus = fst (unpack_status cfg p), po_UnpackError = snd (unpack_status cfg p)\<rparr>"

text \<open>A handler that dereferences a nil package panics; the recoverer answers 500 without a body.\<close>

definition panic_answer :: api_answer where
  "panic_answer = \<lparr>aa_status = 500, aa_type = [], aa_disposition = None, aa_length = None, aa_body = ApiBytes []\<rparr>"

definition postPackage_shard :: "('s, 'b) libs \<Rightarrow> zip_reader \<Rightarrow> Config \<Rightarrow> api_request \<Rightarrow> ('s, 'b) service \<Rightarrow> api_answer \<times> ('s, 'b) service" where
  "postPackage_shard L zr cfg rq sv = (case ParseQuery (rq_supplier_id rq) of
       Inl e \<Rightarrow> (api_error 400 (error_text e), sv)
     | Inr supplierID \<Rightarrow> (case readBodyLimited (rq_body rq) (MaxBodyBytes cfg) of
           Inl e \<Rightarrow> (if infix_of ''too large'' (error_text e) then api_error 413 ''payload_too_large'' else api_error 400 (error_text e), sv)
         | Inr body \<Rightarrow>
             (case ProcessPackage L zr cfg supplierID body (if rq_filename rq \<noteq> [] then Some (rq_filename rq) else None) sv of
                (Inl e, sv) \<Rightarrow> (api_error (if isClientError e then 400 else 500) (error_text e), sv)
              | (Inr None, sv) \<Rightarrow> (panic_answer, sv)
              | (Inr (Some p), sv) \<Rightarrow> (writeJSON_api 201 (ApiPackage (buildPackageResponse cfg p)), sv))))"

definition getPackage_shard :: "Config \<Rightarrow> string \<Rightarrow> ('s, 'b) service \<Rightarrow> api_answer \<times> ('s, 'b) service" where
  "getPackage_shard cfg idv sv = (case Atoi idv of
       None \<Rightarrow> (api_error 400 (parse_error idv), sv)
     | Some i \<Rightarrow> (case on_repo (GetPackage i) sv of
           (Inl e, sv) \<Rightarrow> (api_error 500 (error_text e), sv)
         | (Inr None, sv) \<Rightarrow> (api_error 404 ''package not found'', sv)
         | (Inr (Some p), sv) \<Rightarrow> (writeJSON_api 200 (ApiPackage (buildPackageResponse cfg p)), sv)))"

definition file_answer :: "PackageFile \<Rightarrow> bytes \<Rightarrow> api_answer" where
  "file_answer f data = (let filename = (case pf_OriginalFilename f of None \<Rightarrow> ''file'' | Some v \<Rightarrow> v) in
     \<lparr>aa_status = 200, aa_type = contentTypeFor (Role f) filename, aa_disposition = Some (contentDisposition filename),
      aa_length = Some (int (length data)), aa_body = ApiBytes data\<rparr>)"

definition serveFile :: "('s, 'b) libs \<Rightarrow> int \<Rightarrow> int \<Rightarrow> ('s, 'b) service \<Rightarrow> api_answer \<times> ('s, 'b) service" where
  "serveFile L packageID fileID sv = (case on_repo (GetPackageFile packageID fileID) sv of
       (Inl e, sv) \<Rightarrow> (api_error 500 (error_text e), sv)
     | (Inr None, sv) \<Rightarrow> (api_error 404 ''file not found'', sv)
     | (Inr (Some f), sv) \<Rightarrow> (case on_repo (GetBlob (BlobHash f)) sv of
           (Inr (Some b), sv) \<Rightarrow>
             (case on_shard (\<lambda>st. case ReadBlob (lib_zstd L) b (sh_blobs st) of (r, bs) \<Rightarrow> (r, st\<lparr>sh_blobs := bs\<rparr>)) sv of
                (Inl e, sv) \<Rightarrow> (api_error 500 (error_text e), sv)
              | (Inr data, sv) \<Rightarrow> (file_answer f data, sv))
         | (_, sv) \<Rightarrow> (api_error 500 ''blob not found'', sv)))"

definition getFile_shard :: "('s, 'b) libs \<Rightarrow> string \<Rightarrow> string \<Rightarrow> ('s, 'b) service \<Rightarrow> api_answer \<times> ('s, 'b) service" where
  "getFile_shard L idv fidv sv = (case Atoi idv of
       None \<Rightarrow> (api_error 400 (parse_error idv), sv)
     | Some i \<Rightarrow> (case Atoi fidv of None \<Rightarrow> (api_error 400 ''invalid file_id'', sv) | Some fid \<Rightarrow> serveFile L i fid sv))"

definition getOriginal_shard :: "('s, 'b) libs \<Rightarrow> string \<Rightarrow> ('s, 'b) service \<Rightarrow> api_answer \<times> ('s, 'b) service" where
  "getOriginal_shard L idv sv = (case Atoi idv of
       None \<Rightarrow> (api_error 400 (parse_error idv), sv)
     | Some i \<Rightarrow> (case on_repo (GetOriginalFile i) sv of
           (Inl e, sv) \<Rightarrow> (api_error 500 (error_text e), sv)
         | (Inr None, sv) \<Rightarrow> (api_error 404 ''original not found'', sv)
         | (Inr (Some f), sv) \<Rightarrow> serveFile L i (pf_ID f) sv))"

subsection \<open>Internal endpoints\<close>

definition internalAuthKey :: "Config \<Rightarrow> string" where
  "internalAuthKey cfg = (if TrimSpace (cfg_ClusterKey cfg) \<noteq> [] then TrimSpace (cfg_ClusterKey cfg) else TrimSpace (ShardClusterKey cfg))"

definition internalKeyFromRequest :: "api_request \<Rightarrow> string" where
  "internalKeyFromRequest rq =
     (if TrimSpace (rq_XClusterKey rq) \<noteq> [] then TrimSpace (rq_XClusterKey rq)
      else let auth = TrimSpace (rq_Authorization rq) in
        if take 7 (ToLower auth) = ''bearer '' then TrimSpace (drop 7 auth) else [])"

definition requireClusterKey :: "Config \<Rightarrow> api_request \<Rightarrow> (('s, 'b) Server \<Rightarrow> api_answer \<times> ('s, 'b) Server) \<Rightarrow> ('s, 'b) Server
    \<Rightarrow> api_answer \<times> ('s, 'b) Server" where
  "requireClusterKey cfg rq next s =
     (if internalAuthKey cfg = [] then (api_error 503 ''internal endpoints disabled: cluster key not configured'', s)
      else if internalKeyFromRequest rq \<noteq> internalAuthKey cfg then (api_error 401 ''invalid or missing cluster key'', s)
      else next s)"

definition on_service_segments :: "(SegmentManager \<Rightarrow> (SegmentManager, 'a) result) \<Rightarrow> ('s, 'b) service \<Rightarrow> (('s, 'b) service, 'a) result" where
  "on_service_segments f = on_shard (\<lambda>st. case f (segments (sh_blobs st)) of
     (r, sm) \<Rightarrow> (r, st\<lparr>sh_blobs := (sh_blobs st)\<lparr>segments := sm\<rparr>\<rparr>))"

definition internal_stats :: "ShardGuard \<Rightarrow> ('s, 'b) Server \<Rightarrow> api_answer \<times> ('s, 'b) Server" where
  "internal_stats g s = (case on_service_segments TotalBytes (ss_service s) of
       (Inl e, sv) \<Rightarrow> (api_error 500 (error_text e), s\<lparr>ss_service := sv\<rparr>)
     | (Inr n, sv) \<Rightarrow> (writeJSON_api 200 (ApiStats \<lparr>so_ShardID = g_ShardID g, so_Role = g_Role g, so_ReadOnly = readOnly g,
          so_WriteBlockReason = writeBlockReason g, so_TotalBytes = int n\<rparr>), s\<lparr>ss_service := sv\<rparr>))"

definition internal_seal :: "ShardGuard \<Rightarrow> ('s, 'b) Server \<Rightarrow> api_answer \<times> ('s, 'b) Server" where
  "internal_seal g s =
     (if \<not> EqualFold (g_Role g) ''primary'' then (api_error 403 ''only primary can seal'', s)
      else (writeJSON_api 200 (ApiStatus ''sealed''), s\<lparr>ss_guard := Some (SetReadOnly True g)\<rparr>))"

definition allowedInternalSyncFile :: "string \<Rightarrow> bool" where
  "allowedInternalSyncFile name \<longleftrightarrow>
     (take 8 name = ''segment_'' \<and> (HasSuffix name ''.dat'' \<or> HasSuffix name ''.idx'')) \<or> name = ''ingest_journal.ndjson''"

definition fileSHA256 :: "error + bytes \<Rightarrow> error + string" where
  "fileSHA256 content = (case content of Inl e \<Rightarrow> Inl e | Inr bs \<Rightarrow> Inr (hex_EncodeToString (Sum256 bs)))"

definition segment_info :: "dir_entry \<Rightarrow> segmentFileInfo option" where
  "segment_info e =
     (if de_dir e \<or> \<not> allowedInternalSyncFile (de_name e) then None
      else case de_info e of
        Inl _ \<Rightarrow> None
      | Inr (sz, mtime) \<Rightarrow> (case fileSHA256 (de_content e) of
            Inl _ \<Rightarrow> None
          | Inr digest \<Rightarrow> Some \<lparr>sf_Name = de_name e, sf_Size = sz, sf_SHA256 = digest, sf_ModifiedUnix = mtime\<rparr>))"

text \<open>The order of strings: byte by byte.\<close>

definition string_key :: "string \<Rightarrow> nat list" where
  "string_key v = map of_char v"

fun bytes_less :: "nat list \<Rightarrow> nat list \<Rightarrow> bool" where
  "bytes_less _ [] = False"
| "bytes_less [] (_ # _) = True"
| "bytes_less (a # as) (b # bs) = (a < b \<or> a = b \<and> bytes_less as bs)"

fun insert_info :: "segmentFileInfo \<Rightarrow> segmentFileInfo list \<Rightarrow> segmentFileInfo list" where
  "insert_info x [] = [x]"
| "insert_info x (y # ys) = (if bytes_less (string_key (sf_Name y)) (string_key (sf_Name x)) then y # insert_info x ys else x # y # ys)"

definition sort_infos :: "segmentFileInfo list \<Rightarrow> segmentFileInfo list" where
  "sort_infos xs = foldr insert_info xs []"

definition internal_segments :: "data_dir \<Rightarrow> ('s, 'b) Server \<Rightarrow> api_answer \<times> ('s, 'b) Server" where
  "internal_segments dir s = (case dir of
       Inl e \<Rightarrow> (api_error 500 (error_text e), s)
     | Inr entries \<Rightarrow> (writeJSON_api 200 (ApiSegments (sort_infos (List.map_filter segment_info entries))), s))"

text \<open>\<^verbatim>\<open>filepath.Base\<close> of a name: what follows its last slash, trailing slashes stripped.\<close>

definition filepath_Base :: "string \<Rightarrow> string" where
  "filepath_Base path =
     (if path = [] then ''.''
      else let p = rev (dropWhile (\<lambda>c. c = CHR ''/'') (rev path)) in
        if p = [] then ''/'' else rev (takeWhile (\<lambda>c. c \<noteq> CHR ''/'') (rev p)))"

definition internal_segment :: "(string \<Rightarrow> error + bytes) \<Rightarrow> string \<Rightarrow> ('s, 'b) Server \<Rightarrow> api_answer \<times> ('s, 'b) Server" where
  "internal_segment readFile name s =
     (if filepath_Base name \<noteq> name \<or> \<not> allowedInternalSyncFile name then (api_error 404 ''segment not found'', s)
      else case readFile name of
        Inl _ \<Rightarrow> (api_error 404 ''segment not found'', s)
      | Inr data \<Rightarrow> (\<lparr>aa_status = 200, aa_type = ''application/octet-stream'', aa_disposition = None, aa_length = None,
          aa_body = ApiBytes data\<rparr>, s))"

subsection \<open>Router\<close>

definition not_mounted :: api_answer where
  "not_mounted = \<lparr>aa_status = 404, aa_type = ''text/plain; charset=utf-8'', aa_disposition = None, aa_length = None, aa_body = ApiBytes []\<rparr>"

definition on_service :: "(('s, 'b) service \<Rightarrow> api_answer \<times> ('s, 'b) service) \<Rightarrow> ('s, 'b) Server \<Rightarrow> api_answer \<times> ('s, 'b) Server" where
  "on_service h s = (case h (ss_service s) of (a, sv) \<Rightarrow> (a, s\<lparr>ss_service := sv\<rparr>))"

definition mountInternal :: "Config \<Rightarrow> api_request
    \<Rightarrow> (ShardGuard \<Rightarrow> ('s, 'b) Server \<Rightarrow> api_answer \<times> ('s, 'b) Server) \<Rightarrow> ('s, 'b) Server \<Rightarrow> api_answer \<times> ('s, 'b) Server" where
  "mountInternal cfg rq h s = (case ss_guard s of
       None \<Rightarrow> (not_mounted, s)
     | Some g \<Rightarrow> requireClusterKey cfg rq (h g) s)"

fun dispatch :: "('s, 'b) libs \<Rightarrow> zip_reader \<Rightarrow> Config \<Rightarrow> data_dir \<Rightarrow> (string \<Rightarrow> error + bytes) \<Rightarrow> route \<Rightarrow> api_request \<Rightarrow> ('s, 'b) Server
    \<Rightarrow> api_answer \<times> ('s, 'b) Server" where
  "dispatch L zr cfg dir readFile PostPackages rq s = on_service (postPackage_shard L zr cfg rq) s"
| "dispatch L zr cfg dir readFile (GetPackages i) rq s = on_service (getPackage_shard cfg i) s"
| "dispatch L zr cfg dir readFile (GetPackageFiles i f) rq s = on_service (getFile_shard L i f) s"
| "dispatch L zr cfg dir readFile (GetPackageOriginal i) rq s = on_service (getOriginal_shard L i) s"
| "dispatch L zr cfg dir readFile InternalStats rq s = mountInternal cfg rq internal_stats s"
| "dispatch L zr cfg dir readFile InternalSeal rq s = mountInternal cfg rq internal_seal s"
| "dispatch L zr cfg dir readFile InternalSegments rq s = mountInternal cfg rq (\<lambda>_. internal_segments dir) s"
| "dispatch L zr cfg dir readFile (InternalSegment n) rq s = mountInternal cfg rq (\<lambda>_. internal_segment readFile n) s"

definition middleware :: "(('s, 'b) Server \<Rightarrow> api_answer \<times> ('s, 'b) Server) \<Rightarrow> route \<Rightarrow> ('s, 'b) Server \<Rightarrow> api_answer \<times> ('s, 'b) Server" where
  "middleware next rt s = (case ss_guard s of
       None \<Rightarrow> next s
     | Some g \<Rightarrow>
         if route_method rt = ''POST'' \<and> take 12 (route_path rt) = ''/v1/packages'' \<and> \<not> writeAllowed (ss_guard s)
         then (if EqualFold (writeBlockReason g) ''disk_full'' then api_error 507 ''insufficient_storage''
               else api_error 403 ''shard is read-only'', s)
         else next s)"

definition Router :: "('s, 'b) libs \<Rightarrow> zip_reader \<Rightarrow> Config \<Rightarrow> data_dir \<Rightarrow> (string \<Rightarrow> error + bytes) \<Rightarrow> route \<Rightarrow> api_request \<Rightarrow> ('s, 'b) Server
    \<Rightarrow> api_answer \<times> ('s, 'b) Server" where
  "Router L zr cfg dir readFile rt rq = middleware (dispatch L zr cfg dir readFile rt rq) rt"

subsection \<open>A running shard\<close>

text \<open>Requests, jobs of the unpack queue, and the disk monitor that blocks and unblocks writes.\<close>

datatype server_event = Http data_dir "string \<Rightarrow> error + bytes" route api_request | Job int | Block string

fun server_step :: "('s, 'b) libs \<Rightarrow> zip_reader \<Rightarrow> Config \<Rightarrow> server_event \<Rightarrow> ('s, 'b) Server \<Rightarrow> ('s, 'b) Server" where
  "server_step L zr cfg (Http dir readFile rt rq) s = snd (Router L zr cfg dir readFile rt rq s)"
| "server_step L zr cfg (Job i) s = s\<lparr>ss_service := snd (UnpackLargePackage L zr cfg i (ss_service s))\<rparr>"
| "server_step L zr cfg (Block reason) s = s\<lparr>ss_guard := map_option (SetWriteBlockReason reason) (ss_guard s)\<rparr>"

fun run_server :: "('s, 'b) libs \<Rightarrow> zip_reader \<Rightarrow> Config \<Rightarrow> server_event list \<Rightarrow> ('s, 'b) Server \<Rightarrow> ('s, 'b) Server" where
  "run_server L zr cfg [] s = s"
| "run_server L zr cfg (e # es) s = run_server L zr cfg es (server_step L zr cfg e s)"

lemmas api_defs = Router_def middleware_def mountInternal_def requireClusterKey_def on_service_def

definition sealed :: "('s, 'b) Server \<Rightarrow> bool" where
  "sealed s \<longleftrightarrow> (\<exists>g. ss_guard s = Some g \<and> readOnly g)"

lemma on_service_guard: "ss_guard (snd (on_service h s)) = ss_guard s"
  by (simp add: on_service_def split: prod.split)

lemma guard_mount:
  "ss_guard (snd (mountInternal cfg rq h s)) = ss_guard s
   \<or> (\<exists>g. ss_guard s = Some g \<and> ss_guard (snd (mountInternal cfg rq h s)) = ss_guard (snd (h g s)))"
  by (simp add: mountInternal_def requireClusterKey_def split: option.split)

lemma internal_guard: "ss_guard (snd (internal_stats g s)) = ss_guard s" "ss_guard (snd (internal_segments dir s)) = ss_guard s"
  "ss_guard (snd (internal_segment readFile n s)) = ss_guard s"
  by (auto simp: internal_stats_def internal_segments_def internal_segment_def split: prod.split sum.split)

lemma sealed_dispatch: "sealed s \<Longrightarrow> sealed (snd (dispatch L zr cfg dir readFile rt rq s))"
proof -
  assume s: "sealed s"
  have m: "sealed (snd (mountInternal cfg rq h s))" if "\<And>g. ss_guard s = Some g \<Longrightarrow> readOnly g \<Longrightarrow> sealed (snd (h g s))" for h
    using guard_mount [of cfg rq h s] s that by (auto simp: sealed_def)
  have sl: "sealed (snd (internal_seal g s))" if "ss_guard s = Some g" "readOnly g" for g
    using that by (auto simp: internal_seal_def sealed_def SetReadOnly_def)
  from s show ?thesis
    by (cases rt) (auto simp: on_service_guard internal_guard sealed_def [of "snd (on_service _ s)"] sealed_def [of s] intro!: m sl,
      auto simp: sealed_def internal_guard)
qed

lemma sealed_Router: "sealed s \<Longrightarrow> sealed (snd (Router L zr cfg dir readFile rt rq s))"
  using sealed_dispatch [of s L zr cfg dir readFile rt rq]
  by (auto simp: Router_def middleware_def split: option.split)

lemma sealed_step: "sealed s \<Longrightarrow> sealed (server_step L zr cfg e s)"
  by (cases e) (auto simp: sealed_Router, auto simp: sealed_def SetWriteBlockReason_def)

lemma sealed_run: "sealed s \<Longrightarrow> sealed (run_server L zr cfg es s)"
  by (induction es arbitrary: s) (auto intro: sealed_step)

lemma sealed_refuses:
  "sealed s \<Longrightarrow> \<exists>b. Router L zr cfg dir readFile PostPackages rq s = (b, s) \<and> aa_status b \<in> {403, 507}"
  by (auto simp: sealed_def Router_def middleware_def writeAllowed_def writeJSON_api_def)

text \<open>
  C28 (safety). Once a shard has acknowledged its seal it refuses every package that arrives later, whatever
  requests, unpack jobs and changes of the disk monitor come between, and a refused package changes nothing.
\<close>

theorem sealed_shard_refuses_writes:
  assumes "Router L zr cfg dir readFile InternalSeal rq s = (a, s1)" and "aa_status a = 200" and "s2 = run_server L zr cfg es s1"
  shows "\<exists>b. Router L zr cfg dir' readFile' PostPackages rq' s2 = (b, s2) \<and> aa_status b \<in> {403, 507}"
proof -
  have "sealed s1"
    using assms(1,2) by (auto simp: api_defs internal_seal_def SetReadOnly_def sealed_def writeJSON_api_def not_mounted_def split: option.splits if_splits)
  with sealed_refuses [OF sealed_run] assms(3) show ?thesis by blast
qed

text \<open>A primary shard with the cluster key of \<open>sample_config\<close>.\<close>

definition sample_server :: "(memoryStore, bytes list) Server" where
  "sample_server = NewShardServer sample_config empty_service"

definition sample_request :: api_request where
  "sample_request = \<lparr>rq_supplier_id = ''5'', rq_filename = [], rq_XClusterKey = '' k '', rq_Authorization = [],
     rq_body = \<lparr>hb_bytes = Some sample_xml, hb_fail = None\<rparr>\<rparr>"

lemma sample_seal: "\<exists>s1. Router L zr sample_config dir readFile InternalSeal sample_request sample_server = (writeJSON_api 200 (ApiStatus ''sealed''), s1)"
proof -
  have k: "internalAuthKey sample_config = ''k''" "internalKeyFromRequest sample_request = ''k''" "EqualFold ''primary'' ''primary''" by code_simp+
  show ?thesis
    by (simp add: api_defs sample_server_def NewShardServer_def NewServer_def k internal_seal_def NewShardGuard_def) (simp add: sample_config_def k)
qed

theorem sealed_shard_refuses_writes_witness:
  "\<exists>s1 b. Router sample_libs no_zip sample_config (Inr []) (\<lambda>_. Inl (Err ''gone'')) InternalSeal sample_request sample_server
        = (writeJSON_api 200 (ApiStatus ''sealed''), s1)
    \<and> Router sample_libs no_zip sample_config (Inr []) (\<lambda>_. Inl (Err ''gone'')) PostPackages sample_request (run_server sample_libs no_zip sample_config [Block [], Job 1] s1)
        = (b, run_server sample_libs no_zip sample_config [Block [], Job 1] s1)
    \<and> aa_status b \<in> {403, 507}"
proof -
  obtain s1 where s1: "Router sample_libs no_zip sample_config (Inr []) (\<lambda>_. Inl (Err ''gone'')) InternalSeal sample_request sample_server
      = (writeJSON_api 200 (ApiStatus ''sealed''), s1)" using sample_seal by blast
  have "aa_status (writeJSON_api 200 (ApiStatus ''sealed'')) = 200" by (simp add: writeJSON_api_def)
  from sealed_shard_refuses_writes [OF s1 this refl] s1 show ?thesis by blast
qed

text \<open>
  C29 (safety). Without the configured cluster key, and always when none is configured, an internal
  endpoint changes nothing and discloses nothing.
\<close>

theorem internal_requires_cluster_key:
  assumes "rt \<in> {InternalStats, InternalSeal, InternalSegments, InternalSegment n}"
    and "internalAuthKey cfg = [] \<or> internalKeyFromRequest rq \<noteq> internalAuthKey cfg"
  shows "\<exists>a. Router L zr cfg dir readFile rt rq s = (a, s) \<and> aa_status a \<in> {401, 403, 404, 503} \<and> (a = not_mounted \<or> (\<exists>m. aa_body a = ApiError m))"
  using assms by (auto simp: api_defs writeJSON_api_def not_mounted_def split: option.split)

theorem internal_requires_cluster_key_witness:
  "\<exists>a. Router sample_libs no_zip sample_config (Inr []) (\<lambda>_. Inr [1]) (InternalSegment ''segment_0000.dat'')
      (sample_request\<lparr>rq_XClusterKey := ''wrong''\<rparr>) sample_server = (a, sample_server) \<and> aa_status a \<in> {401, 403, 404, 503}"
proof -
  have "internalAuthKey sample_config = [] \<or> internalKeyFromRequest (sample_request\<lparr>rq_XClusterKey := ''wrong''\<rparr>) \<noteq> internalAuthKey sample_config"
    by code_simp
  from internal_requires_cluster_key [OF _ this, of "InternalSegment ''segment_0000.dat''"] show ?thesis by blast
qed

text \<open>
  Whatever bytes a file name holds, the header made of it consists of printable ASCII
  characters and tabs, so that a name cannot end the line or start another header.
\<close>

theorem contentDisposition_single_line:
  "list_all (\<lambda>c. let n = of_char c :: nat in 32 \<le> n \<and> n \<le> 126 \<or> n = 9) (contentDisposition filename)"
proof -
  let ?ok = "\<lambda>c. let n = of_char c :: nat in 32 \<le> n \<and> n \<le> 126 \<or> n = 9"
  have hex: "?ok (upper_hex (k mod 16))" for k
  proof -
    have "\<forall>i<16. ?ok (upper_hex i)" by code_simp
    then show ?thesis by simp
  qed
  have "list_all ?ok (percent_char c)" for c
    using hex [of "of_char c div 16"] hex [of "of_char c"] by (auto simp: percent_char_def Let_def)
  then have p: "list_all ?ok (concat (map percent_char v))" for v by (induction v) auto
  have q: "list_all ?ok (concat (map quoted_char v))" if "list_all ?ok v" for v using that by (induction v) (auto simp: quoted_char_def)
  have plain: "list_all ?ok v" if "\<not> needsEncoding v" for v
    using that by (auto simp: needsEncoding_def list_all_iff list_ex_iff Let_def)
  have const: "list_all ?ok ''attachment; filename*=utf-8''" "list_all ?ok ''attachment; filename=''" "list_all ?ok ''file.bin''"
    "?ok (CHR 0x27)" "?ok (CHR 0x22)" by code_simp+
  have "list_all ?ok (FormatMediaType_filename v)" for v
    using p [of v] q [of v] plain [of v] const by (auto simp: FormatMediaType_filename_def)
  then show ?thesis using const by (auto simp: contentDisposition_def Let_def)
qed

subsection \<open>Reading over HTTP\<close>

lemma same_files_trans: "same_files a b \<Longrightarrow> same_files b c \<Longrightarrow> same_files a c"
  by (simp add: same_files_def)

lemma same_files_sum_sizes: "same_files s (snd (sum_sizes ns t s))"
proof (induction ns arbitrary: t s)
  case Nil
  then show ?case by (simp add: same_files_def)
next
  case (Cons n ns)
  obtain r s1 where st: "on_disk (os_Stat n) s = (r, s1)" by fastforce
  then have "same_files s s1" by (auto simp: on_disk_def same_files_def split: prod.splits dest: os_Stat_frame)
  with st Cons same_files_trans show ?case by (auto split: sum.split prod.split)
qed

lemma same_files_TotalBytes: "same_files s (snd (TotalBytes s))"
proof -
  obtain r s1 where d: "on_disk os_ReadDir s = (r, s1)" by fastforce
  then have "same_files s s1" by (auto simp: on_disk_def same_files_def split: prod.splits dest: os_ReadDir_frame)
  with d same_files_trans [OF _ same_files_sum_sizes] show ?thesis by (cases r) (auto simp: TotalBytes_def)
qed

lemma grows_segments:
  assumes "same_files (segments (sh_blobs (sv_shard sv))) (snd (f (segments (sh_blobs (sv_shard sv)))))"
  shows "grows zs sv (snd (on_service_segments f sv))"
proof -
  obtain r sm where f: "f (segments (sh_blobs (sv_shard sv))) = (r, sm)" by fastforce
  have "store_keeps (sh_blobs (sv_shard sv)) ((sh_blobs (sv_shard sv))\<lparr>segments := sm\<rparr>)"
    using assms f by (simp add: store_keeps_def same_files_def sm_inv_def live_def stopped_def active_dfile_def durable_def stored_def)
  from shard_inv_keeps [OF _ this] show ?thesis by (simp add: on_service_segments_def on_shard_def f grows_def)
qed

lemma rows_reads: "GetPackageFile i fid d = (r, d') \<Longrightarrow> same_rows d d'" "GetBlob h d = (q, d') \<Longrightarrow> same_rows d d'"
  "GetOriginalFile i d = (v, d') \<Longrightarrow> same_rows d d'"
  using same_rows_pool(1) by (fastforce simp: GetPackageFile_def GetBlob_def GetOriginalFile_def)+

lemmas grows_reads = grows_repo(1) [OF _ rows_reads(1)] grows_repo(1) [OF _ rows_reads(2)] grows_repo(1) [OF _ rows_reads(3)]

lemma grows_ReadBlob:
  "grows zs sv (snd (on_shard (\<lambda>st. case ReadBlob z b (sh_blobs st) of (r, bs) \<Rightarrow> (r, st\<lparr>sh_blobs := bs\<rparr>)) sv))"
proof -
  obtain q bs where q: "ReadBlob z b (sh_blobs (sv_shard sv)) = (q, bs)" by fastforce
  with shard_inv_keeps [OF _ ReadBlob_keeps [OF q]] show ?thesis by (simp add: grows_def on_shard_def)
qed

lemma grows_serveFile: "grows zs sv (snd (serveFile L i fid sv))"
proof -
  obtain r s1 where r: "on_repo (GetPackageFile i fid) sv = (r, s1)" by fastforce
  have g1: "grows zs sv s1" using r by (rule grows_reads(1))
  have "grows zs s1 (snd (case on_repo (GetBlob h) s1 of
           (Inr (Some b), sv) \<Rightarrow>
             (case on_shard (\<lambda>st. case ReadBlob (lib_zstd L) b (sh_blobs st) of (r, bs) \<Rightarrow> (r, st\<lparr>sh_blobs := bs\<rparr>)) sv of
                (Inl e, sv) \<Rightarrow> (api_error 500 (error_text e), sv)
              | (Inr data, sv) \<Rightarrow> (file_answer f data, sv))
         | (_, sv) \<Rightarrow> (api_error 500 ''blob not found'', sv)))" for h f
  proof -
    obtain q s2 where q: "on_repo (GetBlob h) s1 = (q, s2)" by fastforce
    have g2: "grows zs s1 s2" using q by (rule grows_reads(2))
    have g3: "grows zs s2 s3" if "on_shard (\<lambda>st. case ReadBlob (lib_zstd L) b (sh_blobs st) of (r, bs) \<Rightarrow> (r, st\<lparr>sh_blobs := bs\<rparr>)) s2 = (v, s3)" for b v s3
      using grows_ReadBlob [of zs s2 "lib_zstd L" b] that by simp
    show ?thesis using q g2 grows_trans [OF g2 g3] by (auto split: sum.split option.split prod.split)
  qed
  with grows_trans [OF g1] g1 r show ?thesis by (auto simp: serveFile_def split: sum.split option.split)
qed

lemma grows_getFile: "grows zs sv (snd (getFile_shard L i f sv))"
  by (auto simp: getFile_shard_def grows_serveFile split: option.split)

lemma grows_getOriginal: "grows zs sv (snd (getOriginal_shard L idv sv))"
proof -
  have "grows zs sv (snd (case on_repo (GetOriginalFile i) sv of
           (Inl e, sv) \<Rightarrow> (api_error 500 (error_text e), sv)
         | (Inr None, sv) \<Rightarrow> (api_error 404 ''original not found'', sv)
         | (Inr (Some f), sv) \<Rightarrow> serveFile L i (pf_ID f) sv))" for i
  proof -
    obtain r s1 where r: "on_repo (GetOriginalFile i) sv = (r, s1)" by fastforce
    have g: "grows zs sv s1" using r by (rule grows_reads(3))
    from r g grows_trans [OF g grows_serveFile] show ?thesis by (auto split: sum.split option.split)
  qed
  then show ?thesis by (auto simp: getOriginal_shard_def split: option.split)
qed

lemma grows_getPackage: "grows zs sv (snd (getPackage_shard cfg idv sv))"
  using grows_GetPackage by (fastforce simp: getPackage_shard_def split: option.split prod.split sum.split)

lemma grows_postPackage: "zstd_laws (lib_zstd L) \<Longrightarrow> grows (lib_zstd L) sv (snd (postPackage_shard L zr cfg rq sv))"
  using ProcessPackage_ingested [of L zr cfg]
  by (fastforce simp: postPackage_shard_def ingested_def split: sum.split prod.split option.split)

lemma grows_dispatch: "zstd_laws (lib_zstd L) \<Longrightarrow> grows (lib_zstd L) (ss_service s) (ss_service (snd (dispatch L zr cfg dir readFile rt rq s)))"
proof -
  assume z: "zstd_laws (lib_zstd L)"
  have o: "ss_service (snd (on_service h s)) = snd (h (ss_service s))" for h by (simp add: on_service_def split: prod.split)
  have m: "grows (lib_zstd L) (ss_service s) (ss_service (snd (mountInternal cfg rq h s)))"
    if "\<And>g. grows (lib_zstd L) (ss_service s) (ss_service (snd (h g s)))" for h
    using that by (auto simp: mountInternal_def requireClusterKey_def split: option.split)
  have st: "grows (lib_zstd L) (ss_service s) (ss_service (snd (internal_stats g s)))" for g
    using grows_segments [of "ss_service s" TotalBytes, OF same_files_TotalBytes] by (auto simp: internal_stats_def split: prod.split sum.split)
  have rest: "ss_service (snd (internal_seal g s)) = ss_service s" "ss_service (snd (internal_segments dir s)) = ss_service s"
      "ss_service (snd (internal_segment readFile n s)) = ss_service s" for g n
    by (auto simp: internal_seal_def internal_segments_def internal_segment_def split: sum.split)
  show ?thesis
    by (cases rt) (auto simp: o rest z intro!: m st grows_getFile grows_getOriginal grows_getPackage grows_postPackage)
qed

lemma grows_Router: "zstd_laws (lib_zstd L) \<Longrightarrow> grows (lib_zstd L) (ss_service s) (ss_service (snd (Router L zr cfg dir readFile rt rq s)))"
  using grows_dispatch [of L s] by (auto simp: Router_def middleware_def split: option.split)

lemma grows_run: "zstd_laws (lib_zstd L) \<Longrightarrow> grows (lib_zstd L) (ss_service s) (ss_service (run_server L zr cfg es s))"
proof (induction es arbitrary: s)
  case (Cons e es)
  have "grows (lib_zstd L) (ss_service s) (ss_service (server_step L zr cfg e s))"
    using grows_Router [OF Cons.prems] grows_UnpackLargePackage [OF Cons.prems surjective_pairing] by (cases e) auto
  with Cons grows_trans show ?case by fastforce
qed simp

text \<open>The outcome of a read outside transactions.\<close>

definition faultless :: "('s, 'b) service \<Rightarrow> bool" where
  "faultless sv \<longleftrightarrow> md_faults (sh_meta (sv_shard sv)) = []"

definition outcome :: "('s, 'b) service \<Rightarrow> error + 'a \<Rightarrow> ('s, 'b) service \<Rightarrow> 'a \<Rightarrow> bool" where
  "outcome sv r sv1 v \<longleftrightarrow> (r = Inr v \<or> (\<exists>e. r = Inl e)) \<and> sh_blobs (sv_shard sv1) = sh_blobs (sv_shard sv)
     \<and> same_rows (sh_meta (sv_shard sv)) (sh_meta (sv_shard sv1)) \<and> (faultless sv \<longrightarrow> r = Inr v \<and> faultless sv1)"

lemma read_outcome:
  assumes "on_repo (pool_stmt (\<lambda>db. (Inr (f db), db))) sv = (r, sv1)" and "\<And>d. same_rows (sh_meta (sv_shard sv)) d \<Longrightarrow> f d = v"
  shows "outcome sv r sv1 v"
proof -
  let ?db = "sh_meta (sv_shard sv)"
  obtain fl d1 where d1: "md_take_fault ?db = (fl, d1)" by fastforce
  note t = same_rows_take_fault [OF d1]
  have v: "f d1 = v" using assms(2) [OF t] .
  obtain q d where q: "pool_stmt (\<lambda>db. (Inr (f db), db)) ?db = (q, d)" by fastforce
  have s1: "sv1 = sv\<lparr>sv_shard := (sv_shard sv)\<lparr>sh_meta := d\<rparr>\<rparr>" "r = q" using assms(1) q by (auto simp: on_shard_def on_tx_def)
  have "d = d1" "q = Inr v \<or> (\<exists>e. q = Inl e)" "fl = Pass \<Longrightarrow> q = Inr v"
    using q d1 v by (auto simp: pool_stmt_def split: fault.splits nat.splits)
  moreover have "faultless sv \<Longrightarrow> fl = Pass \<and> md_faults d1 = []" using d1 by (auto simp: faultless_def md_take_fault_def)
  ultimately show ?thesis using s1 t by (auto simp: outcome_def faultless_def)
qed

lemma GetOriginalFile_outcome:
  "on_repo (GetOriginalFile i) sv = (r, s1)
    \<Longrightarrow> outcome sv r s1 (first_file (files_where (\<lambda>f. pf_PackageID f = i \<and> Role f = ''original'') (sh_meta (sv_shard sv))))"
  unfolding GetOriginalFile_def by (erule read_outcome) (simp add: files_where_rows)

lemma GetPackageFile_outcome:
  "on_repo (GetPackageFile i fid) sv = (r, s1)
    \<Longrightarrow> outcome sv r s1 (first_file (files_where (\<lambda>f. pf_PackageID f = i \<and> pf_ID f = fid) (sh_meta (sv_shard sv))))"
  unfolding GetPackageFile_def by (erule read_outcome) (simp add: files_where_rows)

lemma GetBlob_outcome: "on_repo (GetBlob h) sv = (r, s1) \<Longrightarrow> outcome sv r s1 (find_blob h (sh_meta (sv_shard sv)))"
  unfolding GetBlob_def by (erule read_outcome) (simp add: find_blob_rows)

lemma files_where_elem:
  "g \<in> set (files_where P db) \<longleftrightarrow> (\<exists>f\<in>set (package_files db). P f \<and> join_blob db f = Some g)"
  by (force simp: files_where_def List.map_filter_def image_iff)

lemma join_blob_fields: "join_blob db f = Some g \<Longrightarrow> pf_ID g = pf_ID f \<and> BlobHash g = BlobHash f \<and> has_blob (BlobHash f) db"
  using find_blob_None [of "BlobHash f" db] by (auto simp: join_blob_def)

lemma original_by_id:
  assumes "shard_inv zs st" and "(i, h) \<in> package_keys (sh_meta st)"
  obtains g g' where "first_file (files_where (\<lambda>f. pf_PackageID f = i \<and> Role f = ''original'') (sh_meta st)) = Some g"
    and "first_file (files_where (\<lambda>f. pf_PackageID f = i \<and> pf_ID f = pf_ID g) (sh_meta st)) = Some g'" and "BlobHash g' = h"
proof -
  let ?db = "sh_meta st"
  obtain g where g: "first_file (files_where (\<lambda>f. pf_PackageID f = i \<and> Role f = ''original'') ?db) = Some g" "BlobHash g = h"
    using original_file [OF assms] by blast
  obtain f where f: "f \<in> set (package_files ?db)" "pf_PackageID f = i" "join_blob ?db f = Some g"
    using first_file_SomeD [OF g(1)] by (auto simp: files_where_elem)
  let ?l = "files_where (\<lambda>f. pf_PackageID f = i \<and> pf_ID f = pf_ID g) ?db"
  have "g \<in> set ?l" using f join_blob_fields [OF f(3)] by (auto simp: files_where_elem)
  then obtain g' gs where g': "?l = g' # gs" by (cases ?l) auto
  then obtain f' where f': "f' \<in> set (package_files ?db)" "pf_ID f' = pf_ID g" "join_blob ?db f' = Some g'"
    using files_where_elem [of g' "\<lambda>f. pf_PackageID f = i \<and> pf_ID f = pf_ID g" ?db] by auto
  have "distinct (map pf_ID (package_files ?db))" using assms(1) by (simp add: shard_inv_def store_inv_def md_wf_def)
  then have "f' = f" using f f' join_blob_fields [OF f(3)] by (auto simp: distinct_map dest: inj_onD)
  with f' f have "g' = g" by simp
  with g g' that show thesis by (simp add: first_file_def)
qed

lemma find_blob_backed:
  assumes "shard_inv zs st" and "has_blob h (sh_meta st)"
  obtains b y where "find_blob h (sh_meta st) = Some b" and "blob_content zs (sh_blobs st) b y" and "ContentHash_of y = h"
proof -
  obtain b where b: "find_blob h (sh_meta st) = Some b" using assms(2) find_blob_None [of h "sh_meta st"] by auto
  then have bm: "b \<in> set (content_blobs (sh_meta st))" "ContentHash b = h" by (auto simp: find_blob_def dest: find_SomeD)
  then obtain y where y: "blob_content zs (sh_blobs st) b y"
    using assms(1) by (auto simp: shard_inv_def store_inv_def list_all_iff backed_def)
  with b bm that show thesis by (auto simp: blob_content_def)
qed

lemma file_answer_status: "aa_status (file_answer f data) = 200" "aa_body (file_answer f data) = ApiBytes data"
  "aa_length (file_answer f data) = Some (int (length data))"
  by (simp_all add: file_answer_def Let_def)

lemma serveFile_content:
  assumes "shard_inv (lib_zstd L) (sv_shard sv)" and "first_file (files_where (\<lambda>f. pf_PackageID f = i \<and> pf_ID f = fid) (sh_meta (sv_shard sv))) = Some g"
    and "serveFile L i fid sv = (b, sv')"
  shows "aa_status b = 200 \<Longrightarrow> \<exists>data. aa_body b = ApiBytes data \<and> aa_length b = Some (int (length data)) \<and> ContentHash_of data = BlobHash g"
    and "faultless sv \<Longrightarrow> dio (sdisk (segments (sh_blobs (sv_shard sv)))) = [] \<Longrightarrow> aa_status b = 200"
    and "aa_status b = 200 \<or> aa_status b = 500"
proof -
  let ?db = "sh_meta (sv_shard sv)" and ?h = "BlobHash g"
  obtain r s1 where r: "on_repo (GetPackageFile i fid) sv = (r, s1)" by fastforce
  have o1: "outcome sv r s1 (Some g)" using GetPackageFile_outcome [OF r] assms(2) by simp
  have hb: "has_blob ?h ?db" using first_file_SomeD [OF assms(2)] join_blob_fields by (fastforce simp: files_where_elem)
  obtain x y where x: "find_blob ?h ?db = Some x" "blob_content (lib_zstd L) (sh_blobs (sv_shard sv)) x y" "ContentHash_of y = ?h"
    using find_blob_backed [OF assms(1) hb] by blast
  have sm: "sm_inv (segments (sh_blobs (sv_shard sv)))" using assms(1) by (simp add: shard_inv_def store_inv_def)
  note rd = ReadBlob_content [OF x(2) sm]
  obtain q s2 where q: "on_repo (GetBlob ?h) s1 = (q, s2)" by fastforce
  have o2: "outcome s1 q s2 (Some x)" using GetBlob_outcome [OF q] x(1) find_blob_rows o1 by (metis outcome_def)
  obtain v s3 where v: "on_shard (\<lambda>st. case ReadBlob (lib_zstd L) x (sh_blobs st) of (r, bs) \<Rightarrow> (r, st\<lparr>sh_blobs := bs\<rparr>)) s2 = (v, s3)" by fastforce
  have vr: "v = fst (ReadBlob (lib_zstd L) x (sh_blobs (sv_shard sv)))"
    using v o1 o2 by (auto simp: on_shard_def outcome_def split: prod.splits)
  have b: "b = (case r of Inl e \<Rightarrow> api_error 500 (error_text e) | Inr _ \<Rightarrow> (case q of Inl e \<Rightarrow> api_error 500 ''blob not found'' | Inr _ \<Rightarrow>
      (case v of Inl e \<Rightarrow> api_error 500 (error_text e) | Inr data \<Rightarrow> file_answer g data)))"
    using assms(3) r q v o1 o2 by (cases v) (auto simp: serveFile_def outcome_def)
  show "\<exists>data. aa_body b = ApiBytes data \<and> aa_length b = Some (int (length data)) \<and> ContentHash_of data = ?h" if "aa_status b = 200"
    using that b rd(1) vr x(3) by (auto simp: writeJSON_api_def file_answer_status split: sum.splits)
  show "aa_status b = 200" if "faultless sv" "dio (sdisk (segments (sh_blobs (sv_shard sv)))) = []"
    using b o1 o2 that rd(2) vr by (auto simp: file_answer_status outcome_def)
  show "aa_status b = 200 \<or> aa_status b = 500"
    using b by (auto simp: writeJSON_api_def file_answer_status split: sum.splits)
qed

lemma getOriginal_content:
  assumes "shard_inv (lib_zstd L) (sv_shard sv)" and "(i, h) \<in> package_keys (sh_meta (sv_shard sv))" and "Atoi idv = Some i"
    and "getOriginal_shard L idv sv = (b, sv')"
  shows "aa_status b = 200 \<Longrightarrow> \<exists>data. aa_body b = ApiBytes data \<and> aa_length b = Some (int (length data)) \<and> ContentHash_of data = h"
    and "faultless sv \<Longrightarrow> dio (sdisk (segments (sh_blobs (sv_shard sv)))) = [] \<Longrightarrow> aa_status b = 200"
proof -
  obtain g g' where g: "first_file (files_where (\<lambda>f. pf_PackageID f = i \<and> Role f = ''original'') (sh_meta (sv_shard sv))) = Some g"
    "first_file (files_where (\<lambda>f. pf_PackageID f = i \<and> pf_ID f = pf_ID g) (sh_meta (sv_shard sv))) = Some g'" "BlobHash g' = h"
    using original_by_id [OF assms(1,2)] by blast
  obtain r s1 where r: "on_repo (GetOriginalFile i) sv = (r, s1)" by fastforce
  have o: "outcome sv r s1 (Some g)" using GetOriginalFile_outcome [OF r] g(1) by simp
  then have rows: "sh_blobs (sv_shard s1) = sh_blobs (sv_shard sv)" "same_rows (sh_meta (sv_shard sv)) (sh_meta (sv_shard s1))"
    by (simp_all add: outcome_def)
  have s1: "shard_inv (lib_zstd L) (sv_shard s1)" using shard_inv_rows [OF assms(1) rows] .
  have g1: "first_file (files_where (\<lambda>f. pf_PackageID f = i \<and> pf_ID f = pf_ID g) (sh_meta (sv_shard s1))) = Some g'"
    using g(2) files_where_rows [OF rows(2)] by simp
  obtain c s2 where c: "serveFile L i (pf_ID g) s1 = (c, s2)" by fastforce
  note sf = serveFile_content [OF s1 g1 c]
  have b: "b = (case r of Inl e \<Rightarrow> api_error 500 (error_text e) | Inr _ \<Rightarrow> c)"
    using assms(3,4) r c o by (auto simp: getOriginal_shard_def outcome_def)
  show "\<exists>data. aa_body b = ApiBytes data \<and> aa_length b = Some (int (length data)) \<and> ContentHash_of data = h" if "aa_status b = 200"
    using that b sf(1) g(3) by (auto simp: writeJSON_api_def split: sum.splits)
  show "aa_status b = 200" if "faultless sv" "dio (sdisk (segments (sh_blobs (sv_shard sv)))) = []"
    using b o rows sf(2) that by (simp add: outcome_def)
qed

lemma Atoi_itoa_nonneg: "0 \<le> i \<Longrightarrow> i < 2 ^ 63 \<Longrightarrow> Atoi (itoa i) = Some i"
  using Atoi_itoa [of i] by (simp add: itoa_def)

lemma Router_open:
  "route_method rt = ''GET'' \<Longrightarrow> Router L zr cfg dir readFile rt rq s = dispatch L zr cfg dir readFile rt rq s"
  by (simp add: Router_def middleware_def split: option.split)

lemma postPackage_created:
  assumes "zstd_laws (lib_zstd L)" and "shard_inv (lib_zstd L) (sv_shard sv)"
    and "postPackage_shard L zr cfg rq sv = (a, sv1)" and "aa_status a = 201"
  obtains p body where "aa_body a = ApiPackage (buildPackageResponse cfg p)" and "readBodyLimited (rq_body rq) (MaxBodyBytes cfg) = Inr body"
    and "(pk_ID p, ContentHash_of body) \<in> package_keys (sh_meta (sv_shard sv1))"
proof -
  from assms(3,4) obtain i body p where b: "readBodyLimited (rq_body rq) (MaxBodyBytes cfg) = Inr body"
    and p: "ProcessPackage L zr cfg i body (if rq_filename rq \<noteq> [] then Some (rq_filename rq) else None) sv = (Inr (Some p), sv1)"
    and a: "a = writeJSON_api 201 (ApiPackage (buildPackageResponse cfg p))"
    by (auto simp: postPackage_shard_def writeJSON_api_def panic_answer_def split: sum.splits prod.splits option.splits if_splits)
  from ProcessPackage_ingested [OF assms(1) p] assms(2) have "(pk_ID p, ContentHash_of body) \<in> package_keys (sh_meta (sv_shard sv1))"
    by (auto simp: ingested_def)
  with a b that show thesis by (simp add: writeJSON_api_def)
qed

text \<open>
  C10 (roundtrip). A package that was answered 201 is served for good: after any further requests,
  unpack jobs and failures, a request for its original that is answered 200 carries, with its
  length, content of the hash of the body that was sent; and it is answered 200 when neither the
  files nor the database fail.
\<close>

theorem posted_package_is_served:
  assumes "zstd_laws (lib_zstd L)" and "shard_inv (lib_zstd L) (sv_shard (ss_service s))"
    and "Router L zr cfg dir readFile PostPackages rq s = (a, s1)" and "aa_status a = 201" and "s2 = run_server L zr cfg es s1"
  shows "\<exists>p body. aa_body a = ApiPackage p \<and> readBodyLimited (rq_body rq) (MaxBodyBytes cfg) = Inr body
    \<and> (0 \<le> po_PackageID p \<and> po_PackageID p < 2 ^ 63 \<longrightarrow>
       (let b = fst (Router L zr cfg dir' readFile' (GetPackageOriginal (itoa (po_PackageID p))) rq' s2) in
          (aa_status b = 200 \<longrightarrow> (\<exists>data. aa_body b = ApiBytes data \<and> aa_length b = Some (int (length data))
              \<and> ContentHash_of data = PackageHash_of body))
        \<and> (faultless (ss_service s2) \<and> dio (sdisk (segments (sh_blobs (sv_shard (ss_service s2))))) = [] \<longrightarrow> aa_status b = 200)))"
proof -
  let ?z = "lib_zstd L"
  have "dispatch L zr cfg dir readFile PostPackages rq s = (a, s1)"
    using assms(3,4) by (auto simp: Router_def middleware_def writeJSON_api_def split: option.splits if_splits)
  then obtain sv1 where po: "postPackage_shard L zr cfg rq (ss_service s) = (a, sv1)" "ss_service s1 = sv1"
    by (auto simp: on_service_def split: prod.splits)
  obtain p body where p: "aa_body a = ApiPackage (buildPackageResponse cfg p)" "readBodyLimited (rq_body rq) (MaxBodyBytes cfg) = Inr body"
      "(pk_ID p, ContentHash_of body) \<in> package_keys (sh_meta (sv_shard sv1))"
    using postPackage_created [OF assms(1,2) po(1) assms(4)] by blast
  have "shard_inv ?z (sv_shard sv1)" using grows_postPackage [OF assms(1), of "ss_service s" zr cfg rq] po(1) assms(2) by (simp add: grows_def)
  then have s2: "shard_inv ?z (sv_shard (ss_service s2))" "(pk_ID p, ContentHash_of body) \<in> package_keys (sh_meta (sv_shard (ss_service s2)))"
    using grows_run [OF assms(1), of s1 zr cfg es] p(3) assms(5) po(2) unfolding grows_def by blast+
  have id: "po_PackageID (buildPackageResponse cfg p) = pk_ID p" by (simp add: buildPackageResponse_def)
  obtain b sv2 where b: "getOriginal_shard L (itoa (pk_ID p)) (ss_service s2) = (b, sv2)" by fastforce
  have "fst (Router L zr cfg dir' readFile' (GetPackageOriginal (itoa (pk_ID p))) rq' s2) = b"
    by (simp add: Router_open on_service_def b)
  with getOriginal_content [OF s2 Atoi_itoa_nonneg b] p(1,2) id show ?thesis
    by (intro exI [of _ "buildPackageResponse cfg p"] exI [of _ body]) (simp add: PackageHash_of_def Let_def)
qed

lemma sample_post:
  "\<exists>p s1. Router sample_libs no_zip sample_config (Inr []) (\<lambda>_. Inl (Err ''gone'')) PostPackages sample_request sample_server
       = (writeJSON_api 201 (ApiPackage p), s1) \<and> po_PackageID p = 1
     \<and> faultless (ss_service s1) \<and> dio (sdisk (segments (sh_blobs (sv_shard (ss_service s1))))) = []
     \<and> (\<exists>f. package_files (sh_meta (sv_shard (ss_service s1))) = [f] \<and> pf_PackageID f = 1 \<and> pf_ID f = 1)"
proof -
  have k: "ParseQuery ''5'' = Inr 5" by code_simp
  have rb: "readBodyLimited \<lparr>hb_bytes = Some sample_xml, hb_fail = None\<rparr> (MaxBodyBytes sample_config) = Inr sample_xml"
    by code_simp
  have w: "\<not> EqualFold ''primary'' ''replica''" by code_simp
  have fold: "EqualFold (g_Role (NewShardGuard (cfg_ShardID sample_config) (cfg_ShardRole sample_config) (cfg_ShardReadOnly sample_config))) ''replica'' = False"
    using w by (simp add: NewShardGuard_def sample_config_def)
  have wa: "writeAllowed (ss_guard sample_server)"
    using fold by (simp add: writeAllowed_def sample_server_def NewShardServer_def) (simp add: NewShardGuard_def sample_config_def)
  obtain p sv where p: "ProcessPackage sample_libs no_zip sample_config 5 sample_xml None empty_service = (Inr (Some p), sv)" "pk_ID p = 1"
    "dio (sdisk (segments (sh_blobs (sv_shard sv)))) = []" "md_faults (sh_meta (sv_shard sv)) = []"
    "\<exists>f. package_files (sh_meta (sv_shard sv)) = [f] \<and> pf_PackageID f = 1 \<and> pf_ID f = 1" using sample_process by blast
  have "Router sample_libs no_zip sample_config (Inr []) (\<lambda>_. Inl (Err ''gone'')) PostPackages sample_request sample_server
      = (writeJSON_api 201 (ApiPackage (buildPackageResponse sample_config p)), sample_server\<lparr>ss_service := sv\<rparr>)"
    using wa p(1) by (simp add: Router_def middleware_def on_service_def postPackage_shard_def sample_request_def k rb sample_server_def
        NewShardServer_def NewServer_def)
  with p show ?thesis by (auto simp: faultless_def buildPackageResponse_def)
qed

theorem posted_package_is_served_witness:
  "\<exists>s1. fst (Router sample_libs no_zip sample_config (Inr []) (\<lambda>_. Inl (Err ''gone'')) PostPackages sample_request sample_server) = s1
    \<and> aa_status s1 = 201
    \<and> aa_status (fst (Router sample_libs no_zip sample_config (Inr []) (\<lambda>_. Inl (Err ''gone'')) (GetPackageOriginal (itoa 1)) sample_request
        (snd (Router sample_libs no_zip sample_config (Inr []) (\<lambda>_. Inl (Err ''gone'')) PostPackages sample_request sample_server)))) = 200"
proof -
  let ?r = "Router sample_libs no_zip sample_config (Inr []) (\<lambda>_. Inl (Err ''gone''))"
  obtain p s1 where p: "?r PostPackages sample_request sample_server = (writeJSON_api 201 (ApiPackage p), s1)" "po_PackageID p = 1"
    "faultless (ss_service s1)" "dio (sdisk (segments (sh_blobs (sv_shard (ss_service s1))))) = []" using sample_post by blast
  have L: "zstd_laws (lib_zstd sample_libs)" by (simp add: sample_libs_def run_zstd_laws)
  have i: "shard_inv (lib_zstd sample_libs) (sv_shard (ss_service sample_server))"
    using empty_service_inv by (simp add: sample_libs_def sample_server_def NewShardServer_def NewServer_def)
  have st: "aa_status (writeJSON_api 201 (ApiPackage p)) = 201" by (simp add: writeJSON_api_def)
  from posted_package_is_served [OF L i p(1) st, of s1 "[]" "Inr []" "\<lambda>_. Inl (Err ''gone'')" sample_request] p
  have "aa_status (fst (?r (GetPackageOriginal (itoa 1)) sample_request s1)) = 200" by (auto simp: Let_def writeJSON_api_def)
  with p(1) st show ?thesis by simp
qed

text \<open>The file that a query by package and id returns, in terms of the table.\<close>

lemma file_by_id:
  assumes "md_wf db"
  shows "first_file (files_where (\<lambda>f. pf_PackageID f = i \<and> pf_ID f = fid) db) =
     (case find (\<lambda>f. pf_PackageID f = i \<and> pf_ID f = fid) (package_files db) of None \<Rightarrow> None | Some f \<Rightarrow> join_blob db f)"
proof -
  let ?P = "\<lambda>f. pf_PackageID f = i \<and> pf_ID f = fid"
  have one: "filter ?P (package_files db) = (case find ?P (package_files db) of None \<Rightarrow> [] | Some f \<Rightarrow> [f])"
    if "distinct (map pf_ID (package_files db))"
  proof -
    have "distinct (map pf_ID fs) \<Longrightarrow> filter ?P fs = (case find ?P fs of None \<Rightarrow> [] | Some f \<Rightarrow> [f])" for fs
      by (induction fs) (auto simp: filter_empty_conv image_iff split: option.splits dest!: find_SomeD)
    with that show ?thesis by blast
  qed
  show ?thesis
  proof (cases "find ?P (package_files db)")
    case None
    with one assms show ?thesis by (simp add: files_where_def first_file_def md_wf_def)
  next
    case (Some f)
    then have "f \<in> set (package_files db)" using find_SomeD by fast
    then have "has_blob (BlobHash f) db" using assms by (auto simp: md_wf_def list_all_iff)
    then obtain g where "join_blob db f = Some g" using find_blob_None [of "BlobHash f" db] by (auto simp: join_blob_def)
    with Some one assms show ?thesis by (simp add: files_where_def first_file_def md_wf_def List.map_filter_def)
  qed
qed

text \<open>
  C30 (functional). What a request for a file of a package is answered, on a shard whose stores are
  consistent: 400 when an id is not a number, 404 when the package has no file of that id, and
  else 200 with content of the hash that the file's row names, and its length. The only
  other answer is 500, and only if a file or the database failed.
\<close>

theorem file_request_answered:
  assumes "shard_inv (lib_zstd L) (sv_shard (ss_service s))"
    and "Router L zr cfg dir readFile (GetPackageFiles idv fidv) rq s = (b, s')"
  shows "aa_status b = 500 \<and> \<not> (faultless (ss_service s) \<and> dio (sdisk (segments (sh_blobs (sv_shard (ss_service s))))) = [])
    \<or> (case (Atoi idv, Atoi fidv) of
         (Some i, Some fid) \<Rightarrow>
           (case find (\<lambda>f. pf_PackageID f = i \<and> pf_ID f = fid) (package_files (sh_meta (sv_shard (ss_service s)))) of
              None \<Rightarrow> aa_status b = 404
            | Some f \<Rightarrow> aa_status b = 200 \<and> (\<exists>data. aa_body b = ApiBytes data \<and> aa_length b = Some (int (length data))
                \<and> ContentHash_of data = BlobHash f))
       | _ \<Rightarrow> aa_status b = 400)"
proof -
  let ?sv = "ss_service s" and ?P = "\<lambda>i fid f. pf_PackageID f = i \<and> pf_ID f = fid"
  let ?db = "sh_meta (sv_shard ?sv)"
  obtain sv' where g: "getFile_shard L idv fidv ?sv = (b, sv')"
    using assms(2) by (auto simp: Router_open on_service_def split: prod.splits)
  consider "Atoi idv = None \<or> Atoi fidv = None" | i fid where "Atoi idv = Some i" "Atoi fidv = Some fid" by fastforce
  then show ?thesis
  proof cases
    case 1
    then show ?thesis using g by (auto simp: getFile_shard_def writeJSON_api_def split: option.splits)
  next
    case (2 i fid)
    then have sf: "serveFile L i fid ?sv = (b, sv')" using g by (simp add: getFile_shard_def)
    have wf: "md_wf ?db" using assms(1) by (simp add: shard_inv_def store_inv_def)
    show ?thesis
    proof (cases "find (?P i fid) (package_files ?db)")
      case None
      obtain r s1 where r: "on_repo (GetPackageFile i fid) ?sv = (r, s1)" by fastforce
      then have "outcome ?sv r s1 None" using GetPackageFile_outcome [OF r] file_by_id [OF wf] None by simp
      then show ?thesis using 2 None sf r by (auto simp: serveFile_def outcome_def writeJSON_api_def)
    next
      case (Some f)
      then have "f \<in> set (package_files ?db)" using find_SomeD by fast
      then obtain g where g: "join_blob ?db f = Some g"
        using wf find_blob_None [of "BlobHash f" ?db] by (auto simp: join_blob_def md_wf_def list_all_iff)
      then have ff: "first_file (files_where (?P i fid) ?db) = Some g" using file_by_id [OF wf] Some by simp
      note c = serveFile_content [OF assms(1) ff sf]
      have "BlobHash g = BlobHash f" using join_blob_fields [OF g] by simp
      with c 2 Some show ?thesis by auto
    qed
  qed
qed

theorem file_request_answered_witness:
  "\<exists>s1. snd (Router sample_libs no_zip sample_config (Inr []) (\<lambda>_. Inl (Err ''gone'')) PostPackages sample_request sample_server) = s1
    \<and> map (\<lambda>f. aa_status (fst (Router sample_libs no_zip sample_config (Inr []) (\<lambda>_. Inl (Err ''gone'')) (GetPackageFiles ''1'' f) sample_request s1)))
        [''1'', ''2'', ''x''] = [200, 404, 400]"
proof -
  let ?r = "Router sample_libs no_zip sample_config (Inr []) (\<lambda>_. Inl (Err ''gone''))"
  obtain p s1 where p: "?r PostPackages sample_request sample_server = (writeJSON_api 201 (ApiPackage p), s1)"
    "faultless (ss_service s1)" "dio (sdisk (segments (sh_blobs (sv_shard (ss_service s1))))) = []"
    "(\<exists>f. package_files (sh_meta (sv_shard (ss_service s1))) = [f] \<and> pf_PackageID f = 1 \<and> pf_ID f = 1)" using sample_post by blast
  have L: "zstd_laws (lib_zstd sample_libs)" by (simp add: sample_libs_def run_zstd_laws)
  have "shard_inv (lib_zstd sample_libs) (sv_shard (ss_service sample_server))"
    using empty_service_inv by (simp add: sample_libs_def sample_server_def NewShardServer_def NewServer_def)
  then have i: "shard_inv (lib_zstd sample_libs) (sv_shard (ss_service s1))"
    using grows_Router [OF L, of sample_server no_zip sample_config "Inr []" "\<lambda>_. Inl (Err ''gone'')" PostPackages sample_request] p(1)
    by (simp add: grows_def)
  have n: "Atoi ''1'' = Some 1" "Atoi ''2'' = Some 2" "Atoi ''x'' = None" by code_simp+
  obtain f where f: "package_files (sh_meta (sv_shard (ss_service s1))) = [f]" "pf_PackageID f = 1" "pf_ID f = 1" using p(4) by auto
  have "aa_status (fst (?r (GetPackageFiles ''1'' ''1'') sample_request s1)) = 200"
    "aa_status (fst (?r (GetPackageFiles ''1'' ''2'') sample_request s1)) = 404"
    "aa_status (fst (?r (GetPackageFiles ''1'' ''x'') sample_request s1)) = 400"
    using file_request_answered [OF i prod.collapse [symmetric], of no_zip sample_config "Inr []" "\<lambda>_. Inl (Err ''gone'')" "''1''" "''1''" sample_request]
      file_request_answered [OF i prod.collapse [symmetric], of no_zip sample_config "Inr []" "\<lambda>_. Inl (Err ''gone'')" "''1''" "''2''" sample_request]
      file_request_answered [OF i prod.collapse [symmetric], of no_zip sample_config "Inr []" "\<lambda>_. Inl (Err ''gone'')" "''1''" "''x''" sample_request]
      p(2,3) n f by auto
  with p(1) show ?thesis by simp
qed

end
