(* ===== verification/Disk_Gate.thy ===== *)
theory Disk_Gate
  imports Shard_Api
begin

text \<open>
  The gate that stops writes when the disk runs full (\<^verbatim>\<open>internal/diskspace\<close>, \<^verbatim>\<open>runDiskWriteGate\<close> of
  \<^verbatim>\<open>cmd/server/main.go\<close>). A measurement is what \<^verbatim>\<open>os.Stat\<close> and \<^verbatim>\<open>statfs\<close> report of each path; ticks
  of the gate are events between requests and unpack jobs.
\<close>

subsection \<open>Measuring\<close>

datatype path_state = Missing | StatFails error | Present "error + u64 \<times> i64"

text \<open>Free blocks times block size, in 64 bits.\<close>

definition availableBytes :: "error + u64 \<times> i64 \<Rightarrow> error + i64" where
  "availableBytes r = (case r of Inl e \<Rightarrow> Inl e | Inr (bavail, bsize) \<Rightarrow> Inr (wrap64 (sint bavail * bsize)))"

definition quoted_path :: "string \<Rightarrow> string" where
  "quoted_path p = CHR 0x22 # p @ [CHR 0x22]"

text \<open>The least value so far is absent until the first existing path.\<close>

fun min_available :: "(string \<Rightarrow> path_state) \<Rightarrow> string list \<Rightarrow> i64 option \<Rightarrow> error + i64" where
  "min_available st [] minFree = (case minFree of None \<Rightarrow> Inl (Err ''no existing paths provided'') | Some n \<Rightarrow> Inr n)"
| "min_available st (p # ps) minFree =
     (if p = [] then min_available st ps minFree
      else case st p of
        Missing \<Rightarrow> min_available st ps minFree
      | StatFails e \<Rightarrow> Inl (Wrap (''stat path '' @ quoted_path p @ '': '') e [])
      | Present r \<Rightarrow> (case availableBytes r of
            Inl e \<Rightarrow> Inl (Wrap (''available bytes for '' @ quoted_path p @ '': '') e [])
          | Inr free \<Rightarrow> min_available st ps (Some (case minFree of None \<Rightarrow> free | Some n \<Rightarrow> if free < n then free else n))))"

definition MinAvailableBytes :: "(string \<Rightarrow> path_state) \<Rightarrow> string list \<Rightarrow> error + i64" where
  "MinAvailableBytes st paths = min_available st paths None"

subsection \<open>The gate\<close>

definition gate_running :: "Config \<Rightarrow> ShardGuard option \<Rightarrow> bool" where
  "gate_running cfg guard \<longleftrightarrow> \<not> (guard = None \<or> MinFreeDiskBytes cfg \<le> 0 \<or> DiskCheckInterval cfg \<le> 0) \<and> cfg_ShardRole cfg = ''primary''"

definition resumeThreshold :: "Config \<Rightarrow> i64" where
  "resumeThreshold cfg = wrap64 (MinFreeDiskBytes cfg + DiskResumeHysteresisBytes cfg)"

definition gate_paths :: "Config \<Rightarrow> string list" where
  "gate_paths cfg = [cfg_DataDir cfg, cfg_RocksDBPath cfg]"

definition evaluate :: "Config \<Rightarrow> (string \<Rightarrow> path_state) \<Rightarrow> ShardGuard \<Rightarrow> ShardGuard" where
  "evaluate cfg st guard = (case MinAvailableBytes st (gate_paths cfg) of
       Inl e \<Rightarrow> guard
     | Inr free \<Rightarrow>
         if free < MinFreeDiskBytes cfg then SetWriteBlockReason ''disk_full'' guard
         else if writeBlockReason guard = ''disk_full'' \<and> free \<ge> resumeThreshold cfg then SetWriteBlockReason [] guard
         else guard)"

definition runDiskWriteGate :: "Config \<Rightarrow> (string \<Rightarrow> path_state) \<Rightarrow> ShardGuard option \<Rightarrow> ShardGuard option" where
  "runDiskWriteGate cfg st guard = (if gate_running cfg guard then map_option (evaluate cfg st) guard else guard)"

text \<open>The server with its gate: requests, jobs of the unpack queue and ticks of the gate.\<close>

datatype shard_event = Request data_dir "string \<Rightarrow> error + bytes" route api_request | UnpackJob int | DiskTick "string \<Rightarrow> path_state"

fun shard_step :: "('s, 'b) libs \<Rightarrow> zip_reader \<Rightarrow> Config \<Rightarrow> shard_event \<Rightarrow> ('s, 'b) Server \<Rightarrow> ('s, 'b) Server" where
  "shard_step L zr cfg (Request dir readFile rt rq) s = server_step L zr cfg (Http dir readFile rt rq) s"
| "shard_step L zr cfg (UnpackJob i) s = server_step L zr cfg (Job i) s"
| "shard_step L zr cfg (DiskTick st) s = s\<lparr>ss_guard := runDiskWriteGate cfg st (ss_guard s)\<rparr>"

fun run_shard :: "('s, 'b) libs \<Rightarrow> zip_reader \<Rightarrow> Config \<Rightarrow> shard_event list \<Rightarrow> ('s, 'b) Server \<Rightarrow> ('s, 'b) Server" where
  "run_shard L zr cfg [] s = s"
| "run_shard L zr cfg (e # es) s = run_shard L zr cfg es (shard_step L zr cfg e s)"

subsection \<open>Measurements are minima\<close>

lemma min_available_Inr:
  "min_available st ps m = Inr n \<Longrightarrow>
     (\<exists>p\<in>set ps. p \<noteq> [] \<and> (\<exists>r. st p = Present r \<and> availableBytes r = Inr n)) \<or> m = Some n"
proof (induction st ps m rule: min_available.induct)
  case (2 st p ps m)
  show ?case
  proof (cases "p = []")
    case False
    show ?thesis
    proof (cases "st p")
      case (Present r)
      then obtain f where f: "availableBytes r = Inr f" using 2(4) False by (cases "availableBytes r") auto
      from 2(3) [OF False Present f] 2(4) False Present f show ?thesis by (auto split: option.splits if_splits)
    qed (use 2 False in auto)
  qed (use 2 in simp)
qed (simp split: option.splits)

lemma min_available_le:
  "min_available st ps m = Inr n \<Longrightarrow> (\<forall>p\<in>set ps. \<forall>r k. p \<noteq> [] \<longrightarrow> st p = Present r \<longrightarrow> availableBytes r = Inr k \<longrightarrow> n \<le> k) \<and> (\<forall>k. m = Some k \<longrightarrow> n \<le> k)"
proof (induction st ps m rule: min_available.induct)
  case (2 st p ps m)
  show ?case
  proof (cases "p = []")
    case True
    with 2 show ?thesis by simp
  next
    case False
    show ?thesis
    proof (cases "st p")
      case (Present r)
      then obtain f where f: "availableBytes r = Inr f" using 2(4) False by (cases "availableBytes r") auto
      from 2(3) [OF False Present f] 2(4) False Present f show ?thesis by (fastforce split: option.splits if_splits)
    qed (use 2 False in auto)
  qed
qed (auto split: option.splits)

subsection \<open>Blocking and unblocking\<close>

text \<open>The values the gate saw, and when they leave it closed: a low one not followed by a recovery.\<close>

fun measured :: "Config \<Rightarrow> shard_event list \<Rightarrow> i64 list" where
  "measured cfg [] = []"
| "measured cfg (DiskTick st # es) = (case MinAvailableBytes st (gate_paths cfg) of Inl e \<Rightarrow> measured cfg es | Inr n \<Rightarrow> n # measured cfg es)"
| "measured cfg (e # es) = measured cfg es"

definition recovers :: "Config \<Rightarrow> i64 \<Rightarrow> bool" where
  "recovers cfg n \<longleftrightarrow> max (MinFreeDiskBytes cfg) (resumeThreshold cfg) \<le> n"

definition starved :: "Config \<Rightarrow> i64 list \<Rightarrow> bool" where
  "starved cfg ns \<longleftrightarrow> (\<exists>xs n ys. ns = xs @ n # ys \<and> n < MinFreeDiskBytes cfg \<and> (\<forall>y\<in>set ys. \<not> recovers cfg y))"

fun closed_by :: "Config \<Rightarrow> bool \<Rightarrow> i64 list \<Rightarrow> bool" where
  "closed_by cfg b [] = b"
| "closed_by cfg b (n # ns) = closed_by cfg (n < MinFreeDiskBytes cfg \<or> b \<and> \<not> recovers cfg n) ns"

lemma starved_Cons: "starved cfg (n # ns) \<longleftrightarrow> starved cfg ns \<or> n < MinFreeDiskBytes cfg \<and> (\<forall>y\<in>set ns. \<not> recovers cfg y)"
proof
  assume "starved cfg (n # ns)"
  then obtain xs m ys where x: "n # ns = xs @ m # ys" "m < MinFreeDiskBytes cfg" "\<forall>y\<in>set ys. \<not> recovers cfg y"
    unfolding starved_def by blast
  show "starved cfg ns \<or> n < MinFreeDiskBytes cfg \<and> (\<forall>y\<in>set ns. \<not> recovers cfg y)"
  proof (cases xs)
    case (Cons z zs)
    with x have "ns = zs @ m # ys" by simp
    with x(2,3) have "starved cfg ns" unfolding starved_def by blast
    then show ?thesis ..
  qed (use x in simp)
next
  assume "starved cfg ns \<or> n < MinFreeDiskBytes cfg \<and> (\<forall>y\<in>set ns. \<not> recovers cfg y)"
  then show "starved cfg (n # ns)"
  proof
    assume "starved cfg ns"
    then obtain xs m ys where "ns = xs @ m # ys" "m < MinFreeDiskBytes cfg" "\<forall>y\<in>set ys. \<not> recovers cfg y"
      by (auto simp: starved_def)
    then show ?thesis unfolding starved_def by (intro exI [of _ "n # xs"] exI [of _ m] exI [of _ ys]) simp
  next
    assume "n < MinFreeDiskBytes cfg \<and> (\<forall>y\<in>set ns. \<not> recovers cfg y)"
    then show ?thesis unfolding starved_def by (intro exI [of _ "[]"] exI [of _ n] exI [of _ ns]) simp
  qed
qed

lemma closed_by_starved: "closed_by cfg b ns \<longleftrightarrow> starved cfg ns \<or> b \<and> (\<forall>n\<in>set ns. \<not> recovers cfg n)"
proof (induction ns arbitrary: b)
  case Nil
  show ?case by (simp add: starved_def)
next
  case (Cons n ns)
  then show ?case by (auto simp: starved_Cons recovers_def)
qed

lemma disk_full_trim [simp]: "TrimSpace ''disk_full'' = ''disk_full''" "TrimSpace [] = []"
  by code_simp+

text \<open>Requests and jobs leave the reason and the role of the guard.\<close>

definition same_gate :: "ShardGuard option \<Rightarrow> ShardGuard option \<Rightarrow> bool" where
  "same_gate g h \<longleftrightarrow> (\<forall>x. g = Some x \<longrightarrow> (\<exists>y. h = Some y \<and> writeBlockReason y = writeBlockReason x \<and> g_Role y = g_Role x))"

lemma same_gate_refl [simp]: "same_gate g g"
  by (simp add: same_gate_def)

lemma same_gate_dispatch: "same_gate (ss_guard s) (ss_guard (snd (dispatch L zr cfg dir readFile rt rq s)))"
proof -
  have m: "same_gate (ss_guard s) (ss_guard (snd (mountInternal cfg rq h s)))" if "\<And>g. ss_guard s = Some g \<Longrightarrow> same_gate (ss_guard s) (ss_guard (snd (h g s)))" for h
    using guard_mount [of cfg rq h s] that by auto
  have "same_gate (ss_guard s) (ss_guard (snd (internal_seal g s)))" if "ss_guard s = Some g" for g
    using that by (auto simp: internal_seal_def same_gate_def SetReadOnly_def)
  with m show ?thesis by (cases rt) (simp_all add: on_service_guard internal_guard)
qed

lemma same_gate_Router: "same_gate (ss_guard s) (ss_guard (snd (Router L zr cfg dir readFile rt rq s)))"
  using same_gate_dispatch [of s L zr cfg dir readFile rt rq]
  by (auto simp: Router_def middleware_def split: option.split)

lemma gate_run:
  assumes "gate_running cfg (ss_guard s)" and "ss_guard s = Some g" and "writeBlockReason g = (if b then ''disk_full'' else [])"
  shows "\<exists>h. ss_guard (run_shard L zr cfg es s) = Some h \<and> writeBlockReason h = (if closed_by cfg b (measured cfg es) then ''disk_full'' else [])"
  using assms
proof (induction es arbitrary: s g b)
  case (Cons e es)
  let ?s = "shard_step L zr cfg e s"
  obtain h where h: "ss_guard ?s = Some h" and r: "closed_by cfg b (measured cfg (e # es)) = closed_by cfg (writeBlockReason h \<noteq> []) (measured cfg es)"
      "writeBlockReason h \<in> {[], ''disk_full''}"
  proof (cases e)
    case (Request dir readFile rt rq)
    then obtain y where "ss_guard ?s = Some y" "writeBlockReason y = writeBlockReason g"
      using Cons.prems(2) same_gate_Router [of s L zr cfg dir readFile rt rq] by (auto simp: same_gate_def)
    then show thesis using Cons.prems(3) Request by (intro that [of y]) auto
  next
    case (UnpackJob i)
    then show thesis using Cons.prems by (intro that [of g]) auto
  next
    case (DiskTick st)
    then show thesis using Cons.prems
      by (intro that [of "evaluate cfg st g"]) (auto simp: runDiskWriteGate_def evaluate_def SetWriteBlockReason_def recovers_def split: sum.splits if_splits)
  qed
  have "gate_running cfg (ss_guard ?s)" using Cons.prems(1) h by (simp add: gate_running_def)
  from Cons.IH [OF this h, of "writeBlockReason h \<noteq> []"] r show ?case by auto
qed auto

lemma disk_full_answer:
  "ss_guard s = Some g \<Longrightarrow> writeBlockReason g = ''disk_full'' \<Longrightarrow>
     Router L zr cfg dir readFile PostPackages rq s = (writeJSON_api 507 (ApiError ''insufficient_storage''), s)"
proof -
  assume g: "ss_guard s = Some g" "writeBlockReason g = ''disk_full''"
  have "EqualFold ''disk_full'' ''disk_full''" by (simp add: EqualFold_def)
  with g show ?thesis by (simp add: Router_def middleware_def writeAllowed_def)
qed

text \<open>
  C38 (safety). With the disk gate running, writes are blocked exactly while space is short: since a
  measurement below the minimum there was none that reached both the minimum and the threshold for
  resuming. Measurements that fail change nothing, requests and unpack jobs do not interfere. A
  blocked package is answered 507 and changes nothing.
\<close>

theorem disk_gate_hysteresis:
  assumes "gate_running cfg (ss_guard s)" and "ss_guard s = Some g" and "writeBlockReason g = []" and "s' = run_shard L zr cfg es s"
  shows "\<exists>h. ss_guard s' = Some h \<and> writeBlockReason h = (if starved cfg (measured cfg es) then ''disk_full'' else [])
     \<and> (starved cfg (measured cfg es) \<longrightarrow>
          Router L zr cfg dir readFile PostPackages rq s' = (writeJSON_api 507 (ApiError ''insufficient_storage''), s'))"
proof -
  obtain h where h: "ss_guard s' = Some h" "writeBlockReason h = (if closed_by cfg False (measured cfg es) then ''disk_full'' else [])"
    using gate_run [OF assms(1,2), of False L zr es] assms(3,4) by auto
  with disk_full_answer [OF h(1)] show ?thesis by (auto simp: closed_by_starved)
qed

text \<open>A disk with \<open>n\<close> free blocks of one byte.\<close>

definition free_bytes :: "u64 \<Rightarrow> string \<Rightarrow> path_state" where
  "free_bytes n p = (if p = ''./data/segments'' then Present (Inr (n, 1)) else Missing)"

definition gate_config :: Config where
  "gate_config = sample_config\<lparr>cfg_DataDir := ''./data/segments'', cfg_RocksDBPath := [], cfg_ShardRole := ''primary'',
     MinFreeDiskBytes := 100, DiskCheckInterval := 10, DiskResumeHysteresisBytes := 50\<rparr>"

theorem disk_gate_hysteresis_witness:
  "\<exists>s'. run_shard sample_libs no_zip gate_config [DiskTick (free_bytes 90), DiskTick (free_bytes 120)] sample_server = s'
     \<and> Router sample_libs no_zip gate_config (Inr []) (\<lambda>_. Inl (Err ''gone'')) PostPackages sample_request s'
         = (writeJSON_api 507 (ApiError ''insufficient_storage''), s')"
proof -
  let ?es = "[DiskTick (free_bytes 90), DiskTick (free_bytes 120)]"
  obtain g where g: "ss_guard sample_server = Some g" "writeBlockReason g = []"
    by (simp add: sample_server_def NewShardServer_def NewShardGuard_def)
  have r: "gate_running gate_config (ss_guard sample_server)" by (simp add: g gate_running_def gate_config_def)
  have m: "measured gate_config ?es = [90, 120]"
    by (simp add: gate_paths_def gate_config_def MinAvailableBytes_def free_bytes_def availableBytes_def wrap64_def)
  have t: "MinFreeDiskBytes gate_config = 100" "resumeThreshold gate_config = 150"
    by (simp_all add: resumeThreshold_def gate_config_def wrap64_def)
  have "starved gate_config [90, 120]" by (simp add: starved_Cons recovers_def t)
  with disk_gate_hysteresis [OF r g refl, of sample_libs no_zip ?es "Inr []" "\<lambda>_. Inl (Err ''gone'')" sample_request] m
  show ?thesis by (auto simp del: run_shard.simps)
qed

end
