(* ===== verification/Shard_Steady.thy ===== *)
theory Shard_Steady
  imports Disk_Gate
begin

text \<open>
  What serving requests, unpacking and checking the disk leave alone: the encoder of the blob store
  and the table of dictionaries. Both are set when the process starts.
\<close>

subsection \<open>Statements\<close>

abbreviation keeps_dict :: "(meta_db \<Rightarrow> (meta_db, 'a) result) \<Rightarrow> bool" where
  "keeps_dict f \<equiv> \<forall>db. dictionaries (snd (f db)) = dictionaries db"

lemma dict_take_fault: "dictionaries (snd (md_take_fault db)) = dictionaries db"
  by (simp add: md_take_fault_def split: prod.split)

lemma dict_tx_stmt: "keeps_dict f \<Longrightarrow> dictionaries (snd (tx_stmt f db)) = dictionaries db"
  using dict_take_fault [of db]
  by (auto simp: tx_stmt_def split: prod.split fault.split sum.split) (metis snd_conv)+

lemma dict_pool_stmt: "keeps_dict f \<Longrightarrow> dictionaries (snd (pool_stmt f db)) = dictionaries db"
  using dict_take_fault [of db]
  by (auto simp: pool_stmt_def split: prod.split fault.split nat.split)

lemma dict_now [simp]: "dictionaries (snd (md_now db)) = dictionaries db"
  by (simp add: md_now_def split: list.split)

lemma dict_now_pair: "md_now db = (t, d) \<Longrightarrow> dictionaries d = dictionaries db"
  using dict_now [of db] by simp

lemma dict_tryE: "dictionaries (snd r) = d \<Longrightarrow> (\<And>x db. dictionaries (snd (g x db)) = dictionaries db) \<Longrightarrow> dictionaries (snd (tryE r g)) = d"
  by (cases r; cases "fst r") auto

lemmas dict_stmt = dict_tx_stmt dict_pool_stmt

lemma dict_reads [simp]:
  "dictionaries (snd (tx_GetBlob h db)) = dictionaries db"
  "dictionaries (snd (tx_GetPackageForUpdate i db)) = dictionaries db"
  "dictionaries (snd (FindCanonicalPackageID h db)) = dictionaries db"
  "dictionaries (snd (ListClonePackageIDs i db)) = dictionaries db"
  "dictionaries (snd (GetPackageFile i j db)) = dictionaries db"
  "dictionaries (snd (GetOriginalFile i db)) = dictionaries db"
  "dictionaries (snd (ListPackageFiles i db)) = dictionaries db"
  "dictionaries (snd (GetBlob h db)) = dictionaries db"
  by (simp_all add: tx_GetBlob_def tx_GetPackageForUpdate_def FindCanonicalPackageID_def ListClonePackageIDs_def GetPackageFile_def
      GetOriginalFile_def ListPackageFiles_def GetBlob_def dict_stmt)

lemma dict_writes [simp]:
  "dictionaries (snd (tx_InsertBlobOrIncrement b db)) = dictionaries db"
  "dictionaries (snd (tx_IncrementRefCount h db)) = dictionaries db"
  "dictionaries (snd (tx_IncrementRefCountIfExists h db)) = dictionaries db"
  "dictionaries (snd (tx_CreatePackage inp db)) = dictionaries db"
  "dictionaries (snd (tx_CreatePackageFile i fi db)) = dictionaries db"
  "dictionaries (snd (tx_UpdatePackageAfterUnpack i m n u db)) = dictionaries db"
  "dictionaries (snd (RecordSupplierIngest i n k l db)) = dictionaries db"
  unfolding tx_InsertBlobOrIncrement_def tx_IncrementRefCount_def tx_IncrementRefCountIfExists_def tx_CreatePackage_def
    tx_CreatePackageFile_def tx_UpdatePackageAfterUnpack_def RecordSupplierIngest_def
  by (auto simp: Let_def insert_blob_def bump_ref_def dest!: dict_now_pair intro!: dict_stmt split: prod.split option.split)

lemma dict_IncrementRefCounts [simp]: "dictionaries (snd (tx_IncrementRefCounts hs db)) = dictionaries db"
  by (induction hs arbitrary: db) (auto intro!: dict_tryE)

lemma dict_GetPackage [simp]: "dictionaries (snd (GetPackage i db)) = dictionaries db"
  by (auto simp: GetPackage_def dict_stmt intro!: dict_tryE split: option.split)

subsection \<open>The store\<close>

definition fixed :: "('s, 'b) shard \<Rightarrow> Encoder option \<times> (bytes \<times> int) list" where
  "fixed st = (encoder (sh_blobs st), dictionaries (sh_meta st))"

lemma fixed_tryE: "fixed (snd r) = d \<Longrightarrow> (\<And>x st. fixed (snd (g x st)) = fixed st) \<Longrightarrow> fixed (snd (tryE r g)) = d"
  by (cases r; cases "fst r") auto

lemma fixed_wrapE [simp]: "fixed (snd (wrapE m r)) = fixed (snd r)"
  by (simp add: snd_wrapE)

lemma fixed_on_tx [simp]: "keeps_dict f \<Longrightarrow> fixed (snd (on_tx f st)) = fixed st"
  by (simp add: on_tx_def fixed_def split: prod.split) (metis snd_conv)

lemma fixed_on_segments [simp]: "fixed (snd (on_segments f st)) = fixed st"
  by (simp add: on_segments_def fixed_def split: prod.split)

lemma fixed_small [simp]: "fixed (snd (indexPut L h b st)) = fixed st" "fixed (snd (segment_index_append i e st)) = fixed st"
  "fixed (snd (bs_now st)) = fixed st" "fixed (snd (lookup_hot L h st)) = fixed st"
  by (simp_all add: indexPut_def on_hot_def segment_index_append_def bs_now_def lookup_hot_def fixed_def split: prod.split option.split list.split)

lemma fixed_pair: "f = (r, st) \<Longrightarrow> fixed (snd f) = d \<Longrightarrow> fixed st = d"
  by simp

lemma fixed_storeNew [simp]: "fixed (snd (storeNew L h x t i st)) = fixed st"
  by (auto simp: storeNew_def Let_def intro!: fixed_tryE split: prod.split dest!: fixed_pair [OF _ fixed_small(3)])

lemma fixed_store_existing [simp]: "fixed (snd (store_existing L h x t i st)) = fixed st"
  by (auto simp: store_existing_def intro!: fixed_tryE split: option.split)

lemma fixed_StoreOrRef [simp]: "fixed (snd (StoreOrRef L x t i st)) = fixed st"
  by (auto simp: StoreOrRef_def Let_def intro!: fixed_tryE split: prod.split dest!: fixed_pair [OF _ fixed_small(4)])

lemma fixed_with_tx: "(\<And>st. fixed (snd (body st)) = fixed st) \<Longrightarrow> fixed (snd (with_tx body st)) = fixed st"
proof -
  assume b: "\<And>st. fixed (snd (body st)) = fixed st"
  obtain r db where t: "tx_begin (sh_meta st) = (r, db)" by fastforce
  have d: "dictionaries db = dictionaries (sh_meta st)" "\<And>old. r = Inr old \<Longrightarrow> dictionaries old = dictionaries (sh_meta st)"
    using t dict_take_fault [of "sh_meta st"] by (auto simp: tx_begin_def split: prod.splits fault.splits)
  obtain q st1 where q: "body (st\<lparr>sh_meta := db\<rparr>) = (q, st1)" by fastforce
  have st1: "fixed st1 = fixed st" using b [of "st\<lparr>sh_meta := db\<rparr>"] q d(1) by (simp add: fixed_def)
  show ?thesis
  proof (cases r)
    case (Inl e)
    then show ?thesis using d(1) by (simp add: with_tx_def t fixed_def)
  next
    case (Inr old)
    obtain p d1 where e: "tx_end old q (sh_meta st1) = (p, d1)" by fastforce
    have "dictionaries d1 = dictionaries (sh_meta st)"
      using d(2) [OF Inr] st1 e dict_take_fault [of "sh_meta st1"]
      by (auto simp: tx_end_def restore_tables_def fixed_def split: prod.splits fault.splits nat.splits sum.splits if_splits)
    with st1 show ?thesis by (simp add: with_tx_def t q Inr e fixed_def)
  qed
qed

subsection \<open>Ingestion and unpacking\<close>

lemma fixed_persistUnpackError [simp]: "fixed (snd (persistUnpackError L i n e c st)) = fixed st"
  by (auto simp: persistUnpackError_def intro!: fixed_tryE)

lemma fixed_persistMember: "fixed (fst (snd (persistMember L i n name x s))) = fixed (fst s)"
proof (cases s)
  case (fields st c m)
  obtain r st1 where r: "StoreOrRef L x RecordXML n st = (r, st1)" by fastforce
  then have st1: "fixed st1 = fixed st" using fixed_StoreOrRef [of L x RecordXML n st] by simp
  show ?thesis
  proof (cases r)
    case (Inr hc)
    then obtain h k where h: "r = Inr (h, k)" by (cases hc) simp
    let ?f = "\<lparr>fi_BlobHash = h, fi_Role = ''member'', fi_OriginalFilename = Some name, fi_SequenceNumber = Some m\<rparr>"
    obtain q st2 where q: "on_tx (tx_CreatePackageFile i ?f) st1 = (q, st2)" by fastforce
    then have "fixed st2 = fixed st1" using fixed_on_tx [of "tx_CreatePackageFile i ?f" st1] by simp
    with st1 show ?thesis by (cases q) (simp_all add: persistMember_def fields r h q)
  qed (simp add: persistMember_def fields r st1)
qed

lemma fixed_zip_loop:
  assumes "\<And>name x s. fixed (fst (snd (fn name x s))) = fixed (fst s)"
  shows "fixed (fst (snd (zip_loop mx fn fs n s))) = fixed (fst s)"
proof (induction fs arbitrary: n s)
  case (Cons f fs)
  have "fixed (fst (snd (tryE (fn (zf_Name f) body s) (\<lambda>_ s. zip_loop mx fn fs (n + int (length body)) s)))) = fixed (fst s)" for body
    using Cons.IH assms [of "zf_Name f" body s] by (cases "fn (zf_Name f) body s"; cases "fst (fn (zf_Name f) body s)") auto
  with Cons.IH show ?case by (simp split: sum.split)
qed simp

lemma fixed_persistZipMembers [simp]: "fixed (snd (persistZipMembers L zr i n z mx c st)) = fixed st"
proof -
  obtain r st1 c1 m where r: "ForEachZipMember zr z mx (persistMember L i n) (st, c, 0) = (r, (st1, c1, m))" by (metis surj_pair)
  have "fixed st1 = fixed st"
    using fixed_zip_loop [of "persistMember L i n", OF fixed_persistMember, where s = "(st, c, 0)"] r
    by (auto simp: ForEachZipMember_def Let_def split: sum.splits) (metis fst_conv snd_conv)
  then show ?thesis by (cases r) (auto simp: persistZipMembers_def r intro!: fixed_tryE)
qed

lemma fixed_store_original [simp]: "fixed (snd (store_original L n b t inp f st)) = fixed st"
  by (auto simp: store_original_def intro!: fixed_tryE)

lemma fixed_clone_files [simp]: "fixed (snd (clone_files i fs st)) = fixed st"
  by (induction fs arbitrary: st) (auto intro!: fixed_tryE)

lemma fixed_add_extra [simp]: "fixed (snd (add_extra i fs ks st)) = fixed st"
  by (induction fs arbitrary: ks st) (auto intro!: fixed_tryE)

lemma fixed_update_clone [simp]: "fixed (snd (update_clone p i fs ks st)) = fixed st"
  by (auto simp: update_clone_def intro!: fixed_tryE)

lemma fixed_unpack_tx [simp]: "fixed (snd (unpack_tx L zr cfg i z st)) = fixed st"
  by (auto simp: unpack_tx_def intro!: fixed_tryE split: option.split)

abbreviation fixed_sv :: "('s, 'b) service \<Rightarrow> Encoder option \<times> (bytes \<times> int) list" where
  "fixed_sv sv \<equiv> fixed (sv_shard sv)"

lemma fixed_sv_tryE: "fixed_sv (snd r) = d \<Longrightarrow> (\<And>x sv. fixed_sv (snd (g x sv)) = fixed_sv sv) \<Longrightarrow> fixed_sv (snd (tryE r g)) = d"
  by (cases r; cases "fst r") auto

lemma fixed_on_shard [simp]: "fixed_sv (snd (on_shard f sv)) = fixed (snd (f (sv_shard sv)))"
  by (simp add: on_shard_def split: prod.split)

lemma fixed_loadAndJournal [simp]: "fixed_sv (snd (loadAndJournal i sv)) = fixed_sv sv"
  by (auto simp: loadAndJournal_def journalPackage_def intro!: fixed_sv_tryE split: option.split prod.split)

lemma fixed_recordIngest [simp]: "fixed_sv (recordIngest i n c b sv) = fixed_sv sv"
  by (simp add: recordIngest_def)

lemma fixed_ingest [simp]:
  "fixed_sv (snd (ingestXML L n h b f sv)) = fixed_sv sv"
  "fixed_sv (snd (ingestLargeZIP L cfg n h b f sv)) = fixed_sv sv"
  "fixed_sv (snd (ingestSmallZIP L zr cfg n h b f sv)) = fixed_sv sv"
  "fixed_sv (snd (clonePackage n h t f i sv)) = fixed_sv sv"
  by (auto simp: ingestXML_def ingestLargeZIP_def ingestSmallZIP_def clonePackage_def Let_def intro!: fixed_sv_tryE fixed_with_tx fixed_tryE split: option.split)

lemma fixed_ProcessPackage [simp]: "fixed_sv (snd (ProcessPackage L zr cfg n b f sv)) = fixed_sv sv"
  by (auto simp: ProcessPackage_def ingestZIP_def Let_def intro!: fixed_sv_tryE split: sum.split option.split PayloadType.split)

lemma fixed_propagate_loop [simp]: "fixed_sv (snd (propagate_loop p fs ids sv)) = fixed_sv sv"
  by (induction ids arbitrary: sv) (auto intro!: fixed_sv_tryE fixed_with_tx split: option.split)

lemma fixed_finish_unpack [simp]: "fixed_sv (snd (finish_unpack i sv)) = fixed_sv sv"
  by (auto simp: finish_unpack_def propagateUnpackToClones_def intro!: fixed_sv_tryE split: option.split)

lemma fixed_ReadBlob [simp]: "fixed (snd (case ReadBlob zs b (sh_blobs st) of (r, bs) \<Rightarrow> (r, st\<lparr>sh_blobs := bs\<rparr>))) = fixed st"
  by (auto simp: ReadBlob_def fixed_def split: prod.split sum.split option.split)

lemma fixed_read_original [simp]: "fixed_sv (snd (read_original L i sv)) = fixed_sv sv"
  by (auto simp: read_original_def intro!: fixed_sv_tryE split: option.split)

lemma fixed_UnpackLargePackage [simp]: "fixed_sv (snd (UnpackLargePackage L zr cfg i sv)) = fixed_sv sv"
proof -
  have "fixed_sv (snd (case on_shard (with_tx (unpack_tx L zr cfg i z)) sv of
      (Inl e, sv) \<Rightarrow> if errors_Is e errSkipLargeUnpack then finish_unpack i sv else (Inl e, sv)
    | (Inr _, sv) \<Rightarrow> finish_unpack i sv)) = fixed_sv sv" for z and sv :: "('a, 'b) service"
  proof -
    obtain r sv1 where r: "on_shard (with_tx (unpack_tx L zr cfg i z)) sv = (r, sv1)" by fastforce
    then have "fixed_sv sv1 = fixed_sv sv"
      using fixed_on_shard [of "with_tx (unpack_tx L zr cfg i z)" sv] by (simp add: fixed_with_tx)
    then show ?thesis by (cases r) (simp_all add: r)
  qed
  then show ?thesis by (auto simp: UnpackLargePackage_def intro!: fixed_sv_tryE split: option.split)
qed

subsection \<open>Requests\<close>

text \<open>A handler that looks something up and goes on with the answer.\<close>

lemma fixed_case: "fixed_sv (snd p) = d \<Longrightarrow> (\<And>r sv. fixed_sv sv = d \<Longrightarrow> fixed_sv (snd (F r sv)) = d) \<Longrightarrow> fixed_sv (snd (case p of (r, sv) \<Rightarrow> F r sv)) = d"
  by (cases p) simp

lemma fixed_postPackage [simp]: "fixed_sv (snd (postPackage_shard L zr cfg rq sv)) = fixed_sv sv"
  by (auto simp: postPackage_shard_def intro!: fixed_case split: sum.split option.split)

lemma fixed_getPackage [simp]: "fixed_sv (snd (getPackage_shard cfg i sv)) = fixed_sv sv"
  by (auto simp: getPackage_shard_def intro!: fixed_case split: sum.split option.split)

lemma fixed_serveFile [simp]: "fixed_sv (snd (serveFile L i j sv)) = fixed_sv sv"
  unfolding serveFile_def by (intro fixed_case) (auto split: sum.split option.split intro!: fixed_case)

lemma fixed_getFiles [simp]: "fixed_sv (snd (getFile_shard L i j sv)) = fixed_sv sv" "fixed_sv (snd (getOriginal_shard L i sv)) = fixed_sv sv"
  by (auto simp: getFile_shard_def getOriginal_shard_def split: sum.split option.split intro!: fixed_case)

lemma fixed_on_service [simp]: "(\<And>sv. fixed_sv (snd (h sv)) = fixed_sv sv) \<Longrightarrow> fixed_sv (ss_service (snd (on_service h s))) = fixed_sv (ss_service s)"
  by (simp add: on_service_def split: prod.split) (metis snd_conv)

lemma fixed_internal [simp]:
  "fixed_sv (ss_service (snd (internal_stats g s))) = fixed_sv (ss_service s)"
  "fixed_sv (ss_service (snd (internal_seal g s))) = fixed_sv (ss_service s)"
  "fixed_sv (ss_service (snd (internal_segments dir s))) = fixed_sv (ss_service s)"
  "fixed_sv (ss_service (snd (internal_segment rf n s))) = fixed_sv (ss_service s)"
  by (auto simp: internal_stats_def internal_seal_def internal_segments_def internal_segment_def on_service_segments_def on_shard_def fixed_def
      split: prod.splits sum.splits)

lemma fixed_mountInternal [simp]:
  "(\<And>g. fixed_sv (ss_service (snd (h g s))) = fixed_sv (ss_service s)) \<Longrightarrow> fixed_sv (ss_service (snd (mountInternal cfg rq h s))) = fixed_sv (ss_service s)"
  by (simp add: mountInternal_def requireClusterKey_def split: option.split)

lemma fixed_dispatch: "fixed_sv (ss_service (snd (dispatch L zr cfg dir rf rt rq s))) = fixed_sv (ss_service s)"
  by (cases rt) simp_all

lemma fixed_Router: "fixed_sv (ss_service (snd (Router L zr cfg dir rf rt rq s))) = fixed_sv (ss_service s)"
  by (simp add: Router_def middleware_def fixed_dispatch split: option.split)

lemma fixed_step: "fixed_sv (ss_service (shard_step L zr cfg e s)) = fixed_sv (ss_service s)"
  by (cases e) (simp_all add: fixed_Router)

lemma fixed_run: "fixed_sv (ss_service (run_shard L zr cfg es s)) = fixed_sv (ss_service s)"
  by (induction es arbitrary: s) (simp_all add: fixed_step)

text \<open>The invariant of the shard along a run.\<close>

lemma grows_shard_step:
  assumes "zstd_laws (lib_zstd L)" shows "grows (lib_zstd L) (ss_service s) (ss_service (shard_step L zr cfg e s))"
  using grows_Router [OF assms] grows_UnpackLargePackage [OF assms surjective_pairing] by (cases e) auto

lemma grows_run_shard: "zstd_laws (lib_zstd L) \<Longrightarrow> grows (lib_zstd L) (ss_service s) (ss_service (run_shard L zr cfg es s))"
  by (induction es arbitrary: s) (auto intro: grows_trans grows_shard_step)

end
