(* ===== verification/Register_Client.thy ===== *)
theory Register_Client
  imports Coord_Server
begin

text \<open>
  The client that registers a shard with the coordinator
  (\<^verbatim>\<open>internal/coordinator/register_client.go\<close>). The retry loop runs as long as attempts fail in
  a way that may pass; the answers to its attempts come from a schedule and the time at which
  the context ends is a parameter. When the schedule is exhausted the loop is still waiting.
\<close>

datatype register_error =
    StatusErr int string
  | NetErr string
  | OtherErr string

datatype attempt = Failed register_error | Answered int string "(ShardInfo \<times> bool) option"

definition IsRetryable :: "int \<Rightarrow> bool" where
  "IsRetryable statusCode \<longleftrightarrow> statusCode = 408 \<or> statusCode = 429 \<or> statusCode \<ge> 500"

definition shouldRetryRegister :: "register_error \<Rightarrow> bool" where
  "shouldRetryRegister err = (case err of StatusErr code _ \<Rightarrow> IsRetryable code | NetErr _ \<Rightarrow> True | OtherErr _ \<Rightarrow> False)"

text \<open>One attempt: the failure of the transport, or the coordinator's answer with its body.\<close>

definition RegisterShardOnce :: "attempt \<Rightarrow> register_error + ShardInfo \<times> bool" where
  "RegisterShardOnce a = (case a of
       Failed e \<Rightarrow> Inl e
     | Answered code body resp \<Rightarrow>
         if code \<noteq> 200 \<and> code \<noteq> 201 then Inl (StatusErr code body)
         else (case resp of None \<Rightarrow> Inl (OtherErr ''invalid json'') | Some r \<Rightarrow> Inr r))"

text \<open>Milliseconds.\<close>

definition next_delay :: "int \<Rightarrow> int" where
  "next_delay delay = (if delay < 15000 then min (2 * delay) 15000 else delay)"

text \<open>
  The state of the loop is the delay and the time waited so far; \<open>cancel\<close> is the time, counted in
  waiting, at which the context is done. The result is \<open>None\<close> while the loop is still waiting.
\<close>

fun RegisterShardWithRetry :: "int \<Rightarrow> int \<Rightarrow> int \<Rightarrow> attempt list \<Rightarrow> (register_error + ShardInfo \<times> bool) option \<times> int list" where
  "RegisterShardWithRetry cancel delay waited [] = (None, [])"
| "RegisterShardWithRetry cancel delay waited (a # as) = (case RegisterShardOnce a of
       Inr resp \<Rightarrow> (Some (Inr resp), [])
     | Inl err \<Rightarrow>
         if \<not> shouldRetryRegister err then (Some (Inl err), [])
         else if cancel \<le> waited + delay then (Some (Inl (OtherErr ''context canceled'')), [])
         else case RegisterShardWithRetry cancel (next_delay delay) (waited + delay) as of
           (r, ds) \<Rightarrow> (r, delay # ds))"

subsection \<open>Properties\<close>

text \<open>The pause after attempt \<open>i\<close>, whether the failure of an attempt may pass, and what the loop
  returns when it ends at an attempt.\<close>

definition pause :: "nat \<Rightarrow> int" where
  "pause i = min (500 * 2 ^ i) 15000"

definition may_pass :: "attempt \<Rightarrow> bool" where
  "may_pass a = (case RegisterShardOnce a of Inl err \<Rightarrow> shouldRetryRegister err | Inr _ \<Rightarrow> False)"

definition verdict :: "attempt \<Rightarrow> register_error + ShardInfo \<times> bool" where
  "verdict a = (if may_pass a then Inl (OtherErr ''context canceled'') else RegisterShardOnce a)"

lemma next_delay_pause: "next_delay (pause i) = pause (Suc i)"
  by (simp add: next_delay_def pause_def)

lemma pause_ge: "500 \<le> pause i"
proof -
  have "1 \<le> (2 :: int) ^ i" by simp
  then show ?thesis unfolding pause_def by linarith
qed

lemma retry_step:
  "RegisterShardWithRetry cancel delay waited (a # as) =
     (if \<not> may_pass a \<or> cancel \<le> waited + delay then (Some (verdict a), [])
      else apsnd ((#) delay) (RegisterShardWithRetry cancel (next_delay delay) (waited + delay) as))"
  by (auto simp: may_pass_def verdict_def apsnd_def map_prod_def split: sum.splits prod.splits)

text \<open>
  Where the loop is after a schedule: \<open>n\<close> pauses behind it, each after an attempt whose failure may
  pass; and when it has returned, why.
\<close>

lemma retry_trace:
  assumes "RegisterShardWithRetry cancel (pause k) waited as = (r, ds)"
  shows "\<exists>n. ds = map pause [k..<k + n] \<and> n \<le> length as \<and> list_all may_pass (take n as)
     \<and> (n > 0 \<longrightarrow> waited + sum_list ds < cancel)
     \<and> (case r of None \<Rightarrow> n = length as
        | Some v \<Rightarrow> n < length as \<and> v = verdict (as ! n)
            \<and> (may_pass (as ! n) \<longrightarrow> cancel \<le> waited + sum_list ds + pause (k + n)))"
  using assms
proof (induction as arbitrary: k waited ds)
  case Nil
  then show ?case by simp
next
  case (Cons a as)
  show ?case
  proof (cases "\<not> may_pass a \<or> cancel \<le> waited + pause k")
    case True
    with Cons.prems show ?thesis by (intro exI [of _ 0]) (auto simp: retry_step simp del: RegisterShardWithRetry.simps(2))
  next
    case False
    then obtain ds' where rec: "RegisterShardWithRetry cancel (pause (Suc k)) (waited + pause k) as = (r, ds')"
      and ds: "ds = pause k # ds'"
      using Cons.prems by (auto simp: retry_step next_delay_pause apsnd_def map_prod_def
          simp del: RegisterShardWithRetry.simps(2) split: prod.splits)
    from Cons.IH [OF rec] obtain n where n: "ds' = map pause [Suc k..<Suc k + n]" "n \<le> length as" "list_all may_pass (take n as)"
      "n > 0 \<longrightarrow> waited + pause k + sum_list ds' < cancel"
      "case r of None \<Rightarrow> n = length as
        | Some v \<Rightarrow> n < length as \<and> v = verdict (as ! n)
            \<and> (may_pass (as ! n) \<longrightarrow> cancel \<le> waited + pause k + sum_list ds' + pause (Suc k + n))" by blast
    have "ds = map pause [k..<k + Suc n]"
      using n(1) ds by (simp add: upt_conv_Cons del: upt_Suc)
    moreover have "waited + sum_list ds < cancel"
      using n(1,4) ds False by (cases "n > 0") (simp_all add: algebra_simps)
    moreover have "waited + sum_list ds = waited + pause k + sum_list ds'" "pause (k + Suc n) = pause (Suc k + n)"
      "(a # as) ! Suc n = as ! n" using ds by simp_all
    moreover have "list_all may_pass (take (Suc n) (a # as))" "Suc n \<le> length (a # as)" using n(2,3) False by simp_all
    ultimately show ?thesis
      using n(5) by (intro exI [of _ "Suc n"]) (simp add: add.assoc split: option.splits del: upt_Suc)
  qed
qed

text \<open>
  C24 (termination). With a context that ends, the registration loop ends: given at least as many
  answers as half-seconds fit into its time, it has returned. It returned at the first attempt
  that succeeded or failed for good, with that attempt's outcome, or, when the context ended in
  the pause after an attempt, with the context's error. The pauses before were half a second,
  doubling, up to fifteen seconds, and ended before the context did.
\<close>

theorem RegisterShardWithRetry_ends:
  assumes "cancel \<le> 500 * int (length as)" and "as \<noteq> []"
  shows "\<exists>n ds. RegisterShardWithRetry cancel 500 0 as = (Some (verdict (as ! n)), ds)
     \<and> n < length as \<and> ds = map (\<lambda>i. min (500 * 2 ^ i) 15000) [0..<n]
     \<and> (\<forall>i<n. may_pass (as ! i)) \<and> (n > 0 \<longrightarrow> sum_list ds < cancel)
     \<and> (may_pass (as ! n) \<longrightarrow> cancel \<le> sum_list ds + min (500 * 2 ^ n) 15000)"
proof -
  obtain r ds where run: "RegisterShardWithRetry cancel (pause 0) 0 as = (r, ds)" by fastforce
  from retry_trace [OF this, unfolded add_0] obtain n where n: "ds = map pause [0..<n]" "n \<le> length as" "list_all may_pass (take n as)"
    "n > 0 \<longrightarrow> sum_list ds < cancel"
    "case r of None \<Rightarrow> n = length as
     | Some v \<Rightarrow> n < length as \<and> v = verdict (as ! n) \<and> (may_pass (as ! n) \<longrightarrow> cancel \<le> sum_list ds + pause n)" by blast
  have "500 * int n \<le> sum_list (map pause [0..<n])"
  proof (induction n)
    case (Suc n)
    then show ?case using pause_ge [of n] by simp
  qed simp
  then have "r \<noteq> None" using n assms by (cases "n > 0") (auto split: option.splits)
  then obtain v where "r = Some v" by blast
  moreover have "pause = (\<lambda>i. min (500 * 2 ^ i) 15000)" by (simp add: pause_def fun_eq_iff)
  ultimately show ?thesis
    using run n by (intro exI [of _ n] exI [of _ ds]) (auto simp: list_all_length pause_def [of 0] pause_def [of n])
qed

text \<open>Every attempt refused and forty seconds: six pauses, the last one capped; then the context ends.\<close>

theorem RegisterShardWithRetry_ends_witness:
  "RegisterShardWithRetry 40000 500 0 (replicate 80 (Failed (NetErr ''refused'')))
     = (Some (Inl (OtherErr ''context canceled'')), [500, 1000, 2000, 4000, 8000, 15000])"
proof -
  let ?as = "replicate 80 (Failed (NetErr ''refused''))"
  have mp: "may_pass (Failed (NetErr ''refused''))"
    by (simp add: may_pass_def RegisterShardOnce_def shouldRetryRegister_def)
  obtain n ds where n: "RegisterShardWithRetry 40000 500 0 ?as = (Some (verdict (?as ! n)), ds)"
    "n < 80" "ds = map (\<lambda>i. min (500 * 2 ^ i) 15000) [0..<n]" "n > 0 \<longrightarrow> sum_list ds < 40000"
    "40000 \<le> sum_list ds + min (500 * 2 ^ n) 15000"
    using RegisterShardWithRetry_ends [of 40000 ?as] mp by auto
  define f where "f = (\<lambda>n. sum_list (map (\<lambda>i. min (500 * 2 ^ i) 15000 :: int) [0..<n]))"
  have mono: "f a \<le> f b" if "a \<le> b" for a b
  proof -
    have "f m \<le> f (Suc m)" for m by (simp add: f_def)
    then show ?thesis using that by (rule lift_Suc_mono_le)
  qed
  have "f 6 = 30500" "f 7 = 45500" by (simp_all add: f_def upt_rec)
  moreover have "f n < 40000" "40000 \<le> f (Suc n)" using n(3-5) by (cases "n = 0"; simp add: f_def)+
  ultimately have "\<not> 7 \<le> n" "\<not> Suc n \<le> 6" using mono [of 7 n] mono [of "Suc n" 6] by linarith+
  then have "n = 6" by simp
  then show ?thesis using n(1,3) mp by (simp add: verdict_def upt_rec)
qed

end
