(* ===== verification/Json_Parse.thy ===== *)
theory Json_Parse
  imports Journal
begin

text \<open>
  Decoding of JSON text as \<^verbatim>\<open>encoding/json\<close> does it, on UTF-8 text as characters of one byte. The
  parser carries a bound on the number of values it may still open; the length of the text is
  enough, since every value takes a character. Decoding inverts the encoding of \<open>json_text\<close>.
\<close>

subsection \<open>Strings\<close>

definition hex_value :: "char \<Rightarrow> nat option" where
  "hex_value c = (let n = of_char c :: nat in
     if 48 \<le> n \<and> n \<le> 57 then Some (n - 48)
     else if 97 \<le> n \<and> n \<le> 102 then Some (n - 87)
     else if 65 \<le> n \<and> n \<le> 70 then Some (n - 55) else None)"

text \<open>Four hexadecimal digits.\<close>

definition getu4 :: "string \<Rightarrow> (nat \<times> string) option" where
  "getu4 v = (case v of
       a # b # c # d # rest \<Rightarrow> (case (hex_value a, hex_value b, hex_value c, hex_value d) of
           (Some a, Some b, Some c, Some d) \<Rightarrow> Some (a * 4096 + b * 256 + c * 16 + d, rest)
         | _ \<Rightarrow> None)
     | _ \<Rightarrow> None)"

definition utf8 :: "nat \<Rightarrow> string" where
  "utf8 n =
     (if n < 0x80 then [char_of n]
      else if n < 0x800 then [char_of (0xC0 + n div 64), char_of (0x80 + n mod 64)]
      else if n < 0x10000 then [char_of (0xE0 + n div 4096), char_of (0x80 + n div 64 mod 64), char_of (0x80 + n mod 64)]
      else [char_of (0xF0 + n div 262144), char_of (0x80 + n div 4096 mod 64), char_of (0x80 + n div 64 mod 64), char_of (0x80 + n mod 64)])"

text \<open>A surrogate pair is one character; a surrogate alone is replaced.\<close>

definition unescape_u :: "string \<Rightarrow> (string \<times> string) option" where
  "unescape_u v = (case getu4 v of
       None \<Rightarrow> None
     | Some (n, rest) \<Rightarrow>
         if 0xD800 \<le> n \<and> n < 0xE000 then
           (case rest of
              b # u # rest' \<Rightarrow>
                (case (if b = CHR 0x5C \<and> u = CHR ''u'' then getu4 rest' else None) of
                   Some (m, rest'') \<Rightarrow>
                     if n < 0xDC00 \<and> 0xDC00 \<le> m \<and> m < 0xE000
                     then Some (utf8 (0x10000 + (n - 0xD800) * 1024 + (m - 0xDC00)), rest'') else Some (utf8 0xFFFD, rest)
                 | None \<Rightarrow> Some (utf8 0xFFFD, rest))
            | _ \<Rightarrow> Some (utf8 0xFFFD, rest))
         else Some (utf8 n, rest))"

definition unescape :: "char \<Rightarrow> char option" where
  "unescape c = map_of [(CHR 0x22, CHR 0x22), (CHR 0x5C, CHR 0x5C), (CHR ''/'', CHR ''/''), (CHR ''b'', CHR 0x08), (CHR ''f'', CHR 0x0C),
     (CHR ''n'', CHR 0x0A), (CHR ''r'', CHR 0x0D), (CHR ''t'', CHR 0x09)] c"

text \<open>The rest of a string behind its opening quote.\<close>

fun parse_string :: "nat \<Rightarrow> string \<Rightarrow> (string \<times> string) option" where
  "parse_string 0 v = None"
| "parse_string (Suc k) [] = None"
| "parse_string (Suc k) (c # v) =
     (if c = CHR 0x22 then Some ([], v)
      else if (of_char c :: nat) < 32 then None
      else if c = CHR 0x5C then
        (case v of
           [] \<Rightarrow> None
         | e # rest \<Rightarrow>
             (case (if e = CHR ''u'' then unescape_u rest else map_option (\<lambda>x. ([x], rest)) (unescape e)) of
                None \<Rightarrow> None
              | Some (x, rest) \<Rightarrow> map_option (\<lambda>(w, r). (x @ w, r)) (parse_string k rest)))
      else map_option (\<lambda>(w, r). (c # w, r)) (parse_string k v))"

subsection \<open>Numbers\<close>

definition scale10 :: "nat \<Rightarrow> int \<Rightarrow> nat" where
  "scale10 m e = (if e \<ge> 0 then m * 10 ^ nat e else m div 10 ^ nat (- e))"

text \<open>\<open>None\<close>: malformed; else the digits of an exponent with its sign.\<close>

definition parse_exponent :: "string \<Rightarrow> (int option \<times> string) option" where
  "parse_exponent v = (case v of
       c # r \<Rightarrow>
         if c = CHR ''e'' \<or> c = CHR ''E'' then
           (let neg = (take 1 r = ''-''); d = (if neg \<or> take 1 r = ''+'' then drop 1 r else r); ds = takeWhile is_digit d in
            if ds = [] then None else Some (Some (if neg then - int (undecimal ds) else int (undecimal ds)), dropWhile is_digit d))
         else Some (None, v)
     | [] \<Rightarrow> Some (None, []))"

definition parse_number :: "string \<Rightarrow> (json \<times> string) option" where
  "parse_number v =
     (let neg = (take 1 v = ''-''); d = (if neg then drop 1 v else v); ip = takeWhile is_digit d; r = dropWhile is_digit d;
          sign = (\<lambda>n. if neg then - int n else int n)
      in if ip = [] \<or> take 1 ip = ''0'' \<and> length ip > 1 then None
         else if take 1 r = ''.'' then
           (let fd = takeWhile is_digit (drop 1 r) in
            if fd = [] then None
            else case parse_exponent (dropWhile is_digit (drop 1 r)) of
              None \<Rightarrow> None
            | Some (e, rest) \<Rightarrow>
                Some (JReal (sign (scale10 (undecimal (ip @ fd)) ((case e of None \<Rightarrow> 0 | Some x \<Rightarrow> x) - int (length fd)))), rest))
         else case parse_exponent r of
           None \<Rightarrow> None
         | Some (None, rest) \<Rightarrow> Some (JNum (sign (undecimal ip)), rest)
         | Some (Some e, rest) \<Rightarrow> Some (JReal (sign (scale10 (undecimal ip) e)), rest))"

subsection \<open>Values\<close>

definition is_ws :: "char \<Rightarrow> bool" where
  "is_ws c \<longleftrightarrow> c = CHR '' '' \<or> c = CHR 0x09 \<or> c = CHR 0x0A \<or> c = CHR 0x0D"

abbreviation skip :: "string \<Rightarrow> string" where
  "skip \<equiv> dropWhile is_ws"

definition literal :: "string \<Rightarrow> json \<Rightarrow> string \<Rightarrow> (json \<times> string) option" where
  "literal w j v = (if take (length w) v = w then Some (j, drop (length w) v) else None)"

fun parse_value :: "nat \<Rightarrow> string \<Rightarrow> (json \<times> string) option"
  and parse_elems :: "nat \<Rightarrow> string \<Rightarrow> (json list \<times> string) option"
  and parse_members :: "nat \<Rightarrow> string \<Rightarrow> ((string \<times> json) list \<times> string) option" where
  "parse_value 0 v = None"
| "parse_value (Suc k) v = (case skip v of
       [] \<Rightarrow> None
     | c # r \<Rightarrow>
         if c = CHR ''{'' then
           (case skip r of [] \<Rightarrow> None | d # r' \<Rightarrow> if d = CHR ''}'' then Some (JObj [], r') else map_option (\<lambda>(x, y). (JObj x, y)) (parse_members k r))
         else if c = CHR ''['' then
           (case skip r of [] \<Rightarrow> None | d # r' \<Rightarrow> if d = CHR '']'' then Some (JArr [], r') else map_option (\<lambda>(x, y). (JArr x, y)) (parse_elems k r))
         else if c = CHR 0x22 then map_option (\<lambda>(x, y). (JStr x, y)) (parse_string (length r) r)
         else if c = CHR ''t'' then literal ''true'' (JBool True) (c # r)
         else if c = CHR ''f'' then literal ''false'' (JBool False) (c # r)
         else if c = CHR ''n'' then literal ''null'' JNull (c # r)
         else parse_number (c # r))"
| "parse_elems 0 v = None"
| "parse_elems (Suc k) v = (case parse_value k v of
       None \<Rightarrow> None
     | Some (x, r) \<Rightarrow> (case skip r of
           [] \<Rightarrow> None
         | c # r' \<Rightarrow> if c = CHR '']'' then Some ([x], r')
             else if c = CHR '','' then map_option (\<lambda>(xs, y). (x # xs, y)) (parse_elems k r') else None))"
| "parse_members 0 v = None"
| "parse_members (Suc k) v = (case skip v of
       [] \<Rightarrow> None
     | q # r \<Rightarrow>
         (case (if q = CHR 0x22 then parse_string (length r) r else None) of
            None \<Rightarrow> None
          | Some (key, r) \<Rightarrow> (case skip r of
                [] \<Rightarrow> None
              | col # r \<Rightarrow>
                  (case (if col = CHR '':'' then parse_value k r else None) of
                     None \<Rightarrow> None
                   | Some (x, r) \<Rightarrow> (case skip r of
                         [] \<Rightarrow> None
                       | c # r' \<Rightarrow> if c = CHR ''}'' then Some ([(key, x)], r')
                           else if c = CHR '','' then map_option (\<lambda>(xs, y). ((key, x) # xs, y)) (parse_members k r') else None)))))"

definition parse_json :: "string \<Rightarrow> json option" where
  "parse_json v = (case parse_value (Suc (length v)) v of
     Some (j, rest) \<Rightarrow> if skip rest = [] then Some j else None | None \<Rightarrow> None)"

subsection \<open>Strings round-trip\<close>

lemma hex_value_hex_char: "n < 16 \<Longrightarrow> hex_value (hex_char n) = Some n"
proof -
  have "\<forall>n<16. hex_value (hex_char n) = Some n" by code_simp
  then show "n < 16 \<Longrightarrow> hex_value (hex_char n) = Some n" by blast
qed

lemma of_char_less: "(of_char c :: nat) < 256"
  using mod_less_divisor [of 256 "of_char c :: nat"] by simp

lemma hex_value_zero: "hex_value (CHR ''0'') = Some 0" "hex_value (CHR ''2'') = Some 2"
  by code_simp+

lemma getu4_hex_byte: "n < 256 \<Longrightarrow> getu4 (''00'' @ hex_byte n @ w) = Some (n, w)"
  by (simp add: getu4_def hex_byte_def hex_value_hex_char hex_value_zero)

lemma parse_string_char: "parse_string (Suc k) (json_char c @ w) = map_option (\<lambda>(x, r). (c # x, r)) (parse_string k w)"
proof -
  let ?n = "of_char c :: nat"
  have eq: "c = d" if "?n = of_char d" for d using that by (rule of_char_eqI)
  have esc: "parse_string (Suc k) (CHR 0x5C # e # w) = map_option (\<lambda>(x, r). (c # x, r)) (parse_string k w)"
    if "unescape e = Some c" "e \<noteq> CHR ''u''" for e using that by simp
  consider "?n = 34" | "?n = 92" | "?n = 8" | "?n = 12" | "?n = 10" | "?n = 13" | "?n = 9"
    | "?n \<notin> {34, 92, 8, 12, 10, 13, 9}" "?n < 32 \<or> ?n = 60 \<or> ?n = 62 \<or> ?n = 38"
    | "?n \<notin> {34, 92}" "\<not> ?n < 32" "?n \<notin> {60, 62, 38}" by blast
  then show ?thesis
  proof cases
    case 1
    then have "c = CHR 0x22" by (intro eq) simp
    then show ?thesis by (simp add: json_char_def Let_def unescape_def)
  next
    case 2
    then have "c = CHR 0x5C" by (intro eq) simp
    then show ?thesis by (simp add: json_char_def Let_def unescape_def)
  next
    case 3
    then have "c = CHR 0x08" by (intro eq) simp
    then show ?thesis by (simp add: json_char_def Let_def unescape_def)
  next
    case 4
    then have "c = CHR 0x0C" by (intro eq) simp
    then show ?thesis by (simp add: json_char_def Let_def unescape_def)
  next
    case 5
    then have "c = CHR 0x0A" by (intro eq) simp
    then show ?thesis by (simp add: json_char_def Let_def unescape_def)
  next
    case 6
    then have "c = CHR 0x0D" by (intro eq) simp
    then show ?thesis by (simp add: json_char_def Let_def unescape_def)
  next
    case 7
    then have "c = CHR 0x09" by (intro eq) simp
    then show ?thesis by (simp add: json_char_def Let_def unescape_def)
  next
    case 8
    have j: "json_char c = CHR 0x5C # CHR ''u'' # ''00'' @ hex_byte ?n" using 8 by (simp add: json_char_def Let_def)
    have "?n < 128" using 8(2) by auto
    then have "unescape_u (''00'' @ hex_byte ?n @ w) = Some ([c], w)"
      using getu4_hex_byte [OF of_char_less, of c w] by (simp add: unescape_u_def utf8_def)
    then show ?thesis using j by simp
  next
    case 9
    then have "c \<noteq> CHR 0x22" "c \<noteq> CHR 0x5C" by auto
    with 9 show ?thesis by (simp add: json_char_def Let_def)
  qed
qed

lemma unescape_separator:
  "unescape_u (''202'' @ hex_char 8 # w) = Some ([CHR 0xE2, CHR 0x80, CHR 0xA8], w)"
  "unescape_u (''202'' @ hex_char 9 # w) = Some ([CHR 0xE2, CHR 0x80, CHR 0xA9], w)"
proof -
  have c: "char_of n = d" if "(of_char d :: nat) = n" for d :: char and n using that by auto
  have "char_of (226 :: nat) = CHR 0xE2" "char_of (128 :: nat) = CHR 0x80" "char_of (168 :: nat) = CHR 0xA8" "char_of (169 :: nat) = CHR 0xA9"
    by (rule c, simp)+
  then have u: "utf8 8232 = [CHR 0xE2, CHR 0x80, CHR 0xA8]" "utf8 8233 = [CHR 0xE2, CHR 0x80, CHR 0xA9]"
    by (simp_all add: utf8_def)
  have g: "getu4 (''202'' @ hex_char n # w) = Some (8224 + n, w)" if "n < 16" for n
    using that by (simp add: getu4_def hex_value_zero hex_value_hex_char)
  show "unescape_u (''202'' @ hex_char 8 # w) = Some ([CHR 0xE2, CHR 0x80, CHR 0xA8], w)"
    using g [of 8] u(1) unfolding unescape_u_def by simp
  show "unescape_u (''202'' @ hex_char 9 # w) = Some ([CHR 0xE2, CHR 0x80, CHR 0xA9], w)"
    using g [of 9] u(2) unfolding unescape_u_def by simp
qed

lemma parse_separator:
  assumes "line_separator a b c"
  shows "parse_string (Suc k) (CHR 0x5C # ''u202'' @ hex_char (of_char c mod 16) # w)
    = map_option (\<lambda>(x, r). (a # b # c # x, r)) (parse_string k w)"
proof -
  have a: "a = CHR 0xE2" using assms by (intro of_char_eqI [where 'a = nat]) (simp add: line_separator_def)
  have b: "b = CHR 0x80" using assms by (intro of_char_eqI [where 'a = nat]) (simp add: line_separator_def)
  have "(of_char c :: nat) = of_char (CHR 0xA8) \<or> (of_char c :: nat) = of_char (CHR 0xA9)"
    using assms by (simp add: line_separator_def)
  then have "c = CHR 0xA8 \<or> c = CHR 0xA9" by (meson of_char_eqI)
  then show ?thesis
  proof
    assume c: "c = CHR 0xA8"
    have "of_char c mod 16 = (8 :: nat)" by (simp add: c)
    with a b c unescape_separator(1) [of w] show ?thesis by simp
  next
    assume c: "c = CHR 0xA9"
    have "of_char c mod 16 = (9 :: nat)" by (simp add: c)
    with a b c unescape_separator(2) [of w] show ?thesis by simp
  qed
qed

lemma parse_string_chars:
  "length v < k \<Longrightarrow> parse_string k (json_chars v @ CHR 0x22 # rest) = Some (v, rest)"
proof (induction v arbitrary: k rule: json_chars.induct [case_names more none one two])
  case (more a b c v)
  then obtain m where k: "k = Suc m" "length v + 3 \<le> m" by (cases k) auto
  show ?case
  proof (cases "line_separator a b c")
    case True
    with more(1) [OF True, of m] k parse_separator [OF True] show ?thesis by simp
  next
    case False
    with more(2) [OF False, of m] k show ?thesis by (simp add: parse_string_char)
  qed
next
  case none
  then show ?case by (cases k) auto
next
  case (one a)
  then have "k = Suc (Suc (k - 2))" by simp
  then obtain m where "k = Suc (Suc m)" by blast
  then show ?case by (simp add: parse_string_char del: parse_string.simps(3)) simp
next
  case (two a b)
  then have "k = Suc (Suc (Suc (k - 3)))" by simp
  then obtain m where "k = Suc (Suc (Suc m))" by blast
  then show ?case by (simp add: parse_string_char del: parse_string.simps(3)) simp
qed

subsection \<open>Numbers round-trip\<close>

definition stops :: "string \<Rightarrow> bool" where
  "stops v \<longleftrightarrow> (case v of [] \<Rightarrow> True | c # _ \<Rightarrow> \<not> is_digit c \<and> c \<notin> {CHR ''.'', CHR ''e'', CHR ''E''})"

lemma stops_simps [simp]: "stops []" "stops (CHR '','' # v)" "stops (CHR '']'' # v)" "stops (CHR ''}'' # v)"
  by (simp_all add: stops_def is_digit_def)

lemma decimal_hd_zero: "take 1 (decimal n) = ''0'' \<Longrightarrow> length (decimal n) = 1"
proof (induction n rule: decimal.induct)
  case (1 n)
  show ?case
  proof (cases "n < 10")
    case False
    have "n div 10 \<noteq> 0" using False by simp
    moreover have "take 1 (decimal (n div 10)) = ''0''"
      using 1(2) False decimal_nonempty [of "n div 10"] by (cases "decimal (n div 10)") (auto simp: decimal.simps [of n])
    ultimately have "length (decimal (n div 10)) = 1" "take 1 (decimal (n div 10)) = ''0''" using 1 False by auto
    then have "decimal (n div 10) = ''0''" by (cases "decimal (n div 10)") auto
    then have "undecimal (decimal (n div 10)) = 0" by (simp add: undecimal_def char_digit_def)
    with \<open>n div 10 \<noteq> 0\<close> show ?thesis by simp
  qed (simp add: decimal.simps [of n])
qed

lemma takeWhile_decimal: "stops v \<Longrightarrow> takeWhile is_digit (decimal n @ v) = decimal n \<and> dropWhile is_digit (decimal n @ v) = v"
  using decimal_digits by (cases v) (auto simp: takeWhile_append dropWhile_append stops_def)

lemma parse_exponent_stops: "stops v \<Longrightarrow> parse_exponent v = Some (None, v)"
  by (cases v) (auto simp: parse_exponent_def stops_def)

lemma take_stops: "stops v \<Longrightarrow> take 1 v \<noteq> ''.''"
  by (cases v) (auto simp: stops_def)

lemma decimal_not_minus: "take 1 (decimal n @ v) \<noteq> ''-''"
  using decimal_digits [of "hd (decimal n)" n] by (cases "decimal n") (auto simp: is_digit_def)

lemma parse_number_decimal:
  assumes "stops v"
  shows "parse_number (decimal n @ v) = Some (JNum (int n), v)"
    and "parse_number (''-'' @ decimal n @ v) = Some (JNum (- int n), v)"
proof -
  let ?d = "decimal n"
  have z: "\<not> (?d = [] \<or> take 1 ?d = ''0'' \<and> length ?d > 1)" using decimal_hd_zero [of n] by auto
  have w: "takeWhile is_digit (?d @ v) = ?d" "dropWhile is_digit (?d @ v) = v" using takeWhile_decimal [OF assms] by auto
  show "parse_number (?d @ v) = Some (JNum (int n), v)"
    unfolding parse_number_def Let_def using decimal_not_minus [of n v] w z take_stops [OF assms] parse_exponent_stops [OF assms]
    by (simp only: if_False simp_thms option.case prod.case undecimal_decimal)
  have "take 1 (''-'' @ ?d @ v) = ''-''" "drop 1 (''-'' @ ?d @ v) = ?d @ v" by simp_all
  then show "parse_number (''-'' @ ?d @ v) = Some (JNum (- int n), v)"
    unfolding parse_number_def Let_def using w z take_stops [OF assms] parse_exponent_stops [OF assms]
    by (simp only: if_False if_True simp_thms option.case prod.case undecimal_decimal)
qed

lemma parse_number_itoa: "stops v \<Longrightarrow> parse_number (itoa i @ v) = Some (JNum i, v)"
  using parse_number_decimal [of v "nat i"] parse_number_decimal [of v "nat (- i)"] by (simp add: itoa_def)

subsection \<open>Values round-trip\<close>

fun plain :: "json \<Rightarrow> bool" where
  "plain (JReal i) \<longleftrightarrow> False"
| "plain (JArr vs) \<longleftrightarrow> (\<forall>v\<in>set vs. plain v)"
| "plain (JObj kvs) \<longleftrightarrow> (\<forall>kv\<in>set kvs. plain (snd kv))"
| "plain _ \<longleftrightarrow> True"

lemma json_char_nonempty: "1 \<le> length (json_char c)"
  by (simp add: json_char_def Let_def)

lemma length_json_chars: "length v \<le> length (json_chars v)"
proof (induction v rule: json_chars.induct [case_names more none one two])
  case (more a b c v)
  then show ?case using json_char_nonempty [of a] by (cases "line_separator a b c") auto
next
  case (one a)
  then show ?case using json_char_nonempty [of a] by simp
next
  case (two a b)
  then show ?case using json_char_nonempty [of a] json_char_nonempty [of b] by simp
qed simp

lemma parse_string_json: "length (json_chars v) < k \<Longrightarrow> parse_string k (json_chars v @ CHR 0x22 # rest) = Some (v, rest)"
  using length_json_chars [of v] by (intro parse_string_chars) simp

definition starts :: "string \<Rightarrow> bool" where
  "starts v \<longleftrightarrow> v \<noteq> [] \<and> \<not> is_ws (hd v) \<and> hd v \<notin> {CHR '']'', CHR ''}''}"

lemma skip_starts: "starts v \<Longrightarrow> skip (v @ w) = v @ w"
  by (cases v) (auto simp: starts_def)

lemma not_ws [simp]: "\<not> is_ws (CHR '','')" "\<not> is_ws (CHR '']'')" "\<not> is_ws (CHR ''}'')" "\<not> is_ws (CHR '':'')"
  "\<not> is_ws (CHR 0x22)" "\<not> is_ws (CHR ''{'')" "\<not> is_ws (CHR ''['')"
  by (simp_all add: is_ws_def)

lemma itoa_head: "\<exists>c w. itoa i = c # w \<and> (is_digit c \<or> c = CHR ''-'')"
proof (cases "i < 0")
  case False
  obtain c w where "decimal (nat i) = c # w" using decimal_nonempty [of "nat i"] by (cases "decimal (nat i)") auto
  with False decimal_digits [of c "nat i"] show ?thesis by (simp add: itoa_def)
qed (simp add: itoa_def)

lemma json_text_starts: "starts (json_text j)"
proof (cases j)
  case (JNum i)
  with itoa_head [of i] show ?thesis by (auto simp: starts_def is_digit_def is_ws_def)
next
  case (JReal i)
  with itoa_head [of i] show ?thesis by (auto simp: starts_def is_digit_def is_ws_def)
qed (auto simp: starts_def is_ws_def json_string_def)

lemma parse_value_number: "stops v \<Longrightarrow> parse_value (Suc k) (itoa i @ v) = Some (JNum i, v)"
proof -
  assume v: "stops v"
  obtain c w where c: "itoa i = c # w" "is_digit c \<or> c = CHR ''-''" using itoa_head by blast
  have "skip (c # w @ v) = c # w @ v" using skip_starts [OF json_text_starts [of "JNum i"], of v] c(1) by simp
  moreover have "c \<notin> {CHR ''{'', CHR ''['', CHR 0x22, CHR ''t'', CHR ''f'', CHR ''n''}" using c(2) by (auto simp: is_digit_def)
  ultimately show ?thesis using parse_number_itoa [OF v, of i] c(1) by simp
qed

lemma parse_elems_text:
  assumes "\<And>v k rest. v \<in> set vs \<Longrightarrow> stops rest \<Longrightarrow> length (json_text v) < k \<Longrightarrow> parse_value k (json_text v @ rest) = Some (v, rest)"
    and "vs \<noteq> []" and "length (commas (map json_text vs)) + 2 \<le> k"
  shows "parse_elems k (commas (map json_text vs) @ CHR '']'' # rest) = Some (vs, rest)"
  using assms
proof (induction vs arbitrary: k)
  case (Cons v vs)
  then obtain m where k: "k = Suc m" by (cases k) auto
  show ?case
  proof (cases vs)
    case Nil
    with Cons.prems(1) [of v "CHR '']'' # rest" m] Cons.prems(3) k show ?thesis by simp
  next
    case (Cons w ws)
    have "parse_value m (json_text v @ CHR '','' # commas (map json_text vs) @ CHR '']'' # rest)
        = Some (v, CHR '','' # commas (map json_text vs) @ CHR '']'' # rest)"
      using Cons.prems(3) k Cons by (intro Cons.prems(1)) auto
    moreover have "parse_elems m (commas (map json_text vs) @ CHR '']'' # rest) = Some (vs, rest)"
      using Cons.prems(3) k Cons by (intro Cons.IH Cons.prems(1)) auto
    ultimately show ?thesis using k Cons by simp
  qed
qed simp

abbreviation member_text :: "string \<times> json \<Rightarrow> string" where
  "member_text kv \<equiv> json_string (fst kv) @ '':'' @ json_text (snd kv)"

lemma parse_members_text:
  assumes "\<And>kv k rest. kv \<in> set kvs \<Longrightarrow> stops rest \<Longrightarrow> length (json_text (snd kv)) < k \<Longrightarrow> parse_value k (json_text (snd kv) @ rest) = Some (snd kv, rest)"
    and "kvs \<noteq> []" and "length (commas (map member_text kvs)) + 2 \<le> k"
  shows "parse_members k (commas (map member_text kvs) @ CHR ''}'' # rest) = Some (kvs, rest)"
  using assms
proof (induction kvs arbitrary: k)
  case (Cons kv kvs)
  then obtain m where k: "k = Suc m" by (cases k) auto
  show ?case
  proof (cases kvs)
    case Nil
    with Cons.prems(1) [of kv "CHR ''}'' # rest" m] Cons.prems(3) k show ?thesis
      by (simp add: json_string_def parse_string_json)
  next
    case (Cons w ws)
    let ?r = "commas (map member_text kvs) @ CHR ''}'' # rest"
    have "parse_value m (json_text (snd kv) @ CHR '','' # ?r) = Some (snd kv, CHR '','' # ?r)"
      using Cons.prems(3) k Cons by (intro Cons.prems(1)) auto
    moreover have "parse_members m ?r = Some (kvs, rest)"
      using Cons.prems(3) k Cons by (intro Cons.IH Cons.prems(1)) auto
    ultimately show ?thesis using k Cons by (simp add: json_string_def parse_string_json)
  qed
qed simp

lemma starts_commas: "starts x \<Longrightarrow> starts (commas (x # xs))"
  by (cases xs) (auto simp: starts_def)

lemma parse_value_text:
  "plain j \<Longrightarrow> stops rest \<Longrightarrow> length (json_text j) < k \<Longrightarrow> parse_value k (json_text j @ rest) = Some (j, rest)"
proof (induction j arbitrary: k rest rule: json_text.induct)
  case 1
  then show ?case by (cases k) (auto simp: literal_def is_ws_def)
next
  case (2 b)
  then show ?case by (cases k) (auto simp: literal_def is_ws_def)
next
  case (3 i)
  then show ?case using parse_value_number by (cases k) auto
next
  case (5 v)
  then show ?case by (cases k) (auto simp: json_string_def parse_string_json)
next
  case (6 vs)
  then obtain m where k: "k = Suc m" by (cases k) auto
  show ?case
  proof (cases "vs = []")
    case False
    have "parse_elems m (commas (map json_text vs) @ CHR '']'' # rest) = Some (vs, rest)"
      using 6 False k by (intro parse_elems_text) auto
    moreover obtain c w where "commas (map json_text vs) = c # w" "\<not> is_ws c" "c \<noteq> CHR '']''"
      using starts_commas [OF json_text_starts [of "hd vs"], of "map json_text (tl vs)"] False
      by (cases vs; cases "commas (map json_text vs)") (auto simp: starts_def)
    ultimately show ?thesis using k by simp
  qed (simp add: k)
next
  case (7 kvs)
  then obtain m where k: "k = Suc m" by (cases k) auto
  show ?case
  proof (cases "kvs = []")
    case False
    have "parse_members m (commas (map member_text kvs) @ CHR ''}'' # rest) = Some (kvs, rest)"
      using 7 False k by (intro parse_members_text) auto
    moreover obtain c w where "commas (map member_text kvs) = c # w" "\<not> is_ws c" "c \<noteq> CHR ''}''"
      using starts_commas [of "member_text (hd kvs)" "map member_text (tl kvs)"] False
      by (cases kvs; cases "commas (map member_text kvs)") (auto simp: starts_def json_string_def is_ws_def)
    ultimately show ?thesis using k by simp
  qed (simp add: k)
qed simp

lemma parse_json_text: "plain j \<Longrightarrow> parse_json (json_text j) = Some j"
  using parse_value_text [of j "[]" "Suc (length (json_text j))"] by (simp add: parse_json_def)

subsection \<open>Longer text\<close>

text \<open>What follows a value does not change how it is read; only a number must be seen to end.\<close>

lemma getu4_append: "getu4 v = Some (n, r) \<Longrightarrow> getu4 (v @ w) = Some (n, r @ w)"
  by (auto simp: getu4_def split: list.splits option.splits)

lemma parse_string_escape: "parse_string k (CHR 0x5C # CHR ''u'' # v) = Some z \<Longrightarrow> getu4 v \<noteq> None"
  by (cases k) (auto simp: unescape_u_def split: option.splits)

lemma parse_string_one: "parse_string k [b] = Some z \<Longrightarrow> b = CHR 0x22"
  by (cases k; cases "k - 1") (auto split: if_splits)

lemma unescape_u_append:
  assumes "unescape_u t = Some (d, t')" and "parse_string k t' = Some z"
  shows "unescape_u (t @ w) = Some (d, t' @ w)"
proof -
  obtain n rest where g: "getu4 t = Some (n, rest)" using assms(1) by (auto simp: unescape_u_def split: option.splits)
  note g' = getu4_append [OF g, of w]
  show ?thesis
  proof (cases "0xD800 \<le> n \<and> n < 0xE000")
    case False
    then show ?thesis using assms(1) g g' by (auto simp: unescape_u_def)
  next
    case True
    consider "rest = []" | b where "rest = [b]" | b u r where "rest = b # u # r" by (cases rest; cases "tl rest") auto
    then show ?thesis
    proof cases
      case 1
      then have "t' = []" using assms(1) g True by (auto simp: unescape_u_def)
      then show ?thesis using assms(2) by (cases k) auto
    next
      case 2
      then have t: "t' = [b]" "d = utf8 0xFFFD" using assms(1) g True by (auto simp: unescape_u_def)
      then have "b = CHR 0x22" using assms(2) parse_string_one by blast
      with t 2 True g' show ?thesis by (cases w) (auto simp: unescape_u_def)
    next
      case 3
      show ?thesis
      proof (cases "b = CHR 0x5C \<and> u = CHR ''u''")
        case False
        then show ?thesis using 3 assms(1) g g' True by (auto simp: unescape_u_def)
      next
        case esc: True
        show ?thesis
        proof (cases "getu4 r")
          case None
          then have "t' = rest" using 3 assms(1) g True esc by (auto simp: unescape_u_def)
          with None 3 esc assms(2) parse_string_escape show ?thesis by blast
        next
          case (Some q)
          then obtain m r' where q: "getu4 r = Some (m, r')" by (cases q) auto
          with getu4_append [OF q, of w] 3 assms(1) g g' True esc show ?thesis
            by (auto simp: unescape_u_def split: if_splits)
        qed
      qed
    qed
  qed
qed

lemma parse_string_append:
  "parse_string k v = Some (x, r) \<Longrightarrow> k \<le> k' \<Longrightarrow> parse_string k' (v @ w) = Some (x, r @ w)"
proof (induction k v arbitrary: k' x r rule: parse_string.induct)
  case (3 k c v)
  then obtain m where k': "k' = Suc m" "k \<le> m" by (cases k') auto
  consider "c = CHR 0x22" | "c \<noteq> CHR 0x22" "c = CHR 0x5C" | "c \<noteq> CHR 0x22" "c \<noteq> CHR 0x5C" by blast
  then show ?case
  proof cases
    case 1
    with 3 k' show ?thesis by simp
  next
    case 3
    then obtain y where "parse_string k v = Some (y, r)" "x = c # y" "\<not> (of_char c :: nat) < 32"
      using "3.prems" by (auto split: if_splits)
    with "3.IH"(2) [of y r m] 3 k' show ?thesis by (auto split: if_splits)
  next
    case 2
    then obtain e t where v: "v = e # t" using "3.prems" by (cases v) auto
    show ?thesis
    proof (cases "e = CHR ''u''")
      case False
      then obtain d y where "unescape e = Some d" "parse_string k t = Some (y, r)" "x = d # y"
        using "3.prems" 2 v by (auto split: option.splits)
      with "3.IH"(1) [of e t "([d], t)" "[d]" t y r m] 2 k' v False show ?thesis by simp
    next
      case True
      then obtain d t' y where u: "unescape_u t = Some (d, t')" "parse_string k t' = Some (y, r)" "x = d @ y"
        using "3.prems" 2 v by (auto split: option.splits)
      have ih: "parse_string m (t' @ w) = Some (y, r @ w)"
        using "3.IH"(1) [of e t "(d, t')" d t' y r m] 2 k' v True u by simp
      have "unescape_u (t @ w) = Some (d, t' @ w)" using u by (intro unescape_u_append)
      with ih u 2 k' v True show ?thesis by simp
    qed
  qed
qed auto

lemma digits_append:
  assumes "dropWhile is_digit v \<noteq> []"
  shows "takeWhile is_digit (v @ w) = takeWhile is_digit v" "dropWhile is_digit (v @ w) = dropWhile is_digit v @ w"
  using assms by (induction v) auto

lemma take1_append: "v \<noteq> [] \<Longrightarrow> take 1 (v @ w) = take 1 v" "v \<noteq> [] \<Longrightarrow> drop 1 (v @ w) = drop 1 v @ w"
  by (cases v; simp)+

definition unsigned :: "string \<Rightarrow> string" where
  "unsigned t = (if take 1 t = ''-'' \<or> take 1 t = ''+'' then drop 1 t else t)"

lemma parse_exponent_e: "c = CHR ''e'' \<or> c = CHR ''E'' \<Longrightarrow> parse_exponent (c # t) =
  (if takeWhile is_digit (unsigned t) = [] then None
   else Some (Some (if take 1 t = ''-'' then - int (undecimal (takeWhile is_digit (unsigned t))) else int (undecimal (takeWhile is_digit (unsigned t)))),
     dropWhile is_digit (unsigned t)))"
  by (auto simp: parse_exponent_def unsigned_def Let_def)

lemma parse_exponent_append:
  assumes "parse_exponent v = Some (e, r)" and "r \<noteq> []"
  shows "parse_exponent (v @ w) = Some (e, r @ w)"
proof (cases v)
  case Nil
  with assms show ?thesis by (simp add: parse_exponent_def)
next
  case (Cons c t)
  show ?thesis
  proof (cases "c = CHR ''e'' \<or> c = CHR ''E''")
    case False
    with assms Cons show ?thesis by (auto simp: parse_exponent_def)
  next
    case True
    note eq = parse_exponent_e [OF True]
    have t: "t \<noteq> []" using assms Cons eq by (auto simp: unsigned_def)
    have r: "dropWhile is_digit (unsigned t) = r" using assms Cons eq [of t] by (simp split: if_splits)
    note t1 = take1_append [OF t, of w]
    have a: "unsigned (t @ w) = unsigned t @ w" unfolding unsigned_def t1 by simp
    have d: "dropWhile is_digit (unsigned t) \<noteq> []" using r assms(2) by blast
    have "parse_exponent (c # t @ w) = map_option (\<lambda>(e, r). (e, r @ w)) (parse_exponent (c # t))"
      unfolding eq a digits_append [OF d] t1 by simp
    then show ?thesis using assms(1) Cons by simp
  qed
qed

definition number_body :: "bool \<Rightarrow> string \<Rightarrow> (json \<times> string) option" where
  "number_body neg d =
     (let ip = takeWhile is_digit d; r = dropWhile is_digit d; sign = (\<lambda>n. if neg then - int n else int n)
      in if ip = [] \<or> take 1 ip = ''0'' \<and> length ip > 1 then None
         else if take 1 r = ''.'' then
           (let fd = takeWhile is_digit (drop 1 r) in
            if fd = [] then None
            else case parse_exponent (dropWhile is_digit (drop 1 r)) of
              None \<Rightarrow> None
            | Some (e, rest) \<Rightarrow>
                Some (JReal (sign (scale10 (undecimal (ip @ fd)) ((case e of None \<Rightarrow> 0 | Some x \<Rightarrow> x) - int (length fd)))), rest))
         else case parse_exponent r of
           None \<Rightarrow> None
         | Some (None, rest) \<Rightarrow> Some (JNum (sign (undecimal ip)), rest)
         | Some (Some e, rest) \<Rightarrow> Some (JReal (sign (scale10 (undecimal ip) e)), rest))"

lemma parse_number_body: "parse_number v = number_body (take 1 v = ''-'') (if take 1 v = ''-'' then drop 1 v else v)"
  by (simp add: parse_number_def number_body_def Let_def)

lemma parse_exponent_nil: "parse_exponent [] = Some (None, [])"
  by (simp add: parse_exponent_def)

lemma number_body_rest: "number_body neg d = Some (j, r) \<Longrightarrow> r \<noteq> [] \<Longrightarrow> dropWhile is_digit d \<noteq> []"
proof
  assume a: "number_body neg d = Some (j, r)" "r \<noteq> []" and e: "dropWhile is_digit d = []"
  from a show False unfolding number_body_def Let_def e by (simp add: parse_exponent_nil split: if_splits)
qed

lemma number_body_append:
  assumes "number_body neg d = Some (j, r)" and "r \<noteq> []"
  shows "number_body neg (d @ w) = Some (j, r @ w)"
proof -
  let ?r = "dropWhile is_digit d"
  have r: "?r \<noteq> []" using assms by (rule number_body_rest)
  show ?thesis
  proof (cases "take 1 ?r = ''.''")
    case False
    then obtain e where e: "parse_exponent ?r = Some (e, r)"
      using assms(1) by (auto simp: number_body_def Let_def split: if_splits option.splits)
    from assms(1) False e parse_exponent_append [OF e assms(2), of w] show ?thesis
      unfolding number_body_def Let_def digits_append [OF r] take1_append [OF r] by (simp split: if_splits option.splits)
  next
    case True
    let ?f = "dropWhile is_digit (drop 1 ?r)"
    from assms(1) True obtain e where e: "parse_exponent ?f = Some (e, r)"
      by (auto simp: number_body_def Let_def split: if_splits option.splits)
    then have f: "?f \<noteq> []" using assms(2) parse_exponent_nil by (metis option.inject prod.inject)
    from assms(1) True e parse_exponent_append [OF e assms(2), of w] show ?thesis
      unfolding number_body_def Let_def digits_append [OF r] take1_append [OF r] digits_append [OF f] by (simp split: if_splits option.splits)
  qed
qed

lemma parse_number_append:
  assumes "parse_number v = Some (j, r)" and "r \<noteq> []"
  shows "parse_number (v @ w) = Some (j, r @ w)"
proof -
  have v: "v \<noteq> []" using assms(1) by (cases v) (simp_all add: parse_number_body number_body_def)
  have "(if take 1 v = ''-'' then drop 1 v @ w else v @ w) = (if take 1 v = ''-'' then drop 1 v else v) @ w" by simp
  with number_body_append [OF assms [unfolded parse_number_body], of w] show ?thesis
    unfolding parse_number_body take1_append [OF v] by (simp only:)
qed

lemma skip_append: "skip v = c # r \<Longrightarrow> skip (v @ w) = c # r @ w"
  by (induction v) auto

lemma literal_append: "literal u j v = Some (x, r) \<Longrightarrow> literal u j (v @ w) = Some (x, r @ w)"
proof -
  assume "literal u j v = Some (x, r)"
  then have "take (length u) v = u" "drop (length u) v = r" "x = j" by (auto simp: literal_def split: if_splits)
  then have "v = u @ r" "x = j" by (metis append_take_drop_id)+
  then show ?thesis by (simp add: literal_def)
qed

definition number :: "json \<Rightarrow> bool" where
  "number j \<longleftrightarrow> (case j of JNum _ \<Rightarrow> True | JReal _ \<Rightarrow> True | _ \<Rightarrow> False)"

lemma parse_number_number: "parse_number v = Some (j, r) \<Longrightarrow> number j"
  by (auto simp: parse_number_def number_def Let_def split: if_splits option.splits)

lemma parse_append:
  "parse_value k v = Some (j, r) \<Longrightarrow> r \<noteq> [] \<or> \<not> number j \<Longrightarrow> k \<le> k' \<Longrightarrow> parse_value k' (v @ w) = Some (j, r @ w)"
  "parse_elems k v = Some (js, r) \<Longrightarrow> k \<le> k' \<Longrightarrow> parse_elems k' (v @ w) = Some (js, r @ w)"
  "parse_members k v = Some (kvs, r) \<Longrightarrow> k \<le> k' \<Longrightarrow> parse_members k' (v @ w) = Some (kvs, r @ w)"
proof (induction k v and k v and k v arbitrary: k' j r and k' js r and k' kvs r rule: parse_value_parse_elems_parse_members.induct)
  case (2 k v)
  then obtain m where k': "k' = Suc m" "k \<le> m" by (cases k') auto
  obtain c t where t: "skip v = c # t" using 2 by (auto split: list.splits)
  note t' = skip_append [OF t, of w]
  consider "c = CHR ''{''" | "c = CHR ''[''" | "c = CHR 0x22"
    | "c = CHR ''t'' \<or> c = CHR ''f'' \<or> c = CHR ''n''"
    | "c \<notin> {CHR ''{'', CHR ''['', CHR 0x22, CHR ''t'', CHR ''f'', CHR ''n''}" by blast
  then show ?case
  proof cases
    case 1
    then obtain d u where d: "skip t = d # u" using "2.prems"(1) t by (auto split: list.splits)
    note d' = skip_append [OF d, of w]
    show ?thesis
    proof (cases "d = CHR ''}''")
      case True
      with "2.prems"(1) 1 t t' d d' k' show ?thesis by simp
    next
      case False
      then obtain x where x: "parse_members k t = Some (x, r)" "j = JObj x" using "2.prems"(1) 1 t d by auto
      with "2.IH"(1) [OF t 1 d False x(1) k'(2)] 1 t' d' False k' show ?thesis by simp
    qed
  next
    case 2
    then obtain d u where d: "skip t = d # u" using "2.prems"(1) t by (auto split: list.splits)
    note d' = skip_append [OF d, of w]
    show ?thesis
    proof (cases "d = CHR '']''")
      case True
      with "2.prems"(1) 2 t t' d d' k' show ?thesis by simp
    next
      case False
      then obtain x where x: "parse_elems k t = Some (x, r)" "j = JArr x" using "2.prems"(1) 2 t d by auto
      with "2.IH"(2) [OF t _ 2 d False x(1) k'(2)] 2 t' d' False k' show ?thesis by simp
    qed
  next
    case 3
    then obtain x where x: "parse_string (length t) t = Some (x, r)" "j = JStr x" using "2.prems"(1) t by auto
    with parse_string_append [OF x(1), of "length t + length w" w] 3 t' k' show ?thesis by simp
  next
    case 4
    have lit: "literal u x (c # t) = Some (j, r) \<Longrightarrow> literal u x (c # t @ w) = Some (j, r @ w)" for u x c
      using literal_append [of u x "c # t" j r w] by simp
    from 4 "2.prems"(1) t t' k' show ?thesis by (elim disjE) (simp_all add: lit)
  next
    case 5
    then have "parse_number (c # t) = Some (j, r)" using "2.prems"(1) t by simp
    with parse_number_append [OF this, of w] parse_number_number "2.prems"(2) 5 t' k' show ?thesis by auto
  qed
next
  case (4 k v)
  then obtain m where k': "k' = Suc m" "k \<le> m" by (cases k') auto
  obtain x u where x: "parse_value k v = Some (x, u)" using "4.prems" by (auto split: option.splits)
  obtain c t where t: "skip u = c # t" using "4.prems" x by (auto split: list.splits)
  then have "u \<noteq> []" by auto
  then have x': "parse_value m (v @ w) = Some (x, u @ w)" using "4.IH"(1) [OF x _ k'(2)] by simp
  show ?case
  proof (cases "c = CHR '']''")
    case True
    with "4.prems"(1) x x' t skip_append [OF t, of w] k' show ?thesis by simp
  next
    case False
    then obtain y where c: "c = CHR '',''" and y: "parse_elems k t = Some (y, r)" "js = x # y"
      using "4.prems"(1) x t by (auto split: if_splits)
    with "4.IH"(2) [OF x refl t False c y(1) k'(2)] x' skip_append [OF t, of w] k' show ?thesis by simp
  qed
next
  case (6 k v)
  then obtain m where k': "k' = Suc m" "k \<le> m" by (cases k') auto
  obtain t0 where t0: "skip v = CHR 0x22 # t0" using "6.prems" by (auto split: list.splits if_splits option.splits)
  obtain key t1 where t1: "parse_string (length t0) t0 = Some (key, t1)" using "6.prems" t0 by (auto split: option.splits)
  obtain t2 where t2: "skip t1 = CHR '':'' # t2" using "6.prems" t0 t1 by (auto split: list.splits if_splits option.splits)
  obtain x u where x: "parse_value k t2 = Some (x, u)" using "6.prems" t0 t1 t2 by (auto split: option.splits)
  obtain c t where t: "skip u = c # t" using "6.prems" t0 t1 t2 x by (auto split: list.splits)
  then have "u \<noteq> []" by auto
  then have x': "parse_value m (t2 @ w) = Some (x, u @ w)" using "6.IH"(1) [OF t0 _ _ t2 _ x _ k'(2)] t1 by simp
  note all = t0 t1 t2 x t skip_append [OF t0, of w] parse_string_append [OF t1, of "length t0 + length w" w]
    skip_append [OF t2, of w] x' skip_append [OF t, of w]
  show ?case
  proof (cases "c = CHR ''}''")
    case True
    with "6.prems"(1) all k' show ?thesis by simp
  next
    case False
    then obtain y where c: "c = CHR '',''" and y: "parse_members k t = Some (y, r)" "kvs = (key, x) # y"
      using "6.prems"(1) all by (auto split: if_splits)
    from "6.IH"(2) [OF t0 _ _ t2 _ _ t False c y(1) k'(2)] t1 x have "parse_members m (t @ w) = Some (y, r @ w)" by simp
    with c y all k' show ?thesis by simp
  qed
qed auto

text \<open>So no object is the beginning of another: a text cut short does not decode.\<close>

lemma parse_json_cut:
  assumes "parse_value (Suc (length (p @ w))) (p @ w) = Some (j, [])" and "\<not> number j" and "w \<noteq> []"
  shows "parse_json p = None"
proof (rule ccontr)
  assume "parse_json p \<noteq> None"
  then obtain i r where i: "parse_value (Suc (length p)) p = Some (i, r)" "skip r = []"
    by (auto simp: parse_json_def split: option.splits if_splits)
  show False
  proof (cases "r = [] \<and> number i")
    case False
    with parse_append(1) [OF i(1), of "Suc (length (p @ w))" w] assms show False by simp
  next
    case True
    obtain c t where c: "skip p = c # t" using i(1) by (auto split: list.splits)
    have "c \<notin> {CHR ''{'', CHR ''['', CHR 0x22, CHR ''t'', CHR ''f'', CHR ''n''}"
      using i(1) c True by (auto simp: number_def literal_def split: list.splits if_splits)
    with skip_append [OF c, of w] assms(1) have "parse_number (c # t @ w) = Some (j, [])" by auto
    with parse_number_number assms(2) show False by blast
  qed
qed

lemma parse_json_text_cut:
  assumes "plain j" and "\<not> number j" and "k < length (json_text j)"
  shows "parse_json (take k (json_text j)) = None"
proof (rule parse_json_cut)
  show "parse_value (Suc (length (take k (json_text j) @ drop k (json_text j)))) (take k (json_text j) @ drop k (json_text j)) = Some (j, [])"
    unfolding append_take_drop_id using parse_value_text [OF assms(1), of "[]" "Suc (length (json_text j))"] by (simp del: parse_value.simps)
qed (use assms in auto)

end
