(* ===== verification/Journal_Read.thy ===== *)
theory Journal_Read
  imports Json_Parse Segment_Index
begin

text \<open>
  Reading the ingest journal back (\<^verbatim>\<open>internal/recovery/journal.go\<close>, \<open>ReadJournal\<close>): the lines of
  the file as \<^verbatim>\<open>bufio.Scanner\<close> cuts them, each decoded as \<^verbatim>\<open>json.Unmarshal\<close> decodes it into a
  \<^verbatim>\<open>JournalEntry\<close>. What was appended reads back, a torn last line is left out, and a line
  appended behind a torn one is lost. Of a key that an object repeats the last value counts.
\<close>

subsection \<open>Decoding into a struct\<close>

text \<open>Field names match without regard to case; two other letters fold to ASCII ones.\<close>

fun fold_name :: "string \<Rightarrow> string" where
  "fold_name (a # b # c # v) =
     (if a = CHR 0xE2 \<and> b = CHR 0x84 \<and> c = CHR 0xAA then CHR ''k'' # fold_name v
      else if a = CHR 0xC5 \<and> b = CHR 0xBF then CHR ''s'' # fold_name (c # v)
      else lower_char a # fold_name (b # c # v))"
| "fold_name [a, b] = (if a = CHR 0xC5 \<and> b = CHR 0xBF then ''s'' else [lower_char a, lower_char b])"
| "fold_name [a] = [lower_char a]"
| "fold_name [] = []"

text \<open>A field is set from a value, or the value has another type. A null leaves a plain field as
  it is and clears a pointer or a slice. An \<^verbatim>\<open>int\<close> takes integers of 64 bits only.\<close>

definition set_int :: "(int \<Rightarrow> 'a \<Rightarrow> 'a) \<Rightarrow> json \<Rightarrow> 'a \<Rightarrow> 'a option" where
  "set_int f j e = (case j of JNull \<Rightarrow> Some e | JNum i \<Rightarrow> if int64 i then Some (f i e) else None | _ \<Rightarrow> None)"

definition set_string :: "(string \<Rightarrow> 'a \<Rightarrow> 'a) \<Rightarrow> json \<Rightarrow> 'a \<Rightarrow> 'a option" where
  "set_string f j e = (case j of JNull \<Rightarrow> Some e | JStr v \<Rightarrow> Some (f v e) | _ \<Rightarrow> None)"

definition set_int_ptr :: "(int option \<Rightarrow> 'a \<Rightarrow> 'a) \<Rightarrow> json \<Rightarrow> 'a \<Rightarrow> 'a option" where
  "set_int_ptr f j e = (case j of JNull \<Rightarrow> Some (f None e) | _ \<Rightarrow> set_int (\<lambda>i. f (Some i)) j e)"

definition set_string_ptr :: "(string option \<Rightarrow> 'a \<Rightarrow> 'a) \<Rightarrow> json \<Rightarrow> 'a \<Rightarrow> 'a option" where
  "set_string_ptr f j e = (case j of JNull \<Rightarrow> Some (f None e) | _ \<Rightarrow> set_string (\<lambda>v. f (Some v)) j e)"

type_synonym 'a fields = "(string \<times> (json \<Rightarrow> 'a \<Rightarrow> 'a option)) list"

fun decode_fields :: "'a fields \<Rightarrow> (string \<times> json) list \<Rightarrow> 'a \<Rightarrow> 'a option" where
  "decode_fields fs [] e = Some e"
| "decode_fields fs ((k, j) # kvs) e = (case map_of fs (fold_name k) of
       None \<Rightarrow> decode_fields fs kvs e
     | Some f \<Rightarrow> (case f j e of None \<Rightarrow> None | Some e \<Rightarrow> decode_fields fs kvs e))"

definition decode_struct :: "'a fields \<Rightarrow> json \<Rightarrow> 'a \<Rightarrow> 'a option" where
  "decode_struct fs j e = (case j of JNull \<Rightarrow> Some e | JObj kvs \<Rightarrow> decode_fields fs kvs e | _ \<Rightarrow> None)"

definition zero_ref :: FileRef where
  "zero_ref = \<lparr>fr_FileID = 0, fr_BlobHash = [], fr_Role = [], fr_OriginalFilename = None, fr_SequenceNumber = None\<rparr>"

definition ref_fields :: "FileRef fields" where
  "ref_fields =
     [(''file_id'', set_int (\<lambda>i r. r\<lparr>fr_FileID := i\<rparr>)), (''blob_hash'', set_string (\<lambda>v r. r\<lparr>fr_BlobHash := v\<rparr>)),
      (''role'', set_string (\<lambda>v r. r\<lparr>fr_Role := v\<rparr>)),
      (''original_filename'', set_string_ptr (\<lambda>v r. r\<lparr>fr_OriginalFilename := v\<rparr>)),
      (''sequence_number'', set_int_ptr (\<lambda>v r. r\<lparr>fr_SequenceNumber := v\<rparr>))]"

fun decode_refs :: "json list \<Rightarrow> FileRef list option" where
  "decode_refs [] = Some []"
| "decode_refs (j # js) = (case decode_struct ref_fields j zero_ref of
     None \<Rightarrow> None | Some r \<Rightarrow> map_option ((#) r) (decode_refs js))"

definition set_files :: "json \<Rightarrow> JournalEntry \<Rightarrow> JournalEntry option" where
  "set_files j e = (case j of
       JNull \<Rightarrow> Some (e\<lparr>je_Files := None\<rparr>)
     | JArr js \<Rightarrow> map_option (\<lambda>fs. e\<lparr>je_Files := Some fs\<rparr>) (decode_refs js)
     | _ \<Rightarrow> None)"

definition zero_entry :: JournalEntry where
  "zero_entry = \<lparr>Version = 0, je_PackageID = 0, je_SupplierID = 0, je_ReceivedAt = [], je_PackageHash = [], je_PayloadType = [],
     je_StorageMode = [], je_CanonicalPackageID = None, je_OriginalFilename = None, je_FileCount = 0, je_UnpackError = None, je_Files = None\<rparr>"

definition entry_fields :: "JournalEntry fields" where
  "entry_fields =
     [(''v'', set_int (\<lambda>i e. e\<lparr>Version := i\<rparr>)), (''package_id'', set_int (\<lambda>i e. e\<lparr>je_PackageID := i\<rparr>)),
      (''supplier_id'', set_int (\<lambda>i e. e\<lparr>je_SupplierID := i\<rparr>)), (''received_at'', set_string (\<lambda>v e. e\<lparr>je_ReceivedAt := v\<rparr>)),
      (''package_hash'', set_string (\<lambda>v e. e\<lparr>je_PackageHash := v\<rparr>)), (''payload_type'', set_string (\<lambda>v e. e\<lparr>je_PayloadType := v\<rparr>)),
      (''storage_mode'', set_string (\<lambda>v e. e\<lparr>je_StorageMode := v\<rparr>)),
      (''canonical_package_id'', set_int_ptr (\<lambda>v e. e\<lparr>je_CanonicalPackageID := v\<rparr>)),
      (''original_filename'', set_string_ptr (\<lambda>v e. e\<lparr>je_OriginalFilename := v\<rparr>)),
      (''file_count'', set_int (\<lambda>i e. e\<lparr>je_FileCount := i\<rparr>)),
      (''unpack_error'', set_string_ptr (\<lambda>v e. e\<lparr>je_UnpackError := v\<rparr>)), (''files'', set_files)]"

definition bytes_text :: "bytes \<Rightarrow> string" where
  "bytes_text bs = map (\<lambda>b. char_of (unat b)) bs"

definition unmarshal_entry :: "bytes \<Rightarrow> JournalEntry option" where
  "unmarshal_entry bs = (case parse_json (bytes_text bs) of
     None \<Rightarrow> None | Some j \<Rightarrow> decode_struct entry_fields j zero_entry)"

subsection \<open>Lines\<close>

text \<open>The buffer holds a line with its line break, and a last line with one byte left to find the
  end of the file: longer lines stop the scan.\<close>

definition maxTokenSize :: nat where "maxTokenSize = 4 * 1024 * 1024"

definition ErrTooLong :: error where "ErrTooLong = Sentinel ''bufio.Scanner: token too long''"

definition dropCR :: "bytes \<Rightarrow> bytes" where
  "dropCR l = (if l \<noteq> [] \<and> last l = 13 then butlast l else l)"

fun read_lines :: "bytes list \<Rightarrow> JournalEntry list \<Rightarrow> error + JournalEntry list" where
  "read_lines [] out = Inr out"
| "read_lines (l # ls) out =
     (if length l \<ge> maxTokenSize then Inl ErrTooLong
      else if dropCR l = [] then read_lines ls out
      else case unmarshal_entry (dropCR l) of
        None \<Rightarrow> (case ls of
            [] \<Rightarrow> Inr out
          | l' # _ \<Rightarrow> if length l' \<ge> maxTokenSize then Inl ErrTooLong
              else Inl (Wrap ''parse journal line: '' (Err ''invalid entry'') []))
      | Some e \<Rightarrow> read_lines ls (out @ [e]))"

text \<open>The file is read as a whole; a read that fails anywhere makes the call fail.\<close>

definition ReadJournal :: "string \<Rightarrow> disk \<Rightarrow> (disk, JournalEntry list) result" where
  "ReadJournal path d = (case os_ReadFile path d of
       (Inl e, d) \<Rightarrow> if errors_Is e enoent then (Inr [], d) else (Inl e, d)
     | (Inr bs, d) \<Rightarrow> (read_lines (split_lines bs) [], d))"

subsection \<open>Entries round-trip\<close>

definition opt_int64 :: "int option \<Rightarrow> bool" where
  "opt_int64 v = (case v of None \<Rightarrow> True | Some i \<Rightarrow> int64 i)"

definition ref_range :: "FileRef \<Rightarrow> bool" where
  "ref_range r \<longleftrightarrow> int64 (fr_FileID r) \<and> opt_int64 (fr_SequenceNumber r)"

definition entry_range :: "JournalEntry \<Rightarrow> bool" where
  "entry_range e \<longleftrightarrow> int64 (Version e) \<and> int64 (je_PackageID e) \<and> int64 (je_SupplierID e) \<and> int64 (je_FileCount e)
     \<and> opt_int64 (je_CanonicalPackageID e) \<and> list_all ref_range (case je_Files e of None \<Rightarrow> [] | Some fs \<Rightarrow> fs)"

definition stored_entry :: "JournalEntry \<Rightarrow> JournalEntry" where
  "stored_entry e = (if Version e = 0 then e\<lparr>Version := journalVersion\<rparr> else e)"

lemma bytes_text_text_bytes [simp]: "bytes_text (text_bytes v) = v"
proof -
  have "unat (of_nat (of_char c) :: byte) = of_char c" for c
    using of_char_less [of c] by (simp add: unat_of_nat)
  then show ?thesis by (simp add: bytes_text_def text_bytes_def comp_def)
qed

lemma fold_name_fields:
  "fold_name ''file_id'' = ''file_id''" "fold_name ''blob_hash'' = ''blob_hash''" "fold_name ''role'' = ''role''"
  "fold_name ''original_filename'' = ''original_filename''" "fold_name ''sequence_number'' = ''sequence_number''"
  "fold_name ''v'' = ''v''" "fold_name ''package_id'' = ''package_id''" "fold_name ''supplier_id'' = ''supplier_id''"
  "fold_name ''received_at'' = ''received_at''" "fold_name ''package_hash'' = ''package_hash''"
  "fold_name ''payload_type'' = ''payload_type''" "fold_name ''storage_mode'' = ''storage_mode''"
  "fold_name ''canonical_package_id'' = ''canonical_package_id''" "fold_name ''file_count'' = ''file_count''"
  "fold_name ''unpack_error'' = ''unpack_error''" "fold_name ''files'' = ''files''"
  by code_simp+

declare fold_name.simps [simp del]

lemma decode_file_json: "ref_range r \<Longrightarrow> decode_struct ref_fields (file_json r) zero_ref = Some r"
  by (cases "fr_OriginalFilename r"; cases "fr_SequenceNumber r")
    (simp_all add: decode_struct_def file_json_def ref_fields_def fold_name_fields omitempty_def set_int_def set_string_def
      set_string_ptr_def set_int_ptr_def zero_ref_def ref_range_def opt_int64_def)

lemma decode_refs_json: "list_all ref_range fs \<Longrightarrow> decode_refs (map file_json fs) = Some fs"
  by (induction fs) (simp_all add: decode_file_json)

lemma set_files_json: "list_all ref_range (case v of None \<Rightarrow> [] | Some fs \<Rightarrow> fs) \<Longrightarrow>
  set_files (case v of None \<Rightarrow> JNull | Some fs \<Rightarrow> JArr (map file_json fs)) e = Some (e\<lparr>je_Files := v\<rparr>)"
  by (cases v) (simp_all add: set_files_def decode_refs_json)

lemma decode_entry_json: "entry_range e \<Longrightarrow> decode_struct entry_fields (entry_json e) zero_entry = Some e"
  by (cases "je_CanonicalPackageID e"; cases "je_OriginalFilename e"; cases "je_UnpackError e")
    (simp_all add: decode_struct_def entry_json_def entry_fields_def fold_name_fields omitempty_def set_int_def set_string_def
      set_string_ptr_def set_int_ptr_def zero_entry_def entry_range_def opt_int64_def set_files_json)

lemma plain_file_json: "plain (file_json r)"
  by (auto simp: file_json_def omitempty_def split: option.splits)

lemma plain_entry_json: "plain (entry_json e)"
  using plain_file_json by (auto simp: entry_json_def omitempty_def split: option.splits)

lemma unmarshal_marshal: "entry_range e \<Longrightarrow> unmarshal_entry (marshal_entry e) = Some (stored_entry e)"
proof -
  assume "entry_range e"
  then have "entry_range (stored_entry e)" by (auto simp: entry_range_def stored_entry_def int64_def journalVersion_def)
  then show ?thesis
    by (simp add: unmarshal_entry_def marshal_entry_def parse_json_text [OF plain_entry_json] decode_entry_json flip: stored_entry_def)
qed

subsection \<open>What was appended reads back\<close>

definition readable :: "JournalEntry \<Rightarrow> bool" where
  "readable e \<longleftrightarrow> entry_range e \<and> length (marshal_entry e) < maxTokenSize"

lemma json_text_obj_last: "last (json_text (JObj kvs)) = CHR ''}''"
  by simp

lemma dropCR_marshal: "dropCR (marshal_entry e) = marshal_entry e"
proof -
  have "last (marshal_entry e) = of_nat (of_char (last (json_text (entry_json (stored_entry e)))))"
    by (simp add: marshal_entry_def text_bytes_def stored_entry_def last_map entry_json_def)
  then have "last (marshal_entry e) = 125" unfolding entry_json_def json_text_obj_last by simp
  then show ?thesis by (simp add: dropCR_def)
qed

lemma read_lines_entries:
  "list_all readable es \<Longrightarrow> read_lines (map marshal_entry es @ ls) out = read_lines ls (out @ map stored_entry es)"
proof (induction es arbitrary: out)
  case (Cons e es)
  then have "length (marshal_entry e) < maxTokenSize" "unmarshal_entry (marshal_entry e) = Some (stored_entry e)"
    by (auto simp: readable_def unmarshal_marshal)
  with Cons show ?case by (simp add: dropCR_marshal marshal_entry_nonempty)
qed simp

text \<open>A cut line is empty or does not decode.\<close>

lemma take_text_bytes: "take k (text_bytes v) = text_bytes (take k v)"
  by (simp add: text_bytes_def take_map)

lemma unmarshal_cut: "k < length (marshal_entry e) \<Longrightarrow> unmarshal_entry (take k (marshal_entry e)) = None"
proof -
  assume k: "k < length (marshal_entry e)"
  let ?j = "entry_json (stored_entry e)"
  have m: "marshal_entry e = text_bytes (json_text ?j)" by (simp add: marshal_entry_def stored_entry_def)
  have "length (marshal_entry e) = length (json_text ?j)" by (simp add: m text_bytes_def)
  moreover have "\<not> number ?j" by (simp add: entry_json_def number_def)
  ultimately have "parse_json (take k (json_text ?j)) = None" using parse_json_text_cut [OF plain_entry_json] k by simp
  then show ?thesis by (simp add: unmarshal_entry_def m take_text_bytes)
qed

lemma dropCR_cut: "dropCR (take k (marshal_entry e)) = take k (marshal_entry e)"
proof -
  have "last (take k (marshal_entry e)) \<noteq> 13" if "take k (marshal_entry e) \<noteq> []"
    using marshal_entry_printable [of 13 e] in_set_takeD [OF last_in_set [OF that]] by auto
  then show ?thesis by (auto simp: dropCR_def)
qed

abbreviation journal_text :: "JournalEntry list \<Rightarrow> bytes" where
  "journal_text es \<equiv> concat (map (\<lambda>e. marshal_entry e @ [10]) es)"

lemma split_lines_single: "10 \<notin> set l \<Longrightarrow> l \<noteq> [] \<Longrightarrow> split_lines l = [l]"
  by (induction l rule: induct_list012) auto

lemma split_journal_text: "split_lines (journal_text es @ bs) = map marshal_entry es @ split_lines bs"
  using split_lines_append [of "map marshal_entry es" bs] marshal_entry_no_newline by (simp add: comp_def)

lemma read_cut_line:
  assumes "readable e"
  shows "read_lines (split_lines (take k (marshal_entry e))) out
    = Inr (out @ (if k < length (marshal_entry e) then [] else [stored_entry e]))"
proof (cases "k = 0")
  case False
  have "split_lines (take k (marshal_entry e)) = [take k (marshal_entry e)]"
    using marshal_entry_no_newline [of e] marshal_entry_nonempty False by (intro split_lines_single) (auto dest: in_set_takeD)
  moreover have "length (take k (marshal_entry e)) < maxTokenSize" using assms by (simp add: readable_def min_less_iff_disj)
  moreover have "unmarshal_entry (marshal_entry e) = Some (stored_entry e)" using assms by (simp add: readable_def unmarshal_marshal)
  ultimately show ?thesis using unmarshal_cut [of k e] False marshal_entry_nonempty [of e]
    by (cases "k < length (marshal_entry e)") (auto simp: dropCR_cut dropCR_marshal)
qed (simp add: marshal_entry_nonempty)

lemma read_journal_text: "list_all readable es \<Longrightarrow> read_lines (split_lines (journal_text es)) [] = Inr (map stored_entry es)"
  using split_journal_text [of es "[]"] read_lines_entries [of es "[]" "[]"] by simp

lemma read_torn_text: "list_all readable es \<Longrightarrow> readable e \<Longrightarrow>
  read_lines (split_lines (journal_text es @ take k (marshal_entry e @ [10]))) []
    = Inr (map stored_entry (es @ (if k < length (marshal_entry e) then [] else [e])))"
proof (cases "k \<le> length (marshal_entry e)")
  case True
  assume "list_all readable es" "readable e"
  with True read_lines_entries [of es "split_lines (take k (marshal_entry e))" "[]"] read_cut_line [of e k "map stored_entry es"]
  show ?thesis by (simp add: split_journal_text)
next
  case False
  assume "list_all readable es" "readable e"
  then have "list_all readable (es @ [e])" by simp
  from read_journal_text [OF this] False show ?thesis by simp
qed

lemma ReadJournal_healthy: "dlookup d path = Some f \<Longrightarrow>
  fst (ReadJournal path (d\<lparr>dio := []\<rparr>)) = read_lines (split_lines (fdata f)) []"
  by (simp add: ReadJournal_def os_ReadFile_def next_io_nofault)

text \<open>
  C32 (roundtrip). Take a journal that consists of whole entries and is on stable storage, and append
  entries to it one after the other, each append acknowledged. If the numbers of all entries are
  64-bit integers and their lines shorter than the 4 MiB that the reader accepts, they read back,
  behind the entries the journal held, in order and unchanged but for the version number that
  \<^verbatim>\<open>Append\<close> fills in.
\<close>

theorem journal_reads_back:
  assumes "dlookup (jn_disk j) JournalFile = Some f" and "fsynced f = length (fdata f)" and "fdata f = journal_text es0"
    and "journal_all es j = (Inr u, j')" and "list_all readable (es0 @ es)"
  shows "fst (ReadJournal JournalFile (jn_disk j'\<lparr>dio := []\<rparr>)) = Inr (map stored_entry (es0 @ es))"
proof -
  obtain g where g: "dlookup (jn_disk j') JournalFile = Some g" "fdata g = fdata f @ journal_text es"
    using journal_all_data [OF assms(4,1,2)] by blast
  then have "fdata g = journal_text (es0 @ es)" using assms(3) by simp
  with g(1) assms(5) show ?thesis by (simp only: ReadJournal_healthy read_journal_text)
qed

lemma readable_sample: "readable Journal.sample_entry"
  using arg_cong [OF Journal.sample_entry_text, of length]
  by (simp add: readable_def entry_range_def int64_def opt_int64_def marshal_entry_def text_bytes_def Journal.sample_entry_def
      journalVersion_def maxTokenSize_def)

theorem journal_reads_back_witness:
  "\<exists>j. journal_all [Journal.sample_entry, Journal.sample_entry] (empty_journal []) = (Inr (), j)
     \<and> fst (ReadJournal JournalFile (jn_disk j\<lparr>dio := []\<rparr>)) = Inr [Journal.sample_entry\<lparr>Version := 1\<rparr>, Journal.sample_entry\<lparr>Version := 1\<rparr>]"
proof -
  obtain j where j: "journal_all [Journal.sample_entry, Journal.sample_entry] (empty_journal []) = (Inr (), j)"
    by (simp add: empty_journal_def Journal_Append_def jn_write_def on_jn_def os_WriteAt_def os_Sync_def next_io_def put_file_def)
  have s: "stored_entry Journal.sample_entry = Journal.sample_entry\<lparr>Version := 1\<rparr>" by (simp add: stored_entry_def Journal.sample_entry_def journalVersion_def)
  from journal_reads_back [of "empty_journal []" empty_file "[]", OF _ _ _ j] readable_sample j show ?thesis
    by (auto simp: empty_journal_def empty_file_def s)
qed

lemma Journal_Append_file:
  assumes "Journal_Append e j = (r, j')" and "dlookup (jn_disk j) JournalFile = Some f"
  shows "\<exists>g k. dlookup (jn_disk j') JournalFile = Some g \<and> fdata g = fdata f @ take k (marshal_entry e @ [10])
    \<and> (r = Inr () \<longrightarrow> length (marshal_entry e) < k)"
proof -
  obtain r1 j1 where w1: "jn_write (marshal_entry e) j = (r1, j1)" by fastforce
  obtain k1 g1 where g1: "dlookup (jn_disk j1) JournalFile = Some g1" "fdata g1 = fdata f @ take k1 (marshal_entry e)"
      "\<forall>x. r1 = Inr x \<longrightarrow> k1 = length (marshal_entry e)" using jn_write_own [OF w1 assms(2)] by blast
  obtain r2 j2 where w2: "jn_write [10] j1 = (r2, j2)" by fastforce
  obtain k2 g2 where g2: "dlookup (jn_disk j2) JournalFile = Some g2" "fdata g2 = fdata g1 @ take k2 [10]"
      "\<forall>x. r2 = Inr x \<longrightarrow> k2 = length [10 :: byte]" using jn_write_own [OF w2 g1(1)] by blast
  show ?thesis
  proof (cases r1)
    case (Inl x)
    then have "r = Inl x" "j' = j1" using assms(1) w1 by (auto simp: Journal_Append_def)
    then show ?thesis using g1 by (intro exI [of _ g1] exI [of _ "min k1 (length (marshal_entry e))"]) (simp add: min_def)
  next
    case (Inr n)
    then have k1: "k1 = length (marshal_entry e)" using g1(3) by blast
    show ?thesis
    proof (cases r2)
      case (Inl x)
      then have "r = Inl x" "j' = j2" using assms(1) w1 w2 Inr by (auto simp: Journal_Append_def)
      then show ?thesis using g1 g2 k1 by (intro exI [of _ g2] exI [of _ "k1 + k2"]) simp
    next
      case Inr2: (Inr m)
      obtain d where s: "os_Sync JournalFile (jn_disk j2) = (r, d)" "j' = j2\<lparr>jn_disk := d\<rparr>"
        using assms(1) w1 w2 Inr Inr2 by (auto simp: Journal_Append_def on_jn_def split: prod.splits)
      from os_Sync_own [OF s(1) g2(1)] obtain g3 where "dlookup d JournalFile = Some g3" "fdata g3 = fdata g2" by auto
      then show ?thesis using g1 g2 k1 Inr2 s(2) by (intro exI [of _ g3] exI [of _ "Suc k1"]) simp
    qed
  qed
qed

text \<open>
  C33 (safety). An append to a journal of whole entries is all or nothing for the next reader, as long
  as the numbers of the entries, the new one included, are 64-bit integers and their lines shorter
  than the 4 MiB that the reader accepts. Whichever call fails and at whatever byte the write
  stops, the journal still reads back: as the entries it held, or as these and the new one, and
  always with the new one when the append was acknowledged.
\<close>

theorem journal_append_atomic:
  assumes "dlookup (jn_disk j) JournalFile = Some f" and "fdata f = journal_text es"
    and "list_all readable (es @ [e])" and "Journal_Append e j = (r, j')"
  shows "\<exists>es'. fst (ReadJournal JournalFile (jn_disk j'\<lparr>dio := []\<rparr>)) = Inr (map stored_entry es')
    \<and> (es' = es @ [e] \<or> es' = es \<and> r \<noteq> Inr ())"
proof -
  obtain g k where g: "dlookup (jn_disk j') JournalFile = Some g" "fdata g = fdata f @ take k (marshal_entry e @ [10])"
    "r = Inr () \<longrightarrow> length (marshal_entry e) < k" using Journal_Append_file [OF assms(4,1)] by blast
  have "fst (ReadJournal JournalFile (jn_disk j'\<lparr>dio := []\<rparr>))
      = Inr (map stored_entry (es @ (if k < length (marshal_entry e) then [] else [e])))"
    unfolding ReadJournal_healthy [OF g(1)] g(2) assms(2) using assms(3) by (intro read_torn_text) auto
  with g(3) show ?thesis by (intro exI [of _ "es @ (if k < length (marshal_entry e) then [] else [e])"]) auto
qed

theorem journal_append_atomic_witness:
  "\<exists>j es'. Journal_Append Journal.sample_entry (empty_journal [Fail 5 ''disk full'']) = (Inl (Err ''disk full''), j)
     \<and> fst (ReadJournal JournalFile (jn_disk j\<lparr>dio := []\<rparr>)) = Inr (map stored_entry es')
     \<and> (es' = [] \<or> es' = [Journal.sample_entry])"
proof -
  obtain j where j: "Journal_Append Journal.sample_entry (empty_journal [Fail 5 ''disk full'']) = (Inl (Err ''disk full''), j)"
    by (simp add: empty_journal_def Journal_Append_def jn_write_def on_jn_def os_WriteAt_def next_io_def)
  from journal_append_atomic [of "empty_journal [Fail 5 ''disk full'']" empty_file "[]", OF _ _ _ j] readable_sample j
  show ?thesis by (fastforce simp: empty_journal_def empty_file_def)
qed

end
