(* ===== verification/Sidecar.thy ===== *)
theory Sidecar
  imports Journal_Read Sha256
begin

text \<open>
  The dictionary beside the data (\<^verbatim>\<open>internal/compress/sidecar.go\<close>): a directory of its own, in which
  \<^verbatim>\<open>current.json\<close> names the file that holds the compression dictionary. Saving writes new files
  aside and renames them, so that at every moment one whole dictionary is current. The name in
  \<^verbatim>\<open>current.json\<close> is looked up in the directory as it stands.
\<close>

subsection \<open>Files that are created, renamed and removed\<close>

text \<open>\<^verbatim>\<open>os.MkdirAll\<close> and \<^verbatim>\<open>File.Close\<close> take an element of the schedule and change no file.\<close>

definition os_step :: "disk \<Rightarrow> (disk, unit) result" where
  "os_step d = (case next_io d of (Some m, _, d) \<Rightarrow> (Inl (Err m), d) | (None, _, d) \<Rightarrow> (Inr (), d))"

definition os_CreateTrunc :: "string \<Rightarrow> disk \<Rightarrow> (disk, unit) result" where
  "os_CreateTrunc n d = tryE (os_step d) (\<lambda>_ d. (Inr (), put_file n empty_file d))"

definition drop_file :: "string \<Rightarrow> disk \<Rightarrow> disk" where
  "drop_file n d = d\<lparr>dfiles := filter (\<lambda>nf. fst nf \<noteq> n) (dfiles d)\<rparr>"

definition os_Remove :: "string \<Rightarrow> disk \<Rightarrow> (disk, unit) result" where
  "os_Remove n d = tryE (os_step d) (\<lambda>_ d. case dlookup d n of None \<Rightarrow> (Inl enoent, d) | Some _ \<Rightarrow> (Inr (), drop_file n d))"

definition os_Rename :: "string \<Rightarrow> string \<Rightarrow> disk \<Rightarrow> (disk, unit) result" where
  "os_Rename a b d = tryE (os_step d) (\<lambda>_ d. case dlookup d a of
     None \<Rightarrow> (Inl enoent, d) | Some f \<Rightarrow> (Inr (), put_file b f (drop_file a d)))"

subsection \<open>The sidecar\<close>

record currentMeta =
  cm_DictID :: int
  cm_SHA256 :: string
  cm_Filename :: string

definition current_json :: string where "current_json = ''current.json''"

definition dictFilename :: "int \<Rightarrow> string \<Rightarrow> string" where
  "dictFilename i sha = ''dict_'' @ sprintf04 i @ ''_'' @ (if length sha > 16 then take 16 sha else sha) @ ''.zdict''"

text \<open>\<^verbatim>\<open>json.MarshalIndent(meta, "", "  ")\<close> of a struct with scalar fields.\<close>

definition indent_member :: "string \<times> json \<Rightarrow> string" where
  "indent_member kv = CHR 0x0A # ''  '' @ json_string (fst kv) @ '': '' @ json_text (snd kv)"

definition indent_text :: "(string \<times> json) list \<Rightarrow> string" where
  "indent_text kvs = ''{'' @ commas (map indent_member kvs) @ [CHR 0x0A, CHR ''}'']"

definition meta_members :: "currentMeta \<Rightarrow> (string \<times> json) list" where
  "meta_members m = [(''dict_id'', JNum (cm_DictID m)), (''sha256'', JStr (cm_SHA256 m)), (''filename'', JStr (cm_Filename m))]"

definition sha_hex :: "bytes \<Rightarrow> string" where
  "sha_hex bs = hex_EncodeToString (Sum256 bs)"

definition meta_of :: "int \<Rightarrow> bytes \<Rightarrow> currentMeta" where
  "meta_of i bs = \<lparr>cm_DictID = i, cm_SHA256 = sha_hex bs, cm_Filename = dictFilename i (sha_hex bs)\<rparr>"

text \<open>A failed write or sync closes and removes the temporary file and reports its own error.\<close>

definition discard_tmp :: "string \<Rightarrow> (disk, 'a) result \<Rightarrow> (disk, 'a) result" where
  "discard_tmp tmp r = (case r of
       (Inl e, d) \<Rightarrow> (Inl e, snd (os_Remove tmp (snd (os_step d))))
     | (Inr x, d) \<Rightarrow> (Inr x, d))"

definition write_tmp :: "string \<Rightarrow> bytes \<Rightarrow> disk \<Rightarrow> (disk, unit) result" where
  "write_tmp tmp bs d =
     tryE (os_CreateTrunc tmp d) (\<lambda>_ d.
     tryE (discard_tmp tmp (os_WriteAt tmp bs 0 d)) (\<lambda>_ d.
     tryE (discard_tmp tmp (os_Sync tmp d)) (\<lambda>_ d. os_step d)))"

definition Save_sidecar :: "int \<Rightarrow> bytes \<Rightarrow> disk \<Rightarrow> (disk, unit) result" where
  "Save_sidecar i bs d =
     (if bs = [] then (Inr (), d)
      else let m = meta_of i bs; tmp = cm_Filename m @ ''.tmp''; curTmp = current_json @ ''.tmp'' in
        tryE (os_step d) (\<lambda>_ d.
        tryE (write_tmp tmp bs d) (\<lambda>_ d.
        tryE (os_Rename tmp (cm_Filename m) d) (\<lambda>_ d.
        tryE (os_WriteFile curTmp (text_bytes (indent_text (meta_members m))) d) (\<lambda>_ d.
        os_Rename curTmp current_json d)))))"

definition zero_meta :: currentMeta where
  "zero_meta = \<lparr>cm_DictID = 0, cm_SHA256 = [], cm_Filename = []\<rparr>"

definition meta_fields :: "currentMeta fields" where
  "meta_fields = [(''dict_id'', set_int (\<lambda>i m. m\<lparr>cm_DictID := i\<rparr>)), (''sha256'', set_string (\<lambda>v m. m\<lparr>cm_SHA256 := v\<rparr>)),
     (''filename'', set_string (\<lambda>v m. m\<lparr>cm_Filename := v\<rparr>))]"

definition unmarshal_meta :: "bytes \<Rightarrow> currentMeta option" where
  "unmarshal_meta bs = (case parse_json (bytes_text bs) of
     None \<Rightarrow> None | Some j \<Rightarrow> decode_struct meta_fields j zero_meta)"

definition LoadCurrent :: "disk \<Rightarrow> (disk, int \<times> bytes) result" where
  "LoadCurrent d = (case os_ReadFile current_json d of
       (Inl e, d) \<Rightarrow> if errors_Is e enoent then (Inr (0, []), d) else (Inl e, d)
     | (Inr mb, d) \<Rightarrow> (case unmarshal_meta mb of
           None \<Rightarrow> (Inl (Err ''invalid JSON''), d)
         | Some m \<Rightarrow> tryE (os_ReadFile (cm_Filename m) d) (\<lambda>bs d.
             if sha_hex bs \<noteq> cm_SHA256 m then (Inl (Err ''dictionary checksum mismatch''), d)
             else (Inr (cm_DictID m, bs), d))))"

subsection \<open>The description of the current dictionary round-trips\<close>

lemma parse_indent_members:
  assumes "\<forall>kv\<in>set kvs. plain (snd kv)" and "kvs \<noteq> []" and "length (commas (map indent_member kvs)) + 2 \<le> k"
  shows "parse_members k (commas (map indent_member kvs) @ CHR 0x0A # CHR ''}'' # rest) = Some (kvs, rest)"
  using assms
proof (induction kvs arbitrary: k)
  case (Cons kv kvs)
  then obtain m where k: "k = Suc m" by (cases k) auto
  have [simp]: "is_ws (CHR 0x0A)" "is_ws (CHR '' '')" by (simp_all add: is_ws_def)
  have skip: "parse_value m (CHR '' '' # v) = parse_value m v" for v by (cases m) simp_all
  have st: "stops (CHR 0x0A # v)" for v by (simp add: stops_def is_digit_def)
  show ?case
  proof (cases kvs)
    case Nil
    then have "parse_value m (json_text (snd kv) @ CHR 0x0A # CHR ''}'' # rest) = Some (snd kv, CHR 0x0A # CHR ''}'' # rest)"
      using Cons.prems k st by (intro parse_value_text) (auto simp: indent_member_def)
    with Nil k show ?thesis by (simp add: indent_member_def json_string_def parse_string_json skip)
  next
    case (Cons w ws)
    let ?r = "commas (map indent_member kvs) @ CHR 0x0A # CHR ''}'' # rest"
    have "parse_value m (json_text (snd kv) @ CHR '','' # ?r) = Some (snd kv, CHR '','' # ?r)"
      using Cons.prems k Cons by (intro parse_value_text) (auto simp: indent_member_def)
    moreover have "parse_members m ?r = Some (kvs, rest)"
      using Cons.prems k Cons by (intro Cons.IH) (auto simp: indent_member_def)
    ultimately show ?thesis using k Cons
      by (simp add: indent_member_def [of kv] json_string_def parse_string_json skip)
  qed
qed simp

lemma parse_indent_text: "\<forall>kv\<in>set kvs. plain (snd kv) \<Longrightarrow> kvs \<noteq> [] \<Longrightarrow> parse_json (indent_text kvs) = Some (JObj kvs)"
proof -
  assume a: "\<forall>kv\<in>set kvs. plain (snd kv)" "kvs \<noteq> []"
  have p: "parse_members (length (indent_text kvs)) (commas (map indent_member kvs) @ [CHR 0x0A, CHR ''}'']) = Some (kvs, [])"
    using parse_indent_members [OF a, of "length (indent_text kvs)" "[]"] by (simp add: indent_text_def del: parse_members.simps)
  obtain v where v: "commas (map indent_member kvs) = CHR 0x0A # CHR '' '' # CHR '' '' # CHR 0x22 # v"
    using a(2) by (cases kvs; cases "tl kvs") (auto simp: indent_member_def json_string_def)
  have "skip (commas (map indent_member kvs) @ [CHR 0x0A, CHR ''}'']) = CHR 0x22 # v @ [CHR 0x0A, CHR ''}'']"
    unfolding v by (simp add: is_ws_def)
  with p show ?thesis by (simp add: parse_json_def indent_text_def del: parse_members.simps)
qed

lemma unmarshal_meta_text: "int64 (cm_DictID m) \<Longrightarrow> unmarshal_meta (text_bytes (indent_text (meta_members m))) = Some m"
proof -
  assume i: "int64 (cm_DictID m)"
  have "fold_name ''dict_id'' = ''dict_id''" "fold_name ''sha256'' = ''sha256''" "fold_name ''filename'' = ''filename''" by code_simp+
  then have "decode_struct meta_fields (JObj (meta_members m)) zero_meta = Some m" using i
    by (simp add: decode_struct_def meta_fields_def meta_members_def set_int_def set_string_def zero_meta_def)
  moreover have "parse_json (indent_text (meta_members m)) = Some (JObj (meta_members m))"
    by (rule parse_indent_text) (simp_all add: meta_members_def)
  ultimately show ?thesis by (simp add: unmarshal_meta_def)
qed

subsection \<open>What each call leaves\<close>

lemma dlookup_drop_file [simp]: "dlookup (drop_file a d) n = (if n = a then None else dlookup d n)"
proof -
  have "map_of (filter (\<lambda>nf. fst nf \<noteq> a) xs) n = (if n = a then None else map_of xs n)" for xs :: "(string \<times> dfile) list"
    by (induction xs) auto
  then show ?thesis by (simp add: drop_file_def)
qed

lemma os_step_frame: "os_step d = (r, d') \<Longrightarrow> dlookup d' = dlookup d"
  by (auto simp: os_step_def dlookup_next_io split: prod.splits option.splits)

lemma snd_os_step [simp]: "dlookup (snd (os_step d)) = dlookup d"
  using os_step_frame [of d "fst (os_step d)" "snd (os_step d)"] by simp

lemma os_Remove_other: "os_Remove n d = (r, d') \<Longrightarrow> m \<noteq> n \<Longrightarrow> dlookup d' m = dlookup d m"
  by (auto simp: os_Remove_def elim!: tryE_E dest!: os_step_frame split: option.splits)

lemma os_CreateTrunc_other: "os_CreateTrunc n d = (r, d') \<Longrightarrow> m \<noteq> n \<Longrightarrow> dlookup d' m = dlookup d m"
  by (auto simp: os_CreateTrunc_def elim!: tryE_E dest!: os_step_frame)

lemma os_CreateTrunc_Inr: "os_CreateTrunc n d = (Inr u, d') \<Longrightarrow> dlookup d' n = Some empty_file"
  by (auto simp: os_CreateTrunc_def elim!: tryE_E)

lemma os_Rename_cases:
  assumes "os_Rename a b d = (r, d')"
  shows "(r \<noteq> Inr () \<and> dlookup d' = dlookup d)
    \<or> (\<exists>f. r = Inr () \<and> dlookup d a = Some f \<and> dlookup d' = (dlookup d)(a := None, b \<mapsto> f))"
  using assms by (auto simp: os_Rename_def fun_eq_iff elim!: tryE_E dest!: os_step_frame split: option.splits)

lemma discard_tmp_other:
  assumes "discard_tmp tmp r0 = (r, d')" and "\<And>m. m \<noteq> tmp \<Longrightarrow> dlookup (snd r0) m = dlookup d m" and "m \<noteq> tmp"
  shows "dlookup d' m = dlookup d m"
proof (cases "fst r0")
  case (Inl e)
  obtain d1 where r0: "r0 = (Inl e, d1)" using Inl by (cases r0) auto
  obtain r2 d2 where rm: "os_Remove tmp (snd (os_step d1)) = (r2, d2)" by fastforce
  have "dlookup d2 m = dlookup d1 m" using os_Remove_other [OF rm assms(3)] by simp
  with assms r0 rm show ?thesis by (auto simp: discard_tmp_def)
next
  case (Inr x)
  then show ?thesis using assms by (cases r0) (auto simp: discard_tmp_def)
qed

lemma discard_tmp_Inr: "discard_tmp tmp r0 = (Inr x, d') \<Longrightarrow> r0 = (Inr x, d')"
  by (auto simp: discard_tmp_def split: prod.splits sum.splits)

definition holds_file :: "disk \<Rightarrow> string \<Rightarrow> bytes \<Rightarrow> bool" where
  "holds_file d n bs \<longleftrightarrow> map_option fdata (dlookup d n) = Some bs"

lemma write_tmp_other:
  assumes "write_tmp tmp bs d = (r, d')" and "m \<noteq> tmp"
  shows "dlookup d' m = dlookup d m"
  using assms(1) unfolding write_tmp_def
proof (elim tryE_E)
  fix e assume "os_CreateTrunc tmp d = (Inl e, d')"
  then show ?thesis using os_CreateTrunc_other assms(2) by blast
next
  fix u d1 e assume c: "os_CreateTrunc tmp d = (Inr u, d1)" and w: "discard_tmp tmp (os_WriteAt tmp bs 0 d1) = (Inl e, d')"
  have "dlookup d' m = dlookup d1 m" by (rule discard_tmp_other [OF w _ assms(2)]) (metis os_WriteAt_other prod.collapse)
  then show ?thesis using os_CreateTrunc_other [OF c assms(2)] by simp
next
  fix u d1 n d2 e assume c: "os_CreateTrunc tmp d = (Inr u, d1)" and w: "discard_tmp tmp (os_WriteAt tmp bs 0 d1) = (Inr n, d2)"
    and s: "discard_tmp tmp (os_Sync tmp d2) = (Inl e, d')"
  have "dlookup d' m = dlookup d2 m" by (rule discard_tmp_other [OF s _ assms(2)]) (metis os_Sync_other prod.collapse)
  then show ?thesis using os_CreateTrunc_other [OF c assms(2)] os_WriteAt_other [OF discard_tmp_Inr [OF w] assms(2)] by simp
next
  fix u d1 n d2 v d3 assume c: "os_CreateTrunc tmp d = (Inr u, d1)" and w: "discard_tmp tmp (os_WriteAt tmp bs 0 d1) = (Inr n, d2)"
    and s: "discard_tmp tmp (os_Sync tmp d2) = (Inr v, d3)" and e: "os_step d3 = (r, d')"
  show ?thesis using os_CreateTrunc_other [OF c assms(2)] os_WriteAt_other [OF discard_tmp_Inr [OF w] assms(2)]
    os_Sync_other [OF discard_tmp_Inr [OF s] assms(2)] os_step_frame [OF e] by simp
qed

lemma write_tmp_Inr: "write_tmp tmp bs d = (Inr u, d') \<Longrightarrow> holds_file d' tmp bs"
proof -
  assume "write_tmp tmp bs d = (Inr u, d')"
  then obtain u1 d1 n d2 v d3 where c: "os_CreateTrunc tmp d = (Inr u1, d1)" and w: "os_WriteAt tmp bs 0 d1 = (Inr n, d2)"
    and s: "os_Sync tmp d2 = (Inr v, d3)" and e: "os_step d3 = (Inr u, d')"
    unfolding write_tmp_def by (fastforce simp: tryE_Inr_iff dest!: discard_tmp_Inr)
  have "dlookup d2 tmp = Some (file_write 0 bs empty_file)" using os_WriteAt_own [OF w os_CreateTrunc_Inr [OF c]] by simp
  then have "\<exists>f. dlookup d3 tmp = Some f \<and> fdata f = bs"
    using os_Sync_own [OF s] by (force simp: file_write_def empty_file_def write_bytes_def)
  then show ?thesis using os_step_frame [OF e] by (auto simp: holds_file_def)
qed

subsection \<open>Saving is atomic\<close>

text \<open>The current dictionary is \<open>bs\<close> with number \<open>i\<close>.\<close>

abbreviation dict_file :: "int \<Rightarrow> bytes \<Rightarrow> string" where
  "dict_file i bs \<equiv> cm_Filename (meta_of i bs)"

definition sidecar_holds :: "int \<Rightarrow> bytes \<Rightarrow> disk \<Rightarrow> bool" where
  "sidecar_holds i bs d \<longleftrightarrow> holds_file d current_json (text_bytes (indent_text (meta_members (meta_of i bs))))
     \<and> holds_file d (dict_file i bs) bs"

lemma dict_names: "dict_file i bs \<noteq> current_json" "dict_file i bs @ ''.tmp'' \<noteq> current_json"
  "dict_file i bs \<noteq> current_json @ ''.tmp''" "dict_file i bs @ ''.tmp'' \<noteq> current_json @ ''.tmp''"
  "dict_file i bs \<noteq> dict_file j cs @ ''.tmp''"
proof -
  have "last (dict_file i bs) = CHR ''t''" "last (dict_file j cs @ ''.tmp'') = CHR ''p''"
    by (simp_all add: meta_of_def dictFilename_def)
  then show "dict_file i bs \<noteq> dict_file j cs @ ''.tmp''" by auto
qed (simp_all add: meta_of_def dictFilename_def current_json_def)

text \<open>The files a save may touch before it makes its dictionary current.\<close>

definition saving :: "int \<Rightarrow> bytes \<Rightarrow> disk \<Rightarrow> disk \<Rightarrow> bool" where
  "saving i bs d d' \<longleftrightarrow>
     (\<forall>n. n \<notin> {dict_file i bs, dict_file i bs @ ''.tmp'', current_json @ ''.tmp''} \<longrightarrow> dlookup d' n = dlookup d n)
     \<and> (dlookup d' (dict_file i bs) = dlookup d (dict_file i bs) \<or> holds_file d' (dict_file i bs) bs)"

lemma dict_renamed:
  assumes "os_step d = (Inr u, d1)" "write_tmp (n @ ''.tmp'') bs d1 = (Inr v, d2)" "os_Rename (n @ ''.tmp'') n d2 = (Inr w, d3)"
  shows "(\<forall>m. m \<noteq> n \<longrightarrow> m \<noteq> n @ ''.tmp'' \<longrightarrow> dlookup d3 m = dlookup d m) \<and> holds_file d3 n bs"
  using os_step_frame [OF assms(1)] write_tmp_other [OF assms(2)] write_tmp_Inr [OF assms(2)] os_Rename_cases [OF assms(3)]
  by (auto simp: holds_file_def)

lemma Save_sidecar_cases:
  assumes "Save_sidecar i bs d = (r, d')" and "bs \<noteq> []"
  shows "(r = Inr () \<and> sidecar_holds i bs d') \<or> (r \<noteq> Inr () \<and> saving i bs d d')"
proof -
  let ?n = "dict_file i bs" and ?tmp = "dict_file i bs @ ''.tmp''" and ?cur = "current_json @ ''.tmp''"
  let ?txt = "text_bytes (indent_text (meta_members (meta_of i bs)))"
  note ne = dict_names(1-4) [of i bs] dict_names(5) [of i bs i bs]
  have "tryE (os_step d) (\<lambda>_ d. tryE (write_tmp ?tmp bs d) (\<lambda>_ d. tryE (os_Rename ?tmp ?n d) (\<lambda>_ d.
      tryE (os_WriteFile ?cur ?txt d) (\<lambda>_ d. os_Rename ?cur current_json d)))) = (r, d')"
    using assms by (simp add: Save_sidecar_def Let_def)
  then show ?thesis
  proof (elim tryE_E)
    fix e assume "os_step d = (Inl e, d')" "r = Inl e"
    then show ?thesis using os_step_frame by (simp add: saving_def)
  next
    fix u d1 e assume a: "os_step d = (Inr u, d1)" "write_tmp ?tmp bs d1 = (Inl e, d')" "r = Inl e"
    then show ?thesis using os_step_frame [OF a(1)] write_tmp_other [OF a(2)] ne by (simp add: saving_def)
  next
    fix u d1 v d2 e assume a: "os_step d = (Inr u, d1)" "write_tmp ?tmp bs d1 = (Inr v, d2)" "os_Rename ?tmp ?n d2 = (Inl e, d')" "r = Inl e"
    then show ?thesis using os_step_frame [OF a(1)] write_tmp_other [OF a(2)] os_Rename_cases [OF a(3)] ne by (simp add: saving_def)
  next
    fix u d1 v d2 w d3 e assume a: "os_step d = (Inr u, d1)" "write_tmp ?tmp bs d1 = (Inr v, d2)" "os_Rename ?tmp ?n d2 = (Inr w, d3)"
      "os_WriteFile ?cur ?txt d3 = (Inl e, d')" "r = Inl e"
    then show ?thesis using dict_renamed [OF a(1-3)] os_WriteFile_other [OF a(4)] ne by (simp add: saving_def holds_file_def)
  next
    fix u d1 v d2 w d3 x d4 assume a: "os_step d = (Inr u, d1)" "write_tmp ?tmp bs d1 = (Inr v, d2)" "os_Rename ?tmp ?n d2 = (Inr w, d3)"
      "os_WriteFile ?cur ?txt d3 = (Inr x, d4)" "os_Rename ?cur current_json d4 = (r, d')"
    note d3 = dict_renamed [OF a(1-3)] os_WriteFile_other [OF a(4)]
    obtain f where f: "dlookup d4 ?cur = Some f" "fdata f = ?txt" using os_WriteFile_Inr [OF a(4)] by blast
    from os_Rename_cases [OF a(5)] show ?thesis
    proof
      assume "r \<noteq> Inr () \<and> dlookup d' = dlookup d4"
      then show ?thesis using d3 ne by (simp add: saving_def holds_file_def)
    next
      assume "\<exists>g. r = Inr () \<and> dlookup d4 ?cur = Some g \<and> dlookup d' = (dlookup d4)(?cur := None, current_json \<mapsto> g)"
      then show ?thesis using d3 ne f by (auto simp: sidecar_holds_def holds_file_def)
    qed
  qed
qed

lemma LoadCurrent_holds:
  assumes "sidecar_holds i bs d" and "int64 i" and "dio d = []"
  shows "LoadCurrent d = (Inr (i, bs), d)"
  using assms unmarshal_meta_text [of "meta_of i bs"]
  by (auto simp: sidecar_holds_def holds_file_def LoadCurrent_def os_ReadFile_def next_io_nofault meta_of_def)

text \<open>A save that stops part-way leaves the current dictionary. Only a dictionary that shares number
  and the first 8 bytes of its hash with the current one would take its file.\<close>

lemma saving_holds:
  assumes "saving i bs d d'" and "sidecar_holds j cs d" and "dict_file j cs = dict_file i bs \<longrightarrow> cs = bs"
  shows "sidecar_holds j cs d'"
proof -
  have "holds_file d' current_json (text_bytes (indent_text (meta_members (meta_of j cs))))"
    using assms(1,2) dict_names(1,2) [of i bs] by (auto simp: saving_def sidecar_holds_def holds_file_def current_json_def)
  moreover have "holds_file d' (dict_file j cs) cs"
  proof (cases "dict_file j cs = dict_file i bs")
    case True
    then have "dlookup d' (dict_file j cs) = dlookup d (dict_file j cs) \<or> holds_file d' (dict_file j cs) cs"
      using assms(1,3) unfolding saving_def by (simp only: simp_thms)
    then show ?thesis using assms(2) unfolding sidecar_holds_def holds_file_def by (elim disjE) (simp_all only:)
  next
    case False
    then have "dict_file j cs \<notin> {dict_file i bs, dict_file i bs @ ''.tmp'', current_json @ ''.tmp''}"
      using dict_names(3) [of j cs] dict_names(5) [of j cs i bs] by (simp only: insert_iff empty_iff simp_thms)
    then have "dlookup d' (dict_file j cs) = dlookup d (dict_file j cs)" using assms(1) unfolding saving_def by blast
    with assms(2) show ?thesis by (simp only: sidecar_holds_def holds_file_def)
  qed
  ultimately show ?thesis by (simp add: sidecar_holds_def)
qed

lemma Save_sidecar_healthy: "dio d = [] \<Longrightarrow> fst (Save_sidecar i bs d) = Inr () \<and> dio (snd (Save_sidecar i bs d)) = []"
  using dict_names(4) [of i bs]
  by (simp add: Save_sidecar_def Let_def write_tmp_def os_step_def os_CreateTrunc_def discard_tmp_def os_WriteAt_def os_Sync_def
      os_Rename_def os_WriteFile_def next_io_nofault drop_file_def)

text \<open>
  What is current: nothing, as at the first start, when the dictionary of the database or one just
  trained is saved, or a dictionary with its number.
\<close>

definition sidecar_current :: "(int \<times> bytes) option \<Rightarrow> disk \<Rightarrow> bool" where
  "sidecar_current cur d = (case cur of
       None \<Rightarrow> dlookup d current_json = None
     | Some (j, cs) \<Rightarrow> int64 j \<and> sidecar_holds j cs d)"

lemma saving_none: "saving i bs d d' \<Longrightarrow> dlookup d current_json = None \<Longrightarrow> dlookup d' current_json = None"
  using dict_names(1,2) [of i bs] by (auto simp: saving_def current_json_def)

lemma saving_current:
  assumes "saving i bs d d'" and "sidecar_current cur d" and "\<And>j cs. cur = Some (j, cs) \<Longrightarrow> dict_file j cs = dict_file i bs \<Longrightarrow> cs = bs"
  shows "sidecar_current cur d'"
proof (cases cur)
  case None
  then show ?thesis using assms(1,2) saving_none by (simp add: sidecar_current_def)
next
  case (Some x)
  obtain j cs where x: "x = (j, cs)" by fastforce
  have "sidecar_holds j cs d'"
    using saving_holds [OF assms(1), of j cs] assms(2,3) Some x by (simp add: sidecar_current_def)
  with assms(2) Some x show ?thesis by (simp add: sidecar_current_def)
qed

lemma LoadCurrent_current:
  assumes "sidecar_current cur d" and "dio d = []"
  shows "fst (LoadCurrent d) = Inr (case cur of None \<Rightarrow> (0, []) | Some x \<Rightarrow> x)"
  using assms LoadCurrent_holds [of _ _ d]
  by (auto simp: sidecar_current_def LoadCurrent_def [of d] os_ReadFile_def next_io_nofault enoent_def split: option.splits prod.splits)

text \<open>
  C36 (safety). Saving a dictionary that is not empty is atomic, whether none was current before, as
  when the program saves one at start, or another one was. If the save is acknowledged, the next
  load returns the new dictionary under its number; if it reports an error, whichever call failed,
  the next load returns what it returned before: no dictionary, or the earlier one. The one
  exception is an earlier dictionary of the same number whose hash starts with the same 64
  bits, since the two share a file.
\<close>

theorem sidecar_save_atomic:
  assumes "sidecar_current cur d" and "int64 i" and "bs \<noteq> []"
    and "\<forall>j cs. cur = Some (j, cs) \<and> dict_file j cs = dict_file i bs \<longrightarrow> cs = bs"
    and "Save_sidecar i bs d = (r, d')"
  shows "fst (LoadCurrent (d'\<lparr>dio := []\<rparr>)) =
     (case r of Inr _ \<Rightarrow> Inr (i, bs) | Inl _ \<Rightarrow> Inr (case cur of None \<Rightarrow> (0, []) | Some x \<Rightarrow> x))"
proof -
  have h: "sidecar_current x (d'\<lparr>dio := []\<rparr>) = sidecar_current x d'" for x
    by (simp add: sidecar_current_def sidecar_holds_def holds_file_def split: option.split)
  have l: "fst (LoadCurrent (d'\<lparr>dio := []\<rparr>)) = Inr (case x of None \<Rightarrow> (0, []) | Some y \<Rightarrow> y)" if "sidecar_current x d'" for x
    using LoadCurrent_current [of x "d'\<lparr>dio := []\<rparr>"] that h by simp
  from Save_sidecar_cases [OF assms(5,3)] show ?thesis
  proof
    assume "r = Inr () \<and> sidecar_holds i bs d'"
    then show ?thesis using l [of "Some (i, bs)"] assms(2) by (simp add: sidecar_current_def)
  next
    assume a: "r \<noteq> Inr () \<and> saving i bs d d'"
    then have "sidecar_current cur d'" using saving_current [OF _ assms(1)] assms(4) by blast
    with a l show ?thesis by (auto split: sum.split)
  qed
qed

text \<open>A first save that fails, one that succeeds, and a later one that fails.\<close>

theorem sidecar_save_atomic_witness:
  "\<exists>e d0 d e' d'. Save_sidecar 1 [1, 2, 3] \<lparr>dfiles = [], dio = [Pass, Fail 0 ''disk full'']\<rparr> = (Inl e, d0)
     \<and> fst (LoadCurrent (d0\<lparr>dio := []\<rparr>)) = Inr (0, [])
     \<and> Save_sidecar 1 [1, 2, 3] \<lparr>dfiles = [], dio = []\<rparr> = (Inr (), d)
     \<and> Save_sidecar 2 [4] (d\<lparr>dio := [Pass, Fail 0 ''disk full'']\<rparr>) = (Inl e', d')
     \<and> fst (LoadCurrent (d'\<lparr>dio := []\<rparr>)) = Inr (1, [1, 2, 3])"
proof -
  have fails: "\<exists>e d'. Save_sidecar i (b # bs) (d\<lparr>dio := [Pass, Fail 0 ''disk full'']\<rparr>) = (Inl e, d')" for i b bs d
    by (simp add: Save_sidecar_def Let_def write_tmp_def os_step_def os_CreateTrunc_def next_io_def)
  obtain e d0 where e: "Save_sidecar 1 [1, 2, 3] \<lparr>dfiles = [], dio = [Pass, Fail 0 ''disk full'']\<rparr> = (Inl e, d0)"
    using fails [of 1 1 "[2, 3]" "\<lparr>dfiles = [], dio = []\<rparr>"] by auto
  have "fst (LoadCurrent (d0\<lparr>dio := []\<rparr>)) = Inr (0, [])"
    using sidecar_save_atomic [OF _ _ _ _ e, of None] by (simp add: sidecar_current_def int64_def)
  moreover obtain d where d: "Save_sidecar 1 [1, 2, 3] \<lparr>dfiles = [], dio = []\<rparr> = (Inr (), d)"
    using Save_sidecar_healthy [of "\<lparr>dfiles = [], dio = []\<rparr>" 1 "[1, 2, 3]"] by (metis disk.select_convs(2) prod.collapse)
  have h: "sidecar_current (Some (1, [1, 2, 3])) (d\<lparr>dio := [Pass, Fail 0 ''disk full'']\<rparr>)"
    using Save_sidecar_cases [OF d] by (simp add: sidecar_current_def sidecar_holds_def holds_file_def int64_def)
  have n: "sprintf04 1 = ''0001''" "sprintf04 2 = ''0002''" by code_simp+
  have "dict_file 1 [1, 2, 3] \<noteq> dict_file 2 [4]" by (simp add: meta_of_def dictFilename_def n)
  moreover obtain e' d' where e': "Save_sidecar 2 [4] (d\<lparr>dio := [Pass, Fail 0 ''disk full'']\<rparr>) = (Inl e', d')"
    using fails [of 2 4 "[]" d] by blast
  moreover have "fst (LoadCurrent (d'\<lparr>dio := []\<rparr>)) = Inr (1, [1, 2, 3])"
    using sidecar_save_atomic [OF h _ _ _ e'] calculation(2) by (simp add: int64_def)
  ultimately show ?thesis using e d by blast
qed

end
