(* ===== verification/Bootstrap.thy ===== *)
theory Bootstrap
  imports Sidecar Compress Config Zip_Detect Metadata
begin

text \<open>
  Choosing the compression dictionary at start (\<^verbatim>\<open>internal/compress/bootstrap.go\<close>, \<^verbatim>\<open>train.go\<close>): the one of
  the sidecar, else the one of the database, else one trained on the example archives. What was
  compressed with a dictionary can be read back with no other, so the choice has to stay the same.
\<close>

subsection \<open>Samples\<close>

text \<open>What \<^verbatim>\<open>filepath.WalkDir\<close> reports, in order: an error, a directory, or a file with its name and
  what reading it yields.\<close>

datatype walk_entry = WalkError error | WalkDir | WalkFile string "error + bytes"

text \<open>The bodies of the XML members of an archive; a member that cannot be read makes the archive bad.\<close>

fun extract_loop :: "zip_file list \<Rightarrow> bytes list \<Rightarrow> error + bytes list" where
  "extract_loop [] out = Inr out"
| "extract_loop (f # fs) out =
     (if zf_IsDir f then extract_loop fs out
      else if \<not> HasSuffix (ToLower (zf_Name f)) ''.xml'' then extract_loop fs out
      else case zf_Open f of
        Inl e \<Rightarrow> Inl e
      | Inr (body, Some e) \<Rightarrow> Inl e
      | Inr (body, None) \<Rightarrow> extract_loop fs (out @ [body]))"

definition extractXMLFromZip :: "zip_reader \<Rightarrow> bytes \<Rightarrow> error + bytes list" where
  "extractXMLFromZip zr data = (case zr data of Inl e \<Rightarrow> Inl e | Inr files \<Rightarrow> extract_loop files [])"

text \<open>Adding stops once there are \<open>mx\<close> samples.\<close>

fun add_samples :: "nat \<Rightarrow> bytes list \<Rightarrow> bytes list \<Rightarrow> bytes list \<times> bool" where
  "add_samples mx [] samples = (samples, False)"
| "add_samples mx (x # xs) samples =
     (if mx > 0 \<and> length samples + 1 \<ge> mx then (samples @ [x], True) else add_samples mx xs (samples @ [x]))"

fun walk_samples :: "zip_reader \<Rightarrow> nat \<Rightarrow> walk_entry list \<Rightarrow> bytes list \<Rightarrow> bytes list \<times> error option" where
  "walk_samples zr mx [] samples = (samples, None)"
| "walk_samples zr mx (w # ws) samples = (case w of
       WalkError e \<Rightarrow> (samples, Some e)
     | WalkDir \<Rightarrow> walk_samples zr mx ws samples
     | WalkFile name content \<Rightarrow>
         if \<not> HasSuffix (ToLower name) ''.zip'' then walk_samples zr mx ws samples
         else case content of
           Inl e \<Rightarrow> (samples, Some e)
         | Inr data \<Rightarrow> (case extractXMLFromZip zr data of
               Inl e \<Rightarrow> walk_samples zr mx ws samples
             | Inr xmls \<Rightarrow> (case add_samples mx xmls samples of
                   (samples, True) \<Rightarrow> (samples, Some io_EOF)
                 | (samples, False) \<Rightarrow> walk_samples zr mx ws samples)))"

definition LoadSamplesFromExamples :: "zip_reader \<Rightarrow> walk_entry list \<Rightarrow> nat \<Rightarrow> bytes list \<times> error option" where
  "LoadSamplesFromExamples zr walk mx = (case walk_samples zr mx walk [] of
     (samples, err) \<Rightarrow> if err = Some io_EOF then (samples, None) else (samples, err))"

subsection \<open>The start of the encoder\<close>

record boot_env =
  bt_side :: disk
  bt_db :: meta_db

definition on_bside :: "(disk \<Rightarrow> (disk, 'a) result) \<Rightarrow> boot_env \<Rightarrow> (boot_env, 'a) result" where
  "on_bside f s = (case f (bt_side s) of (r, d) \<Rightarrow> (r, s\<lparr>bt_side := d\<rparr>))"

definition on_bdb :: "(meta_db \<Rightarrow> (meta_db, 'a) result) \<Rightarrow> boot_env \<Rightarrow> (boot_env, 'a) result" where
  "on_bdb f s = (case f (bt_db s) of (r, db) \<Rightarrow> (r, s\<lparr>bt_db := db\<rparr>))"

text \<open>The dictionary of the database; that its copy in the sidecar fails is ignored.\<close>

definition from_database :: "int \<Rightarrow> boot_env \<Rightarrow> (boot_env, int \<times> bytes) result" where
  "from_database i s = tryE (on_bdb GetLatestDictionary s) (\<lambda>(bs, _) s.
     if bs \<noteq> [] then (Inr (1, bs), snd (on_bside (Save_sidecar 1 bs) s)) else (Inr (i, bs), s))"

text \<open>An error of the walk is only logged; the samples found before it are used.\<close>

definition from_examples :: "zstd \<Rightarrow> zip_reader \<Rightarrow> walk_entry list \<Rightarrow> int \<Rightarrow> boot_env \<Rightarrow> (boot_env, int \<times> bytes) result" where
  "from_examples zs zr walk i s =
     (let samples = fst (LoadSamplesFromExamples zr walk 500) in
      if samples = [] then (Inr (i, []), s)
      else case TrainDictionary zs samples of
        Inl e \<Rightarrow> (Inl e, s)
      | Inr bs \<Rightarrow>
          if bs = [] then (Inr (i, []), s)
          else tryE (on_bdb (SaveDictionary bs (int (length samples))) s) (\<lambda>_ s.
               tryE (on_bside (Save_sidecar 1 bs) s) (\<lambda>_ s. (Inr (1, bs), s))))"

definition BootstrapEncoder :: "zstd \<Rightarrow> zip_reader \<Rightarrow> Config \<Rightarrow> walk_entry list \<Rightarrow> boot_env \<Rightarrow> (boot_env, Encoder option) result" where
  "BootstrapEncoder zs zr c walk s =
     (if \<not> CompressionEnabled c then (Inr None, s)
      else
        tryE (on_bside LoadCurrent s) (\<lambda>(i, bs) s.
        tryE (if bs = [] then from_database i s else (Inr (i, bs), s)) (\<lambda>(i, bs) s.
        tryE (if bs = [] then from_examples zs zr walk i s else (Inr (i, bs), s)) (\<lambda>(i, bs) s.
          case NewEncoder zs bs (CompressionMinSize c) of
            Inl e \<Rightarrow> (Inl e, s)
          | Inr enc \<Rightarrow> (Inr (Some (SetDictID (if i \<le> 0 \<and> bs \<noteq> [] then 1 else i) enc)), s)))))"

subsection \<open>At most as many samples as asked for\<close>

lemma add_samples_bound: "0 < mx \<Longrightarrow> length samples < mx \<Longrightarrow> length (fst (add_samples mx xs samples)) \<le> mx
    \<and> (\<not> snd (add_samples mx xs samples) \<longrightarrow> length (fst (add_samples mx xs samples)) < mx)"
  by (induction xs arbitrary: samples) auto

lemma walk_samples_bound: "0 < mx \<Longrightarrow> length samples < mx \<Longrightarrow> length (fst (walk_samples zr mx ws samples)) \<le> mx"
proof (induction ws arbitrary: samples)
  case (Cons w ws)
  show ?case
  proof (cases w)
    case (WalkFile name content)
    then show ?thesis using Cons add_samples_bound [OF Cons.prems]
      by (auto split: sum.splits prod.splits bool.splits) (metis fst_conv snd_conv)+
  qed (use Cons in auto)
qed simp

subsection \<open>The choice stays\<close>

definition sidecar_ok :: "disk \<Rightarrow> bool" where
  "sidecar_ok d \<longleftrightarrow> dlookup d current_json = None \<or> (\<exists>j cs. cs \<noteq> [] \<and> int64 j \<and> sidecar_holds j cs d)"

lemma LoadCurrent_dfiles: "LoadCurrent d = (r, d') \<Longrightarrow> dlookup d' = dlookup d"
  using os_ReadFile_frame
  by (fastforce simp: LoadCurrent_def elim!: tryE_E split: prod.splits sum.splits option.splits if_splits)

lemma LoadCurrent_Inr_holds:
  assumes "LoadCurrent d = (Inr (i, bs), d')" and "sidecar_holds j cs d" and "int64 j"
  shows "i = j \<and> bs = cs"
proof -
  obtain f g where f: "dlookup d current_json = Some f" "fdata f = text_bytes (indent_text (meta_members (meta_of j cs)))"
    and g: "dlookup d (dict_file j cs) = Some g" "fdata g = cs" using assms(2) by (auto simp: sidecar_holds_def holds_file_def)
  obtain r d1 where r: "os_ReadFile current_json d = (r, d1)" by fastforce
  have r': "r = Inr (fdata f)"
    using r assms(1) f(1) by (auto simp: os_ReadFile_def LoadCurrent_def enoent_def dlookup_next_io split: prod.splits option.splits)
  have u: "unmarshal_meta (fdata f) = Some (meta_of j cs)" using unmarshal_meta_text [of "meta_of j cs"] assms(3) f(2) by (simp add: meta_of_def)
  have d1: "dlookup d1 = dlookup d" using os_ReadFile_frame [OF r] by simp
  obtain q d2 where q: "os_ReadFile (dict_file j cs) d1 = (q, d2)" by fastforce
  have "q = Inr bs \<and> i = j"
    using assms(1) r r' u q by (cases q) (auto simp: LoadCurrent_def meta_of_def split: if_splits)
  with os_ReadFile_Inr [of "dict_file j cs" d1 bs d2 g] q g d1 show ?thesis by simp
qed

lemma LoadCurrent_Inr_none:
  "LoadCurrent d = (Inr (i, bs), d') \<Longrightarrow> dlookup d current_json = None \<Longrightarrow> i = 0 \<and> bs = []"
  by (auto simp: LoadCurrent_def os_ReadFile_def dlookup_next_io enoent_def split: prod.splits option.splits)

text \<open>The dictionary that the next start will choose.\<close>

definition boot_ready :: "int \<Rightarrow> bytes \<Rightarrow> boot_env \<Rightarrow> bool" where
  "boot_ready i bs s \<longleftrightarrow> sidecar_holds i bs (bt_side s) \<and> int64 i
     \<or> dlookup (bt_side s) current_json = None \<and> i = 1 \<and> dictionaries (bt_db s) \<noteq> [] \<and> fst (last (dictionaries (bt_db s))) = bs"

lemma GetLatestDictionary_Inr:
  "GetLatestDictionary db = (Inr (bs, n), db') \<Longrightarrow> dictionaries db' = dictionaries db \<and> (bs \<noteq> [] \<longrightarrow> dictionaries db \<noteq> [] \<and> fst (last (dictionaries db)) = bs)"
  unfolding GetLatestDictionary_def by (elim pool_stmt_Inr) (auto simp: md_take_fault_def split: prod.splits if_splits)

lemma from_database_ready:
  assumes "from_database 0 s = (Inr (i, bs), s')" and "dlookup (bt_side s) current_json = None"
  shows "(bs \<noteq> [] \<longrightarrow> boot_ready i bs s') \<and> (bs = [] \<longrightarrow> dlookup (bt_side s') current_json = None)"
proof -
  obtain cs n db where g: "GetLatestDictionary (bt_db s) = (Inr (cs, n), db)"
    and r: "(if cs \<noteq> [] then (Inr (1, cs), snd (on_bside (Save_sidecar 1 cs) (s\<lparr>bt_db := db\<rparr>))) else (Inr (0, cs), s\<lparr>bt_db := db\<rparr>)) = (Inr (i, bs) :: error + int \<times> bytes, s')"
    using assms(1) by (auto simp: from_database_def on_bdb_def tryE_Inr_iff split: prod.splits)
  show ?thesis
  proof (cases "cs = []")
    case True
    with r assms(2) show ?thesis by auto
  next
    case False
    obtain q d' where q: "Save_sidecar 1 cs (bt_side s) = (q, d')" by fastforce
    have s': "s' = s\<lparr>bt_db := db, bt_side := d'\<rparr>" "i = 1" "bs = cs" using r False q by (auto simp: on_bside_def)
    from Save_sidecar_cases [OF q False] have "boot_ready 1 cs s'"
    proof
      assume "q = Inr () \<and> sidecar_holds 1 cs d'"
      then show ?thesis by (simp add: boot_ready_def s'(1) int64_def)
    next
      assume "q \<noteq> Inr () \<and> saving 1 cs (bt_side s) d'"
      then show ?thesis using saving_none assms(2) GetLatestDictionary_Inr [OF g] False by (auto simp: boot_ready_def s'(1))
    qed
    with s' False show ?thesis by simp
  qed
qed

lemma from_examples_ready:
  assumes "from_examples zs zr walk j s = (Inr (i, bs), s')" and "bs \<noteq> []"
  shows "boot_ready i bs s'"
proof -
  obtain n db d where sv: "Save_sidecar 1 bs (bt_side s) = (Inr (), d)" "s' = s\<lparr>bt_db := db, bt_side := d\<rparr>" "i = 1"
    using assms by (auto simp: from_examples_def Let_def on_bdb_def on_bside_def tryE_Inr_iff split: if_splits sum.splits prod.splits)
  with Save_sidecar_cases [OF sv(1) assms(2)] show ?thesis by (simp add: boot_ready_def int64_def)
qed

text \<open>A successful start, part by part.\<close>

lemma BootstrapEncoder_Inr:
  assumes "BootstrapEncoder zs zr c walk s = (Inr (Some enc), s')"
  obtains i1 b1 d1 i2 b2 s2 i3 where "LoadCurrent (bt_side s) = (Inr (i1, b1), d1)"
    "(if b1 = [] then from_database i1 (s\<lparr>bt_side := d1\<rparr>) else (Inr (i1, b1), s\<lparr>bt_side := d1\<rparr>)) = (Inr (i2, b2) :: error + int \<times> bytes, s2)"
    "(if b2 = [] then from_examples zs zr walk i2 s2 else (Inr (i2, b2), s2)) = (Inr (i3, dict enc) :: error + int \<times> bytes, s')"
    "dict enc \<noteq> [] \<longrightarrow> dictID enc = (if i3 \<le> 0 then 1 else i3)" "has_dec enc"
    "zs_NewWriter zs (dict enc) = None" "zs_NewReader zs (dict enc) = None"
proof -
  have en0: "CompressionEnabled c" using assms by (rule contrapos_pp) (simp add: BootstrapEncoder_def)
  obtain i1 b1 s1 i2 b2 s2 i3 b3 s3 where l: "on_bside LoadCurrent s = (Inr (i1, b1), s1)"
    and d: "(if b1 = [] then from_database i1 s1 else (Inr (i1, b1), s1)) = (Inr (i2, b2), s2)"
    and e3: "(if b2 = [] then from_examples zs zr walk i2 s2 else (Inr (i2, b2), s2)) = (Inr (i3, b3), s3)"
    and n3: "(case NewEncoder zs b3 (CompressionMinSize c) of Inl e \<Rightarrow> (Inl e, s3)
       | Inr enc \<Rightarrow> (Inr (Some (SetDictID (if i3 \<le> 0 \<and> b3 \<noteq> [] then 1 else i3) enc)), s3)) = (Inr (Some enc), s')"
    using assms en0 by (auto simp: BootstrapEncoder_def tryE_Inr_iff split del: if_split)
  obtain en where n: "NewEncoder zs b3 (CompressionMinSize c) = Inr en" "enc = SetDictID (if i3 \<le> 0 \<and> b3 \<noteq> [] then 1 else i3) en" "s3 = s'"
    using n3 by (cases "NewEncoder zs b3 (CompressionMinSize c)") (simp_all split del: if_split)
  have en: "dict enc = b3" "has_dec enc" "zs_NewWriter zs b3 = None" "zs_NewReader zs b3 = None"
    "b3 \<noteq> [] \<longrightarrow> dictID enc = (if i3 \<le> 0 then 1 else i3)"
    using n by (auto simp: NewEncoder_def init_encoder_def SetDictID_def split: option.splits)
  obtain d1 where l1: "LoadCurrent (bt_side s) = (Inr (i1, b1), d1)" "s1 = s\<lparr>bt_side := d1\<rparr>" using l by (auto simp: on_bside_def split: prod.splits)
  show thesis by (rule that [OF l1(1) d [unfolded l1(2)] e3 [unfolded n(3), folded en(1)] en(5) [folded en(1)] en(2) en(3,4) [folded en(1)]])
qed

lemma BootstrapEncoder_ready:
  assumes "BootstrapEncoder zs zr c walk s = (Inr (Some enc), s')" and "sidecar_ok (bt_side s)" and "dict enc \<noteq> []"
  shows "\<exists>i. boot_ready i (dict enc) s' \<and> dictID enc = (if i \<le> 0 then 1 else i) \<and> zs_NewWriter zs (dict enc) = None \<and> zs_NewReader zs (dict enc) = None"
proof -
  from assms(1) obtain i1 b1 d1 i2 b2 s2 i3 where l1: "LoadCurrent (bt_side s) = (Inr (i1, b1), d1)"
    and d0: "(if b1 = [] then from_database i1 (s\<lparr>bt_side := d1\<rparr>) else (Inr (i1, b1), s\<lparr>bt_side := d1\<rparr>)) = (Inr (i2, b2), s2)"
    and e0: "(if b2 = [] then from_examples zs zr walk i2 s2 else (Inr (i2, b2), s2)) = (Inr (i3, dict enc), s')"
    and en: "dict enc \<noteq> [] \<longrightarrow> dictID enc = (if i3 \<le> 0 then 1 else i3)" "has_dec enc" "zs_NewWriter zs (dict enc) = None" "zs_NewReader zs (dict enc) = None"
    by (rule BootstrapEncoder_Inr)
  define s1 b3 where defs: "s1 = s\<lparr>bt_side := d1\<rparr>" "b3 = dict enc"
  note d = d0 [folded defs(1)] and e = e0 [folded defs(2)]
  have b3: "b3 \<noteq> []" using assms(3) by (simp add: defs)
  have d1: "dlookup d1 = dlookup (bt_side s)" by (rule LoadCurrent_dfiles [OF l1])
  have "boot_ready i3 b3 s'"
  proof (cases "dlookup (bt_side s) current_json = None")
    case False
    then obtain j cs where h: "cs \<noteq> []" "int64 j" "sidecar_holds j cs (bt_side s)" using assms(2) by (auto simp: sidecar_ok_def)
    then have "i1 = j" "b1 = cs" using LoadCurrent_Inr_holds [OF l1 h(3,2)] by auto
    moreover from this have "i3 = j" "b3 = cs" "s' = s1" using d e h(1) by auto
    ultimately show ?thesis using h d1 defs(1) by (simp add: boot_ready_def sidecar_holds_def holds_file_def)
  next
    case True
    then have z: "i1 = 0" "b1 = []" using LoadCurrent_Inr_none [OF l1] by auto
    have s1: "dlookup (bt_side s1) current_json = None" using True d1 defs(1) by simp
    show ?thesis
    proof (cases "b2 = []")
      case True
      with e from_examples_ready b3 show ?thesis by auto
    next
      case False
      with d z from_database_ready [OF _ s1, of i2 b2 s2] e show ?thesis by auto
    qed
  qed
  with en assms(3) show ?thesis by (auto simp: defs(2))
qed

lemma BootstrapEncoder_again:
  assumes "boot_ready i bs s" and "bs \<noteq> []" and "dio (bt_side s) = []" and "md_faults (bt_db s) = []" and "CompressionEnabled c"
    and "zs_NewWriter zs bs = None" and "zs_NewReader zs bs = None"
  shows "\<exists>enc s'. BootstrapEncoder zs zr c walk s = (Inr (Some enc), s') \<and> dict enc = bs \<and> dictID enc = (if i \<le> 0 then 1 else i)"
proof -
  obtain en where en: "NewEncoder zs bs (CompressionMinSize c) = Inr en" "dict en = bs"
    using assms(6,7) by (simp add: NewEncoder_def init_encoder_def)
  consider "sidecar_holds i bs (bt_side s)" "int64 i"
    | "dlookup (bt_side s) current_json = None" "i = 1" "dictionaries (bt_db s) \<noteq> []" "fst (last (dictionaries (bt_db s))) = bs"
    using assms(1) by (auto simp: boot_ready_def)
  then show ?thesis
  proof cases
    case 1
    from LoadCurrent_holds [OF this assms(3)] show ?thesis using assms(2,5) en
      by (simp add: BootstrapEncoder_def on_bside_def SetDictID_def)
  next
    case 2
    have "LoadCurrent (bt_side s) = (Inr (0, []), bt_side s)"
      using 2(1) assms(3) by (simp add: LoadCurrent_def os_ReadFile_def next_io_nofault enoent_def)
    moreover obtain n where "last (dictionaries (bt_db s)) = (bs, n)" using 2(4) by (cases "last (dictionaries (bt_db s))") auto
    ultimately show ?thesis using 2(2,3) assms(2,4,5) en
      by (simp add: BootstrapEncoder_def on_bside_def from_database_def on_bdb_def GetLatestDictionary_def pool_stmt_def md_take_fault_def SetDictID_def split: prod.split)
  qed
qed

text \<open>
  C37 (safety). Once a start has chosen a dictionary, every later start chooses the same dictionary
  under the same number, whatever failed while the choice was recorded and whatever examples the
  later start finds: what was compressed with it stays readable.
\<close>

theorem bootstrap_dictionary_stable:
  assumes "BootstrapEncoder zs zr c walk s = (Inr (Some enc), s1)" and "sidecar_ok (bt_side s)" and "dict enc \<noteq> []"
    and "s2 = s1\<lparr>bt_side := (bt_side s1)\<lparr>dio := []\<rparr>, bt_db := (bt_db s1)\<lparr>md_faults := []\<rparr>\<rparr>" and "CompressionEnabled c'"
  shows "\<exists>enc' s3. BootstrapEncoder zs zr' c' walk' s2 = (Inr (Some enc'), s3) \<and> dict enc' = dict enc \<and> dictID enc' = dictID enc"
proof -
  obtain i where i: "boot_ready i (dict enc) s1" "dictID enc = (if i \<le> 0 then 1 else i)"
    "zs_NewWriter zs (dict enc) = None" "zs_NewReader zs (dict enc) = None" using BootstrapEncoder_ready [OF assms(1-3)] by blast
  have "boot_ready i (dict enc) s2" using i(1) by (simp add: assms(4) boot_ready_def sidecar_holds_def holds_file_def)
  from BootstrapEncoder_again [OF this assms(3) _ _ assms(5) i(3,4)] i(2) assms(4) show ?thesis by simp
qed

definition plain_zstd :: zstd where
  "plain_zstd = \<lparr>zs_NewWriter = \<lambda>_. None, zs_NewReader = \<lambda>_. None, zs_EncodeAll = \<lambda>_ x. x, zs_DecodeAll = \<lambda>_ x. Inr x, zs_BuildDict = \<lambda>_. Inr []\<rparr>"

definition first_start :: boot_env where
  "first_start = \<lparr>bt_side = \<lparr>dfiles = [], dio = [Pass, Fail 0 ''disk full'']\<rparr>,
     bt_db = \<lparr>content_blobs = [], packages = [], package_files = [], supplier_stats = [], dictionaries = [([1, 2, 3], 5)],
       seq_packages = 0, seq_files = 0, md_faults = [], md_clock = [], md_aborted = False\<rparr>\<rparr>"

theorem bootstrap_dictionary_stable_witness:
  "\<exists>enc s1 enc' s3. BootstrapEncoder plain_zstd (\<lambda>_. Inr []) sample_config [] first_start = (Inr (Some enc), s1) \<and> dict enc = [1, 2, 3]
     \<and> BootstrapEncoder plain_zstd (\<lambda>_. Inr []) sample_config [WalkDir]
         (s1\<lparr>bt_side := (bt_side s1)\<lparr>dio := []\<rparr>, bt_db := (bt_db s1)\<lparr>md_faults := []\<rparr>\<rparr>) = (Inr (Some enc'), s3)
     \<and> dict enc' = [1, 2, 3]"
proof -
  have c: "CompressionEnabled sample_config" by code_simp
  obtain enc s1 where e: "BootstrapEncoder plain_zstd (\<lambda>_. Inr []) sample_config [] first_start = (Inr (Some enc), s1)" "dict enc = [1, 2, 3]"
    using c by (simp add: BootstrapEncoder_def first_start_def on_bside_def on_bdb_def LoadCurrent_def os_ReadFile_def next_io_def enoent_def from_database_def
        GetLatestDictionary_def pool_stmt_def md_take_fault_def Save_sidecar_def Let_def os_step_def NewEncoder_def init_encoder_def plain_zstd_def SetDictID_def)
  have ok: "sidecar_ok (bt_side first_start)" by (simp add: sidecar_ok_def first_start_def)
  from bootstrap_dictionary_stable [OF e(1) ok _ refl c, of "\<lambda>_. Inr []" "[WalkDir]"] e show ?thesis by fastforce
qed

end
