(* ===== verification/Shard_Start.thy ===== *)
theory Shard_Start
  imports Shard_Steady Register_Client Bootstrap
begin

text \<open>
  The start of a shard (\<^verbatim>\<open>cmd/server/main.go\<close>) from what is on its disks and in its database, and the
  life of a shard over crashes and restarts. Connecting to the database and migrating it come first
  and are not modelled. A start that ends in \<^verbatim>\<open>os.Exit\<close> is an error; one that still waits for the
  coordinator is \<open>None\<close>.
\<close>

subsection \<open>Registration\<close>

definition startupRegistrationRequest :: "Config \<Rightarrow> RegisterShardRequest" where
  "startupRegistrationRequest cfg = \<lparr>rr_ShardUUID = cfg_ShardUUID cfg, rr_ClusterKey = cfg_ClusterKey cfg,
     rr_PrimaryURL = cfg_ShardAdvertiseURL cfg, rr_ReplicaURL = None, rr_StartupState = ShardStandby\<rparr>"

text \<open>The configuration the shard goes on with: the coordinator gives the number, and a sealed shard is read-only.\<close>

definition register_start :: "int \<Rightarrow> (RegisterShardRequest \<Rightarrow> attempt list) \<Rightarrow> Config \<Rightarrow> (error + Config) option" where
  "register_start cancel answers cfg =
     (if cfg_ShardRole cfg = ''primary'' \<and> cfg_CoordinatorURL cfg \<noteq> [] then
        if cfg_ShardUUID cfg = [] then Some (Inl (Err ''SHARD_UUID is required when COORDINATOR_URL is set''))
        else if cfg_ClusterKey cfg = [] then Some (Inl (Err ''CLUSTER_KEY (or SHARD_CLUSTER_KEY) is required when COORDINATOR_URL is set''))
        else if cfg_ShardAdvertiseURL cfg = [] then Some (Inl (Err ''SHARD_ADVERTISE_URL is required when COORDINATOR_URL is set''))
        else case fst (RegisterShardWithRetry cancel 500 0 (answers (startupRegistrationRequest cfg))) of
          None \<Rightarrow> None
        | Some (Inl e) \<Rightarrow> Some (Inl (Err ''shard registration failed''))
        | Some (Inr (shard, isNew)) \<Rightarrow>
            Some (Inr (cfg\<lparr>cfg_ShardID := ShardID shard, cfg_ShardReadOnly := (State shard = ShardSealed \<or> cfg_ShardReadOnly cfg)\<rparr>))
      else Some (Inr cfg))"

subsection \<open>Opening the parts\<close>

text \<open>What a process finds when it starts; \<open>mc_rocks\<close> is what opening the RocksDB database yields.\<close>

record 'd machine =
  mc_segments :: disk
  mc_index :: disk
  mc_journal :: disk
  mc_side :: disk
  mc_db :: meta_db
  mc_rocks :: "error + 'd"

text \<open>What it meets besides: build tag, rate of the Bloom filter, example files, clock, the coordinator, the first measurement.\<close>

record start_env =
  se_rocks_built :: bool
  se_rate :: rat
  se_walk :: "walk_entry list"
  se_clock :: "time list"
  se_cancel :: int
  se_answers :: "RegisterShardRequest \<Rightarrow> attempt list"
  se_free :: "string \<Rightarrow> path_state"

definition open_segments :: "Config \<Rightarrow> 'd machine \<Rightarrow> ('d machine, SegmentManager) result" where
  "open_segments cfg m = (case NewSegmentManager (cfg_SegmentMaxSize cfg) (mc_segments m) of
       (Inl e, sm) \<Rightarrow> (Inl e, m\<lparr>mc_segments := sdisk sm\<rparr>)
     | (Inr _, sm) \<Rightarrow> (Inr (SetVerifyChecksum (cfg_VerifyChecksum cfg) sm), m\<lparr>mc_segments := sdisk sm\<rparr>))"

definition open_encoder :: "zstd \<Rightarrow> zip_reader \<Rightarrow> start_env \<Rightarrow> Config \<Rightarrow> 'd machine \<Rightarrow> ('d machine, Encoder option) result" where
  "open_encoder zs zr E cfg m = (case BootstrapEncoder zs zr cfg (se_walk E) \<lparr>bt_side = mc_side m, bt_db = mc_db m\<rparr> of
     (r, b) \<Rightarrow> (r, m\<lparr>mc_side := bt_side b, mc_db := bt_db b\<rparr>))"

text \<open>The index keeps its store behind an interface: \<open>im\<close> and \<open>ir\<close> inject its two implementations.\<close>

definition index_of :: "(memoryStore \<Rightarrow> 's) \<Rightarrow> ('d \<Rightarrow> 's) \<Rightarrow> ('d, 'b) opened_index \<Rightarrow> ('s, 'b) HotIndex option" where
  "index_of im ir x = (case x of
       NoIndex \<Rightarrow> None
     | MemoryIndex i \<Rightarrow> Some \<lparr>backend = backend i, bloom = bloom i, store = map_option im (store i)\<rparr>
     | RocksIndex i \<Rightarrow> Some \<lparr>backend = backend i, bloom = bloom i, store = map_option ir (store i)\<rparr>)"

definition open_dedup :: "(memoryStore \<Rightarrow> 's) \<Rightarrow> ('d \<Rightarrow> 's) \<Rightarrow> ('s, 'b) libs \<Rightarrow> start_env \<Rightarrow> Config \<Rightarrow> 'd machine
    \<Rightarrow> ('d machine, ('s, 'b) HotIndex option) result" where
  "open_dedup im ir L E cfg m =
     (case Open_index (se_rocks_built E) (mc_rocks m) (lib_bloom L) (cfg_DedupBackend cfg) (cfg_BloomExpectedItems cfg) (se_rate E) of
        Inl e \<Rightarrow> (Inl e, m)
      | Inr x \<Rightarrow>
          (let idx = index_of im ir x in
           if idx \<noteq> None \<and> cfg_DedupRebuildOnStart cfg then
             (case RebuildFromPG (lib_kv L) (lib_bloom L) (cfg_BloomExpectedItems cfg) (se_rate E) (idx, mc_db m) of
                (Inl e, (_, db)) \<Rightarrow> (Inl e, m\<lparr>mc_db := db\<rparr>)
              | (Inr _, (idx, db)) \<Rightarrow> (Inr idx, m\<lparr>mc_db := db\<rparr>))
           else (Inr idx, m)))"

definition open_journal :: "Config \<Rightarrow> 'd machine \<Rightarrow> ('d machine, Journal option) result" where
  "open_journal cfg m =
     (if cfg_ShardRole cfg \<noteq> ''replica'' then
        (case NewJournal (mc_journal m) of
           (Inl e, d) \<Rightarrow> (Inl e, m\<lparr>mc_journal := d\<rparr>)
         | (Inr j, d) \<Rightarrow> (Inr (Some j), m\<lparr>mc_journal := d\<rparr>))
      else (Inr None, m))"

definition start_queue :: "Config \<Rightarrow> UnpackQueue option" where
  "start_queue cfg = (if LargeZipAsyncUnpack cfg \<and> cfg_ShardRole cfg \<noteq> ''replica'' \<and> \<not> cfg_ShardReadOnly cfg
     then Some (NewUnpackQueue (cfg_UnpackWorkers cfg) (cfg_UnpackQueueSize cfg)) else None)"

definition start_server :: "start_env \<Rightarrow> Config \<Rightarrow> ('s, 'b) service \<Rightarrow> ('s, 'b) Server" where
  "start_server E cfg sv = (let s = NewShardServer cfg sv in s\<lparr>ss_guard := runDiskWriteGate cfg (se_free E) (ss_guard s)\<rparr>)"

definition start_shard :: "(memoryStore \<Rightarrow> 's) \<Rightarrow> ('d \<Rightarrow> 's) \<Rightarrow> ('s, 'b) libs \<Rightarrow> zip_reader \<Rightarrow> start_env \<Rightarrow> Config \<Rightarrow> 'd machine
    \<Rightarrow> ('d machine, (Config \<times> ('s, 'b) Server) option) result" where
  "start_shard im ir L zr E loaded m =
     (let cfg = loaded\<lparr>cfg_ClusterKey := EffectiveClusterKey loaded\<rparr> in
      tryE (open_segments cfg m) (\<lambda>sm m.
      tryE (open_encoder (lib_zstd L) zr E cfg m) (\<lambda>enc m.
      tryE (open_dedup im ir L E cfg m) (\<lambda>idx m.
      tryE (open_journal cfg m) (\<lambda>journal m.
      let blobs = NewBlobStore sm (Some (NewSegmentIndex (mc_index m))) enc idx (cfg_WriteBufferMaxBytes cfg > 0) (se_clock E);
          sv = \<lparr>sv_shard = \<lparr>sh_blobs = blobs, sh_meta = mc_db m\<rparr>, sv_journal = journal, sv_queue = start_queue cfg\<rparr>
      in case register_start (se_cancel E) (se_answers E) cfg of
           None \<Rightarrow> (Inr None, m)
         | Some (Inl e) \<Rightarrow> (Inl e, m)
         | Some (Inr cfg) \<Rightarrow> (Inr (Some (cfg, start_server E cfg sv)), m))))))"

subsection \<open>What a start keeps\<close>

lemma SetVerifyChecksum_same:
  "sm_inv (SetVerifyChecksum v sm) = sm_inv sm" "durable (SetVerifyChecksum v sm) l r = durable sm l r"
  by (simp_all add: SetVerifyChecksum_def sm_inv_def stopped_def live_def active_dfile_def durable_def stored_def)

lemma same_rows_pool': "pool_stmt f db = (r, db') \<Longrightarrow> (\<And>d. same_rows d (snd (f d))) \<Longrightarrow> same_rows db db'"
  by (rule same_rows_pool(1))

lemma same_rows_dictionary: "GetLatestDictionary db = (r, db') \<Longrightarrow> same_rows db db'" "SaveDictionary x n db = (q, db') \<Longrightarrow> same_rows db db'"
  "ListContentBlobs db = (p, db') \<Longrightarrow> same_rows db db'"
  unfolding GetLatestDictionary_def SaveDictionary_def ListContentBlobs_def
  by (erule same_rows_pool', simp add: same_rows_def)+

text \<open>The bootstrap changes no row of packages, files and blobs.\<close>

lemma on_bside_db: "bt_db (snd (on_bside f b)) = bt_db b"
  by (simp add: on_bside_def split: prod.split)

lemma from_database_rows: "same_rows (bt_db b) (bt_db (snd (from_database i b)))"
proof -
  obtain r db where g: "GetLatestDictionary (bt_db b) = (r, db)" by fastforce
  then show ?thesis using same_rows_dictionary(1) [OF g]
    by (cases r) (auto simp: from_database_def on_bdb_def on_bside_db)
qed

lemma from_examples_rows: "same_rows (bt_db b) (bt_db (snd (from_examples zs zr walk i b)))"
proof -
  have "same_rows (bt_db b) (bt_db (snd (tryE (on_bdb (SaveDictionary x n) b) (\<lambda>_ b. tryE (on_bside (Save_sidecar 1 x) b) (\<lambda>_ b. (Inr (1, x), b))))))" for x n
  proof -
    obtain r db where g: "SaveDictionary x n (bt_db b) = (r, db)" by fastforce
    obtain q b2 where q: "on_bside (Save_sidecar 1 x) (b\<lparr>bt_db := db\<rparr>) = (q, b2)" by fastforce
    then have "bt_db b2 = db" using on_bside_db [of "Save_sidecar 1 x" "b\<lparr>bt_db := db\<rparr>"] by simp
    with same_rows_dictionary(2) [OF g] show ?thesis by (cases r; cases q) (simp_all add: on_bdb_def g q)
  qed
  then show ?thesis by (auto simp: from_examples_def Let_def split: sum.split)
qed

lemma rows_tryE: "same_rows d (bt_db (snd r)) \<Longrightarrow> (\<And>x b. same_rows (bt_db b) (bt_db (snd (g x b)))) \<Longrightarrow> same_rows d (bt_db (snd (tryE r g)))"
  by (cases r; cases "fst r") (auto intro: same_rows_trans)

lemma Bootstrap_rows: "same_rows (bt_db b) (bt_db (snd (BootstrapEncoder zs zr cfg walk b)))"
  by (auto simp: BootstrapEncoder_def on_bside_db intro!: rows_tryE from_database_rows from_examples_rows split: sum.split)

lemma Rebuild_rows: "RebuildFromPG kv bl n q (idx, db) = (r, (idx', db')) \<Longrightarrow> same_rows db db' \<and> dictionaries db' = dictionaries db"
proof -
  assume r: "RebuildFromPG kv bl n q (idx, db) = (r, (idx', db'))"
  have "db' = db \<or> db' = snd (ListContentBlobs db)"
    using r by (auto simp: RebuildFromPG_def Let_def split: option.splits prod.splits sum.splits)
  moreover have "dictionaries (snd (ListContentBlobs db)) = dictionaries db" by (simp add: ListContentBlobs_def dict_pool_stmt)
  ultimately show ?thesis using same_rows_dictionary(3) [of db, OF prod.collapse [symmetric]] by auto
qed

subsection \<open>The dictionary stays\<close>

lemma boot_ready_cong: "dlookup side' = dlookup side \<Longrightarrow> dictionaries db' = dictionaries db
    \<Longrightarrow> boot_ready i x \<lparr>bt_side = side', bt_db = db'\<rparr> = boot_ready i x \<lparr>bt_side = side, bt_db = db\<rparr>"
  by (simp add: boot_ready_def sidecar_holds_def holds_file_def)

lemma sidecar_ok_cong: "dlookup side' = dlookup side \<Longrightarrow> sidecar_ok side' = sidecar_ok side"
  by (simp add: sidecar_ok_def sidecar_holds_def holds_file_def)

lemma boot_ready_ok: "boot_ready i x b \<Longrightarrow> x \<noteq> [] \<Longrightarrow> sidecar_ok (bt_side b)"
  by (auto simp: boot_ready_def sidecar_ok_def)

lemma GetLatestDictionary_last:
  "GetLatestDictionary db = (Inr (y, n), db') \<Longrightarrow> dictionaries db \<noteq> [] \<Longrightarrow> y = fst (last (dictionaries db))"
  unfolding GetLatestDictionary_def by (elim pool_stmt_Inr) (auto simp: md_take_fault_def split: prod.splits if_splits)

lemma from_database_last:
  assumes "from_database i b = (Inr (j, y), b')" and "dictionaries (bt_db b) \<noteq> []"
  shows "y = fst (last (dictionaries (bt_db b)))"
proof -
  obtain n db where g: "GetLatestDictionary (bt_db b) = (Inr (y, n), db)"
    using assms(1) by (auto simp: from_database_def on_bdb_def tryE_Inr_iff split: prod.splits if_splits)
  from GetLatestDictionary_last [OF this assms(2)] show ?thesis .
qed

lemma Bootstrap_choice:
  assumes "BootstrapEncoder zs zr c walk b = (Inr (Some enc), b')" and "boot_ready i x b" and "x \<noteq> []"
  shows "dict enc = x"
proof -
  from assms(1) obtain i1 b1 d1 i2 b2 s2 i3 where l: "LoadCurrent (bt_side b) = (Inr (i1, b1), d1)"
    and d: "(if b1 = [] then from_database i1 (b\<lparr>bt_side := d1\<rparr>) else (Inr (i1, b1), b\<lparr>bt_side := d1\<rparr>)) = (Inr (i2, b2), s2)"
    and e: "(if b2 = [] then from_examples zs zr walk i2 s2 else (Inr (i2, b2), s2)) = (Inr (i3, dict enc), b')"
    by (rule BootstrapEncoder_Inr)
  have "b2 = x"
  proof (cases "dlookup (bt_side b) current_json = None")
    case False
    then have h: "sidecar_holds i x (bt_side b)" "int64 i" using assms(2) by (auto simp: boot_ready_def)
    from LoadCurrent_Inr_holds [OF l h] d assms(3) show ?thesis by auto
  next
    case True
    then have h: "dictionaries (bt_db b) \<noteq> []" "fst (last (dictionaries (bt_db b))) = x"
      using assms(2) by (auto simp: boot_ready_def sidecar_holds_def holds_file_def)
    have "b1 = []" using LoadCurrent_Inr_none [OF l True] by simp
    with d from_database_last [of i1 "b\<lparr>bt_side := d1\<rparr>" i2 b2 s2] h show ?thesis by simp
  qed
  with e assms(3) show ?thesis by auto
qed

text \<open>The encoder in use is the one every later start will make, or there is none.\<close>

definition dict_kept :: "Encoder option \<Rightarrow> disk \<Rightarrow> meta_db \<Rightarrow> bool" where
  "dict_kept enc side db = (case enc of None \<Rightarrow> True
     | Some e \<Rightarrow> has_dec e \<and> dict e \<noteq> [] \<and> (\<exists>i. boot_ready i (dict e) \<lparr>bt_side = side, bt_db = db\<rparr>))"

lemma dict_kept_cong:
  assumes "dlookup side' = dlookup side" and "dictionaries db' = dictionaries db"
  shows "dict_kept enc side' db' = dict_kept enc side db"
  by (simp add: dict_kept_def boot_ready_cong [OF assms] split: option.split)

definition has_dictionary :: "Encoder option \<Rightarrow> bool" where
  "has_dictionary enc \<longleftrightarrow> (\<forall>e. enc = Some e \<longrightarrow> dict e \<noteq> [])"

lemma Bootstrap_kept:
  assumes "BootstrapEncoder zs zr c walk b = (Inr enc', b')" and "sidecar_ok (bt_side b)"
    and "dict_kept enc (bt_side b) (bt_db b)" and "enc \<noteq> None \<longrightarrow> CompressionEnabled c" and "enc = None \<longrightarrow> has_dictionary enc'"
  shows "sidecar_ok (bt_side b') \<and> dict_kept enc' (bt_side b') (bt_db b')
    \<and> (enc \<noteq> None \<longrightarrow> (\<exists>e e'. enc = Some e \<and> enc' = Some e' \<and> dict e' = dict e \<and> has_dec e'))"
proof (cases enc')
  case None
  then have "\<not> CompressionEnabled c"
    using assms(1) by (intro notI) (auto simp: BootstrapEncoder_def tryE_Inr_iff split: sum.splits if_splits, (metis sum.exhaust)+)
  with assms None show ?thesis by (auto simp: BootstrapEncoder_def dict_kept_def)
next
  case (Some e')
  note B = assms(1) [unfolded Some]
  have dec: "has_dec e'" using B by (rule BootstrapEncoder_Inr)
  have eta: "\<lparr>bt_side = bt_side y, bt_db = bt_db y\<rparr> = y" for y :: boot_env by simp
  have same: "dict e' = dict e" if en: "enc = Some e" for e
  proof -
    obtain j where "boot_ready j (dict e) b" "dict e \<noteq> []" using assms(3) en eta by (auto simp: dict_kept_def)
    then show ?thesis by (rule Bootstrap_choice [OF B])
  qed
  have ne: "dict e' \<noteq> []" using assms(3,5) same Some by (cases enc) (auto simp: dict_kept_def has_dictionary_def)
  obtain j where j: "boot_ready j (dict e') b'" using BootstrapEncoder_ready [OF B assms(2) ne] by blast
  have "boot_ready j (dict e') \<lparr>bt_side = bt_side b', bt_db = bt_db b'\<rparr>" by (subst eta) (rule j)
  with dec ne same Some boot_ready_ok [OF j ne] show ?thesis by (auto simp: dict_kept_def)
qed

subsection \<open>Crash and restart\<close>

text \<open>A request that a crash interrupts may have appended records, of which no row of the database tells.\<close>

fun appended :: "(bytes \<times> bool) list \<Rightarrow> SegmentManager \<Rightarrow> SegmentManager" where
  "appended [] sm = sm"
| "appended ((rec, fsync) # rs) sm = appended rs (snd (appendLocked rec fsync sm))"

lemma appended_keeps: "sm_inv sm \<Longrightarrow> sm_inv (appended rs sm) \<and> (\<forall>l r. durable sm l r \<longrightarrow> durable (appended rs sm) l r)"
proof (induction rs sm rule: appended.induct)
  case (2 rec fsync rs sm)
  note k = appendLocked_keeps [OF prod.collapse [symmetric] 2(2), of rec fsync]
  from 2(1) [OF k(2)] keeps_durable [OF k(1)] show ?case by simp
qed simp

text \<open>The newest segment is open, holds records that are not empty and no footer, and all of it is synced.\<close>

definition restartable :: "SegmentManager \<Rightarrow> bool" where
  "restartable sm \<longleftrightarrow> live sm \<and> clean sm \<and> (\<forall>f. active_dfile sm = Some f \<longrightarrow> activeOffset sm \<le> fsynced f)"

abbreviation sh_of :: "('s, 'b) Server \<Rightarrow> ('s, 'b) shard" where
  "sh_of s \<equiv> sv_shard (ss_service s)"

text \<open>What the crash of a process leaves for the next one: committed rows, synced bytes, the files of the sidecar.\<close>

definition left_by :: "(bytes \<times> bool) list \<Rightarrow> ('s, 'b) Server \<Rightarrow> disk \<Rightarrow> 'd machine \<Rightarrow> bool" where
  "left_by rs s side m \<longleftrightarrow> restartable (appended rs (segments (sh_blobs (sh_of s))))
     \<and> crash (sdisk (appended rs (segments (sh_blobs (sh_of s))))) (mc_segments m) \<and> tidy (mc_segments m)
     \<and> dlookup (mc_side m) = dlookup side
     \<and> same_rows (sh_meta (sh_of s)) (mc_db m) \<and> dictionaries (mc_db m) = dictionaries (sh_meta (sh_of s))"

lemma open_segments_Inr: "open_segments cfg m = (Inr sm, m1) \<Longrightarrow> \<exists>u sm0. NewSegmentManager (cfg_SegmentMaxSize cfg) (mc_segments m) = (Inr u, sm0)
    \<and> sm = SetVerifyChecksum (cfg_VerifyChecksum cfg) sm0 \<and> m1 = m\<lparr>mc_segments := sdisk sm0\<rparr>"
  by (auto simp: open_segments_def split: prod.splits sum.splits)

lemma open_encoder_Inr: "open_encoder zs zr E cfg m = (Inr enc, m1) \<Longrightarrow>
    \<exists>b. BootstrapEncoder zs zr cfg (se_walk E) \<lparr>bt_side = mc_side m, bt_db = mc_db m\<rparr> = (Inr enc, b) \<and> m1 = m\<lparr>mc_side := bt_side b, mc_db := bt_db b\<rparr>"
  by (auto simp: open_encoder_def split: prod.splits)

lemma open_dedup_Inr: "open_dedup im ir L E cfg m = (Inr idx, m1) \<Longrightarrow>
    same_rows (mc_db m) (mc_db m1) \<and> dictionaries (mc_db m1) = dictionaries (mc_db m) \<and> mc_side m1 = mc_side m"
  by (auto simp: open_dedup_def Let_def dest: Rebuild_rows split: sum.splits if_splits prod.splits)

lemma open_journal_Inr: "open_journal cfg m = (Inr j, m1) \<Longrightarrow> mc_db m1 = mc_db m \<and> mc_side m1 = mc_side m"
  by (auto simp: open_journal_def split: if_splits prod.splits sum.splits)

lemma start_shard_Inr:
  assumes "start_shard im ir L zr E loaded m = (Inr (Some (cfg, s)), m')"
  obtains u sm v c enc b where "NewSegmentManager (cfg_SegmentMaxSize loaded) (mc_segments m) = (Inr u, sm)"
    "BootstrapEncoder (lib_zstd L) zr c (se_walk E) \<lparr>bt_side = mc_side m, bt_db = mc_db m\<rparr> = (Inr enc, b)"
    "CompressionEnabled c = CompressionEnabled loaded"
    "segments (sh_blobs (sh_of s)) = SetVerifyChecksum v sm" "encoder (sh_blobs (sh_of s)) = enc"
    "same_rows (bt_db b) (sh_meta (sh_of s))" "dictionaries (sh_meta (sh_of s)) = dictionaries (bt_db b)" "mc_side m' = bt_side b"
proof -
  define c where "c = loaded\<lparr>cfg_ClusterKey := EffectiveClusterKey loaded\<rparr>"
  obtain sm m1 enc m2 idx m3 j m4 where o: "open_segments c m = (Inr sm, m1)" "open_encoder (lib_zstd L) zr E c m1 = (Inr enc, m2)"
      "open_dedup im ir L E c m2 = (Inr idx, m3)" "open_journal c m3 = (Inr j, m4)"
    and f: "(case register_start (se_cancel E) (se_answers E) c of None \<Rightarrow> (Inr None, m4) | Some (Inl e) \<Rightarrow> (Inl e, m4)
       | Some (Inr cfg) \<Rightarrow> (Inr (Some (cfg, start_server E cfg
           \<lparr>sv_shard = \<lparr>sh_blobs = NewBlobStore sm (Some (NewSegmentIndex (mc_index m4))) enc idx (0 < cfg_WriteBufferMaxBytes c) (se_clock E),
                sh_meta = mc_db m4\<rparr>, sv_journal = j, sv_queue = start_queue c\<rparr>)), m4)) = (Inr (Some (cfg, s)), m')"
    using assms by (unfold start_shard_def Let_def, fold c_def) (simp only: tryE_Inr_iff, blast)
  obtain u sm0 where sm: "NewSegmentManager (cfg_SegmentMaxSize c) (mc_segments m) = (Inr u, sm0)" "sm = SetVerifyChecksum (cfg_VerifyChecksum c) sm0"
    "m1 = m\<lparr>mc_segments := sdisk sm0\<rparr>" using open_segments_Inr [OF o(1)] by blast
  obtain b where b: "BootstrapEncoder (lib_zstd L) zr c (se_walk E) \<lparr>bt_side = mc_side m, bt_db = mc_db m\<rparr> = (Inr enc, b)"
    "mc_db m2 = bt_db b" "mc_side m2 = bt_side b" using open_encoder_Inr [OF o(2)] sm(3) by auto
  have s: "segments (sh_blobs (sh_of s)) = sm" "encoder (sh_blobs (sh_of s)) = enc" "sh_meta (sh_of s) = mc_db m4" "m' = m4"
    using f by (auto simp: start_server_def NewShardServer_def NewServer_def NewBlobStore_def Let_def split: option.splits sum.splits)
  show thesis
    using that [OF sm(1) [unfolded c_def, simplified] b(1) _ s(1) [unfolded sm(2)] s(2)] open_dedup_Inr [OF o(3)] open_journal_Inr [OF o(4)] b(2,3) s(3,4)
    by (simp add: c_def)
qed

subsection \<open>The life of a shard\<close>

inductive life :: "(memoryStore \<Rightarrow> 's) \<Rightarrow> ('d \<Rightarrow> 's) \<Rightarrow> ('s, 'b) libs \<Rightarrow> zip_reader
    \<Rightarrow> Config \<times> ('s, 'b) Server \<times> disk \<Rightarrow> Config \<times> ('s, 'b) Server \<times> disk \<Rightarrow> bool"
  for im ir L zr x where
  life_refl: "life im ir L zr x x"
| life_event: "life im ir L zr x (cfg, s, side) \<Longrightarrow> life im ir L zr x (cfg, shard_step L zr cfg e s, side)"
| life_restart: "life im ir L zr x (cfg, s, side) \<Longrightarrow> left_by rs s side m
    \<Longrightarrow> start_shard im ir L zr E loaded m = (Inr (Some (cfg', s')), m')
    \<Longrightarrow> (encoder (sh_blobs (sh_of s)) \<noteq> None \<longrightarrow> CompressionEnabled loaded)
    \<Longrightarrow> (encoder (sh_blobs (sh_of s)) = None \<longrightarrow> has_dictionary (encoder (sh_blobs (sh_of s'))))
    \<Longrightarrow> life im ir L zr x (cfg', s', mc_side m')"

definition sound :: "zstd \<Rightarrow> ('s, 'b) Server \<Rightarrow> disk \<Rightarrow> bool" where
  "sound zs s side \<longleftrightarrow> shard_inv zs (sh_of s) \<and> sidecar_ok side \<and> dict_kept (encoder (sh_blobs (sh_of s))) side (sh_meta (sh_of s))"

lemma sound_event:
  assumes "zstd_laws (lib_zstd L)" and "sound (lib_zstd L) s side"
  shows "sound (lib_zstd L) (shard_step L zr cfg e s) side \<and> package_keys (sh_meta (sh_of s)) \<subseteq> package_keys (sh_meta (sh_of (shard_step L zr cfg e s)))"
proof -
  have "shard_inv (lib_zstd L) (sh_of (shard_step L zr cfg e s)) \<and> package_keys (sh_meta (sh_of s)) \<subseteq> package_keys (sh_meta (sh_of (shard_step L zr cfg e s)))"
    using grows_shard_step [OF assms(1), of s zr cfg e] assms(2) by (simp add: grows_def sound_def)
  moreover have "dict_kept (encoder (sh_blobs (sh_of (shard_step L zr cfg e s)))) side (sh_meta (sh_of (shard_step L zr cfg e s)))"
    using assms(2) fixed_step [of L zr cfg e s] dict_kept_cong [OF refl, of "sh_meta (sh_of (shard_step L zr cfg e s))" "sh_meta (sh_of s)"]
    by (simp add: sound_def fixed_def)
  ultimately show ?thesis using assms(2) by (simp add: sound_def)
qed

lemma payload_kept:
  assumes "payload_of zs enc m p = Inr x" and "enc \<noteq> None \<longrightarrow> (\<exists>e e'. enc = Some e \<and> enc' = Some e' \<and> dict e' = dict e \<and> has_dec e')" and "encoder_ready enc"
  shows "payload_of zs enc' m p = Inr x"
  using assms by (cases enc) (auto simp: payload_of_def Decompress_def encoder_ready_def split: if_splits)

lemma restart_left:
  assumes "left_by rs s side m" and "NewSegmentManager k (mc_segments m) = (Inr u, sm)"
    and "sm_inv (segments (sh_blobs (sh_of s)))" and "durable (segments (sh_blobs (sh_of s))) l r"
  shows "durable sm l r"
  using restart_durable [OF _ _ _ _ _ _ assms(2), of "appended rs (segments (sh_blobs (sh_of s)))" l r] appended_keeps [OF assms(3), of rs] assms(1,4)
  by (auto simp: left_by_def restartable_def)

lemma sound_restart:
  assumes "sound (lib_zstd L) s side" and "left_by rs s side m" and "start_shard im ir L zr E loaded m = (Inr (Some (cfg', s')), m')"
    and "encoder (sh_blobs (sh_of s)) \<noteq> None \<longrightarrow> CompressionEnabled loaded"
    and "encoder (sh_blobs (sh_of s)) = None \<longrightarrow> has_dictionary (encoder (sh_blobs (sh_of s')))"
  shows "sound (lib_zstd L) s' (mc_side m') \<and> package_keys (sh_meta (sh_of s)) \<subseteq> package_keys (sh_meta (sh_of s'))"
proof -
  let ?z = "lib_zstd L" and ?b = "sh_blobs (sh_of s)" and ?b' = "sh_blobs (sh_of s')"
  from assms(3) obtain u sm v c enc b where n: "NewSegmentManager (cfg_SegmentMaxSize loaded) (mc_segments m) = (Inr u, sm)"
    and be: "BootstrapEncoder ?z zr c (se_walk E) \<lparr>bt_side = mc_side m, bt_db = mc_db m\<rparr> = (Inr enc, b)"
    and c: "CompressionEnabled c = CompressionEnabled loaded" and s': "segments ?b' = SetVerifyChecksum v sm" "encoder ?b' = enc"
    and db: "same_rows (bt_db b) (sh_meta (sh_of s'))" "dictionaries (sh_meta (sh_of s')) = dictionaries (bt_db b)" and side: "mc_side m' = bt_side b"
    by (rule start_shard_Inr)
  have lb: "tidy (mc_segments m)" "dlookup (mc_side m) = dlookup side"
    "same_rows (sh_meta (sh_of s)) (mc_db m)" "dictionaries (mc_db m) = dictionaries (sh_meta (sh_of s))"
    using assms(2) by (auto simp: left_by_def)
  have inv: "shard_inv ?z (sh_of s)" "sidecar_ok side" "dict_kept (encoder ?b) side (sh_meta (sh_of s))" using assms(1) by (auto simp: sound_def)
  then have sm: "sm_inv (segments ?b)" "encoder_ready (encoder ?b)" by (auto simp: shard_inv_def store_inv_def)
  have dur: "durable (segments ?b') l r" if "durable (segments ?b) l r" for l r
    using restart_left [OF assms(2) n sm(1) that] by (simp add: s'(1) SetVerifyChecksum_same)
  have "dict_kept (encoder ?b) (mc_side m) (mc_db m)" using inv(3) dict_kept_cong [OF lb(2,4)] by simp
  with Bootstrap_kept [OF be, of "encoder ?b"] inv(2) sidecar_ok_cong [OF lb(2)] assms(4,5) c s'(2)
  have k: "sidecar_ok (bt_side b)" "dict_kept enc (bt_side b) (bt_db b)"
    "encoder ?b \<noteq> None \<longrightarrow> (\<exists>e e'. encoder ?b = Some e \<and> enc = Some e' \<and> dict e' = dict e \<and> has_dec e')" by simp_all
  have smi: "sm_inv (segments ?b')" using NewSegmentManager_Inr [OF n lb(1)] by (auto simp: s'(1) SetVerifyChecksum_same)
  have rows: "same_rows (sh_meta (sh_of s)) (sh_meta (sh_of s'))"
    using same_rows_trans [OF lb(3) same_rows_trans [OF _ db(1)]] Bootstrap_rows [of "\<lparr>bt_side = mc_side m, bt_db = mc_db m\<rparr>" ?z zr c "se_walk E"] be by simp
  have bk: "backed ?z ?b' x" if "backed ?z ?b x" for x
    using that dur payload_kept [OF _ k(3) sm(2)] unfolding backed_def blob_content_def s'(2) by meson
  have "encoder_ready enc" using k(2) by (auto simp: dict_kept_def encoder_ready_def split: option.splits)
  then have "shard_inv ?z \<lparr>sh_blobs = ?b', sh_meta = sh_meta (sh_of s)\<rparr>"
    using inv(1) bk smi s'(2) by (auto simp: shard_inv_def store_inv_def list_all_iff)
  from shard_inv_rows [OF this, of "sh_of s'"] rows have "shard_inv ?z (sh_of s')" by simp
  moreover have "dict_kept (encoder ?b') (mc_side m') (sh_meta (sh_of s'))"
    using k(2) s'(2) side dict_kept_cong [OF refl db(2)] by simp
  moreover have "package_keys (sh_meta (sh_of s')) = package_keys (sh_meta (sh_of s))" using rows by (simp add: package_keys_def same_rows_def)
  ultimately show ?thesis using k(1) side by (simp add: sound_def)
qed

lemma life_sound:
  assumes "life im ir L zr x y" and "zstd_laws (lib_zstd L)" and "sound (lib_zstd L) (fst (snd x)) (snd (snd x))"
  shows "sound (lib_zstd L) (fst (snd y)) (snd (snd y)) \<and> package_keys (sh_meta (sh_of (fst (snd x)))) \<subseteq> package_keys (sh_meta (sh_of (fst (snd y))))"
  using assms(1)
proof induction
  case life_refl
  with assms(3) show ?case by simp
next
  case (life_event cfg s side e)
  with sound_event [OF assms(2), of s side zr cfg e] show ?case by auto
next
  case (life_restart cfg s side rs m E loaded cfg' s' m')
  with sound_restart [of L s side rs m im ir zr E loaded cfg' s' m'] show ?case by auto
qed

lemma original_served:
  assumes "shard_inv (lib_zstd L) (sh_of s)" and "(i, h) \<in> package_keys (sh_meta (sh_of s))" and "0 \<le> i" and "i < 2 ^ 63"
    and "b = fst (Router L zr cfg dir readFile (GetPackageOriginal (itoa i)) rq s)"
  shows "aa_status b = 200 \<Longrightarrow> \<exists>data. aa_body b = ApiBytes data \<and> aa_length b = Some (int (length data)) \<and> ContentHash_of data = h"
    and "faultless (ss_service s) \<Longrightarrow> dio (sdisk (segments (sh_blobs (sh_of s)))) = [] \<Longrightarrow> aa_status b = 200"
proof -
  obtain c sv where c: "getOriginal_shard L (itoa i) (ss_service s) = (c, sv)" by fastforce
  have b: "b = c" by (simp add: assms(5) Router_open on_service_def c)
  note g = getOriginal_content [OF assms(1,2) Atoi_itoa_nonneg [OF assms(3,4)] c]
  show "aa_status b = 200 \<Longrightarrow> \<exists>data. aa_body b = ApiBytes data \<and> aa_length b = Some (int (length data)) \<and> ContentHash_of data = h" using g(1) b by simp
  show "faultless (ss_service s) \<Longrightarrow> dio (sdisk (segments (sh_blobs (sh_of s)))) = [] \<Longrightarrow> aa_status b = 200" using g(2) b by simp
qed

text \<open>
  C1 (safety). A package that a shard holds survives crashes: after any history of requests, unpack
  jobs, checks of the disk, crashes (also in the middle of a request) and restarts that choose
  their dictionary anew, a request for its original that is answered 200 carries content of its
  hash, and it is answered 200 when neither files nor database fail. The crashes are those at which
  the newest segment is open, consists of whole records of known types with payloads that are not
  empty, and of no footer, and is synced as far as it was appended to; they leave a directory
  with properly named segment files only, with ids below 10000, the committed rows and the
  files of the sidecar. Compression is not turned off between two starts, and when it is turned
  on there is a dictionary.
\<close>

theorem shard_survives_crashes:
  assumes "zstd_laws (lib_zstd L)" and "sound (lib_zstd L) s0 side0" and "life im ir L zr (cfg0, s0, side0) (cfg, s, side)"
    and "(i, h) \<in> package_keys (sh_meta (sh_of s0))" and "0 \<le> i" and "i < 2 ^ 63"
    and "b = fst (Router L zr cfg dir readFile (GetPackageOriginal (itoa i)) rq s)"
  shows "shard_inv (lib_zstd L) (sh_of s)
    \<and> (aa_status b = 200 \<longrightarrow> (\<exists>data. aa_body b = ApiBytes data \<and> aa_length b = Some (int (length data)) \<and> ContentHash_of data = h))
    \<and> (faultless (ss_service s) \<and> dio (sdisk (segments (sh_blobs (sh_of s)))) = [] \<longrightarrow> aa_status b = 200)"
proof -
  have s: "shard_inv (lib_zstd L) (sh_of s)" "(i, h) \<in> package_keys (sh_meta (sh_of s))"
    using life_sound [OF assms(3,1)] assms(2,4) by (auto simp: sound_def)
  from s(1) original_served [OF s assms(5-7)] show ?thesis by simp
qed

text \<open>A shard with one package, stored as the record \<open>(m, p)\<close> of \<open>data\<close>, and the machine a crash leaves.\<close>

definition stored_server :: "u32 \<Rightarrow> bytes \<Rightarrow> bytes \<Rightarrow> Encoder option \<Rightarrow> (memoryStore, bytes list) Server" where
  "stored_server m p data enc = NewServer \<lparr>sv_shard = \<lparr>sh_blobs = NewBlobStore (one_record 1000 m p) None enc None False [],
     sh_meta = (empty_meta [])\<lparr>
       content_blobs := [\<lparr>ContentHash = ContentHash_of data, BlobSize = int (length data), StoredSize = int (length p + 12), cb_SegmentID = 0,
         cb_Offset = 0, RefCount = 1, FirstSeenAt = 0\<rparr>],
       packages := [\<lparr>pk_ID = 1, pk_SupplierID = 5, pk_ReceivedAt = 0, pk_PackageHash = ContentHash_of data, PayloadType_of = ''xml'',
         StorageMode = ''single'', pk_OriginalFilename = None, CanonicalPackageID = None, FileCount = 1, UnpackError = None, Files = []\<rparr>],
       package_files := [\<lparr>pf_ID = 1, pf_PackageID = 1, BlobHash = ContentHash_of data, Role = ''original'', pf_OriginalFilename = None,
         SequenceNumber = None, pf_Size = 0\<rparr>],
       seq_packages := 1, seq_files := 1\<rparr>\<rparr>, sv_journal = None, sv_queue = None\<rparr>"

definition crashed_machine :: "(memoryStore, bytes list) Server \<Rightarrow> unit machine" where
  "crashed_machine s = \<lparr>mc_segments = sdisk (segments (sh_blobs (sh_of s))), mc_index = \<lparr>dfiles = [], dio = []\<rparr>, mc_journal = \<lparr>dfiles = [], dio = []\<rparr>,
     mc_side = \<lparr>dfiles = [], dio = []\<rparr>, mc_db = sh_meta (sh_of s), mc_rocks = Inl (Err ''no database'')\<rparr>"

definition quiet_start :: start_env where
  "quiet_start = \<lparr>se_rocks_built = False, se_rate = 0, se_walk = [], se_clock = [], se_cancel = 0, se_answers = (\<lambda>_. []), se_free = (\<lambda>_. Missing)\<rparr>"

definition plain_config :: Config where
  "plain_config = sample_config\<lparr>CompressionEnabled := False, cfg_DedupBackend := ''postgres'', cfg_CoordinatorURL := []\<rparr>"

lemma stored_server_sound:
  assumes "valid_rec (m, p)" and "length p < 2 ^ 32" and "payload_of zs enc m p = Inr data" and "encoder_ready enc"
  shows "shard_inv zs (sh_of (stored_server m p data enc))"
proof -
  have d: "durable (one_record 1000 m p) (first_loc p) (EncodeRecord m p)"
    using seg_durable.append_has [OF appendDirect_first [of m p 1000]] by simp
  then show ?thesis using assms one_record_ok(1) [of 1000 m p]
    by (auto simp: stored_server_def NewServer_def NewBlobStore_def shard_inv_def store_inv_def md_wf_def backed_def blob_content_def blob_loc_def
        empty_meta_def has_blob_def has_package_def balance_def owed_def refs_def find_blob_def ref_count_of_def has_original_def)
qed

lemma stored_server_left:
  assumes "valid_rec (m, p)"
  shows "left_by [] (stored_server m p data enc) \<lparr>dfiles = [], dio = []\<rparr> (crashed_machine (stored_server m p data enc))"
proof -
  let ?s = "one_record 1000 m p"
  obtain f where f: "active_dfile ?s = Some f" "fsynced f = length (fdata f)" "length (fdata f) = length p + 12"
    by (simp add: one_record_def active_dfile_def file_write_def write_bytes_def empty_file_def)
  have cr: "crash (sdisk ?s) (sdisk ?s)"
    using f by (auto simp: crash_def one_record_def active_dfile_def intro: crash_file_refl)
  with f one_record_ok [where k = 1000 and m = m and p = p] assms show ?thesis
    by (auto simp: left_by_def restartable_def stored_server_def crashed_machine_def NewServer_def NewBlobStore_def same_rows_def)
qed

lemma plain_start_runs:
  assumes "\<not> CompressionEnabled c" and "cfg_DedupBackend c = ''postgres''"
    and "register_start (se_cancel E) (se_answers E) (c\<lparr>cfg_ClusterKey := EffectiveClusterKey c\<rparr>) = Some (Inr cfg)"
  shows "\<exists>s m'. start_shard id (\<lambda>_. newMemoryStore) sample_libs no_zip E c (crashed_machine (stored_server m p data enc)) = (Inr (Some (cfg, s)), m')
     \<and> faultless (ss_service s) \<and> dio (sdisk (segments (sh_blobs (sh_of s)))) = [] \<and> encoder (sh_blobs (sh_of s)) = None"
proof -
  have h: "dio (sdisk (one_record 1000 m p)) = []" using one_record_ok(3) [of 1000 m p] by simp
  obtain sm where sm: "NewSegmentManager k (sdisk (one_record 1000 m p)) = (Inr (), sm k)" "dio (sdisk (sm k)) = []" for k
    using NewSegmentManager_ok [OF h] by metis
  show ?thesis using assms
    by (simp add: start_shard_def Let_def open_segments_def crashed_machine_def stored_server_def NewServer_def NewBlobStore_def sm open_encoder_def
        BootstrapEncoder_def open_dedup_def Open_index_def index_of_def open_journal_def NewJournal_def next_io_def os_OpenCreate_def
        start_server_def NewShardServer_def faultless_def empty_meta_def SetVerifyChecksum_def)
qed

lemma quiet_start_runs:
  "\<exists>cfg s m'. start_shard id (\<lambda>_. newMemoryStore) sample_libs no_zip quiet_start plain_config (crashed_machine (stored_server m p data enc)) = (Inr (Some (cfg, s)), m')
     \<and> faultless (ss_service s) \<and> dio (sdisk (segments (sh_blobs (sh_of s)))) = [] \<and> encoder (sh_blobs (sh_of s)) = None"
proof -
  have "register_start (se_cancel quiet_start) (se_answers quiet_start) (plain_config\<lparr>cfg_ClusterKey := EffectiveClusterKey plain_config\<rparr>)
      = Some (Inr (plain_config\<lparr>cfg_ClusterKey := EffectiveClusterKey plain_config\<rparr>))" by (simp add: register_start_def plain_config_def)
  from plain_start_runs [OF _ _ this] show ?thesis by (simp add: plain_config_def) blast
qed

theorem shard_survives_crashes_witness:
  "\<exists>cfg s m'. start_shard id (\<lambda>_. newMemoryStore) sample_libs no_zip quiet_start plain_config (crashed_machine (stored_server MagicXML [7] [7] None)) = (Inr (Some (cfg, s)), m')
     \<and> aa_status (fst (Router sample_libs no_zip cfg (Inr []) (\<lambda>_. Inl (Err ''gone'')) (GetPackageOriginal (itoa 1)) sample_request s)) = 200"
proof -
  let ?s0 = "stored_server MagicXML [7] [7] None" and ?side = "\<lparr>dfiles = [], dio = []\<rparr>" and ?im = "id :: memoryStore \<Rightarrow> memoryStore" and ?ir = "\<lambda>_ :: unit. newMemoryStore"
  have v: "valid_rec (MagicXML, [7])" by (simp add: valid_rec_def KnownMagic_def)
  have z: "lib_zstd sample_libs = run_zstd" by (simp add: sample_libs_def)
  have enc: "encoder (sh_blobs (sh_of ?s0)) = None" by (simp add: stored_server_def NewServer_def NewBlobStore_def)
  have "shard_inv run_zstd (sh_of ?s0)"
    by (rule stored_server_sound [OF v]) (simp_all add: payload_of_def IsCompressedXML_def MagicXML_def MagicXMLC_def encoder_ready_def)
  then have so: "sound (lib_zstd sample_libs) ?s0 ?side" by (simp add: sound_def z enc dict_kept_def sidecar_ok_def)
  obtain cfg s m' where st: "start_shard ?im ?ir sample_libs no_zip quiet_start plain_config (crashed_machine ?s0) = (Inr (Some (cfg, s)), m')"
    "faultless (ss_service s)" "dio (sdisk (segments (sh_blobs (sh_of s)))) = []" "encoder (sh_blobs (sh_of s)) = None" using quiet_start_runs by blast
  have "life ?im ?ir sample_libs no_zip (plain_config, ?s0, ?side) (cfg, s, mc_side m')"
    by (rule life_restart [OF life_refl stored_server_left [OF v] st(1)]) (simp_all add: enc st(4) has_dictionary_def)
  moreover have "(1, ContentHash_of [7]) \<in> package_keys (sh_meta (sh_of ?s0))"
    by (simp add: package_keys_def stored_server_def NewServer_def)
  ultimately show ?thesis
    using shard_survives_crashes [of sample_libs ?s0 ?side ?im ?ir no_zip plain_config cfg s "mc_side m'" 1 "ContentHash_of [7]", OF _ so _ _ _ _ refl]
      st run_zstd_laws z by fastforce
qed

subsection \<open>A sealed shard\<close>

lemma evaluate_readOnly: "readOnly (evaluate cfg st g) = readOnly g"
  by (simp add: evaluate_def SetWriteBlockReason_def split: sum.split)

lemma sealed_gate: "sealed s \<Longrightarrow> sealed (s\<lparr>ss_guard := runDiskWriteGate cfg st (ss_guard s)\<rparr>)"
  by (auto simp: sealed_def runDiskWriteGate_def evaluate_readOnly)

lemma start_server_sealed: "cfg_ShardReadOnly cfg \<Longrightarrow> sealed (start_server E cfg sv)"
  unfolding start_server_def Let_def by (rule sealed_gate) (simp add: sealed_def NewShardServer_def NewServer_def NewShardGuard_def)

lemma sealed_run_shard: "sealed s \<Longrightarrow> sealed (run_shard L zr cfg es s)"
proof (induction es arbitrary: s)
  case (Cons e es)
  have "sealed (shard_step L zr cfg e s)"
    using sealed_step [OF Cons.prems] sealed_gate [OF Cons.prems] by (cases e) (simp_all del: server_step.simps)
  with Cons.IH show ?case by simp
qed simp

text \<open>
  C39 (safety). A shard that the coordinator knows as sealed refuses every package from its start on,
  whatever requests, unpack jobs and checks of the disk come between.
\<close>

theorem sealed_shard_starts_read_only:
  assumes "start_shard im ir L zr E loaded m = (Inr (Some (cfg, s)), m')"
    and "cfg_ShardRole loaded = ''primary''" and "cfg_CoordinatorURL loaded \<noteq> []"
    and "fst (RegisterShardWithRetry (se_cancel E) 500 0
           (se_answers E (startupRegistrationRequest (loaded\<lparr>cfg_ClusterKey := EffectiveClusterKey loaded\<rparr>)))) = Some (Inr (shard, isNew))"
    and "State shard = ShardSealed" and "s' = run_shard L zr cfg es s"
  shows "\<exists>b. Router L zr cfg dir readFile PostPackages rq s' = (b, s') \<and> aa_status b \<in> {403, 507}"
proof -
  obtain sv where s: "s = start_server E cfg sv" and r: "cfg_ShardReadOnly cfg"
    using assms(1-5) by (auto simp: start_shard_def Let_def tryE_Inr_iff register_start_def split: if_splits)
  have "sealed s" unfolding s by (rule start_server_sealed [OF r])
  then show ?thesis using sealed_refuses sealed_run_shard assms(6) by blast
qed

definition sealed_info :: ShardInfo where
  "sealed_info = \<lparr>ShardID = 3, ShardUUID = Some ''u'', State = ShardSealed, PrimaryURL = ''http://s'', ReplicaURL = None, TotalBytes_of = 0,
     SealedAt = Some 1, LastSeenAt = None, LastError = None, CreatedAt = 0\<rparr>"

definition sealed_env :: start_env where
  "sealed_env = quiet_start\<lparr>se_answers := \<lambda>_. [Answered 503 [] None, Answered 200 [] (Some (sealed_info, False))], se_cancel := 10000\<rparr>"

definition member_config :: Config where
  "member_config = plain_config\<lparr>cfg_CoordinatorURL := ''http://c'', cfg_ShardUUID := ''u'', cfg_ShardAdvertiseURL := ''http://s'', cfg_ClusterKey := ''k'',
     cfg_ShardRole := ''primary''\<rparr>"

theorem sealed_shard_starts_read_only_witness:
  "\<exists>cfg s m'. start_shard id (\<lambda>_. newMemoryStore) sample_libs no_zip sealed_env member_config (crashed_machine (stored_server MagicXML [7] [7] None)) = (Inr (Some (cfg, s)), m')
     \<and> aa_status (fst (Router sample_libs no_zip cfg (Inr []) (\<lambda>_. Inl (Err ''gone'')) PostPackages sample_request s)) \<in> {403, 507}"
proof -
  have k: "EffectiveClusterKey member_config = ''k''" by (simp add: EffectiveClusterKey_def member_config_def) code_simp
  have a: "fst (RegisterShardWithRetry (se_cancel sealed_env) 500 0 (se_answers sealed_env rq)) = Some (Inr (sealed_info, False))" for rq
    by (simp add: sealed_env_def RegisterShardOnce_def shouldRetryRegister_def IsRetryable_def next_delay_def)
  have "\<exists>cfg. register_start (se_cancel sealed_env) (se_answers sealed_env) (member_config\<lparr>cfg_ClusterKey := EffectiveClusterKey member_config\<rparr>) = Some (Inr cfg)"
    using a k by (simp add: register_start_def) (simp add: member_config_def)
  then obtain cfg s m' where st: "start_shard id (\<lambda>_ :: unit. newMemoryStore) sample_libs no_zip sealed_env member_config
      (crashed_machine (stored_server MagicXML [7] [7] None)) = (Inr (Some (cfg, s)), m')"
    using plain_start_runs [of member_config sealed_env] by (fastforce simp: member_config_def plain_config_def)
  have "\<exists>b. Router sample_libs no_zip cfg (Inr []) (\<lambda>_. Inl (Err ''gone'')) PostPackages sample_request s = (b, s) \<and> aa_status b \<in> {403, 507}"
    using sealed_shard_starts_read_only [OF st _ _ a, of s "[]"] by (simp add: member_config_def sealed_info_def)
  with st show ?thesis by fastforce
qed

subsection \<open>Turning compression off\<close>

text \<open>
  C40 (safety, a violation). A shard that is started again with compression turned off has no encoder:
  none of the documents it stored compressed can be read any more, although their records are intact.
\<close>

theorem compression_off_hides_documents:
  assumes "sm_inv (segments (sh_blobs (sh_of s)))" and "durable (segments (sh_blobs (sh_of s))) (blob_loc blob) (EncodeRecord MagicXMLC p)"
    and "length p < 2 ^ 32" and "left_by rs s side m"
    and "start_shard im ir L zr E loaded m = (Inr (Some (cfg', s')), m')" and "\<not> CompressionEnabled loaded"
  shows "durable (segments (sh_blobs (sh_of s'))) (blob_loc blob) (EncodeRecord MagicXMLC p)
     \<and> (\<forall>data. fst (ReadBlob zs blob (sh_blobs (sh_of s'))) \<noteq> Inr data)"
proof -
  let ?b' = "sh_blobs (sh_of s')"
  from assms(5) obtain u sm v c enc b where n: "NewSegmentManager (cfg_SegmentMaxSize loaded) (mc_segments m) = (Inr u, sm)"
    and be: "BootstrapEncoder (lib_zstd L) zr c (se_walk E) \<lparr>bt_side = mc_side m, bt_db = mc_db m\<rparr> = (Inr enc, b)"
    and c: "CompressionEnabled c = CompressionEnabled loaded" and s': "segments ?b' = SetVerifyChecksum v sm" "encoder ?b' = enc"
    by (rule start_shard_Inr)
  have e: "encoder ?b' = None" using be c assms(6) s'(2) by (simp add: BootstrapEncoder_def)
  have d: "durable (segments ?b') (blob_loc blob) (EncodeRecord MagicXMLC p)"
    using restart_left [OF assms(4) n assms(1,2)] by (simp add: s'(1) SetVerifyChecksum_same)
  have "x = (MagicXMLC, p)" if r: "ReadRecord (cb_SegmentID blob) (cb_Offset blob) (segments ?b') = (Inr x, sm')" for x sm'
    using ReadRecord_stored [OF durable_holds [OF d] assms(3), of x sm'] r by (simp add: blob_loc_def)
  then have "fst (ReadBlob zs blob ?b') \<noteq> Inr data" for data
    using e by (auto simp: ReadBlob_def IsCompressedXML_def split: prod.splits sum.splits)
  with d show ?thesis by simp
qed

definition stored_blob :: ContentBlob where
  "stored_blob = \<lparr>ContentHash = ContentHash_of [7], BlobSize = 1, StoredSize = 13, cb_SegmentID = 0, cb_Offset = 0, RefCount = 1, FirstSeenAt = 0\<rparr>"

theorem compression_off_hides_documents_witness:
  "\<exists>cfg s m'. start_shard id (\<lambda>_. newMemoryStore) sample_libs no_zip quiet_start plain_config (crashed_machine (stored_server MagicXMLC [7] [7] (Some sample_encoder)))
       = (Inr (Some (cfg, s)), m')
     \<and> (\<forall>data. fst (ReadBlob run_zstd stored_blob (sh_blobs (sh_of s))) \<noteq> Inr data)"
proof -
  let ?s0 = "stored_server MagicXMLC [7] [7] (Some sample_encoder)"
  have v: "valid_rec (MagicXMLC, [7])" by (simp add: valid_rec_def KnownMagic_def)
  have sm: "segments (sh_blobs (sh_of ?s0)) = one_record 1000 MagicXMLC [7]" by (simp add: stored_server_def NewServer_def NewBlobStore_def)
  have d: "durable (segments (sh_blobs (sh_of ?s0))) (blob_loc stored_blob) (EncodeRecord MagicXMLC [7])"
    using seg_durable.append_has [OF appendDirect_first [of MagicXMLC "[7]" 1000]] by (simp add: sm blob_loc_def stored_blob_def)
  obtain cfg s m' where st: "start_shard id (\<lambda>_ :: unit. newMemoryStore) sample_libs no_zip quiet_start plain_config (crashed_machine ?s0) = (Inr (Some (cfg, s)), m')"
    using quiet_start_runs by blast
  have "sm_inv (segments (sh_blobs (sh_of ?s0)))" by (simp add: sm one_record_ok(1))
  from compression_off_hides_documents [OF this d _ stored_server_left [OF v] st, of run_zstd] st show ?thesis
    by (simp add: plain_config_def)
qed

end
