(* ===== verification/Time_Parse.thy ===== *)
theory Time_Parse
  imports Journal
begin

text \<open>
  \<^verbatim>\<open>time.Parse\<close> with the layout \<^verbatim>\<open>RFC3339Nano\<close>, on instants that count nanoseconds since 1970. The
  layout \<^verbatim>\<open>RFC3339\<close> accepts the same texts, since a fraction of the seconds is taken even where the
  layout has none. Parsing inverts \<open>FormatTimeUTC\<close> for the years 0 to 9999.
\<close>

definition two_digits :: "string \<Rightarrow> (nat \<times> string) option" where
  "two_digits v = (case v of a # b # r \<Rightarrow> if is_digit a \<and> is_digit b then Some (undecimal [a, b], r) else None | _ \<Rightarrow> None)"

definition year_digits :: "string \<Rightarrow> (nat \<times> string) option" where
  "year_digits v = (if length v \<ge> 4 \<and> list_all is_digit (take 4 v) then Some (undecimal (take 4 v), drop 4 v) else None)"

text \<open>The hour may have one digit.\<close>

definition hour_digits :: "string \<Rightarrow> (nat \<times> string) option" where
  "hour_digits v = (case two_digits v of
       Some x \<Rightarrow> Some x
     | None \<Rightarrow> (case v of a # r \<Rightarrow> if is_digit a then Some (undecimal [a], r) else None | [] \<Rightarrow> None))"

definition char_expect :: "char \<Rightarrow> string \<Rightarrow> string option" where
  "char_expect c v = (case v of [] \<Rightarrow> None | d # r \<Rightarrow> if c = d then Some r else None)"

text \<open>Digits beyond the ninth are dropped.\<close>

definition parse_fraction :: "string \<Rightarrow> nat \<times> string" where
  "parse_fraction v = (case v of
       c # d # r \<Rightarrow>
         if (c = CHR ''.'' \<or> c = CHR '','') \<and> is_digit d
         then (let ds = takeWhile is_digit (d # r) in
               (undecimal (take 9 ds) * 10 ^ (9 - length (take 9 ds)), dropWhile is_digit (d # r)))
         else (0, v)
     | _ \<Rightarrow> (0, v))"

text \<open>The offset of the zone in seconds.\<close>

definition parse_zone :: "string \<Rightarrow> (int \<times> string) option" where
  "parse_zone v =
     (if take 1 v = ''Z'' then Some (0, drop 1 v)
      else if length v < 6 \<or> v ! 3 \<noteq> CHR '':'' then None
      else case (two_digits (take 2 (drop 1 v)), two_digits (take 2 (drop 4 v))) of
        (Some (h, _), Some (m, _)) \<Rightarrow>
          if h > 24 \<or> m > 60 then None
          else if v ! 0 = CHR ''+'' then Some (int ((h * 60 + m) * 60), drop 6 v)
          else if v ! 0 = CHR ''-'' then Some (- int ((h * 60 + m) * 60), drop 6 v)
          else None
      | _ \<Rightarrow> None)"

definition leap :: "int \<Rightarrow> bool" where
  "leap y \<longleftrightarrow> y mod 4 = 0 \<and> (y mod 100 \<noteq> 0 \<or> y mod 400 = 0)"

definition daysIn :: "int \<Rightarrow> int \<Rightarrow> int" where
  "daysIn m y = (if m = 2 then (if leap y then 29 else 28) else if m \<in> {4, 6, 9, 11} then 30 else 31)"

definition days_of_civil :: "int \<Rightarrow> int \<Rightarrow> int \<Rightarrow> int" where
  "days_of_civil y m d =
     (let y' = (if m \<le> 2 then y - 1 else y); yoe = y' mod 400; mp = (m + 9) mod 12;
          doy = (153 * mp + 2) div 5 + d - 1
      in y' div 400 * 146097 + (yoe * 365 + yoe div 4 - yoe div 100 + doy) - 719468)"

definition time_Parse :: "string \<Rightarrow> time option" where
  "time_Parse v =
     Option.bind (year_digits v) (\<lambda>(y, v). Option.bind (char_expect (CHR ''-'') v) (\<lambda>v.
     Option.bind (two_digits v) (\<lambda>(m, v). Option.bind (char_expect (CHR ''-'') v) (\<lambda>v.
     Option.bind (two_digits v) (\<lambda>(d, v). Option.bind (char_expect (CHR ''T'') v) (\<lambda>v.
     Option.bind (hour_digits v) (\<lambda>(h, v). Option.bind (char_expect (CHR '':'') v) (\<lambda>v.
     Option.bind (two_digits v) (\<lambda>(mi, v). Option.bind (char_expect (CHR '':'') v) (\<lambda>v.
     Option.bind (two_digits v) (\<lambda>(s, v).
       case parse_fraction v of (ns, v) \<Rightarrow>
     Option.bind (parse_zone v) (\<lambda>(z, v).
       if v = [] \<and> 1 \<le> m \<and> m \<le> 12 \<and> 1 \<le> d \<and> int d \<le> daysIn (int m) (int y) \<and> h < 24 \<and> mi < 60 \<and> s < 60
       then Some ((days_of_civil (int y) (int m) (int d) * 86400 + int ((h * 60 + mi) * 60 + s) - z) * 1000000000 + int ns)
       else None))))))))))))"

subsection \<open>Calendar days\<close>

text \<open>The days before a year of an era of 400 years that begins in March.\<close>

definition year_start :: "int \<Rightarrow> int" where
  "year_start yoe = 365 * yoe + yoe div 4 - yoe div 100"

definition year_of_era :: "int \<Rightarrow> int" where
  "year_of_era doe = (doe - doe div 1460 + doe div 36524 - doe div 146096) div 365"

lemma year_of_era_step: "0 \<le> a \<Longrightarrow> a < 146095 \<Longrightarrow> year_of_era a \<le> year_of_era (a + 1)"
proof -
  assume a: "0 \<le> a" "a < 146095"
  have le: "a - q + r - z \<le> a + 1 - q' + r' - z'" if "q' \<le> q + 1" "r \<le> r'" "z = 0" "z' = 0" for q q' r r' z z' :: int
    using that by simp
  have "(a + 1) div 1460 \<le> (a + 1 * 1460) div 1460" by (rule zdiv_mono1) simp_all
  also have "\<dots> = a div 1460 + 1" using div_mult_self1 [of 1460 a 1] by simp
  finally have q: "(a + 1) div 1460 \<le> a div 1460 + 1" .
  have r: "a div 36524 \<le> (a + 1) div 36524" by (rule zdiv_mono1) simp_all
  have z: "a div 146096 = 0" "(a + 1) div 146096 = 0" using a by (simp_all add: div_pos_pos_trivial)
  show ?thesis unfolding year_of_era_def by (rule zdiv_mono1 [OF le [OF q r z]]) simp
qed

lemma year_of_era_mono: "0 \<le> a \<Longrightarrow> a \<le> b \<Longrightarrow> b < 146096 \<Longrightarrow> year_of_era a \<le> year_of_era b"
proof (induction "nat (b - a)" arbitrary: b)
  case (Suc n)
  then have "year_of_era a \<le> year_of_era (b - 1)" by (intro Suc.hyps) auto
  also have "\<dots> \<le> year_of_era (b - 1 + 1)" using Suc by (intro year_of_era_step) auto
  finally show ?case by simp
qed simp

definition year_end :: "int \<Rightarrow> int" where
  "year_end y = (if y = 399 then 146096 else year_start (y + 1) - 1)"

lemma year_table: "list_all (\<lambda>y. year_of_era (year_start y) = y \<and> year_of_era (year_end y) = y
    \<and> year_of_era (min 146095 (year_end y)) = y \<and> year_end y - year_start y = (if leap (y + 1) then 365 else 364)) [0..399]"
  by code_simp

lemma year_table_at:
  assumes "0 \<le> y" and "y < 400"
  shows "year_of_era (year_start y) = y" "year_of_era (year_end y) = y" "year_of_era (min 146095 (year_end y)) = y"
    "year_end y - year_start y = (if leap (y + 1) then 365 else 364)"
  using year_table assms by (auto simp: list_all_iff)

lemma year_exists: "0 \<le> doe \<Longrightarrow> n < 400 \<Longrightarrow> doe \<le> year_end (int n) \<Longrightarrow> \<exists>y. 0 \<le> y \<and> y \<le> int n \<and> year_start y \<le> doe \<and> doe \<le> year_end y"
proof (induction n)
  case 0
  then show ?case by (intro exI [of _ 0]) (simp add: year_start_def)
next
  case (Suc n)
  show ?case
  proof (cases "doe \<le> year_end (int n)")
    case True
    with Suc obtain y where "0 \<le> y \<and> y \<le> int n \<and> year_start y \<le> doe \<and> doe \<le> year_end y" by auto
    then show ?thesis by (intro exI [of _ y]) simp
  next
    case False
    then have "year_start (int (Suc n)) \<le> doe" using Suc.prems(2) by (simp add: year_end_def algebra_simps)
    with Suc.prems show ?thesis by (intro exI [of _ "int (Suc n)"]) simp
  qed
qed

lemma year_bounds:
  assumes "0 \<le> doe" and "doe < 146097"
  shows "0 \<le> year_of_era doe \<and> year_of_era doe < 400 \<and> year_start (year_of_era doe) \<le> doe \<and> doe \<le> year_end (year_of_era doe)"
proof -
  obtain y where y: "0 \<le> y" "y < 400" "year_start y \<le> doe" "doe \<le> year_end y"
    using year_exists [of doe 399] assms by (force simp: year_end_def)
  have "year_of_era doe = y"
  proof (cases "doe = 146096")
    case True
    moreover have "year_end y \<le> 146096"
      using year_table_at(4) [OF y(1,2)] y(1,2) by (auto simp: year_end_def year_start_def)
    ultimately have "year_end y = 146096" using y(4) by simp
    with True year_table_at(2) [OF y(1,2)] show ?thesis by simp
  next
    case False
    have "0 \<le> year_start y" using y(1) by (simp add: year_start_def)
    have "year_of_era (year_start y) \<le> year_of_era doe" using False assms y \<open>0 \<le> year_start y\<close> by (intro year_of_era_mono) auto
    moreover have "year_of_era doe \<le> year_of_era (min 146095 (year_end y))" using False assms y by (intro year_of_era_mono) auto
    ultimately show ?thesis using year_table_at [OF y(1,2)] by simp
  qed
  with y show ?thesis by simp
qed

definition month_index :: "int \<Rightarrow> int" where
  "month_index doy = (5 * doy + 2) div 153"

lemma month_table: "list_all (\<lambda>doy. let mp = month_index doy; d = doy - (153 * mp + 2) div 5 + 1; m = (if mp < 10 then mp + 3 else mp - 9)
    in 1 \<le> m \<and> m \<le> 12 \<and> 1 \<le> d \<and> (m + 9) mod 12 = mp
      \<and> d \<le> (if m = 2 then (if doy = 365 then 29 else 28) else daysIn m 1)) [0..365]"
  by code_simp

lemma month_table_at:
  assumes "0 \<le> doy" and "doy \<le> 365" and "mp = month_index doy" and "d = doy - (153 * mp + 2) div 5 + 1"
    and "m = (if mp < 10 then mp + 3 else mp - 9)"
  shows "1 \<le> m" "m \<le> 12" "1 \<le> d" "(m + 9) mod 12 = mp"
    "d \<le> (if m = 2 then (if doy = 365 then 29 else 28) else daysIn m 1)"
proof -
  have "doy \<in> set [0..365]" using assms(1,2) by simp
  with month_table have "let mp = month_index doy; d = doy - (153 * mp + 2) div 5 + 1; m = (if mp < 10 then mp + 3 else mp - 9)
    in 1 \<le> m \<and> m \<le> 12 \<and> 1 \<le> d \<and> (m + 9) mod 12 = mp
      \<and> d \<le> (if m = 2 then (if doy = 365 then 29 else 28) else daysIn m 1)" by (simp only: list_all_iff)
  then show "1 \<le> m" "m \<le> 12" "1 \<le> d" "(m + 9) mod 12 = mp"
    "d \<le> (if m = 2 then (if doy = 365 then 29 else 28) else daysIn m 1)"
    unfolding Let_def by (simp_all only: flip: assms(3-5))
qed

lemma leap_era: "leap (y + era * 400) = leap y"
proof -
  have "(y + era * 400) mod 400 = y mod 400" by simp
  moreover have "(y + era * 400) mod 100 = y mod 100" using mod_mult_self1 [of y "era * 4" 100] by (simp add: mult.commute)
  moreover have "(y + era * 400) mod 4 = y mod 4" using mod_mult_self1 [of y "era * 100" 4] by (simp add: mult.commute)
  ultimately show ?thesis by (simp add: leap_def)
qed

lemma civil_inverse:
  assumes "civil days = (y, m, d)"
  shows "days_of_civil y m d = days \<and> 1 \<le> m \<and> m \<le> 12 \<and> 1 \<le> d \<and> d \<le> daysIn m y"
proof -
  define era where "era = (days + 719468) div 146097"
  define doe where "doe = (days + 719468) mod 146097"
  define yoe where "yoe = year_of_era doe"
  define doy where "doy = doe - year_start yoe"
  define mp where "mp = month_index doy"
  have "civil days = (yoe + era * 400 + (if (if mp < 10 then mp + 3 else mp - 9) \<le> 2 then 1 else 0),
      if mp < 10 then mp + 3 else mp - 9, doy - (153 * mp + 2) div 5 + 1)"
    unfolding civil_def Let_def mp_def doy_def yoe_def month_index_def year_start_def year_of_era_def era_def doe_def by (rule refl)
  then have c: "d = doy - (153 * mp + 2) div 5 + 1" "m = (if mp < 10 then mp + 3 else mp - 9)"
      "y = yoe + era * 400 + (if m \<le> 2 then 1 else 0)"
    using assms by (simp_all only: prod.inject)
  have yb: "0 \<le> yoe" "yoe < 400" "year_start yoe \<le> doe" "doe \<le> year_end yoe"
    using year_bounds [of doe] by (auto simp: doe_def yoe_def)
  have doy: "0 \<le> doy" "doy \<le> (if leap (yoe + 1) then 365 else 364)"
    using yb(3,4) year_table_at(4) [OF yb(1,2)] by (auto simp: doy_def)
  then have doy2: "doy \<le> 365" by (simp split: if_splits)
  note mt = month_table_at [OF doy(1) doy2 mp_def c(1,2)]
  have y': "(if m \<le> 2 then y - 1 else y) = yoe + era * 400" using c(3) by simp
  have "(yoe + era * 400) mod 400 = yoe" "(yoe + era * 400) div 400 = era" using yb(1,2) by auto
  moreover have "days = era * 146097 + doe - 719468" by (simp add: era_def doe_def)
  ultimately have "days_of_civil y m d = days"
    unfolding days_of_civil_def Let_def y' mt(4) using c(1) by (simp add: doy_def year_start_def)
  moreover have "d \<le> daysIn m y"
  proof (cases "m = 2")
    case True
    then have "leap y = leap (yoe + 1)" using c(3) leap_era [of "yoe + 1" era] by (simp add: algebra_simps)
    with True mt(5) doy(2) show ?thesis by (auto simp: daysIn_def split: if_splits)
  next
    case False
    with mt(5) show ?thesis by (simp add: daysIn_def)
  qed
  ultimately show ?thesis using mt by blast
qed

subsection \<open>Formatted instants parse\<close>

lemma pad_props:
  assumes "n < 10 ^ k" and "0 < k"
  shows "length (pad k n) = k" "list_all is_digit (pad k n)" "undecimal (pad k n) = n"
proof -
  obtain l where k: "k = Suc l" using assms(2) by (cases k) auto
  show "length (pad k n) = k" using length_decimal [of n l] assms(1) k by (simp add: pad_def)
  show "list_all is_digit (pad k n)"
  proof -
    have "is_digit (CHR ''0'')" by (simp add: is_digit_def)
    then show ?thesis using decimal_digits [of _ n] by (auto simp: pad_def list_all_iff)
  qed
  show "undecimal (pad k n) = n" by (simp add: pad_def)
qed

lemma two_digits_pad: "n < 100 \<Longrightarrow> two_digits (pad 2 n @ v) = Some (n, v)"
proof -
  assume "n < 100"
  then have p: "length (pad 2 n) = 2" "list_all is_digit (pad 2 n)" "undecimal (pad 2 n) = n"
    using pad_props [of n 2] by simp_all
  have "\<exists>a b. xs = [a, b]" if "length xs = 2" for xs :: string using that by (cases xs; cases "tl xs") auto
  from this [OF p(1)] obtain a b where "pad 2 n = [a, b]" by blast
  with p(2,3) show ?thesis by (simp add: two_digits_def)
qed

lemma year_digits_pad: "n < 10000 \<Longrightarrow> year_digits (pad 4 n @ v) = Some (n, v)"
  using pad_props [of n 4] by (simp add: year_digits_def)

lemma undecimal_trailing: "undecimal (v @ replicate k (CHR ''0'')) = undecimal v * 10 ^ k"
proof (induction k)
  case (Suc k)
  have "v @ replicate (Suc k) (CHR ''0'') = (v @ replicate k (CHR ''0'')) @ [CHR ''0'']" by (simp add: replicate_append_same)
  then show ?case using Suc by (simp only: undecimal_snoc) (simp add: char_digit_def)
qed simp

lemma strip_zeros: "\<exists>k. v = rev (dropWhile (\<lambda>c. c = CHR ''0'') (rev v)) @ replicate k (CHR ''0'')"
proof -
  have "rev v = takeWhile (\<lambda>c. c = CHR ''0'') (rev v) @ dropWhile (\<lambda>c. c = CHR ''0'') (rev v)" by simp
  moreover have "takeWhile (\<lambda>c. c = CHR ''0'') (rev v) = replicate (length (takeWhile (\<lambda>c. c = CHR ''0'') (rev v))) (CHR ''0'')"
    by (rule replicate_length_same [symmetric]) (auto dest: set_takeWhileD)
  ultimately have "rev (rev v) = rev (dropWhile (\<lambda>c. c = CHR ''0'') (rev v)) @ rev (replicate (length (takeWhile (\<lambda>c. c = CHR ''0'') (rev v))) (CHR ''0''))"
    by (metis rev_append)
  then show ?thesis by auto
qed

lemma parse_fraction_text: "ns < 1000000000 \<Longrightarrow> parse_fraction (fraction ns @ ''Z'') = (ns, ''Z'')"
proof (cases "ns = 0")
  case True
  then show ?thesis by (simp add: fraction_def parse_fraction_def)
next
  case False
  assume ns: "ns < 1000000000"
  have p: "length (pad 9 ns) = 9" "list_all is_digit (pad 9 ns)" "undecimal (pad 9 ns) = ns"
    using pad_props [of ns 9] ns by simp_all
  define ds where "ds = rev (dropWhile (\<lambda>c. c = CHR ''0'') (rev (pad 9 ns)))"
  obtain k where k: "pad 9 ns = ds @ replicate k (CHR ''0'')" using strip_zeros [of "pad 9 ns"] unfolding ds_def by blast
  have len: "length ds + k = 9" using p(1) arg_cong [OF k, of length] by simp
  have val: "undecimal ds * 10 ^ k = ns" using p(3) k undecimal_trailing [of ds k] by simp
  then obtain c cs where ds: "ds = c # cs" using False by (cases ds) (auto simp: undecimal_def)
  have dg: "list_all is_digit ds" using p(2) k by simp
  then have tw: "takeWhile is_digit (ds @ ''Z'') = ds" "dropWhile is_digit (ds @ ''Z'') = ''Z''"
    by (auto simp: takeWhile_append dropWhile_append list_all_iff is_digit_def)
  have "fraction ns = CHR ''.'' # ds" using False by (simp add: fraction_def ds_def)
  then have "parse_fraction (fraction ns @ ''Z'') = (undecimal (take 9 ds) * 10 ^ (9 - length (take 9 ds)), ''Z'')"
    using tw ds dg by (simp add: parse_fraction_def Let_def)
  moreover have "take 9 ds = ds" "9 - length ds = k" using len by simp_all
  ultimately show ?thesis using val by simp
qed

lemma parse_zone_Z: "parse_zone ''Z'' = Some (0, [])"
  by (simp add: parse_zone_def)

lemma char_expect_same: "char_expect c (c # v) = Some v"
  by (simp add: char_expect_def)

lemma hour_digits_pad: "n < 100 \<Longrightarrow> hour_digits (pad 2 n @ v) = Some (n, v)"
  by (simp add: hour_digits_def two_digits_pad)

lemma time_Parse_parts:
  assumes "y < 10000" and "m < 100" and "d < 100" and "h < 100" and "mi < 100" and "s < 100" and "ns < 1000000000"
  shows "time_Parse (pad 4 y @ CHR ''-'' # pad 2 m @ CHR ''-'' # pad 2 d @ CHR ''T'' # pad 2 h @ CHR '':'' # pad 2 mi @ CHR '':'' # pad 2 s @ fraction ns @ ''Z'')
    = (if 1 \<le> m \<and> m \<le> 12 \<and> 1 \<le> d \<and> int d \<le> daysIn (int m) (int y) \<and> h < 24 \<and> mi < 60 \<and> s < 60
       then Some ((days_of_civil (int y) (int m) (int d) * 86400 + int ((h * 60 + mi) * 60 + s)) * 1000000000 + int ns) else None)"
  unfolding time_Parse_def year_digits_pad [OF assms(1)] two_digits_pad [OF assms(2)] two_digits_pad [OF assms(3)] hour_digits_pad [OF assms(4)]
    two_digits_pad [OF assms(5)] two_digits_pad [OF assms(6)] parse_fraction_text [OF assms(7)] char_expect_same Option.bind.simps prod.case parse_zone_Z
  by simp

definition four_digit_year :: "time \<Rightarrow> bool" where
  "four_digit_year t \<longleftrightarrow> (case civil (t div 1000000000 div 86400) of (y, _, _) \<Rightarrow> 0 \<le> y \<and> y < 10000)"

lemma time_Parse_Format:
  assumes "four_digit_year t"
  shows "time_Parse (FormatTimeUTC t) = Some t"
proof -
  obtain y m d where c: "civil (t div 1000000000 div 86400) = (y, m, d)" by (metis prod_cases3)
  have y: "0 \<le> y" "y < 10000" using assms c by (auto simp: four_digit_year_def)
  note ci = civil_inverse [OF c]
  define s where "s = t div 1000000000 mod 86400"
  have s: "0 \<le> s" "s < 86400" by (simp_all add: s_def)
  have d31: "d \<le> 31" using ci by (auto simp: daysIn_def split: if_splits)
  have sc: "0 \<le> s div 3600" "s div 3600 < 24" "0 \<le> s mod 3600 div 60" "s mod 3600 div 60 < 60" "0 \<le> s mod 60" "s mod 60 < 60"
    using s by (auto simp: pos_imp_zdiv_nonneg_iff)
  have fmt: "FormatTimeUTC t = pad 4 (nat y) @ CHR ''-'' # pad 2 (nat m) @ CHR ''-'' # pad 2 (nat d) @ CHR ''T'' # pad 2 (nat (s div 3600)) @ CHR '':''
        # pad 2 (nat (s mod 3600 div 60)) @ CHR '':'' # pad 2 (nat (s mod 60)) @ fraction (nat (t mod 1000000000)) @ ''Z''"
    using c by (simp add: FormatTimeUTC_def Let_def s_def)
  have aux: "(q * 60 + r) * 60 + x = z" if "q * 3600 + w = z" "r * 60 + x = w" for q r x w z :: int using that by (simp add: algebra_simps)
  have "s mod 3600 mod 60 = s mod 60" by (rule mod_mod_cancel) simp
  then have sum: "(s div 3600 * 60 + s mod 3600 div 60) * 60 + s mod 60 = s"
    using aux [OF div_mult_mod_eq [of s 3600] div_mult_mod_eq [of "s mod 3600" 60]] by (simp only:)
  have t: "(t div 1000000000 div 86400 * 86400 + s) * 1000000000 + t mod 1000000000 = t"
    unfolding s_def by (simp only: div_mult_mod_eq)
  have md: "1 \<le> m" "m \<le> 12" "1 \<le> d" "d \<le> daysIn m y" using ci by blast+
  have ge: "int (nat x) = x" if "0 \<le> x" for x using that by simp
  have le: "nat x < k" if "x < int k" "0 < k" for x k using that by (simp add: nat_less_iff)
  have n: "int (nat y) = y" "int (nat m) = m" "int (nat d) = d" "int (nat (s div 3600)) = s div 3600"
      "int (nat (s mod 3600 div 60)) = s mod 3600 div 60" "int (nat (s mod 60)) = s mod 60" "int (nat (t mod 1000000000)) = t mod 1000000000"
    using y(1) md(1,3) sc(1,3,5) by (auto intro!: ge)
  have b: "nat y < 10000" "nat m < 100" "nat d < 100" "nat (s div 3600) < 100" "nat (s mod 3600 div 60) < 100" "nat (s mod 60) < 100"
      "nat (t mod 1000000000) < 1000000000"
    using y(2) md(2) d31 sc(2,4,6) by (auto intro!: le)
  have r: "1 \<le> nat m \<and> nat m \<le> 12 \<and> 1 \<le> nat d \<and> d \<le> daysIn m y \<and> nat (s div 3600) < 24 \<and> nat (s mod 3600 div 60) < 60 \<and> nat (s mod 60) < 60"
    using md sc(2,4,6) by (simp add: nat_le_iff Suc_le_eq le)
  have "time_Parse (FormatTimeUTC t) = Some ((days_of_civil y m d * 86400 + s) * 1000000000 + t mod 1000000000)"
    unfolding fmt time_Parse_parts [OF b] n of_nat_add of_nat_mult of_nat_numeral using r sum by (simp only: simp_thms if_True)
  then show ?thesis using ci t by (simp only:)
qed

end
