(* ===== verification/Rebuild.thy ===== *)
theory Rebuild
  imports Time_Parse Sidecar Meta_Refine
begin

text \<open>
  Rebuilding the database from what lies on the disk (\<^verbatim>\<open>internal/recovery/rebuild.go\<close>): the dictionary
  from the sidecar, the blobs from the segment indexes, packages and files from the ingest journal,
  reference counts and id sequences from these. The state is the data directory, the directory of
  dictionaries and the database.
\<close>

record rebuild_env =
  rb_dir :: disk
  rb_side :: disk
  rb_db :: meta_db

definition on_dir :: "(disk \<Rightarrow> (disk, 'a) result) \<Rightarrow> rebuild_env \<Rightarrow> (rebuild_env, 'a) result" where
  "on_dir f s = (case f (rb_dir s) of (r, d) \<Rightarrow> (r, s\<lparr>rb_dir := d\<rparr>))"

definition on_side :: "(disk \<Rightarrow> (disk, 'a) result) \<Rightarrow> rebuild_env \<Rightarrow> (rebuild_env, 'a) result" where
  "on_side f s = (case f (rb_side s) of (r, d) \<Rightarrow> (r, s\<lparr>rb_side := d\<rparr>))"

text \<open>A statement is sent only when the rebuild is to be applied.\<close>

definition on_db :: "bool \<Rightarrow> (meta_db \<Rightarrow> (meta_db, unit) result) \<Rightarrow> rebuild_env \<Rightarrow> (rebuild_env, unit) result" where
  "on_db app f s = (if app then (case f (rb_db s) of (r, db) \<Rightarrow> (r, s\<lparr>rb_db := db\<rparr>)) else (Inr (), s))"

fun hex_DecodeString :: "string \<Rightarrow> bytes option" where
  "hex_DecodeString [] = Some []"
| "hex_DecodeString [a] = None"
| "hex_DecodeString (a # b # v) = (case (hex_value a, hex_value b, hex_DecodeString v) of
     (Some x, Some y, Some bs) \<Rightarrow> Some (of_nat (16 * x + y) # bs) | _ \<Rightarrow> None)"

subsection \<open>Packages from the journal\<close>

definition restored_package :: "JournalEntry \<Rightarrow> bytes \<Rightarrow> time \<Rightarrow> Package" where
  "restored_package je h t = \<lparr>pk_ID = je_PackageID je, pk_SupplierID = je_SupplierID je, pk_ReceivedAt = t, pk_PackageHash = h,
     PayloadType_of = je_PayloadType je, StorageMode = je_StorageMode je, pk_OriginalFilename = je_OriginalFilename je,
     CanonicalPackageID = je_CanonicalPackageID je, FileCount = je_FileCount je, UnpackError = je_UnpackError je, Files = []\<rparr>"

definition restored_file :: "int \<Rightarrow> FileRef \<Rightarrow> bytes \<Rightarrow> PackageFile" where
  "restored_file pid f h = \<lparr>pf_ID = fr_FileID f, pf_PackageID = pid, BlobHash = h, Role = fr_Role f,
     pf_OriginalFilename = fr_OriginalFilename f, SequenceNumber = fr_SequenceNumber f, pf_Size = 0\<rparr>"

fun restore_files :: "int \<Rightarrow> FileRef list \<Rightarrow> meta_db \<Rightarrow> (meta_db, unit) result" where
  "restore_files pid [] db = (Inr (), db)"
| "restore_files pid (f # fs) db = (case hex_DecodeString (fr_BlobHash f) of
       None \<Rightarrow> (Inl (Err ''invalid hex''), db)
     | Some h \<Rightarrow> tryE (RestorePackageFile (restored_file pid f h) db) (\<lambda>_ db. restore_files pid fs db))"

definition restoreJournalEntry :: "JournalEntry \<Rightarrow> meta_db \<Rightarrow> (meta_db, unit) result" where
  "restoreJournalEntry je db = (case hex_DecodeString (je_PackageHash je) of
       None \<Rightarrow> (Inl (Wrap (''package '' @ itoa (je_PackageID je) @ '' hash: '') (Err ''invalid hex'') []), db)
     | Some h \<Rightarrow> (case time_Parse (je_ReceivedAt je) of
         None \<Rightarrow> (Inl (Wrap (''package '' @ itoa (je_PackageID je) @ '' received_at: '') (Err ''cannot parse'') []), db)
       | Some t \<Rightarrow> tryE (RestorePackage (restored_package je h t) db) (\<lambda>_ db.
           restore_files (je_PackageID je) (case je_Files je of None \<Rightarrow> [] | Some fs \<Rightarrow> fs) db)))"

fun restore_entries :: "bool \<Rightarrow> JournalEntry list \<Rightarrow> rebuild_env \<Rightarrow> (rebuild_env, unit) result" where
  "restore_entries app [] s = (Inr (), s)"
| "restore_entries app (je # jes) s = tryE (on_db app (restoreJournalEntry je) s) (\<lambda>_ s. restore_entries app jes s)"

subsection \<open>Blobs from the segment indexes\<close>

text \<open>\<open>now n\<close> is the clock when the blob with number \<open>n\<close> is written.\<close>

definition indexed_blob :: "int \<Rightarrow> IndexEntry \<Rightarrow> time \<Rightarrow> ContentBlob" where
  "indexed_blob seg e t = \<lparr>ContentHash = ieHash e, BlobSize = uint (ieLogicalSize e), StoredSize = uint (ieStoredSize e),
     cb_SegmentID = seg, cb_Offset = ieOffset e, RefCount = 1, FirstSeenAt = t\<rparr>"

fun upsert_entries :: "bool \<Rightarrow> (nat \<Rightarrow> time) \<Rightarrow> int \<Rightarrow> IndexEntry list \<Rightarrow> nat \<Rightarrow> rebuild_env \<Rightarrow> (rebuild_env, nat) result" where
  "upsert_entries app now seg [] n s = (Inr n, s)"
| "upsert_entries app now seg (e # es) n s =
     tryE (on_db app (UpsertContentBlob (indexed_blob seg e (now n))) s) (\<lambda>_ s. upsert_entries app now seg es (Suc n) s)"

fun restore_indexes :: "bool \<Rightarrow> (nat \<Rightarrow> time) \<Rightarrow> string list \<Rightarrow> nat \<Rightarrow> rebuild_env \<Rightarrow> (rebuild_env, nat) result" where
  "restore_indexes app now [] n s = (Inr n, s)"
| "restore_indexes app now (path # paths) n s = (case sscanf_segment ''.idx'' path of
       None \<Rightarrow> restore_indexes app now paths n s
     | Some seg \<Rightarrow> tryE (on_dir (ReadIndexFile path) s) (\<lambda>es s.
         tryE (upsert_entries app now seg es n s) (\<lambda>n s. restore_indexes app now paths n s)))"

subsection \<open>The rebuild\<close>

definition Rebuild :: "bool \<Rightarrow> string \<Rightarrow> (nat \<Rightarrow> time) \<Rightarrow> rebuild_env \<Rightarrow> (rebuild_env, nat \<times> nat) result" where
  "Rebuild app journal now s =
     (let journal = (if journal = [] then JournalFile else journal) in
      tryE (on_db app TruncateRecoveryTables s) (\<lambda>_ s.
      tryE (on_side LoadCurrent s) (\<lambda>(dictID, bs) s.
      tryE (on_db (bs \<noteq> [] \<and> app) (SaveDictionary bs 0) s) (\<lambda>_ s.
      tryE (on_dir ListIndexFiles s) (\<lambda>paths s.
      tryE (restore_indexes app now paths 0 s) (\<lambda>blobCount s.
      tryE (on_dir (ReadJournal journal) s) (\<lambda>entries s.
      tryE (restore_entries app entries s) (\<lambda>_ s.
      tryE (on_db app RecomputeRefCounts s) (\<lambda>_ s.
      tryE (on_db app ResetIDSequences s) (\<lambda>_ s.
        (Inr (blobCount, length entries), s)))))))))))"

subsection \<open>Hexadecimal round-trips\<close>

lemma hex_DecodeString_Encode: "hex_DecodeString (hex_EncodeToString bs) = Some bs"
proof (induction bs)
  case (Cons b bs)
  have "unat b < 256" using unsigned_less [of b] by simp
  then have "unat b div 16 < 16" by simp
  moreover have "of_nat (16 * (unat b div 16) + unat b mod 16) = b" by simp
  ultimately show ?case using Cons
    by (simp add: hex_EncodeToString_def hex_byte_def hex_value_hex_char del: of_nat_add of_nat_mult mult_div_mod_eq)
qed (simp add: hex_EncodeToString_def)

subsection \<open>Rows of the tables\<close>

definition package_row :: "meta_db \<Rightarrow> int \<Rightarrow> Package option" where
  "package_row db i = find (\<lambda>p. pk_ID p = i) (packages db)"

definition file_row :: "meta_db \<Rightarrow> int \<Rightarrow> PackageFile option" where
  "file_row db i = find (\<lambda>f. pf_ID f = i) (package_files db)"

text \<open>What every statement of the rebuild keeps: keys are unique and references lead to rows.\<close>

definition rows_ok :: "meta_db \<Rightarrow> bool" where
  "rows_ok db \<longleftrightarrow> distinct (map ContentHash (content_blobs db)) \<and> distinct (map pk_ID (packages db))
     \<and> distinct (map pf_ID (package_files db)) \<and> list_all (\<lambda>p. Files p = []) (packages db)
     \<and> list_all (\<lambda>f. pf_Size f = 0 \<and> has_blob (BlobHash f) db \<and> has_package (pf_PackageID f) db) (package_files db)"

lemma find_upsert:
  "find (\<lambda>r. key r = i) (map (\<lambda>r. if key r = key p then p else r) xs) =
     (if i = key p \<and> list_ex (\<lambda>r. key r = i) xs then Some p else find (\<lambda>r. key r = i) xs)"
  by (induction xs) auto

lemma map_key_upsert: "map key (map (\<lambda>r. if key r = key p then p else r) xs) = map key xs"
  by (induction xs) auto

lemma RestorePackage_Inr:
  assumes "RestorePackage p db = (Inr u, db')"
  shows "package_row db' = (package_row db)(pk_ID p \<mapsto> p\<lparr>Files := []\<rparr>) \<and> file_row db' = file_row db
     \<and> content_blobs db' = content_blobs db \<and> (rows_ok db \<longrightarrow> rows_ok db')"
proof -
  let ?q = "p\<lparr>Files := []\<rparr>"
  obtain d where d: "md_take_fault db = (Pass, d)" and u: "(if \<not> package_accepted p d then (Inl violation, d)
     else if has_package (pk_ID p) d then (Inr (), d\<lparr>packages := map (\<lambda>r. if pk_ID r = pk_ID p then ?q else r) (packages d)\<rparr>)
     else (Inr (), d\<lparr>packages := packages d @ [?q]\<rparr>)) = (Inr u, db')"
    using assms unfolding RestorePackage_def by (rule pool_stmt_Inr)
  note t = md_take_fault_tables [OF d]
  show ?thesis
  proof (cases "has_package (pk_ID p) d")
    case True
    then have db': "db' = d\<lparr>packages := map (\<lambda>r. if pk_ID r = pk_ID ?q then ?q else r) (packages d)\<rparr>" using u by (auto split: if_splits)
    have ks: "map pk_ID (packages db') = map pk_ID (packages db)" unfolding db' using map_key_upsert [of pk_ID ?q "packages d"] t by simp
    have hp: "has_package i db' = has_package i db" for i
      using arg_cong [OF ks, of "\<lambda>is. i \<in> set is"] by (simp add: has_package_iff)
    have "rows_ok db \<longrightarrow> rows_ok db'" unfolding rows_ok_def ks hp by (auto simp: db' t list_all_iff has_blob_def)
    then show ?thesis using True
      by (auto simp: package_row_def file_row_def fun_eq_iff db' find_upsert [of pk_ID _ ?q, simplified] t has_package_def)
  next
    case False
    then have db': "db' = d\<lparr>packages := packages d @ [?q]\<rparr>" using u by (auto split: if_splits)
    have n: "find (\<lambda>r. pk_ID r = pk_ID p) (packages d) = None" using False by (auto simp: find_None_iff has_package_def list_ex_iff)
    show ?thesis using False n
      by (auto simp: package_row_def file_row_def fun_eq_iff db' find_snoc t has_package_def rows_ok_def list_all_iff has_blob_def list_ex_iff split: option.splits)
  qed
qed

lemma RestorePackageFile_Inr:
  assumes "RestorePackageFile f db = (Inr u, db')" and "pf_Size f = 0"
  shows "file_row db' = (file_row db)(pf_ID f \<mapsto> f) \<and> package_row db' = package_row db
     \<and> content_blobs db' = content_blobs db \<and> (rows_ok db \<longrightarrow> rows_ok db')"
proof -
  let ?rest = "\<lambda>d. filter (\<lambda>g. pf_ID g \<noteq> pf_ID f) (package_files d)"
  have f0: "f\<lparr>pf_Size := 0\<rparr> = f" using assms(2) by simp
  obtain d where d: "md_take_fault db = (Pass, d)" and u: "(if \<not> file_accepted f (?rest d) d then (Inl violation, d)
     else if list_ex (\<lambda>g. pf_ID g = pf_ID f) (package_files d) then (Inr (), d\<lparr>package_files := map (\<lambda>g. if pf_ID g = pf_ID f then f else g) (package_files d)\<rparr>)
     else (Inr (), d\<lparr>package_files := package_files d @ [f]\<rparr>)) = (Inr u, db')"
    using assms(1) unfolding RestorePackageFile_def Let_def f0 by (rule pool_stmt_Inr)
  note t = md_take_fault_tables [OF d]
  have acc: "has_blob (BlobHash f) d" "has_package (pf_PackageID f) d" using u by (auto simp: file_accepted_def split: if_splits)
  show ?thesis
  proof (cases "list_ex (\<lambda>g. pf_ID g = pf_ID f) (package_files d)")
    case True
    then have db': "db' = d\<lparr>package_files := map (\<lambda>g. if pf_ID g = pf_ID f then f else g) (package_files d)\<rparr>" using u by (auto split: if_splits)
    have ks: "map pf_ID (package_files db') = map pf_ID (package_files db)" unfolding db' using map_key_upsert [of pf_ID f "package_files d"] t by simp
    have "rows_ok db \<longrightarrow> rows_ok db'" unfolding rows_ok_def ks using acc assms(2)
      by (auto simp: db' t has_package_def list_all_iff has_blob_def)
    then show ?thesis using True by (auto simp: package_row_def file_row_def fun_eq_iff db' find_upsert t)
  next
    case False
    then have db': "db' = d\<lparr>package_files := package_files d @ [f]\<rparr>" using u by (auto split: if_splits)
    have n: "find (\<lambda>r. pf_ID r = pf_ID f) (package_files d) = None" using False by (auto simp: find_None_iff list_ex_iff)
    show ?thesis using False n acc assms(2)
      by (auto simp: package_row_def file_row_def fun_eq_iff db' find_snoc t has_package_def rows_ok_def list_all_iff has_blob_def list_ex_iff split: option.splits)
  qed
qed

lemma UpsertContentBlob_Inr:
  assumes "UpsertContentBlob b db = (Inr u, db')"
  shows "package_row db' = package_row db \<and> file_row db' = file_row db \<and> packages db' = packages db \<and> package_files db' = package_files db
     \<and> (rows_ok db \<longrightarrow> rows_ok db')"
proof -
  let ?b = "if StoredSize b = 0 then b\<lparr>StoredSize := BlobSize b\<rparr> else b"
  let ?up = "\<lambda>r. if ContentHash r = ContentHash ?b
    then r\<lparr>BlobSize := BlobSize ?b, StoredSize := StoredSize ?b, cb_SegmentID := cb_SegmentID ?b, cb_Offset := cb_Offset ?b\<rparr> else r"
  obtain d where d: "md_take_fault db = (Pass, d)" and u: "(if \<not> blob_types ?b then (Inl violation, d)
     else if has_blob (ContentHash ?b) d then (Inr (), d\<lparr>content_blobs := map ?up (content_blobs d)\<rparr>)
     else (Inr (), d\<lparr>content_blobs := content_blobs d @ [?b]\<rparr>)) = (Inr u, db')"
    using assms unfolding UpsertContentBlob_def Let_def by (rule pool_stmt_Inr)
  note t = md_take_fault_tables [OF d]
  show ?thesis
  proof (cases "has_blob (ContentHash ?b) d")
    case True
    then have db': "db' = d\<lparr>content_blobs := map ?up (content_blobs d)\<rparr>" using u by (simp only: if_True split: if_splits) auto
    have ks: "map ContentHash (content_blobs db') = map ContentHash (content_blobs db)" by (simp add: db' t)
    have hb: "has_blob h db' = has_blob h db" for h
      using arg_cong [OF ks, of "\<lambda>hs. h \<in> set hs"] by (auto simp: has_blob_def list_ex_iff)
    have "rows_ok db \<longrightarrow> rows_ok db'" unfolding rows_ok_def ks hb by (simp add: db' t has_package_def)
    then show ?thesis by (simp add: package_row_def file_row_def fun_eq_iff db' t)
  next
    case False
    then have db': "db' = d\<lparr>content_blobs := content_blobs d @ [?b]\<rparr>" using u by (simp only: if_False split: if_splits) auto
    have "ContentHash ?b = ContentHash b" by simp
    then have "rows_ok db \<longrightarrow> rows_ok db'" using False unfolding db'
      by (auto simp: rows_ok_def t has_package_def has_blob_def list_ex_iff list_all_iff)
    then show ?thesis by (simp add: package_row_def file_row_def fun_eq_iff db' t)
  qed
qed

text \<open>Where the row of a blob says its content is, and where an entry of an index file says it.\<close>

definition blob_row :: "meta_db \<Rightarrow> bytes \<Rightarrow> (int \<times> int \<times> int \<times> int) option" where
  "blob_row db h = map_option (\<lambda>b. (BlobSize b, StoredSize b, cb_SegmentID b, cb_Offset b)) (find (\<lambda>b. ContentHash b = h) (content_blobs db))"

definition index_row :: "int \<Rightarrow> IndexEntry \<Rightarrow> bytes \<times> int \<times> int \<times> int \<times> int" where
  "index_row seg e = (let n = uint (ieLogicalSize e); m = uint (ieStoredSize e)
     in (ieHash e, n, if m = 0 then n else m, seg, ieOffset e))"

lemma UpsertContentBlob_blob_row:
  assumes "UpsertContentBlob (indexed_blob seg e t) db = (Inr u, db')"
  shows "blob_row db' = (blob_row db)(fst (index_row seg e) \<mapsto> snd (index_row seg e))"
proof -
  let ?i = "indexed_blob seg e t"
  define b where "b = (if StoredSize ?i = 0 then ?i\<lparr>StoredSize := BlobSize ?i\<rparr> else ?i)"
  define up where "up = (\<lambda>r :: ContentBlob. if ContentHash r = ContentHash b
    then r\<lparr>BlobSize := BlobSize b, StoredSize := StoredSize b, cb_SegmentID := cb_SegmentID b, cb_Offset := cb_Offset b\<rparr> else r)"
  obtain d where d: "md_take_fault db = (Pass, d)" and u: "(if \<not> blob_types b then (Inl violation, d)
     else if has_blob (ContentHash b) d then (Inr (), d\<lparr>content_blobs := map up (content_blobs d)\<rparr>)
     else (Inr (), d\<lparr>content_blobs := content_blobs d @ [b]\<rparr>)) = (Inr u, db')"
    using assms unfolding UpsertContentBlob_def Let_def b_def [symmetric] up_def [symmetric] by (rule pool_stmt_Inr)
  have t: "content_blobs d = content_blobs db" using md_take_fault_tables [OF d] by simp
  have e: "ContentHash b = fst (index_row seg e)" "(BlobSize b, StoredSize b, cb_SegmentID b, cb_Offset b) = snd (index_row seg e)"
    by (simp_all add: b_def indexed_blob_def index_row_def Let_def)
  have other: "find (\<lambda>b. ContentHash b = h) (map up bs) = find (\<lambda>b. ContentHash b = h) bs" if "h \<noteq> ContentHash b" for h bs
    using that by (induction bs) (auto simp: up_def)
  have own: "list_ex (\<lambda>r. ContentHash r = ContentHash b) bs \<Longrightarrow>
      map_option (\<lambda>b. (BlobSize b, StoredSize b, cb_SegmentID b, cb_Offset b)) (find (\<lambda>r. ContentHash r = ContentHash b) (map up bs))
        = Some (snd (index_row seg e))" for bs
    by (induction bs) (auto simp: up_def e(2))
  show ?thesis
  proof (cases "has_blob (ContentHash b) d")
    case True
    then have db': "content_blobs db' = map up (content_blobs db)" using u t by (auto split: if_splits)
    have "list_ex (\<lambda>r. ContentHash r = ContentHash b) (content_blobs db)" using True by (simp add: has_blob_def t)
    from own [OF this] other show ?thesis by (auto simp: blob_row_def fun_eq_iff db' e(1))
  next
    case False
    then have db': "content_blobs db' = content_blobs db @ [b]" using u t by (auto split: if_splits)
    have "find (\<lambda>r. ContentHash r = ContentHash b) (content_blobs db) = None" using False by (auto simp: find_None_iff has_blob_def t list_ex_iff)
    then show ?thesis by (auto simp: blob_row_def fun_eq_iff db' find_snoc e split: option.splits)
  qed
qed

text \<open>What a part of the rebuild does not touch.\<close>

lemma pool_stmt_keeps_part:
  assumes "\<And>d. part (snd (f d)) = part d" and "\<And>d fs. part (d\<lparr>md_faults := fs\<rparr>) = part d"
  shows "part (snd (pool_stmt f db)) = part db"
  using assms by (auto simp: pool_stmt_def md_take_fault_def split: prod.splits fault.splits nat.splits)

lemma restore_keeps_blobs:
  "content_blobs (snd (RestorePackage p db)) = content_blobs db" "dictionaries (snd (RestorePackage p db)) = dictionaries db"
  "content_blobs (snd (RestorePackageFile f db)) = content_blobs db" "dictionaries (snd (RestorePackageFile f db)) = dictionaries db"
  unfolding RestorePackage_def RestorePackageFile_def by (rule pool_stmt_keeps_part; simp add: Let_def)+

lemma upsert_keeps_dictionaries: "dictionaries (snd (UpsertContentBlob b db)) = dictionaries db"
  unfolding UpsertContentBlob_def by (rule pool_stmt_keeps_part; simp add: Let_def)

lemma reset_keeps_dictionaries:
  "dictionaries (snd (RecomputeRefCounts db)) = dictionaries db" "dictionaries (snd (ResetIDSequences db)) = dictionaries db"
proof -
  show "dictionaries (snd (RecomputeRefCounts db)) = dictionaries db"
    unfolding RecomputeRefCounts_def by (rule pool_stmt_keeps_part; simp)
  show "dictionaries (snd (ResetIDSequences db)) = dictionaries db"
    unfolding ResetIDSequences_def
    by (rule tryE_inv [where P = "\<lambda>d. dictionaries d = dictionaries db"]) (subst pool_stmt_keeps_part; simp)+
qed

subsection \<open>The loops\<close>

lemma map_add_upsert: "m(k \<mapsto> v) ++ map_of (rev xs) = m ++ map_of (rev ((k, v) # xs))"
  by (simp add: map_add_def fun_eq_iff split: option.split)

lemma restore_files_Inr:
  assumes "restore_files pid (map file_ref fs) db = (Inr u, db')"
  shows "file_row db' = file_row db ++ map_of (rev (map (\<lambda>f. (pf_ID f, f\<lparr>pf_PackageID := pid, pf_Size := 0\<rparr>)) fs))
     \<and> package_row db' = package_row db \<and> (rows_ok db \<longrightarrow> rows_ok db')"
  using assms
proof (induction fs arbitrary: db)
  case (Cons f fs)
  let ?f = "f\<lparr>pf_PackageID := pid, pf_Size := 0\<rparr>"
  have "restored_file pid (file_ref f) (BlobHash f) = ?f" "hex_DecodeString (fr_BlobHash (file_ref f)) = Some (BlobHash f)"
    by (simp_all add: restored_file_def file_ref_def hex_DecodeString_Encode)
  then obtain v d where d: "RestorePackageFile ?f db = (Inr v, d)" and r: "restore_files pid (map file_ref fs) d = (Inr u, db')"
    using Cons.prems by (auto simp: tryE_Inr_iff)
  note a = RestorePackageFile_Inr [OF d] and b = Cons.IH [OF r]
  have "file_row db' = file_row d ++ map_of (rev (map (\<lambda>f. (pf_ID f, f\<lparr>pf_PackageID := pid, pf_Size := 0\<rparr>)) fs))" using b by blast
  also have "file_row d = (file_row db)(pf_ID f \<mapsto> ?f)" using a by simp
  finally show ?case using a b by (simp only: list.map map_add_upsert simp_thms) simp
qed simp

definition journalled_files :: "Package \<Rightarrow> (int \<times> PackageFile) list" where
  "journalled_files p = map (\<lambda>f. (pf_ID f, f\<lparr>pf_PackageID := pk_ID p, pf_Size := 0\<rparr>)) (Files p)"

lemma restoreJournalEntry_Inr:
  assumes "restoreJournalEntry (stored_entry (EntryFromPackage p)) db = (Inr u, db')" and "four_digit_year (pk_ReceivedAt p)"
  shows "package_row db' = (package_row db)(pk_ID p \<mapsto> p\<lparr>Files := []\<rparr>)
     \<and> file_row db' = file_row db ++ map_of (rev (journalled_files p)) \<and> (rows_ok db \<longrightarrow> rows_ok db')"
proof -
  let ?e = "stored_entry (EntryFromPackage p)"
  have e: "je_PackageHash ?e = hex_EncodeToString (pk_PackageHash p)" "je_ReceivedAt ?e = FormatTimeUTC (pk_ReceivedAt p)"
      "je_PackageID ?e = pk_ID p" "(case je_Files ?e of None \<Rightarrow> [] | Some fs \<Rightarrow> fs) = map file_ref (Files p)"
      "restored_package ?e (pk_PackageHash p) (pk_ReceivedAt p) = p\<lparr>Files := []\<rparr>"
    by (simp_all add: stored_entry_def EntryFromPackage_def restored_package_def)
  obtain v d where d: "RestorePackage (p\<lparr>Files := []\<rparr>) db = (Inr v, d)" and r: "restore_files (pk_ID p) (map file_ref (Files p)) d = (Inr u, db')"
    using assms(1) unfolding restoreJournalEntry_def e hex_DecodeString_Encode time_Parse_Format [OF assms(2)] option.case tryE_Inr_iff e(5) by blast
  from RestorePackage_Inr [OF d] restore_files_Inr [OF r] show ?thesis by (simp add: journalled_files_def)
qed

lemma restore_files_keeps:
  "content_blobs (snd (restore_files pid fs db)) = content_blobs db \<and> dictionaries (snd (restore_files pid fs db)) = dictionaries db"
proof (induction fs arbitrary: db)
  case (Cons f fs)
  show ?case
  proof (cases "hex_DecodeString (fr_BlobHash f)")
    case (Some h)
    let ?P = "\<lambda>d. content_blobs d = content_blobs db \<and> dictionaries d = dictionaries db"
    have "?P (snd (tryE (RestorePackageFile (restored_file pid f h) db) (\<lambda>_ db. restore_files pid fs db)))"
      by (rule tryE_inv [where P = ?P]) (simp_all add: restore_keeps_blobs Cons)
    with Some show ?thesis by simp
  qed simp
qed simp

lemma restoreJournalEntry_keeps:
  "content_blobs (snd (restoreJournalEntry je db)) = content_blobs db \<and> dictionaries (snd (restoreJournalEntry je db)) = dictionaries db"
proof -
  let ?P = "\<lambda>d. content_blobs d = content_blobs db \<and> dictionaries d = dictionaries db"
  have "?P (snd (tryE (RestorePackage p db) (\<lambda>_ db. restore_files pid fs db)))" for p pid fs
    by (rule tryE_inv [where P = ?P]) (simp_all add: restore_keeps_blobs restore_files_keeps)
  then show ?thesis by (simp add: restoreJournalEntry_def split: option.split)
qed

lemma restore_entries_keeps:
  "content_blobs (rb_db (snd (restore_entries app es s))) = content_blobs (rb_db s)
   \<and> dictionaries (rb_db (snd (restore_entries app es s))) = dictionaries (rb_db s)"
proof (induction es arbitrary: s)
  case (Cons e es)
  let ?P = "\<lambda>t. content_blobs (rb_db t) = content_blobs (rb_db s) \<and> dictionaries (rb_db t) = dictionaries (rb_db s)"
  have "?P (snd (on_db app (restoreJournalEntry e) s))"
    using restoreJournalEntry_keeps [of e "rb_db s"] by (auto simp: on_db_def split: prod.split)
  then show ?case unfolding restore_entries.simps by (rule tryE_inv [where P = ?P]) (simp add: Cons)
qed simp

lemma on_db_Inr: "on_db True f s = (Inr u, s') \<Longrightarrow> \<exists>db. f (rb_db s) = (Inr u, db) \<and> s' = s\<lparr>rb_db := db\<rparr>"
  by (auto simp: on_db_def split: prod.splits)

lemma restore_entries_Inr:
  assumes "restore_entries True (map stored_entry (map EntryFromPackage ps)) s = (Inr u, s')" and "list_all (\<lambda>p. four_digit_year (pk_ReceivedAt p)) ps"
  shows "package_row (rb_db s') = package_row (rb_db s) ++ map_of (rev (map (\<lambda>p. (pk_ID p, p\<lparr>Files := []\<rparr>)) ps))
     \<and> file_row (rb_db s') = file_row (rb_db s) ++ map_of (rev (concat (map journalled_files ps))) \<and> (rows_ok (rb_db s) \<longrightarrow> rows_ok (rb_db s'))"
  using assms
proof (induction ps arbitrary: s)
  case (Cons p ps)
  from Cons.prems(1) obtain v s1 where a: "on_db True (restoreJournalEntry (stored_entry (EntryFromPackage p))) s = (Inr v, s1)"
    and r: "restore_entries True (map stored_entry (map EntryFromPackage ps)) s1 = (Inr u, s')" by (auto simp: tryE_Inr_iff)
  obtain db where db: "restoreJournalEntry (stored_entry (EntryFromPackage p)) (rb_db s) = (Inr v, db)" "rb_db s1 = db"
    using on_db_Inr [OF a] by auto
  note x = restoreJournalEntry_Inr [OF db(1)] and y = Cons.IH [OF r]
  have fy: "four_digit_year (pk_ReceivedAt p)" "list_all (\<lambda>p. four_digit_year (pk_ReceivedAt p)) ps" using Cons.prems(2) by auto
  from y [OF fy(2)] x [OF fy(1)] db(2) show ?case
    by (simp only: list.map map_add_upsert concat.simps rev_append map_of_append map_add_assoc simp_thms) blast
qed simp

lemma upsert_entries_Inr:
  "upsert_entries True now seg es n s = (Inr m, s') \<Longrightarrow> package_row (rb_db s') = package_row (rb_db s) \<and> file_row (rb_db s') = file_row (rb_db s)
     \<and> (rows_ok (rb_db s) \<longrightarrow> rows_ok (rb_db s')) \<and> rb_dir s' = rb_dir s"
proof (induction es arbitrary: n s)
  case (Cons e es)
  from Cons.prems obtain v s1 where a: "on_db True (UpsertContentBlob (indexed_blob seg e (now n))) s = (Inr v, s1)"
    and r: "upsert_entries True now seg es (Suc n) s1 = (Inr m, s')" by (auto simp: tryE_Inr_iff)
  obtain db where "UpsertContentBlob (indexed_blob seg e (now n)) (rb_db s) = (Inr v, db)" "s1 = s\<lparr>rb_db := db\<rparr>"
    using on_db_Inr [OF a] by auto
  with UpsertContentBlob_Inr Cons.IH [OF r] show ?case by fastforce
qed simp

lemma upsert_entries_rows:
  "upsert_entries True now seg es n s = (Inr m, s') \<Longrightarrow> blob_row (rb_db s') = blob_row (rb_db s) ++ map_of (rev (map (index_row seg) es))
     \<and> dictionaries (rb_db s') = dictionaries (rb_db s) \<and> m = n + length es"
proof (induction es arbitrary: n s)
  case (Cons e es)
  from Cons.prems obtain v s1 where a: "on_db True (UpsertContentBlob (indexed_blob seg e (now n))) s = (Inr v, s1)"
    and r: "upsert_entries True now seg es (Suc n) s1 = (Inr m, s')" by (auto simp: tryE_Inr_iff)
  obtain db where db: "UpsertContentBlob (indexed_blob seg e (now n)) (rb_db s) = (Inr v, db)" "s1 = s\<lparr>rb_db := db\<rparr>"
    using on_db_Inr [OF a] by auto
  have "dictionaries db = dictionaries (rb_db s)" using upsert_keeps_dictionaries [of _ "rb_db s"] db(1) by (metis snd_conv)
  moreover have "blob_row (rb_db s') = (blob_row (rb_db s))(fst (index_row seg e) \<mapsto> snd (index_row seg e)) ++ map_of (rev (map (index_row seg) es))"
  proof -
    have "rb_db s1 = db" using db(2) by simp
    then show ?thesis using UpsertContentBlob_blob_row [OF db(1)] Cons.IH [OF r] by (simp only:)
  qed
  ultimately show ?case using Cons.IH [OF r] db(2) by (simp only: map_add_upsert list.map prod.collapse) simp
qed simp

text \<open>The rows that the index file \<open>path\<close> stands for, and those of a whole directory in the order it is listed.\<close>

definition path_rows :: "(string \<Rightarrow> dfile option) \<Rightarrow> string \<Rightarrow> (bytes \<times> int \<times> int \<times> int \<times> int) list" where
  "path_rows D path = (case sscanf_segment ''.idx'' path of None \<Rightarrow> [] | Some seg \<Rightarrow>
     (case D path of None \<Rightarrow> [] | Some f \<Rightarrow> (case parseIndex path (fdata f) of Inl _ \<Rightarrow> [] | Inr es \<Rightarrow> map (index_row seg) es)))"

definition index_rows :: "disk \<Rightarrow> (bytes \<times> int \<times> int \<times> int \<times> int) list" where
  "index_rows d = concat (map (path_rows (dlookup d)) (map fst (dfiles d)))"

lemma ReadIndexFile_rows:
  assumes "ReadIndexFile path d = (Inr es, d')" and "sscanf_segment ''.idx'' path = Some seg"
  shows "path_rows (dlookup d) path = map (index_row seg) es"
proof -
  obtain r d1 where r: "os_ReadFile path d = (r, d1)" by fastforce
  show ?thesis
  proof (cases "dlookup d path")
    case None
    with r assms show ?thesis
      by (auto simp: ReadIndexFile_def path_rows_def os_ReadFile_def dlookup_next_io enoent_def split: prod.splits option.splits)
  next
    case (Some f)
    have "errors_Is e enoent = False" if "r = Inl e" for e
      using r Some that by (auto simp: os_ReadFile_def enoent_def dlookup_next_io split: prod.splits option.splits)
    with r assms Some os_ReadFile_Inr [OF _ Some] show ?thesis
      by (cases r) (auto simp: ReadIndexFile_def path_rows_def)
  qed
qed

lemma ReadIndexFile_frame: "ReadIndexFile path d = (r, d') \<Longrightarrow> dlookup d' = dlookup d"
  using os_ReadFile_frame [of path d] by (auto simp: ReadIndexFile_def split: prod.splits sum.splits if_splits)

lemma restore_indexes_Inr:
  "restore_indexes True now paths n s = (Inr m, s') \<Longrightarrow> package_row (rb_db s') = package_row (rb_db s) \<and> file_row (rb_db s') = file_row (rb_db s)
     \<and> (rows_ok (rb_db s) \<longrightarrow> rows_ok (rb_db s')) \<and> dlookup (rb_dir s') = dlookup (rb_dir s)"
proof (induction paths arbitrary: n s)
  case (Cons path paths)
  show ?case
  proof (cases "sscanf_segment ''.idx'' path")
    case None
    with Cons show ?thesis by simp
  next
    case (Some seg)
    then obtain es s1 k s2 where a: "on_dir (ReadIndexFile path) s = (Inr es, s1)" and b: "upsert_entries True now seg es n s1 = (Inr k, s2)"
      and c: "restore_indexes True now paths k s2 = (Inr m, s')" using Cons.prems by (auto simp: tryE_Inr_iff)
    have "rb_db s1 = rb_db s" "dlookup (rb_dir s1) = dlookup (rb_dir s)"
      using a ReadIndexFile_frame by (auto simp: on_dir_def split: prod.splits)
    with upsert_entries_Inr [OF b] Cons.IH [OF c] show ?thesis by simp
  qed
qed simp

lemma restore_indexes_rows:
  "restore_indexes True now paths n s = (Inr m, s') \<Longrightarrow>
     blob_row (rb_db s') = blob_row (rb_db s) ++ map_of (rev (concat (map (path_rows (dlookup (rb_dir s))) paths)))
     \<and> dictionaries (rb_db s') = dictionaries (rb_db s) \<and> m = n + length (concat (map (path_rows (dlookup (rb_dir s))) paths))"
proof (induction paths arbitrary: n s)
  case (Cons path paths)
  show ?case
  proof (cases "sscanf_segment ''.idx'' path")
    case None
    with Cons show ?thesis by (simp add: path_rows_def)
  next
    case (Some seg)
    then obtain es s1 k s2 where a: "on_dir (ReadIndexFile path) s = (Inr es, s1)" and b: "upsert_entries True now seg es n s1 = (Inr k, s2)"
      and c: "restore_indexes True now paths k s2 = (Inr m, s')" using Cons.prems by (auto simp: tryE_Inr_iff)
    obtain d1 where rd: "ReadIndexFile path (rb_dir s) = (Inr es, d1)" "s1 = s\<lparr>rb_dir := d1\<rparr>"
      using a by (auto simp: on_dir_def split: prod.splits)
    have "dlookup (rb_dir s2) = dlookup (rb_dir s)" using upsert_entries_Inr [OF b] ReadIndexFile_frame [OF rd(1)] rd(2) by simp
    then show ?thesis using upsert_entries_rows [OF b] Cons.IH [OF c] ReadIndexFile_rows [OF rd(1) Some] rd(2) by simp
  qed
qed simp

lemma ListIndexFiles_rows:
  "ListIndexFiles d = (Inr paths, d') \<Longrightarrow> concat (map (path_rows D) paths) = concat (map (path_rows D) (map fst (dfiles d)))"
proof -
  assume "ListIndexFiles d = (Inr paths, d')"
  then have "paths = filter (\<lambda>n. sscanf_segment ''.idx'' n \<noteq> None) (map fst (dfiles d))"
    by (auto simp: ListIndexFiles_def os_ReadDir_def tryE_Inr_iff dfiles_next_io split: prod.splits option.splits)
  moreover have "concat (map (path_rows D) (filter (\<lambda>n. sscanf_segment ''.idx'' n \<noteq> None) ns)) = concat (map (path_rows D) ns)" for ns
    by (induction ns) (auto simp: path_rows_def)
  ultimately show ?thesis by simp
qed

subsection \<open>What a rebuild restores\<close>

lemma ReadJournal_Inr:
  assumes "ReadJournal path d = (Inr es, d')" and "dlookup d path = Some f"
  shows "read_lines (split_lines (fdata f)) [] = Inr es"
proof -
  obtain r d1 where r: "os_ReadFile path d = (r, d1)" by fastforce
  have "errors_Is e enoent = False" if "r = Inl e" for e
    using r assms(2) that by (auto simp: os_ReadFile_def enoent_def dlookup_next_io split: prod.splits option.splits)
  with r assms os_ReadFile_Inr [OF _ assms(2)] show ?thesis by (cases r) (auto simp: ReadJournal_def)
qed

lemma RecomputeRefCounts_Inr:
  assumes "RecomputeRefCounts db = (Inr u, db')"
  shows "packages db' = packages db \<and> package_files db' = package_files db \<and> map ContentHash (content_blobs db') = map ContentHash (content_blobs db)
     \<and> list_all (\<lambda>b. RefCount b = ref_count_of (package_files db') (ContentHash b)) (content_blobs db')"
  using assms unfolding RecomputeRefCounts_def
  by (elim pool_stmt_Inr) (auto simp: md_take_fault_tables list_all_iff)

lemma RecomputeRefCounts_blob_row: "RecomputeRefCounts db = (Inr u, db') \<Longrightarrow> blob_row db' = blob_row db"
proof -
  have "map_option (\<lambda>b. (BlobSize b, StoredSize b, cb_SegmentID b, cb_Offset b)) (find (\<lambda>b. ContentHash b = h) (map (\<lambda>b. b\<lparr>RefCount := g b\<rparr>) bs))
    = map_option (\<lambda>b. (BlobSize b, StoredSize b, cb_SegmentID b, cb_Offset b)) (find (\<lambda>b. ContentHash b = h) bs)" for h g and bs :: "ContentBlob list"
    by (induction bs) auto
  then show "RecomputeRefCounts db = (Inr u, db') \<Longrightarrow> blob_row db' = blob_row db" unfolding RecomputeRefCounts_def
    by (elim pool_stmt_Inr) (auto simp: md_take_fault_tables blob_row_def fun_eq_iff)
qed

lemma max_or_one_ge: "i \<in> set is \<Longrightarrow> i \<le> max_or_one is"
proof (cases "is")
  case (Cons j js)
  assume "i \<in> set is"
  moreover have "x \<le> fold max js x \<and> (\<forall>i\<in>set js. i \<le> fold max js x)" for x
  proof (induction js arbitrary: x)
    case (Cons a js)
    have m: "max a x \<le> fold max js (max a x)" using Cons.IH by blast
    then show ?case using Cons.IH [of "max a x"] order_trans [OF max.cobounded1 m] order_trans [OF max.cobounded2 m] by simp
  qed simp
  ultimately show ?thesis using Cons by (auto simp: max_or_one_def)
qed (auto simp: max_or_one_def)

lemma ResetIDSequences_Inr:
  assumes "ResetIDSequences db = (Inr u, db')"
  shows "packages db' = packages db \<and> package_files db' = package_files db \<and> content_blobs db' = content_blobs db
     \<and> seq_packages db' = max_or_one (map pk_ID (packages db)) \<and> seq_files db' = max_or_one (map pf_ID (package_files db))"
  using assms unfolding ResetIDSequences_def tryE_Inr_iff
  by (elim exE conjE pool_stmt_Inr) (simp add: md_take_fault_tables, auto simp: md_take_fault_tables)

lemma md_wf_reset:
  assumes "rows_ok db" and "packages db' = packages db" and "package_files db' = package_files db"
    and "map ContentHash (content_blobs db') = map ContentHash (content_blobs db)"
    and "seq_packages db' = max_or_one (map pk_ID (packages db))" and "seq_files db' = max_or_one (map pf_ID (package_files db))"
  shows "md_wf db'"
proof -
  have hb: "has_blob h db' = has_blob h db" for h
    using arg_cong [OF assms(4), of "\<lambda>hs. h \<in> set hs"] by (auto simp: has_blob_def list_ex_iff)
  have "has_package i db' = has_package i db" for i by (simp add: has_package_def assms(2))
  then show ?thesis using assms max_or_one_ge [of _ "map pk_ID (packages db)"] max_or_one_ge [of _ "map pf_ID (package_files db)"]
    by (auto simp: md_wf_def rows_ok_def hb list_all_iff)
qed

lemma rebuild_start:
  assumes "on_db True TruncateRecoveryTables s = (Inr u, s1)" and "on_side LoadCurrent s1 = (Inr x, s2)"
    and "on_db app (SaveDictionary bs 0) s2 = (Inr v, s3)" and "on_dir ListIndexFiles s3 = (Inr paths, s4)"
  shows "packages (rb_db s4) = [] \<and> package_files (rb_db s4) = [] \<and> content_blobs (rb_db s4) = [] \<and> dfiles (rb_dir s4) = dfiles (rb_dir s)
     \<and> dictionaries (rb_db s4) = dictionaries (rb_db s) @ (if app then [(bs, 0)] else []) \<and> fst (LoadCurrent (rb_side s)) = Inr x
     \<and> fst (ListIndexFiles (rb_dir s)) = Inr paths"
proof -
  have "packages (rb_db s1) = [] \<and> package_files (rb_db s1) = [] \<and> content_blobs (rb_db s1) = []" "rb_dir s1 = rb_dir s"
    "dictionaries (rb_db s1) = dictionaries (rb_db s)" "rb_side s1 = rb_side s"
    using on_db_Inr [OF assms(1)] by (auto simp: TruncateRecoveryTables_def md_take_fault_tables elim!: pool_stmt_Inr)
  moreover have "rb_db s2 = rb_db s1" "rb_dir s2 = rb_dir s1" "fst (LoadCurrent (rb_side s1)) = Inr x" using assms(2) by (auto simp: on_side_def split: prod.splits)
  moreover have "packages (rb_db s3) = packages (rb_db s2) \<and> package_files (rb_db s3) = package_files (rb_db s2)
      \<and> content_blobs (rb_db s3) = content_blobs (rb_db s2)" "rb_dir s3 = rb_dir s2"
    "dictionaries (rb_db s3) = dictionaries (rb_db s2) @ (if app then [(bs, 0)] else [])"
    using assms(3) by (auto simp: on_db_def SaveDictionary_def md_take_fault_tables elim!: pool_stmt_Inr split: if_splits prod.splits)
  moreover have "rb_db s4 = rb_db s3" "dfiles (rb_dir s4) = dfiles (rb_dir s3)" "fst (ListIndexFiles (rb_dir s3)) = Inr paths"
    using assms(4) os_ReadDir_frame [of "rb_dir s3"] by (auto simp: on_dir_def ListIndexFiles_def tryE_Inr_iff split: prod.splits)
  ultimately show ?thesis by simp
qed

text \<open>
  C34 (functional). What a rebuild that is applied and succeeds restores, from whatever tables it starts,
  when every line of the journal is the entry of a package, shorter than 4 MiB and with a year of
  four digits. Packages and files are exactly those of the journal: for each package id the
  package journalled last, for each file id the file journalled last. Blobs are exactly those of
  the index files: for each hash the segment, offset and sizes of the entry read last. The
  dictionary that the sidecar holds, if any, is added to the stored ones. The tables are
  well-formed, new ids come after all restored ones, every blob's count is the number of files
  that refer to it, and the answer counts index entries and journal entries.
\<close>

theorem rebuild_restores_journal:
  assumes "Rebuild True [] now s = (Inr n, s')" and "dlookup (rb_dir s) JournalFile = Some f"
    and "fdata f = journal_text (map EntryFromPackage ps)" and "list_all readable (map EntryFromPackage ps)"
    and "list_all (\<lambda>p. four_digit_year (pk_ReceivedAt p)) ps"
  shows "package_row (rb_db s') = map_of (rev (map (\<lambda>p. (pk_ID p, p\<lparr>Files := []\<rparr>)) ps))
    \<and> file_row (rb_db s') = map_of (rev (concat (map journalled_files ps)))
    \<and> blob_row (rb_db s') = map_of (rev (index_rows (rb_dir s)))
    \<and> (\<exists>i bs. fst (LoadCurrent (rb_side s)) = Inr (i, bs)
         \<and> dictionaries (rb_db s') = dictionaries (rb_db s) @ (if bs = [] then [] else [(bs, 0)]))
    \<and> md_wf (rb_db s')
    \<and> list_all (\<lambda>b. RefCount b = ref_count_of (package_files (rb_db s')) (ContentHash b)) (content_blobs (rb_db s'))
    \<and> n = (length (index_rows (rb_dir s)), length ps)"
proof -
  from assms(1) obtain s1 i bs s2 s3 paths s4 m s5 es s6 s7 s8 where
    st: "on_db True TruncateRecoveryTables s = (Inr (), s1)" "on_side LoadCurrent s1 = (Inr (i, bs), s2)"
      "on_db (bs \<noteq> [] \<and> True) (SaveDictionary bs 0) s2 = (Inr (), s3)" "on_dir ListIndexFiles s3 = (Inr paths, s4)"
    and ix: "restore_indexes True now paths 0 s4 = (Inr m, s5)" and rj: "on_dir (ReadJournal JournalFile) s5 = (Inr es, s6)"
    and re: "restore_entries True es s6 = (Inr (), s7)" and rc: "on_db True RecomputeRefCounts s7 = (Inr (), s8)"
    and rs: "on_db True ResetIDSequences s8 = (Inr (), s')" and n: "n = (m, length es)"
    by (auto simp: Rebuild_def Let_def tryE_Inr_iff)
  note start = rebuild_start [OF st] and ixd = restore_indexes_Inr [OF ix] and ixr = restore_indexes_rows [OF ix]
  have r4: "rows_ok (rb_db s4)" "package_row (rb_db s4) = Map.empty" "file_row (rb_db s4) = Map.empty"
    using start by (auto simp: rows_ok_def package_row_def file_row_def)
  have s6: "rb_db s6 = rb_db s5" using rj by (auto simp: on_dir_def split: prod.splits)
  have "fst (ReadJournal JournalFile (rb_dir s5)) = Inr es" using rj by (auto simp: on_dir_def split: prod.splits)
  then have "read_lines (split_lines (fdata f)) [] = Inr es"
    using ReadJournal_Inr [of JournalFile "rb_dir s5" es] ixd start assms(2) by (cases "ReadJournal JournalFile (rb_dir s5)") auto
  then have es: "es = map stored_entry (map EntryFromPackage ps)" using read_journal_text [OF assms(4)] assms(3) by simp
  note rest = restore_entries_Inr [OF re [unfolded es] assms(5)]
  obtain db8 where c8: "RecomputeRefCounts (rb_db s7) = (Inr (), db8)" "rb_db s8 = db8" using on_db_Inr [OF rc] by auto
  obtain db9 where c9: "ResetIDSequences (rb_db s8) = (Inr (), db9)" "rb_db s' = db9" using on_db_Inr [OF rs] by auto
  note a = RecomputeRefCounts_Inr [OF c8(1)] and b = ResetIDSequences_Inr [OF c9(1)]
  have tab: "packages (rb_db s') = packages (rb_db s7)" "package_files (rb_db s') = package_files (rb_db s7)" using a b c8 c9 by auto
  have "package_row (rb_db s') = map_of (rev (map (\<lambda>p. (pk_ID p, p\<lparr>Files := []\<rparr>)) ps))"
    using rest ixd r4 s6 tab by (simp add: package_row_def fun_eq_iff)
  moreover have "file_row (rb_db s') = map_of (rev (concat (map journalled_files ps)))"
    using rest ixd r4 s6 tab by (simp add: file_row_def fun_eq_iff)
  moreover have "md_wf (rb_db s')" using rest ixd r4 s6 a b c8 c9 by (intro md_wf_reset [of "rb_db s7"]) auto
  moreover have "list_all (\<lambda>b. RefCount b = ref_count_of (package_files (rb_db s')) (ContentHash b)) (content_blobs (rb_db s'))"
  proof -
    have e: "package_files (rb_db s') = package_files db8" "content_blobs (rb_db s') = content_blobs db8" using b c8 c9 by auto
    show ?thesis unfolding e using a by blast
  qed
  moreover have "blob_row (rb_db s') = map_of (rev (index_rows (rb_dir s))) \<and> n = (length (index_rows (rb_dir s)), length ps)"
  proof -
    have "concat (map (path_rows (dlookup (rb_dir s4))) paths) = index_rows (rb_dir s)"
      using start ListIndexFiles_rows [of "rb_dir s" paths] by (cases "ListIndexFiles (rb_dir s)") (simp add: index_rows_def)
    moreover have "blob_row (rb_db s4) = Map.empty" using start by (simp add: blob_row_def fun_eq_iff)
    moreover have "blob_row (rb_db s') = blob_row (rb_db s5)"
      using RecomputeRefCounts_blob_row [OF c8(1)] b c8 c9 restore_entries_keeps [of True es s6] re s6 by (simp add: blob_row_def fun_eq_iff)
    ultimately show ?thesis using ixr n es by simp
  qed
  moreover have "dictionaries (rb_db s') = dictionaries (rb_db s) @ (if bs = [] then [] else [(bs, 0)])"
    using reset_keeps_dictionaries(1) [of "rb_db s7"] reset_keeps_dictionaries(2) [of "rb_db s8"] c8 c9
      restore_entries_keeps [of True es s6] re s6 ixr start by auto
  ultimately show ?thesis using start by blast
qed

definition sample_hash :: bytes where
  "sample_hash = replicate 32 7"

definition journalled :: Package where
  "journalled = \<lparr>pk_ID = 4, pk_SupplierID = 9, pk_ReceivedAt = 1735819200000000000, pk_PackageHash = sample_hash, PayloadType_of = ''xml'',
     StorageMode = ''single'', pk_OriginalFilename = None, CanonicalPackageID = None, FileCount = 1, UnpackError = None,
     Files = [\<lparr>pf_ID = 6, pf_PackageID = 4, BlobHash = sample_hash, Role = ''original'', pf_OriginalFilename = None, SequenceNumber = None, pf_Size = 0\<rparr>]\<rparr>"

definition sample_index :: IndexEntry where
  "sample_index = \<lparr>ieOffset = 0, ieStoredSize = 20, ieLogicalSize = 10, ieMagic = 1, ieHash = sample_hash, ieSupplierID = 9, ieDictID = 0\<rparr>"

definition lost_database :: rebuild_env where
  "lost_database = \<lparr>rb_dir = \<lparr>dfiles = [(''segment_0000.idx'', \<lparr>fdata = EncodeIndexEntry sample_index, fsynced = 60, fmtime = 0\<rparr>),
       (JournalFile, \<lparr>fdata = journal_text [EntryFromPackage journalled], fsynced = 0, fmtime = 0\<rparr>)], dio = []\<rparr>,
     rb_side = \<lparr>dfiles = [], dio = []\<rparr>, rb_db = empty_meta []\<rparr>"

lemma journalled_readable: "readable (EntryFromPackage journalled)"
proof -
  have "length (marshal_entry (EntryFromPackage journalled)) < 1000" by code_simp
  moreover have "entry_range (EntryFromPackage journalled)" by code_simp
  ultimately show ?thesis by (simp add: readable_def maxTokenSize_def)
qed

lemma lost_index: "parseIndex ''segment_0000.idx'' (EncodeIndexEntry sample_index) = Inr [sample_index]"
  "sscanf_segment ''.idx'' ''segment_0000.idx'' = Some 0" "sscanf_segment ''.idx'' JournalFile = None"
  by code_simp+

lemma journalled_year: "four_digit_year (pk_ReceivedAt journalled)"
  by code_simp

lemma restore_journalled: "restoreJournalEntry (stored_entry (EntryFromPackage journalled)) db =
  tryE (RestorePackage (journalled\<lparr>Files := []\<rparr>) db) (\<lambda>_ db. tryE (RestorePackageFile (hd (Files journalled)) db) (\<lambda>_ db. (Inr (), db)))"
proof -
  let ?e = "stored_entry (EntryFromPackage journalled)"
  have e: "je_PackageHash ?e = hex_EncodeToString (pk_PackageHash journalled)" "je_ReceivedAt ?e = FormatTimeUTC (pk_ReceivedAt journalled)"
      "je_PackageID ?e = 4" "(case je_Files ?e of None \<Rightarrow> [] | Some fs \<Rightarrow> fs) = [file_ref (hd (Files journalled))]"
      "restored_package ?e (pk_PackageHash journalled) (pk_ReceivedAt journalled) = journalled\<lparr>Files := []\<rparr>"
      "fr_BlobHash (file_ref (hd (Files journalled))) = hex_EncodeToString sample_hash"
      "restored_file 4 (file_ref (hd (Files journalled))) sample_hash = hd (Files journalled)"
    by (simp_all add: stored_entry_def EntryFromPackage_def restored_package_def journalled_def file_ref_def restored_file_def)
  show ?thesis
    unfolding restoreJournalEntry_def e hex_DecodeString_Encode time_Parse_Format [OF journalled_year] option.case e(5) restore_files.simps e(6,7) by simp
qed

lemma lost_statements:
  "\<exists>db1 db2 db3 db4. UpsertContentBlob (indexed_blob 0 sample_index 0) (empty_meta []) = (Inr (), db1)
     \<and> restoreJournalEntry (stored_entry (EntryFromPackage journalled)) db1 = (Inr (), db2)
     \<and> RecomputeRefCounts db2 = (Inr (), db3) \<and> ResetIDSequences db3 = (Inr (), db4)"
proof -
  let ?run = "tryE (UpsertContentBlob (indexed_blob 0 sample_index 0) (empty_meta [])) (\<lambda>_ db.
     tryE (tryE (RestorePackage (journalled\<lparr>Files := []\<rparr>) db) (\<lambda>_ db. tryE (RestorePackageFile (hd (Files journalled)) db) (\<lambda>_ db. (Inr (), db)))) (\<lambda>_ db.
     tryE (RecomputeRefCounts db) (\<lambda>_ db. ResetIDSequences db)))"
  have "fst ?run = Inr ()" by code_simp
  then obtain db4 where "?run = (Inr (), db4)" by (metis prod.collapse)
  then show ?thesis unfolding restore_journalled [symmetric] tryE_Inr_iff by auto
qed

lemma lost_database_rebuilt: "\<exists>s'. Rebuild True [] (\<lambda>_. 0) lost_database = (Inr (1, 1), s')"
proof -
  have "read_lines (split_lines (journal_text [EntryFromPackage journalled])) [] = Inr [stored_entry (EntryFromPackage journalled)]"
    using read_journal_text [of "[EntryFromPackage journalled]"] journalled_readable by simp
  then have rj: "ReadJournal JournalFile (rb_dir lost_database) = (Inr [stored_entry (EntryFromPackage journalled)], rb_dir lost_database)"
    by (simp add: ReadJournal_def os_ReadFile_def lost_database_def next_io_def JournalFile_def)
  have tr: "TruncateRecoveryTables (rb_db lost_database) = (Inr (), empty_meta [])"
    by (simp add: TruncateRecoveryTables_def pool_stmt_def md_take_fault_def empty_meta_def lost_database_def)
  have lc: "LoadCurrent (rb_side lost_database) = (Inr (0, []), rb_side lost_database)"
    by (simp add: LoadCurrent_def os_ReadFile_def next_io_def lost_database_def enoent_def)
  have li: "ListIndexFiles (rb_dir lost_database) = (Inr [''segment_0000.idx''], rb_dir lost_database)"
    by (simp add: ListIndexFiles_def os_ReadDir_def next_io_def lost_database_def lost_index)
  have ri: "ReadIndexFile ''segment_0000.idx'' (rb_dir lost_database) = (Inr [sample_index], rb_dir lost_database)"
    by (simp add: ReadIndexFile_def os_ReadFile_def next_io_def lost_database_def lost_index)
  obtain db1 db2 db3 db4 where "UpsertContentBlob (indexed_blob 0 sample_index 0) (empty_meta []) = (Inr (), db1)"
    "restoreJournalEntry (stored_entry (EntryFromPackage journalled)) db1 = (Inr (), db2)"
    "RecomputeRefCounts db2 = (Inr (), db3)" "ResetIDSequences db3 = (Inr (), db4)" using lost_statements by blast
  then show ?thesis by (simp add: Rebuild_def Let_def on_db_def on_side_def on_dir_def tr lc li ri rj lost_index)
qed

theorem rebuild_restores_journal_witness:
  "\<exists>s'. Rebuild True [] (\<lambda>_. 0) lost_database = (Inr (1, 1), s') \<and> package_row (rb_db s') 4 = Some (journalled\<lparr>Files := []\<rparr>)
     \<and> file_row (rb_db s') 6 = Some (hd (Files journalled)) \<and> md_wf (rb_db s')
     \<and> blob_row (rb_db s') sample_hash = Some (10, 20, 0, 0)"
proof -
  obtain s' where s': "Rebuild True [] (\<lambda>_. 0) lost_database = (Inr (1, 1), s')" using lost_database_rebuilt by blast
  have "list_all readable (map EntryFromPackage [journalled])" "list_all (\<lambda>p. four_digit_year (pk_ReceivedAt p)) [journalled]"
    using journalled_readable journalled_year by simp_all
  moreover have "index_rows (rb_dir lost_database) = [(sample_hash, 10, 20, 0, 0)]"
    by (simp add: index_rows_def path_rows_def lost_database_def lost_index) (simp add: index_row_def sample_index_def)
  ultimately show ?thesis using rebuild_restores_journal [OF s', of _ "[journalled]"] s'
    by (fastforce simp: lost_database_def JournalFile_def journalled_files_def journalled_def)
qed

subsection \<open>Journals that cannot be read\<close>

text \<open>Before the journal is restored the tables of packages stay as the truncation left them.\<close>

definition emptied :: "(string \<Rightarrow> dfile option) \<Rightarrow> rebuild_env \<Rightarrow> bool" where
  "emptied D s \<longleftrightarrow> packages (rb_db s) = [] \<and> package_files (rb_db s) = [] \<and> dlookup (rb_dir s) = D"

lemma pool_stmt_keeps:
  assumes "\<And>d. packages (snd (f d)) = packages d \<and> package_files (snd (f d)) = package_files d"
  shows "packages (snd (pool_stmt f db)) = packages db \<and> package_files (snd (pool_stmt f db)) = package_files db"
  using assms by (auto simp: pool_stmt_def md_take_fault_tables split: prod.splits fault.splits nat.splits)

lemma emptied_on_db:
  "(\<And>d. packages (snd (f d)) = packages d \<and> package_files (snd (f d)) = package_files d) \<Longrightarrow> emptied D s \<Longrightarrow> emptied D (snd (on_db app f s))"
  by (auto simp: on_db_def emptied_def split: prod.splits) (metis snd_conv)+

lemma emptied_upsert: "emptied D s \<Longrightarrow> emptied D (snd (on_db app (UpsertContentBlob b) s))"
  unfolding UpsertContentBlob_def by (rule emptied_on_db, rule pool_stmt_keeps) (auto simp: Let_def)

lemma emptied_save: "emptied D s \<Longrightarrow> emptied D (snd (on_db app (SaveDictionary bs n) s))"
  unfolding SaveDictionary_def by (rule emptied_on_db, rule pool_stmt_keeps) auto

lemma emptied_on_dir: "(\<And>d. dlookup (snd (f d)) = dlookup d) \<Longrightarrow> emptied D s \<Longrightarrow> emptied D (snd (on_dir f s))"
  by (auto simp: on_dir_def emptied_def split: prod.splits) (metis snd_conv)

lemma emptied_on_side: "emptied D s \<Longrightarrow> emptied D (snd (on_side f s))"
  by (auto simp: on_side_def emptied_def split: prod.splits)

lemma emptied_upserts: "emptied D s \<Longrightarrow> emptied D (snd (upsert_entries app now seg es n s))"
proof (induction es arbitrary: n s)
  case (Cons e es)
  show ?case unfolding upsert_entries.simps
    by (rule tryE_inv [where P = "emptied D"]) (use emptied_upsert [OF Cons.prems] Cons.IH in auto)
qed simp

lemma emptied_indexes: "emptied D s \<Longrightarrow> emptied D (snd (restore_indexes app now paths n s))"
proof (induction paths arbitrary: n s)
  case (Cons path paths)
  have rd: "emptied D (snd (on_dir (ReadIndexFile path) s))"
    using ReadIndexFile_frame [of path] by (intro emptied_on_dir Cons.prems) (metis prod.collapse)
  show ?case
  proof (cases "sscanf_segment ''.idx'' path")
    case None
    with Cons show ?thesis by simp
  next
    case (Some seg)
    have "emptied D (snd (tryE (upsert_entries app now seg es n t) (\<lambda>n s. restore_indexes app now paths n s)))" if "emptied D t" for es t
      by (rule tryE_inv [where P = "emptied D"]) (use emptied_upserts [OF that] Cons.IH in auto)
    then show ?thesis using Some rd by (simp add: tryE_inv [where P = "emptied D"])
  qed
qed simp

lemma journal_too_long:
  assumes "list_all readable es1" and "maxTokenSize \<le> length (marshal_entry e)"
  shows "read_lines (split_lines (journal_text (es1 @ e # es2))) [] = Inl ErrTooLong"
proof -
  have "split_lines (journal_text (es1 @ e # es2)) = map marshal_entry es1 @ marshal_entry e # map marshal_entry es2"
    using split_journal_text [of "es1 @ e # es2" "[]"] by simp
  then show ?thesis using assms read_lines_entries [OF assms(1), of "marshal_entry e # map marshal_entry es2" "[]"] by simp
qed

lemma ListIndexFiles_frame: "dlookup (snd (ListIndexFiles d)) = dlookup d"
proof -
  obtain r d' where r: "os_ReadDir d = (r, d')" by fastforce
  then show ?thesis using os_ReadDir_frame [OF r] by (cases r) (simp_all add: ListIndexFiles_def)
qed

lemma ReadJournal_frame: "dlookup (snd (ReadJournal path d)) = dlookup d"
proof -
  obtain r d' where r: "os_ReadFile path d = (r, d')" by fastforce
  then show ?thesis using os_ReadFile_frame [OF r] by (cases r) (simp_all add: ReadJournal_def)
qed

text \<open>A run that fails and leaves the tables of packages empty.\<close>

definition fails_emptied :: "(string \<Rightarrow> dfile option) \<Rightarrow> (rebuild_env, 'a) result \<Rightarrow> bool" where
  "fails_emptied D q \<longleftrightarrow> (\<exists>err. fst q = Inl err) \<and> emptied D (snd q)"

lemma fails_emptied_tryE:
  "emptied D (snd q) \<Longrightarrow> (\<And>x t. q = (Inr x, t) \<Longrightarrow> emptied D t \<Longrightarrow> fails_emptied D (k x t)) \<Longrightarrow> fails_emptied D (tryE q k)"
  by (cases "(q, k)" rule: tryE.cases) (auto simp: fails_emptied_def)

text \<open>
  C35 (error). When the journal holds an entry of 4 MiB or more, which \<^verbatim>\<open>Append\<close> writes and acknowledges
  like any other, behind entries that are readable, an applied rebuild fails even though no
  statement of the database fails. As packages and files are deleted before the journal is
  read, it leaves the tables \<^verbatim>\<open>packages\<close> and \<^verbatim>\<open>package_files\<close> empty; the rows of \<^verbatim>\<open>content_blobs\<close>
  that the index files restored stay.
\<close>

theorem rebuild_fails_on_long_entry:
  assumes "dlookup (rb_dir s) JournalFile = Some f" and "fdata f = journal_text (es1 @ e # es2)" and "list_all readable es1"
    and "maxTokenSize \<le> length (marshal_entry e)" and "md_faults (rb_db s) = []" and "Rebuild True [] now s = (r, s')"
  shows "(\<exists>err. r = Inl err) \<and> packages (rb_db s') = [] \<and> package_files (rb_db s') = []"
proof -
  let ?D = "dlookup (rb_dir s)"
  have nj: "on_dir (ReadJournal JournalFile) t \<noteq> (Inr es, t')" if "emptied ?D t" for t es t'
  proof
    assume "on_dir (ReadJournal JournalFile) t = (Inr es, t')"
    then obtain d' where "ReadJournal JournalFile (rb_dir t) = (Inr es, d')" by (auto simp: on_dir_def split: prod.splits)
    from ReadJournal_Inr [OF this] that assms(1,2) journal_too_long [OF assms(3,4), of es2] show False by (simp add: emptied_def)
  qed
  have tr: "emptied ?D (snd (on_db True TruncateRecoveryTables s))"
    using assms(5) by (simp add: on_db_def TruncateRecoveryTables_def pool_stmt_def md_take_fault_def emptied_def)
  have "fails_emptied ?D (Rebuild True [] now s)"
    unfolding Rebuild_def Let_def if_True simp_thms
    apply (rule fails_emptied_tryE, rule tr)
    apply (rule fails_emptied_tryE, erule emptied_on_side)
    apply (simp only: split_beta)
    apply (rule fails_emptied_tryE, erule emptied_save)
    apply (rule fails_emptied_tryE, rule emptied_on_dir [OF ListIndexFiles_frame], assumption)
    apply (rule fails_emptied_tryE, erule emptied_indexes)
    apply (rule fails_emptied_tryE, rule emptied_on_dir [OF ReadJournal_frame], assumption)
    using nj by blast
  then show ?thesis using assms(6) by (auto simp: emptied_def fails_emptied_def)
qed

definition long_entry :: JournalEntry where
  "long_entry = Journal.sample_entry\<lparr>je_OriginalFilename := Some (replicate maxTokenSize (CHR ''a''))\<rparr>"

lemma length_commas: "x \<in> set xs \<Longrightarrow> length x \<le> length (commas xs)"
  by (induction xs rule: commas.induct) auto

lemma length_member: "(k, JStr v) \<in> set kvs \<Longrightarrow> length v \<le> length (json_text (JObj kvs))"
proof -
  assume "(k, JStr v) \<in> set kvs"
  then have "length (member_text (k, JStr v)) \<le> length (commas (map member_text kvs))" by (intro length_commas) force
  then show ?thesis using length_json_chars [of v] by (simp add: json_string_def)
qed

lemma long_entry_length: "maxTokenSize \<le> length (marshal_entry long_entry)"
proof -
  have "length (replicate maxTokenSize (CHR ''a'')) \<le> length (json_text (entry_json (stored_entry long_entry)))"
    unfolding entry_json_def by (rule length_member [of "''original_filename''"]) (simp add: long_entry_def stored_entry_def omitempty_def)
  then show ?thesis by (simp only: marshal_entry_def text_bytes_def length_map length_replicate flip: stored_entry_def)
qed

theorem rebuild_fails_on_long_entry_witness:
  "\<exists>j r s'. Journal_Append long_entry (empty_journal []) = (Inr (), j)
     \<and> Rebuild True [] (\<lambda>_. 0) \<lparr>rb_dir = jn_disk j, rb_side = \<lparr>dfiles = [], dio = []\<rparr>, rb_db = rb_db lost_database\<rparr> = (r, s')
     \<and> (\<exists>err. r = Inl err) \<and> packages (rb_db s') = []"
proof -
  obtain j where j: "Journal_Append long_entry (empty_journal []) = (Inr (), j)"
    by (simp add: empty_journal_def Journal_Append_def jn_write_def on_jn_def os_WriteAt_def os_Sync_def next_io_def put_file_def)
  obtain g where g: "dlookup (jn_disk j) JournalFile = Some g" "fdata g = journal_text ([] @ long_entry # [])"
    using Journal_Append_Inr [OF j, of empty_file] by (auto simp: empty_journal_def empty_file_def)
  let ?s = "\<lparr>rb_dir = jn_disk j, rb_side = \<lparr>dfiles = [], dio = []\<rparr>, rb_db = rb_db lost_database\<rparr>"
  obtain r s' where r: "Rebuild True [] (\<lambda>_. 0) ?s = (r, s')" by fastforce
  have "(\<exists>err. r = Inl err) \<and> packages (rb_db s') = [] \<and> package_files (rb_db s') = []"
    by (rule rebuild_fails_on_long_entry [OF _ g(2) _ long_entry_length _ r]) (simp_all add: g(1) lost_database_def empty_meta_def)
  with j r show ?thesis by blast
qed

end
