(* ===== verification/Spec2Isabelle.thy ===== *)
theory Spec2Isabelle
  imports Segment_Index Write_Buffer Shard_Start Rebuild
begin

text \<open>
  Verification of little-big-files, a content-addressed store for many small files.

  \<^bold>\<open>The program.\<close> A shard takes packages (an XML document or a zip archive) over HTTP, stores every
  content once in append-only segment files, and keeps packages, their files and the reference
  counts of contents in PostgreSQL. A coordinator keeps the table of shards, of which one is active
  and takes writes, forwards writes to it and reads to the shard an id names, and rotates to a
  standby shard when the active one is full. A journal and the index files of the segments allow
  the database to be rebuilt.

  \<^bold>\<open>Style of the model.\<close> Go structs are records, enumerations datatypes; an operation takes the
  state and returns a result (\<open>Inl\<close> the error, \<open>Inr\<close> the value) and the state. Everything outside
  the program is explicit: the file system (\<open>Disk\<close>) has contents, synced contents and a schedule
  that says how each call fails or how much of it happens; the databases have a schedule of failing
  statements, and the coordinator's also of the changes other processes make between statements;
  HTTP answers and the clock are schedules too. An empty schedule is a world that does not fail, so
  a theorem without an assumption on schedules holds whatever fails. The libraries for Zstandard,
  zip archives, Bloom filters and RocksDB are arguments; what is assumed of them is
  named (\<open>zstd_laws\<close>, \<open>bloom_laws\<close>, \<open>rocks_laws\<close>) and shown to hold for a concrete instance.
  Loops over a file recurse on the bytes that are left and terminate by measure; the retry loop of
  the registration client runs on its schedule of answers, and it is proved to end.

  \<^bold>\<open>Storage\<close> (\<^verbatim>\<open>src/internal/storage\<close>).
  \<^item> \<open>Checksum\<close>, \<open>Sha256\<close>: CRC-32C and SHA-256 bit by bit; detection of a changed byte.
  \<^item> \<open>Record_Format\<close> (\<^verbatim>\<open>record.go\<close>): codecs of records and footers, as interpretations of the codec
    locales of \<open>Lbf_Prelude\<close>.
  \<^item> \<open>Disk\<close>: files, handles, short writes, failing syncs, crashes.
  \<^item> \<open>Segment\<close>, \<open>Segment_Append\<close>, \<open>Segment_Read\<close>, \<open>Segment_Restart\<close>, \<open>Segment_Props\<close> (\<^verbatim>\<open>segment.go\<close>):
    the manager with appends, batches, rotation, reads and recovery; acknowledged records are
    durable, are read back, and survive a crash and restart in segments without footer and without
    empty records; both exceptions are shown to lose data. The streaming and the in-memory scan agree.
  \<^item> \<open>Write_Buffer\<close> (\<^verbatim>\<open>write_buffer.go\<close>): callers, the flush loop, channels and cancellation as a step
    relation; in every interleaving a caller is only told of its own durable record, and closing
    waits for the loop and leaves no caller without an answer.
  \<^item> \<open>Segment_Index\<close> (\<^verbatim>\<open>segment_index.go\<close>): entry codec, append and reading of index files.
  \<^item> \<open>Compress\<close> (\<^verbatim>\<open>compress/encoder.go\<close>), \<open>Dedup\<close> (\<^verbatim>\<open>dedup/\<close>): the encoder; the hot index as a client of
    the locale \<open>kv_store\<close>, interpreted for the memory store and applied to the RocksDB one.
  \<^item> \<open>Blob_Store\<close> (\<^verbatim>\<open>blob_store.go\<close>): storing, referencing and reading content; every row of the table
    stays backed by a durable record, whatever fails.

  \<^bold>\<open>Metadata\<close> (\<^verbatim>\<open>src/internal/metadata\<close>, \<^verbatim>\<open>src/internal/testmetadata\<close>).
  \<^item> \<open>Metadata\<close>: tables, constraints, sequences, transactions and all statements; \<open>Meta_Memory\<close>: the
    in-memory repository; \<open>Meta_Refine\<close>: transactions are atomic, whatever their bodies do, and keep
    the tables well-formed, and the in-memory repository refines the PostgreSQL one on runs that
    name only known blobs.

  \<^bold>\<open>Ingestion\<close> (\<^verbatim>\<open>src/internal/ingestion\<close>).
  \<^item> \<open>Zip_Detect\<close> (\<^verbatim>\<open>detect.go\<close>): detection and bounded unpacking. \<open>Unpack_Queue\<close> (\<^verbatim>\<open>unpack_worker.go\<close>):
    the queue of archives to unpack, with callers, workers and the recovery scan as a step relation;
    no package is unpacked twice at a time.
  \<^item> \<open>Ingestion\<close> (\<^verbatim>\<open>package.go\<close>, \<^verbatim>\<open>stats.go\<close>, \<^verbatim>\<open>unpack_large.go\<close>): packages in, clones, unpacking of small
    and large archives. \<open>Ingest_Inv\<close>: rules for the bodies of its transactions, which bound the
    references a transaction still owes; \<open>Ingest_Props\<close>: the invariant of the shard holds in every
    history, and an accepted package reads back.

  \<^bold>\<open>Recovery and start\<close> (\<^verbatim>\<open>src/internal/recovery\<close>, \<^verbatim>\<open>src/internal/compress\<close>).
  \<^item> \<open>Journal\<close> (\<^verbatim>\<open>journal.go\<close>, \<^verbatim>\<open>journal_record.go\<close>): entries, their JSON text and appends. \<open>Json_Parse\<close>: the
    parser for such texts, inverse to printing; its recursion is bounded by the length of the text,
    which suffices because every value takes at least one character. \<open>Journal_Read\<close>: decoding and
    reading; appended entries shorter than 4 MiB read back, and an append to a journal of whole
    entries that fails part-way loses nothing earlier.
  \<^item> \<open>Sidecar\<close>, \<open>Bootstrap\<close> (\<^verbatim>\<open>sidecar.go\<close>, \<^verbatim>\<open>bootstrap.go\<close>, \<^verbatim>\<open>train.go\<close>): the dictionary on disk and its choice
    at start; saving, for the first time or over another dictionary, is atomic, and the choice stays
    the same.
  \<^item> \<open>Time_Parse\<close>: RFC 3339 times, parsing inverse to formatting. \<open>Rebuild\<close> (\<^verbatim>\<open>rebuild.go\<close>): the database
    from journal, index files and sidecar; which packages, files, blobs and dictionary it restores,
    and the journal it fails on.

  \<^bold>\<open>The shard's server\<close> (\<^verbatim>\<open>src/internal/api\<close>, \<^verbatim>\<open>src/internal/diskspace\<close>, \<^verbatim>\<open>src/cmd/server\<close>).
  \<^item> \<open>Shard_Api\<close> (\<^verbatim>\<open>handlers.go\<close>, \<^verbatim>\<open>shard.go\<close>, \<^verbatim>\<open>body.go\<close>): all handlers, the guard and authentication; a package
    answered 201 is served for good, what a request for a file is answered, a sealed shard refuses
    writes.
  \<^item> \<open>Disk_Gate\<close> (\<^verbatim>\<open>free.go\<close>, \<^verbatim>\<open>runDiskWriteGate\<close>): measuring free space and blocking writes with hysteresis.
    \<open>Shard_Steady\<close>: requests, jobs and ticks change neither the encoder nor the table of dictionaries.
  \<^item> \<open>Shard_Start\<close> (\<^verbatim>\<open>main.go\<close>): the start of a shard from its disks and database, composed of the parts
    above, and its life as a relation of events, crashes and restarts: packages survive, under the
    conditions on segments and compression named there; a shard the coordinator knows as sealed
    starts read-only; turning compression off hides what was compressed.

  \<^bold>\<open>Coordinator\<close> (\<^verbatim>\<open>src/internal/coordinator\<close>, \<^verbatim>\<open>globalid\<close>, \<^verbatim>\<open>supplier\<close>, \<^verbatim>\<open>config\<close>).
  \<^item> \<open>Global_Id\<close>: the bit layout of global ids, the supplier parameter. \<open>Json\<close>: values and their fields.
  \<^item> \<open>Coord_Repo\<close> (\<^verbatim>\<open>repo.go\<close>), \<open>Coord_Registry\<close> and \<open>Coord_Proxy\<close> (\<^verbatim>\<open>registry.go\<close>), \<open>Coord_Server\<close>
    (\<^verbatim>\<open>server.go\<close>, \<^verbatim>\<open>admin_requests.go\<close>), \<open>Register_Client\<close> (\<^verbatim>\<open>register_client.go\<close>), \<open>Config\<close>
    (\<^verbatim>\<open>config.go\<close>: every variable with its default, integers, booleans and durations).
  \<^item> \<open>Coord_Proxy\<close>, \<open>Coord_Props\<close>, \<open>Coord_Routing\<close>: a promotion does exactly its change of the shard table
    or none; a rotation follows the seal of the active shard; an id given to a client leads back to
    the shard that took the package. (That one shard is active at most is a constraint of the
    database, which the model enforces on every statement, as the schema does.)

  \<^bold>\<open>Not modelled.\<close> Signals, shutdown and the other commands of \<^verbatim>\<open>src/cmd\<close>; the gauges and counters of
  the metrics library; routing tables and middleware of the HTTP library; connecting to databases and
  migrations; floating-point options (the false-positive rate of the Bloom filter) and JSON numbers
  beyond integers; the nesting limit of Go's JSON decoder and the merging of a repeated \<^verbatim>\<open>files\<close> key,
  neither of which a journal written by the program can reach.
\<close>

end
